(* ===== verification/Fep_Prelude.thy ===== *)
theory Fep_Prelude
  imports Main "HOL-Library.Word" "HOL-Library.Signed_Division"
begin

text \<open>
  The vocabulary all components share: the result codes of \<open>include/fep_errors.h\<close>, the combination
  \<open>operator|\<close> of two results, timestamps (microseconds in \<open>timestamp_t\<close>, an \<open>int64_t\<close>) and the
  wrap-around of signed integers of 32 and 64 bits.

  \<open>fep::Result\<close> comes from the library \<open>a_util\<close>, which is not part of the repository. The repository
  only uses its error code and the tests \<open>isOk\<close> and \<open>isFailed\<close>; the codes themselves are declared in
  \<open>fep_errors.h\<close> (0 for success, negative numbers for failures), and the text, line and file a
  result can carry do not influence any decision of the code modelled here.
\<close>

section \<open>Automation\<close>

named_theorems result_simps \<open>evaluation of result codes and their combination\<close>
named_theorems range_simps \<open>signed integers that stay inside their width\<close>

section \<open>Result codes\<close>

datatype (plugins only: code) fep_result =
    ERR_NOERROR | ERR_UNKNOWN | ERR_UNEXPECTED | ERR_POINTER | ERR_INVALID_ARG
  | ERR_INVALID_FUNCTION | ERR_INVALID_ADDRESS | ERR_INVALID_HANDLE | ERR_INVALID_FLAGS
  | ERR_INVALID_INDEX | ERR_INVALID_FILE | ERR_MEMORY | ERR_TIMEOUT | ERR_OUT_OF_SYNC
  | ERR_RESOURCE_IN_USE | ERR_NOT_IMPL | ERR_NO_INTERFACE | ERR_NO_CLASS | ERR_NOT_SUPPORTED
  | ERR_NOT_FOUND | ERR_CANCELLED | ERR_RETRY | ERR_FILE_NOT_FOUND | ERR_PATH_NOT_FOUND
  | ERR_ACCESS_DENIED | ERR_NOT_READY | ERR_OPEN_FAILED | ERR_IO_INCOMPLETE | ERR_IO_PENDING
  | ERR_NOACCESS | ERR_BAD_DEVICE | ERR_DEVICE_IO | ERR_DEVICE_NOT_READY | ERR_DEVICE_IN_USE
  | ERR_NOT_CONNECTED | ERR_UNKNOWN_FORMAT | ERR_NOT_INITIALISED | ERR_FAILED | ERR_END_OF_FILE
  | ERR_INVALID_STATE | ERR_EXCEPTION_RAISED | ERR_INVALID_TYPE | ERR_EMPTY | ERR_INVALID_VERSION
  | ERR_INVALID_LICENSE | ERR_SERVICE_NOT_FOUND | ERR_DAU | ERR_IDLE_NOWAIT | ERR_OUT_OF_RANGE
  | ERR_KNOWN_PROBLEM

fun getErrorCode :: "fep_result \<Rightarrow> int" where
  "getErrorCode ERR_NOERROR = 0"
| "getErrorCode ERR_UNKNOWN = -2"
| "getErrorCode ERR_UNEXPECTED = -3"
| "getErrorCode ERR_POINTER = -4"
| "getErrorCode ERR_INVALID_ARG = -5"
| "getErrorCode ERR_INVALID_FUNCTION = -6"
| "getErrorCode ERR_INVALID_ADDRESS = -7"
| "getErrorCode ERR_INVALID_HANDLE = -8"
| "getErrorCode ERR_INVALID_FLAGS = -9"
| "getErrorCode ERR_INVALID_INDEX = -10"
| "getErrorCode ERR_INVALID_FILE = -11"
| "getErrorCode ERR_MEMORY = -12"
| "getErrorCode ERR_TIMEOUT = -13"
| "getErrorCode ERR_OUT_OF_SYNC = -14"
| "getErrorCode ERR_RESOURCE_IN_USE = -15"
| "getErrorCode ERR_NOT_IMPL = -16"
| "getErrorCode ERR_NO_INTERFACE = -17"
| "getErrorCode ERR_NO_CLASS = -18"
| "getErrorCode ERR_NOT_SUPPORTED = -19"
| "getErrorCode ERR_NOT_FOUND = -20"
| "getErrorCode ERR_CANCELLED = -21"
| "getErrorCode ERR_RETRY = -22"
| "getErrorCode ERR_FILE_NOT_FOUND = -23"
| "getErrorCode ERR_PATH_NOT_FOUND = -24"
| "getErrorCode ERR_ACCESS_DENIED = -25"
| "getErrorCode ERR_NOT_READY = -26"
| "getErrorCode ERR_OPEN_FAILED = -27"
| "getErrorCode ERR_IO_INCOMPLETE = -28"
| "getErrorCode ERR_IO_PENDING = -29"
| "getErrorCode ERR_NOACCESS = -30"
| "getErrorCode ERR_BAD_DEVICE = -31"
| "getErrorCode ERR_DEVICE_IO = -32"
| "getErrorCode ERR_DEVICE_NOT_READY = -33"
| "getErrorCode ERR_DEVICE_IN_USE = -34"
| "getErrorCode ERR_NOT_CONNECTED = -35"
| "getErrorCode ERR_UNKNOWN_FORMAT = -36"
| "getErrorCode ERR_NOT_INITIALISED = -37"
| "getErrorCode ERR_FAILED = -38"
| "getErrorCode ERR_END_OF_FILE = -39"
| "getErrorCode ERR_INVALID_STATE = -40"
| "getErrorCode ERR_EXCEPTION_RAISED = -41"
| "getErrorCode ERR_INVALID_TYPE = -42"
| "getErrorCode ERR_EMPTY = -43"
| "getErrorCode ERR_INVALID_VERSION = -44"
| "getErrorCode ERR_INVALID_LICENSE = -45"
| "getErrorCode ERR_SERVICE_NOT_FOUND = -46"
| "getErrorCode ERR_DAU = -47"
| "getErrorCode ERR_IDLE_NOWAIT = -48"
| "getErrorCode ERR_OUT_OF_RANGE = -49"
| "getErrorCode ERR_KNOWN_PROBLEM = -50"

definition isFailed :: "fep_result \<Rightarrow> bool" where
  "isFailed r \<longleftrightarrow> getErrorCode r < 0"

definition isOk :: "fep_result \<Rightarrow> bool" where
  "isOk r \<longleftrightarrow> \<not> isFailed r"

lemma isFailed_iff [simp, result_simps]: "isFailed r \<longleftrightarrow> r \<noteq> ERR_NOERROR"
  by (cases r) (simp_all add: isFailed_def)

lemma isOk_iff [simp, result_simps]: "isOk r \<longleftrightarrow> r = ERR_NOERROR"
  by (simp add: isOk_def)

text \<open>\<open>operator|\<close>: the first failure wins; \<open>operator|=\<close> stores it in its left operand.\<close>

definition result_or :: "fep_result \<Rightarrow> fep_result \<Rightarrow> fep_result" where
  "result_or lhs rhs = (if isFailed lhs then lhs else rhs)"

lemma result_or_simps [simp, result_simps]:
  "result_or ERR_NOERROR r = r"
  "result_or r ERR_NOERROR = r"
  "r \<noteq> ERR_NOERROR \<Longrightarrow> result_or r r' = r"
  by (simp_all add: result_or_def)

lemma result_or_ok [simp]: "result_or a b = ERR_NOERROR \<longleftrightarrow> a = ERR_NOERROR \<and> b = ERR_NOERROR"
  by (simp add: result_or_def)

lemma result_or_assoc: "result_or (result_or a b) c = result_or a (result_or b c)"
  by (simp add: result_or_def)

section \<open>Timestamps and signed integers\<close>

type_synonym timestamp_t = int

text \<open>
  The value an expression of type \<open>int32_t\<close> or \<open>int64_t\<close> has when its mathematical result is \<open>x\<close>:
  two's complement, which is what the supported compilers produce.
\<close>

definition int32 :: "int \<Rightarrow> int" where
  "int32 x = signed_take_bit 31 x"

definition int64 :: "int \<Rightarrow> int" where
  "int64 x = signed_take_bit 63 x"

definition in_int64 :: "int \<Rightarrow> bool" where
  "in_int64 x \<longleftrightarrow> - (2 ^ 63) \<le> x \<and> x < 2 ^ 63"

lemma int64_id [range_simps]: "in_int64 x \<Longrightarrow> int64 x = x"
  by (simp add: in_int64_def int64_def signed_take_bit_int_eq_self)

lemma in_int64_int64: "in_int64 (int64 x)"
  using signed_take_bit_int_greater_eq_minus_exp [of 63 x] signed_take_bit_int_less_exp [of 63 x]
  by (simp add: in_int64_def int64_def)

lemma in_int64_between: "in_int64 b \<Longrightarrow> 0 \<le> a \<Longrightarrow> a \<le> b \<Longrightarrow> in_int64 a"
  by (simp add: in_int64_def)

lemma int32_id [range_simps]: "- (2 ^ 31) \<le> x \<Longrightarrow> x < 2 ^ 31 \<Longrightarrow> int32 x = x"
  by (simp add: int32_def signed_take_bit_int_eq_self)

lemma sint_word_of_int_int64 [range_simps]: "in_int64 x \<Longrightarrow> sint (word_of_int x :: 64 word) = x"
  by (simp add: in_int64_def sint_sbintrunc' signed_take_bit_int_eq_self)

text \<open>On the non-negative integers C++'s division and remainder are the mathematical ones.\<close>

lemma smod_eq_mod: "0 \<le> a \<Longrightarrow> 0 < b \<Longrightarrow> a smod b = a mod (b :: int)"
  by (cases "a = 0") (simp_all add: signed_modulo_int_def)

lemma sdiv_eq_div: "0 \<le> a \<Longrightarrow> 0 < b \<Longrightarrow> a sdiv b = a div (b :: int)"
  by (cases "a = 0") (simp_all add: signed_divide_int_def)

end
