(* ===== verification/Listener_Registry.thy ===== *)
theory Listener_Registry
  imports Fep_Prelude
begin

text \<open>
  \<open>fep::ext::cListenerRegistry\<close> of \<open>src/_common/fep_observer_pattern.h\<close>: an ordered list of listeners
  that may be registered several times, and the notification that calls every listener once, the
  ones registered by a callback included, and returns the first failure.

  A listener pointer is an \<open>option\<close> at the interface (\<open>None\<close> for \<open>NULL\<close>) and a value in the list. The
  two recursive mutexes guard against other threads; a callback runs in the notifying thread, passes
  them, and may change the list, so the model threads a state \<open>'w\<close> that contains the list through the
  calls. The loop is \<open>while (true)\<close>: it is a partial function, \<open>None\<close> when it does not end.
\<close>

section \<open>Registration\<close>

definition RegisterListener :: "'l option \<Rightarrow> 'l list \<Rightarrow> fep_result \<times> 'l list" where
  "RegisterListener pListener registered =
     (case pListener of
        None \<Rightarrow> (ERR_POINTER, registered)
      | Some l \<Rightarrow> (ERR_NOERROR, registered @ [l]))"

definition UnregisterListener :: "'l option \<Rightarrow> 'l list \<Rightarrow> fep_result \<times> 'l list" where
  "UnregisterListener pListener registered =
     (case pListener of
        None \<Rightarrow> (ERR_POINTER, registered)
      | Some l \<Rightarrow>
          if l \<notin> set registered then (ERR_NOT_FOUND, registered)
          else (ERR_NOERROR, remove1 l registered))"

definition UnregisterAllListeners :: "'l list \<Rightarrow> fep_result \<times> 'l list" where
  "UnregisterAllListeners registered = (ERR_NOERROR, [])"

section \<open>Notification\<close>

definition FindNextListenerNotContainedInFinishedList :: "'l list \<Rightarrow> 'l list \<Rightarrow> 'l option" where
  "FindNextListenerNotContainedInFinishedList registered finished =
     find (\<lambda>l. l \<notin> set finished) registered"

partial_function (option) notify_loop ::
    "('l \<Rightarrow> 'w \<Rightarrow> fep_result \<times> 'w) \<Rightarrow> ('w \<Rightarrow> 'l list) \<Rightarrow> 'l list \<Rightarrow> fep_result \<Rightarrow> 'w \<Rightarrow>
     (fep_result \<times> 'w) option" where
  "notify_loop func registered finished nResult w =
     (case FindNextListenerNotContainedInFinishedList (registered w) finished of
        None \<Rightarrow> Some (nResult, w)
      | Some l \<Rightarrow>
          notify_loop func registered (finished @ [l])
            (if isOk nResult then fst (func l w) else nResult) (snd (func l w)))"

declare notify_loop.simps [code]

definition NotifyListener ::
    "('l \<Rightarrow> 'w \<Rightarrow> fep_result \<times> 'w) \<Rightarrow> ('w \<Rightarrow> 'l list) \<Rightarrow> 'w \<Rightarrow> (fep_result \<times> 'w) option" where
  "NotifyListener func registered w = notify_loop func registered [] ERR_NOERROR w"

section \<open>The registration contract\<close>

text \<open>A listener registered \<open>n\<close> times has to be unregistered \<open>n\<close> times.\<close>

locale listener_registry =
  fixes register :: "'l option \<Rightarrow> 'r \<Rightarrow> fep_result \<times> 'r"
    and unregister :: "'l option \<Rightarrow> 'r \<Rightarrow> fep_result \<times> 'r"
    and unregister_all :: "'r \<Rightarrow> fep_result \<times> 'r"
    and times :: "'r \<Rightarrow> 'l \<Rightarrow> nat"
  assumes register_null: "register None r = (ERR_POINTER, r)"
    and unregister_null: "unregister None r = (ERR_POINTER, r)"
    and register_result: "fst (register (Some l) r) = ERR_NOERROR"
    and register_times: "times (snd (register (Some l) r)) k = times r k + (if k = l then 1 else 0)"
    and unregister_result: "fst (unregister (Some l) r) =
      (if times r l = 0 then ERR_NOT_FOUND else ERR_NOERROR)"
    and unregister_times: "times (snd (unregister (Some l) r)) k = times r k - (if k = l then 1 else 0)"
    and unregister_all_times: "times (snd (unregister_all r)) k = 0"
begin

fun register_n :: "nat \<Rightarrow> 'l \<Rightarrow> 'r \<Rightarrow> 'r" where
  "register_n 0 l r = r"
| "register_n (Suc n) l r = register_n n l (snd (register (Some l) r))"

fun unregister_n :: "nat \<Rightarrow> 'l \<Rightarrow> 'r \<Rightarrow> 'r" where
  "unregister_n 0 l r = r"
| "unregister_n (Suc n) l r = unregister_n n l (snd (unregister (Some l) r))"

lemma times_register_n: "times (register_n n l r) k = times r k + (if k = l then n else 0)"
  by (induction n arbitrary: r) (simp_all add: register_times)

lemma times_unregister_n: "times (unregister_n n l r) k = times r k - (if k = l then n else 0)"
  by (induction n arbitrary: r) (simp_all add: unregister_times)

lemma unregister_found_iff:
  "times r l = 0 \<Longrightarrow>
   fst (unregister (Some l) (unregister_n m l (register_n n l r))) = ERR_NOERROR \<longleftrightarrow> m < n"
  by (auto simp: unregister_result times_unregister_n times_register_n)

end

interpretation registry: listener_registry RegisterListener UnregisterListener
    UnregisterAllListeners count_list
  by unfold_locales
    (auto simp: RegisterListener_def UnregisterListener_def UnregisterAllListeners_def
      count_list_remove1 count_list_0_iff)

section \<open>Every listener is called once\<close>

text \<open>The listeners in the order of their first registration.\<close>

fun first_occurrences :: "'l list \<Rightarrow> 'l list \<Rightarrow> 'l list" where
  "first_occurrences finished [] = []"
| "first_occurrences finished (l # ls) =
     (if l \<in> set finished then first_occurrences finished ls
      else l # first_occurrences (finished @ [l]) ls)"

fun notify_each :: "('l \<Rightarrow> 'w \<Rightarrow> fep_result \<times> 'w) \<Rightarrow> fep_result \<Rightarrow> 'l list \<Rightarrow> 'w \<Rightarrow> fep_result \<times> 'w" where
  "notify_each func r [] w = (r, w)"
| "notify_each func r (l # ls) w =
     (let (r1, w1) = func l w in notify_each func (if isOk r then r1 else r) ls w1)"

lemma set_first_occurrences: "set (first_occurrences fin ls) = set ls - set fin"
  by (induction fin ls rule: first_occurrences.induct) auto

lemma distinct_first_occurrences: "distinct (first_occurrences fin ls)"
  by (induction fin ls rule: first_occurrences.induct) (auto simp: set_first_occurrences)

lemma find_first_occurrences:
  "find (\<lambda>l. l \<notin> set fin) ls = (case first_occurrences fin ls of [] \<Rightarrow> None | l # _ \<Rightarrow> Some l)"
  by (induction fin ls rule: first_occurrences.induct) auto

lemma first_occurrences_step:
  "first_occurrences fin ls = l # rest \<Longrightarrow> first_occurrences (fin @ [l]) ls = rest"
  by (induction fin ls rule: first_occurrences.induct) (auto split: if_splits)

lemma notify_loop_unchanged:
  assumes "\<And>l v. registered (snd (func l v)) = registered v"
  shows "notify_loop func registered fin r w =
    Some (notify_each func r (first_occurrences fin (registered w)) w)"
proof (induction "first_occurrences fin (registered w)" arbitrary: fin r w)
  case Nil
  then show ?case
    by (subst notify_loop.simps)
      (simp add: FindNextListenerNotContainedInFinishedList_def find_first_occurrences)
next
  case (Cons l rest)
  let ?w = "snd (func l w)"
  have rest: "rest = first_occurrences (fin @ [l]) (registered ?w)"
    using first_occurrences_step [OF Cons.hyps(2) [symmetric]] by (simp add: assms)
  show ?case
    using Cons.hyps(1) [OF rest] Cons.hyps(2) [symmetric] rest
    by (subst notify_loop.simps)
      (simp add: FindNextListenerNotContainedInFinishedList_def find_first_occurrences case_prod_beta)
qed

lemma NotifyListener_unchanged:
  "(\<And>l v. registered (snd (func l v)) = registered v) \<Longrightarrow>
   NotifyListener func registered w =
     Some (notify_each func ERR_NOERROR (first_occurrences [] (registered w)) w)"
  by (simp add: NotifyListener_def notify_loop_unchanged)

lemma notify_each_keeps_failure: "isFailed r \<Longrightarrow> fst (notify_each func r ls w) = r"
  by (induction ls arbitrary: w) (simp_all add: case_prod_beta)

text \<open>When callbacks change the list, the loop still ends if all they ever add comes from a finite set.\<close>

lemma notify_loop_terminates:
  assumes "finite U" "I w" "\<And>v. I v \<Longrightarrow> set (registered v) \<subseteq> U"
    and "\<And>l v. I v \<Longrightarrow> l \<in> U \<Longrightarrow> I (snd (func l v))"
  shows "\<exists>r' w' called. notify_loop func registered fin r w = Some (r', w') \<and> I w' \<and>
    set (registered w') \<subseteq> set fin \<union> called \<and> called \<subseteq> U"
  using assms(2)
proof (induction "card (U - set fin)" arbitrary: fin r w rule: less_induct)
  case less
  show ?case
  proof (cases "FindNextListenerNotContainedInFinishedList (registered w) fin")
    case None
    then have "set (registered w) \<subseteq> set fin"
      by (auto simp: FindNextListenerNotContainedInFinishedList_def find_None_iff)
    then show ?thesis
      using None less.prems by (subst notify_loop.simps) auto
  next
    case (Some l)
    then have l: "l \<in> set (registered w)" "l \<notin> set fin"
      by (auto simp: FindNextListenerNotContainedInFinishedList_def find_Some_iff)
    then have U: "l \<in> U" using assms(3) [OF less.prems] by blast
    then have "card (U - set (fin @ [l])) < card (U - set fin)"
      using assms(1) l by (intro psubset_card_mono) auto
    then obtain r' w' called where step:
        "notify_loop func registered (fin @ [l]) (if isOk r then fst (func l w) else r) (snd (func l w))
          = Some (r', w')" "I w'"
        "set (registered w') \<subseteq> set (fin @ [l]) \<union> called" "called \<subseteq> U"
      using less.hyps assms(4) [OF less.prems U] by blast
    then have "notify_loop func registered fin r w = Some (r', w')"
      using Some by (subst notify_loop.simps) simp
    then show ?thesis
      using step U by (intro exI [of _ r'] exI [of _ w'] exI [of _ "insert l called"]) auto
  qed
qed

section \<open>Properties\<close>

text \<open>
  A notification whose callbacks leave the registrations alone ends, calls every registered
  listener exactly once in the order of first registration (however often it is registered), and
  returns the first failure among the callbacks, calling the remaining listeners all the same.
\<close>

theorem notify_calls_each_once:
  fixes answer :: "'l \<Rightarrow> fep_result"
  shows "\<exists>order. NotifyListener (\<lambda>l (called, ls). (answer l, called @ [l], ls)) snd ([], registered) =
      Some (case filter (\<lambda>l. isFailed (answer l)) order of [] \<Rightarrow> ERR_NOERROR | l # _ \<Rightarrow> answer l,
            order, registered) \<and>
    distinct order \<and> set order = set registered \<and> order = first_occurrences [] registered"
proof -
  let ?f = "\<lambda>l (called, ls). (answer l, called @ [l], ls)"
  have each: "notify_each ?f r ls (called, reg) =
      (if isFailed r then r else case filter (\<lambda>l. isFailed (answer l)) ls of [] \<Rightarrow> ERR_NOERROR | l # _ \<Rightarrow> answer l,
       called @ ls, reg)" for r ls called reg
    by (induction ls arbitrary: r called) auto
  show ?thesis
    by (rule exI [of _ "first_occurrences [] registered"])
      (simp add: NotifyListener_unchanged [where registered = snd] each split_beta
        distinct_first_occurrences set_first_occurrences)
qed

end
