(* ===== verification/State_Machine.thy ===== *)
theory State_Machine
  imports Listener_Registry "HOL-Library.Monad_Syntax"
begin

text \<open>
  The FEP state machine: the states and their names (\<open>fep2_state.h\<close>, \<open>fep_state.cpp\<close>), the control
  events (\<open>fep_control_event.cpp\<close>), the machine itself (\<open>src/statemachine/fep_statemachine.cpp\<close>) with
  its event queue, its worker (\<open>fep_state_event_worker.h\<close>) and the change notifier
  (\<open>fep_state_change_notifier.cpp\<close>).

  Client listeners are numbers. What a client's callback does is a parameter: the field \<open>answer\<close> of the
  environment maps everything that has happened so far, the listener, the callback and its argument
  to the result and the list of state machine events the callback raises. Callbacks that register or
  unregister listeners are left to Listener_Registry. Calling a null pointer to a member function, or
  a method of the null incident handler, is \<open>None\<close>.

  A handler runs under \<open>m_mtxCurrentState\<close>, and other threads only append to the queue meanwhile, so a
  worker step is atomic. The trace records, in order, the calls of client callbacks, the assignments to
  \<open>m_eFEPState\<close>, the incidents, and the state notifications sent to the other participants.
\<close>

section \<open>States, transitions and control events\<close>

datatype tState =
    FS_STARTUP | FS_IDLE | FS_INITIALIZING | FS_READY | FS_RUNNING | FS_ERROR | FS_SHUTDOWN | FS_UNKNOWN

datatype tStateTransition =
    ST_StartupDone | ST_Error | ST_Restart | ST_Shutdown | ST_Initialize | ST_Stop | ST_InitDone
  | ST_Start | ST_ErrorFixed

datatype tControlEvent = CE_Initialize | CE_Start | CE_Stop | CE_Shutdown | CE_ErrorFixed | CE_Restart

fun ToString :: "tState \<Rightarrow> string" where
  "ToString FS_STARTUP = ''FS_STARTUP''"
| "ToString FS_IDLE = ''FS_IDLE''"
| "ToString FS_INITIALIZING = ''FS_INITIALIZING''"
| "ToString FS_READY = ''FS_READY''"
| "ToString FS_RUNNING = ''FS_RUNNING''"
| "ToString FS_ERROR = ''FS_ERROR''"
| "ToString FS_SHUTDOWN = ''FS_SHUTDOWN''"
| "ToString FS_UNKNOWN = ''FS_UNKNOWN''"

text \<open>The reference argument \<open>eState\<close> keeps its value when no name fits.\<close>

definition FromString :: "string \<Rightarrow> tState \<Rightarrow> fep_result \<times> tState" where
  "FromString strState eState =
     (if strState = ToString FS_STARTUP then (ERR_NOERROR, FS_STARTUP)
      else if strState = ToString FS_IDLE then (ERR_NOERROR, FS_IDLE)
      else if strState = ToString FS_INITIALIZING then (ERR_NOERROR, FS_INITIALIZING)
      else if strState = ToString FS_READY then (ERR_NOERROR, FS_READY)
      else if strState = ToString FS_RUNNING then (ERR_NOERROR, FS_RUNNING)
      else if strState = ToString FS_ERROR then (ERR_NOERROR, FS_ERROR)
      else if strState = ToString FS_SHUTDOWN then (ERR_NOERROR, FS_SHUTDOWN)
      else if strState = ToString FS_UNKNOWN then (ERR_NOERROR, FS_UNKNOWN)
      else (ERR_INVALID_ARG, eState))"

fun ControlEvent_ToString :: "tControlEvent \<Rightarrow> string" where
  "ControlEvent_ToString CE_Initialize = ''CE_Initialize''"
| "ControlEvent_ToString CE_Start = ''CE_Start''"
| "ControlEvent_ToString CE_Stop = ''CE_Stop''"
| "ControlEvent_ToString CE_Shutdown = ''CE_Shutdown''"
| "ControlEvent_ToString CE_ErrorFixed = ''CE_ErrorFixed''"
| "ControlEvent_ToString CE_Restart = ''CE_Restart''"

definition ControlEvent_FromString :: "string \<Rightarrow> tControlEvent \<Rightarrow> fep_result \<times> tControlEvent" where
  "ControlEvent_FromString strEvent eEvent =
     (if strEvent = ControlEvent_ToString CE_Initialize then (ERR_NOERROR, CE_Initialize)
      else if strEvent = ControlEvent_ToString CE_Start then (ERR_NOERROR, CE_Start)
      else if strEvent = ControlEvent_ToString CE_Stop then (ERR_NOERROR, CE_Stop)
      else if strEvent = ControlEvent_ToString CE_Shutdown then (ERR_NOERROR, CE_Shutdown)
      else if strEvent = ControlEvent_ToString CE_ErrorFixed then (ERR_NOERROR, CE_ErrorFixed)
      else if strEvent = ControlEvent_ToString CE_Restart then (ERR_NOERROR, CE_Restart)
      else (ERR_INVALID_ARG, eEvent))"

section \<open>Callbacks and the trace\<close>

datatype callback =
    ProcessIdleRequest | ProcessInitializingRequest | ProcessReadyRequest | ProcessRunningRequest
  | ProcessShutdownRequest | ProcessErrorRequest
  | CleanUp | ProcessStartupEntry | ProcessIdleEntry | ProcessInitializingEntry | ProcessReadyEntry
  | ProcessRunningEntry | ProcessShutdownEntry | ProcessErrorEntry
  | ProcessStartupExit | ProcessIdleExit | ProcessInitializingExit | ProcessReadyExit
  | ProcessRunningExit | ProcessErrorExit

datatype listener = Client nat | ChangeNotifier

datatype incident_code = FSI_GENERAL_CRITICAL_FAILURE | FSI_STM_STATE_RQ_FAILED | FSI_STM_STAND_ALONE_MODE

datatype severity = SL_Info | SL_Warning | SL_Critical_Local | SL_Critical

datatype trace_event =
    Called nat callback tState
  | StateChanged tState
  | StateNotification string tState
  | Incident incident_code severity

record environment =
  answer :: "trace_event list \<Rightarrow> nat \<Rightarrow> callback \<Rightarrow> tState \<Rightarrow> fep_result \<times> tStateTransition list"
  element_name :: "string option"

section \<open>The state\<close>

record event_worker =
  w_poQueue :: bool
  w_pThread :: bool
  w_in_loop :: bool
  w_oSignal :: bool

record change_notifier =
  n_bIsInitialized :: bool
  n_connected :: bool
  n_eCurrentState :: tState

record state_machine =
  m_bIsInitialized :: bool
  m_poIncidentHandler :: bool
  m_bStandAloneModeEnabled :: bool
  m_eFEPState :: tState
  m_oStateRequestListenerRegistry :: "listener list"
  m_oStateEntryListenerRegistry :: "listener list"
  m_oStateExitListenerRegistry :: "listener list"
  m_bIgnoreEvents :: bool
  m_bConsiderRequestResult :: bool
  m_bInitalStateChangeDone :: bool
  m_oPendingEventQueue :: "tStateTransition list"
  m_oEventWorkerThread :: event_worker
  m_poInternalStateEntryListener :: "nat option"
  m_poInternalStateExitListener :: "nat option"
  m_poChangeNotifier :: "change_notifier option"
  last_state_reached :: tState
  trace :: "trace_event list"

definition cStateMachine :: state_machine where
  "cStateMachine =
     \<lparr>m_bIsInitialized = False, m_poIncidentHandler = False, m_bStandAloneModeEnabled = False,
      m_eFEPState = FS_STARTUP,
      m_oStateRequestListenerRegistry = [], m_oStateEntryListenerRegistry = [],
      m_oStateExitListenerRegistry = [],
      m_bIgnoreEvents = False, m_bConsiderRequestResult = True, m_bInitalStateChangeDone = False,
      m_oPendingEventQueue = [],
      m_oEventWorkerThread =
        \<lparr>w_poQueue = False, w_pThread = False, w_in_loop = False, w_oSignal = False\<rparr>,
      m_poInternalStateEntryListener = None, m_poInternalStateExitListener = None,
      m_poChangeNotifier = None, last_state_reached = FS_STARTUP, trace = []\<rparr>"

definition record_event :: "trace_event \<Rightarrow> state_machine \<Rightarrow> state_machine" where
  "record_event e m = m\<lparr>trace := trace m @ [e]\<rparr>"

definition InvokeIncident :: "incident_code \<Rightarrow> severity \<Rightarrow> state_machine \<Rightarrow> state_machine option" where
  "InvokeIncident c s m =
     (if m_poIncidentHandler m then Some (record_event (Incident c s) m) else None)"

definition setStateReached :: "tState \<Rightarrow> state_machine \<Rightarrow> state_machine" where
  "setStateReached s m = (if s = FS_UNKNOWN then m else m\<lparr>last_state_reached := s\<rparr>)"

section \<open>Raising events\<close>

definition EnqueueStateTransition :: "tStateTransition \<Rightarrow> state_machine \<Rightarrow> fep_result \<times> state_machine" where
  "EnqueueStateTransition t m =
     (ERR_NOERROR,
      if m_bIgnoreEvents m then m
      else m\<lparr>m_oPendingEventQueue := m_oPendingEventQueue m @ [t]\<rparr>)"

definition raise_all :: "tStateTransition list \<Rightarrow> state_machine \<Rightarrow> state_machine" where
  "raise_all ts m = fold (\<lambda>t m. snd (EnqueueStateTransition t m)) ts m"

text \<open>
  \<open>Update\<close>: a control command of another participant. The local result of the event method is not the
  result of the function.
\<close>

fun control_transition :: "tControlEvent \<Rightarrow> tStateTransition" where
  "control_transition CE_Initialize = ST_Initialize"
| "control_transition CE_Start = ST_Start"
| "control_transition CE_Stop = ST_Stop"
| "control_transition CE_Shutdown = ST_Shutdown"
| "control_transition CE_ErrorFixed = ST_ErrorFixed"
| "control_transition CE_Restart = ST_Restart"

definition Update :: "tControlEvent \<Rightarrow> state_machine \<Rightarrow> fep_result \<times> state_machine" where
  "Update eEvent m =
     (if m_bStandAloneModeEnabled m then (ERR_NOERROR, m)
      else (ERR_NOERROR, snd (EnqueueStateTransition (control_transition eEvent) m)))"

section \<open>The change notifier\<close>

definition SendStateChangeNotification ::
    "environment \<Rightarrow> tState \<Rightarrow> change_notifier \<Rightarrow> state_machine \<Rightarrow> state_machine" where
  "SendStateChangeNotification env eState n m =
     (if n_connected n
      then (case element_name env of
              None \<Rightarrow> m
            | Some strName \<Rightarrow> record_event (StateNotification strName eState) m)
      else m)"

fun entered_state :: "callback \<Rightarrow> tState option" where
  "entered_state ProcessErrorEntry = Some FS_ERROR"
| "entered_state ProcessIdleEntry = Some FS_IDLE"
| "entered_state ProcessInitializingEntry = Some FS_INITIALIZING"
| "entered_state ProcessReadyEntry = Some FS_READY"
| "entered_state ProcessRunningEntry = Some FS_RUNNING"
| "entered_state ProcessStartupEntry = Some FS_STARTUP"
| "entered_state ProcessShutdownEntry = Some FS_SHUTDOWN"
| "entered_state _ = None"

definition notifier_callback :: "environment \<Rightarrow> callback \<Rightarrow> state_machine \<Rightarrow> fep_result \<times> state_machine" where
  "notifier_callback env cb m =
     (case (entered_state cb, m_poChangeNotifier m) of
        (Some s, Some n) \<Rightarrow>
          (ERR_NOERROR,
           SendStateChangeNotification env s n (m\<lparr>m_poChangeNotifier := Some (n\<lparr>n_eCurrentState := s\<rparr>)\<rparr>))
      | _ \<Rightarrow> (ERR_NOERROR, m))"

section \<open>Calling listeners\<close>

definition call_client ::
    "environment \<Rightarrow> callback \<Rightarrow> tState \<Rightarrow> nat \<Rightarrow> state_machine \<Rightarrow> fep_result \<times> state_machine" where
  "call_client env cb arg l m =
     (fst (answer env (trace m) l cb arg),
      raise_all (snd (answer env (trace m) l cb arg)) (record_event (Called l cb arg) m))"

definition call_listener ::
    "environment \<Rightarrow> callback \<Rightarrow> tState \<Rightarrow> listener \<Rightarrow> state_machine \<Rightarrow> fep_result \<times> state_machine" where
  "call_listener env cb arg l m =
     (case l of Client n \<Rightarrow> call_client env cb arg n m | ChangeNotifier \<Rightarrow> notifier_callback env cb m)"

definition notify_registry ::
    "environment \<Rightarrow> (state_machine \<Rightarrow> listener list) \<Rightarrow> callback option \<Rightarrow> tState \<Rightarrow> state_machine \<Rightarrow>
     (fep_result \<times> state_machine) option" where
  "notify_registry env registry pCallback arg m =
     (case pCallback of
        None \<Rightarrow> if registry m = [] then Some (ERR_NOERROR, m) else None
      | Some cb \<Rightarrow> NotifyListener (call_listener env cb arg) registry m)"

definition call_internal ::
    "environment \<Rightarrow> nat option \<Rightarrow> callback option \<Rightarrow> tState \<Rightarrow> state_machine \<Rightarrow>
     (fep_result \<times> state_machine) option" where
  "call_internal env listener pCallback arg m =
     (case listener of
        None \<Rightarrow> Some (ERR_NOERROR, m)
      | Some l \<Rightarrow> (case pCallback of None \<Rightarrow> None | Some cb \<Rightarrow> Some (call_client env cb arg l m)))"

text \<open>
  \<open>GetCallbackFcnPointer\<close>: the three out arguments, null when there is no callback. They are null on
  entry at the only call site.
\<close>

definition GetCallbackFcnPointer ::
    "tState \<Rightarrow> tState \<Rightarrow> fep_result \<times> callback option \<times> callback option \<times> callback option" where
  "GetCallbackFcnPointer eNewState eOldState =
     (let (r1, pRequest, pEntry) =
        (case eNewState of
           FS_ERROR \<Rightarrow> (ERR_NOERROR, Some ProcessErrorRequest, Some ProcessErrorEntry)
         | FS_IDLE \<Rightarrow> (ERR_NOERROR, Some ProcessIdleRequest, Some ProcessIdleEntry)
         | FS_INITIALIZING \<Rightarrow> (ERR_NOERROR, Some ProcessInitializingRequest, Some ProcessInitializingEntry)
         | FS_READY \<Rightarrow> (ERR_NOERROR, Some ProcessReadyRequest, Some ProcessReadyEntry)
         | FS_RUNNING \<Rightarrow> (ERR_NOERROR, Some ProcessRunningRequest, Some ProcessRunningEntry)
         | FS_STARTUP \<Rightarrow> (ERR_NOERROR, None, Some ProcessStartupEntry)
         | FS_SHUTDOWN \<Rightarrow> (ERR_NOERROR, Some ProcessShutdownRequest, Some ProcessShutdownEntry)
         | FS_UNKNOWN \<Rightarrow> (ERR_INVALID_STATE, None, None));
        (r2, pExit) =
        (case eOldState of
           FS_ERROR \<Rightarrow> (r1, Some ProcessErrorExit)
         | FS_IDLE \<Rightarrow> (r1, Some ProcessIdleExit)
         | FS_INITIALIZING \<Rightarrow> (r1, Some ProcessInitializingExit)
         | FS_READY \<Rightarrow> (r1, Some ProcessReadyExit)
         | FS_RUNNING \<Rightarrow> (r1, Some ProcessRunningExit)
         | FS_STARTUP \<Rightarrow> (r1, Some ProcessStartupExit)
         | FS_SHUTDOWN \<Rightarrow> (r1, None)
         | FS_UNKNOWN \<Rightarrow> (ERR_INVALID_STATE, None))
      in if isFailed r2 then (r2, None, None, None) else (r2, pRequest, pEntry, pExit))"

section \<open>Changing the state\<close>

text \<open>The exit, clean-up and entry phase of \<open>SetState\<close>.\<close>

definition leave_and_enter ::
    "environment \<Rightarrow> tState \<Rightarrow> callback option \<Rightarrow> callback option \<Rightarrow> state_machine \<Rightarrow>
     (fep_result \<times> state_machine) option" where
  "leave_and_enter env eNewState pEntry pExit m =
     (let eOldState = m_eFEPState m;
          bCleanupCall = (eOldState = FS_IDLE \<or> eOldState = FS_ERROR) \<and>
            (eNewState = FS_STARTUP \<or> eNewState = FS_SHUTDOWN)
      in do {
        (nResultExit, m) \<leftarrow>
          (if m_bInitalStateChangeDone m then do {
             (r1, m) \<leftarrow> notify_registry env m_oStateExitListenerRegistry pExit eNewState m;
             (r2, m) \<leftarrow> call_internal env (m_poInternalStateExitListener m) pExit eNewState m;
             Some (result_or r1 r2, m)
           } else Some (ERR_NOERROR, m));
        let m = record_event (StateChanged eNewState) (m\<lparr>m_eFEPState := eNewState\<rparr>);
        (nResultCleanUp, m) \<leftarrow>
          (if bCleanupCall then do {
             (r1, m) \<leftarrow> notify_registry env m_oStateEntryListenerRegistry (Some CleanUp) eOldState m;
             (r2, m) \<leftarrow> call_internal env (m_poInternalStateEntryListener m) (Some CleanUp) eOldState m;
             Some (result_or r1 r2, m)
           } else Some (ERR_NOERROR, m));
        (_, m) \<leftarrow> call_internal env (m_poInternalStateEntryListener m) pEntry eOldState m;
        (nResultEntry, m) \<leftarrow> notify_registry env m_oStateEntryListenerRegistry pEntry eOldState m;
        Some (if isFailed nResultExit then nResultExit
              else if isFailed nResultCleanUp then nResultCleanUp
              else nResultEntry, m)
      })"

text \<open>The end of \<open>SetState\<close>, passed on every path.\<close>

definition report_state :: "fep_result \<Rightarrow> state_machine \<Rightarrow> (fep_result \<times> state_machine) option" where
  "report_state nResult m = do {
     m \<leftarrow> (if isFailed nResult then InvokeIncident FSI_GENERAL_CRITICAL_FAILURE SL_Critical m else Some m);
     Some (nResult, setStateReached (m_eFEPState m) m)
   }"

definition SetState :: "environment \<Rightarrow> tState \<Rightarrow> state_machine \<Rightarrow> (fep_result \<times> state_machine) option" where
  "SetState env eNewState m =
     (if m_bIgnoreEvents m then report_state ERR_CANCELLED m
      else
        let eOldState = m_eFEPState m;
            (nResult, pRequest, pEntry, pExit) = GetCallbackFcnPointer eNewState eOldState
        in do {
          m \<leftarrow> (if eOldState = FS_STARTUP \<and> eNewState = FS_SHUTDOWN
                then InvokeIncident FSI_GENERAL_CRITICAL_FAILURE SL_Critical_Local m else Some m);
          (nResult, nResultRequestBackup, m) \<leftarrow>
            (if isOk nResult \<and> m_bInitalStateChangeDone m \<and> pRequest \<noteq> None then do {
               (r, m) \<leftarrow> notify_registry env m_oStateRequestListenerRegistry pRequest eOldState m;
               Some (r, r, m)
             } else Some (nResult, ERR_NOERROR, m));
          (nResult, m) \<leftarrow>
            (if isOk nResult \<or> \<not> m_bConsiderRequestResult m
             then leave_and_enter env eNewState pEntry pExit m
             else Some (nResult, m));
          m \<leftarrow> (if isOk nResult \<and> isFailed nResultRequestBackup
                then InvokeIncident FSI_STM_STATE_RQ_FAILED SL_Info m else Some m);
          report_state nResult m
        })"

definition transition_target :: "tStateTransition \<Rightarrow> tState \<Rightarrow> tState" where
  "transition_target eTransition s =
     (case eTransition of
        ST_StartupDone \<Rightarrow> if s = FS_STARTUP then FS_IDLE else FS_UNKNOWN
      | ST_Error \<Rightarrow> if s \<noteq> FS_STARTUP \<and> s \<noteq> FS_SHUTDOWN then FS_ERROR else FS_UNKNOWN
      | ST_Restart \<Rightarrow> if s = FS_IDLE then FS_STARTUP else FS_UNKNOWN
      | ST_Shutdown \<Rightarrow> if s = FS_STARTUP \<or> s = FS_IDLE \<or> s = FS_ERROR then FS_SHUTDOWN else FS_UNKNOWN
      | ST_Initialize \<Rightarrow> if s = FS_IDLE then FS_INITIALIZING else FS_UNKNOWN
      | ST_Stop \<Rightarrow> if s = FS_INITIALIZING \<or> s = FS_READY \<or> s = FS_RUNNING then FS_IDLE else FS_UNKNOWN
      | ST_InitDone \<Rightarrow> if s = FS_INITIALIZING then FS_READY else FS_UNKNOWN
      | ST_Start \<Rightarrow> if s = FS_READY then FS_RUNNING else FS_UNKNOWN
      | ST_ErrorFixed \<Rightarrow> if s = FS_ERROR then FS_IDLE else FS_UNKNOWN)"

definition PerformStateTransition ::
    "environment \<Rightarrow> tStateTransition \<Rightarrow> state_machine \<Rightarrow> (bool \<times> fep_result \<times> state_machine) option" where
  "PerformStateTransition env eTransition m =
     (let eNewState = transition_target eTransition (m_eFEPState m) in
      if eNewState \<noteq> FS_UNKNOWN then do {
        (r, m) \<leftarrow> SetState env eNewState m;
        Some (True, r, m)
      } else Some (False, ERR_NOERROR, m))"

section \<open>The worker\<close>

text \<open>
  One round of \<open>ThreadFunc\<close>: an event is taken from the queue and its handler, the function object
  built in \<open>EnqueueStateTransition\<close>, runs.
\<close>

definition handle_event ::
    "environment \<Rightarrow> tStateTransition \<Rightarrow> state_machine \<Rightarrow> state_machine option" where
  "handle_event env eTransition m = do {
     (transition_valid, r, m) \<leftarrow> PerformStateTransition env eTransition m;
     Some (if transition_valid \<and> isFailed r then snd (EnqueueStateTransition ST_Error m) else m)
   }"

definition worker_step :: "environment \<Rightarrow> state_machine \<Rightarrow> state_machine option" where
  "worker_step env m =
     (if w_in_loop (m_oEventWorkerThread m)
      then (case m_oPendingEventQueue m of
              [] \<Rightarrow> Some m
            | t # ts \<Rightarrow> handle_event env t (m\<lparr>m_oPendingEventQueue := ts\<rparr>))
      else Some m)"

fun worker_steps :: "environment \<Rightarrow> nat \<Rightarrow> state_machine \<Rightarrow> state_machine option" where
  "worker_steps env 0 m = Some m"
| "worker_steps env (Suc k) m = do { m \<leftarrow> worker_step env m; worker_steps env k m }"

text \<open>
  \<open>SetEventQueue\<close> with null and with the queue. A started thread finds the signal set or not before its
  first round; leaving the loop it resets the signal.
\<close>

definition SetEventQueue_null :: "event_worker \<Rightarrow> fep_result \<times> event_worker" where
  "SetEventQueue_null w =
     (ERR_NOERROR,
      if w_pThread w
      then \<lparr>w_poQueue = False, w_pThread = False, w_in_loop = False,
            w_oSignal = (if w_in_loop w then False else True)\<rparr>
      else w\<lparr>w_poQueue := False, w_oSignal := True\<rparr>)"

definition SetEventQueue :: "event_worker \<Rightarrow> fep_result \<times> event_worker" where
  "SetEventQueue w =
     (if w_pThread w then (ERR_UNEXPECTED, w)
      else (ERR_NOERROR,
        \<lparr>w_poQueue = True, w_pThread = True, w_in_loop = \<not> w_oSignal w, w_oSignal = False\<rparr>))"

section \<open>Registration of listeners\<close>

definition RegisterStateRequestListener :: "nat option \<Rightarrow> state_machine \<Rightarrow> fep_result \<times> state_machine" where
  "RegisterStateRequestListener l m =
     (let (r, ls) = RegisterListener (map_option Client l) (m_oStateRequestListenerRegistry m)
      in (r, m\<lparr>m_oStateRequestListenerRegistry := ls\<rparr>))"

definition UnregisterStateRequestListener :: "nat option \<Rightarrow> state_machine \<Rightarrow> fep_result \<times> state_machine" where
  "UnregisterStateRequestListener l m =
     (let (r, ls) = UnregisterListener (map_option Client l) (m_oStateRequestListenerRegistry m)
      in (r, m\<lparr>m_oStateRequestListenerRegistry := ls\<rparr>))"

definition RegisterStateEntryListener :: "listener option \<Rightarrow> state_machine \<Rightarrow> fep_result \<times> state_machine" where
  "RegisterStateEntryListener l m =
     (let (r, ls) = RegisterListener l (m_oStateEntryListenerRegistry m)
      in (r, m\<lparr>m_oStateEntryListenerRegistry := ls\<rparr>))"

definition UnregisterStateEntryListener :: "listener option \<Rightarrow> state_machine \<Rightarrow> fep_result \<times> state_machine" where
  "UnregisterStateEntryListener l m =
     (let (r, ls) = UnregisterListener l (m_oStateEntryListenerRegistry m)
      in (r, m\<lparr>m_oStateEntryListenerRegistry := ls\<rparr>))"

definition RegisterStateExitListener :: "nat option \<Rightarrow> state_machine \<Rightarrow> fep_result \<times> state_machine" where
  "RegisterStateExitListener l m =
     (let (r, ls) = RegisterListener (map_option Client l) (m_oStateExitListenerRegistry m)
      in (r, m\<lparr>m_oStateExitListenerRegistry := ls\<rparr>))"

definition UnregisterStateExitListener :: "nat option \<Rightarrow> state_machine \<Rightarrow> fep_result \<times> state_machine" where
  "UnregisterStateExitListener l m =
     (let (r, ls) = UnregisterListener (map_option Client l) (m_oStateExitListenerRegistry m)
      in (r, m\<lparr>m_oStateExitListenerRegistry := ls\<rparr>))"

text \<open>
  The change notifier's own \<open>Initialize\<close> (on a fresh object, its four pointers given) and
  \<open>Finalize\<close>.
\<close>

definition notifier_Initialize :: "state_machine \<Rightarrow> fep_result \<times> state_machine" where
  "notifier_Initialize m =
     (ERR_NOERROR,
      snd (RegisterStateEntryListener (Some ChangeNotifier) m)
        \<lparr>m_poChangeNotifier := Some \<lparr>n_bIsInitialized = True, n_connected = True, n_eCurrentState = FS_STARTUP\<rparr>\<rparr>)"

definition notifier_Finalize :: "change_notifier \<Rightarrow> state_machine \<Rightarrow> fep_result \<times> state_machine" where
  "notifier_Finalize n m =
     (if \<not> n_bIsInitialized n
      then (ERR_UNEXPECTED, m\<lparr>m_poChangeNotifier := Some (n\<lparr>n_bIsInitialized := False\<rparr>)\<rparr>)
      else (ERR_NOERROR,
            snd (UnregisterStateEntryListener (Some ChangeNotifier) m)
              \<lparr>m_poChangeNotifier := Some (n\<lparr>n_connected := False, n_bIsInitialized := False\<rparr>)\<rparr>))"

text \<open>\<open>m_poChangeNotifier.reset()\<close>: the destructor of the notifier finalizes it.\<close>

definition notifier_reset :: "state_machine \<Rightarrow> state_machine" where
  "notifier_reset m =
     (case m_poChangeNotifier m of
        None \<Rightarrow> m
      | Some n \<Rightarrow> (snd (notifier_Finalize n m))\<lparr>m_poChangeNotifier := None\<rparr>)"

section \<open>Waiting for a state\<close>

text \<open>
  \<open>WaitForState\<close> sleeps on a semaphore; every awakening is an input of the model: the milliseconds that
  have passed and the state last reached at that moment. \<open>None\<close>: the call still waits.
\<close>

fun wait_forever :: "tState \<Rightarrow> bool \<Rightarrow> (int \<times> tState) list \<Rightarrow> fep_result option" where
  "wait_forever eState error_is_failure [] = None"
| "wait_forever eState error_is_failure ((_, current_state) # obs) =
     (if current_state = eState then Some ERR_NOERROR
      else if error_is_failure \<and> current_state = FS_ERROR then Some ERR_FAILED
      else wait_forever eState error_is_failure obs)"

fun wait_limited :: "tState \<Rightarrow> bool \<Rightarrow> timestamp_t \<Rightarrow> (int \<times> tState) list \<Rightarrow> fep_result option" where
  "wait_limited eState error_is_failure wait_time [] = (if wait_time > 0 then None else Some ERR_TIMEOUT)"
| "wait_limited eState error_is_failure wait_time ((elapsed, current_state) # obs) =
     (if wait_time > 0 then
        if current_state = eState then Some ERR_NOERROR
        else if error_is_failure \<and> current_state = FS_ERROR then Some ERR_FAILED
        else wait_limited eState error_is_failure (wait_time - elapsed) obs
      else Some ERR_TIMEOUT)"

definition WaitForState ::
    "tState \<Rightarrow> timestamp_t \<Rightarrow> bool \<Rightarrow> tState \<Rightarrow> (int \<times> tState) list \<Rightarrow> fep_result option" where
  "WaitForState eState tmTimeout error_is_failure current_state obs =
     (if tmTimeout < -1 \<or> FS_UNKNOWN = eState then Some ERR_INVALID_ARG
      else if current_state = eState then Some ERR_NOERROR
      else if tmTimeout = -1 then wait_forever eState error_is_failure obs
      else wait_limited eState error_is_failure tmTimeout obs)"

section \<open>Shutdown\<close>

text \<open>
  The first half of \<open>PerformShutdown\<close>: events are disabled, the worker is stopped (it may already hold
  the next event and still handles it), the queue is emptied, the worker restarted, events enabled.
\<close>

definition shutdown_prepare :: "environment \<Rightarrow> bool \<Rightarrow> state_machine \<Rightarrow> state_machine option" where
  "shutdown_prepare env one_more m = do {
     let m = m\<lparr>m_bIgnoreEvents := True\<rparr>;
     m \<leftarrow> (if one_more then worker_step env m else Some m);
     let m = m\<lparr>m_oEventWorkerThread := snd (SetEventQueue_null (m_oEventWorkerThread m))\<rparr>;
     let m = m\<lparr>m_oPendingEventQueue := []\<rparr>;
     let m = m\<lparr>m_oEventWorkerThread := snd (SetEventQueue (m_oEventWorkerThread m))\<rparr>;
     let m = m\<lparr>m_bConsiderRequestResult := False\<rparr>;
     Some (m\<lparr>m_bIgnoreEvents := False\<rparr>)
   }"

text \<open>The \<open>switch\<close>; the \<open>assert\<close> of its default branch is \<open>None\<close>.\<close>

definition shutdown_events :: "state_machine \<Rightarrow> state_machine option" where
  "shutdown_events m =
     (case m_eFEPState m of
        FS_STARTUP \<Rightarrow> Some (raise_all [ST_Shutdown] m)
      | FS_IDLE \<Rightarrow> Some (raise_all [ST_Shutdown] m)
      | FS_INITIALIZING \<Rightarrow> Some (raise_all [ST_Stop, ST_Shutdown] m)
      | FS_READY \<Rightarrow> Some (raise_all [ST_Stop, ST_Shutdown] m)
      | FS_RUNNING \<Rightarrow> Some (raise_all [ST_Stop, ST_Shutdown] m)
      | FS_ERROR \<Rightarrow> Some (raise_all [ST_Shutdown] m)
      | FS_SHUTDOWN \<Rightarrow> Some m
      | FS_UNKNOWN \<Rightarrow> None)"

text \<open>
  The final loop. While one \<open>WaitForState (FS_SHUTDOWN, 500, true)\<close> sleeps, the worker handles some
  events: a list of numbers says how many during each wait. \<open>Inl\<close>: the list is used up and the
  function still waits.
\<close>

fun shutdown_wait :: "environment \<Rightarrow> nat list \<Rightarrow> state_machine \<Rightarrow> (state_machine + state_machine) option" where
  "shutdown_wait env [] m = Some (if last_state_reached m = FS_SHUTDOWN then Inr m else Inl m)"
| "shutdown_wait env (n # ns) m = do {
     m \<leftarrow> worker_steps env n m;
     (if last_state_reached m = FS_SHUTDOWN then Some (Inr m)
      else shutdown_wait env ns (snd (EnqueueStateTransition ST_Shutdown m)))
   }"

text \<open>
  \<open>PerformShutdown\<close>. The events \<open>others\<close> are raised by other threads after events have been enabled
  and before the function reads the state.
\<close>

definition PerformShutdown ::
    "environment \<Rightarrow> bool \<Rightarrow> tStateTransition list \<Rightarrow> nat list \<Rightarrow> state_machine \<Rightarrow>
     (state_machine + fep_result \<times> state_machine) option" where
  "PerformShutdown env one_more others ns m = do {
     m \<leftarrow> shutdown_prepare env one_more m;
     m \<leftarrow> shutdown_events (raise_all others m);
     waited \<leftarrow> shutdown_wait env ns m;
     Some (case waited of
             Inl m \<Rightarrow> Inl m
           | Inr m \<Rightarrow> Inr (ERR_NOERROR, m\<lparr>m_bConsiderRequestResult := True\<rparr>))
   }"

section \<open>Initialize and Finalize\<close>

text \<open>
  The results of the calls into the property tree and the command access are arguments: setting and
  listening to the stand-alone property, and (un)registering as a command listener.
\<close>

definition RegisterStandAloneModeListener :: "fep_result \<Rightarrow> fep_result \<Rightarrow> fep_result" where
  "RegisterStandAloneModeListener set_result listen_result =
     (if isOk set_result then listen_result else set_result)"

definition cStateMachine_Initialize ::
    "bool \<Rightarrow> nat option \<Rightarrow> nat option \<Rightarrow> fep_result \<Rightarrow> fep_result \<Rightarrow> fep_result \<Rightarrow> state_machine \<Rightarrow>
     fep_result \<times> state_machine" where
  "cStateMachine_Initialize components_given entryL exitL set_result listen_result cmd_result m =
     (let nRes = (if m_bIsInitialized m then ERR_UNEXPECTED else ERR_NOERROR);
          nRes = (if isOk nRes \<and> (\<not> components_given \<or> entryL = None \<or> exitL = None)
                  then ERR_INVALID_ARG else nRes)
      in if isFailed nRes then (nRes, notifier_reset m)
         else
           let m = m\<lparr>m_poIncidentHandler := True, m_poInternalStateEntryListener := entryL,
                     m_poInternalStateExitListener := exitL\<rparr>;
               (nRes, w) = SetEventQueue (m_oEventWorkerThread m);
               m = m\<lparr>m_oEventWorkerThread := w\<rparr>;
               nRes = result_or nRes (RegisterStandAloneModeListener set_result listen_result);
               nRes = result_or nRes cmd_result;
               (r, m) = notifier_Initialize (notifier_reset m);
               nRes = result_or nRes r;
               m = setStateReached FS_STARTUP (m\<lparr>m_eFEPState := FS_STARTUP\<rparr>)
           in if isOk nRes then (nRes, m\<lparr>m_bIsInitialized := True\<rparr>)
              else (nRes, notifier_reset m))"

text \<open>
  \<open>Finalize\<close>, with the arguments of \<open>PerformShutdown\<close>; \<open>Inl\<close> while that waits, \<open>None\<close> when the change
  notifier it dereferences is gone.
\<close>

definition cStateMachine_Finalize ::
    "environment \<Rightarrow> bool \<Rightarrow> tStateTransition list \<Rightarrow> nat list \<Rightarrow> fep_result \<Rightarrow> fep_result \<Rightarrow>
     state_machine \<Rightarrow> (state_machine + fep_result \<times> state_machine) option" where
  "cStateMachine_Finalize env one_more others ns unlisten_result uncmd_result m =
     (if \<not> m_bIsInitialized m
      then Some (Inr (ERR_UNEXPECTED, m\<lparr>m_bIgnoreEvents := True, m_bIsInitialized := False\<rparr>))
      else do {
        down \<leftarrow> PerformShutdown env one_more others ns m;
        (case down of
           Inl m \<Rightarrow> Some (Inl m)
         | Inr (r, m) \<Rightarrow>
             (case m_poChangeNotifier m of
                None \<Rightarrow> None
              | Some n \<Rightarrow>
                  let nRes = result_or (result_or unlisten_result uncmd_result) r;
                      m = notifier_reset (snd (notifier_Finalize n m));
                      m = m\<lparr>m_poInternalStateEntryListener := None,
                            m_oStateEntryListenerRegistry := snd (UnregisterAllListeners (m_oStateEntryListenerRegistry m)),
                            m_poInternalStateExitListener := None,
                            m_oStateExitListenerRegistry := snd (UnregisterAllListeners (m_oStateExitListenerRegistry m)),
                            m_oStateRequestListenerRegistry := snd (UnregisterAllListeners (m_oStateRequestListenerRegistry m)),
                            m_oEventWorkerThread := snd (SetEventQueue_null (m_oEventWorkerThread m))\<rparr>;
                      m = (if isOk nRes then m\<lparr>m_poIncidentHandler := False, m_bIgnoreEvents := True\<rparr> else m)
                  in Some (Inr (nRes, m\<lparr>m_bIsInitialized := False\<rparr>))))
      })"

definition FireupStateMachine :: "environment \<Rightarrow> state_machine \<Rightarrow> (fep_result \<times> state_machine) option" where
  "FireupStateMachine env m = do {
     (r, m) \<leftarrow> SetState env FS_STARTUP (m\<lparr>m_bInitalStateChangeDone := False, m_bIgnoreEvents := False\<rparr>);
     Some (r, m\<lparr>m_bInitalStateChangeDone := True\<rparr>)
   }"

section \<open>Property listener and remote access\<close>

text \<open>
  The affected property is its path and what \<open>GetValue\<close> does: its result and the value it leaves in
  \<open>m_bStandAloneModeEnabled\<close>.
\<close>

definition ProcessPropertyAdd ::
    "string \<Rightarrow> string \<Rightarrow> (bool \<Rightarrow> fep_result \<times> bool) \<Rightarrow> state_machine \<Rightarrow> (fep_result \<times> state_machine) option" where
  "ProcessPropertyAdd stand_alone_path strFullPath GetValue m =
     (if \<not> m_poIncidentHandler m then Some (ERR_POINTER, m)
      else if strFullPath = stand_alone_path then do {
        let (r, v) = GetValue (m_bStandAloneModeEnabled m);
        m \<leftarrow> InvokeIncident FSI_STM_STAND_ALONE_MODE (if v then SL_Warning else SL_Info)
              (m\<lparr>m_bStandAloneModeEnabled := v\<rparr>);
        Some (r, m)
      } else Some (ERR_NOERROR, m))"

definition ProcessPropertyChange ::
    "string \<Rightarrow> string \<Rightarrow> (bool \<Rightarrow> fep_result \<times> bool) \<Rightarrow> state_machine \<Rightarrow> (fep_result \<times> state_machine) option" where
  "ProcessPropertyChange stand_alone_path strFullPath GetValue m =
     (if \<not> m_poIncidentHandler m then Some (ERR_POINTER, m)
      else if strFullPath = stand_alone_path then do {
        let (r, v) = GetValue (m_bStandAloneModeEnabled m);
        m \<leftarrow> InvokeIncident FSI_STM_STAND_ALONE_MODE SL_Info (m\<lparr>m_bStandAloneModeEnabled := v\<rparr>);
        Some (r, m)
      } else Some (ERR_NOERROR, m))"

text \<open>
  \<open>remote\<close> is the answer to the remote property request: an error, or a property whose \<open>GetValue\<close>
  either fails (\<open>None\<close>) or gives a string.
\<close>

definition GetRemoteState ::
    "string option \<Rightarrow> (string \<Rightarrow> fep_result + string option) \<Rightarrow> tState \<Rightarrow> fep_result \<times> tState" where
  "GetRemoteState strElementName remote eState =
     (case strElementName of
        None \<Rightarrow> (ERR_POINTER, eState)
      | Some name \<Rightarrow>
          (case remote name of
             Inl r \<Rightarrow> (r, FS_UNKNOWN)
           | Inr None \<Rightarrow> (ERR_FAILED, eState)
           | Inr (Some strVal) \<Rightarrow>
               let (r, s) = FromString strVal eState
               in if isFailed r then (ERR_FAILED, s) else (r, s)))"

text \<open>
  \<open>TriggerRemoteEvent\<close>: the command handed to the command access (event, sender, receiver), if any, and
  the result, given the result \<open>transmit\<close> of its transmission.
\<close>

definition TriggerRemoteEvent ::
    "environment \<Rightarrow> (tControlEvent \<times> string \<times> string \<Rightarrow> fep_result) \<Rightarrow> tControlEvent \<Rightarrow> string option \<Rightarrow>
     fep_result \<times> (tControlEvent \<times> string \<times> string) option" where
  "TriggerRemoteEvent env transmit eEvent strElementName =
     (case strElementName of
        None \<Rightarrow> (ERR_POINTER, None)
      | Some receiver \<Rightarrow>
          if receiver = [] then (ERR_INVALID_ARG, None)
          else (case element_name env of
                  None \<Rightarrow> (ERR_FAILED, None)
                | Some strName \<Rightarrow>
                    (if isFailed (transmit (eEvent, strName, receiver)) then ERR_FAILED else ERR_NOERROR,
                     Some (eEvent, strName, receiver))))"

section \<open>The effect of notifications\<close>

text \<open>
  Whatever a callback does, it changes nothing but the trace, the queue (at its end) and the
  notifier's copy of the state.
\<close>

definition control :: "state_machine \<Rightarrow> state_machine" where
  "control m = m\<lparr>trace := [], m_oPendingEventQueue := [], m_poChangeNotifier := None\<rparr>"

definition connected :: "state_machine \<Rightarrow> bool" where
  "connected m \<longleftrightarrow> (case m_poChangeNotifier m of None \<Rightarrow> False | Some n \<Rightarrow> n_connected n)"

definition same_control :: "state_machine \<Rightarrow> state_machine \<Rightarrow> bool" where
  "same_control m m' \<longleftrightarrow>
     control m' = control m \<and> connected m' = connected m \<and>
     (m_poChangeNotifier m' = None \<longleftrightarrow> m_poChangeNotifier m = None) \<and>
     (\<exists>ts. m_oPendingEventQueue m' = m_oPendingEventQueue m @ ts)"

lemma same_control_refl [simp]: "same_control m m"
  by (simp add: same_control_def)

lemma same_control_trans [trans]: "same_control a b \<Longrightarrow> same_control b c \<Longrightarrow> same_control a c"
  unfolding same_control_def by fastforce

lemma control_fields:
  "m_bIsInitialized (control m) = m_bIsInitialized m"
  "m_poIncidentHandler (control m) = m_poIncidentHandler m"
  "m_bStandAloneModeEnabled (control m) = m_bStandAloneModeEnabled m"
  "m_eFEPState (control m) = m_eFEPState m"
  "m_oStateRequestListenerRegistry (control m) = m_oStateRequestListenerRegistry m"
  "m_oStateEntryListenerRegistry (control m) = m_oStateEntryListenerRegistry m"
  "m_oStateExitListenerRegistry (control m) = m_oStateExitListenerRegistry m"
  "m_bIgnoreEvents (control m) = m_bIgnoreEvents m"
  "m_bConsiderRequestResult (control m) = m_bConsiderRequestResult m"
  "m_bInitalStateChangeDone (control m) = m_bInitalStateChangeDone m"
  "m_oEventWorkerThread (control m) = m_oEventWorkerThread m"
  "m_poInternalStateEntryListener (control m) = m_poInternalStateEntryListener m"
  "m_poInternalStateExitListener (control m) = m_poInternalStateExitListener m"
  "last_state_reached (control m) = last_state_reached m"
  by (simp_all add: control_def)

lemma same_control_fields:
  assumes "same_control m m'"
  shows "m_bIsInitialized m' = m_bIsInitialized m"
  "m_poIncidentHandler m' = m_poIncidentHandler m"
  "m_bStandAloneModeEnabled m' = m_bStandAloneModeEnabled m"
  "m_eFEPState m' = m_eFEPState m"
  "m_oStateRequestListenerRegistry m' = m_oStateRequestListenerRegistry m"
  "m_oStateEntryListenerRegistry m' = m_oStateEntryListenerRegistry m"
  "m_oStateExitListenerRegistry m' = m_oStateExitListenerRegistry m"
  "m_bIgnoreEvents m' = m_bIgnoreEvents m"
  "m_bConsiderRequestResult m' = m_bConsiderRequestResult m"
  "m_bInitalStateChangeDone m' = m_bInitalStateChangeDone m"
  "m_oEventWorkerThread m' = m_oEventWorkerThread m"
  "m_poInternalStateEntryListener m' = m_poInternalStateEntryListener m"
  "m_poInternalStateExitListener m' = m_poInternalStateExitListener m"
  "last_state_reached m' = last_state_reached m"
  "connected m' = connected m"
  "m_poChangeNotifier m' = None \<longleftrightarrow> m_poChangeNotifier m = None"
  using assms control_fields [of m] control_fields [of m'] by (simp_all add: same_control_def)

lemma same_control_record [simp]: "same_control m (record_event e m)"
  by (simp add: same_control_def control_def connected_def record_event_def)

lemma raise_all_eq:
  "raise_all ts m = m\<lparr>m_oPendingEventQueue :=
     m_oPendingEventQueue m @ (if m_bIgnoreEvents m then [] else ts)\<rparr>"
  by (induction ts arbitrary: m) (auto simp: raise_all_def EnqueueStateTransition_def)

lemma same_control_raise_all: "same_control m (raise_all ts m)"
  by (simp add: same_control_def control_def connected_def raise_all_eq)

lemma trace_raise_all [simp]: "trace (raise_all ts m) = trace m"
  by (simp add: raise_all_eq)

text \<open>What one listener adds to the trace.\<close>

definition notified :: "environment \<Rightarrow> bool \<Rightarrow> callback \<Rightarrow> trace_event list" where
  "notified env conn cb =
     (case (entered_state cb, element_name env) of
        (Some s, Some strName) \<Rightarrow> if conn then [StateNotification strName s] else []
      | _ \<Rightarrow> [])"

definition call_trace :: "environment \<Rightarrow> bool \<Rightarrow> callback \<Rightarrow> tState \<Rightarrow> listener \<Rightarrow> trace_event list" where
  "call_trace env conn cb arg l =
     (case l of Client n \<Rightarrow> [Called n cb arg] | ChangeNotifier \<Rightarrow> notified env conn cb)"

lemma call_client_effect:
  "same_control m (snd (call_client env cb arg l m)) \<and>
   trace (snd (call_client env cb arg l m)) = trace m @ [Called l cb arg]"
  using same_control_trans [OF same_control_record same_control_raise_all]
  by (simp add: call_client_def record_event_def)

lemma notifier_callback_effect:
  "same_control m (snd (notifier_callback env cb m)) \<and>
   trace (snd (notifier_callback env cb m)) = trace m @ notified env (connected m) cb"
  by (auto simp: notifier_callback_def notified_def SendStateChangeNotification_def connected_def
      same_control_def control_def record_event_def split: option.splits)

lemma call_listener_effect:
  "same_control m (snd (call_listener env cb arg l m)) \<and>
   trace (snd (call_listener env cb arg l m)) = trace m @ call_trace env (connected m) cb arg l"
  using call_client_effect notifier_callback_effect
  by (simp add: call_listener_def call_trace_def split: listener.splits)

lemma notify_each_effect:
  "same_control m (snd (notify_each (call_listener env cb arg) r ls m)) \<and>
   trace (snd (notify_each (call_listener env cb arg) r ls m)) =
     trace m @ concat (map (call_trace env (connected m) cb arg) ls)"
proof (induction ls arbitrary: r m)
  case (Cons l ls)
  have "same_control m (snd (call_listener env cb arg l m))"
    "trace (snd (call_listener env cb arg l m)) = trace m @ call_trace env (connected m) cb arg l"
    using call_listener_effect by blast+
  then show ?case
    using Cons.IH [of "snd (call_listener env cb arg l m)"] same_control_trans
    by (simp add: case_prod_beta same_control_fields(15))
qed simp

text \<open>The calls of one notification, and of an internal listener.\<close>

definition calls :: "environment \<Rightarrow> bool \<Rightarrow> callback option \<Rightarrow> tState \<Rightarrow> listener list \<Rightarrow> trace_event list" where
  "calls env conn pCallback arg ls =
     (case pCallback of None \<Rightarrow> []
      | Some cb \<Rightarrow> concat (map (call_trace env conn cb arg) (first_occurrences [] ls)))"

definition internal_calls :: "callback option \<Rightarrow> tState \<Rightarrow> nat option \<Rightarrow> trace_event list" where
  "internal_calls pCallback arg l =
     (case (pCallback, l) of (Some cb, Some n) \<Rightarrow> [Called n cb arg] | _ \<Rightarrow> [])"

definition registry_field :: "(state_machine \<Rightarrow> listener list) \<Rightarrow> bool" where
  "registry_field registry \<longleftrightarrow> (\<forall>m m'. same_control m m' \<longrightarrow> registry m' = registry m)"

lemma registry_fields [simp]:
  "registry_field m_oStateRequestListenerRegistry"
  "registry_field m_oStateEntryListenerRegistry"
  "registry_field m_oStateExitListenerRegistry"
  by (simp_all add: registry_field_def same_control_fields)

lemma notify_registry_effect:
  assumes "registry_field registry" "pCallback \<noteq> None"
  shows "\<exists>r m'. notify_registry env registry pCallback arg m = Some (r, m') \<and> same_control m m' \<and>
    trace m' = trace m @ calls env (connected m) pCallback arg (registry m)"
proof -
  obtain cb where cb: "pCallback = Some cb" using assms(2) by blast
  have "registry (snd (call_listener env cb arg l v)) = registry v" for l v
    using assms(1) call_listener_effect unfolding registry_field_def by blast
  then show ?thesis
    using notify_each_effect [of m env cb arg ERR_NOERROR "first_occurrences [] (registry m)"]
    by (simp add: notify_registry_def cb NotifyListener_unchanged calls_def)
      (metis prod.collapse)
qed

lemma call_internal_effect:
  assumes "pCallback \<noteq> None"
  shows "\<exists>r m'. call_internal env l pCallback arg m = Some (r, m') \<and> same_control m m' \<and>
    trace m' = trace m @ internal_calls pCallback arg l"
proof (cases l)
  case (Some n)
  obtain cb where cb: "pCallback = Some cb" using assms by blast
  have "call_internal env l pCallback arg m =
      Some (fst (call_client env cb arg n m), snd (call_client env cb arg n m))"
    by (simp add: call_internal_def Some cb)
  then show ?thesis
    using call_client_effect [of m env cb arg n]
    by (cases "call_client env cb arg n m") (simp add: internal_calls_def Some cb)
qed (simp add: call_internal_def internal_calls_def split: option.splits)

lemma notify_and_internal_effect:
  assumes "registry_field registry" "pCallback \<noteq> None"
    and "\<And>m'. same_control m m' \<Longrightarrow> internal m' = internal m"
  shows "\<exists>r m'. do {
      (r1, m) \<leftarrow> notify_registry env registry pCallback arg m;
      (r2, m) \<leftarrow> call_internal env (internal m) pCallback arg m;
      Some (result_or r1 r2, m) } = Some (r, m') \<and> same_control m m' \<and>
    trace m' = trace m @ calls env (connected m) pCallback arg (registry m) @
      internal_calls pCallback arg (internal m)"
proof -
  obtain r1 m1 where 1: "notify_registry env registry pCallback arg m = Some (r1, m1)"
      "same_control m m1" "trace m1 = trace m @ calls env (connected m) pCallback arg (registry m)"
    using notify_registry_effect [OF assms(1,2)] by blast
  obtain r2 m2 where 2: "call_internal env (internal m) pCallback arg m1 = Some (r2, m2)"
      "same_control m1 m2" "trace m2 = trace m1 @ internal_calls pCallback arg (internal m)"
    using call_internal_effect [OF assms(2)] by blast
  show ?thesis
    using 1 2 same_control_trans [OF 1(2) 2(2)] assms(3) [OF 1(2)] by simp
qed

section \<open>The effect of a state change\<close>

lemma same_control_set_state:
  "same_control m m' \<Longrightarrow> same_control (m\<lparr>m_eFEPState := s\<rparr>) (m'\<lparr>m_eFEPState := s\<rparr>)"
proof -
  have "control (v\<lparr>m_eFEPState := s\<rparr>) = (control v)\<lparr>m_eFEPState := s\<rparr>" for v
    by (simp add: control_def)
  then show "same_control m m' \<Longrightarrow> ?thesis"
    by (simp add: same_control_def connected_def)
qed

definition cleans_up :: "tState \<Rightarrow> tState \<Rightarrow> bool" where
  "cleans_up old new \<longleftrightarrow> (old = FS_IDLE \<or> old = FS_ERROR) \<and> (new = FS_STARTUP \<or> new = FS_SHUTDOWN)"

text \<open>The documented callback order: exit, the assignment, clean-up, entry.\<close>

definition change_log :: "environment \<Rightarrow> state_machine \<Rightarrow> tState \<Rightarrow> callback option \<Rightarrow> callback option \<Rightarrow> trace_event list" where
  "change_log env m new pEntry pExit =
     (if m_bInitalStateChangeDone m
      then calls env (connected m) pExit new (m_oStateExitListenerRegistry m) @
           internal_calls pExit new (m_poInternalStateExitListener m)
      else []) @
     [StateChanged new] @
     (if cleans_up (m_eFEPState m) new
      then calls env (connected m) (Some CleanUp) (m_eFEPState m) (m_oStateEntryListenerRegistry m) @
           internal_calls (Some CleanUp) (m_eFEPState m) (m_poInternalStateEntryListener m)
      else []) @
     internal_calls pEntry (m_eFEPState m) (m_poInternalStateEntryListener m) @
     calls env (connected m) pEntry (m_eFEPState m) (m_oStateEntryListenerRegistry m)"

lemma leave_and_enter_effect:
  assumes "pEntry \<noteq> None" "m_bInitalStateChangeDone m \<longrightarrow> pExit \<noteq> None"
  shows "\<exists>r m'. leave_and_enter env new pEntry pExit m = Some (r, m') \<and>
    same_control (m\<lparr>m_eFEPState := new\<rparr>) m' \<and> trace m' = trace m @ change_log env m new pEntry pExit"
proof -
  let ?old = "m_eFEPState m"
  let ?exit = "if m_bInitalStateChangeDone m then do {
      (r1, m) \<leftarrow> notify_registry env m_oStateExitListenerRegistry pExit new m;
      (r2, m) \<leftarrow> call_internal env (m_poInternalStateExitListener m) pExit new m;
      Some (result_or r1 r2, m) } else Some (ERR_NOERROR, m)"
  obtain r1 m1 where 1: "?exit = Some (r1, m1)" "same_control m m1"
      "trace m1 = trace m @ (if m_bInitalStateChangeDone m
        then calls env (connected m) pExit new (m_oStateExitListenerRegistry m) @
             internal_calls pExit new (m_poInternalStateExitListener m) else [])"
  proof (cases "m_bInitalStateChangeDone m")
    case True
    then show thesis
      using that notify_and_internal_effect [of m_oStateExitListenerRegistry pExit m
          m_poInternalStateExitListener env new] assms(2)
      by (auto simp: same_control_fields)
  qed (use that in simp)
  define m2 where "m2 = record_event (StateChanged new) (m1\<lparr>m_eFEPState := new\<rparr>)"
  have 2: "same_control (m\<lparr>m_eFEPState := new\<rparr>) m2" "trace m2 = trace m1 @ [StateChanged new]"
    using same_control_trans [OF same_control_set_state [OF 1(2)] same_control_record]
    by (simp_all add: m2_def record_event_def)
  let ?clean = "if cleans_up ?old new then do {
      (r1, m) \<leftarrow> notify_registry env m_oStateEntryListenerRegistry (Some CleanUp) ?old m2;
      (r2, m) \<leftarrow> call_internal env (m_poInternalStateEntryListener m) (Some CleanUp) ?old m;
      Some (result_or r1 r2, m) } else Some (ERR_NOERROR, m2)"
  obtain r3 m3 where 3: "?clean = Some (r3, m3)" "same_control m2 m3"
      "trace m3 = trace m2 @ (if cleans_up ?old new
        then calls env (connected m2) (Some CleanUp) ?old (m_oStateEntryListenerRegistry m2) @
             internal_calls (Some CleanUp) ?old (m_poInternalStateEntryListener m2) else [])"
  proof (cases "cleans_up ?old new")
    case True
    then show thesis
      using that notify_and_internal_effect [of m_oStateEntryListenerRegistry "Some CleanUp" m2
          m_poInternalStateEntryListener env ?old]
      by (auto simp: same_control_fields)
  qed (use that in simp)
  obtain r4 m4 where 4: "call_internal env (m_poInternalStateEntryListener m3) pEntry ?old m3 = Some (r4, m4)"
      "same_control m3 m4" "trace m4 = trace m3 @ internal_calls pEntry ?old (m_poInternalStateEntryListener m3)"
    using call_internal_effect [OF assms(1)] by blast
  obtain r5 m5 where 5: "notify_registry env m_oStateEntryListenerRegistry pEntry ?old m4 = Some (r5, m5)"
      "same_control m4 m5"
      "trace m5 = trace m4 @ calls env (connected m4) pEntry ?old (m_oStateEntryListenerRegistry m4)"
    using notify_registry_effect [OF _ assms(1)] registry_fields(2) by blast
  have eq: "leave_and_enter env new pEntry pExit m =
      Some (if isFailed r1 then r1 else if isFailed r3 then r3 else r5, m5)"
    unfolding leave_and_enter_def Let_def cleans_up_def [symmetric] 1(1)
    by (simp only: Option.bind_lunit prod.case m2_def [symmetric] 3(1) 4(1) 5(1))
  have same: "same_control (m\<lparr>m_eFEPState := new\<rparr>) m5"
    using 2(1) 3(2) 4(2) 5(2) same_control_trans by blast
  have f: "connected m4 = connected m" "connected m2 = connected m"
      "m_oStateEntryListenerRegistry m4 = m_oStateEntryListenerRegistry m"
      "m_oStateEntryListenerRegistry m2 = m_oStateEntryListenerRegistry m"
      "m_poInternalStateEntryListener m3 = m_poInternalStateEntryListener m"
      "m_poInternalStateEntryListener m2 = m_poInternalStateEntryListener m"
    using same_control_fields [OF 2(1)] same_control_fields [OF 3(2)] same_control_fields [OF 4(2)]
    by (simp_all add: connected_def)
  show ?thesis
    unfolding eq using same 5(3) 4(3) 3(3) 2(2) 1(3) by (simp add: change_log_def f)
qed

text \<open>The first failure among the answers of a list of listeners, all of which are called.\<close>

fun first_failure :: "environment \<Rightarrow> bool \<Rightarrow> callback \<Rightarrow> tState \<Rightarrow> listener list \<Rightarrow> trace_event list \<Rightarrow> fep_result" where
  "first_failure env conn cb arg [] tr = ERR_NOERROR"
| "first_failure env conn cb arg (l # ls) tr =
     (let r = (case l of Client n \<Rightarrow> fst (answer env tr n cb arg) | ChangeNotifier \<Rightarrow> ERR_NOERROR)
      in if isFailed r then r else first_failure env conn cb arg ls (tr @ call_trace env conn cb arg l))"

lemma fst_call_listener:
  "fst (call_listener env cb arg l m) =
     (case l of Client n \<Rightarrow> fst (answer env (trace m) n cb arg) | ChangeNotifier \<Rightarrow> ERR_NOERROR)"
  by (simp add: call_listener_def call_client_def notifier_callback_def split: listener.splits option.splits)

lemma notify_each_result:
  "fst (notify_each (call_listener env cb arg) r ls m) =
     (if isFailed r then r else first_failure env (connected m) cb arg ls (trace m))"
proof (induction ls arbitrary: r m)
  case (Cons l ls)
  have "connected (snd (call_listener env cb arg l m)) = connected m"
    "trace (snd (call_listener env cb arg l m)) = trace m @ call_trace env (connected m) cb arg l"
    using call_listener_effect same_control_fields(15) by blast+
  then show ?case
    by (simp add: case_prod_beta Cons.IH fst_call_listener Let_def)
qed simp

definition request_callback :: "tState \<Rightarrow> callback option" where
  "request_callback s =
     (case s of FS_ERROR \<Rightarrow> Some ProcessErrorRequest | FS_IDLE \<Rightarrow> Some ProcessIdleRequest
      | FS_INITIALIZING \<Rightarrow> Some ProcessInitializingRequest | FS_READY \<Rightarrow> Some ProcessReadyRequest
      | FS_RUNNING \<Rightarrow> Some ProcessRunningRequest | FS_SHUTDOWN \<Rightarrow> Some ProcessShutdownRequest
      | _ \<Rightarrow> None)"

definition entry_callback :: "tState \<Rightarrow> callback option" where
  "entry_callback s =
     (case s of FS_ERROR \<Rightarrow> Some ProcessErrorEntry | FS_IDLE \<Rightarrow> Some ProcessIdleEntry
      | FS_INITIALIZING \<Rightarrow> Some ProcessInitializingEntry | FS_READY \<Rightarrow> Some ProcessReadyEntry
      | FS_RUNNING \<Rightarrow> Some ProcessRunningEntry | FS_STARTUP \<Rightarrow> Some ProcessStartupEntry
      | FS_SHUTDOWN \<Rightarrow> Some ProcessShutdownEntry | FS_UNKNOWN \<Rightarrow> None)"

definition exit_callback :: "tState \<Rightarrow> callback option" where
  "exit_callback s =
     (case s of FS_ERROR \<Rightarrow> Some ProcessErrorExit | FS_IDLE \<Rightarrow> Some ProcessIdleExit
      | FS_INITIALIZING \<Rightarrow> Some ProcessInitializingExit | FS_READY \<Rightarrow> Some ProcessReadyExit
      | FS_RUNNING \<Rightarrow> Some ProcessRunningExit | FS_STARTUP \<Rightarrow> Some ProcessStartupExit | _ \<Rightarrow> None)"

lemma GetCallbackFcnPointer_eq:
  "GetCallbackFcnPointer new old =
     (if new = FS_UNKNOWN \<or> old = FS_UNKNOWN then (ERR_INVALID_STATE, None, None, None)
      else (ERR_NOERROR, request_callback new, entry_callback new, exit_callback old))"
  by (cases new; cases old)
    (simp_all add: GetCallbackFcnPointer_def request_callback_def entry_callback_def exit_callback_def)

text \<open>The answer of the request listeners to a change from the current state to \<open>new\<close>.\<close>

definition announced :: "tState \<Rightarrow> tState \<Rightarrow> trace_event list" where
  "announced old new =
     (if old = FS_STARTUP \<and> new = FS_SHUTDOWN
      then [Incident FSI_GENERAL_CRITICAL_FAILURE SL_Critical_Local] else [])"

definition request_answer :: "environment \<Rightarrow> state_machine \<Rightarrow> tState \<Rightarrow> fep_result" where
  "request_answer env m new =
     (case request_callback new of None \<Rightarrow> ERR_NOERROR
      | Some cb \<Rightarrow> first_failure env (connected m) cb (m_eFEPState m)
          (first_occurrences [] (m_oStateRequestListenerRegistry m))
          (trace m @ announced (m_eFEPState m) new))"

lemma change_log_same_control:
  "same_control m m' \<Longrightarrow> change_log env m' new pEntry pExit = change_log env m new pEntry pExit"
  by (simp add: change_log_def same_control_fields)

lemma request_phase_effect:
  assumes "m_bInitalStateChangeDone m"
    and "m0 = (if announced old new = [] then m else record_event (hd (announced old new)) m)"
    and "old = m_eFEPState m"
  shows "\<exists>m1. (if m_bInitalStateChangeDone m0 \<and> request_callback new \<noteq> None then do {
       (r, m) \<leftarrow> notify_registry env m_oStateRequestListenerRegistry (request_callback new) old m0;
       Some (r, r, m) } else Some (ERR_NOERROR, ERR_NOERROR, m0)) =
     Some (request_answer env m new, request_answer env m new, m1) \<and> same_control m m1 \<and>
     trace m1 = trace m @ announced old new @
       calls env (connected m) (request_callback new) old (m_oStateRequestListenerRegistry m)"
proof -
  have 0: "same_control m m0" "trace m0 = trace m @ announced old new"
    by (simp_all add: assms(2) announced_def record_event_def)
      (simp add: same_control_def control_def connected_def record_event_def)
  note f = same_control_fields [OF 0(1)]
  show ?thesis
  proof (cases "request_callback new")
    case None
    then show ?thesis using 0 by (simp add: request_answer_def calls_def)
  next
    case (Some cb)
    have unchanged: "m_oStateRequestListenerRegistry (snd (call_listener env cb old l v)) =
        m_oStateRequestListenerRegistry v" for l v
      using call_listener_effect same_control_fields(5) by blast
    let ?ls = "first_occurrences [] (m_oStateRequestListenerRegistry m)"
    have "NotifyListener (call_listener env cb old) m_oStateRequestListenerRegistry m0 =
        Some (notify_each (call_listener env cb old) ERR_NOERROR ?ls m0)"
      using NotifyListener_unchanged [where registered = m_oStateRequestListenerRegistry and
          func = "call_listener env cb old" and w = m0] unchanged by (simp add: f)
    moreover have "fst (notify_each (call_listener env cb old) ERR_NOERROR ?ls m0) = request_answer env m new"
      using notify_each_result [of env cb old ERR_NOERROR ?ls m0]
      by (simp add: f request_answer_def Some 0(2) assms(3))
    ultimately have "notify_registry env m_oStateRequestListenerRegistry (Some cb) old m0 =
        Some (request_answer env m new, snd (notify_each (call_listener env cb old) ERR_NOERROR ?ls m0))"
      by (simp add: notify_registry_def prod_eq_iff)
    then show ?thesis
      using notify_each_effect [of m0 env cb old ERR_NOERROR ?ls] 0 same_control_trans [OF 0(1)] assms(1)
      by (simp add: Some f calls_def)
  qed
qed

lemma same_control_set_last:
  "same_control m m' \<Longrightarrow> same_control (m\<lparr>last_state_reached := s\<rparr>) (m'\<lparr>last_state_reached := s\<rparr>)"
proof -
  have "control (v\<lparr>last_state_reached := s\<rparr>) = (control v)\<lparr>last_state_reached := s\<rparr>" for v
    by (simp add: control_def)
  then show "same_control m m' \<Longrightarrow> ?thesis"
    by (simp add: same_control_def connected_def)
qed

definition performed :: "environment \<Rightarrow> state_machine \<Rightarrow> tState \<Rightarrow> bool" where
  "performed env m new \<longleftrightarrow> isOk (request_answer env m new) \<or> \<not> m_bConsiderRequestResult m"

lemma SetState_effect:
  assumes "m_poIncidentHandler m" "m_bInitalStateChangeDone m" "\<not> m_bIgnoreEvents m"
    and "m_eFEPState m \<noteq> FS_UNKNOWN" "m_eFEPState m \<noteq> FS_SHUTDOWN" "new \<noteq> FS_UNKNOWN"
  shows "\<exists>r m'. SetState env new m = Some (r, m') \<and>
    same_control (if performed env m new then m\<lparr>m_eFEPState := new, last_state_reached := new\<rparr>
                  else m\<lparr>last_state_reached := m_eFEPState m\<rparr>) m' \<and>
    (\<not> performed env m new \<longrightarrow> r = request_answer env m new) \<and>
    trace m' = trace m @ announced (m_eFEPState m) new @
      calls env (connected m) (request_callback new) (m_eFEPState m) (m_oStateRequestListenerRegistry m) @
      (if performed env m new
       then change_log env m new (entry_callback new) (exit_callback (m_eFEPState m)) else []) @
      (if isOk r \<and> isFailed (request_answer env m new)
       then [Incident FSI_STM_STATE_RQ_FAILED SL_Info] else []) @
      (if isFailed r then [Incident FSI_GENERAL_CRITICAL_FAILURE SL_Critical] else [])"
proof -
  let ?old = "m_eFEPState m"
  let ?pRq = "request_callback new" and ?pEn = "entry_callback new" and ?pEx = "exit_callback ?old"
  let ?rq = "request_answer env m new"
  have get: "GetCallbackFcnPointer new ?old = (ERR_NOERROR, ?pRq, ?pEn, ?pEx)"
    using assms by (simp add: GetCallbackFcnPointer_eq)
  define m0 where "m0 = (if announced ?old new = [] then m else record_event (hd (announced ?old new)) m)"
  have 0: "(if ?old = FS_STARTUP \<and> new = FS_SHUTDOWN
      then InvokeIncident FSI_GENERAL_CRITICAL_FAILURE SL_Critical_Local m else Some m) = Some m0"
    using assms by (simp add: m0_def announced_def InvokeIncident_def)
  obtain m1 where 1: "(if m_bInitalStateChangeDone m0 \<and> ?pRq \<noteq> None then do {
       (r, m) \<leftarrow> notify_registry env m_oStateRequestListenerRegistry ?pRq ?old m0;
       Some (r, r, m) } else Some (ERR_NOERROR, ERR_NOERROR, m0)) = Some (?rq, ?rq, m1)"
      "same_control m m1"
      "trace m1 = trace m @ announced ?old new @ calls env (connected m) ?pRq ?old (m_oStateRequestListenerRegistry m)"
    using request_phase_effect [OF assms(2) m0_def refl] by blast
  note f1 = same_control_fields [OF 1(2)]
  have cb: "?pEn \<noteq> None" "m_bInitalStateChangeDone m1 \<longrightarrow> ?pEx \<noteq> None"
    using assms(4-6) by (auto simp: entry_callback_def exit_callback_def split: tState.splits)
  define P where "P = performed env m new"
  obtain r m2 where 2: "(if isOk ?rq \<or> \<not> m_bConsiderRequestResult m1
       then leave_and_enter env new ?pEn ?pEx m1 else Some (?rq, m1)) = Some (r, m2)"
      "same_control (if P then m1\<lparr>m_eFEPState := new\<rparr> else m1) m2"
      "trace m2 = trace m1 @ (if P then change_log env m new ?pEn ?pEx else [])"
      "\<not> P \<longrightarrow> r = ?rq"
  proof (cases P)
    case True
    obtain r m2 where "leave_and_enter env new ?pEn ?pEx m1 = Some (r, m2)"
        "same_control (m1\<lparr>m_eFEPState := new\<rparr>) m2" "trace m2 = trace m1 @ change_log env m1 new ?pEn ?pEx"
      using leave_and_enter_effect [OF cb] by blast
    with True show thesis
      using that change_log_same_control [OF 1(2)] by (simp add: P_def performed_def f1)
  qed (use that in \<open>auto simp: P_def performed_def f1\<close>)
  define m3 where "m3 = (if isOk r \<and> isFailed ?rq
    then record_event (Incident FSI_STM_STATE_RQ_FAILED SL_Info) m2 else m2)"
  define m4 where "m4 = (if isFailed r
    then record_event (Incident FSI_GENERAL_CRITICAL_FAILURE SL_Critical) m3 else m3)"
  have same: "same_control (if P then m\<lparr>m_eFEPState := new\<rparr> else m) m4"
  proof -
    have "same_control (if P then m\<lparr>m_eFEPState := new\<rparr> else m) (if P then m1\<lparr>m_eFEPState := new\<rparr> else m1)"
      using 1(2) same_control_set_state by simp
    moreover have "same_control m2 m4"
      using same_control_trans [OF same_control_record same_control_record] by (simp add: m4_def m3_def)
    ultimately show ?thesis using 2(2) same_control_trans by meson
  qed
  have handler: "m_poIncidentHandler m2" "m_poIncidentHandler m3"
    using same_control_fields(2) [OF 2(2)] f1(2) assms(1) by (simp_all add: m3_def record_event_def)
  have eq: "SetState env new m = Some (r, setStateReached (m_eFEPState m4) m4)"
    unfolding SetState_def Let_def get prod.case
    using assms(3) 0
    by (simp only: if_False Option.bind_lunit prod.case isOk_iff [of ERR_NOERROR] simp_thms 1(1) 2(1))
      (simp add: report_state_def InvokeIncident_def handler [unfolded m3_def] m4_def m3_def)
  have state: "m_eFEPState m4 = (if P then new else ?old)"
    using same_control_fields(4) [OF same] by (simp split: if_splits)
  have "same_control (if P then m\<lparr>m_eFEPState := new, last_state_reached := new\<rparr>
                  else m\<lparr>last_state_reached := ?old\<rparr>) (setStateReached (m_eFEPState m4) m4)"
    using same_control_set_last [OF same, of "if P then new else ?old"] assms(4,6)
    by (simp add: state setStateReached_def split: if_splits)
  moreover have "trace (setStateReached (m_eFEPState m4) m4) = trace m2 @
      (if isOk r \<and> isFailed ?rq then [Incident FSI_STM_STATE_RQ_FAILED SL_Info] else []) @
      (if isFailed r then [Incident FSI_GENERAL_CRITICAL_FAILURE SL_Critical] else [])"
    by (simp add: setStateReached_def m4_def m3_def record_event_def)
  ultimately show ?thesis
    unfolding eq using 2(3,4) 1(3) by (simp add: P_def)
qed

end
