(* ===== verification/State_Lifecycle.thy ===== *)
theory State_Lifecycle
  imports State_Machine
begin

text \<open>
  The life of a state machine: the machines reachable from a start of the participant, their invariant,
  and what follows for the history of states, the notifications to other participants, refused and failing
  callbacks, and the shutdown.
\<close>

section \<open>Reachable machines\<close>

text \<open>
  The transitions of the state chart \<open>doc/input/images/fep_state_machine_img.dot\<close>, and one the code adds:
  an error event in state ERROR.
\<close>

definition state_chart :: "(tState \<times> tStateTransition \<times> tState) list" where
  "state_chart =
     [(FS_STARTUP, ST_StartupDone, FS_IDLE), (FS_STARTUP, ST_Shutdown, FS_SHUTDOWN),
      (FS_IDLE, ST_Shutdown, FS_SHUTDOWN), (FS_ERROR, ST_Shutdown, FS_SHUTDOWN),
      (FS_ERROR, ST_ErrorFixed, FS_IDLE), (FS_IDLE, ST_Error, FS_ERROR),
      (FS_IDLE, ST_Initialize, FS_INITIALIZING), (FS_IDLE, ST_Restart, FS_STARTUP),
      (FS_INITIALIZING, ST_Error, FS_ERROR), (FS_INITIALIZING, ST_Stop, FS_IDLE),
      (FS_INITIALIZING, ST_InitDone, FS_READY), (FS_READY, ST_Error, FS_ERROR),
      (FS_READY, ST_Stop, FS_IDLE), (FS_READY, ST_Start, FS_RUNNING),
      (FS_RUNNING, ST_Error, FS_ERROR), (FS_RUNNING, ST_Stop, FS_IDLE)]"

definition chart_edge :: "tState \<Rightarrow> tState \<Rightarrow> bool" where
  "chart_edge s s' \<longleftrightarrow> (\<exists>(a, _, b) \<in> set state_chart. a = s \<and> b = s') \<or> (s = FS_ERROR \<and> s' = FS_ERROR)"

lemma transition_target_chart:
  assumes "s \<noteq> FS_UNKNOWN"
  shows "transition_target t s \<noteq> FS_UNKNOWN \<longleftrightarrow>
      (s, t, transition_target t s) \<in> set state_chart \<or> s = FS_ERROR \<and> t = ST_Error"
    "(s, t, s') \<in> set state_chart \<Longrightarrow> transition_target t s = s'"
  using assms by (cases s; cases t; simp add: transition_target_def state_chart_def)+

lemma transition_target_edge:
  "s \<noteq> FS_UNKNOWN \<Longrightarrow> transition_target t s \<noteq> FS_UNKNOWN \<Longrightarrow> chart_edge s (transition_target t s)"
  by (cases s; cases t; simp add: transition_target_def state_chart_def chart_edge_def)

lemma transition_target_shutdown [simp]: "transition_target t FS_SHUTDOWN = FS_UNKNOWN"
  by (cases t) (simp_all add: transition_target_def)

inductive sm_step :: "environment \<Rightarrow> state_machine \<Rightarrow> state_machine \<Rightarrow> bool" for env where
  raise: "EnqueueStateTransition t m = (r, m') \<Longrightarrow> sm_step env m m'"
| command: "Update e m = (r, m') \<Longrightarrow> sm_step env m m'"
| work: "worker_step env m = Some m' \<Longrightarrow> sm_step env m m'"
| request_listener: "RegisterStateRequestListener l m = (r, m') \<or> UnregisterStateRequestListener l m = (r, m')
    \<Longrightarrow> sm_step env m m'"
| entry_listener: "RegisterStateEntryListener (map_option Client l) m = (r, m') \<or>
    UnregisterStateEntryListener (map_option Client l) m = (r, m') \<Longrightarrow> sm_step env m m'"
| exit_listener: "RegisterStateExitListener l m = (r, m') \<or> UnregisterStateExitListener l m = (r, m')
    \<Longrightarrow> sm_step env m m'"
| stand_alone: "ProcessPropertyAdd p q get m = Some (r, m') \<or> ProcessPropertyChange p q get m = Some (r, m')
    \<Longrightarrow> sm_step env m m'"
| prepare: "shutdown_prepare env one_more m = Some m' \<Longrightarrow> sm_step env m m'"
| shut: "shutdown_events m = Some m' \<Longrightarrow> sm_step env m m'"

inductive reachable :: "environment \<Rightarrow> state_machine \<Rightarrow> bool" for env where
  start: "cStateMachine_Initialize True (Some e) (Some x) ERR_NOERROR ERR_NOERROR ERR_NOERROR
      (cStateMachine\<lparr>m_oStateRequestListenerRegistry := map Client rq,
                     m_oStateEntryListenerRegistry := map Client en,
                     m_oStateExitListenerRegistry := map Client ex\<rparr>) = (ERR_NOERROR, m1) \<Longrightarrow>
    FireupStateMachine env m1 = Some (r, m) \<Longrightarrow> reachable env m"
| step: "reachable env m \<Longrightarrow> sm_step env m m' \<Longrightarrow> reachable env m'"

section \<open>The history of states\<close>

fun state_history :: "trace_event list \<Rightarrow> tState list" where
  "state_history [] = []"
| "state_history (StateChanged s # tr) = s # state_history tr"
| "state_history (_ # tr) = state_history tr"

fun notifications :: "trace_event list \<Rightarrow> tState list" where
  "notifications [] = []"
| "notifications (StateNotification n s # tr) = s # notifications tr"
| "notifications (_ # tr) = notifications tr"

lemma state_history_append [simp]: "state_history (a @ b) = state_history a @ state_history b"
  by (induction a rule: state_history.induct) simp_all

lemma notifications_append [simp]: "notifications (a @ b) = notifications a @ notifications b"
  by (induction a rule: notifications.induct) simp_all

lemma announced_silent [simp]:
  "state_history (announced old new) = []" "notifications (announced old new) = []"
  by (simp_all add: announced_def)

lemma internal_calls_silent [simp]:
  "state_history (internal_calls cb arg l) = []" "notifications (internal_calls cb arg l) = []"
  by (auto simp: internal_calls_def split: option.splits)

lemma state_history_calls [simp]: "state_history (calls env conn cb arg ls) = []"
proof -
  have "state_history (concat (map (call_trace env conn c arg) xs)) = []" for c xs
    by (induction xs) (auto simp: call_trace_def notified_def split: listener.splits option.splits)
  then show ?thesis by (simp add: calls_def split: option.splits)
qed

lemma notifications_calls:
  "notifications (calls env conn cb arg ls) =
     (if ChangeNotifier \<in> set ls \<and> conn
      then (case (cb, element_name env) of
              (Some c, Some _) \<Rightarrow> (case entered_state c of None \<Rightarrow> [] | Some s \<Rightarrow> [s])
            | _ \<Rightarrow> [])
      else [])"
proof (cases cb)
  case (Some c)
  let ?one = "if conn then (case (entered_state c, element_name env) of (Some s, Some _) \<Rightarrow> [s] | _ \<Rightarrow> []) else []"
  have "distinct xs \<Longrightarrow> notifications (concat (map (call_trace env conn c arg) xs)) =
      (if ChangeNotifier \<in> set xs then ?one else [])" for xs
    by (induction xs) (auto simp: call_trace_def notified_def split: listener.splits option.splits)
  from this [of "first_occurrences [] ls"] show ?thesis
    by (auto simp: calls_def Some distinct_first_occurrences set_first_occurrences split: option.splits)
qed (simp add: calls_def)

lemma entered_state_callbacks:
  "request_callback new = Some c \<Longrightarrow> entered_state c = None"
  "exit_callback new = Some c \<Longrightarrow> entered_state c = None"
  "entry_callback new = Some c \<Longrightarrow> entered_state c = Some new"
  by (auto simp: request_callback_def exit_callback_def entry_callback_def split: tState.splits)

lemma change_log_history [simp]: "state_history (change_log env m new pEntry pExit) = [new]"
  by (simp add: change_log_def)

definition mirrors :: "environment \<Rightarrow> state_machine \<Rightarrow> bool" where
  "mirrors env m \<longleftrightarrow> ChangeNotifier \<in> set (m_oStateEntryListenerRegistry m) \<and>
     set (m_oStateRequestListenerRegistry m) \<union> set (m_oStateExitListenerRegistry m) \<subseteq> range Client \<and>
     connected m"

lemma change_log_notifications:
  assumes "mirrors env m" "element_name env \<noteq> None" "new \<noteq> FS_UNKNOWN"
  shows "notifications (change_log env m new (entry_callback new) (exit_callback old)) = [new]"
proof -
  obtain c where c: "entry_callback new = Some c" "entered_state c = Some new"
    using assms(3) entered_state_callbacks(3) by (cases new) (auto simp: entry_callback_def)
  have "ChangeNotifier \<notin> set (m_oStateExitListenerRegistry m)" using assms(1) by (auto simp: mirrors_def)
  then show ?thesis
    using assms c by (auto simp: change_log_def notifications_calls mirrors_def split: option.splits)
qed

lemma request_notifications [simp]:
  "notifications (calls env conn (request_callback new) arg ls) = []"
  using entered_state_callbacks(1) [of new]
  by (auto simp: notifications_calls split: option.splits)

section \<open>The invariant\<close>

lemma connected_update [simp]:
  "connected (m\<lparr>m_eFEPState := s\<rparr>) = connected m"
  "connected (m\<lparr>last_state_reached := s\<rparr>) = connected m"
  "connected (m\<lparr>trace := tr\<rparr>) = connected m"
  "connected (m\<lparr>m_oPendingEventQueue := q\<rparr>) = connected m"
  "connected (m\<lparr>m_oEventWorkerThread := w\<rparr>) = connected m"
  "connected (m\<lparr>m_bIgnoreEvents := b\<rparr>) = connected m"
  "connected (m\<lparr>m_bConsiderRequestResult := b\<rparr>) = connected m"
  "connected (m\<lparr>m_bInitalStateChangeDone := b\<rparr>) = connected m"
  "connected (m\<lparr>m_bStandAloneModeEnabled := b\<rparr>) = connected m"
  "connected (m\<lparr>m_oStateRequestListenerRegistry := ls\<rparr>) = connected m"
  "connected (m\<lparr>m_oStateEntryListenerRegistry := ls\<rparr>) = connected m"
  "connected (m\<lparr>m_oStateExitListenerRegistry := ls\<rparr>) = connected m"
  by (simp_all add: connected_def)

text \<open>
  The invariant of a running machine: no null pointer is in reach, the state is one of the seven, the
  waiting threads see it, the states passed form a path of the chart from STARTUP to it, and the other
  participants have been told exactly these states.
\<close>

fun path :: "tState list \<Rightarrow> bool" where
  "path [] = True"
| "path [s] = True"
| "path (s # s' # ss) \<longleftrightarrow> chart_edge s s' \<and> path (s' # ss)"

lemma path_snoc: "path (ss @ [s]) \<Longrightarrow> chart_edge s s' \<Longrightarrow> path (ss @ [s, s'])"
  by (induction ss rule: path.induct) (auto simp: neq_Nil_conv elim: path.elims)

definition running_worker :: event_worker where
  "running_worker = \<lparr>w_poQueue = True, w_pThread = True, w_in_loop = True, w_oSignal = False\<rparr>"

lemma restarted_worker: "snd (SetEventQueue (snd (SetEventQueue_null running_worker))) = running_worker"
  by (simp add: running_worker_def SetEventQueue_def SetEventQueue_null_def)

definition sm_inv :: "environment \<Rightarrow> state_machine \<Rightarrow> bool" where
  "sm_inv env m \<longleftrightarrow> m_poIncidentHandler m \<and> m_bInitalStateChangeDone m \<and> m_eFEPState m \<noteq> FS_UNKNOWN \<and>
     last_state_reached m = m_eFEPState m \<and> path (state_history (trace m)) \<and>
     state_history (trace m) \<noteq> [] \<and> hd (state_history (trace m)) = FS_STARTUP \<and>
     last (state_history (trace m)) = m_eFEPState m \<and>
     m_oEventWorkerThread m = running_worker \<and> mirrors env m \<and> (element_name env \<noteq> None \<longrightarrow> notifications (trace m) = state_history (trace m))"

lemma sm_inv_cong:
  assumes "sm_inv env m" "same_control m m'" "state_history (trace m') = state_history (trace m)"
    "notifications (trace m') = notifications (trace m)"
  shows "sm_inv env m'"
  using assms by (simp add: sm_inv_def mirrors_def same_control_fields)

lemma SetState_inv:
  assumes inv: "sm_inv env m" and edge: "chart_edge (m_eFEPState m) new" "new \<noteq> FS_UNKNOWN"
    and "m_eFEPState m \<noteq> FS_SHUTDOWN"
  shows "\<exists>r m'. SetState env new m = Some (r, m') \<and> sm_inv env m' \<and>
    m_eFEPState m' \<in> {m_eFEPState m, new}"
proof (cases "m_bIgnoreEvents m")
  case True
  then show ?thesis
    using inv by (simp add: SetState_def report_state_def InvokeIncident_def setStateReached_def
        record_event_def sm_inv_def mirrors_def connected_def)
next
  case False
  obtain r m' where m': "SetState env new m = Some (r, m')"
      "same_control (if performed env m new then m\<lparr>m_eFEPState := new, last_state_reached := new\<rparr>
                  else m\<lparr>last_state_reached := m_eFEPState m\<rparr>) m'"
      "trace m' = trace m @ announced (m_eFEPState m) new @
        calls env (connected m) (request_callback new) (m_eFEPState m) (m_oStateRequestListenerRegistry m) @
        (if performed env m new
         then change_log env m new (entry_callback new) (exit_callback (m_eFEPState m)) else []) @
        (if isOk r \<and> isFailed (request_answer env m new)
         then [Incident FSI_STM_STATE_RQ_FAILED SL_Info] else []) @
        (if isFailed r then [Incident FSI_GENERAL_CRITICAL_FAILURE SL_Critical] else [])"
    using SetState_effect [of m new env] inv assms(3,4) False by (auto simp: sm_inv_def)
  note f = same_control_fields [OF m'(2)]
  have hist: "state_history (trace m') =
      state_history (trace m) @ (if performed env m new then [new] else [])"
    by (simp add: m'(3))
  have sent: "element_name env \<noteq> None \<longrightarrow> notifications (trace m') =
      notifications (trace m) @ (if performed env m new then [new] else [])"
    using inv change_log_notifications [OF _ _ edge(2)] by (simp add: m'(3) sm_inv_def)
  obtain ss where ss: "state_history (trace m) = ss @ [m_eFEPState m]"
    using inv unfolding sm_inv_def by (metis append_butlast_last_id)
  have "path (state_history (trace m'))"
    using inv edge path_snoc [of ss "m_eFEPState m" new] unfolding hist ss by (simp add: sm_inv_def ss)
  then have "sm_inv env m'"
    using inv edge(2) sent hist by (simp add: sm_inv_def f mirrors_def split: if_splits)
  then show ?thesis
    using m'(1) f(4) by (simp split: if_splits)
qed

lemma handle_event_inv:
  assumes "sm_inv env m"
  shows "\<exists>m'. handle_event env t m = Some m' \<and> sm_inv env m' \<and>
    m_eFEPState m' \<in> {m_eFEPState m, transition_target t (m_eFEPState m)}"
proof (cases "transition_target t (m_eFEPState m) = FS_UNKNOWN")
  case True
  then show ?thesis using assms by (simp add: handle_event_def PerformStateTransition_def)
next
  case False
  have "m_eFEPState m \<noteq> FS_SHUTDOWN" using False by auto
  then obtain r m' where m': "SetState env (transition_target t (m_eFEPState m)) m = Some (r, m')"
      "sm_inv env m'" "m_eFEPState m' \<in> {m_eFEPState m, transition_target t (m_eFEPState m)}"
    using SetState_inv [OF assms transition_target_edge False] False assms
    unfolding sm_inv_def by blast
  have "sm_inv env (snd (EnqueueStateTransition ST_Error m'))"
    by (rule sm_inv_cong [OF m'(2)])
      (simp_all add: EnqueueStateTransition_def same_control_def control_def)
  then show ?thesis
    using m' False by (simp add: handle_event_def PerformStateTransition_def EnqueueStateTransition_def)
qed

lemma sm_inv_queue [simp]: "sm_inv env (m\<lparr>m_oPendingEventQueue := q\<rparr>) = sm_inv env m"
  by (simp add: sm_inv_def mirrors_def)

lemma sm_inv_flags [simp]:
  "sm_inv env (m\<lparr>m_bIgnoreEvents := b\<rparr>) = sm_inv env m"
  "sm_inv env (m\<lparr>m_bConsiderRequestResult := b\<rparr>) = sm_inv env m"
  "sm_inv env (m\<lparr>m_bStandAloneModeEnabled := b\<rparr>) = sm_inv env m"
  by (simp_all add: sm_inv_def mirrors_def)

lemma worker_step_inv:
  "sm_inv env m \<Longrightarrow> \<exists>m'. worker_step env m = Some m' \<and> sm_inv env m'"
  using handle_event_inv [of env "m\<lparr>m_oPendingEventQueue := q\<rparr>" for q]
  by (auto simp: worker_step_def split: list.splits)

lemma worker_steps_inv:
  "sm_inv env m \<Longrightarrow> \<exists>m'. worker_steps env n m = Some m' \<and> sm_inv env m'"
proof (induction n arbitrary: m)
  case (Suc n)
  then show ?case using worker_step_inv [OF Suc.prems] by auto
qed simp

lemma shutdown_prepare_inv:
  assumes "sm_inv env m"
  shows "\<exists>m'. shutdown_prepare env one_more m = Some m' \<and> sm_inv env m'"
proof -
  have "sm_inv env (m\<lparr>m_bIgnoreEvents := True\<rparr>)" using assms by simp
  from worker_step_inv [OF this] assms show ?thesis
    by (auto simp: shutdown_prepare_def Let_def sm_inv_def mirrors_def restarted_worker)
qed

lemma shutdown_events_inv:
  "sm_inv env m \<Longrightarrow> \<exists>m'. shutdown_events m = Some m' \<and> sm_inv env m'"
  by (cases "m_eFEPState m") (simp_all add: shutdown_events_def raise_all_eq sm_inv_def [where m = m])

lemma listeners_after:
  "set (snd (RegisterListener l ls)) = set ls \<union> set_option l"
  "set (snd (UnregisterListener l ls)) \<subseteq> set ls"
  by (auto simp: RegisterListener_def UnregisterListener_def split: option.splits
      dest: set_remove1_subset [THEN subsetD])

lemma listener_kept: "a \<in> set ls \<Longrightarrow> l \<noteq> Some a \<Longrightarrow> a \<in> set (snd (UnregisterListener l ls))"
  by (cases l) (simp_all add: UnregisterListener_def)

lemma sm_inv_registries:
  assumes "sm_inv env m"
  shows "set ls \<subseteq> range Client \<Longrightarrow> sm_inv env (m\<lparr>m_oStateRequestListenerRegistry := ls\<rparr>)"
    "ChangeNotifier \<in> set ls \<Longrightarrow> sm_inv env (m\<lparr>m_oStateEntryListenerRegistry := ls\<rparr>)"
    "set ls \<subseteq> range Client \<Longrightarrow> sm_inv env (m\<lparr>m_oStateExitListenerRegistry := ls\<rparr>)"
  using assms by (simp_all add: sm_inv_def mirrors_def)

lemma sm_inv_registration:
  assumes "sm_inv env m"
  shows "sm_inv env (snd (RegisterStateRequestListener l m))"
    "sm_inv env (snd (UnregisterStateRequestListener l m))"
    "sm_inv env (snd (RegisterStateEntryListener (map_option Client l) m))"
    "sm_inv env (snd (UnregisterStateEntryListener (map_option Client l) m))"
    "sm_inv env (snd (RegisterStateExitListener l m))"
    "sm_inv env (snd (UnregisterStateExitListener l m))"
proof -
  have reg: "set (m_oStateRequestListenerRegistry m) \<subseteq> range Client"
      "set (m_oStateExitListenerRegistry m) \<subseteq> range Client"
      "ChangeNotifier \<in> set (m_oStateEntryListenerRegistry m)"
    using assms by (simp_all add: sm_inv_def mirrors_def)
  have client: "set_option (map_option Client l) \<subseteq> range Client" "map_option Client l \<noteq> Some ChangeNotifier"
    by (cases l; simp)+
  note inv = sm_inv_registries [OF assms]
  show "sm_inv env (snd (RegisterStateRequestListener l m))"
    unfolding RegisterStateRequestListener_def case_prod_beta Let_def snd_conv
    by (rule inv(1)) (use reg client in \<open>simp add: listeners_after(1)\<close>)
  show "sm_inv env (snd (UnregisterStateRequestListener l m))"
    unfolding UnregisterStateRequestListener_def case_prod_beta Let_def snd_conv
    by (rule inv(1) [OF subset_trans [OF listeners_after(2) reg(1)]])
  show "sm_inv env (snd (RegisterStateEntryListener (map_option Client l) m))"
    unfolding RegisterStateEntryListener_def case_prod_beta Let_def snd_conv
    by (rule inv(2)) (use reg in \<open>simp add: listeners_after(1)\<close>)
  show "sm_inv env (snd (UnregisterStateEntryListener (map_option Client l) m))"
    unfolding UnregisterStateEntryListener_def case_prod_beta Let_def snd_conv
    by (rule inv(2) [OF listener_kept [OF reg(3) client(2)]])
  show "sm_inv env (snd (RegisterStateExitListener l m))"
    unfolding RegisterStateExitListener_def case_prod_beta Let_def snd_conv
    by (rule inv(3)) (use reg client in \<open>simp add: listeners_after(1)\<close>)
  show "sm_inv env (snd (UnregisterStateExitListener l m))"
    unfolding UnregisterStateExitListener_def case_prod_beta Let_def snd_conv
    by (rule inv(3) [OF subset_trans [OF listeners_after(2) reg(2)]])
qed

lemma stand_alone_inv:
  assumes "sm_inv env m"
    and "ProcessPropertyAdd p q get m = Some (r, m') \<or> ProcessPropertyChange p q get m = Some (r, m')"
  shows "sm_inv env m'"
proof (cases "m' = m")
  case False
  then obtain v sev where "m' = record_event (Incident FSI_STM_STAND_ALONE_MODE sev)
      (m\<lparr>m_bStandAloneModeEnabled := v\<rparr>)"
    using assms(2) by (auto simp: ProcessPropertyAdd_def ProcessPropertyChange_def InvokeIncident_def
        split: if_splits prod.splits)
  moreover have "sm_inv env (m\<lparr>m_bStandAloneModeEnabled := v\<rparr>)" using assms(1) by simp
  ultimately show ?thesis
    using sm_inv_cong [OF _ same_control_record, of env "m\<lparr>m_bStandAloneModeEnabled := v\<rparr>"]
    by (simp add: record_event_def)
qed (use assms in simp)

lemma sm_step_inv: "sm_step env m m' \<Longrightarrow> sm_inv env m \<Longrightarrow> sm_inv env m'"
proof (induction rule: sm_step.induct)
  case (work m m') then show ?case using worker_step_inv [of env m] by auto
next
  case (prepare one_more m m') then show ?case using shutdown_prepare_inv [of env m one_more] by auto
next
  case (shut m m') then show ?case using shutdown_events_inv [of env m] by auto
next
  case (stand_alone p q get m r m') then show ?case using stand_alone_inv by blast
next
  case (request_listener l m r m') then show ?case
    using sm_inv_registration(1,2) [of env m l] by auto
next
  case (entry_listener l m r m') then show ?case
    using sm_inv_registration(3,4) [of env m l] by auto
next
  case (exit_listener l m r m') then show ?case
    using sm_inv_registration(5,6) [of env m l] by auto
qed (auto simp: EnqueueStateTransition_def Update_def split: if_splits)

lemma FireupStateMachine_inv:
  assumes "m_poIncidentHandler m1" "m_eFEPState m1 = FS_STARTUP" "mirrors env m1" "trace m1 = []"
    and "m_oEventWorkerThread m1 = running_worker"
    and "FireupStateMachine env m1 = Some (r, m)"
  shows "sm_inv env m"
proof -
  let ?m = "m1\<lparr>m_bInitalStateChangeDone := False, m_bIgnoreEvents := False\<rparr>"
  obtain r2 m2 where 2: "leave_and_enter env FS_STARTUP (Some ProcessStartupEntry) (Some ProcessStartupExit) ?m
        = Some (r2, m2)"
      "same_control (?m\<lparr>m_eFEPState := FS_STARTUP\<rparr>) m2"
      "trace m2 = change_log env ?m FS_STARTUP (Some ProcessStartupEntry) (Some ProcessStartupExit)"
    using leave_and_enter_effect [of "Some ProcessStartupEntry" ?m "Some ProcessStartupExit" env FS_STARTUP] assms(4)
    by auto
  note f = same_control_fields [OF 2(2)]
  have cbs: "entry_callback FS_STARTUP = Some ProcessStartupEntry" "exit_callback FS_STARTUP = Some ProcessStartupExit"
      "request_callback FS_STARTUP = None"
    by (simp_all add: entry_callback_def exit_callback_def request_callback_def)
  have "m = setStateReached (m_eFEPState m2) (if isFailed r2
      then record_event (Incident FSI_GENERAL_CRITICAL_FAILURE SL_Critical) m2 else m2)
      \<lparr>m_bInitalStateChangeDone := True\<rparr>"
    using assms(6) 2(1) assms(1,2)
    by (auto simp: FireupStateMachine_def SetState_def GetCallbackFcnPointer_eq cbs report_state_def
        InvokeIncident_def f record_event_def)
  moreover have "notifications (trace m2) = [FS_STARTUP]" if "element_name env \<noteq> None"
    using change_log_notifications [of env ?m FS_STARTUP FS_STARTUP] that assms(3)
    by (simp add: 2(3) cbs mirrors_def)
  ultimately show ?thesis
    using assms(1-3,5) 2(3) by (auto simp: sm_inv_def setStateReached_def record_event_def f mirrors_def)
qed

lemma reachable_inv: "reachable env m \<Longrightarrow> sm_inv env m"
proof (induction rule: reachable.induct)
  case (start e x rq en ex m1 r m)
  have "m_poIncidentHandler m1" "m_eFEPState m1 = FS_STARTUP" "mirrors env m1" "trace m1 = []"
    "m_oEventWorkerThread m1 = running_worker"
    using start(1)
    by (auto simp: cStateMachine_Initialize_def cStateMachine_def SetEventQueue_def notifier_reset_def
        RegisterStandAloneModeListener_def notifier_Initialize_def RegisterStateEntryListener_def
        RegisterListener_def setStateReached_def mirrors_def connected_def running_worker_def Let_def)
  then show ?case using FireupStateMachine_inv start(2) by blast
qed (rule sm_step_inv)

section \<open>Listeners without a memory\<close>

text \<open>An environment whose listeners answer by the callback alone and raise no events.\<close>

definition steady :: "environment \<Rightarrow> (callback \<Rightarrow> fep_result) \<Rightarrow> bool" where
  "steady env f \<longleftrightarrow> (\<forall>tr n cb arg. answer env tr n cb arg = (f cb, []))"

definition clients :: "listener list \<Rightarrow> bool" where
  "clients ls \<longleftrightarrow> (\<exists>l \<in> set ls. l \<noteq> ChangeNotifier)"

lemma call_client_steady:
  "steady env f \<Longrightarrow> fst (call_client env cb arg l m) = f cb \<and>
   m_oPendingEventQueue (snd (call_client env cb arg l m)) = m_oPendingEventQueue m"
  by (simp add: call_client_def steady_def raise_all_eq record_event_def)

lemma call_listener_steady:
  "steady env f \<Longrightarrow>
   fst (call_listener env cb arg l m) = (if l = ChangeNotifier then ERR_NOERROR else f cb) \<and>
   m_oPendingEventQueue (snd (call_listener env cb arg l m)) = m_oPendingEventQueue m"
  using call_client_steady [of env f cb arg]
  by (auto simp: call_listener_def notifier_callback_def SendStateChangeNotification_def record_event_def
      split: listener.splits option.splits)

lemma notify_each_steady:
  assumes "steady env f"
  shows "fst (notify_each (call_listener env cb arg) r ls m) =
      (if isFailed r then r else if clients ls then f cb else ERR_NOERROR) \<and>
    m_oPendingEventQueue (snd (notify_each (call_listener env cb arg) r ls m)) = m_oPendingEventQueue m"
  using call_listener_steady [OF assms]
  by (induction ls arbitrary: r m) (auto simp: clients_def case_prod_beta)

lemma clients_first_occurrences [simp]: "clients (first_occurrences [] ls) = clients ls"
  by (simp add: clients_def set_first_occurrences)

lemma notify_registry_steady:
  assumes "steady env f" "registry_field registry"
    and "notify_registry env registry (Some cb) arg m = Some (r, m')"
  shows "r = (if clients (registry m) then f cb else ERR_NOERROR) \<and>
    m_oPendingEventQueue m' = m_oPendingEventQueue m \<and> same_control m m'"
proof -
  have "registry (snd (call_listener env cb arg l v)) = registry v" for l v
    using assms(2) call_listener_effect unfolding registry_field_def by blast
  then have "notify_each (call_listener env cb arg) ERR_NOERROR (first_occurrences [] (registry m)) m = (r, m')"
    using assms(3) by (simp add: notify_registry_def NotifyListener_unchanged)
  then show ?thesis
    using notify_each_steady [OF assms(1), of cb arg ERR_NOERROR "first_occurrences [] (registry m)" m]
      notify_each_effect [of m env cb arg ERR_NOERROR "first_occurrences [] (registry m)"] by simp
qed

lemma call_internal_steady:
  assumes "steady env f" "call_internal env l (Some cb) arg m = Some (r, m')"
  shows "r = (if l = None then ERR_NOERROR else f cb) \<and>
    m_oPendingEventQueue m' = m_oPendingEventQueue m \<and> same_control m m'"
  using assms(2) call_client_steady [OF assms(1)] call_client_effect
  by (auto simp: call_internal_def split: option.splits) (metis fst_conv snd_conv)+

lemma notify_and_internal_steady:
  assumes "steady env f" "registry_field registry" "f cb = ERR_NOERROR"
    and "do {
      (r1, m) \<leftarrow> notify_registry env registry (Some cb) arg m;
      (r2, m) \<leftarrow> call_internal env (internal m) (Some cb) arg m;
      Some (result_or r1 r2, m) } = Some (r, m')"
  shows "r = ERR_NOERROR \<and> m_oPendingEventQueue m' = m_oPendingEventQueue m \<and> same_control m m'"
proof -
  obtain r1 m1 r2 where 1: "notify_registry env registry (Some cb) arg m = Some (r1, m1)"
      and 2: "call_internal env (internal m1) (Some cb) arg m1 = Some (r2, m')" and r: "r = result_or r1 r2"
    using assms(4) by (auto simp: bind_eq_Some_conv)
  show ?thesis
    using notify_registry_steady [OF assms(1,2) 1] call_internal_steady [OF assms(1) 2]
      same_control_trans assms(3) r by auto
qed

lemma leave_and_enter_steady:
  assumes "steady env f" "f pEx = ERR_NOERROR" "f CleanUp = ERR_NOERROR"
    and "leave_and_enter env new (Some pEn) (Some pEx) m = Some (r, m')"
  shows "r = (if clients (m_oStateEntryListenerRegistry m) then f pEn else ERR_NOERROR) \<and>
    m_oPendingEventQueue m' = m_oPendingEventQueue m"
proof -
  let ?old = "m_eFEPState m"
  obtain r1 m1 r3 m3 r4 m4 r5 where
      1: "(if m_bInitalStateChangeDone m then do {
             (r1, m) \<leftarrow> notify_registry env m_oStateExitListenerRegistry (Some pEx) new m;
             (r2, m) \<leftarrow> call_internal env (m_poInternalStateExitListener m) (Some pEx) new m;
             Some (result_or r1 r2, m)
           } else Some (ERR_NOERROR, m)) = Some (r1, m1)" and
      3: "(if cleans_up ?old new then do {
             (r1, m) \<leftarrow> notify_registry env m_oStateEntryListenerRegistry (Some CleanUp) ?old
               (record_event (StateChanged new) (m1\<lparr>m_eFEPState := new\<rparr>));
             (r2, m) \<leftarrow> call_internal env (m_poInternalStateEntryListener m) (Some CleanUp) ?old m;
             Some (result_or r1 r2, m)
           } else Some (ERR_NOERROR, record_event (StateChanged new) (m1\<lparr>m_eFEPState := new\<rparr>))) = Some (r3, m3)" and
      4: "call_internal env (m_poInternalStateEntryListener m3) (Some pEn) ?old m3 = Some (r4, m4)" and
      5: "notify_registry env m_oStateEntryListenerRegistry (Some pEn) ?old m4 = Some (r5, m')" and
      r: "r = (if isFailed r1 then r1 else if isFailed r3 then r3 else r5)"
    using assms(4) unfolding leave_and_enter_def Let_def cleans_up_def [symmetric] bind_eq_Some_conv
      split_paired_Ex prod.case by blast
  have 1: "r1 = ERR_NOERROR" "m_oPendingEventQueue m1 = m_oPendingEventQueue m" "same_control m m1"
    using 1 notify_and_internal_steady [OF assms(1) registry_fields(3) assms(2), of new m] by (auto split: if_splits)
  have 2: "same_control (m\<lparr>m_eFEPState := new\<rparr>) (record_event (StateChanged new) (m1\<lparr>m_eFEPState := new\<rparr>))"
    using same_control_trans [OF same_control_set_state [OF 1(3)] same_control_record] .
  have 3: "r3 = ERR_NOERROR" "m_oPendingEventQueue m3 = m_oPendingEventQueue m"
      "same_control (m\<lparr>m_eFEPState := new\<rparr>) m3"
    using 3 notify_and_internal_steady [OF assms(1) registry_fields(2) assms(3), of ?old
        "record_event (StateChanged new) (m1\<lparr>m_eFEPState := new\<rparr>)"] 1(2) 2 same_control_trans
    by (auto simp: record_event_def split: if_splits)
  show ?thesis
    using notify_registry_steady [OF assms(1) registry_fields(2) 5] call_internal_steady [OF assms(1) 4] 1 3 r
      same_control_fields(6) [OF 3(3)] same_control_fields(6) [of m3 m4] by simp
qed

lemma first_failure_steady:
  "steady env f \<Longrightarrow> first_failure env conn cb arg ls tr = (if clients ls then f cb else ERR_NOERROR)"
  by (induction ls arbitrary: tr) (auto simp: clients_def steady_def Let_def split: listener.splits)

lemma request_phase_steady:
  assumes "steady env f" "request_callback new = Some c"
    and "notify_registry env m_oStateRequestListenerRegistry (Some c) arg m = Some (r, m')"
  shows "m_oPendingEventQueue m' = m_oPendingEventQueue m \<and> same_control m m'"
  using notify_registry_steady [OF assms(1) registry_fields(1) assms(3)] by simp

text \<open>
  A transition with listeners that agree to it: the result is that of the entry callback, and nothing is
  added to the queue.
\<close>

lemma SetState_steady:
  assumes steady: "steady env f" and m: "sm_inv env m" "\<not> m_bIgnoreEvents m" "m_eFEPState m \<noteq> FS_SHUTDOWN"
    and cbs: "request_callback new = Some pRq" "entry_callback new = Some pEn"
      "exit_callback (m_eFEPState m) = Some pEx"
    and ok: "f pRq = ERR_NOERROR" "f CleanUp = ERR_NOERROR" "f pEx = ERR_NOERROR"
    and set: "SetState env new m = Some (r, m')"
  shows "r = (if clients (m_oStateEntryListenerRegistry m) then f pEn else ERR_NOERROR) \<and>
    m_oPendingEventQueue m' = m_oPendingEventQueue m \<and> performed env m new"
proof -
  let ?old = "m_eFEPState m"
  have new: "new \<noteq> FS_UNKNOWN" using cbs(2) by (auto simp: entry_callback_def)
  have init: "m_bInitalStateChangeDone m" "?old \<noteq> FS_UNKNOWN" "m_poIncidentHandler m"
    using m(1) by (simp_all add: sm_inv_def)
  have answer: "request_answer env m new = ERR_NOERROR"
    using first_failure_steady [OF steady] ok(1) by (simp add: request_answer_def cbs(1))
  define m0 where "m0 = (if announced ?old new = [] then m else record_event (hd (announced ?old new)) m)"
  have 0: "(if ?old = FS_STARTUP \<and> new = FS_SHUTDOWN
      then InvokeIncident FSI_GENERAL_CRITICAL_FAILURE SL_Critical_Local m else Some m) = Some m0"
    using init by (simp add: m0_def announced_def InvokeIncident_def)
  have m0: "m_oPendingEventQueue m0 = m_oPendingEventQueue m" "same_control m m0"
      "m_bInitalStateChangeDone m0"
    using init by (auto simp: m0_def announced_def record_event_def same_control_def control_def)
  obtain m1 where 1: "notify_registry env m_oStateRequestListenerRegistry (Some pRq) ?old m0 =
      Some (request_answer env m new, m1)"
    using request_phase_effect [OF init(1) m0_def refl, of env] m0(3)
    by (auto simp: cbs(1) bind_eq_Some_conv)
  have m1: "m_oPendingEventQueue m1 = m_oPendingEventQueue m" "same_control m m1"
    using request_phase_steady [OF steady cbs(1) 1] m0 same_control_trans by auto
  obtain r2 m2 where 2: "leave_and_enter env new (Some pEn) (Some pEx) m1 = Some (r2, m2)"
    using leave_and_enter_effect [of "Some pEn" m1 "Some pEx" env new] by auto
  note l = leave_and_enter_steady [OF steady ok(3,2) 2]
  have get: "GetCallbackFcnPointer new ?old = (ERR_NOERROR, Some pRq, Some pEn, Some pEx)"
    using new init by (simp add: GetCallbackFcnPointer_eq cbs)
  have "SetState env new m = report_state r2 m2"
    unfolding SetState_def Let_def get prod.case 0
    using m(2) m0(3) 1 2 by (simp add: answer 1)
  then have "r = r2 \<and> m_oPendingEventQueue m' = m_oPendingEventQueue m2"
    using set by (auto simp: report_state_def InvokeIncident_def record_event_def setStateReached_def
        bind_eq_Some_conv split: if_splits)
  then show ?thesis
    using l m1 same_control_fields(6) [OF m1(2)] by (simp add: performed_def answer)
qed

text \<open>One event when request results do not matter, for any listeners.\<close>

lemma handle_event_performs:
  assumes m: "sm_inv env m" "\<not> m_bIgnoreEvents m" "performed env m (transition_target t (m_eFEPState m))"
    and valid: "transition_target t (m_eFEPState m) \<noteq> FS_UNKNOWN"
  shows "\<exists>m' ts. handle_event env t m = Some m' \<and> sm_inv env m' \<and>
    m_eFEPState m' = transition_target t (m_eFEPState m) \<and>
    m_bIgnoreEvents m' = m_bIgnoreEvents m \<and> m_bConsiderRequestResult m' = m_bConsiderRequestResult m \<and>
    m_oPendingEventQueue m' = m_oPendingEventQueue m @ ts"
proof -
  let ?new = "transition_target t (m_eFEPState m)"
  have old: "m_eFEPState m \<noteq> FS_SHUTDOWN" using valid by auto
  obtain r m' where m': "SetState env ?new m = Some (r, m')"
      "same_control (m\<lparr>m_eFEPState := ?new, last_state_reached := ?new\<rparr>) m'"
    using SetState_effect [of m ?new env] m old valid by (auto simp: sm_inv_def)
  have inv: "sm_inv env m'"
    using SetState_inv [OF m(1) transition_target_edge valid old] m(1) valid m'(1) by (auto simp: sm_inv_def)
  obtain ts where ts: "m_oPendingEventQueue m' = m_oPendingEventQueue m @ ts"
    using m'(2) by (auto simp: same_control_def)
  define m'' where "m'' = (if isFailed r then snd (EnqueueStateTransition ST_Error m') else m')"
  have "handle_event env t m = Some m''"
    using m'(1) valid by (simp add: handle_event_def PerformStateTransition_def m''_def)
  moreover have "sm_inv env m''" using inv by (simp add: m''_def EnqueueStateTransition_def)
  moreover have "\<exists>us. m_oPendingEventQueue m'' = m_oPendingEventQueue m' @ us"
    by (simp add: m''_def EnqueueStateTransition_def)
  moreover have "m_eFEPState m'' = ?new \<and> m_bIgnoreEvents m'' = m_bIgnoreEvents m \<and>
      m_bConsiderRequestResult m'' = m_bConsiderRequestResult m"
    using same_control_fields [OF m'(2)] by (simp add: m''_def EnqueueStateTransition_def)
  ultimately show ?thesis using ts by auto
qed

lemma handle_event_invalid:
  "transition_target t (m_eFEPState m) = FS_UNKNOWN \<Longrightarrow> handle_event env t m = Some m"
  by (simp add: handle_event_def PerformStateTransition_def)

section \<open>Shutting down\<close>

text \<open>How many events of the queue have to be handled until FS_SHUTDOWN is reached.\<close>

definition heading :: "environment \<Rightarrow> nat \<Rightarrow> state_machine \<Rightarrow> bool" where
  "heading env k m \<longleftrightarrow> sm_inv env m \<and> \<not> m_bIgnoreEvents m \<and> \<not> m_bConsiderRequestResult m \<and>
     (case k of
        0 \<Rightarrow> m_eFEPState m = FS_SHUTDOWN
      | Suc 0 \<Rightarrow> m_eFEPState m \<in> {FS_STARTUP, FS_IDLE, FS_ERROR} \<and>
          (\<exists>q. m_oPendingEventQueue m = ST_Shutdown # q)
      | Suc (Suc 0) \<Rightarrow> m_eFEPState m \<in> {FS_INITIALIZING, FS_READY, FS_RUNNING} \<and>
          (\<exists>q. m_oPendingEventQueue m = ST_Stop # ST_Shutdown # q)
      | _ \<Rightarrow> False)"

lemma heading_cases:
  "heading env k m \<Longrightarrow> k = 0 \<or> k = 1 \<or> k = 2"
  by (auto simp: heading_def split: nat.splits)

lemma performed_unconsidered [simp]: "\<not> m_bConsiderRequestResult m \<Longrightarrow> performed env m new"
  by (simp add: performed_def)

lemma heading_step:
  assumes "heading env k m"
  shows "\<exists>m'. worker_step env m = Some m' \<and> heading env (k - 1) m'"
proof -
  have loop: "w_in_loop (m_oEventWorkerThread m)"
    using assms by (simp add: heading_def sm_inv_def running_worker_def)
  consider "k = 0" | "k = 1" | "k = 2" using heading_cases [OF assms] by blast
  then show ?thesis
  proof cases
    case 1
    then have m: "m_eFEPState m = FS_SHUTDOWN" "heading env 0 m" using assms by (simp_all add: heading_def)
    have "heading env 0 (m\<lparr>m_oPendingEventQueue := q\<rparr>)" for q
      using m(2) by (simp add: heading_def)
    then show ?thesis
      using 1 m loop by (auto simp: worker_step_def handle_event_invalid split: list.splits)
  next
    case 2
    then obtain q where q: "m_oPendingEventQueue m = ST_Shutdown # q" using assms by (auto simp: heading_def)
    let ?m = "m\<lparr>m_oPendingEventQueue := q\<rparr>"
    have "transition_target ST_Shutdown (m_eFEPState m) = FS_SHUTDOWN"
      using assms 2 by (auto simp: heading_def transition_target_def)
    then show ?thesis
      using handle_event_performs [of env ?m ST_Shutdown] assms 2 q loop
      by (fastforce simp: heading_def worker_step_def)
  next
    case 3
    then obtain q where q: "m_oPendingEventQueue m = ST_Stop # ST_Shutdown # q"
      using assms by (auto simp: heading_def numeral_2_eq_2)
    let ?m = "m\<lparr>m_oPendingEventQueue := ST_Shutdown # q\<rparr>"
    have "transition_target ST_Stop (m_eFEPState m) = FS_IDLE"
      using assms 3 by (auto simp: heading_def transition_target_def numeral_2_eq_2)
    then show ?thesis
      using handle_event_performs [of env ?m ST_Stop] assms 3 q loop
      by (fastforce simp: heading_def worker_step_def numeral_2_eq_2)
  qed
qed

lemma heading_steps: "heading env k m \<Longrightarrow> \<exists>m'. worker_steps env n m = Some m' \<and> heading env (k - n) m'"
proof (induction n arbitrary: k m)
  case (Suc n)
  obtain m1 where m1: "worker_step env m = Some m1" "heading env (k - 1) m1"
    using heading_step [OF Suc.prems] by blast
  then show ?case using Suc.IH [OF m1(2)] by simp
qed simp

lemma heading_enqueue: "heading env k m \<Longrightarrow> heading env k (snd (EnqueueStateTransition t m))"
  by (auto simp: heading_def EnqueueStateTransition_def split: nat.splits)

lemma heading_zero: "heading env k m \<Longrightarrow> last_state_reached m = FS_SHUTDOWN \<longleftrightarrow> k = 0"
  by (auto simp: heading_def sm_inv_def split: nat.splits)

lemma shutdown_wait_ends:
  assumes "heading env k m" "k \<le> sum_list ns"
  shows "\<exists>m'. shutdown_wait env ns m = Some (Inr m') \<and> heading env 0 m'"
  using assms
proof (induction ns arbitrary: k m)
  case (Cons n ns)
  obtain m1 where m1: "worker_steps env n m = Some m1" "heading env (k - n) m1"
    using heading_steps [OF Cons.prems(1)] by blast
  show ?case
    using Cons.IH [OF heading_enqueue [OF m1(2)]] Cons.prems(2) m1 heading_zero [OF m1(2)] by auto
qed (use heading_zero in auto)

text \<open>\<open>PerformShutdown\<close> from a running machine, up to its last loop.\<close>

lemma shutdown_prepare_result:
  assumes "sm_inv env m"
  shows "\<exists>m1. shutdown_prepare env one_more m = Some m1 \<and> sm_inv env m1 \<and> \<not> m_bIgnoreEvents m1 \<and>
    \<not> m_bConsiderRequestResult m1 \<and> m_oPendingEventQueue m1 = []"
proof -
  obtain m1 where m1: "shutdown_prepare env one_more m = Some m1" "sm_inv env m1"
    using shutdown_prepare_inv [OF assms] by blast
  moreover have "\<not> m_bIgnoreEvents m1 \<and> \<not> m_bConsiderRequestResult m1 \<and> m_oPendingEventQueue m1 = []"
    using m1(1) by (auto simp: shutdown_prepare_def Let_def bind_eq_Some_conv split: if_splits)
  ultimately show ?thesis by blast
qed

lemma shutdown_events_heading:
  assumes "sm_inv env m" "\<not> m_bIgnoreEvents m" "\<not> m_bConsiderRequestResult m" "m_oPendingEventQueue m = []"
  shows "\<exists>m' k. shutdown_events m = Some m' \<and> heading env k m' \<and> k \<le> 2"
proof -
  have "m_eFEPState m \<noteq> FS_UNKNOWN" using assms(1) by (simp add: sm_inv_def)
  then consider "m_eFEPState m = FS_SHUTDOWN" | "m_eFEPState m \<in> {FS_STARTUP, FS_IDLE, FS_ERROR}"
    | "m_eFEPState m \<in> {FS_INITIALIZING, FS_READY, FS_RUNNING}" by (cases "m_eFEPState m") auto
  then show ?thesis
  proof cases
    case 1
    then show ?thesis
      using assms by (intro exI [of _ m] exI [of _ 0]) (simp add: shutdown_events_def heading_def)
  next
    case 2
    then show ?thesis
      using assms by (intro exI [of _ "raise_all [ST_Shutdown] m"] exI [of _ 1])
        (auto simp: shutdown_events_def heading_def raise_all_eq)
  next
    case 3
    then show ?thesis
      using assms by (intro exI [of _ "raise_all [ST_Stop, ST_Shutdown] m"] exI [of _ 2])
        (auto simp: shutdown_events_def heading_def raise_all_eq numeral_2_eq_2)
  qed
qed

section \<open>A machine that cannot be shut down\<close>

definition stuck :: "environment \<Rightarrow> state_machine \<Rightarrow> bool" where
  "stuck env m \<longleftrightarrow> sm_inv env m \<and> \<not> m_bIgnoreEvents m \<and>
     (m_eFEPState m = FS_IDLE \<and> (\<exists>k. m_oPendingEventQueue m = ST_Initialize # replicate k ST_Shutdown) \<or>
      m_eFEPState m = FS_INITIALIZING \<and> (\<exists>k. m_oPendingEventQueue m = replicate k ST_Shutdown))"

lemma SetState_history:
  assumes "sm_inv env m" "\<not> m_bIgnoreEvents m" "m_eFEPState m \<noteq> FS_SHUTDOWN" "new \<noteq> FS_UNKNOWN"
  shows "\<exists>r m'. SetState env new m = Some (r, m') \<and>
    same_control (if performed env m new then m\<lparr>m_eFEPState := new, last_state_reached := new\<rparr>
                  else m\<lparr>last_state_reached := m_eFEPState m\<rparr>) m' \<and>
    state_history (trace m') = state_history (trace m) @ (if performed env m new then [new] else [])"
proof -
  obtain r m' where m': "SetState env new m = Some (r, m')"
      "same_control (if performed env m new then m\<lparr>m_eFEPState := new, last_state_reached := new\<rparr>
                  else m\<lparr>last_state_reached := m_eFEPState m\<rparr>) m'"
      "trace m' = trace m @ announced (m_eFEPState m) new @
        calls env (connected m) (request_callback new) (m_eFEPState m) (m_oStateRequestListenerRegistry m) @
        (if performed env m new
         then change_log env m new (entry_callback new) (exit_callback (m_eFEPState m)) else []) @
        (if isOk r \<and> isFailed (request_answer env m new)
         then [Incident FSI_STM_STATE_RQ_FAILED SL_Info] else []) @
        (if isFailed r then [Incident FSI_GENERAL_CRITICAL_FAILURE SL_Critical] else [])"
    using SetState_effect [of m new env] assms by (auto simp: sm_inv_def)
  then show ?thesis by (intro exI [of _ r] exI [of _ m']) simp
qed

lemma handle_event_steady:
  assumes "steady env f" "sm_inv env m" "\<not> m_bIgnoreEvents m"
    and target: "transition_target t (m_eFEPState m) = new" "new \<noteq> FS_UNKNOWN"
    and cbs: "request_callback new = Some pRq" "entry_callback new = Some pEn"
      "exit_callback (m_eFEPState m) = Some pEx"
    and ok: "f pRq = ERR_NOERROR" "f CleanUp = ERR_NOERROR" "f pEx = ERR_NOERROR"
  shows "\<exists>m'. handle_event env t m = Some m' \<and> sm_inv env m' \<and> m_eFEPState m' = new \<and>
    \<not> m_bIgnoreEvents m' \<and>
    m_oStateEntryListenerRegistry m' = m_oStateEntryListenerRegistry m \<and>
    state_history (trace m') = state_history (trace m) @ [new] \<and>
    m_oPendingEventQueue m' = m_oPendingEventQueue m @
      (if clients (m_oStateEntryListenerRegistry m) \<and> isFailed (f pEn) then [ST_Error] else [])"
proof -
  have old: "m_eFEPState m \<noteq> FS_SHUTDOWN" using cbs(3) by (auto simp: exit_callback_def)
  obtain r m' where m': "SetState env new m = Some (r, m')"
      "same_control (if performed env m new then m\<lparr>m_eFEPState := new, last_state_reached := new\<rparr>
                  else m\<lparr>last_state_reached := m_eFEPState m\<rparr>) m'"
      "state_history (trace m') = state_history (trace m) @ (if performed env m new then [new] else [])"
    using SetState_history [OF assms(2,3) old target(2)] by blast
  have inv: "sm_inv env m'"
    using SetState_inv [OF assms(2) _ target(2) old] transition_target_edge [of "m_eFEPState m" t]
      target assms(2) m'(1) by (auto simp: sm_inv_def)
  note s = SetState_steady [OF assms(1-3) old cbs ok m'(1)]
  have perf: "performed env m new" using s by blast
  note f = same_control_fields [OF m'(2), simplified perf if_True]
  have "handle_event env t m = Some (if isFailed r then snd (EnqueueStateTransition ST_Error m') else m')"
    using m'(1) target by (simp add: handle_event_def PerformStateTransition_def)
  then show ?thesis
    using s inv f assms(3) m'(3) by (simp add: EnqueueStateTransition_def)
qed

lemma stuck_step:
  assumes "stuck env m" "steady env (\<lambda>_. ERR_NOERROR)"
  shows "\<exists>m'. worker_step env m = Some m' \<and> stuck env m'"
proof -
  have loop: "w_in_loop (m_oEventWorkerThread m)"
    using assms by (simp add: stuck_def sm_inv_def running_worker_def)
  consider k where "m_eFEPState m = FS_IDLE" "m_oPendingEventQueue m = ST_Initialize # replicate k ST_Shutdown"
    | k where "m_eFEPState m = FS_INITIALIZING" "m_oPendingEventQueue m = replicate k ST_Shutdown"
    using assms(1) by (auto simp: stuck_def)
  then show ?thesis
  proof cases
    case 1
    let ?m = "m\<lparr>m_oPendingEventQueue := replicate k ST_Shutdown\<rparr>"
    have m: "sm_inv env ?m" "\<not> m_bIgnoreEvents ?m" using assms(1) by (simp_all add: stuck_def)
    show ?thesis
      using handle_event_steady [OF assms(2) m, of ST_Initialize FS_INITIALIZING
          ProcessInitializingRequest ProcessInitializingEntry ProcessIdleExit] 1 loop
      by (auto simp: transition_target_def request_callback_def entry_callback_def exit_callback_def
          worker_step_def stuck_def)
  next
    case 2
    have "transition_target ST_Shutdown FS_INITIALIZING = FS_UNKNOWN" by (simp add: transition_target_def)
    then show ?thesis
      using 2 loop assms(1) by (cases k) (auto simp: worker_step_def handle_event_invalid stuck_def)
  qed
qed

lemma stuck_steps:
  "stuck env m \<Longrightarrow> steady env (\<lambda>_. ERR_NOERROR) \<Longrightarrow> \<exists>m'. worker_steps env n m = Some m' \<and> stuck env m'"
proof (induction n arbitrary: m)
  case (Suc n)
  then show ?case using stuck_step by fastforce
qed simp

lemma stuck_not_down: "stuck env m \<Longrightarrow> last_state_reached m \<noteq> FS_SHUTDOWN"
  by (auto simp: stuck_def sm_inv_def)

lemma stuck_enqueue: "stuck env m \<Longrightarrow> stuck env (snd (EnqueueStateTransition ST_Shutdown m))"
  by (auto simp: stuck_def EnqueueStateTransition_def simp flip: replicate_append_same
      intro: exI [of _ "Suc k" for k])

lemma stuck_waits:
  assumes "stuck env m" "steady env (\<lambda>_. ERR_NOERROR)"
  shows "\<exists>m'. shutdown_wait env ns m = Some (Inl m')"
  using assms(1)
proof (induction ns arbitrary: m)
  case (Cons n ns)
  obtain m1 where "worker_steps env n m = Some m1" "stuck env m1"
    using stuck_steps [OF Cons.prems assms(2)] by blast
  then show ?case using Cons.IH [OF stuck_enqueue] stuck_not_down by auto
qed (use stuck_not_down in simp)

section \<open>A participant to try the properties on\<close>

definition demo_env :: "(callback \<Rightarrow> fep_result) \<Rightarrow> environment" where
  "demo_env f = \<lparr>answer = (\<lambda>_ _ cb _. (f cb, [])), element_name = Some ''sensor''\<rparr>"

definition demo_fired :: "environment \<Rightarrow> (fep_result \<times> state_machine) option" where
  "demo_fired env = FireupStateMachine env
     (snd (cStateMachine_Initialize True (Some 0) (Some 0) ERR_NOERROR ERR_NOERROR ERR_NOERROR
        (cStateMachine\<lparr>m_oStateRequestListenerRegistry := map Client [1],
                       m_oStateEntryListenerRegistry := map Client [2],
                       m_oStateExitListenerRegistry := map Client []\<rparr>)))"

fun demo_run :: "environment \<Rightarrow> tStateTransition list \<Rightarrow> state_machine \<Rightarrow> state_machine option" where
  "demo_run env [] m = Some m"
| "demo_run env (t # ts) m = do {
     m \<leftarrow> worker_step env (snd (EnqueueStateTransition t m));
     demo_run env ts m }"

definition demo :: "(callback \<Rightarrow> fep_result) \<Rightarrow> tStateTransition list \<Rightarrow> state_machine" where
  "demo f ts = the (do { (_, m) \<leftarrow> demo_fired (demo_env f); demo_run (demo_env f) ts m })"

lemma steady_demo_env: "steady (demo_env f) f"
  by (simp add: steady_def demo_env_def)

lemma reachable_demo_run:
  "reachable env m \<Longrightarrow> demo_run env ts m = Some m' \<Longrightarrow> reachable env m'"
proof (induction ts arbitrary: m)
  case (Cons t ts)
  obtain m1 where m1: "worker_step env (snd (EnqueueStateTransition t m)) = Some m1"
      "demo_run env ts m1 = Some m'"
    using Cons.prems(2) by (auto simp: bind_eq_Some_conv)
  have "reachable env (snd (EnqueueStateTransition t m))"
    by (rule reachable.step [OF Cons.prems(1) sm_step.raise]) (rule prod.collapse [symmetric])
  then show ?case
    using reachable.step [OF _ sm_step.work] Cons.IH [OF _ m1(2)] m1(1) by blast
qed simp

lemma reachable_demo:
  assumes "(do { (_, m) \<leftarrow> demo_fired (demo_env f); demo_run (demo_env f) ts m }) \<noteq> None"
  shows "reachable (demo_env f) (demo f ts)"
proof -
  obtain r m m' where m: "demo_fired (demo_env f) = Some (r, m)" "demo_run (demo_env f) ts m = Some m'"
    using assms by (auto simp: bind_eq_Some_conv)
  let ?init = "cStateMachine_Initialize True (Some 0) (Some 0) ERR_NOERROR ERR_NOERROR ERR_NOERROR
        (cStateMachine\<lparr>m_oStateRequestListenerRegistry := map Client [1],
                       m_oStateEntryListenerRegistry := map Client [2],
                       m_oStateExitListenerRegistry := map Client []\<rparr>)"
  have "fst ?init = ERR_NOERROR" by code_simp
  then have "?init = (ERR_NOERROR, snd ?init)" by (simp add: prod_eq_iff)
  then have "reachable (demo_env f) m"
    using reachable.start m(1) unfolding demo_fired_def by blast
  then have "reachable (demo_env f) m'" using reachable_demo_run m(2) by blast
  then show ?thesis by (simp add: demo_def m)
qed

section \<open>Properties\<close>

text \<open>
  C4: In every reachable machine the states passed so far form a path of the state chart that starts in
  STARTUP and ends in the current state (with the self-loop of ERROR as the only edge the chart does not
  draw), the current state is never UNKNOWN, threads waiting for a state see the current one, and the
  worker can handle whatever the queue holds without calling a null pointer.
\<close>

theorem state_history_follows_chart:
  assumes "reachable env m"
  shows "path (state_history (trace m)) \<and> hd (state_history (trace m)) = FS_STARTUP \<and>
    last (state_history (trace m)) = m_eFEPState m \<and> m_eFEPState m \<noteq> FS_UNKNOWN \<and>
    last_state_reached m = m_eFEPState m \<and> worker_step env m \<noteq> None"
  using reachable_inv [OF assms] worker_step_inv [of env m] by (auto simp: sm_inv_def)

theorem state_history_follows_chart_witness:
  "state_history (trace (demo (\<lambda>_. ERR_NOERROR) [ST_StartupDone, ST_Start, ST_Initialize])) =
     [FS_STARTUP, FS_IDLE, FS_INITIALIZING] \<and>
   m_eFEPState (demo (\<lambda>_. ERR_NOERROR) [ST_StartupDone, ST_Start, ST_Initialize]) = FS_INITIALIZING"
proof -
  let ?ts = "[ST_StartupDone, ST_Start, ST_Initialize]"
  have "reachable (demo_env (\<lambda>_. ERR_NOERROR)) (demo (\<lambda>_. ERR_NOERROR) ?ts)"
    by (rule reachable_demo) code_simp
  note this [THEN state_history_follows_chart]
  moreover have "state_history (trace (demo (\<lambda>_. ERR_NOERROR) ?ts)) = [FS_STARTUP, FS_IDLE, FS_INITIALIZING]"
    by code_simp
  ultimately show ?thesis by simp
qed

text \<open>
  C39: When the participant has a name, the state notifications it has sent to the other participants are
  exactly the states it has passed, in order.
\<close>

theorem notifications_mirror_states:
  assumes "reachable env m" "element_name env = Some strName"
  shows "notifications (trace m) = state_history (trace m)"
  using reachable_inv [OF assms(1)] assms(2) by (simp add: sm_inv_def)

theorem notifications_mirror_states_witness:
  "notifications (trace (demo (\<lambda>_. ERR_NOERROR) [ST_StartupDone, ST_Shutdown])) =
     [FS_STARTUP, FS_IDLE, FS_SHUTDOWN]"
proof -
  let ?ts = "[ST_StartupDone, ST_Shutdown]"
  have "reachable (demo_env (\<lambda>_. ERR_NOERROR)) (demo (\<lambda>_. ERR_NOERROR) ?ts)"
    by (rule reachable_demo) code_simp
  then have "notifications (trace (demo (\<lambda>_. ERR_NOERROR) ?ts)) = state_history (trace (demo (\<lambda>_. ERR_NOERROR) ?ts))"
    by (rule notifications_mirror_states [where strName = "''sensor''"]) (simp add: demo_env_def)
  also have "\<dots> = [FS_STARTUP, FS_IDLE, FS_SHUTDOWN]" by code_simp
  finally show ?thesis .
qed

text \<open>
  C5: A valid event calls the listeners in the documented order: all request listeners; then, unless one
  refused and refusals count, all exit listeners and the internal one, the assignment of the state, the
  clean-up listeners and the internal one (from IDLE or ERROR to STARTUP or SHUTDOWN), the internal entry
  listener, all entry listeners. Nothing else is called and the machine is in the new state, whatever the
  exit, clean-up and entry listeners answer.
\<close>

theorem transition_calls_in_order:
  assumes "reachable env m" "\<not> m_bIgnoreEvents m"
    and "transition_target t (m_eFEPState m) = new" "new \<noteq> FS_UNKNOWN"
  shows "\<exists>r m'. PerformStateTransition env t m = Some (True, r, m') \<and>
    m_eFEPState m' = (if performed env m new then new else m_eFEPState m) \<and>
    trace m' = trace m @ announced (m_eFEPState m) new @
      calls env (connected m) (request_callback new) (m_eFEPState m) (m_oStateRequestListenerRegistry m) @
      (if performed env m new
       then change_log env m new (entry_callback new) (exit_callback (m_eFEPState m)) else []) @
      (if isOk r \<and> isFailed (request_answer env m new)
       then [Incident FSI_STM_STATE_RQ_FAILED SL_Info] else []) @
      (if isFailed r then [Incident FSI_GENERAL_CRITICAL_FAILURE SL_Critical] else [])"
proof -
  have "m_eFEPState m \<noteq> FS_SHUTDOWN" using assms(3,4) by auto
  then obtain r m' where m': "SetState env new m = Some (r, m')"
      "same_control (if performed env m new then m\<lparr>m_eFEPState := new, last_state_reached := new\<rparr>
                  else m\<lparr>last_state_reached := m_eFEPState m\<rparr>) m'"
      "trace m' = trace m @ announced (m_eFEPState m) new @
      calls env (connected m) (request_callback new) (m_eFEPState m) (m_oStateRequestListenerRegistry m) @
      (if performed env m new
       then change_log env m new (entry_callback new) (exit_callback (m_eFEPState m)) else []) @
      (if isOk r \<and> isFailed (request_answer env m new)
       then [Incident FSI_STM_STATE_RQ_FAILED SL_Info] else []) @
      (if isFailed r then [Incident FSI_GENERAL_CRITICAL_FAILURE SL_Critical] else [])"
    using SetState_effect [of m new env] reachable_inv [OF assms(1)] assms by (auto simp: sm_inv_def)
  then show ?thesis
    using assms(3,4) same_control_fields(4) [OF m'(2)]
    by (intro exI [of _ r] exI [of _ m']) (simp add: PerformStateTransition_def)
qed

theorem transition_calls_in_order_witness:
  "\<exists>r m'. PerformStateTransition (demo_env (\<lambda>_. ERR_NOERROR)) ST_Shutdown (demo (\<lambda>_. ERR_NOERROR) [ST_StartupDone]) =
     Some (True, r, m') \<and> m_eFEPState m' = FS_SHUTDOWN \<and>
   take 7 (drop (length (trace (demo (\<lambda>_. ERR_NOERROR) [ST_StartupDone]))) (trace m')) =
     [Called 1 ProcessShutdownRequest FS_IDLE, Called 0 ProcessIdleExit FS_SHUTDOWN, StateChanged FS_SHUTDOWN,
      Called 2 CleanUp FS_IDLE, Called 0 CleanUp FS_IDLE, Called 0 ProcessShutdownEntry FS_IDLE,
      Called 2 ProcessShutdownEntry FS_IDLE]"
proof -
  let ?env = "demo_env (\<lambda>_. ERR_NOERROR)" and ?m = "demo (\<lambda>_. ERR_NOERROR) [ST_StartupDone]"
  have r: "reachable ?env ?m" by (rule reachable_demo) code_simp
  have h: "\<not> m_bIgnoreEvents ?m" "transition_target ST_Shutdown (m_eFEPState ?m) = FS_SHUTDOWN"
      "performed ?env ?m FS_SHUTDOWN"
      "announced (m_eFEPState ?m) FS_SHUTDOWN @
        calls ?env (connected ?m) (request_callback FS_SHUTDOWN) (m_eFEPState ?m) (m_oStateRequestListenerRegistry ?m) @
        change_log ?env ?m FS_SHUTDOWN (entry_callback FS_SHUTDOWN) (exit_callback (m_eFEPState ?m)) =
       [Called 1 ProcessShutdownRequest FS_IDLE, Called 0 ProcessIdleExit FS_SHUTDOWN, StateChanged FS_SHUTDOWN,
        Called 2 CleanUp FS_IDLE, Called 0 CleanUp FS_IDLE, Called 0 ProcessShutdownEntry FS_IDLE,
        Called 2 ProcessShutdownEntry FS_IDLE, StateNotification ''sensor'' FS_SHUTDOWN]"
    by code_simp+
  obtain rr m' where "PerformStateTransition ?env ST_Shutdown ?m = Some (True, rr, m')"
      "m_eFEPState m' = FS_SHUTDOWN"
      "trace m' = trace ?m @ (announced (m_eFEPState ?m) FS_SHUTDOWN @
        calls ?env (connected ?m) (request_callback FS_SHUTDOWN) (m_eFEPState ?m) (m_oStateRequestListenerRegistry ?m) @
        change_log ?env ?m FS_SHUTDOWN (entry_callback FS_SHUTDOWN) (exit_callback (m_eFEPState ?m))) @
      (if isOk rr \<and> isFailed (request_answer ?env ?m FS_SHUTDOWN)
       then [Incident FSI_STM_STATE_RQ_FAILED SL_Info] else []) @
      (if isFailed rr then [Incident FSI_GENERAL_CRITICAL_FAILURE SL_Critical] else [])"
    using transition_calls_in_order [OF r h(1,2)] h(3) by auto
  then show ?thesis unfolding h(4) by auto
qed

text \<open>
  When a request listener refuses a change (and refusals count), the state stays, exactly the request
  listeners have been called, a critical incident is raised, and the worker itself raises an error event
  behind the pending events, none of which is discarded.
\<close>

theorem refused_request_raises_error:
  assumes "reachable env m" "\<not> m_bIgnoreEvents m" "m_bConsiderRequestResult m"
    and "transition_target t (m_eFEPState m) = new" "new \<noteq> FS_UNKNOWN"
    and "isFailed (request_answer env m new)"
  shows "\<exists>m' ts. handle_event env t m = Some m' \<and> m_eFEPState m' = m_eFEPState m \<and>
    trace m' = trace m @ announced (m_eFEPState m) new @
      calls env (connected m) (request_callback new) (m_eFEPState m) (m_oStateRequestListenerRegistry m) @
      [Incident FSI_GENERAL_CRITICAL_FAILURE SL_Critical] \<and>
    m_oPendingEventQueue m' = m_oPendingEventQueue m @ ts @ [ST_Error]"
proof -
  have perf: "\<not> performed env m new" using assms by (simp add: performed_def)
  have "m_eFEPState m \<noteq> FS_SHUTDOWN" using assms(4,5) by auto
  then obtain r m' where m': "SetState env new m = Some (r, m')"
      "same_control (m\<lparr>last_state_reached := m_eFEPState m\<rparr>) m'" "r = request_answer env m new"
      "trace m' = trace m @ announced (m_eFEPState m) new @
      calls env (connected m) (request_callback new) (m_eFEPState m) (m_oStateRequestListenerRegistry m) @
      [Incident FSI_GENERAL_CRITICAL_FAILURE SL_Critical]"
    using SetState_effect [of m new env] reachable_inv [OF assms(1)] assms(2,5,6) perf
    by (auto simp: sm_inv_def)
  obtain ts where "m_oPendingEventQueue m' = m_oPendingEventQueue m @ ts"
    using m'(2) by (auto simp: same_control_def)
  then show ?thesis
    using m' assms same_control_fields [OF m'(2)]
    by (simp add: handle_event_def PerformStateTransition_def EnqueueStateTransition_def)
qed

text \<open>The witness also follows the error event: the refusal has put the machine into the state ERROR.\<close>

theorem refused_request_raises_error_witness:
  "let f = (\<lambda>cb. if cb = ProcessInitializingRequest then ERR_FAILED else ERR_NOERROR);
       m = demo f [ST_StartupDone] in
   \<exists>m' ts. handle_event (demo_env f) ST_Initialize m = Some m' \<and> m_eFEPState m' = FS_IDLE \<and>
     m_oPendingEventQueue m' = ts @ [ST_Error] \<and>
     map_option m_eFEPState (worker_steps (demo_env f) 2 (m\<lparr>m_oPendingEventQueue := [ST_Initialize]\<rparr>)) = Some FS_ERROR"
proof -
  define f where "f = (\<lambda>cb. if cb = ProcessInitializingRequest then ERR_FAILED else ERR_NOERROR)"
  let ?m = "demo f [ST_StartupDone]"
  have r: "reachable (demo_env f) ?m" unfolding f_def by (rule reachable_demo) code_simp
  have h: "\<not> m_bIgnoreEvents ?m" "m_bConsiderRequestResult ?m" "m_eFEPState ?m = FS_IDLE"
      "transition_target ST_Initialize (m_eFEPState ?m) = FS_INITIALIZING"
      "isFailed (request_answer (demo_env f) ?m FS_INITIALIZING)" "m_oPendingEventQueue ?m = []"
      "map_option m_eFEPState (worker_steps (demo_env f) 2 (?m\<lparr>m_oPendingEventQueue := [ST_Initialize]\<rparr>)) = Some FS_ERROR"
    unfolding f_def by code_simp+
  show ?thesis
    unfolding Let_def f_def [symmetric]
    using refused_request_raises_error [OF r h(1,2,4) _ h(5)] h(3,6,7) by auto
qed

text \<open>
  A client whose \<open>ProcessErrorEntry\<close> keeps failing keeps the machine busy for ever: every round of
  the worker re-enters ERROR and leaves the next error event in the queue, without any event from outside.
\<close>

theorem failing_error_entry_never_settles:
  assumes "reachable env m" "m_eFEPState m = FS_ERROR" "\<not> m_bIgnoreEvents m"
    and "m_oPendingEventQueue m = [ST_Error]" "Client n \<in> set (m_oStateEntryListenerRegistry m)"
    and "steady env (\<lambda>cb. if cb = ProcessErrorEntry then ERR_FAILED else ERR_NOERROR)"
  shows "\<exists>m'. worker_steps env k m = Some m' \<and> m_eFEPState m' = FS_ERROR \<and>
    m_oPendingEventQueue m' = [ST_Error] \<and>
    state_history (trace m') = state_history (trace m) @ replicate k FS_ERROR"
  using reachable_inv [OF assms(1)] assms(2-5)
proof (induction k arbitrary: m)
  case (Suc k)
  let ?m = "m\<lparr>m_oPendingEventQueue := []\<rparr>"
  have "clients (m_oStateEntryListenerRegistry m)" using Suc.prems(5) by (auto simp: clients_def)
  then obtain m1 where m1: "handle_event env ST_Error ?m = Some m1" "sm_inv env m1" "m_eFEPState m1 = FS_ERROR"
      "\<not> m_bIgnoreEvents m1" "m_oStateEntryListenerRegistry m1 = m_oStateEntryListenerRegistry m"
      "state_history (trace m1) = state_history (trace m) @ [FS_ERROR]" "m_oPendingEventQueue m1 = [ST_Error]"
    using handle_event_steady [OF assms(6), of ?m ST_Error FS_ERROR ProcessErrorRequest ProcessErrorEntry
        ProcessErrorExit] Suc.prems
    by (auto simp: transition_target_def request_callback_def entry_callback_def exit_callback_def)
  have "worker_step env m = Some m1"
    using m1(1) Suc.prems(1,4) by (simp add: worker_step_def sm_inv_def running_worker_def)
  then show ?case using Suc.IH [OF m1(2-4,7)] m1(5,6) Suc.prems(5) by simp
qed simp

theorem failing_error_entry_never_settles_witness:
  "let f = (\<lambda>cb. if cb = ProcessErrorEntry then ERR_FAILED else ERR_NOERROR) in
   \<forall>k. map_option (\<lambda>m. (m_eFEPState m, m_oPendingEventQueue m))
     (worker_steps (demo_env f) k (demo f [ST_StartupDone, ST_Error])) = Some (FS_ERROR, [ST_Error])"
proof -
  define f where "f = (\<lambda>cb. if cb = ProcessErrorEntry then ERR_FAILED else ERR_NOERROR)"
  let ?m = "demo f [ST_StartupDone, ST_Error]"
  have r: "reachable (demo_env f) ?m" unfolding f_def by (rule reachable_demo) code_simp
  have h: "m_eFEPState ?m = FS_ERROR" "\<not> m_bIgnoreEvents ?m" "m_oPendingEventQueue ?m = [ST_Error]"
      "m_oStateEntryListenerRegistry ?m = [Client 2, ChangeNotifier]"
    unfolding f_def by code_simp+
  have s: "steady (demo_env f) (\<lambda>cb. if cb = ProcessErrorEntry then ERR_FAILED else ERR_NOERROR)"
    using steady_demo_env [of f] by (simp add: f_def)
  show ?thesis
    unfolding Let_def f_def [symmetric]
    using failing_error_entry_never_settles [OF r h(1-3) _ s, of 2] h(4) by fastforce
qed

text \<open>
  C36: Whatever the listeners answer and whatever events they raise, \<open>PerformShutdown\<close> on any reachable
  machine ends in state SHUTDOWN, once the worker has handled two events during its waits, provided no
  other thread raises events meanwhile. Requests count again afterwards.
\<close>

theorem shutdown_always_reached:
  assumes "reachable env m" "2 \<le> sum_list ns"
  shows "\<exists>m'. PerformShutdown env one_more [] ns m = Some (Inr (ERR_NOERROR, m')) \<and>
    m_eFEPState m' = FS_SHUTDOWN \<and> last_state_reached m' = FS_SHUTDOWN \<and> m_bConsiderRequestResult m'"
proof -
  obtain m1 where m1: "shutdown_prepare env one_more m = Some m1" "sm_inv env m1" "\<not> m_bIgnoreEvents m1"
      "\<not> m_bConsiderRequestResult m1" "m_oPendingEventQueue m1 = []"
    using shutdown_prepare_result [OF reachable_inv [OF assms(1)]] by blast
  obtain m2 k where m2: "shutdown_events m1 = Some m2" "heading env k m2" "k \<le> 2"
    using shutdown_events_heading [OF m1(2-5)] by blast
  obtain m3 where m3: "shutdown_wait env ns m2 = Some (Inr m3)" "heading env 0 m3"
    using shutdown_wait_ends [OF m2(2) order_trans [OF m2(3) assms(2)]] by blast
  show ?thesis
    using m1(1) m2(1) m3 by (simp add: PerformShutdown_def raise_all_def heading_def sm_inv_def)
qed

theorem shutdown_always_reached_witness:
  "\<exists>m'. PerformShutdown (demo_env (\<lambda>_. ERR_FAILED)) True [] [0, 1, 1] (demo (\<lambda>_. ERR_FAILED) [ST_StartupDone]) =
     Some (Inr (ERR_NOERROR, m')) \<and> m_eFEPState m' = FS_SHUTDOWN"
proof -
  have "reachable (demo_env (\<lambda>_. ERR_FAILED)) (demo (\<lambda>_. ERR_FAILED) [ST_StartupDone])"
    by (rule reachable_demo) code_simp
  from shutdown_always_reached [OF this, of "[0, 1, 1]" True] show ?thesis by auto
qed

text \<open>
  The proviso is needed. When another thread raises an initialize event after events have been enabled
  again and before the state is read, a participant in IDLE whose listeners all agree never reaches
  SHUTDOWN: however long the worker works, \<open>PerformShutdown\<close> waits on.
\<close>

theorem late_event_blocks_shutdown:
  assumes "reachable env m" "m_eFEPState m = FS_IDLE" "steady env (\<lambda>_. ERR_NOERROR)"
  shows "\<exists>m'. PerformShutdown env False [ST_Initialize] ns m = Some (Inl m')"
proof -
  obtain m1 where m1: "shutdown_prepare env False m = Some m1" "sm_inv env m1" "\<not> m_bIgnoreEvents m1"
      "\<not> m_bConsiderRequestResult m1" "m_oPendingEventQueue m1 = []"
    using shutdown_prepare_result [OF reachable_inv [OF assms(1)]] by blast
  have idle: "m_eFEPState m1 = FS_IDLE"
    using m1(1) assms(2) by (auto simp: shutdown_prepare_def Let_def)
  let ?m2 = "raise_all [ST_Shutdown] (raise_all [ST_Initialize] m1)"
  have "shutdown_events (raise_all [ST_Initialize] m1) = Some ?m2"
    using idle by (simp add: shutdown_events_def raise_all_eq)
  moreover have "stuck env ?m2"
    using m1 idle by (auto simp: stuck_def raise_all_eq intro: exI [of _ 1])
  then obtain m3 where "shutdown_wait env ns ?m2 = Some (Inl m3)"
    using stuck_waits assms(3) by blast
  ultimately show ?thesis using m1(1) by (simp add: PerformShutdown_def)
qed

theorem late_event_blocks_shutdown_witness:
  "\<forall>ns. \<exists>m'. PerformShutdown (demo_env (\<lambda>_. ERR_NOERROR)) False [ST_Initialize] ns
     (demo (\<lambda>_. ERR_NOERROR) [ST_StartupDone]) = Some (Inl m')"
proof
  fix ns
  have "reachable (demo_env (\<lambda>_. ERR_NOERROR)) (demo (\<lambda>_. ERR_NOERROR) [ST_StartupDone])"
    by (rule reachable_demo) code_simp
  moreover have "m_eFEPState (demo (\<lambda>_. ERR_NOERROR) [ST_StartupDone]) = FS_IDLE" by code_simp
  ultimately show "\<exists>m'. PerformShutdown (demo_env (\<lambda>_. ERR_NOERROR)) False [ST_Initialize] ns
     (demo (\<lambda>_. ERR_NOERROR) [ST_StartupDone]) = Some (Inl m')"
    by (rule late_event_blocks_shutdown [OF _ _ steady_demo_env])
qed

text \<open>
  A second \<open>Initialize\<close> of a running machine is refused, but destroys the change notifier: no state
  notification is sent any more, and the next \<open>Finalize\<close>, once the machine is shut down, calls a method
  of the null pointer the notifier has become.
\<close>

theorem second_initialize_breaks_finalize:
  assumes "m_bIsInitialized m" "m_poChangeNotifier m = Some n"
    and "cStateMachine_Initialize given entryL exitL r1 r2 r3 m = (r, m1)"
    and "PerformShutdown env one_more others ns m1 = Some (Inr (r', m2))" "m_poChangeNotifier m2 = None"
  shows "r = ERR_UNEXPECTED \<and> m_poChangeNotifier m1 = None \<and>
    cStateMachine_Finalize env one_more others ns r4 r5 m1 = None"
proof -
  have m1: "r = ERR_UNEXPECTED" "m1 = notifier_reset m"
    using assms(1,3) by (auto simp: cStateMachine_Initialize_def Let_def)
  moreover have "m_bIsInitialized m1"
    using assms(1,2) unfolding m1(2)
    by (simp add: notifier_reset_def notifier_Finalize_def UnregisterStateEntryListener_def case_prod_beta)
  ultimately show ?thesis
    using assms(2,4,5) by (simp add: cStateMachine_Finalize_def notifier_reset_def)
qed

theorem second_initialize_breaks_finalize_witness:
  "let env = demo_env (\<lambda>_. ERR_NOERROR);
       m = demo (\<lambda>_. ERR_NOERROR) [ST_StartupDone];
       m1 = snd (cStateMachine_Initialize True (Some 0) (Some 0) ERR_NOERROR ERR_NOERROR ERR_NOERROR m) in
   cStateMachine_Finalize env False [] [2] ERR_NOERROR ERR_NOERROR m1 = None \<and>
   cStateMachine_Finalize env False [] [2] ERR_NOERROR ERR_NOERROR m \<noteq> None"
proof -
  define env where "env = demo_env (\<lambda>_. ERR_NOERROR)"
  define m where "m = demo (\<lambda>_. ERR_NOERROR) [ST_StartupDone]"
  define i where "i = cStateMachine_Initialize True (Some 0) (Some 0) ERR_NOERROR ERR_NOERROR ERR_NOERROR m"
  have h: "m_bIsInitialized m" "\<not> Option.is_none (m_poChangeNotifier m)"
      "(case PerformShutdown env False [] [2] (snd i) of
          Some (Inr (_, m2)) \<Rightarrow> Option.is_none (m_poChangeNotifier m2) | _ \<Rightarrow> False)"
      "\<not> Option.is_none (cStateMachine_Finalize env False [] [2] ERR_NOERROR ERR_NOERROR m)"
    unfolding i_def m_def env_def by code_simp+
  obtain n where n: "m_poChangeNotifier m = Some n" using h(2) by (auto simp: Option.is_none_def)
  obtain r m2 where m2: "PerformShutdown env False [] [2] (snd i) = Some (Inr (r, m2))"
      "m_poChangeNotifier m2 = None"
    using h(3) by (auto simp: Option.is_none_def split: option.splits sum.splits)
  have "cStateMachine_Finalize env False [] [2] ERR_NOERROR ERR_NOERROR (snd i) = None"
    using second_initialize_breaks_finalize [OF h(1) n _ m2, of _ _ _ _ _ _ "fst i"] i_def
    by (metis prod.collapse)
  then show ?thesis
    using h(4) by (simp add: Let_def env_def [symmetric] m_def [symmetric] i_def [symmetric] Option.is_none_def)
qed

text \<open>
  An awakening \<open>i\<close> that ends a wait successfully: it sees the state, no earlier one did or saw a state that
  counts as a failure, and the time the earlier ones took is below the limit, if there is one.
\<close>

definition seen_first :: "tState \<Rightarrow> bool \<Rightarrow> timestamp_t option \<Rightarrow> (int \<times> tState) list \<Rightarrow> nat \<Rightarrow> bool" where
  "seen_first s err limit obs i \<longleftrightarrow> i < length obs \<and> snd (obs ! i) = s \<and>
     (case limit of None \<Rightarrow> True | Some t \<Rightarrow> sum_list (map fst (take i obs)) < t) \<and>
     (\<forall>j < i. snd (obs ! j) \<noteq> s \<and> (err \<longrightarrow> snd (obs ! j) \<noteq> FS_ERROR))"

lemma seen_first_0:
  "seen_first s err limit (o1 # obs) 0 \<longleftrightarrow> snd o1 = s \<and> (case limit of None \<Rightarrow> True | Some t \<Rightarrow> 0 < t)"
  by (simp add: seen_first_def split: option.splits)

lemma seen_first_Suc:
  "seen_first s err limit (o1 # obs) (Suc i) \<longleftrightarrow> snd o1 \<noteq> s \<and> \<not> (err \<and> snd o1 = FS_ERROR) \<and>
     seen_first s err (map_option (\<lambda>t. t - fst o1) limit) obs i"
  by (auto simp: seen_first_def All_less_Suc2 less_diff_eq add.commute split: option.splits)

lemma seen_first_Cons:
  "(\<exists>i. seen_first s err limit (o1 # obs) i) \<longleftrightarrow>
     (if snd o1 = s then (case limit of None \<Rightarrow> True | Some t \<Rightarrow> 0 < t)
      else \<not> (err \<and> snd o1 = FS_ERROR) \<and>
        (\<exists>i. seen_first s err (map_option (\<lambda>t. t - fst o1) limit) obs i))"
  by (metis seen_first_0 seen_first_Suc not0_implies_Suc)

lemma seen_first_positive:
  assumes "seen_first s err (Some t) obs i" "\<forall>x \<in> set obs. 0 \<le> fst x"
  shows "0 < t"
proof -
  have "0 \<le> sum_list (map fst (take i obs))"
    using assms(2) by (intro sum_list_nonneg) (auto dest: in_set_takeD)
  then show ?thesis using assms(1) by (simp add: seen_first_def)
qed

lemma wait_forever_ok:
  "wait_forever s err obs = Some ERR_NOERROR \<longleftrightarrow> (\<exists>i. seen_first s err None obs i)"
proof (induction obs)
  case (Cons o1 obs)
  then show ?case by (cases o1) (simp add: seen_first_Cons)
qed (simp add: seen_first_def)

lemma wait_limited_ok:
  "\<forall>x \<in> set obs. 0 \<le> fst x \<Longrightarrow>
   wait_limited s err t obs = Some ERR_NOERROR \<longleftrightarrow> (\<exists>i. seen_first s err (Some t) obs i)"
proof (induction obs arbitrary: t)
  case (Cons o1 obs)
  have "seen_first s err (Some (t - fst o1)) obs i \<Longrightarrow> 0 < t" for i
    using seen_first_positive Cons.prems by fastforce
  then show ?case using Cons by (cases o1) (auto simp: seen_first_Cons)
qed (simp add: seen_first_def)

lemma wait_limited_timeout:
  "wait_limited s err t obs = Some ERR_TIMEOUT \<Longrightarrow>
   \<exists>i \<le> length obs. t \<le> sum_list (map fst (take i obs)) \<and> (\<forall>j < i. snd (obs ! j) \<noteq> s)"
proof (induction obs arbitrary: t)
  case (Cons o1 obs)
  show ?case
  proof (cases "0 < t")
    case True
    then have "wait_limited s err (t - fst o1) obs = Some ERR_TIMEOUT" "snd o1 \<noteq> s"
      using Cons.prems by (cases o1; simp split: if_splits)+
    from Cons.IH [OF this(1)] obtain i where
        "i \<le> length obs" "t - fst o1 \<le> sum_list (map fst (take i obs))" "\<forall>j < i. snd (obs ! j) \<noteq> s"
      by blast
    then show ?thesis
      using \<open>snd o1 \<noteq> s\<close> by (intro exI [of _ "Suc i"]) (auto simp: All_less_Suc2 algebra_simps)
  qed (auto intro: exI [of _ 0])
qed (auto split: if_splits)

text \<open>
  \<open>WaitForState\<close> succeeds exactly when the state has been reached already or is seen at an awakening
  before the timeout is used up, with no earlier awakening that saw it or, if errors are failures, ERROR.
  It reports a timeout only after the time given has passed without the state being seen.
\<close>

theorem wait_for_state_correct:
  assumes "s \<noteq> FS_UNKNOWN" "-1 \<le> t" "\<forall>x \<in> set obs. 0 \<le> fst x"
  shows "(WaitForState s t err current obs = Some ERR_NOERROR \<longleftrightarrow>
      current = s \<or> (\<exists>i. seen_first s err (if t = -1 then None else Some t) obs i)) \<and>
    (WaitForState s t err current obs = Some ERR_TIMEOUT \<longrightarrow>
      current \<noteq> s \<and> t \<noteq> -1 \<and>
      (\<exists>i \<le> length obs. t \<le> sum_list (map fst (take i obs)) \<and> (\<forall>j < i. snd (obs ! j) \<noteq> s)))"
proof -
  have "wait_forever s err obs \<noteq> Some ERR_TIMEOUT"
    by (induction obs) (auto split: if_splits)
  then show ?thesis
    using assms wait_forever_ok wait_limited_ok [OF assms(3)] wait_limited_timeout
    by (auto simp: WaitForState_def)
qed

theorem wait_for_state_correct_witness:
  "WaitForState FS_RUNNING 500 True FS_READY [(200, FS_READY), (200, FS_RUNNING)] = Some ERR_NOERROR \<and>
   seen_first FS_RUNNING True (Some 500) [(200, FS_READY), (200, FS_RUNNING)] 1"
proof -
  have "WaitForState FS_RUNNING 500 True FS_READY [(200, FS_READY), (200, FS_RUNNING)] = Some ERR_NOERROR"
    by (simp add: WaitForState_def)
  with wait_for_state_correct [of FS_RUNNING 500 "[(200, FS_READY), (200, FS_RUNNING)]" True FS_READY]
  have "\<exists>i. seen_first FS_RUNNING True (Some 500) [(200, FS_READY), (200, FS_RUNNING)] i" by simp
  then obtain i where i: "seen_first FS_RUNNING True (Some 500) [(200, FS_READY), (200, FS_RUNNING)] i" ..
  then have "i = 1" by (cases i) (auto simp: seen_first_def less_Suc_eq)
  with i show ?thesis by (simp add: WaitForState_def)
qed

text \<open>
  The name of a state is read back as that state and no other string is read as a state; so a
  participant that asks for the state another one publishes as its property gets that state, and a control
  event survives its textual form.
\<close>

theorem state_names_roundtrip:
  "FromString (ToString s) old = (ERR_NOERROR, s) \<and>
   ((\<exists>s'. str = ToString s') \<or> FromString str old = (ERR_INVALID_ARG, old)) \<and>
   GetRemoteState (Some name) (\<lambda>_. Inr (Some (ToString s))) old = (ERR_NOERROR, s) \<and>
   ControlEvent_FromString (ControlEvent_ToString e) e' = (ERR_NOERROR, e)"
proof -
  have 1: "FromString (ToString s) old = (ERR_NOERROR, s)" by (cases s) (simp_all add: FromString_def)
  have 2: "ControlEvent_FromString (ControlEvent_ToString e) e' = (ERR_NOERROR, e)"
    by (cases e) (simp_all add: ControlEvent_FromString_def)
  have 3: "(\<exists>s'. str = ToString s') \<or> FromString str old = (ERR_INVALID_ARG, old)"
    by (cases "\<exists>s'. str = ToString s'") (simp_all add: FromString_def del: ToString.simps)
  show ?thesis using 1 2 3 by (simp add: GetRemoteState_def)
qed


end
