(* ===== verification/Step_Trigger.thy ===== *)
theory Step_Trigger
  imports Fep_Prelude Complex_Main
begin

text \<open>
  The step trigger strategies of the timing master, \<open>src/fep3/components/legacy/timing/
  locked_step_legacy/step_trigger_strategy.{h,cpp}\<close>: the common base (one registered listener and
  its cycle time), the internal clock, the as-fast-as-possible mode, the external clock signal and
  the user's own trigger.

  A pointer to a listener is \<open>nat option\<close>, \<open>None\<close> for \<open>nullptr\<close>; a call of the listener's
  \<open>InternalTrigger\<close> is an output, the pair of listener and simulation time. The clock
  (\<open>a_util::system\<close>), the threads and their semaphores, the codec and the user's \<open>IStepTrigger\<close> are
  outside the repository: what they answer is an argument of the definitions.
\<close>

section \<open>The common base\<close>

record base_strategy =
  step_trigger_strategy_listener :: "nat option"
  cycle_time :: timestamp_t

definition cBaseStepTriggerStrategy :: base_strategy where
  "cBaseStepTriggerStrategy = \<lparr>step_trigger_strategy_listener = None, cycle_time = 0\<rparr>"

definition RegisterStrategyTrigger ::
    "timestamp_t \<Rightarrow> nat option \<Rightarrow> 'z base_strategy_scheme \<Rightarrow> fep_result \<times> 'z base_strategy_scheme" where
  "RegisterStrategyTrigger cycle listener s =
     (if cycle \<le> 0 \<or> listener = None then (ERR_INVALID_ARG, s)
      else if step_trigger_strategy_listener s \<noteq> None then (ERR_UNEXPECTED, s)
      else (ERR_NOERROR, s\<lparr>step_trigger_strategy_listener := listener, cycle_time := cycle\<rparr>))"

definition UnregisterStrategyTrigger ::
    "nat option \<Rightarrow> 'z base_strategy_scheme \<Rightarrow> fep_result \<times> 'z base_strategy_scheme" where
  "UnregisterStrategyTrigger listener s =
     (if listener = None then (ERR_INVALID_ARG, s)
      else if step_trigger_strategy_listener s \<noteq> listener then (ERR_UNEXPECTED, s)
      else (ERR_NOERROR, s\<lparr>step_trigger_strategy_listener := None, cycle_time := 0\<rparr>))"

definition doCall :: "timestamp_t \<Rightarrow> 'z base_strategy_scheme \<Rightarrow> (nat \<times> timestamp_t) list" where
  "doCall current_simulation_time s =
     (case step_trigger_strategy_listener s of
        None \<Rightarrow> []
      | Some l \<Rightarrow> [(l, current_simulation_time)])"

section \<open>The kinds of strategies\<close>

datatype strategy_kind = AFAP | Internal | External | User

fun NeedToWaitForTrigger :: "strategy_kind \<Rightarrow> bool" where
  "NeedToWaitForTrigger Internal = True"
| "NeedToWaitForTrigger AFAP = False"
| "NeedToWaitForTrigger External = True"
| "NeedToWaitForTrigger User = True"

fun NeedToWaitForCompletition :: "strategy_kind \<Rightarrow> bool" where
  "NeedToWaitForCompletition Internal = True"
| "NeedToWaitForCompletition AFAP = True"
| "NeedToWaitForCompletition External = False"
| "NeedToWaitForCompletition User = False"

fun HasSupportDummyTimeTrigger :: "strategy_kind \<Rightarrow> bool" where
  "HasSupportDummyTimeTrigger Internal = True"
| "HasSupportDummyTimeTrigger AFAP = False"
| "HasSupportDummyTimeTrigger External = False"
| "HasSupportDummyTimeTrigger User = False"

section \<open>The internal clock\<close>

record internal_strategy = base_strategy +
  internal_thread :: bool
  real_time_scale :: timestamp_t

definition cInternalStepTriggerStrategy :: internal_strategy where
  "cInternalStepTriggerStrategy = \<lparr>step_trigger_strategy_listener = None, cycle_time = 0,
     internal_thread = False, real_time_scale = 1000000\<rparr>"

text \<open>\<open>std::numeric_limits<double>::epsilon()\<close>\<close>

definition epsilon :: rat where
  "epsilon = 1 / 2 ^ 52"

text \<open>\<open>time_factor\<close> is what the property tree answers for \<open>FEP_TIMING_MASTER_TIME_FACTOR\<close> (a finite
  double is a rational); \<open>cast_quotient f\<close> is \<open>static_cast<timestamp_t>(1000000.0 / f)\<close>, whose
  rounding belongs to the floating-point unit.\<close>

definition internal_initialize ::
    "(rat \<Rightarrow> timestamp_t) \<Rightarrow> rat option \<Rightarrow> internal_strategy \<Rightarrow> fep_result \<times> internal_strategy" where
  "internal_initialize cast_quotient time_factor s =
     (case time_factor of
        None \<Rightarrow> (ERR_NOERROR, s)
      | Some time_scale \<Rightarrow>
          if time_scale < epsilon then (ERR_NOERROR, s\<lparr>real_time_scale := 0\<rparr>)
          else if time_scale > epsilon
          then (ERR_NOERROR, s\<lparr>real_time_scale := cast_quotient time_scale\<rparr>)
          else (ERR_INVALID_ARG, s))"

definition internal_reset :: "internal_strategy \<Rightarrow> fep_result \<times> internal_strategy" where
  "internal_reset s = (ERR_NOERROR, s)"

definition internal_Start :: "internal_strategy \<Rightarrow> fep_result \<times> internal_strategy" where
  "internal_Start s =
     (ERR_NOERROR, if NeedToWaitForTrigger Internal then s\<lparr>internal_thread := True\<rparr> else s)"

definition internal_Stop :: "internal_strategy \<Rightarrow> fep_result \<times> internal_strategy" where
  "internal_Stop s = (ERR_NOERROR, if internal_thread s then s\<lparr>internal_thread := False\<rparr> else s)"

text \<open>
  The thread function. The list holds, for each round of the loop, the clock reading
  \<open>getCurrentMicroseconds()\<close>; the loop ends when the shutdown semaphore is set, after the last
  reading. A round yields how long it sleeps, if it does, and the listener calls it makes.
\<close>

fun internal_work_loop :: "timestamp_t \<Rightarrow> timestamp_t \<Rightarrow> timestamp_t \<Rightarrow> timestamp_t list \<Rightarrow>
    internal_strategy \<Rightarrow> (timestamp_t option \<times> (nat \<times> timestamp_t) list) list" where
  "internal_work_loop next_cycle next_ref real_time_cycle [] s = []"
| "internal_work_loop next_cycle next_ref real_time_cycle (now # nows) s =
     (let wait_time = next_ref - now in
      ((if wait_time \<ge> 0 then Some wait_time else None), doCall next_cycle s)
      # internal_work_loop (next_cycle + cycle_time s) (next_ref + real_time_cycle) real_time_cycle nows s)"

definition internal_Work :: "timestamp_t \<Rightarrow> timestamp_t list \<Rightarrow> internal_strategy \<Rightarrow>
    (timestamp_t option \<times> (nat \<times> timestamp_t) list) list" where
  "internal_Work start_time nows s =
     internal_work_loop 0 start_time ((real_time_scale s * cycle_time s) sdiv 1000000) nows s"

section \<open>As fast as possible\<close>

definition afap_Start :: "base_strategy \<Rightarrow> fep_result \<times> base_strategy" where
  "afap_Start s = (ERR_NOERROR, s)"

definition afap_Stop :: "base_strategy \<Rightarrow> fep_result \<times> base_strategy" where
  "afap_Stop s = (ERR_NOERROR, s)"

section \<open>The external clock\<close>

record external_strategy = base_strategy +
  data_access_private :: "nat option"
  transmission_adapter_private :: "nat option"
  step_trigger_input_signal_handle :: "nat option"
  external_thread :: bool
  next_cycle_timestamp :: timestamp_t
  next_cylcle_local_ref :: timestamp_t
  run_cycle_limit :: timestamp_t

definition cExternalStepTriggerStrategy :: external_strategy where
  "cExternalStepTriggerStrategy = \<lparr>step_trigger_strategy_listener = None, cycle_time = 0,
     data_access_private = None, transmission_adapter_private = None,
     step_trigger_input_signal_handle = None, external_thread = False,
     next_cycle_timestamp = -1, next_cylcle_local_ref = -1, run_cycle_limit = 0\<rparr>"

text \<open>The calls the strategy makes on the transmission adapter and the data access component.\<close>

datatype external_call =
    RegisterSignal nat | RegisterDataListener nat "nat option"
  | UnregisterDataListener nat "nat option" | UnregisterSignal nat "nat option"

text \<open>\<open>register_signal\<close>: what \<open>RegisterSignal\<close> returns and the handle it writes;
  \<open>register_listener\<close>: what \<open>RegisterDataListener\<close> returns.\<close>

definition external_initialize ::
    "nat option \<Rightarrow> nat option \<Rightarrow> fep_result \<times> nat option \<Rightarrow> fep_result \<Rightarrow> external_strategy \<Rightarrow>
     fep_result \<times> external_call list \<times> external_strategy" where
  "external_initialize data_access transmission register_signal register_listener s =
     (case (data_access, transmission) of
        (Some da, Some ta) \<Rightarrow>
          let s1 = s\<lparr>data_access_private := Some da, transmission_adapter_private := Some ta\<rparr>;
              (result, handle) = register_signal;
              s2 = s1\<lparr>step_trigger_input_signal_handle := handle\<rparr>
          in if isOk result
             then (register_listener, [RegisterSignal ta, RegisterDataListener da handle], s2)
             else (result, [RegisterSignal ta], s2)
      | _ \<Rightarrow> (ERR_INVALID_ARG, [], s))"

text \<open>
  The guard of \<open>reset\<close> tests \<open>_data_access_private\<close> without the negation its sibling has. When the
  data access pointer is null and the other is not, the code goes on and calls through the null
  pointer: \<open>None\<close>.
\<close>

definition external_reset ::
    "fep_result \<Rightarrow> fep_result \<Rightarrow> external_strategy \<Rightarrow>
     (fep_result \<times> external_call list \<times> external_strategy) option" where
  "external_reset unregister_listener unregister_signal s =
     (let cleared = s\<lparr>transmission_adapter_private := None, data_access_private := None\<rparr> in
      if transmission_adapter_private s = None \<or> data_access_private s \<noteq> None
      then Some (ERR_INVALID_ARG, [], cleared)
      else
        (case (data_access_private s, transmission_adapter_private s) of
           (Some da, Some ta) \<Rightarrow>
             let handle = step_trigger_input_signal_handle s in
             if isOk unregister_listener
             then Some (unregister_signal,
               [UnregisterDataListener da handle, UnregisterSignal ta handle], cleared)
             else Some (unregister_listener, [UnregisterDataListener da handle], cleared)
         | _ \<Rightarrow> None))"

definition external_Start :: "external_strategy \<Rightarrow> fep_result \<times> external_strategy" where
  "external_Start s = (ERR_NOERROR,
     s\<lparr>next_cycle_timestamp := -1, run_cycle_limit := 0, external_thread := True\<rparr>)"

definition external_Stop :: "external_strategy \<Rightarrow> fep_result \<times> external_strategy" where
  "external_Stop s = (ERR_NOERROR, if external_thread s then s\<lparr>external_thread := False\<rparr> else s)"

text \<open>\<open>decoded\<close>: what the codec makes of the sample, an error or the pair of \<open>currentTime_us\<close> and
  \<open>validity_us\<close>; \<open>now\<close>: the clock reading.\<close>

definition external_Update ::
    "timestamp_t \<Rightarrow> (nat option \<times> (fep_result + timestamp_t \<times> timestamp_t)) option \<Rightarrow>
     external_strategy \<Rightarrow> fep_result \<times> external_strategy" where
  "external_Update now sample s =
     (case sample of
        None \<Rightarrow> (ERR_NOERROR, s)
      | Some (handle, decoded) \<Rightarrow>
          if handle = step_trigger_input_signal_handle s then
            (case decoded of
               Inl e \<Rightarrow> (e, s)
             | Inr (currentTime, validity) \<Rightarrow>
                 let s1 = (if next_cycle_timestamp s < 0
                           then s\<lparr>next_cylcle_local_ref := now, next_cycle_timestamp := currentTime\<rparr>
                           else s)
                 in (ERR_NOERROR, s1\<lparr>run_cycle_limit := currentTime + validity\<rparr>))
          else (ERR_NOERROR, s))"

text \<open>
  One round of the thread function after the first tick has arrived. \<open>waits\<close> are the outcomes of the
  condition variable in the inner loop, one per round of it: whether the wait was notified
  (\<open>no_timeout\<close>), whether the shutdown semaphore is set afterwards, and the state \<open>Update\<close> left
  meanwhile. \<open>None\<close>: the inner loop is still waiting when the list ends.
\<close>

fun external_wait :: "timestamp_t \<Rightarrow> (bool \<times> bool \<times> timestamp_t) list \<Rightarrow> external_strategy \<Rightarrow>
    (bool \<times> external_strategy) option" where
  "external_wait this_cycle waits s =
     (if this_cycle \<ge> run_cycle_limit s then
        (case waits of
           [] \<Rightarrow> None
         | (notified, shutdown, limit) # rest \<Rightarrow>
             let s' = s\<lparr>run_cycle_limit := limit\<rparr> in
             if notified then Some (shutdown, s')
             else if shutdown then Some (True, s')
             else external_wait this_cycle rest s')
      else Some (False, s))"

definition external_round :: "timestamp_t \<Rightarrow> (bool \<times> bool \<times> timestamp_t) list \<Rightarrow> external_strategy \<Rightarrow>
    (timestamp_t option \<times> (nat \<times> timestamp_t) list \<times> external_strategy) option" where
  "external_round now waits s =
     (let this_cycle = next_cycle_timestamp s;
          this_ref = next_cylcle_local_ref s;
          s1 = s\<lparr>next_cycle_timestamp := next_cycle_timestamp s + cycle_time s,
                 next_cylcle_local_ref := next_cylcle_local_ref s + cycle_time s\<rparr>
      in case external_wait this_cycle waits s1 of
           None \<Rightarrow> None
         | Some (shutdown, s2) \<Rightarrow>
             if shutdown then Some (None, [], s2)
             else let wait_time = this_ref - now in
               Some ((if wait_time \<ge> 0 then Some wait_time else None), doCall this_cycle s2, s2))"

section \<open>The user's trigger\<close>

record user_strategy = base_strategy +
  user_step_trigger :: "nat option"
  current_simulation_time :: timestamp_t
  trigger_was_called_flag :: bool

definition cUserStepTriggerStrategy :: user_strategy where
  "cUserStepTriggerStrategy = \<lparr>step_trigger_strategy_listener = None, cycle_time = 0,
     user_step_trigger = None, current_simulation_time = 0, trigger_was_called_flag = False\<rparr>"

definition user_initialize :: "nat option \<Rightarrow> user_strategy \<Rightarrow> fep_result \<times> user_strategy" where
  "user_initialize pUserStepTrigger s =
     (let (result, s1) =
        (if pUserStepTrigger \<noteq> None then (ERR_NOERROR, s\<lparr>user_step_trigger := pUserStepTrigger\<rparr>)
         else (ERR_INVALID_ARG, s))
      in (result, s1\<lparr>current_simulation_time := 0, trigger_was_called_flag := False\<rparr>))"

definition user_reset :: "user_strategy \<Rightarrow> fep_result \<times> user_strategy" where
  "user_reset s =
     (let (result, s1) =
        (if user_step_trigger s \<noteq> None then (ERR_NOERROR, s\<lparr>user_step_trigger := None\<rparr>)
         else (ERR_INVALID_ARG, s))
      in (result, s1\<lparr>current_simulation_time := 0, trigger_was_called_flag := False\<rparr>))"

text \<open>\<open>register_trigger\<close> and \<open>unregister_trigger\<close>: what the user's \<open>IStepTrigger\<close> answers.\<close>

definition user_RegisterStrategyTrigger ::
    "fep_result \<Rightarrow> timestamp_t \<Rightarrow> nat option \<Rightarrow> user_strategy \<Rightarrow> fep_result \<times> user_strategy" where
  "user_RegisterStrategyTrigger register_trigger cycle listener s =
     (let (result, s1) = RegisterStrategyTrigger cycle listener s in
      if isOk result then
        (if user_step_trigger s1 \<noteq> None then (register_trigger, s1) else (ERR_INVALID_ARG, s1))
      else (result, s1))"

definition user_UnregisterStrategyTrigger ::
    "fep_result \<Rightarrow> nat option \<Rightarrow> user_strategy \<Rightarrow> fep_result \<times> user_strategy" where
  "user_UnregisterStrategyTrigger unregister_trigger listener s =
     (let result = (if user_step_trigger s \<noteq> None then unregister_trigger else ERR_INVALID_ARG);
          (second_result, s1) = UnregisterStrategyTrigger listener s
      in (if isOk result then second_result else result, s1))"

definition user_Trigger :: "user_strategy \<Rightarrow> timestamp_t \<times> (nat \<times> timestamp_t) list \<times> user_strategy" where
  "user_Trigger s =
     (let s1 = s\<lparr>trigger_was_called_flag := True\<rparr>;
          current = current_simulation_time s1
      in (current, doCall current s1, s1\<lparr>current_simulation_time := current + cycle_time s1\<rparr>))"

definition user_SetInitialSimulationTime :: "timestamp_t \<Rightarrow> user_strategy \<Rightarrow> fep_result \<times> user_strategy" where
  "user_SetInitialSimulationTime initial s =
     (if trigger_was_called_flag s then (ERR_UNEXPECTED, s)
      else (ERR_NOERROR, s\<lparr>current_simulation_time := initial\<rparr>))"

section \<open>The registration contract\<close>

text \<open>
  What the timing master may rely on when it registers itself, whichever strategy it uses: one
  listener at a time, with a positive cycle time, and only that listener can unregister.
\<close>

locale strategy_registration =
  fixes register :: "timestamp_t \<Rightarrow> nat option \<Rightarrow> 's \<Rightarrow> fep_result \<times> 's"
    and unregister :: "nat option \<Rightarrow> 's \<Rightarrow> fep_result \<times> 's"
    and listener :: "'s \<Rightarrow> nat option"
    and cycle :: "'s \<Rightarrow> timestamp_t"
    and ready :: "'s \<Rightarrow> bool"
  assumes register_result: "ready s \<Longrightarrow> fst (register c l s) =
      (if c \<le> 0 \<or> l = None then ERR_INVALID_ARG
       else if listener s \<noteq> None then ERR_UNEXPECTED else ERR_NOERROR)"
    and register_state: "ready s \<Longrightarrow> ready (snd (register c l s)) \<and>
      listener (snd (register c l s)) = (if fst (register c l s) = ERR_NOERROR then l else listener s) \<and>
      cycle (snd (register c l s)) = (if fst (register c l s) = ERR_NOERROR then c else cycle s)"
    and unregister_result: "ready s \<Longrightarrow> fst (unregister l s) =
      (if l = None then ERR_INVALID_ARG
       else if listener s \<noteq> l then ERR_UNEXPECTED else ERR_NOERROR)"
    and unregister_state: "ready s \<Longrightarrow> ready (snd (unregister l s)) \<and>
      listener (snd (unregister l s)) = (if fst (unregister l s) = ERR_NOERROR then None else listener s) \<and>
      cycle (snd (unregister l s)) = (if fst (unregister l s) = ERR_NOERROR then 0 else cycle s)"
begin

lemma registered_excludes:
  "ready s \<Longrightarrow> fst (register c l s) = ERR_NOERROR \<Longrightarrow> 0 < c' \<Longrightarrow> l' \<noteq> None \<Longrightarrow>
   fst (register c' l' (snd (register c l s))) = ERR_UNEXPECTED"
  by (auto simp: register_result register_state split: if_splits)

lemma only_owner_unregisters:
  "ready s \<Longrightarrow> fst (register c l s) = ERR_NOERROR \<Longrightarrow>
   fst (unregister l' (snd (register c l s))) = ERR_NOERROR \<longleftrightarrow> l' = l"
  by (auto simp: register_result register_state unregister_result split: if_splits)

lemma unregister_frees:
  "ready s \<Longrightarrow> fst (register c l s) = ERR_NOERROR \<Longrightarrow> 0 < c' \<Longrightarrow> l' \<noteq> None \<Longrightarrow>
   fst (register c' l' (snd (unregister l (snd (register c l s))))) = ERR_NOERROR"
  by (auto simp: register_result register_state unregister_result unregister_state split: if_splits)

end

interpretation base_reg: strategy_registration RegisterStrategyTrigger UnregisterStrategyTrigger
    step_trigger_strategy_listener cycle_time "\<lambda>_. True"
  by unfold_locales (auto simp: RegisterStrategyTrigger_def UnregisterStrategyTrigger_def)

text \<open>The user's strategy keeps the contract while a trigger is set and accepts the listener.\<close>

interpretation user_reg: strategy_registration "user_RegisterStrategyTrigger ERR_NOERROR"
    "user_UnregisterStrategyTrigger ERR_NOERROR" step_trigger_strategy_listener cycle_time
    "\<lambda>s. user_step_trigger s \<noteq> None"
  by unfold_locales (auto simp: user_RegisterStrategyTrigger_def user_UnregisterStrategyTrigger_def
      RegisterStrategyTrigger_def UnregisterStrategyTrigger_def)

section \<open>Lemmas\<close>

lemma internal_work_loop_nth:
  "k < length nows \<Longrightarrow> internal_work_loop c r rtc nows s ! k =
     (let w = r + int k * rtc - nows ! k in
      ((if w \<ge> 0 then Some w else None), doCall (c + int k * cycle_time s) s))"
proof (induction nows arbitrary: c r k)
  case Nil
  then show ?case by simp
next
  case (Cons now nows)
  then show ?case by (cases k) (auto simp: Let_def algebra_simps)
qed

lemma length_internal_work_loop [simp]: "length (internal_work_loop c r rtc nows s) = length nows"
  by (induction nows arbitrary: c r) (simp_all add: Let_def)

fun user_triggers :: "nat \<Rightarrow> user_strategy \<Rightarrow> (nat \<times> timestamp_t) list \<times> user_strategy" where
  "user_triggers 0 s = ([], s)"
| "user_triggers (Suc n) s =
     (let (t, calls, s1) = user_Trigger s; (rest, s2) = user_triggers n s1 in (calls @ rest, s2))"

lemma user_triggers_spec:
  "step_trigger_strategy_listener s = Some l \<Longrightarrow>
   fst (user_triggers n s) = map (\<lambda>k. (l, current_simulation_time s + int k * cycle_time s)) [0..<n] \<and>
   (0 < n \<longrightarrow> trigger_was_called_flag (snd (user_triggers n s)))"
proof (induction n arbitrary: s)
  case 0
  then show ?case by simp
next
  case (Suc n)
  let ?s1 = "s\<lparr>trigger_was_called_flag := True,
                current_simulation_time := current_simulation_time s + cycle_time s\<rparr>"
  have ih: "fst (user_triggers n ?s1) =
      map (\<lambda>k. (l, current_simulation_time ?s1 + int k * cycle_time ?s1)) [0..<n] \<and>
      (0 < n \<longrightarrow> trigger_was_called_flag (snd (user_triggers n ?s1)))"
    by (rule Suc.IH) (simp add: Suc.prems)
  have flag: "trigger_was_called_flag (snd (user_triggers n ?s1))"
    using ih by (cases n) simp_all
  have "user_Trigger s = (current_simulation_time s, [(l, current_simulation_time s)], ?s1)"
    using Suc.prems by (simp add: user_Trigger_def doCall_def Let_def)
  with ih flag show ?case
    by (simp add: case_prod_beta upt_conv_Cons map_Suc_upt [symmetric] algebra_simps del: upt_Suc)
qed

section \<open>Properties\<close>

text \<open>
  The internal clock does not drift: whatever the clock readings, round \<open>k\<close> of its thread
  triggers the listener with the simulation time \<open>k * cycle\<close>, and if it is early it sleeps exactly
  until \<open>start + k * scaled cycle\<close>, so a late round does not shift the ones after it.
\<close>

theorem internal_clock_does_not_drift:
  assumes "step_trigger_strategy_listener s = Some l" and "k < length nows"
  shows "internal_Work start_time nows s ! k =
    (let rtc = (real_time_scale s * cycle_time s) sdiv 1000000;
         wait_time = start_time + int k * rtc - nows ! k
     in ((if wait_time \<ge> 0 then Some wait_time else None), [(l, int k * cycle_time s)]))"
  using assms by (simp add: internal_Work_def internal_work_loop_nth doCall_def Let_def)

theorem internal_clock_does_not_drift_witness:
  "internal_Work 1000 [1000, 250000, 180000] (cInternalStepTriggerStrategy
       \<lparr>step_trigger_strategy_listener := Some 7, cycle_time := 100000\<rparr>) ! 2 = (Some 21000, [(7, 200000)])"
  using internal_clock_does_not_drift [of "cInternalStepTriggerStrategy
       \<lparr>step_trigger_strategy_listener := Some 7, cycle_time := 100000\<rparr>" 7 2 "[1000, 250000, 180000]" 1000]
  by (simp add: cInternalStepTriggerStrategy_def Let_def)

text \<open>
  The user's trigger: after setting the initial simulation time \<open>t0\<close>, \<open>n\<close> calls of \<open>Trigger\<close>
  deliver the times \<open>t0\<close>, \<open>t0 + cycle\<close>, \<dots> to the listener in this order, and once a trigger has
  happened the initial time can no longer be changed.
\<close>

theorem user_trigger_sequence:
  assumes "step_trigger_strategy_listener s = Some l" and "\<not> trigger_was_called_flag s"
    and "user_SetInitialSimulationTime t0 s = (r, s1)" and "user_triggers (Suc n) s1 = (calls, s2)"
  shows "calls = map (\<lambda>k. (l, t0 + int k * cycle_time s)) [0..<Suc n] \<and>
    user_SetInitialSimulationTime t s2 = (ERR_UNEXPECTED, s2)"
proof -
  have "s1 = s\<lparr>current_simulation_time := t0\<rparr>"
    using assms(2,3) by (simp add: user_SetInitialSimulationTime_def)
  then show ?thesis
    using user_triggers_spec [of s1 l "Suc n"] assms(1,4)
    by (simp add: user_SetInitialSimulationTime_def del: user_triggers.simps upt_Suc)
qed

theorem user_trigger_sequence_witness:
  "fst (user_triggers 3 (snd (user_SetInitialSimulationTime 500 (cUserStepTriggerStrategy
      \<lparr>step_trigger_strategy_listener := Some 4, cycle_time := 100\<rparr>)))) = [(4, 500), (4, 600), (4, 700)]"
proof -
  let ?s = "cUserStepTriggerStrategy\<lparr>step_trigger_strategy_listener := Some 4, cycle_time := 100\<rparr>"
  let ?s1 = "?s\<lparr>current_simulation_time := 500\<rparr>"
  have init: "user_SetInitialSimulationTime 500 ?s = (ERR_NOERROR, ?s1)"
    by (simp add: user_SetInitialSimulationTime_def cUserStepTriggerStrategy_def)
  obtain calls s2 where run: "user_triggers (Suc 2) ?s1 = (calls, s2)"
    by (cases "user_triggers (Suc 2) ?s1")
  have "calls = map (\<lambda>k. (4, 500 + int k * 100)) [0..<Suc 2]"
    using user_trigger_sequence [OF _ _ init run, of 4 0]
    by (simp add: cUserStepTriggerStrategy_def del: upt_Suc)
  then show ?thesis
    using init run by (simp add: numeral_3_eq_3 numeral_2_eq_2)
qed

text \<open>
  The external strategy never gives back what it registered: after a successful initialization
  its \<open>reset\<close> fails with \<open>ERR_INVALID_ARG\<close>, makes no call, and forgets the components it would have
  to unregister from; and with the data access pointer missing it calls through the null pointer.
\<close>

theorem external_reset_never_unregisters:
  "external_reset r1 r2 (snd (snd (external_initialize (Some da) (Some ta) (ERR_NOERROR, h) ERR_NOERROR s))) =
     Some (ERR_INVALID_ARG, [], s\<lparr>step_trigger_input_signal_handle := h,
       transmission_adapter_private := None, data_access_private := None\<rparr>) \<and>
   external_reset r1 r2 (s\<lparr>data_access_private := None, transmission_adapter_private := Some ta\<rparr>) = None"
  by (simp add: external_initialize_def external_reset_def)

declare external_wait.simps [simp del]

lemma external_wait_timeouts:
  "external_wait c ws s = Some (False, s') \<Longrightarrow> list_all (\<lambda>(notified, _). \<not> notified) ws \<Longrightarrow>
   c < run_cycle_limit s' \<and> step_trigger_strategy_listener s' = step_trigger_strategy_listener s"
proof (induction ws arbitrary: s)
  case Nil
  then show ?case by (auto simp: external_wait.simps [of c "[]"] split: if_splits)
next
  case (Cons w ws)
  obtain n sd l where w: "w = (n, sd, l)" by (cases w)
  show ?case
    using Cons.prems Cons.IH [of "s\<lparr>run_cycle_limit := l\<rparr>"]
    by (auto simp: w Let_def external_wait.simps [of c "_ # _"] split: if_splits)
qed

lemma doCall_Cons: "x \<in> set (doCall t s) \<Longrightarrow> x = (fst x, t)"
  by (auto simp: doCall_def split: option.splits)

text \<open>
  As long as the thread of the external strategy leaves its waiting loop by the loop's own test
  (no wait is cut short by a notification), every time it triggers lies below the limit the last
  external clock sample granted.
\<close>

theorem external_round_respects_limit:
  assumes "external_round now waits s = Some (slept, calls, s')" and "(l, t) \<in> set calls"
    and "list_all (\<lambda>(notified, _). \<not> notified) waits"
  shows "t = next_cycle_timestamp s \<and> t < run_cycle_limit s'"
  using assms external_wait_timeouts doCall_Cons
  by (fastforce simp: external_round_def Let_def
      split: option.splits prod.splits if_splits)

theorem external_round_respects_limit_witness:
  "external_round 40 [(False, False, 100), (False, False, 300)]
     (cExternalStepTriggerStrategy\<lparr>step_trigger_strategy_listener := Some 1, cycle_time := 100,
        next_cycle_timestamp := 200, next_cylcle_local_ref := 50\<rparr>) =
     Some (Some 10, [(1, 200)], cExternalStepTriggerStrategy\<lparr>step_trigger_strategy_listener := Some 1,
        cycle_time := 100, next_cycle_timestamp := 300, next_cylcle_local_ref := 150, run_cycle_limit := 300\<rparr>)
   \<and> (200 :: int) < 300"
proof -
  have r: "external_round 40 [(False, False, 100), (False, False, 300)]
     (cExternalStepTriggerStrategy\<lparr>step_trigger_strategy_listener := Some 1, cycle_time := 100,
        next_cycle_timestamp := 200, next_cylcle_local_ref := 50\<rparr>) =
     Some (Some 10, [(1, 200)], cExternalStepTriggerStrategy\<lparr>step_trigger_strategy_listener := Some 1,
        cycle_time := 100, next_cycle_timestamp := 300, next_cylcle_local_ref := 150, run_cycle_limit := 300\<rparr>)"
    by (simp add: external_round_def external_wait.simps cExternalStepTriggerStrategy_def doCall_def Let_def)
  from external_round_respects_limit [OF r, of 1 200] r show ?thesis
    by (simp add: cExternalStepTriggerStrategy_def)
qed

text \<open>
  A notification ends the waiting loop without the limit being tested again: when an external
  clock sample arrives whose limit still lies before the pending cycle, that cycle is triggered
  although the external clock has not granted it.
\<close>

theorem external_notification_overruns_limit:
  "\<exists>s s'. external_round 0 [(True, False, 100)] s = Some (None, [(1, 200)], s') \<and>
     run_cycle_limit s' = 100"
  by (rule exI [of _ "cExternalStepTriggerStrategy\<lparr>step_trigger_strategy_listener := Some 1,
      cycle_time := 100, next_cycle_timestamp := 200\<rparr>"])
    (simp add: external_round_def external_wait.simps cExternalStepTriggerStrategy_def doCall_def Let_def)

text \<open>
  When the user's trigger refuses the listener, the strategy reports the failure but keeps the
  listener registered: the next attempt is refused with \<open>ERR_UNEXPECTED\<close>, whatever the user's
  trigger would answer then.
\<close>

theorem refused_user_registration_sticks:
  assumes "step_trigger_strategy_listener s = None" and "user_step_trigger s = Some u"
    and "0 < c" and "isFailed refusal"
    and "user_RegisterStrategyTrigger refusal c (Some l) s = (r, s1)"
  shows "r = refusal \<and> step_trigger_strategy_listener s1 = Some l \<and>
    user_RegisterStrategyTrigger answer c (Some l) s1 = (ERR_UNEXPECTED, s1)"
  using assms by (auto simp: user_RegisterStrategyTrigger_def RegisterStrategyTrigger_def)

theorem refused_user_registration_sticks_witness:
  "\<exists>s1. user_RegisterStrategyTrigger ERR_FAILED 100 (Some 9)
      (cUserStepTriggerStrategy\<lparr>user_step_trigger := Some 3\<rparr>) = (ERR_FAILED, s1) \<and>
     user_RegisterStrategyTrigger ERR_NOERROR 100 (Some 9) s1 = (ERR_UNEXPECTED, s1)"
proof -
  let ?s = "cUserStepTriggerStrategy\<lparr>user_step_trigger := Some 3\<rparr>"
  obtain r s1 where run: "user_RegisterStrategyTrigger ERR_FAILED 100 (Some 9) ?s = (r, s1)"
    by (cases "user_RegisterStrategyTrigger ERR_FAILED 100 (Some 9) ?s")
  from refused_user_registration_sticks [OF _ _ _ _ run, of 3 ERR_NOERROR] run show ?thesis
    by (simp add: cUserStepTriggerStrategy_def)
qed

text \<open>
  Every strategy that is ready keeps the registration contract: a registered listener excludes
  any other until it has unregistered itself, which frees the strategy again.
\<close>

theorem registration_is_exclusive:
  assumes "fst (RegisterStrategyTrigger c l s) = ERR_NOERROR" and "0 < c'" and "l' \<noteq> None"
  shows "fst (RegisterStrategyTrigger c' l' (snd (RegisterStrategyTrigger c l s))) = ERR_UNEXPECTED \<and>
    (fst (UnregisterStrategyTrigger l' (snd (RegisterStrategyTrigger c l s))) = ERR_NOERROR \<longleftrightarrow> l' = l) \<and>
    fst (RegisterStrategyTrigger c' l'
      (snd (UnregisterStrategyTrigger l (snd (RegisterStrategyTrigger c l s))))) = ERR_NOERROR"
  using assms by (simp add: base_reg.registered_excludes base_reg.only_owner_unregisters
      base_reg.unregister_frees)

theorem registration_is_exclusive_witness:
  "fst (RegisterStrategyTrigger 50 (Some 2) (snd (RegisterStrategyTrigger 100 (Some 1)
     cBaseStepTriggerStrategy))) = ERR_UNEXPECTED"
  using registration_is_exclusive [of 100 "Some 1" cBaseStepTriggerStrategy 50 "Some 2"]
  by (simp add: RegisterStrategyTrigger_def cBaseStepTriggerStrategy_def)

end
