(* ===== verification/Wire_Format.thy ===== *)
theory Wire_Format
  imports Fep_Prelude
begin

text \<open>
  Values and structures as bytes: the byte order helpers and the data header of
  \<open>src/transmission_adapter/fep_serialization_helpers.h\<close>, and the two timing messages of
  \<open>src/timing/common_timing.h\<close>.

  The code reaches the bytes of a value through a pointer, so what it does depends on the machine it runs
  on: \<open>machine\<close> is an argument of every definition. \<open>memory\<close> gives the bytes of an unsigned value at
  increasing addresses and \<open>load\<close> reads them back; a signed 64-bit value is its 64-bit word.
\<close>

unbundle bit_operations_syntax

section \<open>Memory\<close>

type_synonym byte = "8 word"

datatype machine = LittleEndian | BigEndian

fun le_bytes :: "nat \<Rightarrow> nat \<Rightarrow> byte list" where
  "le_bytes 0 n = []"
| "le_bytes (Suc k) n = word_of_nat (n mod 256) # le_bytes k (n div 256)"

fun of_le_bytes :: "byte list \<Rightarrow> nat" where
  "of_le_bytes [] = 0"
| "of_le_bytes (b # bs) = unat b + 256 * of_le_bytes bs"

definition memory :: "machine \<Rightarrow> nat \<Rightarrow> nat \<Rightarrow> byte list" where
  "memory mach k n = (case mach of LittleEndian \<Rightarrow> le_bytes k n | BigEndian \<Rightarrow> rev (le_bytes k n))"

definition load :: "machine \<Rightarrow> byte list \<Rightarrow> nat" where
  "load mach bs = (case mach of LittleEndian \<Rightarrow> of_le_bytes bs | BigEndian \<Rightarrow> of_le_bytes (rev bs))"

definition store_word :: "machine \<Rightarrow> 'a::len word \<Rightarrow> byte list" where
  "store_word mach v = memory mach (LENGTH('a) div 8) (unat v)"

definition load_word :: "machine \<Rightarrow> byte list \<Rightarrow> 'a::len word" where
  "load_word mach bs = word_of_nat (load mach bs)"

text \<open>For evaluation: the same through integers, which have a binary representation.\<close>

fun le_bytes_int :: "nat \<Rightarrow> int \<Rightarrow> byte list" where
  "le_bytes_int 0 n = []"
| "le_bytes_int (Suc k) n = word_of_int (n mod 256) # le_bytes_int k (n div 256)"

fun of_le_bytes_int :: "byte list \<Rightarrow> int" where
  "of_le_bytes_int [] = 0"
| "of_le_bytes_int (b # bs) = uint b + 256 * of_le_bytes_int bs"

lemma le_bytes_int: "le_bytes_int k (int n) = le_bytes k n"
proof (induction k arbitrary: n)
  case (Suc k)
  have "int n mod 256 = int (n mod 256)" "int n div 256 = int (n div 256)"
    by (simp_all add: zmod_int zdiv_int)
  with Suc.IH [of "n div 256"] show ?case by simp
qed simp

lemma of_le_bytes_int: "of_le_bytes_int bs = int (of_le_bytes bs)"
  by (induction bs) simp_all

lemma store_word_code [code]:
  "store_word mach (v :: 'a::len word) =
     (let bs = le_bytes_int (LENGTH('a) div 8) (uint v) in case mach of LittleEndian \<Rightarrow> bs | BigEndian \<Rightarrow> rev bs)"
proof -
  have "uint v = int (unat v)" by simp
  then show ?thesis
    unfolding store_word_def memory_def Let_def by (simp only: le_bytes_int)
qed

lemma load_word_code [code]:
  "load_word mach bs =
     word_of_int (of_le_bytes_int (case mach of LittleEndian \<Rightarrow> bs | BigEndian \<Rightarrow> rev bs))"
  by (simp add: load_word_def load_def of_le_bytes_int split: machine.split)

lemma le_bytes_numeral [simp]:
  "le_bytes (numeral k) n = word_of_nat (n mod 256) # le_bytes (pred_numeral k) (n div 256)"
  using le_bytes.simps(2) [of "pred_numeral k" n] by (simp only: numeral_eq_Suc [of k, symmetric])

lemma length_le_bytes [simp]: "length (le_bytes k n) = k"
  by (induction k arbitrary: n) simp_all

lemma length_memory [simp]: "length (memory mach k n) = k"
  by (simp add: memory_def split: machine.splits)

lemma length_store_word [simp]: "length (store_word mach (v :: 'a::len word)) = LENGTH('a) div 8"
  by (simp add: store_word_def)

lemma unat_byte [simp]: "unat (word_of_nat (n mod 256) :: byte) = n mod 256"
  by (simp add: unat_of_nat)

lemma of_le_bytes_le_bytes: "n < 256 ^ k \<Longrightarrow> of_le_bytes (le_bytes k n) = n"
proof (induction k arbitrary: n)
  case (Suc k)
  then have "n div 256 < 256 ^ k" by (simp add: less_mult_imp_div_less mult.commute)
  then show ?case using Suc.IH by simp
qed simp

lemma of_le_bytes_bound: "of_le_bytes bs < 256 ^ length bs"
proof (induction bs)
  case (Cons b bs)
  have "unat b < 256" using unsigned_less [of b, where ?'a = nat] by simp
  then show ?case using Cons by simp
qed simp

lemma le_bytes_of_le_bytes: "le_bytes (length bs) (of_le_bytes bs) = bs"
proof (induction bs)
  case (Cons b bs)
  have "unat b < 256" using unsigned_less [of b, where ?'a = nat] by simp
  then show ?case using Cons by simp
qed simp

lemma load_memory: "n < 256 ^ k \<Longrightarrow> load mach (memory mach k n) = n"
  by (simp add: load_def memory_def of_le_bytes_le_bytes split: machine.splits)

lemma memory_load: "memory mach (length bs) (load mach bs) = bs"
proof (cases mach)
  case BigEndian
  then show ?thesis
    using le_bytes_of_le_bytes [of "rev bs"] by (simp add: load_def memory_def)
qed (simp add: load_def memory_def le_bytes_of_le_bytes)

lemma load_bound: "load mach bs < 256 ^ length bs"
  using of_le_bytes_bound [of bs] of_le_bytes_bound [of "rev bs"]
  by (simp add: load_def split: machine.splits)

text \<open>The byte widths of the types the code uses.\<close>

lemma bytes_power:
  assumes "8 dvd LENGTH('a::len)"
  shows "(256 :: nat) ^ (LENGTH('a) div 8) = 2 ^ LENGTH('a)"
proof -
  obtain k where k: "LENGTH('a) = 8 * k" using assms by blast
  have "(256 :: nat) ^ k = (2 ^ 8) ^ k" by simp
  then show ?thesis by (simp only: k power_mult nonzero_mult_div_cancel_left [of 8] numeral_eq_iff semiring_norm) simp
qed

lemma load_store_word:
  "8 dvd LENGTH('a::len) \<Longrightarrow> load_word mach (store_word mach (v :: 'a word)) = v"
  using unsigned_less [of v, where ?'a = nat] by (simp add: load_word_def store_word_def load_memory bytes_power)

lemma store_load_word:
  assumes "8 dvd LENGTH('a::len)" "length bs = LENGTH('a) div 8"
  shows "store_word mach (load_word mach bs :: 'a word) = bs"
  using load_bound [of mach bs] memory_load [of mach bs] assms
  by (simp add: load_word_def store_word_def unat_of_nat bytes_power)

section \<open>Byte order\<close>

definition BYTEORDER_LE :: byte where "BYTEORDER_LE = 0x01"
definition BYTEORDER_BE :: byte where "BYTEORDER_BE = 0x02"
definition BYTEORDER_MASK :: byte where "BYTEORDER_MASK = (BYTEORDER_LE OR BYTEORDER_BE)"
definition SERIALIZATION_DDL :: byte where "SERIALIZATION_DDL = 0x04"
definition SERIALIZATION_RAW :: byte where "SERIALIZATION_RAW = 0x08"
definition SERIALIZATION_MASK :: byte where "SERIALIZATION_MASK = (SERIALIZATION_DDL OR SERIALIZATION_RAW)"

definition GetSerializationFlag :: "byte \<Rightarrow> byte" where
  "GetSerializationFlag n = (n AND SERIALIZATION_MASK)"

definition GetByteOrderFlag :: "byte \<Rightarrow> byte" where
  "GetByteOrderFlag n = (n AND BYTEORDER_MASK)"

definition GetLocalSystemByteorder :: "machine \<Rightarrow> byte" where
  "GetLocalSystemByteorder mach =
     (let nMagicValuePtr = store_word mach (0x0102 :: 16 word)
      in if nMagicValuePtr ! 0 = 0x01 \<and> nMagicValuePtr ! 1 = 0x02 then BYTEORDER_BE
         else if nMagicValuePtr ! 0 = 0x02 \<and> nMagicValuePtr ! 1 = 0x01 then BYTEORDER_LE
         else BYTEORDER_LE)"

text \<open>The four overloads of \<open>SwapByteorder\<close> differ in the width only.\<close>

definition SwapByteorder :: "machine \<Rightarrow> 'a::len word \<Rightarrow> 'a word" where
  "SwapByteorder mach v = load_word mach (rev (store_word mach v))"

definition ConvertToCorrectByteorder :: "machine \<Rightarrow> 'a::len word \<Rightarrow> byte \<Rightarrow> 'a word" where
  "ConvertToCorrectByteorder mach v eCurrentByteOrder =
     (if eCurrentByteOrder = GetLocalSystemByteorder mach then v else SwapByteorder mach v)"

definition ConvertToNetworkByteorder :: "machine \<Rightarrow> 'a::len word \<Rightarrow> 'a word" where
  "ConvertToNetworkByteorder mach v =
     (if BYTEORDER_BE = GetLocalSystemByteorder mach then v else SwapByteorder mach v)"

definition ConvertToHostByteorder :: "machine \<Rightarrow> 'a::len word \<Rightarrow> 'a word" where
  "ConvertToHostByteorder mach v =
     (if BYTEORDER_BE = GetLocalSystemByteorder mach then v else SwapByteorder mach v)"

lemma local_byteorder:
  "GetLocalSystemByteorder LittleEndian = BYTEORDER_LE"
  "GetLocalSystemByteorder BigEndian = BYTEORDER_BE"
  by code_simp+

lemma byteorder_distinct [simp]: "BYTEORDER_LE \<noteq> BYTEORDER_BE" "BYTEORDER_BE \<noteq> BYTEORDER_LE"
  by (simp_all add: BYTEORDER_LE_def BYTEORDER_BE_def)

lemma store_SwapByteorder:
  "8 dvd LENGTH('a::len) \<Longrightarrow> store_word mach (SwapByteorder mach (v :: 'a word)) = rev (store_word mach v)"
  by (simp add: SwapByteorder_def store_load_word)

lemma SwapByteorder_involution:
  "8 dvd LENGTH('a::len) \<Longrightarrow> SwapByteorder mach (SwapByteorder mach (v :: 'a word)) = v"
  by (simp add: SwapByteorder_def store_load_word load_store_word)

lemma memory_rev_machine:
  "rev (store_word LittleEndian v) = store_word BigEndian v"
  "rev (store_word BigEndian v) = store_word LittleEndian v"
  by (simp_all add: store_word_def memory_def)

text \<open>The network form of a value is stored as its big-endian bytes on every machine.\<close>

lemma store_network:
  "8 dvd LENGTH('a::len) \<Longrightarrow>
   store_word mach (ConvertToNetworkByteorder mach (v :: 'a word)) = store_word BigEndian v"
  by (cases mach)
    (simp_all add: ConvertToNetworkByteorder_def local_byteorder store_SwapByteorder memory_rev_machine)

lemma host_load:
  "8 dvd LENGTH('a::len) \<Longrightarrow>
   ConvertToHostByteorder mach (load_word mach (store_word BigEndian (v :: 'a word))) = v"
proof (cases mach)
  case LittleEndian
  assume dvd: "8 dvd LENGTH('a)"
  have "load_word LittleEndian (store_word BigEndian v) = SwapByteorder LittleEndian v"
    by (simp add: SwapByteorder_def memory_rev_machine)
  then show ?thesis
    using dvd LittleEndian by (simp add: ConvertToHostByteorder_def local_byteorder SwapByteorder_involution)
qed (simp add: ConvertToHostByteorder_def local_byteorder load_store_word)

lemma load_other:
  "8 dvd LENGTH('a::len) \<Longrightarrow>
   ConvertToCorrectByteorder mach (load_word mach (store_word mach' (v :: 'a word))) (GetLocalSystemByteorder mach') = v"
  by (cases mach; cases mach')
    (simp_all add: ConvertToCorrectByteorder_def local_byteorder load_store_word SwapByteorder_def
      store_load_word memory_rev_machine)

section \<open>The data header\<close>

record cFepDataHeader =
  m_nMajorVersion :: byte
  m_nMinorVersion :: byte
  m_nSerAndByteOrderFlags :: byte
  m_nSync :: byte
  m_nUnused :: "16 word"
  m_nSampleNumber :: "16 word"
  m_nFrameId :: "64 word"
  m_nSendTimeStamp :: "64 word"

definition sizeof_cFepDataHeader :: nat where "sizeof_cFepDataHeader = 24"

definition header_bytes :: "machine \<Rightarrow> cFepDataHeader \<Rightarrow> byte list" where
  "header_bytes mach h =
     [m_nMajorVersion h, m_nMinorVersion h, m_nSerAndByteOrderFlags h, m_nSync h] @
     store_word mach (m_nUnused h) @ store_word mach (m_nSampleNumber h) @
     store_word mach (m_nFrameId h) @ store_word mach (m_nSendTimeStamp h)"

definition header_at :: "machine \<Rightarrow> byte list \<Rightarrow> cFepDataHeader" where
  "header_at mach bs =
     \<lparr>m_nMajorVersion = bs ! 0, m_nMinorVersion = bs ! 1, m_nSerAndByteOrderFlags = bs ! 2, m_nSync = bs ! 3,
      m_nUnused = load_word mach (take 2 (drop 4 bs)), m_nSampleNumber = load_word mach (take 2 (drop 6 bs)),
      m_nFrameId = load_word mach (take 8 (drop 8 bs)), m_nSendTimeStamp = load_word mach (take 8 (drop 16 bs))\<rparr>"

lemma length_header_bytes [simp]: "length (header_bytes mach h) = sizeof_cFepDataHeader"
  by (simp add: header_bytes_def sizeof_cFepDataHeader_def)

text \<open>What a receiver reads from the bytes another machine has stored.\<close>

lemma header_at_bytes:
  "header_at mach (header_bytes mach' h @ rest) =
     \<lparr>m_nMajorVersion = m_nMajorVersion h, m_nMinorVersion = m_nMinorVersion h,
      m_nSerAndByteOrderFlags = m_nSerAndByteOrderFlags h, m_nSync = m_nSync h,
      m_nUnused = load_word mach (store_word mach' (m_nUnused h)),
      m_nSampleNumber = load_word mach (store_word mach' (m_nSampleNumber h)),
      m_nFrameId = load_word mach (store_word mach' (m_nFrameId h)),
      m_nSendTimeStamp = load_word mach (store_word mach' (m_nSendTimeStamp h))\<rparr>"
  by (simp add: header_at_def header_bytes_def)

section \<open>The timing messages\<close>

record TriggerTick =
  currentTime :: "64 word"
  simTimeStep :: "64 word"

record TriggerAck =
  uuid_str :: "byte list"
  operationalTime :: "64 word"
  currSimTime :: "64 word"

definition uuid_length :: nat where "uuid_length = 36"

definition s_trigger_tick_signal_size :: nat where "s_trigger_tick_signal_size = 16"
definition s_trigger_ack_signal_size :: nat where "s_trigger_ack_signal_size = 52"

definition convertTriggerTickToNetworkByteorder :: "machine \<Rightarrow> TriggerTick \<Rightarrow> TriggerTick" where
  "convertTriggerTickToNetworkByteorder mach t =
     t\<lparr>currentTime := ConvertToNetworkByteorder mach (currentTime t),
       simTimeStep := ConvertToNetworkByteorder mach (simTimeStep t)\<rparr>"

definition convertTriggerTickToHostByteorder :: "machine \<Rightarrow> TriggerTick \<Rightarrow> TriggerTick" where
  "convertTriggerTickToHostByteorder mach t =
     t\<lparr>currentTime := ConvertToHostByteorder mach (currentTime t),
       simTimeStep := ConvertToHostByteorder mach (simTimeStep t)\<rparr>"

definition convertTriggerAckToNetworkByteorder :: "machine \<Rightarrow> TriggerAck \<Rightarrow> TriggerAck" where
  "convertTriggerAckToNetworkByteorder mach a =
     a\<lparr>operationalTime := ConvertToNetworkByteorder mach (operationalTime a),
       currSimTime := ConvertToNetworkByteorder mach (currSimTime a)\<rparr>"

definition convertTriggerAckToHostByteorder :: "machine \<Rightarrow> TriggerAck \<Rightarrow> TriggerAck" where
  "convertTriggerAckToHostByteorder mach a =
     a\<lparr>operationalTime := ConvertToHostByteorder mach (operationalTime a),
       currSimTime := ConvertToHostByteorder mach (currSimTime a)\<rparr>"

text \<open>The packed structures in memory.\<close>

definition tick_bytes :: "machine \<Rightarrow> TriggerTick \<Rightarrow> byte list" where
  "tick_bytes mach t = store_word mach (currentTime t) @ store_word mach (simTimeStep t)"

definition tick_at :: "machine \<Rightarrow> byte list \<Rightarrow> TriggerTick" where
  "tick_at mach bs = \<lparr>currentTime = load_word mach (take 8 bs), simTimeStep = load_word mach (take 8 (drop 8 bs))\<rparr>"

definition ack_bytes :: "machine \<Rightarrow> TriggerAck \<Rightarrow> byte list" where
  "ack_bytes mach a = uuid_str a @ store_word mach (operationalTime a) @ store_word mach (currSimTime a)"

definition ack_at :: "machine \<Rightarrow> byte list \<Rightarrow> TriggerAck" where
  "ack_at mach bs =
     \<lparr>uuid_str = take uuid_length bs, operationalTime = load_word mach (take 8 (drop uuid_length bs)),
      currSimTime = load_word mach (take 8 (drop (uuid_length + 8) bs))\<rparr>"

lemma tick_roundtrip:
  "convertTriggerTickToHostByteorder mach' (tick_at mach' (tick_bytes mach (convertTriggerTickToNetworkByteorder mach t))) = t"
  by (simp add: convertTriggerTickToHostByteorder_def convertTriggerTickToNetworkByteorder_def tick_at_def
      tick_bytes_def store_network host_load)

lemma ack_roundtrip:
  "length (uuid_str a) = uuid_length \<Longrightarrow>
   convertTriggerAckToHostByteorder mach' (ack_at mach' (ack_bytes mach (convertTriggerAckToNetworkByteorder mach a))) = a"
  by (simp add: convertTriggerAckToHostByteorder_def convertTriggerAckToNetworkByteorder_def ack_at_def
      ack_bytes_def store_network host_load uuid_length_def)

section \<open>Properties\<close>

text \<open>
  C40: Timing messages cross machines: a tick or an acknowledgement converted to network byte order and
  stored on one machine has the documented size, and read and converted back on any other machine gives
  the same times (as signed 64-bit values) and the same task.
\<close>

theorem timing_messages_cross_machines:
  assumes "in_int64 now" "in_int64 step" "length uuid = uuid_length"
  shows "(let sent = tick_bytes mach (convertTriggerTickToNetworkByteorder mach
               \<lparr>currentTime = word_of_int now, simTimeStep = word_of_int step\<rparr>);
             got = convertTriggerTickToHostByteorder mach' (tick_at mach' sent)
         in length sent = s_trigger_tick_signal_size \<and> sint (currentTime got) = now \<and> sint (simTimeStep got) = step) \<and>
    (let sent = ack_bytes mach (convertTriggerAckToNetworkByteorder mach
               \<lparr>uuid_str = uuid, operationalTime = word_of_int step, currSimTime = word_of_int now\<rparr>);
             got = convertTriggerAckToHostByteorder mach' (ack_at mach' sent)
         in length sent = s_trigger_ack_signal_size \<and> uuid_str got = uuid \<and>
            sint (operationalTime got) = step \<and> sint (currSimTime got) = now)"
  using assms
  by (simp add: Let_def tick_roundtrip ack_roundtrip sint_word_of_int_int64)
    (simp add: tick_bytes_def ack_bytes_def s_trigger_tick_signal_size_def s_trigger_ack_signal_size_def
      convertTriggerAckToNetworkByteorder_def uuid_length_def)

theorem timing_messages_cross_machines_witness:
  "let sent = tick_bytes LittleEndian (convertTriggerTickToNetworkByteorder LittleEndian
             \<lparr>currentTime = word_of_int (-5), simTimeStep = word_of_int 100000\<rparr>);
       got = convertTriggerTickToHostByteorder BigEndian (tick_at BigEndian sent)
   in drop 8 sent = [0, 0, 0, 0, 0, 1, 134, 160] \<and> sint (currentTime got) = -5 \<and> sint (simTimeStep got) = 100000"
proof -
  have "drop 8 (tick_bytes LittleEndian (convertTriggerTickToNetworkByteorder LittleEndian
             \<lparr>currentTime = word_of_int (-5), simTimeStep = word_of_int 100000\<rparr>)) = [0, 0, 0, 0, 0, 1, 134, 160]"
    by (simp add: tick_bytes_def convertTriggerTickToNetworkByteorder_def store_network)
      (simp add: store_word_def memory_def)
  moreover have "in_int64 (-5)" "in_int64 100000" "length (replicate 36 (0 :: byte)) = uuid_length"
    by (simp_all add: in_int64_def uuid_length_def)
  note timing_messages_cross_machines [OF this, of LittleEndian BigEndian]
  ultimately show ?thesis unfolding Let_def by blast
qed

end
