(* ===== verification/Fragmentation.thy ===== *)
theory Fragmentation
  imports Wire_Format "HOL-Library.Monad_Syntax"
begin

text \<open>
  \<open>src/transmission_adapter/fep_fragmentation.h\<close>: a sample longer than the fragmentation boundary is sent
  in several fragments and put together again by the reader.

  The host is little-endian: \<open>htole32\<close>, \<open>htole64\<close> and the like are identities, and \<open>le16toh\<close> and
  \<open>htole16\<close>, whose parameter is 16 bits wide, truncate the 32-bit field they are applied to. The template
  parameters \<open>fragmentation_boundary\<close> and \<open>protocol_version\<close> are arguments. The transport call of a
  derived class is the parameter \<open>tx\<close>, which may fail and has a state of its own. Accesses outside an
  object are \<open>None\<close>, and so is a loop that does not end.
\<close>

section \<open>Fragments\<close>

record Fragment =
  magic :: "64 word"
  version :: byte
  sender_id :: "64 word"
  sample_number :: "32 word"
  sample_size :: "32 word"
  frag_size :: "32 word"
  frag_index :: "16 word"

definition fragment_magic :: "64 word" where "fragment_magic = 0xABADCAFE"

text \<open>A fragment in memory: its header and the bytes that follow it.\<close>

type_synonym fragment = "Fragment \<times> byte list"

section \<open>The writer\<close>

record FragmentingWriter =
  w_buffer :: "Fragment option"
  w_max_sample_size :: "32 word"
  w_sender_id :: "64 word"

definition new_writer :: "32 word \<Rightarrow> 64 word \<Rightarrow> FragmentingWriter" where
  "new_writer boundary sender =
     \<lparr>w_buffer = None, w_max_sample_size = boundary * 65535, w_sender_id = sender\<rparr>"

definition setBuffer :: "byte \<Rightarrow> Fragment option \<Rightarrow> FragmentingWriter \<Rightarrow> FragmentingWriter" where
  "setBuffer protocol_version buffer w =
     w\<lparr>w_buffer := map_option (\<lambda>h. h\<lparr>magic := fragment_magic, version := protocol_version,
         sender_id := w_sender_id w, sample_number := 0\<rparr>) buffer\<rparr>"

definition fragment_size :: "32 word \<Rightarrow> byte list \<Rightarrow> 32 word" where
  "fragment_size boundary source = min (word_of_nat (length source)) boundary"

definition sized :: "32 word \<Rightarrow> byte list \<Rightarrow> Fragment \<Rightarrow> Fragment" where
  "sized boundary source h = h\<lparr>frag_size := fragment_size boundary source\<rparr>"

definition chunk :: "32 word \<Rightarrow> byte list \<Rightarrow> byte list" where
  "chunk boundary source = take (unat (fragment_size boundary source)) source"

definition rest :: "32 word \<Rightarrow> byte list \<Rightarrow> byte list" where
  "rest boundary source = drop (unat (fragment_size boundary source)) source"

partial_function (option) transmit_loop ::
    "(fragment \<Rightarrow> 's \<Rightarrow> bool \<times> 's) \<Rightarrow> 32 word \<Rightarrow> Fragment \<Rightarrow> byte list \<Rightarrow> 's \<Rightarrow> (Fragment \<times> 's) option" where
  "transmit_loop tx boundary h source s =
     (if source = [] then Some (h, s)
      else if fst (tx (sized boundary source h, chunk boundary source) s)
      then transmit_loop tx boundary ((sized boundary source h)\<lparr>frag_index := frag_index h + 1\<rparr>)
             (rest boundary source) (snd (tx (sized boundary source h, chunk boundary source) s))
      else Some (sized boundary source h, snd (tx (sized boundary source h, chunk boundary source) s)))"

declare transmit_loop.simps [code]

definition transmitSample ::
    "(fragment \<Rightarrow> 's \<Rightarrow> bool \<times> 's) \<Rightarrow> 32 word \<Rightarrow> byte list option \<Rightarrow> FragmentingWriter \<Rightarrow> 's \<Rightarrow>
     (16 word \<times> FragmentingWriter \<times> 's) option" where
  "transmitSample tx boundary sample w s =
     (case sample of
        None \<Rightarrow> Some (0, w, s)
      | Some bytes \<Rightarrow>
          if length bytes = 0 \<or> length bytes > unat (w_max_sample_size w) then Some (0, w, s)
          else (case w_buffer w of
                  None \<Rightarrow> None
                | Some h \<Rightarrow> do {
                    let h = h\<lparr>frag_index := 0,
                              sample_number := ucast ((ucast (sample_number h) :: 16 word) + 1),
                              sample_size := word_of_nat (length bytes)\<rparr>;
                    (h, s) \<leftarrow> transmit_loop tx boundary h bytes s;
                    Some (frag_index h, w\<lparr>w_buffer := Some h\<rparr>, s)
                  }))"

section \<open>The reader\<close>

record DefragmentingReader =
  r_buffer :: "byte list"
  r_current_sample_numbers :: "64 word \<Rightarrow> 32 word option"
  r_remaining_sample_size :: "32 word"

definition resize_buffer :: "nat \<Rightarrow> byte list \<Rightarrow> byte list" where
  "resize_buffer n bs = take n bs @ replicate (n - length bs) 0"

definition new_reader :: "32 word \<Rightarrow> DefragmentingReader" where
  "new_reader boundary =
     \<lparr>r_buffer = resize_buffer (unat boundary) [], r_current_sample_numbers = Map.empty,
      r_remaining_sample_size = 0\<rparr>"

text \<open>\<open>std::map::operator[]\<close> creates a missing entry with the value 0.\<close>

definition current_number :: "DefragmentingReader \<Rightarrow> 64 word \<Rightarrow> 32 word" where
  "current_number r sender = (case r_current_sample_numbers r sender of None \<Rightarrow> 0 | Some n \<Rightarrow> n)"

text \<open>The part of \<open>receiveFragment\<close> that starts a new sample.\<close>

definition start_sample :: "Fragment \<Rightarrow> DefragmentingReader \<Rightarrow> DefragmentingReader" where
  "start_sample h r =
     r\<lparr>r_current_sample_numbers := (r_current_sample_numbers r)(sender_id h \<mapsto> sample_number h),
       r_remaining_sample_size := sample_size h,
       r_buffer := resize_buffer (unat (sample_size h)) (r_buffer r)\<rparr>"

definition lost_samples :: "Fragment \<Rightarrow> DefragmentingReader \<Rightarrow> 32 word" where
  "lost_samples h r =
     (if r_remaining_sample_size r \<noteq> 0
      then if current_number r (sender_id h) > sample_number h then 1
           else sample_number h - current_number r (sender_id h)
      else 0)"

text \<open>Storing the payload and handing over a complete sample.\<close>

definition take_fragment ::
    "32 word \<Rightarrow> fragment \<Rightarrow> DefragmentingReader \<Rightarrow> (DefragmentingReader \<times> byte list list) option" where
  "take_fragment boundary f r = do {
     let (h, payload) = f;
     let destination = unat (ucast (frag_index h) * boundary);
     let n = unat (frag_size h);
     r \<leftarrow> (if r_remaining_sample_size r \<ge> frag_size h \<and> destination + n \<le> length (r_buffer r)
           then if n \<le> length payload
                then Some (r\<lparr>r_buffer := take destination (r_buffer r) @ take n payload @
                               drop (destination + n) (r_buffer r),
                             r_remaining_sample_size := r_remaining_sample_size r - frag_size h\<rparr>)
                else None
           else Some r);
     (if r_remaining_sample_size r = 0
      then if unat (sample_size h) \<le> length (r_buffer r)
           then Some (r, [take (unat (sample_size h)) (r_buffer r)])
           else None
      else Some (r, []))
   }"

text \<open>
  \<open>receiveFragment\<close>: the number of lost samples, the reader, and the samples handed to \<open>receiveSample\<close>.
  A null pointer or a packet shorter than a header is \<open>None\<close> in the first argument.
\<close>

definition receiveFragment ::
    "32 word \<Rightarrow> byte \<Rightarrow> fragment option \<Rightarrow> DefragmentingReader \<Rightarrow>
     (32 word \<times> DefragmentingReader \<times> byte list list) option" where
  "receiveFragment boundary protocol_version packet r =
     (case packet of
        None \<Rightarrow> Some (0, r, [])
      | Some (h, payload) \<Rightarrow>
          if magic h \<noteq> fragment_magic \<or> version h \<noteq> protocol_version then Some (0, r, [])
          else if sample_number h \<noteq> current_number r (sender_id h) then do {
            (r', out) \<leftarrow> take_fragment boundary (h, payload) (start_sample h r);
            Some (lost_samples h r, r', out)
          }
          else do {
            (r', out) \<leftarrow> take_fragment boundary (h, payload)
              (r\<lparr>r_current_sample_numbers := (r_current_sample_numbers r)(sender_id h \<mapsto> sample_number h)\<rparr>);
            Some (0, r', out)
          })"

text \<open>A sequence of fragments: the losses reported, the reader, the samples handed over.\<close>

fun receive_all ::
    "32 word \<Rightarrow> byte \<Rightarrow> fragment list \<Rightarrow> DefragmentingReader \<Rightarrow>
     (32 word list \<times> DefragmentingReader \<times> byte list list) option" where
  "receive_all b v [] r = Some ([], r, [])"
| "receive_all b v (f # fs) r = do {
     (lost, r, out) \<leftarrow> receiveFragment b v (Some f) r;
     (losts, r, outs) \<leftarrow> receive_all b v fs r;
     Some (lost # losts, r, out @ outs)
   }"

section \<open>A reliable transport\<close>

definition collect :: "fragment \<Rightarrow> fragment list \<Rightarrow> bool \<times> fragment list" where
  "collect f sent = (True, sent @ [f])"

text \<open>A sequence of samples: the results of \<open>transmitSample\<close>, the writer, the fragments sent.\<close>

fun transmit_all ::
    "32 word \<Rightarrow> byte list list \<Rightarrow> FragmentingWriter \<Rightarrow> fragment list \<Rightarrow>
     (16 word list \<times> FragmentingWriter \<times> fragment list) option" where
  "transmit_all b [] w s = Some ([], w, s)"
| "transmit_all b (x # xs) w s = do {
     (n, w, s) \<leftarrow> transmitSample collect b (Some x) w s;
     (ns, w, s) \<leftarrow> transmit_all b xs w s;
     Some (n # ns, w, s)
   }"

lemma receive_all_append:
  "receive_all b v fs r = Some (losts, r', outs) \<Longrightarrow>
   receive_all b v gs r' = Some (losts', r'', outs') \<Longrightarrow>
   receive_all b v (fs @ gs) r = Some (losts @ losts', r'', outs @ outs')"
  by (induction b v fs r arbitrary: losts outs rule: receive_all.induct) (auto simp: bind_eq_Some_conv)

section \<open>One sample\<close>

lemma length_resize_buffer [simp]: "length (resize_buffer n bs) = n"
  by (simp add: resize_buffer_def)

lemma unat_index: "unat (ucast (i :: 16 word) :: 32 word) = unat i"
proof -
  have "unat i < 2 ^ 32" using unsigned_less [of i, where ?'a = nat] by simp
  then show ?thesis by (simp add: unsigned_ucast_eq take_bit_nat_eq_self)
qed

lemma unat_destination:
  "unat i * unat b < 2 ^ 32 \<Longrightarrow> unat (ucast (i :: 16 word) * (b :: 32 word)) = unat i * unat b"
  by (simp add: unat_word_ariths unat_index)

lemma unat_length: "length source < 2 ^ 32 \<Longrightarrow> unat (word_of_nat (length source) :: 32 word) = length source"
  by (simp add: unat_of_nat)

lemma unat_fragment_size:
  "length source < 2 ^ 32 \<Longrightarrow> unat (fragment_size b source) = min (length source) (unat b)"
  using unat_length [of source] by (simp add: fragment_size_def min_def word_le_nat_alt)

lemma chunk_rest: "chunk b source @ rest b source = source"
  by (simp add: chunk_def rest_def)

lemma unat_next_index:
  assumes "unat i < 65535"
  shows "unat (i + 1 :: 16 word) = unat i + 1"
  using assms by (simp add: unat_word_ariths)

text \<open>
  The reader in the middle of a sample: it knows the number of the sample, misses the bytes \<open>source\<close> and
  has stored the bytes \<open>stored\<close>.
\<close>

definition midway :: "32 word \<Rightarrow> Fragment \<Rightarrow> byte list \<Rightarrow> byte list \<Rightarrow> DefragmentingReader \<Rightarrow> bool" where
  "midway b h stored source r \<longleftrightarrow>
     current_number r (sender_id h) = sample_number h \<and>
     unat (r_remaining_sample_size r) = length source \<and>
     length (r_buffer r) = length stored + length source \<and> take (length stored) (r_buffer r) = stored \<and>
     unat (sample_size h) = length stored + length source \<and>
     length stored = unat (frag_index h) * unat b"

lemma take_fragment_stores:
  assumes "frag_size h \<le> r_remaining_sample_size r" "unat (ucast (frag_index h) * b) = D"
    "unat (frag_size h) = n" "D + n \<le> length (r_buffer r)" "n \<le> length payload"
    and "r1 = r\<lparr>r_buffer := take D (r_buffer r) @ take n payload @ drop (D + n) (r_buffer r),
                r_remaining_sample_size := r_remaining_sample_size r - frag_size h\<rparr>"
    and "unat (sample_size h) \<le> length (r_buffer r1)"
  shows "take_fragment b (h, payload) r =
    Some (r1, if r_remaining_sample_size r1 = 0 then [take (unat (sample_size h)) (r_buffer r1)] else [])"
  using assms(1,4,5,7) unfolding assms(6) by (simp add: take_fragment_def Let_def assms(2,3))

lemma receive_chunk:
  assumes mid: "midway b h stored source r" and ne: "source \<noteq> []" and b: "0 < unat b"
    and magic: "magic h = fragment_magic" "version h = v"
  shows "\<exists>r'. receiveFragment b v (Some (sized b source h, chunk b source)) r =
      Some (0, r', if rest b source = [] then [stored @ source] else []) \<and>
    unat (r_remaining_sample_size r') = length (rest b source) \<and>
    length (r_buffer r') = length (r_buffer r) \<and>
    take (length stored + length (chunk b source)) (r_buffer r') = stored @ chunk b source \<and>
    r_current_sample_numbers r' = (r_current_sample_numbers r)(sender_id h \<mapsto> sample_number h)"
proof -
  let ?n = "unat (fragment_size b source)"
  have len: "length stored + length source < 2 ^ 32"
    using mid unsigned_less [of "sample_size h", where ?'a = nat] by (simp add: midway_def)
  have n: "?n = min (length source) (unat b)" using len by (simp add: unat_fragment_size)
  have dest: "unat (ucast (frag_index h) * b) = length stored"
    using mid len unat_destination [of "frag_index h" b] by (simp add: midway_def)
  have le: "fragment_size b source \<le> r_remaining_sample_size r"
    using mid n by (simp add: midway_def word_le_nat_alt)
  have nlen: "?n \<le> length source" "length (chunk b source) = ?n" "length (rest b source) = length source - ?n"
    using n by (simp_all add: chunk_def rest_def)
  let ?r0 = "r\<lparr>r_current_sample_numbers := (r_current_sample_numbers r)(sender_id h \<mapsto> sample_number h)\<rparr>"
  have stored: "take (length stored) (r_buffer r) = stored" using mid unfolding midway_def by blast
  have size: "unat (sample_size h) = length stored + length source"
    "current_number r (sender_id h) = sample_number h" "length (r_buffer r) = length stored + length source"
    "unat (r_remaining_sample_size r) = length source"
    using mid unfolding midway_def by blast+
  define r1 where "r1 = ?r0\<lparr>
      r_buffer := take (length stored) (r_buffer ?r0) @ take ?n (chunk b source) @
        drop (length stored + ?n) (r_buffer ?r0),
      r_remaining_sample_size := r_remaining_sample_size ?r0 - fragment_size b source\<rparr>"
  have buf: "r_buffer r1 = stored @ chunk b source @ drop (length stored + ?n) (r_buffer r)"
    using stored nlen by (simp add: r1_def)
  have lbuf: "length (r_buffer r1) = length stored + length source"
    using size nlen unfolding buf by simp
  have rem: "unat (r_remaining_sample_size r1) = length (rest b source)"
    using unat_sub [OF le] size nlen by (simp add: r1_def)
  have zero: "r_remaining_sample_size r1 = 0 \<longleftrightarrow> rest b source = []"
    using rem by (metis length_0_conv unat_0_iff)
  have full: "take (length stored + length source) (r_buffer r1) = stored @ source" if "rest b source = []"
  proof -
    have "chunk b source = source" using chunk_rest [of b source] that by simp
    then show ?thesis unfolding buf using nlen that by simp
  qed
  have "take_fragment b (sized b source h, chunk b source) ?r0 =
      Some (r1, if r_remaining_sample_size r1 = 0
        then [take (unat (sample_size (sized b source h))) (r_buffer r1)] else [])"
    by (rule take_fragment_stores [where D = "length stored" and n = ?n])
      (use le dest nlen size lbuf in \<open>simp_all add: sized_def r1_def\<close>)
  then have "receiveFragment b v (Some (sized b source h, chunk b source)) r =
      Some (0, r1, if rest b source = [] then [stored @ source] else [])"
    using magic size(2) unfolding zero by (auto simp: receiveFragment_def sized_def size(1) full)
  then show ?thesis using rem buf lbuf size nlen by (simp add: r1_def)
qed

text \<open>What the writer keeps of its header while it sends a sample.\<close>

definition same_sample :: "Fragment \<Rightarrow> Fragment \<Rightarrow> bool" where
  "same_sample h h' \<longleftrightarrow> magic h' = magic h \<and> version h' = version h \<and> sender_id h' = sender_id h \<and>
     sample_number h' = sample_number h \<and> sample_size h' = sample_size h"

definition next_header :: "32 word \<Rightarrow> byte list \<Rightarrow> Fragment \<Rightarrow> Fragment" where
  "next_header b source h = (sized b source h)\<lparr>frag_index := frag_index h + 1\<rparr>"

lemma next_header_fields [simp]:
  "same_sample (next_header b source h) h' = same_sample h h'"
  "magic (next_header b source h) = magic h" "version (next_header b source h) = version h"
  "sender_id (next_header b source h) = sender_id h" "sample_number (next_header b source h) = sample_number h"
  "sample_size (next_header b source h) = sample_size h"
  "frag_index (next_header b source h) = frag_index h + 1"
  by (simp_all add: same_sample_def next_header_def sized_def)

lemma transmit_loop_collect:
  "source \<noteq> [] \<Longrightarrow> transmit_loop collect b h source s =
     transmit_loop collect b (next_header b source h) (rest b source) (s @ [(sized b source h, chunk b source)])"
  "transmit_loop collect b h [] s = Some (h, s)"
  by (simp_all add: transmit_loop.simps [of collect b h] collect_def next_header_def)

lemma fragments_left:
  assumes "0 < B" "B < n"
  shows "(n + B - 1) div B = Suc ((n - B + B - 1) div B)"
proof -
  have "n + B - 1 = (n - 1) + B" "n - B + B - 1 = n - 1" using assms by linarith+
  moreover have "((n - 1) + B) div B = Suc ((n - 1) div B)"
    using div_add_self2 [of B "n - 1"] assms(1) by linarith
  ultimately show ?thesis by (simp only:)
qed

lemma last_fragment: "0 < n \<Longrightarrow> n \<le> B \<Longrightarrow> (n + B - 1) div B = (1 :: nat)"
  by (intro div_nat_eqI) auto

lemma sample_rest_received:
  assumes "midway b h stored source r" "source \<noteq> []" "0 < unat b"
    and "magic h = fragment_magic" "version h = v" "length stored + length source \<le> 65535 * unat b"
  shows "\<exists>h' frs r' losts. transmit_loop collect b h source s = Some (h', s @ frs) \<and>
    receive_all b v frs r = Some (losts, r', [stored @ source]) \<and> set losts \<subseteq> {0} \<and>
    r_remaining_sample_size r' = 0 \<and>
    r_current_sample_numbers r' = (r_current_sample_numbers r)(sender_id h \<mapsto> sample_number h) \<and>
    same_sample h h' \<and> unat (frag_index h') = unat (frag_index h) + length frs \<and>
    length frs = (length source + unat b - 1) div unat b \<and>
    (\<exists>frs'. frs = (sized b source h, chunk b source) # frs')"
  using assms
proof (induction "length source" arbitrary: h stored source r s rule: less_induct)
  case less
  let ?h = "next_header b source h" and ?f = "(sized b source h, chunk b source)"
  obtain r1 where r1: "receiveFragment b v (Some ?f) r =
      Some (0, r1, if rest b source = [] then [stored @ source] else [])"
    "unat (r_remaining_sample_size r1) = length (rest b source)"
    "length (r_buffer r1) = length (r_buffer r)"
    "take (length stored + length (chunk b source)) (r_buffer r1) = stored @ chunk b source"
    "r_current_sample_numbers r1 = (r_current_sample_numbers r)(sender_id h \<mapsto> sample_number h)"
    using receive_chunk [OF less.prems(1-5)] by blast
  have mid: "length stored = unat (frag_index h) * unat b"
      "unat (sample_size h) = length stored + length source" "length (r_buffer r) = length stored + length source"
    using less.prems(1) unfolding midway_def by blast+
  have n: "unat (fragment_size b source) = min (length source) (unat b)"
    using mid(2) unsigned_less [of "sample_size h", where ?'a = nat] by (simp add: unat_fragment_size)
  have "0 < length source" using less.prems(2) by simp
  then have "unat (frag_index h) * unat b < 65535 * unat b" using less.prems(6) mid(1) by linarith
  then have idx: "unat (frag_index h + 1) = unat (frag_index h) + 1" by (simp add: unat_next_index)
  show ?case
  proof (cases "rest b source = []")
    case True
    then have "length source \<le> unat b" using n by (simp add: rest_def)
    then have count: "(length source + unat b - 1) div unat b = 1"
      using last_fragment [OF \<open>0 < length source\<close>] by simp
    have "transmit_loop collect b h source s = Some (?h, s @ [?f])"
      using transmit_loop_collect(1) [OF less.prems(2)] transmit_loop_collect(2) True by simp
    moreover have "receive_all b v [?f] r = Some ([0], r1, [stored @ source])" using r1(1) True by simp
    moreover have "r_remaining_sample_size r1 = 0" using r1(2) True by (simp add: unat_0_iff)
    ultimately show ?thesis
      using r1(5) idx count
      by (intro exI [of _ ?h] exI [of _ "[?f]"] exI [of _ r1] exI [of _ "[0]"]) (simp add: same_sample_def next_header_def sized_def)
  next
    case False
    have nb: "unat (fragment_size b source) = unat b" "unat b < length source"
      using False n by (auto simp: rest_def min_def split: if_splits)
    have len: "length (chunk b source) = unat b" "length (rest b source) = length source - unat b"
      using nb by (simp_all add: chunk_def rest_def)
    have mid': "midway b ?h (stored @ chunk b source) (rest b source) r1"
      using r1(2-5) mid nb len idx by (simp add: midway_def current_number_def)
    have "length (rest b source) < length source" using len less.prems(3) nb by simp
    from less.hyps [OF this mid' False less.prems(3), of "s @ [?f]"] less.prems(4-6) nb len
    obtain h' frs r' losts where h': "transmit_loop collect b ?h (rest b source) (s @ [?f]) = Some (h', (s @ [?f]) @ frs)"
      "receive_all b v frs r1 = Some (losts, r', [(stored @ chunk b source) @ rest b source])"
      "set losts \<subseteq> {0}" "r_remaining_sample_size r' = 0"
      "r_current_sample_numbers r' = (r_current_sample_numbers r1)(sender_id h \<mapsto> sample_number h)"
      "same_sample h h'" "unat (frag_index h') = unat (frag_index h + 1) + length frs"
      "length frs = (length (rest b source) + unat b - 1) div unat b" by auto
    have "transmit_loop collect b h source s = Some (h', s @ ?f # frs)"
      using transmit_loop_collect(1) [OF less.prems(2)] h'(1) by simp
    moreover have "receive_all b v (?f # frs) r = Some (0 # losts, r', [stored @ source])"
      using r1(1) h'(2) False chunk_rest [of b source] by simp
    moreover have "length (?f # frs) = (length source + unat b - 1) div unat b"
      using fragments_left [OF less.prems(3) nb(2)] h'(8) len by simp
    ultimately show ?thesis
      using h'(3-7) r1(5) idx
      by (intro exI [of _ h'] exI [of _ "?f # frs"] exI [of _ r'] exI [of _ "0 # losts"]) simp
  qed
qed

section \<open>A sequence of samples\<close>

text \<open>
  Writer and reader between two samples: the reader knows the number of the last sample and misses
  nothing.
\<close>

definition in_sync :: "32 word \<Rightarrow> byte \<Rightarrow> FragmentingWriter \<Rightarrow> DefragmentingReader \<Rightarrow> bool" where
  "in_sync b v w r \<longleftrightarrow> (\<exists>h. w_buffer w = Some h \<and> magic h = fragment_magic \<and> version h = v \<and>
     current_number r (sender_id h) = sample_number h) \<and>
     w_max_sample_size w = b * 65535 \<and> r_remaining_sample_size r = 0"

lemma in_sync_start: "in_sync b v (setBuffer v (Some h) (new_writer b sender)) (new_reader b)"
  by (simp add: in_sync_def setBuffer_def new_writer_def new_reader_def current_number_def)

lemma next_number_differs: "(ucast ((ucast x :: 16 word) + 1) :: 32 word) \<noteq> x"
proof
  assume eq: "(ucast ((ucast x :: 16 word) + 1) :: 32 word) = x"
  have "(ucast (ucast z :: 32 word) :: 16 word) = z" for z
    by (rule bit_word_eqI) (simp add: bit_ucast_iff)
  from this [of "ucast x + 1"] have "(ucast x :: 16 word) + 1 = ucast x" unfolding eq by simp
  then show False by simp
qed

lemma receive_first:
  assumes "magic h = fragment_magic" "version h = v" "r_remaining_sample_size r = 0"
    and "sample_number h \<noteq> current_number r (sender_id h)"
  shows "receiveFragment b v (Some (h, p)) r = receiveFragment b v (Some (h, p)) (start_sample h r)"
proof -
  have "(start_sample h r)\<lparr>r_current_sample_numbers :=
      (r_current_sample_numbers (start_sample h r))(sender_id h \<mapsto> sample_number h)\<rparr> = start_sample h r"
    by (cases r) (simp add: start_sample_def)
  moreover have "current_number (start_sample h r) (sender_id h) = sample_number h"
    by (simp add: start_sample_def current_number_def)
  ultimately show ?thesis using assms by (simp add: receiveFragment_def lost_samples_def)
qed

lemma max_size_bound: "unat (b * 65535 :: 32 word) \<le> 65535 * unat b"
proof -
  have "unat (b * 65535) = (unat b * 65535) mod 2 ^ 32" by (simp add: unat_word_ariths)
  then show ?thesis using mod_less_eq_dividend [of "unat b * 65535" "2 ^ 32"] by simp
qed

lemma one_sample:
  assumes "in_sync b v w r" "0 < unat b" "sample \<noteq> []" "length sample \<le> unat (b * 65535)"
  shows "\<exists>n w' frs losts r'. transmitSample collect b (Some sample) w s = Some (n, w', s @ frs) \<and>
    receive_all b v frs r = Some (losts, r', [sample]) \<and> set losts \<subseteq> {0} \<and> in_sync b v w' r' \<and>
    unat n = (length sample + unat b - 1) div unat b"
proof -
  obtain h where h: "w_buffer w = Some h" "magic h = fragment_magic" "version h = v"
      "current_number r (sender_id h) = sample_number h" "w_max_sample_size w = b * 65535"
      "r_remaining_sample_size r = 0"
    using assms(1) by (auto simp: in_sync_def)
  define h0 where "h0 = h\<lparr>frag_index := 0, sample_number := ucast ((ucast (sample_number h) :: 16 word) + 1),
      sample_size := word_of_nat (length sample)\<rparr>"
  have h0: "magic h0 = fragment_magic" "version h0 = v" "sender_id h0 = sender_id h" "frag_index h0 = 0"
      "sample_number h0 \<noteq> current_number r (sender_id h0)"
    using h(2-4) next_number_differs by (simp_all add: h0_def)
  have "length sample < 2 ^ 32"
    using assms(4) unsigned_less [of "b * 65535", where ?'a = nat] by simp
  then have size: "unat (sample_size h0) = length sample" by (simp add: h0_def unat_length)
  have mid: "midway b h0 [] sample (start_sample h0 r)"
    using h0(4) size by (simp add: midway_def start_sample_def current_number_def resize_buffer_def)
  have "length ([] :: byte list) + length sample \<le> 65535 * unat b"
    using assms(4) max_size_bound [of b] by simp
  from sample_rest_received [OF mid assms(3,2) h0(1,2) this, of s] obtain h' frs r' losts frs' where out: "transmit_loop collect b h0 sample s = Some (h', s @ frs)"
      "receive_all b v frs (start_sample h0 r) = Some (losts, r', [[] @ sample])" "set losts \<subseteq> {0}"
      "r_remaining_sample_size r' = 0"
      "r_current_sample_numbers r' = (r_current_sample_numbers (start_sample h0 r))(sender_id h0 \<mapsto> sample_number h0)"
      "same_sample h0 h'" "unat (frag_index h') = unat (frag_index h0) + length frs"
      "length frs = (length sample + unat b - 1) div unat b" "frs = (sized b sample h0, chunk b sample) # frs'"
    by blast
  have "receiveFragment b v (Some (sized b sample h0, chunk b sample)) r =
      receiveFragment b v (Some (sized b sample h0, chunk b sample)) (start_sample h0 r)"
    using receive_first [of "sized b sample h0" v r b "chunk b sample"] h0 h(6)
    by (simp add: sized_def start_sample_def)
  then have "receive_all b v frs r = Some (losts, r', [sample])" using out(2) by (simp add: out(9))
  moreover have "transmitSample collect b (Some sample) w s = Some (frag_index h', w\<lparr>w_buffer := Some h'\<rparr>, s @ frs)"
    using assms(3,4) h(1,5) out(1) by (simp add: transmitSample_def h0_def [symmetric])
  moreover have "in_sync b v (w\<lparr>w_buffer := Some h'\<rparr>) r'"
    using out(4-6) h(5) h0(1,2) by (simp add: in_sync_def same_sample_def current_number_def)
  ultimately show ?thesis using out(3,7,8) h0(4) by (intro exI conjI) auto
qed

lemma all_samples:
  assumes "in_sync b v w r" "0 < unat b" "\<forall>x \<in> set samples. x \<noteq> [] \<and> length x \<le> unat (b * 65535)"
  shows "\<exists>ns w' frs losts r'. transmit_all b samples w s = Some (ns, w', s @ frs) \<and>
    receive_all b v frs r = Some (losts, r', samples) \<and> set losts \<subseteq> {0} \<and> in_sync b v w' r' \<and>
    map unat ns = map (\<lambda>x. (length x + unat b - 1) div unat b) samples"
  using assms(1,3)
proof (induction samples arbitrary: w r s)
  case (Cons x xs)
  obtain n w1 frs1 losts1 r1 where 1: "transmitSample collect b (Some x) w s = Some (n, w1, s @ frs1)"
      "receive_all b v frs1 r = Some (losts1, r1, [x])" "set losts1 \<subseteq> {0}" "in_sync b v w1 r1"
      "unat n = (length x + unat b - 1) div unat b"
    using one_sample [OF Cons.prems(1) assms(2)] Cons.prems(2) by (metis list.set_intros(1))
  obtain ns w2 frs2 losts2 r2 where 2: "transmit_all b xs w1 (s @ frs1) = Some (ns, w2, (s @ frs1) @ frs2)"
      "receive_all b v frs2 r1 = Some (losts2, r2, xs)" "set losts2 \<subseteq> {0}" "in_sync b v w2 r2"
      "map unat ns = map (\<lambda>x. (length x + unat b - 1) div unat b) xs"
    using Cons.IH [OF 1(4)] Cons.prems(2) by (metis list.set_intros(2))
  show ?case
    using 1 2 receive_all_append [OF 1(2) 2(2)]
    by (intro exI [of _ "n # ns"] exI [of _ w2] exI [of _ "frs1 @ frs2"] exI [of _ "losts1 @ losts2"] exI [of _ r2])
      simp
qed simp

section \<open>Properties\<close>

text \<open>
  C7: Over a transport that delivers every fragment in order, a fresh writer and a fresh reader hand over
  every sample sent, unchanged, once and in order, however long it is (up to the writer's maximum) and
  however many are sent: the 16-bit sample number and the 16-bit index may wrap. No loss is reported, and
  each transmission returns the number of fragments its sample needs.
\<close>

theorem samples_delivered_in_order:
  assumes "0 < unat b" "\<forall>x \<in> set samples. x \<noteq> [] \<and> length x \<le> unat (b * 65535)"
  shows "\<exists>ns w' frs losts r'.
    transmit_all b samples (setBuffer v (Some mem) (new_writer b sender)) [] = Some (ns, w', frs) \<and>
    receive_all b v frs (new_reader b) = Some (losts, r', samples) \<and> set losts \<subseteq> {0} \<and>
    map unat ns = map (\<lambda>x. (length x + unat b - 1) div unat b) samples"
  using all_samples [OF in_sync_start assms, of v mem sender "[]"] by auto

definition some_header :: Fragment where
  "some_header = \<lparr>magic = 7, version = 7, sender_id = 7, sample_number = 7, sample_size = 7, frag_size = 7,
     frag_index = 7\<rparr>"

theorem samples_delivered_in_order_witness:
  "\<exists>ns w' frs losts r'.
    transmit_all 2 [[1, 2, 3], [4]] (setBuffer 1 (Some some_header) (new_writer 2 99)) [] = Some (ns, w', frs) \<and>
    receive_all 2 1 frs (new_reader 2) = Some (losts, r', [[1, 2, 3], [4]]) \<and> map unat ns = [2, 1]"
proof -
  have p: "0 < unat (2 :: 32 word)" "\<forall>x \<in> set [[1, 2, 3], [4 :: byte]]. x \<noteq> [] \<and> length x \<le> unat (2 * 65535 :: 32 word)"
    and c: "map (\<lambda>x. (length x + unat (2 :: 32 word) - 1) div unat (2 :: 32 word)) [[1, 2, 3], [4 :: byte]] = [2, 1]"
    by simp_all
  show ?thesis
    using samples_delivered_in_order [OF p, of 1 some_header 99] unfolding c
    by (elim exE conjE) (intro exI conjI; assumption)
qed

text \<open>
  After a complete sample the reader reports no loss whatever comes next: \<open>receiveFragment\<close> is 0 for
  every fragment received while no sample is under way, so samples that are lost as a whole are never
  counted.
\<close>

theorem whole_samples_lost_unnoticed:
  assumes "r_remaining_sample_size r = 0" "receiveFragment b v packet r = Some (lost, r', out)"
  shows "lost = 0"
  using assms by (auto simp: receiveFragment_def lost_samples_def bind_eq_Some_conv split: option.splits
      prod.splits if_splits)

theorem whole_samples_lost_unnoticed_witness:
  "let f = (\<lambda>n. (some_header\<lparr>magic := fragment_magic, sample_number := n, sample_size := 1, frag_size := 1,
             frag_index := 0\<rparr>, [5]));
       r = fst (snd (the (receiveFragment 2 7 (Some (f 1)) (new_reader 2))))
   in r_remaining_sample_size r = 0 \<and> current_number r 7 = 1 \<and>
      (\<forall>lost r' out. receiveFragment 2 7 (Some (f 100)) r = Some (lost, r', out) \<longrightarrow> lost = 0) \<and>
      receiveFragment 2 7 (Some (f 100)) r \<noteq> None"
proof -
  define f where "f = (\<lambda>n. (some_header\<lparr>magic := fragment_magic, sample_number := n, sample_size := 1,
    frag_size := 1, frag_index := 0\<rparr>, [5 :: byte]))"
  define r where "r = fst (snd (the (receiveFragment 2 7 (Some (f 1)) (new_reader 2))))"
  have "r_remaining_sample_size r = 0 \<and> current_number r 7 = 1 \<and> receiveFragment 2 7 (Some (f 100)) r \<noteq> None"
    by (simp add: r_def f_def some_header_def receiveFragment_def new_reader_def current_number_def
        take_fragment_def start_sample_def resize_buffer_def lost_samples_def Let_def)
  then show ?thesis
    using whole_samples_lost_unnoticed unfolding Let_def f_def [symmetric] r_def [symmetric] by blast
qed

definition part :: "64 word \<Rightarrow> 16 word \<Rightarrow> byte list \<Rightarrow> fragment" where
  "part sender i payload =
     (some_header\<lparr>magic := fragment_magic, sender_id := sender, sample_number := 1, sample_size := 4,
        frag_size := 2, frag_index := i\<rparr>, payload)"

text \<open>
  The buffer and the count of missing bytes belong to the reader and not to a sender. When the
  fragments of two senders interleave, the reader hands the sample of one sender over twice, the second time as
  the sample of the other, and a repeated last fragment hands a sample over again.
\<close>

theorem interleaved_senders_mixed_up:
  "map_option (snd \<circ> snd) (receive_all 2 7
     [part 10 0 [1, 2], part 20 0 [9, 8], part 20 1 [7, 6], part 10 1 [3, 4]] (new_reader 2)) =
     Some [[9, 8, 7, 6], [9, 8, 7, 6]] \<and>
   map_option (snd \<circ> snd) (receive_all 2 7
     [part 10 0 [1, 2], part 10 1 [3, 4], part 10 1 [3, 4]] (new_reader 2)) =
     Some [[1, 2, 3, 4], [1, 2, 3, 4]]"
  by (simp add: part_def some_header_def receiveFragment_def new_reader_def current_number_def
      take_fragment_def start_sample_def resize_buffer_def lost_samples_def Let_def)

text \<open>
  The size field of a fragment is not compared with the size of the packet: a packet that announces
  more payload than it carries (and no more than its sample has) makes the reader read beyond its end.
\<close>

theorem short_packet_overread:
  assumes "magic h = fragment_magic" "version h = v" "sample_number h \<noteq> current_number r (sender_id h)"
    and "frag_index h = 0" "frag_size h \<le> sample_size h" "length payload < unat (frag_size h)"
  shows "receiveFragment b v (Some (h, payload)) r = None"
proof -
  have size: "unat (frag_size h) \<le> unat (sample_size h)" using assms(5) by (simp add: word_le_nat_alt)
  then have "sample_size h \<noteq> 0" using assms(6) by auto
  then show ?thesis
    using assms size by (simp add: receiveFragment_def take_fragment_def start_sample_def Let_def)
qed

theorem short_packet_overread_witness:
  "receiveFragment 1000 7 (Some (some_header\<lparr>magic := fragment_magic, sample_size := 1000, frag_size := 1000,
     frag_index := 0\<rparr>, [1])) (new_reader 1000) = None"
  by (rule short_packet_overread) (simp_all add: some_header_def new_reader_def current_number_def)

end
