(* ===== verification/Timing_Task.thy ===== *)
theory Timing_Task
  imports Wire_Format
begin

text \<open>
  \<open>Task\<close>, the execution unit of a step listener: \<open>src/fep3/components/legacy/timing/
  locked_step_legacy/task.{h,cpp}\<close>.

  The worker thread is a program counter and one function for its next action; whatever it learns from
  outside (the validity of the step's inputs, the time the callback took, the success of a transmission)
  is an argument. The two semaphores of the library \<open>a_util\<close> are flags that \<open>notify\<close> sets, \<open>reset\<close> and a
  successful \<open>wait\<close> clear and \<open>is_set\<close> reads. Calls of the data access, the incident handler and the
  state machine, and the acknowledgements sent, are outputs.
\<close>

section \<open>Configuration and state\<close>

datatype TimeViolationStrategy =
    TS_UNKNOWN | TS_IGNORE_RUNTIME_VIOLATION | TS_WARN_ABOUT_RUNTIME_VIOLATION | TS_SKIP_OUTPUT_PUBLISH
  | TS_SET_STM_TO_ERROR

text \<open>Inputs and outputs: their names and signal handles, in the order of the map.\<close>

record StepConfig =
  m_cycleTime_sim_us :: timestamp_t
  m_maxRuntime_us :: timestamp_t
  m_maxInputWaittime_us :: timestamp_t
  m_runtimeViolationStrategy :: TimeViolationStrategy
  m_inputs :: "(string \<times> nat) list"
  m_outputs :: "(string \<times> nat) list"

text \<open>Where the worker thread stands.\<close>

datatype task_pc =
    NotStarted
  | LoopHead
  | AtBarrier
  | Woken
  | Locked
  | Validating timestamp_t
  | Computing timestamp_t
  | Acking timestamp_t timestamp_t
  | Ended

record task =
  m_name :: string
  m_uuid :: string
  m_cycle :: timestamp_t
  m_operational :: timestamp_t
  m_time_violation_strategy :: TimeViolationStrategy
  m_wait_time_for_inputs :: timestamp_t
  m_callback :: bool
  m_current_simulation_time :: timestamp_t
  m_barrier :: bool
  m_thread_shutdown_semaphore :: bool
  m_pc :: task_pc

datatype task_event =
    Compute timestamp_t
  | Ack "byte list"
  | AckFailed
  | TriggerViolation
  | RuntimeViolation
  | SetSkip
  | TaskErrorEvent

definition Task :: "string \<Rightarrow> string \<Rightarrow> task" where
  "Task name uuid =
     \<lparr>m_name = name, m_uuid = uuid, m_cycle = 0, m_operational = 0, m_time_violation_strategy = TS_UNKNOWN,
      m_wait_time_for_inputs = 0, m_callback = False, m_current_simulation_time = 0, m_barrier = False,
      m_thread_shutdown_semaphore = False, m_pc = NotStarted\<rparr>"

section \<open>Operations\<close>

text \<open>The loops over inputs and outputs stop at the first failure of the data access \<open>config\<close>.\<close>

fun configure_each :: "(string \<times> nat \<Rightarrow> fep_result) \<Rightarrow> (string \<times> nat) list \<Rightarrow> fep_result" where
  "configure_each config [] = ERR_NOERROR"
| "configure_each config (x # xs) = (if isFailed (config x) then config x else configure_each config xs)"

definition task_configure ::
    "(string \<times> nat \<Rightarrow> fep_result) \<Rightarrow> (string \<times> nat \<Rightarrow> fep_result) \<Rightarrow> StepConfig \<Rightarrow> task \<Rightarrow> fep_result \<times> task" where
  "task_configure ConfigureInput ConfigureOutput step_config t =
     (if m_cycleTime_sim_us step_config \<le> 0 \<or> m_maxInputWaittime_us step_config < 0 \<or>
         m_maxRuntime_us step_config < 0 \<or> m_runtimeViolationStrategy step_config = TS_UNKNOWN
      then (ERR_INVALID_ARG, t)
      else
        let t = t\<lparr>m_cycle := m_cycleTime_sim_us step_config, m_operational := m_maxRuntime_us step_config,
                  m_wait_time_for_inputs := m_maxInputWaittime_us step_config,
                  m_time_violation_strategy := m_runtimeViolationStrategy step_config\<rparr>;
            r = configure_each ConfigureInput (m_inputs step_config);
            r = (if isOk r then configure_each ConfigureOutput (m_outputs step_config) else r)
        in (r, t))"

definition isTaskWorking :: "task \<Rightarrow> bool" where
  "isTaskWorking t = (case m_pc t of Locked \<Rightarrow> True | Validating _ \<Rightarrow> True | Computing _ \<Rightarrow> True | _ \<Rightarrow> False)"

definition applyTriggerViolation :: "task \<Rightarrow> task \<times> task_event list" where
  "applyTriggerViolation t =
     (case m_time_violation_strategy t of
        TS_IGNORE_RUNTIME_VIOLATION \<Rightarrow> (t, [])
      | TS_WARN_ABOUT_RUNTIME_VIOLATION \<Rightarrow> (t, [TriggerViolation])
      | TS_SKIP_OUTPUT_PUBLISH \<Rightarrow> (t, [TriggerViolation, SetSkip])
      | TS_SET_STM_TO_ERROR \<Rightarrow>
          (t\<lparr>m_thread_shutdown_semaphore := True\<rparr>, [TriggerViolation, SetSkip, TaskErrorEvent])
      | TS_UNKNOWN \<Rightarrow> (t, []))"

definition applyTimeViolationStrat :: "task \<Rightarrow> fep_result \<times> task \<times> task_event list" where
  "applyTimeViolationStrat t =
     (case m_time_violation_strategy t of
        TS_IGNORE_RUNTIME_VIOLATION \<Rightarrow> (ERR_NOERROR, t, [])
      | TS_WARN_ABOUT_RUNTIME_VIOLATION \<Rightarrow> (ERR_NOERROR, t, [RuntimeViolation])
      | TS_SKIP_OUTPUT_PUBLISH \<Rightarrow> (ERR_NOERROR, t, [RuntimeViolation, SetSkip])
      | TS_SET_STM_TO_ERROR \<Rightarrow>
          (ERR_CANCELLED, t\<lparr>m_thread_shutdown_semaphore := True\<rparr>, [RuntimeViolation, SetSkip, TaskErrorEvent])
      | TS_UNKNOWN \<Rightarrow> (ERR_NOERROR, t, []))"

text \<open>The remainder by a cycle of 0 is undefined.\<close>

definition simTimeProgress :: "timestamp_t \<Rightarrow> timestamp_t \<Rightarrow> task \<Rightarrow> (task \<times> task_event list) option" where
  "simTimeProgress time_progress_sum curr_sim_time t =
     (if m_cycle t = 0 then None
      else
        let t = t\<lparr>m_current_simulation_time := curr_sim_time\<rparr>
        in if time_progress_sum smod m_cycle t = 0 then
             let (t, es) = (if isTaskWorking t then applyTriggerViolation t else (t, []))
             in Some (t\<lparr>m_barrier := True\<rparr>, es)
           else Some (t, []))"

definition setScheduleFunc :: "bool \<Rightarrow> bool \<Rightarrow> task \<Rightarrow> fep_result \<times> task" where
  "setScheduleFunc callback_given callee_given t =
     (if callback_given \<and> callee_given then (ERR_NOERROR, t\<lparr>m_callback := True\<rparr>) else (ERR_FAILED, t))"

definition task_create :: "task \<Rightarrow> task" where
  "task_create t = t\<lparr>m_thread_shutdown_semaphore := False, m_barrier := False, m_pc := LoopHead\<rparr>"

text \<open>
  \<open>destroy\<close> up to \<open>join\<close>, and what it does once the thread has ended (or if there is none).
\<close>

definition task_destroy :: "task \<Rightarrow> task" where
  "task_destroy t = t\<lparr>m_thread_shutdown_semaphore := True, m_barrier := True\<rparr>"

definition task_joined :: "task \<Rightarrow> task option" where
  "task_joined t = (if m_pc t = Ended \<or> m_pc t = NotStarted then Some (t\<lparr>m_pc := NotStarted\<rparr>) else None)"

text \<open>The characters of a uuid as bytes.\<close>

definition chars :: "string \<Rightarrow> byte list" where
  "chars s = map (\<lambda>c. word_of_nat (of_char c)) s"

definition sendAcknowledgement ::
    "machine \<Rightarrow> timestamp_t \<Rightarrow> timestamp_t \<Rightarrow> bool \<Rightarrow> task \<Rightarrow> fep_result \<times> task_event list" where
  "sendAcknowledgement mach used_time sim_time_for_this_step transmitted t =
     (if length (m_uuid t) \<noteq> 36 then (ERR_UNEXPECTED, [])
      else
        let ack = convertTriggerAckToNetworkByteorder mach
              \<lparr>uuid_str = chars (m_uuid t), operationalTime = word_of_int used_time,
               currSimTime = word_of_int sim_time_for_this_step\<rparr>
        in if transmitted then (ERR_NOERROR, [Ack (ack_bytes mach ack)]) else (ERR_FAILED, []))"

record task_input =
  inputs_valid :: bool
  measured_time :: timestamp_t
  transmit_ok :: bool

text \<open>
  The next action of \<open>ThreadFunc\<close>: from the head of the loop to \<open>m_barrier.wait()\<close>, its return, the lock
  of \<open>m_task_working_mutex\<close>, reading the time and looking at the shutdown semaphore, the end of \<open>ValidateInputs\<close> with its
  result, the callback with the check of its run time and the unlock, and the acknowledgement. A \<open>destroy\<close> can come between
  any two of them. \<open>None\<close>: a call through a null callback.
\<close>

definition thread_step :: "machine \<Rightarrow> task_input \<Rightarrow> task \<Rightarrow> (task \<times> task_event list) option" where
  "thread_step mach i t =
     (case m_pc t of
        NotStarted \<Rightarrow> Some (t, [])
      | LoopHead \<Rightarrow> Some (t\<lparr>m_pc := if m_thread_shutdown_semaphore t then Ended else AtBarrier\<rparr>, [])
      | AtBarrier \<Rightarrow> Some (if m_barrier t then t\<lparr>m_barrier := False, m_pc := Woken\<rparr> else t, [])
      | Woken \<Rightarrow> Some (t\<lparr>m_pc := Locked\<rparr>, [])
      | Locked \<Rightarrow>
          Some (t\<lparr>m_pc := if m_thread_shutdown_semaphore t then LoopHead else Validating (m_current_simulation_time t)\<rparr>, [])
      | Validating sim_time \<Rightarrow> Some (t\<lparr>m_pc := if inputs_valid i then Computing sim_time else LoopHead\<rparr>, [])
      | Computing sim_time \<Rightarrow>
          (if \<not> m_callback t then None
           else
             let (r, t, es) = (if m_operational t \<noteq> 0 \<and> measured_time i > m_operational t
                               then applyTimeViolationStrat t else (ERR_NOERROR, t, []))
             in Some (t\<lparr>m_pc := if isOk r then Acking (measured_time i) sim_time else LoopHead\<rparr>,
                      Compute sim_time # es))
      | Acking used_time sim_time \<Rightarrow>
          let (r, es) = sendAcknowledgement mach used_time sim_time (transmit_ok i) t
          in Some (t\<lparr>m_pc := LoopHead\<rparr>, es @ (if isFailed r then [AckFailed] else []))
      | Ended \<Rightarrow> Some (t, []))"

fun thread_steps :: "machine \<Rightarrow> task_input list \<Rightarrow> task \<Rightarrow> (task \<times> task_event list) option" where
  "thread_steps mach [] t = Some (t, [])"
| "thread_steps mach (i # is) t =
     (case thread_step mach i t of
        None \<Rightarrow> None
      | Some (t, es) \<Rightarrow>
          (case thread_steps mach is t of None \<Rightarrow> None | Some (t, es') \<Rightarrow> Some (t, es @ es')))"

section \<open>Between two steps\<close>

text \<open>
  A task owes a step from the notification of its barrier until its acknowledgement is out, or the step
  has been given up.
\<close>

definition busy_pc :: "task_pc \<Rightarrow> bool" where
  "busy_pc pc = (case pc of Woken \<Rightarrow> True | Locked \<Rightarrow> True | Validating _ \<Rightarrow> True | Computing _ \<Rightarrow> True | Acking _ _ \<Rightarrow> True | _ \<Rightarrow> False)"

definition active :: "task \<Rightarrow> bool" where
  "active t \<longleftrightarrow> m_barrier t \<or> busy_pc (m_pc t)"

lemma isTaskWorking_busy: "isTaskWorking t \<Longrightarrow> busy_pc (m_pc t)"
  by (simp add: isTaskWorking_def busy_pc_def split: task_pc.splits)

definition same_task :: "task \<Rightarrow> task \<Rightarrow> bool" where
  "same_task t t' \<longleftrightarrow> m_name t' = m_name t \<and> m_uuid t' = m_uuid t \<and> m_cycle t' = m_cycle t \<and>
     m_operational t' = m_operational t \<and> m_time_violation_strategy t' = m_time_violation_strategy t \<and>
     m_callback t' = m_callback t"

lemma same_task_refl [simp]: "same_task t t"
  by (simp add: same_task_def)

lemma violation_effect:
  "same_task t (fst (applyTriggerViolation t)) \<and> m_pc (fst (applyTriggerViolation t)) = m_pc t \<and>
   m_barrier (fst (applyTriggerViolation t)) = m_barrier t"
  by (simp add: applyTriggerViolation_def same_task_def split: TimeViolationStrategy.splits)

lemma time_violation_effect:
  "same_task t (fst (snd (applyTimeViolationStrat t))) \<and>
   m_pc (fst (snd (applyTimeViolationStrat t))) = m_pc t \<and>
   m_barrier (fst (snd (applyTimeViolationStrat t))) = m_barrier t \<and>
   m_current_simulation_time (fst (snd (applyTimeViolationStrat t))) = m_current_simulation_time t \<and>
   (\<forall>e \<in> set (snd (snd (applyTimeViolationStrat t))). e \<in> {RuntimeViolation, SetSkip, TaskErrorEvent})"
  by (simp add: applyTimeViolationStrat_def same_task_def split: TimeViolationStrategy.splits)

text \<open>A task that is not active is woken by exactly the ticks of its cycle, without a violation.\<close>

lemma simTimeProgress_idle:
  assumes "\<not> active t" "0 < m_cycle t" "0 \<le> s"
  shows "simTimeProgress s c t =
    Some (t\<lparr>m_current_simulation_time := c, m_barrier := (m_cycle t dvd s)\<rparr>, [])"
proof -
  have "\<not> isTaskWorking (t\<lparr>m_current_simulation_time := c\<rparr>)" "\<not> m_barrier t"
    using assms(1) isTaskWorking_busy by (auto simp: active_def isTaskWorking_def)
  then show ?thesis
    using assms(2,3) by (auto simp: simTimeProgress_def Let_def dvd_eq_mod_eq_0 smod_eq_mod)
qed

section \<open>Properties\<close>

text \<open>A worker that has been told to stop: how many actions of its thread are left, and what it still computes.\<close>

fun steps_left :: "task_pc \<Rightarrow> nat" where
  "steps_left NotStarted = 0"
| "steps_left Ended = 0"
| "steps_left LoopHead = 1"
| "steps_left AtBarrier = 4"
| "steps_left Woken = 3"
| "steps_left Locked = 2"
| "steps_left (Validating _) = 4"
| "steps_left (Computing _) = 3"
| "steps_left (Acking _ _) = 2"

definition last_computation :: "task_pc \<Rightarrow> task_input list \<Rightarrow> timestamp_t list" where
  "last_computation pc is =
     (case pc of
        Validating s \<Rightarrow> (if 2 \<le> length is \<and> inputs_valid (is ! 0) then [s] else [])
      | Computing s \<Rightarrow> (if is = [] then [] else [s])
      | _ \<Rightarrow> [])"

definition stopping :: "task \<Rightarrow> bool" where
  "stopping t \<longleftrightarrow> m_thread_shutdown_semaphore t \<and> m_callback t \<and> (m_pc t = AtBarrier \<longrightarrow> m_barrier t) \<and>
     m_pc t \<noteq> NotStarted"

definition computes :: "task_event list \<Rightarrow> timestamp_t list" where
  "computes es = concat (map (\<lambda>e. case e of Compute s \<Rightarrow> [s] | _ \<Rightarrow> []) es)"

lemma computes_simps [simp]:
  "computes [] = []"
  "computes (Compute s # es) = s # computes es"
  "computes (Ack b # es) = computes es"
  "computes (AckFailed # es) = computes es"
  "computes (es @ es') = computes es @ computes es'"
  by (simp_all add: computes_def)

lemma computes_acknowledgement [simp]:
  "sendAcknowledgement mach u s ok t = (r, es) \<Longrightarrow> computes es = []"
  by (auto simp: sendAcknowledgement_def Let_def computes_def split: if_splits)

lemma computes_violation [simp]:
  "applyTimeViolationStrat t = (r, t', es) \<Longrightarrow> computes es = []"
  by (auto simp: applyTimeViolationStrat_def computes_def split: TimeViolationStrategy.splits)

lemma stopping_step:
  assumes "stopping t"
  shows "\<exists>t' es. thread_step mach i t = Some (t', es) \<and> stopping t' \<and>
     steps_left (m_pc t') \<le> steps_left (m_pc t) - 1 \<and>
     last_computation (m_pc t) (i # is) = computes es @ last_computation (m_pc t') is"
proof (cases "m_pc t")
  case (Computing s)
  obtain r t' es where v: "applyTimeViolationStrat t = (r, t', es)"
    using prod_cases3 by blast
  have "same_task t t'" "m_thread_shutdown_semaphore t'"
    using v assms by (auto simp: applyTimeViolationStrat_def same_task_def stopping_def
        split: TimeViolationStrategy.splits)
  with Computing v assms show ?thesis
    by (auto simp: thread_step_def stopping_def same_task_def last_computation_def split: if_splits)
next
  case (Acking u s)
  obtain r es where "sendAcknowledgement mach u s (transmit_ok i) t = (r, es)"
    by fastforce
  with Acking assms show ?thesis
    by (auto simp: thread_step_def stopping_def computes_def last_computation_def dest: computes_acknowledgement)
next
  case (Validating s)
  then show ?thesis using assms by (cases "is") (auto simp: thread_step_def stopping_def last_computation_def)
qed (use assms in \<open>auto simp: thread_step_def stopping_def last_computation_def\<close>)

lemma stopping_steps:
  assumes "stopping t"
  shows "\<exists>t' es. thread_steps mach is t = Some (t', es) \<and> stopping t' \<and>
     steps_left (m_pc t') \<le> steps_left (m_pc t) - length is \<and> computes es = last_computation (m_pc t) is"
  using assms
proof (induction "is" arbitrary: t)
  case Nil
  then show ?case by (simp add: last_computation_def split: task_pc.splits)
next
  case (Cons i "is")
  obtain t1 e1 where 1: "thread_step mach i t = Some (t1, e1)" "stopping t1"
      "steps_left (m_pc t1) \<le> steps_left (m_pc t) - 1"
      "last_computation (m_pc t) (i # is) = computes e1 @ last_computation (m_pc t1) is"
    using stopping_step [OF Cons.prems, of mach i "is"] by blast
  from Cons.IH [OF 1(2)] obtain t2 e2 where 2: "thread_steps mach is t1 = Some (t2, e2)" "stopping t2"
      "steps_left (m_pc t2) \<le> steps_left (m_pc t1) - length is" "computes e2 = last_computation (m_pc t1) is"
    by blast
  then show ?case
    using 1 by (auto simp: le_diff_conv)
qed

lemma stopping_ended: "stopping t \<Longrightarrow> steps_left (m_pc t) = 0 \<Longrightarrow> m_pc t = Ended"
  by (cases "m_pc t") (auto simp: stopping_def)

text \<open>
  C38: \<open>destroy\<close> always returns: wherever the worker thread of a registered task stands, once the shutdown
  semaphore and the barrier have been notified it ends within four of its actions (the computation and the validation of
  the inputs, which return, are one each), so \<open>join\<close> succeeds. It begins no further step: it computes only the step that it
  is computing already, or the one whose inputs it is validating, if they are valid.
\<close>

theorem destroy_ends_worker:
  assumes "m_callback t" "m_pc t \<noteq> NotStarted" "4 \<le> length is"
  shows "\<exists>t' es. thread_steps mach is (task_destroy t) = Some (t', es) \<and> m_pc t' = Ended \<and>
     (\<exists>t''. task_joined t' = Some t'' \<and> m_pc t'' = NotStarted) \<and>
     computes es = (case m_pc t of
         Computing s \<Rightarrow> [s]
       | Validating s \<Rightarrow> if inputs_valid (hd is) then [s] else []
       | _ \<Rightarrow> [])"
proof -
  have stop: "stopping (task_destroy t)" and pc: "m_pc (task_destroy t) = m_pc t"
    using assms by (auto simp: stopping_def task_destroy_def)
  from stopping_steps [OF stop, of mach "is"] obtain t' es where
    *: "thread_steps mach is (task_destroy t) = Some (t', es)" "stopping t'"
      "steps_left (m_pc t') \<le> steps_left (m_pc t) - length is" "computes es = last_computation (m_pc t) is"
    unfolding pc by blast
  have "steps_left (m_pc t) \<le> 4" by (cases "m_pc t") auto
  with *(2,3) assms(3) have "m_pc t' = Ended"
    by (intro stopping_ended) auto
  moreover have "is \<noteq> []" using assms(3) by auto
  ultimately show ?thesis
    using * assms(3) by (auto simp: task_joined_def last_computation_def hd_conv_nth split: task_pc.splits)
qed

definition demo_task :: task where
  "demo_task = task_create ((Task ''step'' (replicate 36 CHR ''a''))
     \<lparr>m_cycle := 10, m_operational := 5, m_time_violation_strategy := TS_SET_STM_TO_ERROR, m_callback := True\<rparr>)"

definition demo_input :: task_input where
  "demo_input = \<lparr>inputs_valid = True, measured_time = 3, transmit_ok = True\<rparr>"

theorem destroy_ends_worker_witness:
  "\<exists>t' es. thread_steps LittleEndian (replicate 4 demo_input) (task_destroy (demo_task\<lparr>m_pc := Validating 20\<rparr>)) =
      Some (t', es) \<and> m_pc t' = Ended \<and> computes es = [20]"
  using destroy_ends_worker [of "demo_task\<lparr>m_pc := Validating 20\<rparr>" "replicate 4 demo_input" LittleEndian]
  by (auto simp: demo_task_def task_create_def demo_input_def)

text \<open>
  A trigger that arrives before the worker has picked up the previous one is lost without a trace: the
  two notifications of the barrier merge, one computation runs, at the time of the second trigger, one
  acknowledgement is sent, and no violation strategy is applied, not even the one that is to set the
  participant into the error state.
\<close>

theorem pending_trigger_is_lost:
  assumes "m_pc t = AtBarrier" "\<not> m_barrier t" "\<not> m_thread_shutdown_semaphore t" "m_callback t"
    and "0 < m_cycle t" "0 \<le> s" "0 \<le> s'" "m_cycle t dvd s" "m_cycle t dvd s'"
    and "length (m_uuid t) = 36" "measured_time i \<le> m_operational t" "inputs_valid i" "transmit_ok i"
  shows "\<exists>t1 t2 t3 ack. simTimeProgress s now t = Some (t1, []) \<and> simTimeProgress s' now' t1 = Some (t2, []) \<and>
     thread_steps mach (replicate 7 i) t2 = Some (t3, [Compute now', Ack ack]) \<and>
     m_pc t3 = AtBarrier \<and> \<not> m_barrier t3"
proof -
  have 1: "simTimeProgress s now t = Some (t\<lparr>m_current_simulation_time := now, m_barrier := True\<rparr>, [])"
    using assms(1,5,6,8)
    by (simp add: simTimeProgress_def smod_eq_mod isTaskWorking_def Let_def)
  have 2: "simTimeProgress s' now' (t\<lparr>m_current_simulation_time := now, m_barrier := True\<rparr>) =
      Some (t\<lparr>m_current_simulation_time := now', m_barrier := True\<rparr>, [])"
    using assms(1,5,7,9)
    by (simp add: simTimeProgress_def smod_eq_mod isTaskWorking_def Let_def)
  have "\<exists>t3 ack. thread_steps mach (replicate 7 i) (t\<lparr>m_current_simulation_time := now', m_barrier := True\<rparr>) =
      Some (t3, [Compute now', Ack ack]) \<and> m_pc t3 = AtBarrier \<and> \<not> m_barrier t3"
    using assms(1,3,4,10-13)
    by (simp add: eval_nat_numeral thread_step_def sendAcknowledgement_def Let_def)
  with 1 2 show ?thesis by blast
qed

theorem pending_trigger_is_lost_witness:
  "\<exists>t1 t2 t3 ack. simTimeProgress 10 10 (demo_task\<lparr>m_pc := AtBarrier\<rparr>) = Some (t1, []) \<and>
     simTimeProgress 20 20 t1 = Some (t2, []) \<and>
     thread_steps LittleEndian (replicate 7 demo_input) t2 = Some (t3, [Compute 20, Ack ack]) \<and>
     m_time_violation_strategy t1 = TS_SET_STM_TO_ERROR"
proof -
  have "m_time_violation_strategy t1 = TS_SET_STM_TO_ERROR"
    if "simTimeProgress 10 10 (demo_task\<lparr>m_pc := AtBarrier\<rparr>) = Some (t1, [])" for t1
    using that
    by (auto simp: simTimeProgress_def Let_def isTaskWorking_def demo_task_def task_create_def split: if_splits)
  then show ?thesis
    using pending_trigger_is_lost [of "demo_task\<lparr>m_pc := AtBarrier\<rparr>" 10 20 demo_input 10 20 LittleEndian]
    by (fastforce simp: demo_task_def task_create_def demo_input_def Task_def)
qed

end
