(* ===== verification/Std_Map.thy ===== *)
theory Std_Map
  imports Fep_Prelude "HOL-Library.List_Lexorder" "HOL-Library.Char_ord"
begin

text \<open>
  \<open>std::map\<close> and \<open>std::set\<close> as the timing components use them: an association list in ascending key
  order, which is also the iteration order. \<open>insert\<close> keeps an entry that is already there (as the C++
  member function does), \<open>operator[]\<close> overwrites it, \<open>erase\<close> removes it and \<open>find\<close> is the lookup.

  The locale \<open>std_container\<close> is the interface the clients (schedule items, the set of schedule
  configurations of the timing master, the task map of a timing client) rely on; its laws are
  discharged for the association lists at the end of the theory.
\<close>

section \<open>The interface\<close>

locale std_container =
  fixes invar :: "'m \<Rightarrow> bool"
    and empty :: 'm
    and lookup :: "'m \<Rightarrow> 'k \<Rightarrow> 'v option"
    and insert :: "'k \<Rightarrow> 'v \<Rightarrow> 'm \<Rightarrow> 'm"
    and assign :: "'k \<Rightarrow> 'v \<Rightarrow> 'm \<Rightarrow> 'm"
    and erase :: "'k \<Rightarrow> 'm \<Rightarrow> 'm"
  assumes invar_empty: "invar empty"
    and invar_insert: "invar m \<Longrightarrow> invar (insert k v m)"
    and invar_assign: "invar m \<Longrightarrow> invar (assign k v m)"
    and invar_erase: "invar m \<Longrightarrow> invar (erase k m)"
    and lookup_empty: "lookup empty k = None"
    and lookup_insert:
      "invar m \<Longrightarrow> lookup (insert k v m) k' =
         (if k' = k \<and> lookup m k = None then Some v else lookup m k')"
    and lookup_assign: "invar m \<Longrightarrow> lookup (assign k v m) k' = (if k' = k then Some v else lookup m k')"
    and lookup_erase: "invar m \<Longrightarrow> lookup (erase k m) k' = (if k' = k then None else lookup m k')"
begin

text \<open>Inserting a sequence of entries: the entries already there win, then the first of a key.\<close>

lemma invar_insert_all: "invar m \<Longrightarrow> invar (fold (\<lambda>(k, v). insert k v) kvs m)"
  by (induction kvs arbitrary: m) (auto simp: invar_insert)

lemma lookup_insert_all:
  "invar m \<Longrightarrow> lookup (fold (\<lambda>(k, v). insert k v) kvs m) k =
     (case lookup m k of Some v \<Rightarrow> Some v | None \<Rightarrow> map_of kvs k)"
proof (induction kvs arbitrary: m)
  case Nil
  then show ?case by (simp split: option.split)
next
  case (Cons kv kvs)
  obtain k0 v0 where kv: "kv = (k0, v0)" by (cases kv)
  have "lookup (fold (\<lambda>(k, v). insert k v) kvs (insert k0 v0 m)) k =
      (case lookup (insert k0 v0 m) k of Some v \<Rightarrow> Some v | None \<Rightarrow> map_of kvs k)"
    by (rule Cons.IH) (simp add: invar_insert Cons.prems)
  then show ?case using Cons.prems
    by (auto simp: kv lookup_insert split: option.split)
qed

lemma lookup_insert_all_empty:
  "lookup (fold (\<lambda>(k, v). insert k v) kvs empty) k = map_of kvs k"
  by (simp add: lookup_insert_all invar_empty lookup_empty)

lemma insert_present_lookup:
  "invar m \<Longrightarrow> lookup m k = Some v \<Longrightarrow> lookup (insert k v' m) = lookup m"
  by (rule ext) (simp add: lookup_insert)

lemma erase_undoes_insert:
  "invar m \<Longrightarrow> lookup m k = None \<Longrightarrow> lookup (erase k (insert k v m)) = lookup m"
  by (rule ext) (simp add: lookup_erase lookup_insert invar_insert)

end

section \<open>Association lists in key order\<close>

type_synonym ('k, 'v) std_map = "('k \<times> 'v) list"

definition sm_wf :: "('k::linorder, 'v) std_map \<Rightarrow> bool" where
  "sm_wf m \<longleftrightarrow> sorted_wrt (<) (map fst m)"

fun sm_insert :: "'k::linorder \<Rightarrow> 'v \<Rightarrow> ('k, 'v) std_map \<Rightarrow> ('k, 'v) std_map" where
  "sm_insert k v [] = [(k, v)]"
| "sm_insert k v ((a, b) # m) =
     (if k < a then (k, v) # (a, b) # m
      else if k = a then (a, b) # m
      else (a, b) # sm_insert k v m)"

fun sm_assign :: "'k::linorder \<Rightarrow> 'v \<Rightarrow> ('k, 'v) std_map \<Rightarrow> ('k, 'v) std_map" where
  "sm_assign k v [] = [(k, v)]"
| "sm_assign k v ((a, b) # m) =
     (if k < a then (k, v) # (a, b) # m
      else if k = a then (a, v) # m
      else (a, b) # sm_assign k v m)"

fun sm_erase :: "'k::linorder \<Rightarrow> ('k, 'v) std_map \<Rightarrow> ('k, 'v) std_map" where
  "sm_erase k [] = []"
| "sm_erase k ((a, b) # m) = (if k = a then m else (a, b) # sm_erase k m)"

lemma sm_wf_Nil [simp]: "sm_wf []"
  by (simp add: sm_wf_def)

lemma sm_wf_Cons: "sm_wf ((a, b) # m) \<longleftrightarrow> (\<forall>k \<in> fst ` set m. a < k) \<and> sm_wf m"
  by (auto simp: sm_wf_def)

lemma sm_wf_distinct: "sm_wf m \<Longrightarrow> distinct (map fst m)"
  by (simp add: sm_wf_def strict_sorted_iff)

lemma sm_keys_insert: "fst ` set (sm_insert k v m) = insert k (fst ` set m)"
  by (induction k v m rule: sm_insert.induct) auto

lemma sm_keys_assign: "fst ` set (sm_assign k v m) = insert k (fst ` set m)"
  by (induction k v m rule: sm_assign.induct) auto

lemma sm_set_erase: "set (sm_erase k m) \<subseteq> set m"
  by (induction k m rule: sm_erase.induct) auto

lemma sm_keys_erase: "fst ` set (sm_erase k m) \<subseteq> fst ` set m"
  using sm_set_erase [of k m] by auto

lemma sm_wf_insert [simp]: "sm_wf m \<Longrightarrow> sm_wf (sm_insert k v m)"
proof (induction k v m rule: sm_insert.induct)
  case (2 k v a b m)
  then show ?case using sm_keys_insert [of k v m] by (auto simp: sm_wf_Cons)
qed (simp add: sm_wf_Cons)

lemma sm_wf_assign [simp]: "sm_wf m \<Longrightarrow> sm_wf (sm_assign k v m)"
proof (induction k v m rule: sm_assign.induct)
  case (2 k v a b m)
  then show ?case using sm_keys_assign [of k v m] by (auto simp: sm_wf_Cons)
qed (simp add: sm_wf_Cons)

lemma sm_wf_erase [simp]: "sm_wf m \<Longrightarrow> sm_wf (sm_erase k m)"
proof (induction k m rule: sm_erase.induct)
  case (2 k a b m)
  then show ?case using sm_set_erase [of k m] by (auto simp: sm_wf_Cons dest!: subsetD)
qed simp

lemma map_of_less_None: "\<forall>a \<in> fst ` set m. (k::'k::linorder) < a \<Longrightarrow> map_of m k = None"
  by (metis (no_types, lifting) less_irrefl map_of_eq_None_iff)

lemma map_of_sm_insert:
  "sm_wf m \<Longrightarrow> map_of (sm_insert k v m) k' =
     (if k' = k \<and> map_of m k = None then Some v else map_of m k')"
proof (induction k v m rule: sm_insert.induct)
  case (2 k v a b m)
  show ?case
  proof (cases "k < a")
    case True
    then have "map_of ((a, b) # m) k = None"
      using "2.prems" by (intro map_of_less_None) (auto simp: sm_wf_Cons intro: less_trans)
    with True show ?thesis by auto
  next
    case False
    with 2 show ?thesis by (auto simp: sm_wf_Cons)
  qed
qed simp

lemma map_of_sm_assign:
  "sm_wf m \<Longrightarrow> map_of (sm_assign k v m) k' = (if k' = k then Some v else map_of m k')"
  by (induction k v m rule: sm_assign.induct) (auto simp: sm_wf_Cons)

lemma map_of_sm_erase:
  "sm_wf m \<Longrightarrow> map_of (sm_erase k m) k' = (if k' = k then None else map_of m k')"
proof (induction k m rule: sm_erase.induct)
  case (2 k a b m)
  then have "k = a \<Longrightarrow> map_of m k = None"
    by (intro map_of_less_None) (simp add: sm_wf_Cons)
  with 2 show ?case by (auto simp: sm_wf_Cons)
qed simp

interpretation sm: std_container sm_wf "[]" map_of sm_insert sm_assign sm_erase
  by unfold_locales (simp_all add: map_of_sm_insert map_of_sm_assign map_of_sm_erase)

text \<open>Writing the same value into every entry, the loop of a reset.\<close>

lemma sm_wf_map_values [simp]: "sm_wf (map (\<lambda>(k, v). (k, f k v)) m) \<longleftrightarrow> sm_wf m"
  by (simp add: sm_wf_def case_prod_beta comp_def)

lemma map_of_map_values: "map_of (map (\<lambda>(k, v). (k, f k v)) m) k = map_option (f k) (map_of m k)"
  by (induction m) auto

lemmas std_map_simps = sm.lookup_insert sm.lookup_assign sm.lookup_erase map_of_map_values

end
