(* ===== verification/Timing_Client.thy ===== *)
theory Timing_Client
  imports Timing_Task Std_Map
begin

text \<open>
  \<open>TimingClient\<close>, which every participant has: \<open>src/fep3/components/legacy/timing/locked_step_legacy/
  timing_client.{h,cpp}\<close>. It keeps the step listeners of the participant, answers the master's question for
  their cycle times, passes the master's ticks on to the tasks, and watches that ticks keep coming.

  The property tree, the configuration file (parsed elsewhere), the signal registry and the transmission are
  inputs, collected in a record. Two atomics and the simulation time are plain fields: each method below
  runs as a whole. Timers are their period and whether they run; the timer calls \<open>CheckSystemTimeout\<close>.
\<close>

section \<open>State and surroundings\<close>

record timing_client =
  c_current_simulation_time :: timestamp_t
  c_time_progress_sum :: timestamp_t
  c_running :: bool
  c_task_map :: "(string, task) std_map"
  c_master_name :: string
  c_last_trigger_received :: timestamp_t
  c_system_timeout :: timestamp_t
  c_timer_period :: timestamp_t
  c_timer_running :: bool
  c_is_timeout :: bool
  c_use_multicast :: bool
  c_ack_output_signal_handle :: "nat option"
  c_trigger_input_signal_handle :: "nat option"

record participant_config =
  p_systemTimeout_s :: timestamp_t
  p_tasks :: "(string, StepConfig) std_map"
  p_input_configs :: "(string, int) std_map"

text \<open>
  Properties that cannot be read are \<open>None\<close>; so is a file that cannot be loaded, and the handle of a
  signal whose registration fails.
\<close>

record client_env =
  prop_configuration_file :: "string option"
  read_timing_config :: "string \<Rightarrow> (string, participant_config) std_map option"
  prop_element_name :: "string option"
  prop_use_multicast :: "bool option"
  prop_system_timeout :: "int option"
  prop_master :: "string option"
  input_handle :: "string \<Rightarrow> nat option"
  output_handle :: "string \<Rightarrow> nat option"
  SetSignalSampleBacklog :: "nat \<Rightarrow> int \<Rightarrow> fep_result"
  ConfigureInput :: "string \<times> nat \<Rightarrow> fep_result"
  ConfigureOutput :: "string \<times> nat \<Rightarrow> fep_result"
  register_ack :: "nat option"
  register_trigger :: "nat option"
  register_listener :: fep_result

datatype client_event =
    TaskEvent string task_event
  | TriggerSkip
  | TriggerTimeout
  | ClientErrorEvent
  | ScheduleNotification string "(string \<times> timestamp_t) list" string
  | NotificationFail
  | MasterMisconfiguration

definition TimingClient :: timing_client where
  "TimingClient =
     \<lparr>c_current_simulation_time = 0, c_time_progress_sum = 0, c_running = False, c_task_map = [],
      c_master_name = [], c_last_trigger_received = 0, c_system_timeout = 0, c_timer_period = 0,
      c_timer_running = False, c_is_timeout = False, c_use_multicast = False,
      c_ack_output_signal_handle = None, c_trigger_input_signal_handle = None\<rparr>"

definition watchdog_period :: timestamp_t where "watchdog_period = 100000"

section \<open>Step listeners\<close>

definition RegisterStepListener ::
    "client_env \<Rightarrow> string \<Rightarrow> string \<Rightarrow> StepConfig \<Rightarrow> bool \<Rightarrow> bool \<Rightarrow> timing_client \<Rightarrow> fep_result \<times> timing_client" where
  "RegisterStepListener env uuid name defaultConfiguration callback_given callee_given c =
     (if c_running c then (ERR_INVALID_STATE, c)
      else if map_of (c_task_map c) name \<noteq> None then (ERR_RESOURCE_IN_USE, c)
      else
        let (result, t) = task_configure (ConfigureInput env) (ConfigureOutput env) defaultConfiguration (Task name uuid);
            (result, t) = (if isOk result then setScheduleFunc callback_given callee_given t else (result, t))
        in (result, if isOk result then c\<lparr>c_task_map := sm_insert name t (c_task_map c)\<rparr> else c))"

definition UnregisterStepListener :: "string \<Rightarrow> timing_client \<Rightarrow> fep_result \<times> timing_client" where
  "UnregisterStepListener name c =
     (if c_running c then (ERR_INVALID_STATE, c)
      else case map_of (c_task_map c) name of
        None \<Rightarrow> (ERR_NOT_FOUND, c)
      | Some t \<Rightarrow>
          if m_name t = name then (ERR_NOERROR, c\<lparr>c_task_map := sm_erase name (c_task_map c)\<rparr>)
          else (ERR_NOT_FOUND, c))"

definition GetTime :: "timing_client \<Rightarrow> timestamp_t" where
  "GetTime c = c_current_simulation_time c"

definition client_finalize :: "timing_client \<Rightarrow> timing_client" where
  "client_finalize c = c\<lparr>c_task_map := []\<rparr>"

section \<open>Configuration\<close>

text \<open>The loop that fetches the handles stops at the first signal that is not registered.\<close>

fun resolve_handles :: "(string \<Rightarrow> nat option) \<Rightarrow> (string \<times> nat) list \<Rightarrow> bool \<times> (string \<times> nat) list" where
  "resolve_handles lookup [] = (True, [])"
| "resolve_handles lookup ((n, h) # xs) =
     (case lookup n of
        None \<Rightarrow> (False, (n, h) # xs)
      | Some h' \<Rightarrow> let (ok, ys) = resolve_handles lookup xs in (ok, (n, h') # ys))"

definition configureSingleTask ::
    "client_env \<Rightarrow> string \<Rightarrow> StepConfig \<Rightarrow> timing_client \<Rightarrow> fep_result \<times> timing_client" where
  "configureSingleTask env name configuration c =
     (case map_of (c_task_map c) name of
        None \<Rightarrow> (ERR_NOT_FOUND, c)
      | Some t \<Rightarrow>
          let (ok, ins) = resolve_handles (input_handle env) (m_inputs configuration);
              (ok, outs) = (if ok then resolve_handles (output_handle env) (m_outputs configuration)
                            else (False, m_outputs configuration));
              (_, t) = task_configure (ConfigureInput env) (ConfigureOutput env)
                         (configuration\<lparr>m_inputs := ins, m_outputs := outs\<rparr>) t
          in (if ok then ERR_NOERROR else ERR_FAILED, c\<lparr>c_task_map := sm_assign name t (c_task_map c)\<rparr>))"

fun configureTaskMap ::
    "client_env \<Rightarrow> (string, StepConfig) std_map \<Rightarrow> timing_client \<Rightarrow> fep_result \<times> timing_client" where
  "configureTaskMap env [] c = (ERR_NOERROR, c)"
| "configureTaskMap env ((name, config) # taskMap) c =
     (let (result, c) = configureSingleTask env name config c
      in if isOk result then configureTaskMap env taskMap c else (result, c))"

fun configureInputSet :: "client_env \<Rightarrow> (string, int) std_map \<Rightarrow> fep_result" where
  "configureInputSet env [] = ERR_NOERROR"
| "configureInputSet env ((name, backlog) # inputMap) =
     (case input_handle env name of
        None \<Rightarrow> ERR_NOT_FOUND
      | Some h \<Rightarrow>
          let r = SetSignalSampleBacklog env h backlog
          in if isFailed r then r else configureInputSet env inputMap)"

definition configure_from_file :: "client_env \<Rightarrow> timing_client \<Rightarrow> fep_result \<times> timing_client" where
  "configure_from_file env c =
     (case prop_configuration_file env of
        None \<Rightarrow> (ERR_NOERROR, c)
      | Some path \<Rightarrow>
          if path = [] then (ERR_NOERROR, c)
          else case read_timing_config env path of
            None \<Rightarrow> (ERR_UNEXPECTED, c)
          | Some participants \<Rightarrow>
              let (result, c) =
                (case Option.bind (prop_element_name env) (map_of participants) of
                   None \<Rightarrow> (ERR_NOERROR, c)
                 | Some p \<Rightarrow>
                     let (result, c) = configureTaskMap env (p_tasks p) c;
                         result = (if isOk result then configureInputSet env (p_input_configs p) else result)
                     in (result, if isOk result
                                 then c\<lparr>c_system_timeout := int64 (int64 (p_systemTimeout_s p * 1000) * 1000)\<rparr>
                                 else c))
              in (result, case prop_use_multicast env of None \<Rightarrow> c | Some b \<Rightarrow> c\<lparr>c_use_multicast := b\<rparr>))"

text \<open>The timeout property is an \<open>int\<close>; the two multiplications are done at 32 bits.\<close>

definition configure_timeout :: "client_env \<Rightarrow> timing_client \<Rightarrow> timing_client" where
  "configure_timeout env c =
     (case prop_system_timeout env of
        None \<Rightarrow> c
      | Some s \<Rightarrow> c\<lparr>c_system_timeout := int32 (int32 (s * 1000) * 1000)\<rparr>)"

definition configure_master :: "client_env \<Rightarrow> timing_client \<Rightarrow> fep_result \<times> timing_client" where
  "configure_master env c =
     (let c = (case prop_master env of None \<Rightarrow> c | Some s \<Rightarrow> c\<lparr>c_master_name := s\<rparr>)
      in if c_task_map c = [] then (ERR_NOERROR, c)
         else if c_master_name c = [] then (ERR_UNEXPECTED, c)
         else (ERR_NOERROR, c\<lparr>c_timer_period := if c_system_timeout c > 0 then watchdog_period else 0\<rparr>))"

definition register_signals :: "client_env \<Rightarrow> timing_client \<Rightarrow> fep_result \<times> timing_client" where
  "register_signals env c =
     (case register_ack env of
        None \<Rightarrow> (ERR_UNEXPECTED, c)
      | Some h \<Rightarrow>
          let c = c\<lparr>c_ack_output_signal_handle := Some h\<rparr>
          in case register_trigger env of
               None \<Rightarrow> (ERR_UNEXPECTED, c)
             | Some h' \<Rightarrow>
                 (if isFailed (register_listener env) then ERR_UNEXPECTED else ERR_NOERROR,
                  c\<lparr>c_trigger_input_signal_handle := Some h'\<rparr>))"

definition client_configure :: "client_env \<Rightarrow> timing_client \<Rightarrow> fep_result \<times> timing_client" where
  "client_configure env c =
     (let (result, c) = configure_from_file env c;
          c = (if isOk result then configure_timeout env c else c);
          (result, c) = (if isOk result then configure_master env c else (result, c))
      in if isOk result then register_signals env c else (result, c))"

definition client_reset :: "timing_client \<Rightarrow> timing_client" where
  "client_reset c = (if c_task_map c \<noteq> [] then c\<lparr>c_timer_period := 0\<rparr> else c)"

section \<open>Running\<close>

definition client_start :: "timing_client \<Rightarrow> timing_client" where
  "client_start c =
     c\<lparr>c_current_simulation_time := 0, c_time_progress_sum := 0,
       c_task_map := map (\<lambda>(n, t). (n, task_create t)) (c_task_map c),
       c_timer_running := c_timer_period c \<noteq> 0 \<or> c_timer_running c, c_running := True\<rparr>"

text \<open>\<open>stop\<close>, with the joins of the worker threads (see Timing_Task) as its second half.\<close>

definition client_stop :: "timing_client \<Rightarrow> timing_client" where
  "client_stop c =
     c\<lparr>c_task_map := map (\<lambda>(n, t). (n, task_destroy t)) (c_task_map c),
       c_timer_running := False, c_running := False, c_current_simulation_time := 0\<rparr>"

fun join_all :: "(string, task) std_map \<Rightarrow> (string, task) std_map option" where
  "join_all [] = Some []"
| "join_all ((n, t) # m) =
     (case task_joined t of
        None \<Rightarrow> None
      | Some t' \<Rightarrow> (case join_all m of None \<Rightarrow> None | Some m' \<Rightarrow> Some ((n, t') # m')))"

fun progress_all ::
    "timestamp_t \<Rightarrow> timestamp_t \<Rightarrow> (string, task) std_map \<Rightarrow> ((string, task) std_map \<times> client_event list) option" where
  "progress_all time_progress now [] = Some ([], [])"
| "progress_all time_progress now ((n, t) # m) =
     (case simTimeProgress time_progress now t of
        None \<Rightarrow> None
      | Some (t', es) \<Rightarrow>
          (case progress_all time_progress now m of
             None \<Rightarrow> None
           | Some (m', es') \<Rightarrow> Some ((n, t') # m', map (TaskEvent n) es @ es')))"

definition client_Update ::
    "machine \<Rightarrow> nat option \<Rightarrow> byte list \<Rightarrow> timing_client \<Rightarrow> (timing_client \<times> client_event list) option" where
  "client_Update mach signal_handle sample c =
     (if signal_handle \<noteq> c_trigger_input_signal_handle c then Some (c, [])
      else
        let c = c\<lparr>c_last_trigger_received := 0\<rparr>;
            trigger = convertTriggerTickToHostByteorder mach (tick_at mach sample);
            now = sint (currentTime trigger);
            step = sint (simTimeStep trigger)
        in if c_current_simulation_time c > 0 \<and> c_task_map c \<noteq> [] \<and>
              int64 (c_current_simulation_time c + step) \<noteq> now
           then Some (c, [TriggerSkip, ClientErrorEvent])
           else
             let c = c\<lparr>c_current_simulation_time := now, c_time_progress_sum := int64 (c_time_progress_sum c + step)\<rparr>
             in case progress_all (c_time_progress_sum c) now (c_task_map c) of
                  None \<Rightarrow> None
                | Some (m, es) \<Rightarrow> Some (c\<lparr>c_task_map := m\<rparr>, es))"

definition FillScheduleList :: "timing_client \<Rightarrow> (string \<times> timestamp_t) list" where
  "FillScheduleList c = map (\<lambda>(n, t). (m_uuid t, m_cycle t)) (c_task_map c)"

definition client_GetSchedule :: "client_env \<Rightarrow> string \<Rightarrow> bool \<Rightarrow> timing_client \<Rightarrow> fep_result \<times> client_event list" where
  "client_GetSchedule env sender transmitted c =
     (case prop_element_name env of
        None \<Rightarrow> (ERR_UNEXPECTED, [])
      | Some strName \<Rightarrow>
          (ERR_NOERROR,
           if c_task_map c = [] then []
           else if c_master_name c = sender then
             (if transmitted then [ScheduleNotification strName (FillScheduleList c) sender] else [NotificationFail])
           else [MasterMisconfiguration]))"

definition CheckSystemTimeout :: "timing_client \<Rightarrow> timing_client \<times> client_event list" where
  "CheckSystemTimeout c =
     (let (c, es) = (if c_last_trigger_received c > c_system_timeout c \<and> \<not> c_is_timeout c
                     then (c\<lparr>c_is_timeout := True\<rparr>, [TriggerTimeout, ClientErrorEvent]) else (c, []))
      in (c\<lparr>c_last_trigger_received := int64 (c_last_trigger_received c + watchdog_period)\<rparr>, es))"

section \<open>The invariant of the task map\<close>

text \<open>The map is ordered, its keys are the names of the tasks, and every task can be run.\<close>

definition client_inv :: "timing_client \<Rightarrow> bool" where
  "client_inv c \<longleftrightarrow> sm_wf (c_task_map c) \<and>
     (\<forall>(n, t) \<in> set (c_task_map c). m_name t = n \<and> 0 < m_cycle t \<and> m_callback t)"

lemma sm_insert_new: "set (sm_insert k v m) \<subseteq> insert (k, v) (set m)"
  by (induction k v m rule: sm_insert.induct) auto

lemma sm_assign_new: "set (sm_assign k v m) \<subseteq> insert (k, v) (set m)"
  by (induction k v m rule: sm_assign.induct) auto

lemma task_configure_effect:
  "m_name (snd (task_configure ci co config t)) = m_name t \<and>
   m_callback (snd (task_configure ci co config t)) = m_callback t \<and>
   (0 < m_cycle t \<or> isOk (fst (task_configure ci co config t)) \<longrightarrow> 0 < m_cycle (snd (task_configure ci co config t)))"
  by (simp add: task_configure_def Let_def isOk_def isFailed_def)

lemma RegisterStepListener_inv:
  assumes "client_inv c"
  shows "client_inv (snd (RegisterStepListener env uuid name config cb ce c))"
proof -
  define r t where "r = fst (task_configure (ConfigureInput env) (ConfigureOutput env) config (Task name uuid))"
    and "t = snd (task_configure (ConfigureInput env) (ConfigureOutput env) config (Task name uuid))"
  then have t: "task_configure (ConfigureInput env) (ConfigureOutput env) config (Task name uuid) = (r, t)"
    by simp
  have *: "isOk r \<Longrightarrow> m_name t = name \<and> 0 < m_cycle t"
    using task_configure_effect [of "ConfigureInput env" "ConfigureOutput env" config "Task name uuid"] t
    by (simp add: Task_def)
  have "snd (RegisterStepListener env uuid name config cb ce c) = c \<or>
      isOk r \<and> snd (RegisterStepListener env uuid name config cb ce c) =
        c\<lparr>c_task_map := sm_insert name (t\<lparr>m_callback := True\<rparr>) (c_task_map c)\<rparr>"
    by (simp add: RegisterStepListener_def setScheduleFunc_def t isOk_def isFailed_def)
  moreover have "client_inv (c\<lparr>c_task_map := sm_insert name (t\<lparr>m_callback := True\<rparr>) (c_task_map c)\<rparr>)" if "isOk r"
    using assms * [OF that] sm_insert_new [of name "t\<lparr>m_callback := True\<rparr>" "c_task_map c"]
    by (fastforce simp: client_inv_def)
  ultimately show ?thesis
    using assms by metis
qed

lemma UnregisterStepListener_inv: "client_inv c \<Longrightarrow> client_inv (snd (UnregisterStepListener name c))"
  using sm_set_erase [of name "c_task_map c"]
  by (auto simp: UnregisterStepListener_def client_inv_def split: option.splits)

lemma configureSingleTask_inv:
  assumes "client_inv c"
  shows "client_inv (snd (configureSingleTask env name config c))"
proof (cases "map_of (c_task_map c) name")
  case (Some t)
  then have "m_name t = name" "0 < m_cycle t" "m_callback t"
    using assms map_of_SomeD [OF Some] by (auto simp: client_inv_def)
  then have "client_inv (c\<lparr>c_task_map := sm_assign name
      (snd (task_configure (ConfigureInput env) (ConfigureOutput env) config' t)) (c_task_map c)\<rparr>)" for config'
    using assms sm_assign_new [of name _ "c_task_map c"]
      task_configure_effect [of "ConfigureInput env" "ConfigureOutput env" config' t]
    by (fastforce simp: client_inv_def)
  with Some show ?thesis
    by (simp add: configureSingleTask_def Let_def case_prod_beta)
qed (simp add: configureSingleTask_def assms)

lemma configureTaskMap_inv: "client_inv c \<Longrightarrow> client_inv (snd (configureTaskMap env m c))"
proof (induction env m c rule: configureTaskMap.induct)
  case (2 env name config taskMap c)
  have "client_inv (snd (configureSingleTask env name config c))"
    by (rule configureSingleTask_inv [OF "2.prems"])
  with "2.IH" [OF refl prod.collapse] show ?case
    by (simp add: Let_def case_prod_beta)
qed simp

lemma client_inv_cong: "c_task_map c' = c_task_map c \<Longrightarrow> client_inv c' = client_inv c"
  by (simp add: client_inv_def)

lemma configure_from_file_inv:
  assumes "client_inv c"
  shows "client_inv (snd (configure_from_file env c))"
proof -
  have "client_inv (snd (configureTaskMap env m c))" for m
    by (rule configureTaskMap_inv [OF assms])
  then show ?thesis
    using assms
    by (auto simp: configure_from_file_def Let_def case_prod_beta client_inv_def split: option.splits if_splits)
qed

lemma configure_rest_task_map:
  "c_task_map (configure_timeout env c) = c_task_map c"
  "c_task_map (snd (configure_master env c)) = c_task_map c"
  "c_task_map (snd (register_signals env c)) = c_task_map c"
  by (auto simp: configure_timeout_def configure_master_def register_signals_def Let_def split: option.splits)

lemma client_configure_inv:
  assumes "client_inv c"
  shows "client_inv (snd (client_configure env c))"
proof -
  have "c_task_map (snd (client_configure env c)) = c_task_map (snd (configure_from_file env c))"
    by (simp add: client_configure_def Let_def case_prod_beta configure_rest_task_map)
  with configure_from_file_inv [OF assms] show ?thesis
    using client_inv_cong by blast
qed

lemma start_stop_inv:
  "client_inv c \<Longrightarrow> client_inv (client_start c)"
  "client_inv c \<Longrightarrow> client_inv (client_stop c)"
  by (auto simp: client_inv_def client_start_def client_stop_def task_create_def task_destroy_def)

text \<open>Every task of a valid map takes every tick.\<close>

lemma simTimeProgress_total:
  "0 < m_cycle t \<Longrightarrow> \<exists>t' es. simTimeProgress s now t = Some (t', es) \<and> same_task t t' \<and> m_current_simulation_time t' = now"
  by (cases "m_time_violation_strategy t")
    (auto simp: simTimeProgress_def Let_def applyTriggerViolation_def same_task_def)

lemma progress_all_total:
  assumes "\<forall>(n, t) \<in> set m. 0 < m_cycle t"
  shows "\<exists>m' es. progress_all s now m = Some (m', es) \<and> TriggerSkip \<notin> set es \<and> TriggerTimeout \<notin> set es \<and>
    list_all2 (\<lambda>(n, t) (n', t'). n' = n \<and> same_task t t') m m'"
  using assms
proof (induction m)
  case (Cons a m)
  then obtain m' es where "progress_all s now m = Some (m', es)" "TriggerSkip \<notin> set es" "TriggerTimeout \<notin> set es"
      "list_all2 (\<lambda>(n, t) (n', t'). n' = n \<and> same_task t t') m m'"
    by auto
  moreover have "0 < m_cycle (snd a)"
    using Cons.prems by auto
  from simTimeProgress_total [OF this] obtain t' es' where
    "simTimeProgress s now (snd a) = Some (t', es')" "same_task (snd a) t'"
    by blast
  ultimately show ?case
    by (cases a) auto
qed simp

lemma progress_all_map:
  assumes "list_all2 (\<lambda>(n, t) (n', t'). n' = n \<and> same_task t t') m m'"
  shows "map fst m' = map fst m" "\<forall>(n, t') \<in> set m'. \<exists>t. (n, t) \<in> set m \<and> same_task t t'"
proof -
  show "map fst m' = map fst m"
    using assms by (induction rule: list_all2_induct) auto
  show "\<forall>(n, t') \<in> set m'. \<exists>t. (n, t) \<in> set m \<and> same_task t t'"
    using assms by (induction rule: list_all2_induct) auto
qed

lemma progress_all_inv:
  assumes "client_inv c" "progress_all s now (c_task_map c) = Some (m', es)"
  shows "client_inv (c\<lparr>c_task_map := m'\<rparr>)" "TriggerSkip \<notin> set es" "TriggerTimeout \<notin> set es" "m' = [] \<longleftrightarrow> c_task_map c = []"
proof -
  have "\<forall>(n, t) \<in> set (c_task_map c). 0 < m_cycle t"
    using assms(1) by (auto simp: client_inv_def)
  with progress_all_total [OF this, of s now] assms(2)
  have *: "TriggerSkip \<notin> set es" "TriggerTimeout \<notin> set es"
      "list_all2 (\<lambda>(n, t) (n', t'). n' = n \<and> same_task t t') (c_task_map c) m'"
    by auto
  show "TriggerSkip \<notin> set es" "TriggerTimeout \<notin> set es" by fact+
  show "m' = [] \<longleftrightarrow> c_task_map c = []"
    using *(3) by auto
  have "sm_wf m'"
    using assms(1) progress_all_map(1) [OF *(3)] by (simp add: client_inv_def sm_wf_def)
  with assms(1) progress_all_map(2) [OF *(3)] show "client_inv (c\<lparr>c_task_map := m'\<rparr>)"
    by (fastforce simp: client_inv_def same_task_def)
qed

section \<open>Runs\<close>

datatype client_op =
    OpRegister client_env string string StepConfig
  | OpUnregister string
  | OpConfigure client_env
  | OpReset
  | OpStart
  | OpStop
  | OpTick machine "nat option" "byte list"
  | OpCheck

fun client_step :: "client_op \<Rightarrow> timing_client \<Rightarrow> (timing_client \<times> client_event list) option" where
  "client_step (OpRegister env uuid name config) c = Some (snd (RegisterStepListener env uuid name config True True c), [])"
| "client_step (OpUnregister name) c = Some (snd (UnregisterStepListener name c), [])"
| "client_step (OpConfigure env) c = Some (snd (client_configure env c), [])"
| "client_step OpReset c = Some (client_reset c, [])"
| "client_step OpStart c = Some (client_start c, [])"
| "client_step OpStop c = Some (client_stop c, [])"
| "client_step (OpTick mach h sample) c = client_Update mach h sample c"
| "client_step OpCheck c = Some (CheckSystemTimeout c)"

fun client_run :: "client_op list \<Rightarrow> timing_client \<Rightarrow> (timing_client \<times> client_event list) option" where
  "client_run [] c = Some (c, [])"
| "client_run (x # xs) c =
     (case client_step x c of
        None \<Rightarrow> None
      | Some (c', es) \<Rightarrow>
          (case client_run xs c' of None \<Rightarrow> None | Some (c'', es') \<Rightarrow> Some (c'', es @ es')))"

lemma is_timeout_kept [simp]:
  "c_is_timeout (snd (RegisterStepListener env uuid name config cb ce c)) = c_is_timeout c"
  "c_is_timeout (snd (UnregisterStepListener name c)) = c_is_timeout c"
  "c_is_timeout (snd (configureSingleTask env name config c)) = c_is_timeout c"
  "c_is_timeout (client_reset c) = c_is_timeout c"
  "c_is_timeout (client_start c) = c_is_timeout c"
  "c_is_timeout (client_stop c) = c_is_timeout c"
  "c_is_timeout (configure_timeout env c) = c_is_timeout c"
  "c_is_timeout (snd (configure_master env c)) = c_is_timeout c"
  "c_is_timeout (snd (register_signals env c)) = c_is_timeout c"
  by (auto simp: RegisterStepListener_def UnregisterStepListener_def configureSingleTask_def client_reset_def
      client_start_def client_stop_def configure_timeout_def configure_master_def register_signals_def
      Let_def case_prod_beta split: option.splits)

lemma configureTaskMap_timeout [simp]: "c_is_timeout (snd (configureTaskMap env m c)) = c_is_timeout c"
proof (induction env m c rule: configureTaskMap.induct)
  case (2 env name config taskMap c)
  from "2.IH" [OF refl prod.collapse] show ?case
    by (simp add: Let_def case_prod_beta)
qed simp

lemma client_configure_timeout [simp]: "c_is_timeout (snd (client_configure env c)) = c_is_timeout c"
  by (auto simp: client_configure_def configure_from_file_def Let_def case_prod_beta split: option.splits)

text \<open>A tick to a client whose tasks can be run: ignored, refused, or taken.\<close>

lemma client_Update_cases:
  assumes "client_inv c"
  shows "\<exists>c' es. client_Update mach h sample c = Some (c', es) \<and> client_inv c' \<and> TriggerTimeout \<notin> set es \<and>
     c_is_timeout c' = c_is_timeout c \<and> c_trigger_input_signal_handle c' = c_trigger_input_signal_handle c"
proof -
  let ?now = "sint (currentTime (convertTriggerTickToHostByteorder mach (tick_at mach sample)))"
  let ?sum = "int64 (c_time_progress_sum c + sint (simTimeStep (convertTriggerTickToHostByteorder mach (tick_at mach sample))))"
  have "\<forall>(n, t) \<in> set (c_task_map c). 0 < m_cycle t"
    using assms by (auto simp: client_inv_def)
  from progress_all_total [OF this, of ?sum ?now] obtain m' es where
    p: "progress_all ?sum ?now (c_task_map c) = Some (m', es)"
    by blast
  note * = progress_all_inv [OF assms p]
  with assms p show ?thesis
    by (auto simp: client_Update_def Let_def client_inv_def)
qed

lemma client_step_inv:
  assumes "client_inv c"
  shows "\<exists>c' es. client_step x c = Some (c', es) \<and> client_inv c' \<and>
     (c_is_timeout c \<longrightarrow> c_is_timeout c' \<and> TriggerTimeout \<notin> set es)"
proof (cases x)
  case (OpTick mach h sample)
  with client_Update_cases [OF assms] show ?thesis by (metis client_step.simps(7))
next
  case OpCheck
  with assms show ?thesis
    by (auto simp: CheckSystemTimeout_def client_inv_def Let_def)
next
  case OpReset
  with assms show ?thesis by (simp add: client_reset_def client_inv_def)
qed (use assms in \<open>simp_all add: RegisterStepListener_inv UnregisterStepListener_inv client_configure_inv start_stop_inv\<close>)

lemma client_run_inv:
  assumes "client_inv c"
  shows "\<exists>c' es. client_run xs c = Some (c', es) \<and> client_inv c' \<and>
     (c_is_timeout c \<longrightarrow> c_is_timeout c' \<and> TriggerTimeout \<notin> set es)"
  using assms
proof (induction xs arbitrary: c)
  case (Cons x xs)
  from client_step_inv [OF Cons.prems] obtain c1 e1 where
    1: "client_step x c = Some (c1, e1)" "client_inv c1" "c_is_timeout c \<longrightarrow> c_is_timeout c1 \<and> TriggerTimeout \<notin> set e1"
    by blast
  from Cons.IH [OF 1(2)] 1 show ?case by auto
qed simp

lemma client_inv_new: "client_inv TimingClient"
  by (simp add: client_inv_def TimingClient_def)

section \<open>Properties\<close>

definition env_demo :: client_env where
  "env_demo = \<lparr>prop_configuration_file = None, read_timing_config = (\<lambda>_. None), prop_element_name = Some ''p'',
     prop_use_multicast = None, prop_system_timeout = Some 1, prop_master = Some ''m'',
     input_handle = (\<lambda>_. Some 5), output_handle = (\<lambda>_. None), SetSignalSampleBacklog = (\<lambda>_ _. ERR_NOERROR),
     ConfigureInput = (\<lambda>_. ERR_NOERROR), ConfigureOutput = (\<lambda>_. ERR_NOERROR), register_ack = Some 1,
     register_trigger = Some 2, register_listener = ERR_NOERROR\<rparr>"

definition config_demo :: "timestamp_t \<Rightarrow> StepConfig" where
  "config_demo cycle = \<lparr>m_cycleTime_sim_us = cycle, m_maxRuntime_us = 0, m_maxInputWaittime_us = 0,
     m_runtimeViolationStrategy = TS_IGNORE_RUNTIME_VIOLATION, m_inputs = [], m_outputs = []\<rparr>"

definition client_demo :: timing_client where
  "client_demo = fst (the (client_run
     [OpRegister env_demo (replicate 36 CHR ''a'') ''step'' (config_demo 10), OpConfigure env_demo, OpStart] TimingClient))"

text \<open>
  The watchdog for ticks fires at most once in the life of a client: nothing a client does clears the
  flag that a timeout has been reported, neither a tick, nor stopping and starting, nor a new
  configuration. After the first timeout (and the recovery from the error state it causes) a master that
  stays silent is never noticed again.
\<close>

theorem watchdog_fires_only_once:
  assumes "client_inv c" "c_is_timeout c"
  shows "\<exists>c' es. client_run xs c = Some (c', es) \<and> c_is_timeout c' \<and> TriggerTimeout \<notin> set es"
  using client_run_inv [OF assms(1)] assms(2) by blast

theorem watchdog_fires_only_once_witness:
  "\<exists>c es c' es'. client_run (replicate 12 OpCheck) client_demo = Some (c, es) \<and> TriggerTimeout \<in> set es \<and>
     client_run (OpStop # OpReset # OpConfigure env_demo # OpStart # replicate 500 OpCheck) c = Some (c', es') \<and>
     TriggerTimeout \<notin> set es'"
proof -
  have 1: "c_is_timeout (fst (the (client_run (replicate 12 OpCheck) client_demo))) \<and>
      TriggerTimeout \<in> set (snd (the (client_run (replicate 12 OpCheck) client_demo)))"
    by code_simp
  have 2: "client_inv client_demo"
    using client_run_inv [OF client_inv_new] unfolding client_demo_def by (metis fst_conv option.sel)
  from client_run_inv [OF this, of "replicate 12 OpCheck"] obtain c es where
    c: "client_run (replicate 12 OpCheck) client_demo = Some (c, es)" "client_inv c"
    by blast
  with 1 have "c_is_timeout c" "TriggerTimeout \<in> set es" by simp_all
  with c watchdog_fires_only_once [OF c(2), of "OpStop # OpReset # OpConfigure env_demo # OpStart # replicate 500 OpCheck"]
  show ?thesis by blast
qed

definition send_tick :: "machine \<Rightarrow> timestamp_t \<Rightarrow> timestamp_t \<Rightarrow> byte list" where
  "send_tick mach now step = tick_bytes mach (convertTriggerTickToNetworkByteorder mach
     \<lparr>currentTime = word_of_int now, simTimeStep = word_of_int step\<rparr>)"

lemma client_Update_send:
  assumes "in_int64 now" "in_int64 step"
  shows "client_Update mach (c_trigger_input_signal_handle c) (send_tick mm now step) c =
    (if 0 < c_current_simulation_time c \<and> c_task_map c \<noteq> [] \<and> int64 (c_current_simulation_time c + step) \<noteq> now
     then Some (c\<lparr>c_last_trigger_received := 0\<rparr>, [TriggerSkip, ClientErrorEvent])
     else case progress_all (int64 (c_time_progress_sum c + step)) now (c_task_map c) of
            None \<Rightarrow> None
          | Some (m, es) \<Rightarrow>
              Some (c\<lparr>c_last_trigger_received := 0, c_current_simulation_time := now,
                      c_time_progress_sum := int64 (c_time_progress_sum c + step), c_task_map := m\<rparr>, es))"
  using assms
  by (simp add: client_Update_def send_tick_def tick_roundtrip Let_def sint_word_of_int_int64 split: option.split)

lemma client_Update_tick:
  assumes "in_int64 now" "in_int64 step" "c_task_map c \<noteq> []"
  shows "client_Update mach' (c_trigger_input_signal_handle c) (send_tick mach now step) c =
    (if 0 < c_current_simulation_time c \<and> int64 (c_current_simulation_time c + step) \<noteq> now
     then Some (c\<lparr>c_last_trigger_received := 0\<rparr>, [TriggerSkip, ClientErrorEvent])
     else case progress_all (int64 (c_time_progress_sum c + step)) now (c_task_map c) of
            None \<Rightarrow> None
          | Some (m, es) \<Rightarrow>
              Some (c\<lparr>c_last_trigger_received := 0, c_current_simulation_time := now,
                      c_time_progress_sum := int64 (c_time_progress_sum c + step), c_task_map := m\<rparr>, es))"
  using client_Update_send [OF assms(1,2), of mach' c mach] assms(3) by simp

text \<open>The ticks that continue each other, from the current time of the client on.\<close>

fun chained :: "timestamp_t \<Rightarrow> (timestamp_t \<times> timestamp_t) list \<Rightarrow> bool" where
  "chained current [] = True"
| "chained current ((now, step) # ts) = ((0 < current \<longrightarrow> now = int64 (current + step)) \<and> chained now ts)"

definition ticks_of :: "machine \<Rightarrow> machine \<Rightarrow> timing_client \<Rightarrow> (timestamp_t \<times> timestamp_t) list \<Rightarrow> client_op list" where
  "ticks_of mach mach' c ts =
     map (\<lambda>(now, step). OpTick mach' (c_trigger_input_signal_handle c) (send_tick mach now step)) ts"

lemma ticks_of_Cons:
  "ticks_of mach mach' c ((now, step) # ts) =
     OpTick mach' (c_trigger_input_signal_handle c) (send_tick mach now step) # ticks_of mach mach' c ts"
  by (simp add: ticks_of_def)

lemma ticks_of_cong:
  "c_trigger_input_signal_handle c' = c_trigger_input_signal_handle c \<Longrightarrow> ticks_of mach mach' c' = ticks_of mach mach' c"
  by (rule ext) (simp add: ticks_of_def)

text \<open>
  C37: A client with step listeners checks the order of the master's ticks: for every sequence of ticks sent
  by a machine of either byte order, it reports an out-of-order trigger exactly when some tick does not
  continue the current simulation time by its step; otherwise its time is that of the last tick. The check
  is left out while the current time is 0, so the tick after one at time 0 is never checked.
\<close>

theorem out_of_order_ticks_are_detected:
  assumes "client_inv c" "c_task_map c \<noteq> []" "\<forall>(now, step) \<in> set ts. in_int64 now \<and> in_int64 step"
  shows "\<exists>c' es. client_run (ticks_of mach mach' c ts) c = Some (c', es) \<and>
     (TriggerSkip \<in> set es \<longleftrightarrow> \<not> chained (GetTime c) ts) \<and>
     (chained (GetTime c) ts \<longrightarrow> GetTime c' = last (GetTime c # map fst ts))"
  using assms
proof (induction ts arbitrary: c)
  case Nil
  then show ?case by (simp add: ticks_of_def)
next
  case (Cons a ts)
  obtain now step where a: "a = (now, step)" by fastforce
  with Cons.prems have ok: "in_int64 now" "in_int64 step" by auto
  note tick = client_Update_tick [OF ok Cons.prems(2)]
  show ?case
  proof (cases "0 < c_current_simulation_time c \<and> int64 (c_current_simulation_time c + step) \<noteq> now")
    case True
    have "client_inv (c\<lparr>c_last_trigger_received := 0\<rparr>)"
      using Cons.prems(1) by (simp add: client_inv_def)
    from client_run_inv [OF this, of "ticks_of mach mach' c ts"] obtain c' es where
      "client_run (ticks_of mach mach' c ts) (c\<lparr>c_last_trigger_received := 0\<rparr>) = Some (c', es)"
      by blast
    with True tick [of mach' mach] show ?thesis
      by (auto simp: a ticks_of_Cons GetTime_def)
  next
    case False
    let ?sum = "int64 (c_time_progress_sum c + step)"
    have "\<forall>(n, t) \<in> set (c_task_map c). 0 < m_cycle t"
      using Cons.prems(1) by (auto simp: client_inv_def)
    from progress_all_total [OF this, of ?sum now] obtain m e1 where p: "progress_all ?sum now (c_task_map c) = Some (m, e1)"
      by blast
    let ?c = "c\<lparr>c_last_trigger_received := 0, c_current_simulation_time := now, c_time_progress_sum := ?sum, c_task_map := m\<rparr>"
    note * = progress_all_inv [OF Cons.prems(1) p]
    have "client_inv ?c" "c_task_map ?c \<noteq> []"
      using * Cons.prems(2) by (simp_all add: client_inv_def)
    moreover have "\<forall>(now, step) \<in> set ts. in_int64 now \<and> in_int64 step"
      using Cons.prems(3) by simp
    ultimately obtain c' es where IH: "client_run (ticks_of mach mach' c ts) ?c = Some (c', es)"
        "TriggerSkip \<in> set es \<longleftrightarrow> \<not> chained now ts"
        "chained now ts \<longrightarrow> GetTime c' = last (now # map fst ts)"
      using Cons.IH [of ?c] ticks_of_cong [of ?c c] by (auto simp: GetTime_def)
    with False p * tick [of mach' mach] show ?thesis
      by (auto simp: a ticks_of_Cons GetTime_def)
  qed
qed

lemma client_demo_inv: "client_inv client_demo"
  using client_run_inv [OF client_inv_new] unfolding client_demo_def by (metis fst_conv option.sel)

theorem out_of_order_ticks_are_detected_witness:
  "(\<exists>c' es. client_run (ticks_of LittleEndian BigEndian client_demo [(0, 10), (500, 10)]) client_demo = Some (c', es) \<and>
      TriggerSkip \<notin> set es \<and> GetTime c' = 500) \<and>
   (\<exists>c' es. client_run (ticks_of LittleEndian BigEndian client_demo [(10, 10), (500, 10)]) client_demo = Some (c', es) \<and>
      TriggerSkip \<in> set es)"
proof -
  have "c_task_map client_demo \<noteq> [] \<and> GetTime client_demo = 0" by code_simp
  then have 0: "c_task_map client_demo \<noteq> []" "GetTime client_demo = 0" by simp_all
  have "chained 0 [(0, 10), (500, 10)]" by simp
  moreover have "\<not> chained 0 [(10, 10), (500, 10)]" by (simp add: range_simps in_int64_def)
  ultimately show ?thesis
    using out_of_order_ticks_are_detected [OF client_demo_inv 0(1), of "[(0, 10), (500, 10)]" LittleEndian BigEndian]
      out_of_order_ticks_are_detected [OF client_demo_inv 0(1), of "[(10, 10), (500, 10)]" LittleEndian BigEndian]
    unfolding 0(2) by (fastforce simp: in_int64_def)
qed

text \<open>
  The configuration of a step listener from the timing configuration file is accepted whether or not
  the task accepts it: if all signals are known, the result is success, and an invalid one (a cycle time or
  a strategy out of range) leaves the listener with its old configuration.
\<close>

theorem invalid_step_configuration_is_accepted:
  assumes "map_of (c_task_map c) name = Some t"
    and "fst (resolve_handles (input_handle env) (m_inputs config))"
    and "fst (resolve_handles (output_handle env) (m_outputs config))"
    and "m_cycleTime_sim_us config \<le> 0 \<or> m_runtimeViolationStrategy config = TS_UNKNOWN"
  shows "fst (configureSingleTask env name config c) = ERR_NOERROR \<and>
     map_of (c_task_map (snd (configureSingleTask env name config c))) name = Some t"
proof -
  have "snd (task_configure (ConfigureInput env) (ConfigureOutput env) config' t) = t"
    if "m_cycleTime_sim_us config' = m_cycleTime_sim_us config"
       "m_runtimeViolationStrategy config' = m_runtimeViolationStrategy config" for config'
    using that assms(4) by (auto simp: task_configure_def)
  moreover have "map_of (sm_assign name t m) name = Some t" for m :: "(string, task) std_map"
    by (induction name t m rule: sm_assign.induct) auto
  ultimately show ?thesis
    using assms(1-3) by (simp add: configureSingleTask_def Let_def case_prod_beta)
qed

theorem invalid_step_configuration_is_accepted_witness:
  "fst (configureSingleTask env_demo ''step'' (config_demo (-10)) client_demo) = ERR_NOERROR \<and>
   map_option m_cycle (map_of (c_task_map (snd (configureSingleTask env_demo ''step'' (config_demo (-10)) client_demo)))
     ''step'') = Some 10"
proof -
  have "map_option m_cycle (map_of (c_task_map client_demo) ''step'') = Some 10" by code_simp
  then obtain t where "map_of (c_task_map client_demo) ''step'' = Some t" "m_cycle t = 10"
    by auto
  then show ?thesis
    using invalid_step_configuration_is_accepted [of client_demo "''step''" t env_demo "config_demo (-10)"]
    by (simp add: config_demo_def)
qed

text \<open>
  The system timeout property, in seconds, is turned into microseconds at 32 bits: the timeout used is
  the one configured exactly up to 2147 s. Beyond that, a value such as 3000 s becomes negative and the
  watchdog is not armed, although only 0 is to disable it.
\<close>

theorem system_timeout_wraps:
  assumes "prop_system_timeout env = Some s" "0 \<le> s" "s < 2 ^ 31"
  shows "(c_system_timeout (configure_timeout env c) = s * 1000000 \<longleftrightarrow> s \<le> 2147) \<and>
    (s = 3000 \<longrightarrow> prop_master env = Some (CHR ''m'' # n) \<longrightarrow> c_task_map c \<noteq> [] \<longrightarrow>
       c_timer_period (snd (configure_master env (configure_timeout env c))) = 0)"
proof -
  have r: "- (2 ^ 31) \<le> int32 x \<and> int32 x < 2 ^ 31" for x
    using signed_take_bit_int_less_exp [of 31 x] signed_take_bit_int_greater_eq_minus_exp [of 31 x]
    by (simp add: int32_def)
  have "int32 (int32 (s * 1000) * 1000) = s * 1000000" if "s \<le> 2147"
  proof -
    have "int32 (s * 1000) = s * 1000" using assms(2) that by (intro int32_id) auto
    moreover have "int32 (s * 1000 * 1000) = s * 1000 * 1000" using assms(2) that by (intro int32_id) auto
    ultimately show ?thesis by simp
  qed
  moreover have "s \<le> 2147" if "int32 (int32 (s * 1000) * 1000) = s * 1000000"
    using that r [of "int32 (s * 1000) * 1000"] by auto
  moreover have "int32 (int32 (3000 * 1000) * 1000) < 0"
    by (simp add: int32_def signed_take_bit_eq_take_bit_minus)
  ultimately show ?thesis
    using assms(1) by (auto simp: configure_timeout_def configure_master_def Let_def)
qed

theorem system_timeout_wraps_witness:
  "c_system_timeout (configure_timeout (env_demo\<lparr>prop_system_timeout := Some 2147\<rparr>) client_demo) = 2147000000 \<and>
   c_system_timeout (configure_timeout (env_demo\<lparr>prop_system_timeout := Some 2148\<rparr>) client_demo) \<noteq> 2148000000"
  using system_timeout_wraps [of "env_demo\<lparr>prop_system_timeout := Some 2147\<rparr>" 2147 client_demo]
    system_timeout_wraps [of "env_demo\<lparr>prop_system_timeout := Some 2148\<rparr>" 2148 client_demo]
  by simp

end
