(* ===== verification/Schedule_Map.thy ===== *)
theory Schedule_Map
  imports Std_Map
begin

text \<open>
  The schedule of the timing master, \<open>src/fep3/components/legacy/timing/locked_step_legacy/
  schedule_map.{h,cpp}\<close>: the helper that computes the greatest common divisor and the least common
  multiple of the cycle times, \<open>ScheduleItem\<close> (the tasks due at one step and who has acknowledged)
  and \<open>ScheduleMap\<close> (the ring of items and the current position).

  A \<open>std::set<ScheduleConfig>\<close> is ordered by uuid only (\<open>operator<\<close> in \<open>common_timing.h\<close>), so it is a
  std map from uuid to cycle time. An index outside the schedule vector is undefined behaviour in the
  code and \<open>None\<close> here, as is an integer division by zero. \<open>printToStream\<close> is pure output and left
  out. The mutex is declared in every method without being locked, so it has no counterpart.
\<close>

section \<open>Greatest common divisor and least common multiple\<close>

function CalcHelper_GCD :: "int \<Rightarrow> int \<Rightarrow> int" where
  "CalcHelper_GCD a b =
     (if a = 0 then b
      else let b' = b smod a in
        if b' = 0 then a else CalcHelper_GCD (a smod b') b')"
  by pat_completeness auto

lemma abs_smod_less: "b \<noteq> 0 \<Longrightarrow> \<bar>a smod b\<bar> < \<bar>b :: int\<bar>"
  by (simp add: signed_modulo_int_def abs_mult)

termination CalcHelper_GCD
proof (relation "measure (\<lambda>(a, b). nat \<bar>a\<bar>)", goal_cases)
  case (2 a b b')
  then have "\<bar>a smod b'\<bar> < \<bar>b'\<bar>" and "\<bar>b'\<bar> < \<bar>a\<bar>"
    by (simp_all add: abs_smod_less)
  then show ?case by simp
qed simp

declare CalcHelper_GCD.simps [simp del]

definition CalcHelper_LCM :: "int \<Rightarrow> int \<Rightarrow> int" where
  "CalcHelper_LCM a b = (let temp = CalcHelper_GCD a b in if temp \<noteq> 0 then int64 (a sdiv temp * b) else 0)"

definition lcm_of :: "int list \<Rightarrow> int" where
  "lcm_of v = fold (\<lambda>x acc. CalcHelper_LCM acc x) v 1"

definition gcd_of :: "int list \<Rightarrow> int" where
  "gcd_of v = fold (\<lambda>x acc. CalcHelper_GCD acc x) v (hd v)"

type_synonym schedule_configs = "(string, timestamp_t) std_map"

definition calculate_lcm_and_gcd ::
    "schedule_configs \<Rightarrow> fep_result + timestamp_t \<times> timestamp_t" where
  "calculate_lcm_and_gcd configs =
     (let vecPeriods = map snd configs in
      if length vecPeriods = 0 then Inl ERR_INVALID_ARG
      else Inr (lcm_of vecPeriods, gcd_of vecPeriods))"

section \<open>One step of the schedule\<close>

record schedule_item =
  schedule_received_map :: "(string, bool) std_map"
  has_configured_step :: bool

definition new_schedule_item :: schedule_item where
  "new_schedule_item = \<lparr>schedule_received_map = [], has_configured_step = False\<rparr>"

definition item_markStepForCurrentSchedule ::
    "string \<Rightarrow> schedule_item \<Rightarrow> bool \<times> schedule_item" where
  "item_markStepForCurrentSchedule sender_uuid item =
     (case map_of (schedule_received_map item) sender_uuid of
        None \<Rightarrow> (False, item)
      | Some received \<Rightarrow>
          if received then (False, item)
          else (True, item\<lparr>schedule_received_map :=
                  sm_assign sender_uuid True (schedule_received_map item)\<rparr>))"

definition item_isCurrentScheduleComplete :: "schedule_item \<Rightarrow> bool" where
  "item_isCurrentScheduleComplete item =
     list_all (\<lambda>(uuid, received). \<not> (uuid \<noteq> [] \<and> \<not> received)) (schedule_received_map item)"

definition item_isStepInCurrentSchedule :: "schedule_item \<Rightarrow> bool" where
  "item_isStepInCurrentSchedule item \<longleftrightarrow> length (schedule_received_map item) > 0"

definition item_isConfiguredStepInCurrentSchedule :: "schedule_item \<Rightarrow> bool" where
  "item_isConfiguredStepInCurrentSchedule item = has_configured_step item"

definition item_clearStepCompleteInternal :: "schedule_item \<Rightarrow> schedule_item" where
  "item_clearStepCompleteInternal item =
     item\<lparr>schedule_received_map := map (\<lambda>(uuid, received). (uuid, False)) (schedule_received_map item)\<rparr>"

definition insertScheduleConfig :: "string \<Rightarrow> schedule_item \<Rightarrow> schedule_item" where
  "insertScheduleConfig step_uuid item =
     (let m = sm_insert step_uuid False (schedule_received_map item) in
      item\<lparr>schedule_received_map := m,
           has_configured_step := list_ex (\<lambda>(uuid, received). uuid \<noteq> []) m\<rparr>)"

section \<open>The schedule map\<close>

record schedule_map =
  schedule_vector :: "schedule_item list"
  cycle_time_us :: timestamp_t
  current_index :: nat

definition new_schedule_map :: schedule_map where
  "new_schedule_map = \<lparr>schedule_vector = [], cycle_time_us = 0, current_index = 0\<rparr>"

text \<open>\<open>std::vector::resize\<close>: keep the first elements, append default ones.\<close>

definition resize :: "nat \<Rightarrow> schedule_item list \<Rightarrow> schedule_item list" where
  "resize n v = take n v @ replicate (n - length v) new_schedule_item"

text \<open>\<open>MAX_FEP_SCHEDULE_SIZE\<close>, given the platform's \<open>sizeof(ScheduleItem)\<close>; the comparison with it
  is one of unsigned 64-bit integers.\<close>

definition MAX_FEP_SCHEDULE_SIZE :: "nat \<Rightarrow> nat" where
  "MAX_FEP_SCHEDULE_SIZE item_size = (10 * 1024 * 1024) div item_size"

definition insert_due_configs :: "schedule_configs \<Rightarrow> timestamp_t \<Rightarrow> schedule_item \<Rightarrow> schedule_item" where
  "insert_due_configs configs current_ti item =
     fold (\<lambda>(uuid, cycle) it. if current_ti smod cycle = 0 then insertScheduleConfig uuid it else it)
       configs item"

definition configure :: "nat \<Rightarrow> schedule_configs \<Rightarrow> schedule_map \<Rightarrow> (bool \<times> schedule_map) option" where
  "configure item_size configs m =
     (case calculate_lcm_and_gcd configs of
        Inl _ \<Rightarrow> Some (True, m\<lparr>schedule_vector := [], current_index := 0\<rparr>)
      | Inr (lcm_us, gcd_us) \<Rightarrow>
          if gcd_us = 0 then None
          else
            let schedule = lcm_us sdiv gcd_us in
            if take_bit 64 schedule > int (MAX_FEP_SCHEDULE_SIZE item_size)
            then Some (False, m\<lparr>schedule_vector := []\<rparr>)
            else
              let v = resize (nat schedule) (schedule_vector m) in
              Some (True, m\<lparr>
                schedule_vector :=
                  map (\<lambda>i. insert_due_configs configs (int64 (gcd_us * int i)) (v ! i)) [0..<length v],
                cycle_time_us := gcd_us,
                current_index := 0\<rparr>))"

definition reset :: "schedule_map \<Rightarrow> schedule_map" where
  "reset m = m\<lparr>schedule_vector := [], cycle_time_us := 0\<rparr>"

definition refCurrentScheduleItem :: "schedule_map \<Rightarrow> schedule_item option" where
  "refCurrentScheduleItem m =
     (if current_index m < length (schedule_vector m)
      then Some (schedule_vector m ! current_index m) else None)"

definition setCurrentScheduleItem :: "schedule_item \<Rightarrow> schedule_map \<Rightarrow> schedule_map" where
  "setCurrentScheduleItem item m =
     m\<lparr>schedule_vector := (schedule_vector m)[current_index m := item]\<rparr>"

definition markStepForCurrentSchedule :: "string \<Rightarrow> schedule_map \<Rightarrow> (bool \<times> schedule_map) option" where
  "markStepForCurrentSchedule sender_uuid m =
     (if length (schedule_vector m) = 0 then Some (False, m)
      else case refCurrentScheduleItem m of
        None \<Rightarrow> None
      | Some item \<Rightarrow>
          let (changed, item') = item_markStepForCurrentSchedule sender_uuid item
          in Some (changed, setCurrentScheduleItem item' m))"

definition isCurrentScheduleComplete :: "schedule_map \<Rightarrow> bool option" where
  "isCurrentScheduleComplete m =
     (if length (schedule_vector m) = 0 then Some False
      else map_option item_isCurrentScheduleComplete (refCurrentScheduleItem m))"

definition isStepInCurrentSchedule :: "schedule_map \<Rightarrow> bool option" where
  "isStepInCurrentSchedule m = map_option item_isStepInCurrentSchedule (refCurrentScheduleItem m)"

definition isConfiguredStepInCurrentSchedule :: "schedule_map \<Rightarrow> bool option" where
  "isConfiguredStepInCurrentSchedule m =
     map_option item_isConfiguredStepInCurrentSchedule (refCurrentScheduleItem m)"

definition clearStepCompleteInternal :: "schedule_map \<Rightarrow> schedule_map option" where
  "clearStepCompleteInternal m =
     (if length (schedule_vector m) = 0 then Some m
      else case refCurrentScheduleItem m of
        None \<Rightarrow> None
      | Some item \<Rightarrow> Some (setCurrentScheduleItem (item_clearStepCompleteInternal item) m))"

definition clearStepComplete :: "schedule_map \<Rightarrow> schedule_map option" where
  "clearStepComplete m = clearStepCompleteInternal m"

definition incrementCurrentSchedule :: "schedule_map \<Rightarrow> schedule_map option" where
  "incrementCurrentSchedule m =
     (case clearStepCompleteInternal m of
        None \<Rightarrow> None
      | Some m' \<Rightarrow>
          let i = current_index m' + 1 in
          Some (m'\<lparr>current_index := (if i \<ge> length (schedule_vector m') then 0 else i)\<rparr>))"

text \<open>The loop of \<open>gotoNextScheduleContainingSteps\<close>; \<open>result\<close> is its local variable.\<close>

partial_function (option) goto_loop :: "schedule_map \<Rightarrow> timestamp_t \<Rightarrow> (timestamp_t \<times> schedule_map) option" where
  "goto_loop m result =
     (case isStepInCurrentSchedule m of
        None \<Rightarrow> None
      | Some has_step \<Rightarrow>
          if has_step then Some (result, m)
          else case incrementCurrentSchedule m of
             None \<Rightarrow> None
           | Some m' \<Rightarrow> goto_loop m' (result + cycle_time_us m'))"

definition gotoNextScheduleContainingSteps :: "schedule_map \<Rightarrow> (timestamp_t \<times> schedule_map) option" where
  "gotoNextScheduleContainingSteps m =
     (case incrementCurrentSchedule m of
        None \<Rightarrow> None
      | Some m' \<Rightarrow>
          (case goto_loop m' (cycle_time_us m') of
             None \<Rightarrow> None
           | Some (result, m'') \<Rightarrow> Some (cycle_time_us m'', m'')))"

definition getCycleTime :: "schedule_map \<Rightarrow> timestamp_t" where
  "getCycleTime m = cycle_time_us m"

section \<open>The helper computes gcd and lcm\<close>

lemma mod_pos_cases: "0 < b \<Longrightarrow> a mod b = 0 \<or> 0 < a mod (b :: int)"
  using pos_mod_sign [of b a] by linarith

lemma CalcHelper_GCD_gcd: "0 < a \<Longrightarrow> 0 \<le> b \<Longrightarrow> CalcHelper_GCD a b = gcd a b"
proof (induction a b rule: CalcHelper_GCD.induct)
  case (1 a b)
  define r where "r = b mod a"
  have m: "b smod a = r" using "1.prems" by (simp add: smod_eq_mod r_def)
  have g: "gcd a b = gcd a r"
    using gcd_red_int [of b a] by (simp add: gcd.commute r_def)
  show ?case
  proof (cases "r = 0")
    case True
    with m g "1.prems" show ?thesis by (simp add: CalcHelper_GCD.simps [of a b])
  next
    case False
    with "1.prems" mod_pos_cases [of a b] have pos: "0 < r" by (simp add: r_def)
    have step: "CalcHelper_GCD a b = CalcHelper_GCD (a mod r) r"
      using m pos "1.prems" by (simp add: CalcHelper_GCD.simps [of a b] smod_eq_mod Let_def)
    have g': "gcd a r = gcd (a mod r) r"
      using gcd_red_int [of a r] by (simp add: gcd.commute)
    show ?thesis
    proof (cases "a mod r = 0")
      case True
      with step g g' pos show ?thesis by (simp add: CalcHelper_GCD.simps [of 0])
    next
      case False
      with pos mod_pos_cases [of r a] have "0 < a mod r" by simp
      then have "CalcHelper_GCD (a mod r) r = gcd (a mod r) r"
        using "1.IH" [OF _ refl] m pos "1.prems" by (simp add: smod_eq_mod)
      with step g g' show ?thesis by simp
    qed
  qed
qed

lemma CalcHelper_LCM_lcm:
  assumes "0 < a" "0 < b" "in_int64 (lcm a b)"
  shows "CalcHelper_LCM a b = lcm a b"
proof -
  have "a div gcd a b * b = a * b div gcd a b"
    by (simp add: dvd_div_mult)
  also have "\<dots> = lcm a b"
    using assms(1,2) by (simp add: lcm_gcd pos_imp_zdiv_nonneg_iff)
  finally show ?thesis
    using assms by (simp add: CalcHelper_LCM_def CalcHelper_GCD_gcd sdiv_eq_div int64_id Let_def)
qed

lemma Lcm_pos: "\<forall>x \<in> set v. 0 < (x :: int) \<Longrightarrow> 0 < Lcm (set v)"
  by (induction v) (auto simp: lcm_pos_int)

lemma lcm_fold:
  "\<forall>x \<in> set v. 0 < x \<Longrightarrow> 0 < acc \<Longrightarrow> in_int64 (lcm acc (Lcm (set v))) \<Longrightarrow>
   fold (\<lambda>x acc. CalcHelper_LCM acc x) v acc = lcm acc (Lcm (set v))"
proof (induction v arbitrary: acc)
  case Nil
  then show ?case by simp
next
  case (Cons x v)
  let ?l = "lcm (lcm acc x) (Lcm (set v))"
  have l: "lcm acc (Lcm (set (x # v))) = ?l" by (simp add: lcm.assoc)
  have pos: "0 < lcm acc x" "0 < Lcm (set v)"
    using Cons.prems by (auto simp: lcm_pos_int Lcm_pos)
  have "0 < ?l"
    using pos lcm_pos_int [of "lcm acc x" "Lcm (set v)"] by linarith
  then have "lcm acc x \<le> ?l"
    by (rule zdvd_imp_le [OF dvd_lcm1])
  moreover have "in_int64 ?l"
    using Cons.prems(3) unfolding l .
  ultimately have "in_int64 (lcm acc x)"
    using pos(1) in_int64_between by (meson less_imp_le)
  then have "CalcHelper_LCM acc x = lcm acc x"
    using Cons.prems by (intro CalcHelper_LCM_lcm) auto
  then show ?case
    using Cons.IH [of "lcm acc x"] Cons.prems pos by (simp add: lcm.assoc)
qed

lemma lcm_of_Lcm:
  "\<forall>x \<in> set v. 0 < x \<Longrightarrow> in_int64 (Lcm (set v)) \<Longrightarrow> lcm_of v = Lcm (set v)"
  by (simp add: lcm_of_def lcm_fold)

lemma gcd_fold:
  "\<forall>x \<in> set v. 0 < x \<Longrightarrow> 0 < acc \<Longrightarrow>
   fold (\<lambda>x acc. CalcHelper_GCD acc x) v acc = gcd acc (Gcd (set v))"
  by (induction v arbitrary: acc) (simp_all add: CalcHelper_GCD_gcd gcd.assoc)

lemma gcd_of_Gcd: "v \<noteq> [] \<Longrightarrow> \<forall>x \<in> set v. 0 < x \<Longrightarrow> gcd_of v = Gcd (set v)"
  by (cases v) (simp_all add: gcd_of_def gcd_fold CalcHelper_GCD_gcd gcd.assoc [symmetric])

section \<open>What a schedule item holds\<close>

definition item_wf :: "schedule_item \<Rightarrow> bool" where
  "item_wf item \<longleftrightarrow> sm_wf (schedule_received_map item) \<and>
     (has_configured_step item \<longleftrightarrow> (\<exists>u \<in> dom (map_of (schedule_received_map item)). u \<noteq> []))"

lemma dom_map_of_fst: "dom (map_of m) = fst ` set m"
  by (simp add: dom_map_of_conv_image_fst)

lemma item_wf_new [simp]: "item_wf new_schedule_item"
  by (simp add: item_wf_def new_schedule_item_def)

lemma received_insertScheduleConfig:
  "item_wf item \<Longrightarrow> map_of (schedule_received_map (insertScheduleConfig u item)) u' =
     (if u' = u \<and> map_of (schedule_received_map item) u = None then Some False
      else map_of (schedule_received_map item) u')"
  by (simp add: insertScheduleConfig_def item_wf_def map_of_sm_insert Let_def)

lemma item_wf_insertScheduleConfig [simp]: "item_wf item \<Longrightarrow> item_wf (insertScheduleConfig u item)"
  by (auto simp: insertScheduleConfig_def item_wf_def dom_map_of_fst list_ex_iff split_def Let_def)

definition due_uuids :: "schedule_configs \<Rightarrow> timestamp_t \<Rightarrow> string set" where
  "due_uuids configs t = {u. \<exists>c. (u, c) \<in> set configs \<and> t smod c = 0}"

lemma insert_due_configs_received:
  assumes "item_wf item"
  shows "item_wf (insert_due_configs configs t item) \<and>
    map_of (schedule_received_map (insert_due_configs configs t item)) u =
      (if map_of (schedule_received_map item) u = None \<and> u \<in> due_uuids configs t then Some False
       else map_of (schedule_received_map item) u)"
  using assms
proof (induction configs arbitrary: item)
  case Nil
  then show ?case by (simp add: insert_due_configs_def due_uuids_def)
next
  case (Cons uc configs)
  obtain v c where uc: "uc = (v, c)" by (cases uc)
  let ?item = "if t smod c = 0 then insertScheduleConfig v item else item"
  have "insert_due_configs (uc # configs) t item = insert_due_configs configs t ?item"
    by (simp add: insert_due_configs_def uc)
  moreover have "item_wf ?item" using Cons.prems by simp
  ultimately show ?case
    using Cons.IH [of ?item] Cons.prems
    by (auto simp: received_insertScheduleConfig due_uuids_def uc)
qed

definition due_item :: "schedule_configs \<Rightarrow> timestamp_t \<Rightarrow> schedule_item" where
  "due_item configs t = insert_due_configs configs t new_schedule_item"

lemma item_wf_due_item [simp]: "item_wf (due_item configs t)"
  using insert_due_configs_received [of new_schedule_item] by (simp add: due_item_def)

lemma received_due_item:
  "map_of (schedule_received_map (due_item configs t)) u =
     (if u \<in> due_uuids configs t then Some False else None)"
  using insert_due_configs_received [OF item_wf_new, of configs t u]
  by (simp add: due_item_def) (simp add: new_schedule_item_def)

section \<open>The interface the timing master relies on\<close>

text \<open>
  A schedule over a counter of steps: \<open>rel n A m\<close> says that \<open>m\<close> stands at step \<open>n\<close> and the tasks in
  \<open>A\<close> have acknowledged it; \<open>due n u\<close> says that task \<open>u\<close> takes part in step \<open>n\<close>.
\<close>

locale step_schedule =
  fixes rel :: "nat \<Rightarrow> string set \<Rightarrow> 'm \<Rightarrow> bool"
    and due :: "nat \<Rightarrow> string \<Rightarrow> bool"
    and mark :: "string \<Rightarrow> 'm \<Rightarrow> (bool \<times> 'm) option"
    and complete :: "'m \<Rightarrow> bool option"
    and has_step :: "'m \<Rightarrow> bool option"
    and has_configured :: "'m \<Rightarrow> bool option"
    and increment :: "'m \<Rightarrow> 'm option"
  assumes mark_rel: "rel n A m \<Longrightarrow>
      \<exists>m'. mark u m = Some (due n u \<and> u \<notin> A, m') \<and> rel n (if due n u then insert u A else A) m'"
    and complete_rel: "rel n A m \<Longrightarrow> complete m = Some ({u. due n u \<and> u \<noteq> []} \<subseteq> A)"
    and has_step_rel: "rel n A m \<Longrightarrow> has_step m = Some (\<exists>u. due n u)"
    and has_configured_rel: "rel n A m \<Longrightarrow> has_configured m = Some (\<exists>u. due n u \<and> u \<noteq> [])"
    and increment_rel: "rel n A m \<Longrightarrow> \<exists>m'. increment m = Some m' \<and> rel (Suc n) {} m'"

fun mark_all :: "(string \<Rightarrow> 'm \<Rightarrow> (bool \<times> 'm) option) \<Rightarrow> string list \<Rightarrow> 'm \<Rightarrow> 'm option" where
  "mark_all mark [] m = Some m"
| "mark_all mark (u # us) m =
     (case mark u m of None \<Rightarrow> None | Some (changed, m') \<Rightarrow> mark_all mark us m')"

context step_schedule begin

lemma mark_all_rel: "rel n A m \<Longrightarrow>
    \<exists>m'. mark_all mark us m = Some m' \<and> rel n (A \<union> {u \<in> set us. due n u}) m'"
proof (induction us arbitrary: A m)
  case Nil
  then show ?case by simp
next
  case (Cons u us)
  obtain m1 where m1: "mark u m = Some (due n u \<and> u \<notin> A, m1)"
      and r1: "rel n (if due n u then insert u A else A) m1"
    using mark_rel [OF Cons.prems] by blast
  obtain m2 where "mark_all mark us m1 = Some m2"
      and "rel n ((if due n u then insert u A else A) \<union> {u \<in> set us. due n u}) m2"
    using Cons.IH [OF r1] by blast
  moreover have "(if due n u then insert u A else A) \<union> {u \<in> set us. due n u} =
      A \<union> {v \<in> set (u # us). due n v}"
    by auto
  ultimately show ?case using m1 by auto
qed

text \<open>Acknowledgements complete a fresh step in any order, and only when none is missing.\<close>

lemma complete_after_marks:
  "rel n {} m \<Longrightarrow> \<exists>m'. mark_all mark us m = Some m' \<and>
     complete m' = Some ({u. due n u \<and> u \<noteq> []} \<subseteq> set us)"
  using mark_all_rel [of n "{}" m us] complete_rel by fastforce

lemma not_waiting_complete:
  "rel n A m \<Longrightarrow> has_configured m = Some False \<Longrightarrow> complete m = Some True"
  using has_configured_rel complete_rel by auto

end

section \<open>The schedule map provides it\<close>

definition cycles :: "schedule_configs \<Rightarrow> int set" where
  "cycles configs = snd ` set configs"

definition configs_ok :: "schedule_configs \<Rightarrow> bool" where
  "configs_ok configs \<longleftrightarrow> sm_wf configs \<and> configs \<noteq> [] \<and> list_all (\<lambda>(u, c). 0 < c) configs \<and>
     in_int64 (Lcm (cycles configs))"

definition schedule_length :: "schedule_configs \<Rightarrow> nat" where
  "schedule_length configs = nat (Lcm (cycles configs) div Gcd (cycles configs))"

definition due :: "schedule_configs \<Rightarrow> nat \<Rightarrow> string \<Rightarrow> bool" where
  "due configs n u \<longleftrightarrow> (\<exists>c. (u, c) \<in> set configs \<and> c dvd Gcd (cycles configs) * int n)"

definition sched_rel :: "schedule_configs \<Rightarrow> nat \<Rightarrow> string set \<Rightarrow> schedule_map \<Rightarrow> bool" where
  "sched_rel configs n A m \<longleftrightarrow> configs_ok configs \<and> A \<subseteq> Collect (due configs n) \<and>
     length (schedule_vector m) = schedule_length configs \<and>
     cycle_time_us m = Gcd (cycles configs) \<and>
     current_index m = n mod schedule_length configs \<and>
     (\<forall>i < schedule_length configs. item_wf (schedule_vector m ! i) \<and>
        (\<forall>u. map_of (schedule_received_map (schedule_vector m ! i)) u =
          (if u \<in> due_uuids configs (Gcd (cycles configs) * int i)
           then Some (i = current_index m \<and> u \<in> A) else None)))"

lemma configs_ok_pos: "configs_ok configs \<Longrightarrow> c \<in> cycles configs \<Longrightarrow> 0 < c"
  by (auto simp: configs_ok_def cycles_def list_all_iff)

lemma finite_cycles [simp]: "finite (cycles configs)"
  by (simp add: cycles_def)

lemma Gcd_cycles_pos: "configs_ok configs \<Longrightarrow> 0 < Gcd (cycles configs)"
proof -
  assume ok: "configs_ok configs"
  then obtain c where "c \<in> cycles configs"
    by (cases configs) (auto simp: configs_ok_def cycles_def)
  then have "Gcd (cycles configs) \<noteq> 0"
    using configs_ok_pos [OF ok] by fastforce
  moreover have "0 \<le> Gcd (cycles configs)" by simp
  ultimately show ?thesis by linarith
qed

lemma cycles_nonzero: "configs_ok configs \<Longrightarrow> \<not> cycles configs \<subseteq> {0}"
  using Gcd_cycles_pos [of configs] by (metis Gcd_0_iff less_irrefl)

lemma Lcm_cycles_pos: "configs_ok configs \<Longrightarrow> 0 < Lcm (cycles configs)"
  using Lcm_pos [of "map snd configs"] configs_ok_pos by (auto simp: cycles_def)

lemma Gcd_dvd_Lcm_cycles: "configs_ok configs \<Longrightarrow> Gcd (cycles configs) dvd Lcm (cycles configs)"
  by (cases configs) (auto simp: configs_ok_def cycles_def)

lemma schedule_length_mult:
  "configs_ok configs \<Longrightarrow> Gcd (cycles configs) * int (schedule_length configs) = Lcm (cycles configs)"
  using Gcd_dvd_Lcm_cycles Gcd_cycles_pos Lcm_cycles_pos
  by (simp add: schedule_length_def pos_imp_zdiv_nonneg_iff less_imp_le)

lemma schedule_length_pos: "configs_ok configs \<Longrightarrow> 0 < schedule_length configs"
  using schedule_length_mult [of configs] Lcm_cycles_pos [of configs] by (cases "schedule_length configs") auto

text \<open>The ring of items agrees with the unbounded step counter.\<close>

lemma due_uuids_mod:
  assumes "configs_ok configs"
  shows "u \<in> due_uuids configs (Gcd (cycles configs) * int (n mod schedule_length configs)) \<longleftrightarrow>
         due configs n u"
proof -
  let ?g = "Gcd (cycles configs)" and ?l = "schedule_length configs"
  have "?g * int n = ?g * int (n mod ?l) + Lcm (cycles configs) * int (n div ?l)"
    using schedule_length_mult [OF assms]
    by (metis distrib_left mod_mult_div_eq mult.assoc of_nat_add of_nat_mult)
  moreover have "(?g * int k) smod c = 0 \<longleftrightarrow> c dvd ?g * int k" if "c \<in> cycles configs" for c k
    using that configs_ok_pos [OF assms] Gcd_cycles_pos [OF assms]
    by (simp add: smod_eq_mod dvd_eq_mod_eq_0)
  moreover have "c dvd Lcm (cycles configs)" if "c \<in> cycles configs" for c
    using that by simp
  moreover have "c \<in> cycles configs" if "(u, c) \<in> set configs" for c
    using that by (force simp: cycles_def)
  ultimately show ?thesis
    by (auto simp: due_uuids_def due_def dvd_add_left_iff)
qed

lemma sched_rel_index: "sched_rel configs n A m \<Longrightarrow> current_index m < schedule_length configs"
  by (simp add: sched_rel_def schedule_length_pos)

lemma sched_rel_current:
  assumes "sched_rel configs n A m"
  shows "\<exists>item. refCurrentScheduleItem m = Some item \<and> item_wf item \<and> schedule_vector m \<noteq> [] \<and>
    (\<forall>u. map_of (schedule_received_map item) u = (if due configs n u then Some (u \<in> A) else None))"
  using assms sched_rel_index [OF assms] due_uuids_mod [of configs _ n]
  by (auto simp: sched_rel_def refCurrentScheduleItem_def)

lemma item_complete_iff:
  "item_wf item \<Longrightarrow> item_isCurrentScheduleComplete item \<longleftrightarrow>
     (\<forall>u. u \<noteq> [] \<longrightarrow> map_of (schedule_received_map item) u \<noteq> Some False)"
  by (auto simp: item_isCurrentScheduleComplete_def item_wf_def list_all_iff sm_wf_distinct)

lemma item_wf_clear: "item_wf item \<Longrightarrow> item_wf (item_clearStepCompleteInternal item) \<and>
   map_of (schedule_received_map (item_clearStepCompleteInternal item)) u =
     map_option (\<lambda>_. False) (map_of (schedule_received_map item) u)"
  by (simp add: item_wf_def item_clearStepCompleteInternal_def map_of_map_values dom_def)

lemma dom_sm_assign: "sm_wf m \<Longrightarrow> dom (map_of (sm_assign k v m)) = insert k (dom (map_of m))"
  by (auto simp: map_of_sm_assign dom_def)

lemma item_wf_mark:
  assumes "item_wf item" and "item_markStepForCurrentSchedule u item = (changed, item')"
  shows "item_wf item' \<and> changed = (map_of (schedule_received_map item) u = Some False) \<and>
   map_of (schedule_received_map item') v =
     (if v = u \<and> u \<in> dom (map_of (schedule_received_map item)) then Some True
      else map_of (schedule_received_map item) v)"
proof (cases "map_of (schedule_received_map item) u = Some False")
  case True
  with assms have item': "changed" "item' = item\<lparr>schedule_received_map :=
      sm_assign u True (schedule_received_map item)\<rparr>" and wf: "sm_wf (schedule_received_map item)"
    by (auto simp: item_markStepForCurrentSchedule_def item_wf_def)
  from True have ud: "u \<in> dom (map_of (schedule_received_map item))"
    by (rule domI)
  from insert_absorb [OF this]
  have "dom (map_of (schedule_received_map item')) = dom (map_of (schedule_received_map item))"
    by (simp add: item' dom_sm_assign wf)
  then have "item_wf item'"
    using assms(1) by (simp add: item_wf_def item')
  with item' True wf ud show ?thesis
    by (simp add: map_of_sm_assign)
next
  case False
  with assms show ?thesis
    by (auto simp: item_markStepForCurrentSchedule_def split: option.splits if_splits)
qed

lemma sched_rel_setCurrent:
  assumes "sched_rel configs n A m" and "item_wf item" and "B \<subseteq> Collect (due configs n)"
    and "\<And>u. map_of (schedule_received_map item) u = (if due configs n u then Some (u \<in> B) else None)"
  shows "sched_rel configs n B (setCurrentScheduleItem item m)"
  using assms sched_rel_index [OF assms(1)] due_uuids_mod [of configs _ n]
  by (auto simp: sched_rel_def setCurrentScheduleItem_def nth_list_update)

lemma mark_sched_rel:
  assumes "sched_rel configs n A m"
  shows "\<exists>m'. markStepForCurrentSchedule u m = Some (due configs n u \<and> u \<notin> A, m') \<and>
    sched_rel configs n (if due configs n u then insert u A else A) m'"
proof -
  obtain item where item: "refCurrentScheduleItem m = Some item" "item_wf item"
      "schedule_vector m \<noteq> []"
      "\<And>u. map_of (schedule_received_map item) u = (if due configs n u then Some (u \<in> A) else None)"
    using sched_rel_current [OF assms] by blast
  obtain changed item' where mk: "item_markStepForCurrentSchedule u item = (changed, item')"
    by (cases "item_markStepForCurrentSchedule u item")
  let ?B = "if due configs n u then insert u A else A"
  note mk' = item_wf_mark [OF item(2) mk, unfolded item(4) dom_def]
  have "map_of (schedule_received_map item') v = (if due configs n v then Some (v \<in> ?B) else None)" for v
    using mk' [of v] by (auto split: if_splits)
  moreover have "?B \<subseteq> Collect (due configs n)"
    using assms by (auto simp: sched_rel_def)
  ultimately have "sched_rel configs n ?B (setCurrentScheduleItem item' m)"
    using assms mk' by (blast intro: sched_rel_setCurrent)
  moreover have "changed = (due configs n u \<and> u \<notin> A)"
    using mk' by auto
  ultimately show ?thesis
    using item mk by (simp add: markStepForCurrentSchedule_def)
qed

lemma clear_sched_rel:
  assumes "sched_rel configs n A m"
  shows "\<exists>m'. clearStepCompleteInternal m = Some m' \<and> sched_rel configs n {} m'"
proof -
  obtain item where item: "refCurrentScheduleItem m = Some item" "item_wf item"
      "schedule_vector m \<noteq> []"
      "\<And>u. map_of (schedule_received_map item) u = (if due configs n u then Some (u \<in> A) else None)"
    using sched_rel_current [OF assms] by blast
  have "sched_rel configs n {} (setCurrentScheduleItem (item_clearStepCompleteInternal item) m)"
    using assms item_wf_clear [OF item(2)] item(4) by (intro sched_rel_setCurrent) auto
  then show ?thesis using item by (simp add: clearStepCompleteInternal_def)
qed

lemma advance_index:
  assumes "0 < (l :: nat)"
  shows "(if n mod l + 1 \<ge> l then 0 else n mod l + 1) = Suc n mod l"
proof -
  have "n mod l < l" using assms by simp
  then show ?thesis by (auto simp: mod_Suc)
qed

lemma increment_sched_rel:
  assumes "sched_rel configs n A m"
  shows "\<exists>m'. incrementCurrentSchedule m = Some m' \<and> sched_rel configs (Suc n) {} m'"
proof -
  obtain m' where m': "clearStepCompleteInternal m = Some m'" "sched_rel configs n {} m'"
    using clear_sched_rel [OF assms] by blast
  let ?i = "if current_index m' + 1 \<ge> length (schedule_vector m') then 0 else current_index m' + 1"
  from m'(2) have "?i = Suc n mod schedule_length configs"
    using advance_index [of "schedule_length configs" n] schedule_length_pos [of configs]
    unfolding sched_rel_def by auto
  with m'(2) have "sched_rel configs (Suc n) {} (m'\<lparr>current_index := ?i\<rparr>)"
    by (simp add: sched_rel_def)
  moreover have "incrementCurrentSchedule m = Some (m'\<lparr>current_index := ?i\<rparr>)"
    using m'(1) by (simp add: incrementCurrentSchedule_def Let_def)
  ultimately show ?thesis by blast
qed

lemma complete_sched_rel:
  "sched_rel configs n A m \<Longrightarrow>
   isCurrentScheduleComplete m = Some ({u. due configs n u \<and> u \<noteq> []} \<subseteq> A)"
  using sched_rel_current [of configs n A m]
  by (auto simp: isCurrentScheduleComplete_def item_complete_iff)

lemma map_empty_iff: "m = [] \<longleftrightarrow> (\<forall>k. map_of m k = None)"
  by (cases m) auto

lemma has_step_sched_rel:
  "sched_rel configs n A m \<Longrightarrow> isStepInCurrentSchedule m = Some (\<exists>u. due configs n u)"
  using sched_rel_current [of configs n A m]
  by (auto simp: isStepInCurrentSchedule_def item_isStepInCurrentSchedule_def map_empty_iff)

lemma has_configured_sched_rel:
  "sched_rel configs n A m \<Longrightarrow>
   isConfiguredStepInCurrentSchedule m = Some (\<exists>u. due configs n u \<and> u \<noteq> [])"
  using sched_rel_current [of configs n A m]
  by (auto simp: isConfiguredStepInCurrentSchedule_def item_isConfiguredStepInCurrentSchedule_def
      item_wf_def dom_def split: if_splits)

interpretation sched: step_schedule "sched_rel configs" "due configs"
    markStepForCurrentSchedule isCurrentScheduleComplete isStepInCurrentSchedule
    isConfiguredStepInCurrentSchedule incrementCurrentSchedule for configs
  by unfold_locales
    (rule mark_sched_rel complete_sched_rel has_step_sched_rel has_configured_sched_rel
      increment_sched_rel; assumption)+

section \<open>Configuring the schedule\<close>

lemma calculate_lcm_and_gcd_ok:
  "configs_ok configs \<Longrightarrow>
   calculate_lcm_and_gcd configs = Inr (Lcm (cycles configs), Gcd (cycles configs))"
  using configs_ok_pos [of configs] lcm_of_Lcm [of "map snd configs"] gcd_of_Gcd [of "map snd configs"]
  by (auto simp: calculate_lcm_and_gcd_def configs_ok_def cycles_def)

lemma schedule_length_int:
  "configs_ok configs \<Longrightarrow>
   Lcm (cycles configs) sdiv Gcd (cycles configs) = int (schedule_length configs)"
  using Gcd_cycles_pos Lcm_cycles_pos
  by (simp add: sdiv_eq_div schedule_length_def pos_imp_zdiv_nonneg_iff less_imp_le)

lemma schedule_length_range:
  assumes "configs_ok configs"
  shows "int (schedule_length configs) < 2 ^ 63"
proof -
  have "int (schedule_length configs) * 1 \<le> int (schedule_length configs) * Gcd (cycles configs)"
    using Gcd_cycles_pos [OF assms] by (intro mult_left_mono) auto
  then show ?thesis
    using schedule_length_mult [OF assms] assms by (simp add: configs_ok_def in_int64_def mult.commute)
qed

lemma take_bit_schedule_length:
  "configs_ok configs \<Longrightarrow> take_bit 64 (int (schedule_length configs)) = int (schedule_length configs)"
  using schedule_length_range by (intro take_bit_int_eq_self) force+

lemma step_time_range:
  assumes "configs_ok configs" "i < schedule_length configs"
  shows "int64 (Gcd (cycles configs) * int i) = Gcd (cycles configs) * int i"
proof (rule int64_id, rule in_int64_between [of "Lcm (cycles configs)"])
  show "in_int64 (Lcm (cycles configs))" using assms(1) by (simp add: configs_ok_def)
  show "0 \<le> Gcd (cycles configs) * int i" by simp
  show "Gcd (cycles configs) * int i \<le> Lcm (cycles configs)"
    using assms(2) schedule_length_mult [OF assms(1)] Gcd_cycles_pos [OF assms(1)]
    by (metis less_imp_le mult_left_mono of_nat_le_iff)
qed

lemma sched_rel_initial:
  assumes "configs_ok configs" "schedule_vector m = map (due_item configs)
      (map (\<lambda>i. Gcd (cycles configs) * int i) [0..<schedule_length configs])"
    and "cycle_time_us m = Gcd (cycles configs)" "current_index m = 0"
  shows "sched_rel configs 0 {} m"
  using assms by (simp add: sched_rel_def received_due_item)

lemma configure_small:
  assumes ok: "configs_ok configs" and empty: "schedule_vector m = []"
    and small: "schedule_length configs \<le> MAX_FEP_SCHEDULE_SIZE item_size"
  shows "\<exists>m'. configure item_size configs m = Some (True, m') \<and> sched_rel configs 0 {} m'"
proof -
  let ?l = "schedule_length configs" and ?g = "Gcd (cycles configs)"
  let ?m = "m\<lparr>schedule_vector := map (\<lambda>i. due_item configs (?g * int i)) [0..<?l],
              cycle_time_us := ?g, current_index := 0\<rparr>"
  have "configure item_size configs m = Some (True, ?m)"
    using small empty cycles_nonzero [OF ok]
    by (simp add: configure_def calculate_lcm_and_gcd_ok [OF ok] schedule_length_int [OF ok]
        take_bit_schedule_length [OF ok] resize_def due_item_def step_time_range [OF ok] Let_def
        cong: map_cong)
  moreover have "sched_rel configs 0 {} ?m"
    using ok by (intro sched_rel_initial) (simp_all add: comp_def)
  ultimately show ?thesis by blast
qed

lemma configure_large:
  assumes "configs_ok configs" "\<not> schedule_length configs \<le> MAX_FEP_SCHEDULE_SIZE item_size"
  shows "configure item_size configs m = Some (False, m\<lparr>schedule_vector := []\<rparr>)"
  using assms(2) cycles_nonzero [OF assms(1)]
  by (simp add: configure_def calculate_lcm_and_gcd_ok [OF assms(1)] schedule_length_int [OF assms(1)]
      take_bit_schedule_length [OF assms(1)] Let_def)

section \<open>The next schedule with steps\<close>

text \<open>Some step lies ahead: at the latest the one where the ring starts over.\<close>

definition next_due :: "schedule_configs \<Rightarrow> nat \<Rightarrow> nat" where
  "next_due configs n = (LEAST k. n < k \<and> (\<exists>u. due configs k u))"

lemma due_at_wrap: "configs_ok configs \<Longrightarrow> \<exists>u. due configs (schedule_length configs * k) u"
proof -
  assume ok: "configs_ok configs"
  then obtain u c where "(u, c) \<in> set configs"
    by (cases configs) (auto simp: configs_ok_def)
  moreover then have "c dvd Lcm (cycles configs) * int k"
    by (intro dvd_mult2 dvd_Lcm) (force simp: cycles_def)
  then have "c dvd Gcd (cycles configs) * int (schedule_length configs * k)"
    using schedule_length_mult [OF ok] by (simp add: mult.assoc [symmetric])
  ultimately show ?thesis by (auto simp: due_def)
qed

lemma next_due_exists:
  assumes "configs_ok configs"
  shows "n < next_due configs n \<and> (\<exists>u. due configs (next_due configs n) u)"
proof -
  have "n < schedule_length configs * Suc n"
    using schedule_length_pos [OF assms] by (cases "schedule_length configs") auto
  with due_at_wrap [OF assms, of "Suc n"]
  have "n < schedule_length configs * Suc n \<and> (\<exists>u. due configs (schedule_length configs * Suc n) u)"
    by blast
  then show ?thesis unfolding next_due_def by (rule LeastI)
qed

lemma next_due_least: "n < k \<Longrightarrow> k < next_due configs n \<Longrightarrow> \<not> due configs k u"
  unfolding next_due_def using not_less_Least by blast

lemma goto_loop_rel:
  "sched_rel configs k {} m \<Longrightarrow> n < k \<Longrightarrow> k \<le> next_due configs n \<Longrightarrow>
   \<exists>m'. goto_loop m result =
       Some (result + Gcd (cycles configs) * int (next_due configs n - k), m') \<and>
     sched_rel configs (next_due configs n) {} m'"
proof (induction "next_due configs n - k" arbitrary: k m result)
  case 0
  then have k: "k = next_due configs n" by simp
  with 0 have "\<exists>u. due configs k u"
    using next_due_exists [of configs n] by (simp add: sched_rel_def)
  with 0 k show ?case
    by (simp add: goto_loop.simps [of m] sched.has_step_rel)
next
  case (Suc d)
  then have nodue: "\<not> (\<exists>u. due configs k u)" using next_due_least [of n k configs] by auto
  obtain m' where m': "incrementCurrentSchedule m = Some m'" "sched_rel configs (Suc k) {} m'"
    using sched.increment_rel [OF Suc.prems(1)] by blast
  have c: "cycle_time_us m' = Gcd (cycles configs)" using m'(2) by (simp add: sched_rel_def)
  have step: "goto_loop m result = goto_loop m' (result + Gcd (cycles configs))"
    using sched.has_step_rel [OF Suc.prems(1)] nodue m'(1) c by (simp add: goto_loop.simps [of m])
  have "result + Gcd (cycles configs) + Gcd (cycles configs) * int (next_due configs n - Suc k)
      = result + Gcd (cycles configs) * int (next_due configs n - k)"
    using Suc.hyps(2) by (simp add: algebra_simps of_nat_diff)
  note eq = this
  have "d = next_due configs n - Suc k" "n < Suc k" "Suc k \<le> next_due configs n"
    using Suc.hyps(2) Suc.prems(2,3) by simp_all
  from Suc.hyps(1) [OF this(1) m'(2) this(2,3), of "result + Gcd (cycles configs)"]
  show ?case unfolding step eq .
qed

lemma goto_rel:
  assumes "sched_rel configs n A m"
  shows "\<exists>m'. gotoNextScheduleContainingSteps m = Some (Gcd (cycles configs), m') \<and>
    sched_rel configs (next_due configs n) {} m'"
proof -
  obtain m1 where m1: "incrementCurrentSchedule m = Some m1" "sched_rel configs (Suc n) {} m1"
    using sched.increment_rel [OF assms] by blast
  have "Suc n \<le> next_due configs n"
    using assms next_due_exists [of configs n] by (simp add: sched_rel_def)
  then obtain m2 r where m2: "goto_loop m1 (cycle_time_us m1) = Some (r, m2)"
      "sched_rel configs (next_due configs n) {} m2"
    using goto_loop_rel [OF m1(2)] by blast
  then show ?thesis
    using m1(1) by (auto simp: gotoNextScheduleContainingSteps_def sched_rel_def)
qed

section \<open>Refinement: the ring of items is a step counter\<close>

text \<open>
  The abstract schedule is the number of the current step and the set of tasks that have
  acknowledged it. A run performs operations one after the other and collects what they return.
\<close>

datatype schedule_op =
    OpMark string | OpIncrement | OpClear | OpComplete | OpHasStep | OpHasConfigured

fun concrete_op :: "schedule_op \<Rightarrow> schedule_map \<Rightarrow> (bool list \<times> schedule_map) option" where
  "concrete_op (OpMark u) m =
     map_option (\<lambda>(changed, m'). ([changed], m')) (markStepForCurrentSchedule u m)"
| "concrete_op OpIncrement m = map_option (\<lambda>m'. ([], m')) (incrementCurrentSchedule m)"
| "concrete_op OpClear m = map_option (\<lambda>m'. ([], m')) (clearStepComplete m)"
| "concrete_op OpComplete m = map_option (\<lambda>b. ([b], m)) (isCurrentScheduleComplete m)"
| "concrete_op OpHasStep m = map_option (\<lambda>b. ([b], m)) (isStepInCurrentSchedule m)"
| "concrete_op OpHasConfigured m = map_option (\<lambda>b. ([b], m)) (isConfiguredStepInCurrentSchedule m)"

fun abstract_op :: "schedule_configs \<Rightarrow> schedule_op \<Rightarrow> nat \<times> string set \<Rightarrow> bool list \<times> nat \<times> string set" where
  "abstract_op cs (OpMark u) (n, A) = ([due cs n u \<and> u \<notin> A], n, if due cs n u then insert u A else A)"
| "abstract_op cs OpIncrement (n, A) = ([], Suc n, {})"
| "abstract_op cs OpClear (n, A) = ([], n, {})"
| "abstract_op cs OpComplete (n, A) = ([{u. due cs n u \<and> u \<noteq> []} \<subseteq> A], n, A)"
| "abstract_op cs OpHasStep (n, A) = ([\<exists>u. due cs n u], n, A)"
| "abstract_op cs OpHasConfigured (n, A) = ([\<exists>u. due cs n u \<and> u \<noteq> []], n, A)"

fun concrete_run :: "schedule_op list \<Rightarrow> schedule_map \<Rightarrow> bool list option" where
  "concrete_run [] m = Some []"
| "concrete_run (x # xs) m =
     (case concrete_op x m of None \<Rightarrow> None
      | Some (out, m') \<Rightarrow> map_option (\<lambda>outs. out @ outs) (concrete_run xs m'))"

fun abstract_run :: "schedule_configs \<Rightarrow> schedule_op list \<Rightarrow> nat \<times> string set \<Rightarrow> bool list" where
  "abstract_run cs [] s = []"
| "abstract_run cs (x # xs) s = (let (out, s') = abstract_op cs x s in out @ abstract_run cs xs s')"

lemma concrete_op_simulates:
  "sched_rel cs n A m \<Longrightarrow> \<exists>out n' A' m'. abstract_op cs x (n, A) = (out, n', A') \<and>
     concrete_op x m = Some (out, m') \<and> sched_rel cs n' A' m'"
proof (cases x)
  case (OpMark u)
  moreover assume "sched_rel cs n A m"
  from sched.mark_rel [OF this, of u] obtain m' where
    "markStepForCurrentSchedule u m = Some (due cs n u \<and> u \<notin> A, m')"
    "sched_rel cs n (if due cs n u then insert u A else A) m'" by blast
  ultimately show ?thesis by (intro exI conjI) auto
next
  case OpIncrement
  moreover assume "sched_rel cs n A m"
  from sched.increment_rel [OF this] obtain m' where
    "incrementCurrentSchedule m = Some m'" "sched_rel cs (Suc n) {} m'" by blast
  ultimately show ?thesis by (intro exI conjI) auto
next
  case OpClear
  moreover assume "sched_rel cs n A m"
  from clear_sched_rel [OF this] obtain m' where
    "clearStepCompleteInternal m = Some m'" "sched_rel cs n {} m'" by blast
  ultimately show ?thesis by (intro exI conjI) (auto simp: clearStepComplete_def)
qed (auto simp: sched.complete_rel sched.has_step_rel sched.has_configured_rel)

lemma concrete_run_simulates:
  "sched_rel cs n A m \<Longrightarrow> concrete_run xs m = Some (abstract_run cs xs (n, A))"
proof (induction xs arbitrary: n A m)
  case Nil
  then show ?case by simp
next
  case (Cons x xs)
  obtain out n' A' m' where "abstract_op cs x (n, A) = (out, n', A')"
      "concrete_op x m = Some (out, m')" "sched_rel cs n' A' m'"
    using concrete_op_simulates [OF Cons.prems] by blast
  with Cons.IH [of n' A' m'] show ?case by simp
qed

section \<open>Properties\<close>

text \<open>
  For cycle times that are positive and whose least common multiple fits into 64 bits, the
  helper computes the mathematical greatest common divisor and least common multiple; no
  intermediate product overflows.
\<close>

theorem calculate_lcm_and_gcd_correct:
  assumes "configs \<noteq> []" and "\<forall>c \<in> snd ` set configs. 0 < c"
    and "in_int64 (Lcm (snd ` set configs))"
  shows "calculate_lcm_and_gcd configs = Inr (Lcm (snd ` set configs), Gcd (snd ` set configs))"
  using assms lcm_of_Lcm [of "map snd configs"] gcd_of_Gcd [of "map snd configs"]
  by (auto simp: calculate_lcm_and_gcd_def Let_def)

theorem calculate_lcm_and_gcd_correct_witness:
  "calculate_lcm_and_gcd [(''a'', 40), (''b'', 60)] = Inr (120, 20)"
proof -
  have "Lcm {40, 60 :: int} = 120" and "Gcd {40, 60 :: int} = 20"
    by code_simp+
  then show ?thesis
    using calculate_lcm_and_gcd_correct [of "[(''a'', 40), (''b'', 60)]"]
    by (simp add: in_int64_def)
qed

text \<open>
  A least common multiple beyond 64 bits defeats the size check. Two tasks with the cycle
  times 274177 and 67280421310721 (whose product is \<open>2^64 + 1\<close>) never share a step after the
  first in the next half million years, and their schedule has more steps than any vector can hold.
  The product wraps to 1, so \<open>configure\<close> accepts the two and builds a schedule with one step, in
  which both tasks are due every microsecond.
\<close>

theorem overflow_defeats_size_check:
  "configure 56 [(''a'', 274177), (''b'', 67280421310721)] new_schedule_map =
     Some (True, \<lparr>schedule_vector = [\<lparr>schedule_received_map = [(''a'', False), (''b'', False)],
                                         has_configured_step = True\<rparr>],
                  cycle_time_us = 1, current_index = 0\<rparr>) \<and>
   lcm 274177 67280421310721 > (2 :: int) ^ 64"
proof -
  have g: "gcd 274177 67280421310721 = (1 :: int)"
    by code_simp
  have "calculate_lcm_and_gcd [(''a'', 274177), (''b'', 67280421310721)] = Inr (1, 1)"
    by (simp add: calculate_lcm_and_gcd_def lcm_of_def gcd_of_def CalcHelper_LCM_def Let_def g
        CalcHelper_GCD_gcd int64_def)
  then show ?thesis
    by (simp add: configure_def MAX_FEP_SCHEDULE_SIZE_def resize_def new_schedule_map_def
        insert_due_configs_def insertScheduleConfig_def new_schedule_item_def Let_def lcm_gcd int64_def g)
qed

text \<open>
  C6: Configured with a sorted, non-empty set of positive cycle times whose least common multiple
  fits into 64 bits, a cleared schedule map gets lcm/gcd items, the tick is the gcd, the position is
  the first item, and item \<open>i\<close> lists exactly the tasks whose cycle time divides the time \<open>i * gcd\<close>,
  none of them acknowledged; when the vector would be too long it refuses and clears the schedule.
\<close>

theorem configure_builds_schedule:
  assumes "configs_ok configs" and "schedule_vector m = []"
  shows "if schedule_length configs \<le> MAX_FEP_SCHEDULE_SIZE item_size
    then \<exists>m'. configure item_size configs m = Some (True, m') \<and>
      length (schedule_vector m') = schedule_length configs \<and>
      getCycleTime m' = Gcd (cycles configs) \<and> current_index m' = 0 \<and>
      (\<forall>i u. i < schedule_length configs \<longrightarrow>
         map_of (schedule_received_map (schedule_vector m' ! i)) u =
           (if \<exists>c. (u, c) \<in> set configs \<and> c dvd Gcd (cycles configs) * int i
            then Some False else None))
    else configure item_size configs m = Some (False, m\<lparr>schedule_vector := []\<rparr>)"
proof (cases "schedule_length configs \<le> MAX_FEP_SCHEDULE_SIZE item_size")
  case True
  then obtain m' where m': "configure item_size configs m = Some (True, m')" "sched_rel configs 0 {} m'"
    using configure_small [OF assms] by blast
  have "map_of (schedule_received_map (schedule_vector m' ! i)) u =
      (if \<exists>c. (u, c) \<in> set configs \<and> c dvd Gcd (cycles configs) * int i then Some False else None)"
    if "i < schedule_length configs" for i u
    using m'(2) that due_uuids_mod [OF assms(1), of u i] by (auto simp: sched_rel_def due_def)
  with m' True show ?thesis by (auto simp: sched_rel_def getCycleTime_def)
next
  case False
  then show ?thesis using configure_large [OF assms(1)] by simp
qed

lemma two_tasks_ok: "configs_ok [(''a'', 40), (''b'', 60)]"
  "schedule_length [(''a'', 40), (''b'', 60)] = 6" "Gcd (cycles [(''a'', 40), (''b'', 60)]) = 20"
proof -
  have "Lcm {40, 60 :: int} = 120" and g: "Gcd {40, 60 :: int} = 20"
    by code_simp+
  then show "configs_ok [(''a'', 40), (''b'', 60)]"
    "schedule_length [(''a'', 40), (''b'', 60)] = 6" "Gcd (cycles [(''a'', 40), (''b'', 60)]) = 20"
    by (simp_all add: configs_ok_def schedule_length_def cycles_def sm_wf_def in_int64_def del: Gcd_insert Lcm_insert)
qed

theorem configure_builds_schedule_witness:
  "\<exists>m'. configure 56 [(''a'', 40), (''b'', 60)] new_schedule_map = Some (True, m') \<and>
     length (schedule_vector m') = 6 \<and> getCycleTime m' = 20"
  using configure_builds_schedule [OF two_tasks_ok(1), of new_schedule_map 56]
  by (auto simp: two_tasks_ok MAX_FEP_SCHEDULE_SIZE_def new_schedule_map_def)

text \<open>
  C3: Refinement. Whatever sequence of acknowledgements, queries, clearings and increments is
  performed on a configured schedule map, no access is out of range and every result is the one of
  the abstract schedule, a step counter with the set of tasks that have acknowledged.
\<close>

theorem schedule_map_refines_step_counter:
  assumes "configs_ok configs" and "schedule_vector m = []"
    and "schedule_length configs \<le> MAX_FEP_SCHEDULE_SIZE item_size"
  shows "\<exists>m'. configure item_size configs m = Some (True, m') \<and>
    (\<forall>xs. concrete_run xs m' = Some (abstract_run configs xs (0, {})))"
  using configure_small [OF assms] concrete_run_simulates by blast

theorem schedule_map_refines_step_counter_witness:
  "\<exists>m'. configure 56 [(''a'', 40), (''b'', 60)] new_schedule_map = Some (True, m') \<and>
     concrete_run [OpMark ''a'', OpMark ''a'', OpComplete, OpMark ''b'', OpComplete, OpIncrement, OpHasStep] m' =
       Some [True, False, False, True, True, False]"
  (is "\<exists>m'. _ \<and> concrete_run ?xs m' = _")
proof -
  let ?cs = "[(''a'', 40), (''b'', 60)]"
  have "\<not> due ?cs (Suc 0) u" and "due ?cs 0 u \<longleftrightarrow> u = ''a'' \<or> u = ''b''" for u
    by (auto simp: due_def two_tasks_ok)
  then have abs: "abstract_run ?cs ?xs (0, {}) = [True, False, False, True, True, False]"
    by auto
  obtain m' where "configure 56 ?cs new_schedule_map = Some (True, m')"
      "concrete_run ?xs m' = Some (abstract_run ?cs ?xs (0, {}))"
    using schedule_map_refines_step_counter [OF two_tasks_ok(1), of new_schedule_map 56]
    by (auto simp: two_tasks_ok MAX_FEP_SCHEDULE_SIZE_def new_schedule_map_def simp del: concrete_run.simps)
  then show ?thesis using abs by metis
qed

text \<open>
  The search for the next step that has tasks always ends, and it ends at the first one after
  the current step; but the value it returns is the length of a single tick, however many ticks lie
  in between (the sum it keeps in \<open>result\<close> is dropped).
\<close>

theorem goto_next_schedule_terminates:
  assumes "sched_rel configs n A m"
  shows "\<exists>m'. gotoNextScheduleContainingSteps m = Some (Gcd (cycles configs), m') \<and>
     current_index m' = next_due configs n mod schedule_length configs \<and>
     isStepInCurrentSchedule m' = Some True \<and>
     n < next_due configs n \<and> (\<forall>k u. n < k \<and> k < next_due configs n \<longrightarrow> \<not> due configs k u)"
proof -
  obtain m' where m': "gotoNextScheduleContainingSteps m = Some (Gcd (cycles configs), m')"
      "sched_rel configs (next_due configs n) {} m'"
    using goto_rel [OF assms] by blast
  moreover have "configs_ok configs" using assms by (simp add: sched_rel_def)
  ultimately show ?thesis
    using next_due_exists [of configs n] next_due_least [of n _ configs] sched.has_step_rel [OF m'(2)]
    by (auto simp: sched_rel_def)
qed

theorem goto_next_schedule_terminates_witness:
  "\<exists>m m'. configure 56 [(''a'', 40), (''b'', 60)] new_schedule_map = Some (True, m) \<and>
     gotoNextScheduleContainingSteps m = Some (20, m') \<and> current_index m' = 2"
proof -
  obtain m where m: "configure 56 [(''a'', 40), (''b'', 60)] new_schedule_map = Some (True, m)"
      "sched_rel [(''a'', 40), (''b'', 60)] 0 {} m"
    using configure_small [OF two_tasks_ok(1), of new_schedule_map 56]
    by (auto simp: two_tasks_ok MAX_FEP_SCHEDULE_SIZE_def new_schedule_map_def)
  have "next_due [(''a'', 40), (''b'', 60)] 0 = 2"
    unfolding next_due_def
  proof (rule Least_equality)
    show "0 < (2::nat) \<and> (\<exists>u. due [(''a'', 40), (''b'', 60)] 2 u)"
      by (simp add: due_def two_tasks_ok) (intro exI [of _ "''a''"] exI [of _ 40], simp)
    show "2 \<le> k" if "0 < k \<and> (\<exists>u. due [(''a'', 40), (''b'', 60)] k u)" for k
    proof (rule ccontr)
      assume "\<not> 2 \<le> k"
      with that have "k = 1" by linarith
      with that show False by (auto simp: due_def two_tasks_ok)
    qed
  qed
  with m goto_next_schedule_terminates [OF m(2)] show ?thesis
    by (auto simp: two_tasks_ok)
qed

end
