(* ===== verification/Timing_Master.thy ===== *)
theory Timing_Master
  imports Timing_Client Schedule_Map Step_Trigger
begin

text \<open>
  \<open>TimingMaster\<close>, active in the one participant that is named as the master:
  \<open>src/fep3/components/legacy/timing/locked_step_legacy/timing_master.{h,cpp}\<close>. It asks all clients for their
  cycle times, builds the schedule, and its worker thread sends the ticks; depending on the trigger mode it
  waits for the acknowledgements of the tasks, for the trigger of a clock, or both.

  The step trigger strategy is represented by its kind; the results of its methods, which Step_Trigger models,
  and those of the transmission are inputs. The barriers are flags, as in Timing_Task; the worker thread is a
  program counter and a function for one round of its loop. One round runs as a whole: of the methods that
  run in other threads, \<open>Update\<close> touches only the schedule map, which a round changes only when all
  acknowledgements are in, and \<open>InternalTrigger\<close> sets the time only while it is negative.
\<close>

section \<open>State and surroundings\<close>

datatype master_pc = NoThread | Loop bool | WaitTick | Finished

record timing_master =
  is_timing_master_flag :: bool
  is_initial_schedule_flag :: bool
  t_schedule_map :: schedule_map
  t_current_time :: timestamp_t
  t_duration_since_last_tick :: timestamp_t
  t_schedule_configs :: schedule_configs
  t_trigger_output_signal_handle :: "nat option"
  t_ack_input_signal_handle :: "nat option"
  t_step_trigger_strategy :: "strategy_kind option"
  t_user_step_trigger :: bool
  t_shutdown_worker_semaphore :: bool
  t_completition_barrier :: bool
  t_tick_barrier :: bool
  t_last_acknowledge_received :: timestamp_t
  t_acknowledge_wait_timeout :: timestamp_t
  t_timer_period :: timestamp_t
  t_timer_running :: bool
  t_pc :: master_pc

definition TimingMaster :: timing_master where
  "TimingMaster =
     \<lparr>is_timing_master_flag = False, is_initial_schedule_flag = False, t_schedule_map = new_schedule_map,
      t_current_time = -1, t_duration_since_last_tick = 0, t_schedule_configs = [],
      t_trigger_output_signal_handle = None, t_ack_input_signal_handle = None,
      t_step_trigger_strategy = None, t_user_step_trigger = False, t_shutdown_worker_semaphore = False,
      t_completition_barrier = False, t_tick_barrier = False, t_last_acknowledge_received = 0,
      t_acknowledge_wait_timeout = 10000000, t_timer_period = 0, t_timer_running = False, t_pc = NoThread\<rparr>"

record master_env =
  master_participant :: "string option"
  own_name :: "string option"
  trigger_mode :: "string option"
  client_timeout :: "int option"
  min_trigger_time :: "int option"
  transmit_command :: fep_result
  register_ack_signal :: "nat option"
  register_ack_listener :: fep_result
  register_tick_signal :: "nat option"
  own_schedule :: "(string \<times> timestamp_t) list"
  strategy_register :: fep_result
  strategy_start :: fep_result
  sizeof_ScheduleItem :: nat

datatype master_event =
    SendTick "byte list"
  | GetScheduleCommand string
  | ScheduleTooLarge
  | AcknowledgementTimeout
  | MasterErrorEvent

section \<open>Configuration\<close>

text \<open>The wait for acknowledgements, common to the modes \<open>AFAP\<close> and \<open>SYSTEM_TIME\<close>.\<close>

definition configure_ack_timeout :: "master_env \<Rightarrow> timing_master \<Rightarrow> fep_result \<times> timing_master" where
  "configure_ack_timeout env m =
     (case client_timeout env of
        None \<Rightarrow> (ERR_NOERROR, m)
      | Some s \<Rightarrow>
          if s > 0
          then (ERR_NOERROR, m\<lparr>t_acknowledge_wait_timeout := int32 (int32 (s * 1000) * 1000),
                               t_timer_period := watchdog_period\<rparr>)
          else (ERR_INVALID_ARG, m))"

definition configure_strategy :: "master_env \<Rightarrow> timing_master \<Rightarrow> fep_result \<times> timing_master" where
  "configure_strategy env m =
     (case trigger_mode env of
        None \<Rightarrow> (ERR_UNEXPECTED, m)
      | Some mode \<Rightarrow>
          if mode = '''' then (ERR_UNEXPECTED, m)
          else if mode = ''AFAP'' then configure_ack_timeout env (m\<lparr>t_step_trigger_strategy := Some AFAP\<rparr>)
          else if mode = ''SYSTEM_TIME'' then configure_ack_timeout env (m\<lparr>t_step_trigger_strategy := Some Internal\<rparr>)
          else if mode = ''USER_IMPLEMENTATION'' then
            (if t_user_step_trigger m then (ERR_NOERROR, m\<lparr>t_step_trigger_strategy := Some User\<rparr>) else (ERR_UNEXPECTED, m))
          else if mode = ''EXTERNAL_CLOCK'' then (ERR_NOERROR, m\<lparr>t_step_trigger_strategy := Some External\<rparr>)
          else (ERR_UNEXPECTED, m))"

definition waits_for_completition :: "timing_master \<Rightarrow> bool" where
  "waits_for_completition m = (case t_step_trigger_strategy m of None \<Rightarrow> False | Some k \<Rightarrow> NeedToWaitForCompletition k)"

definition waits_for_trigger :: "timing_master \<Rightarrow> bool" where
  "waits_for_trigger m = (case t_step_trigger_strategy m of None \<Rightarrow> False | Some k \<Rightarrow> NeedToWaitForTrigger k)"

definition configure_signals :: "master_env \<Rightarrow> timing_master \<Rightarrow> fep_result \<times> timing_master" where
  "configure_signals env m =
     (let (result, m) =
        (if waits_for_completition m then
           (case register_ack_signal env of
              None \<Rightarrow> (ERR_FAILED, m)
            | Some h \<Rightarrow> (register_ack_listener env, m\<lparr>t_ack_input_signal_handle := Some h\<rparr>))
         else (ERR_NOERROR, m))
      in if isFailed result then (result, m)
         else case register_tick_signal env of
           None \<Rightarrow> (ERR_FAILED, m)
         | Some h \<Rightarrow> (ERR_NOERROR, m\<lparr>t_trigger_output_signal_handle := Some h\<rparr>))"

text \<open>
  \<open>None\<close>: if the element's own name cannot be read, an uninitialised pointer is compared with the
  master's name.
\<close>

definition master_configure :: "master_env \<Rightarrow> timing_master \<Rightarrow> (fep_result \<times> timing_master \<times> master_event list) option" where
  "master_configure env m =
     (let m = m\<lparr>t_schedule_configs := []\<rparr>
      in case master_participant env of
           None \<Rightarrow> Some (ERR_NOERROR, m, [])
         | Some master \<Rightarrow>
             (case own_name env of
                None \<Rightarrow> if master = '''' then Some (ERR_FAILED, m\<lparr>is_timing_master_flag := False\<rparr>, []) else None
              | Some name \<Rightarrow>
                  let m = m\<lparr>is_timing_master_flag := (master \<noteq> '''' \<and> master = name)\<rparr>
                  in if \<not> is_timing_master_flag m then Some (ERR_NOERROR, m, [])
                     else
                       let (result, m) = configure_strategy env m;
                           result = (if isOk result \<and> \<not> waits_for_trigger m \<and> \<not> waits_for_completition m
                                     then ERR_UNEXPECTED else result)
                       in if isFailed result then Some (result, m, [])
                          else if isFailed (transmit_command env) then Some (ERR_FAILED, m, [GetScheduleCommand name])
                          else let (result, m) = configure_signals env m
                               in Some (result, m, [GetScheduleCommand name])))"

text \<open>The results of taking back the registrations are not modelled.\<close>

definition master_reset :: "timing_master \<Rightarrow> timing_master" where
  "master_reset m =
     (if is_timing_master_flag m
      then m\<lparr>t_step_trigger_strategy := None, t_timer_period := 0, t_last_acknowledge_received := 0\<rparr> else m)"

definition SetStepTrigger :: "bool \<Rightarrow> timing_master \<Rightarrow> timing_master" where
  "SetStepTrigger given m = m\<lparr>t_user_step_trigger := given\<rparr>"

definition insert_configs :: "(string \<times> timestamp_t) list \<Rightarrow> schedule_configs \<Rightarrow> schedule_configs" where
  "insert_configs xs configs = fold (\<lambda>(u, c). sm_insert u c) xs configs"

definition add_min_trigger :: "master_env \<Rightarrow> strategy_kind \<Rightarrow> schedule_configs \<Rightarrow> schedule_configs" where
  "add_min_trigger env k configs =
     (case min_trigger_time env of
        None \<Rightarrow> configs
      | Some ms \<Rightarrow> if ms > 0 \<and> HasSupportDummyTimeTrigger k then sm_insert '''' (int32 (ms * 1000)) configs else configs)"

text \<open>\<open>None\<close>: the start of a master without strategy, or a schedule with undefined behaviour.\<close>

definition master_start :: "master_env \<Rightarrow> timing_master \<Rightarrow> (fep_result \<times> timing_master \<times> master_event list) option" where
  "master_start env m =
     (if \<not> is_timing_master_flag m then Some (ERR_NOERROR, m, [])
      else case t_step_trigger_strategy m of
        None \<Rightarrow> None
      | Some k \<Rightarrow>
          let configs = add_min_trigger env k (insert_configs (own_schedule env) (t_schedule_configs m));
              m = m\<lparr>t_schedule_map := reset (t_schedule_map m), t_schedule_configs := configs\<rparr>
          in case configure (sizeof_ScheduleItem env) configs (t_schedule_map m) of
               None \<Rightarrow> None
             | Some (ok, sm) \<Rightarrow>
                 let m = m\<lparr>t_schedule_map := sm\<rparr>
                 in if \<not> ok then Some (ERR_FAILED, m, [ScheduleTooLarge, MasterErrorEvent])
                    else
                      let m = m\<lparr>t_current_time := if NeedToWaitForTrigger k then -1 else 0,
                                is_initial_schedule_flag := True, t_duration_since_last_tick := 0\<rparr>
                      in if isFailed (strategy_register env) then Some (strategy_register env, m, [])
                         else
                           let m = m\<lparr>t_pc := Loop False\<rparr>
                           in if isFailed (strategy_start env) then Some (strategy_start env, m, [])
                              else Some (ERR_NOERROR, m\<lparr>t_timer_running := t_timer_period m \<noteq> 0 \<or> t_timer_running m\<rparr>, []))"

text \<open>\<open>stop\<close> up to the join of the worker thread, and what follows.\<close>

definition master_stop :: "timing_master \<Rightarrow> timing_master" where
  "master_stop m =
     (if is_timing_master_flag m
      then m\<lparr>t_timer_running := False, t_shutdown_worker_semaphore := t_pc m \<noteq> NoThread \<or> t_shutdown_worker_semaphore m\<rparr>
      else m)"

definition master_joined :: "timing_master \<Rightarrow> timing_master option" where
  "master_joined m =
     (case t_pc m of
        NoThread \<Rightarrow> Some m
      | Finished \<Rightarrow> Some (m\<lparr>t_pc := NoThread, t_shutdown_worker_semaphore := False\<rparr>)
      | _ \<Rightarrow> None)"

section \<open>Running\<close>

definition sendTickSignalToClients :: "machine \<Rightarrow> timing_master \<Rightarrow> master_event list" where
  "sendTickSignalToClients mach m = [SendTick (send_tick mach (t_current_time m) (t_duration_since_last_tick m))]"

text \<open>The characters of a byte string.\<close>

definition uuid_of :: "byte list \<Rightarrow> string" where
  "uuid_of bs = map (\<lambda>b. char_of (unat b)) bs"

definition master_Update :: "machine \<Rightarrow> nat option \<Rightarrow> byte list \<Rightarrow> timing_master \<Rightarrow> timing_master option" where
  "master_Update mach signal_handle sample m =
     (if signal_handle \<noteq> t_ack_input_signal_handle m \<or> length sample \<noteq> s_trigger_ack_signal_size then Some m
      else
        let m = m\<lparr>t_last_acknowledge_received := 0\<rparr>;
            ack = convertTriggerAckToHostByteorder mach (ack_at mach sample)
        in case markStepForCurrentSchedule (uuid_of (uuid_str ack)) (t_schedule_map m) of
             None \<Rightarrow> None
           | Some (marked, sm) \<Rightarrow>
               Some (m\<lparr>t_schedule_map := sm, t_completition_barrier := marked \<or> t_completition_barrier m\<rparr>))"

definition master_UpdateSchedule :: "(string \<times> timestamp_t) list \<Rightarrow> timing_master \<Rightarrow> timing_master" where
  "master_UpdateSchedule xs m = m\<lparr>t_schedule_configs := insert_configs xs (t_schedule_configs m)\<rparr>"

definition DoNextSchedule :: "machine \<Rightarrow> timing_master \<Rightarrow> (bool \<times> timing_master \<times> master_event list) option" where
  "DoNextSchedule mach m =
     (case (if is_initial_schedule_flag m then Some (m\<lparr>is_initial_schedule_flag := False\<rparr>)
            else map_option (\<lambda>sm. m\<lparr>t_schedule_map := sm\<rparr>) (incrementCurrentSchedule (t_schedule_map m))) of
        None \<Rightarrow> None
      | Some m \<Rightarrow>
          (case (isStepInCurrentSchedule (t_schedule_map m), isConfiguredStepInCurrentSchedule (t_schedule_map m)) of
             (Some has_step, Some has_configured) \<Rightarrow>
               let es = (if has_step then sendTickSignalToClients mach m else []);
                   m = (if has_step then m\<lparr>t_duration_since_last_tick := 0\<rparr> else m);
                   cycle = getCycleTime (t_schedule_map m)
               in Some (has_step \<and> has_configured,
                        m\<lparr>t_duration_since_last_tick := int64 (t_duration_since_last_tick m + cycle),
                          t_current_time := int64 (t_current_time m + cycle)\<rparr>, es)
           | _ \<Rightarrow> None))"

definition next_schedule :: "machine \<Rightarrow> timing_master \<Rightarrow> (timing_master \<times> master_event list) option" where
  "next_schedule mach m =
     (case DoNextSchedule mach m of None \<Rightarrow> None | Some (need, m, es) \<Rightarrow> Some (m\<lparr>t_pc := Loop need\<rparr>, es))"

text \<open>
  One round of \<open>ThreadFunc\<close>: the test of the loop, one wait, and what its success leads to. \<open>WaitTick\<close> is
  the inner loop of the mode that waits for both. A wait that times out leaves everything as it is.
\<close>

definition master_round :: "machine \<Rightarrow> timing_master \<Rightarrow> (timing_master \<times> master_event list) option" where
  "master_round mach m =
     (let both = waits_for_completition m \<and> waits_for_trigger m;
          tick = (if t_tick_barrier m then next_schedule mach (m\<lparr>t_tick_barrier := False\<rparr>) else Some (m, []))
      in case t_pc m of
           NoThread \<Rightarrow> Some (m, [])
         | Finished \<Rightarrow> Some (m, [])
         | WaitTick \<Rightarrow> if t_shutdown_worker_semaphore m then Some (m\<lparr>t_pc := Loop True\<rparr>, []) else tick
         | Loop need \<Rightarrow>
             if t_shutdown_worker_semaphore m \<or> \<not> waits_for_completition m \<and> \<not> waits_for_trigger m
             then Some (m\<lparr>t_pc := Finished\<rparr>, [])
             else if waits_for_completition m \<and> need then
               (if \<not> t_completition_barrier m then Some (m, [])
                else
                  let m = m\<lparr>t_completition_barrier := False\<rparr>
                  in case isCurrentScheduleComplete (t_schedule_map m) of
                       None \<Rightarrow> None
                     | Some all_in \<Rightarrow>
                         if \<not> all_in then Some (m, [])
                         else if both then Some (m\<lparr>t_pc := WaitTick\<rparr>, [])
                         else next_schedule mach m)
             else if waits_for_trigger m then tick
             else next_schedule mach m)"

definition InternalTrigger :: "timestamp_t \<Rightarrow> timing_master \<Rightarrow> timing_master" where
  "InternalTrigger triggerTime m =
     (let m = (if t_current_time m < 0 then m\<lparr>t_current_time := triggerTime\<rparr> else m)
      in m\<lparr>t_tick_barrier := True\<rparr>)"

definition CheckAckTimeout :: "timing_master \<Rightarrow> timing_master \<times> master_event list" where
  "CheckAckTimeout m =
     (m\<lparr>t_last_acknowledge_received := int64 (t_last_acknowledge_received m + watchdog_period)\<rparr>,
      if t_last_acknowledge_received m > t_acknowledge_wait_timeout m
      then [MasterErrorEvent, AcknowledgementTimeout] else [])"

section \<open>The master by step numbers\<close>

text \<open>
  The state of the master after \<open>N\<close> schedules: \<open>T0\<close> is the time of the first one, \<open>A\<close> the acknowledgements
  of the current one. The schedules with a step are the ones a tick is sent for.
\<close>

abbreviation gcd_of_cycles :: "schedule_configs \<Rightarrow> timestamp_t" where
  "gcd_of_cycles configs \<equiv> Gcd (cycles configs)"

definition ticked :: "schedule_configs \<Rightarrow> nat \<Rightarrow> nat list" where
  "ticked configs N = filter (\<lambda>n. \<exists>u. due configs n u) [0..<N]"

definition last_tick :: "schedule_configs \<Rightarrow> nat \<Rightarrow> nat" where
  "last_tick configs N = last (0 # ticked configs N)"

definition master_at :: "schedule_configs \<Rightarrow> timestamp_t \<Rightarrow> nat \<Rightarrow> string set \<Rightarrow> timing_master \<Rightarrow> bool" where
  "master_at configs T0 N A m \<longleftrightarrow>
     sched_rel configs (N - 1) A (t_schedule_map m) \<and> (is_initial_schedule_flag m \<longleftrightarrow> N = 0) \<and> (N = 0 \<longrightarrow> A = {}) \<and>
     t_current_time m = T0 + gcd_of_cycles configs * int N \<and>
     t_duration_since_last_tick m = gcd_of_cycles configs * int (N - last_tick configs N)"

lemma ticked_Suc:
  "ticked configs (Suc N) = ticked configs N @ (if \<exists>u. due configs N u then [N] else [])"
  by (simp add: ticked_def)

lemma last_tick_Suc:
  "last_tick configs (Suc N) = (if \<exists>u. due configs N u then N else last_tick configs N)"
  by (auto simp: last_tick_def ticked_Suc)

lemma last_tick_le: "last_tick configs N \<le> N"
  by (induction N) (auto simp: last_tick_Suc, simp add: last_tick_def ticked_def)

lemma master_at_configs_ok: "master_at configs T0 N A m \<Longrightarrow> configs_ok configs"
  by (simp add: master_at_def sched_rel_def)

definition same_master :: "timing_master \<Rightarrow> timing_master \<Rightarrow> bool" where
  "same_master m m' \<longleftrightarrow> t_step_trigger_strategy m' = t_step_trigger_strategy m \<and>
     t_shutdown_worker_semaphore m' = t_shutdown_worker_semaphore m \<and>
     t_ack_input_signal_handle m' = t_ack_input_signal_handle m \<and>
     t_acknowledge_wait_timeout m' = t_acknowledge_wait_timeout m"

lemma same_master_refl [simp]: "same_master m m"
  by (simp add: same_master_def)

text \<open>The next schedule: a tick for all clients if any task is due, and a wait if it is a real one.\<close>

lemma DoNextSchedule_at:
  assumes at: "master_at configs T0 N A m" and "0 \<le> T0"
    and range: "in_int64 (t_current_time m + gcd_of_cycles configs)"
  shows "\<exists>m'. DoNextSchedule mach m = Some (\<exists>u. due configs N u \<and> u \<noteq> [], m',
      if \<exists>u. due configs N u
      then [SendTick (send_tick mach (T0 + gcd_of_cycles configs * int N)
              (gcd_of_cycles configs * int (N - last_tick configs N)))] else []) \<and>
    master_at configs T0 (Suc N) {} m' \<and> same_master m m' \<and>
    t_tick_barrier m' = t_tick_barrier m \<and> t_completition_barrier m' = t_completition_barrier m \<and>
    t_last_acknowledge_received m' = t_last_acknowledge_received m"
proof -
  let ?g = "gcd_of_cycles configs"
  note ok = master_at_configs_ok [OF at]
  have g: "0 < ?g" by (rule Gcd_cycles_pos [OF ok])
  obtain m1 where m1: "(if is_initial_schedule_flag m then Some (m\<lparr>is_initial_schedule_flag := False\<rparr>)
        else map_option (\<lambda>sm. m\<lparr>t_schedule_map := sm\<rparr>) (incrementCurrentSchedule (t_schedule_map m))) = Some m1"
      "sched_rel configs N {} (t_schedule_map m1)" "\<not> is_initial_schedule_flag m1"
      "t_current_time m1 = t_current_time m" "t_duration_since_last_tick m1 = t_duration_since_last_tick m"
      "same_master m m1" "t_tick_barrier m1 = t_tick_barrier m" "t_completition_barrier m1 = t_completition_barrier m"
      "t_last_acknowledge_received m1 = t_last_acknowledge_received m"
  proof (cases "N = 0")
    case True
    with at show ?thesis
      by (intro that [of "m\<lparr>is_initial_schedule_flag := False\<rparr>"]) (auto simp: master_at_def same_master_def)
  next
    case False
    with at have "sched_rel configs (N - 1) A (t_schedule_map m)" "\<not> is_initial_schedule_flag m"
      by (simp_all add: master_at_def)
    moreover from increment_sched_rel [OF this(1)] False obtain sm where
      "incrementCurrentSchedule (t_schedule_map m) = Some sm" "sched_rel configs N {} sm"
      by auto
    ultimately show ?thesis
      by (intro that [of "m\<lparr>t_schedule_map := sm\<rparr>"]) (simp_all add: same_master_def)
  qed
  have steps: "isStepInCurrentSchedule (t_schedule_map m1) = Some (\<exists>u. due configs N u)"
      "isConfiguredStepInCurrentSchedule (t_schedule_map m1) = Some (\<exists>u. due configs N u \<and> u \<noteq> [])"
      "getCycleTime (t_schedule_map m1) = ?g"
    using has_step_sched_rel [OF m1(2)] has_configured_sched_rel [OF m1(2)] m1(2)
    by (simp_all add: getCycleTime_def sched_rel_def)
  have now: "t_current_time m = T0 + ?g * int N" and
      dur: "t_duration_since_last_tick m = ?g * int (N - last_tick configs N)"
    using at by (simp_all add: master_at_def)
  have i1: "int64 (t_current_time m + ?g) = T0 + ?g * int (Suc N)"
    using range now by (simp add: int64_id algebra_simps)
  have le: "?g * int (N - last_tick configs N) + ?g \<le> t_current_time m + ?g"
    using g \<open>0 \<le> T0\<close> by (simp add: now mult_left_mono add_increasing)
  have i2: "int64 (?g * int (N - last_tick configs N) + ?g) = ?g * int (N - last_tick configs N) + ?g"
    using g in_int64_between [OF range _ le] by (simp add: int64_id)
  have i3: "int64 ?g = ?g"
  proof (rule int64_id, rule in_int64_between [OF range])
    show "?g \<le> t_current_time m + ?g" using \<open>0 \<le> T0\<close> by (simp add: now)
  qed (use g in simp)
  define m2 where "m2 = (if \<exists>u. due configs N u then m1\<lparr>t_duration_since_last_tick := 0\<rparr> else m1)"
  define m' where "m' = m2\<lparr>t_duration_since_last_tick := int64 (t_duration_since_last_tick m2 + ?g),
      t_current_time := int64 (t_current_time m2 + ?g)\<rparr>"
  have "DoNextSchedule mach m = Some (\<exists>u. due configs N u \<and> u \<noteq> [], m',
      if \<exists>u. due configs N u
      then [SendTick (send_tick mach (T0 + ?g * int N) (?g * int (N - last_tick configs N)))] else [])"
    unfolding DoNextSchedule_def m1(1) option.case steps prod.case Let_def
    by (auto simp: steps(3) m'_def m2_def sendTickSignalToClients_def m1(4,5) now dur)
  moreover have "master_at configs T0 (Suc N) {} m'"
  proof (cases "\<exists>u. due configs N u")
    case True
    then show ?thesis
      using m1(2,3,4) i1 i3 by (simp add: master_at_def m'_def m2_def last_tick_Suc)
  next
    case False
    have "int64 (t_duration_since_last_tick m1 + ?g) = ?g * int (Suc N - last_tick configs N)"
      using i2 last_tick_le [of configs N] by (simp add: m1(5) dur Suc_diff_le algebra_simps)
    with False show ?thesis
      using m1(2,3,4) i1 by (simp add: master_at_def m'_def m2_def last_tick_Suc)
  qed
  moreover have "same_master m m'" "t_tick_barrier m' = t_tick_barrier m" "t_completition_barrier m' = t_completition_barrier m"
      "t_last_acknowledge_received m' = t_last_acknowledge_received m"
    using m1 by (simp_all add: m'_def m2_def same_master_def)
  ultimately show ?thesis by blast
qed


text \<open>Acknowledgements change nothing but the set of those received.\<close>

lemma master_Update_at:
  assumes at: "master_at configs T0 N A m" and "0 < N"
  shows "\<exists>m'. master_Update mach h sample m = Some m' \<and> same_master m m' \<and> t_pc m' = t_pc m \<and>
    t_tick_barrier m' = t_tick_barrier m \<and>
    (if h = t_ack_input_signal_handle m \<and> length sample = s_trigger_ack_signal_size
     then let u = uuid_of (uuid_str (convertTriggerAckToHostByteorder mach (ack_at mach sample)))
          in master_at configs T0 N (if due configs (N - 1) u then insert u A else A) m' \<and>
             t_completition_barrier m' = (due configs (N - 1) u \<and> u \<notin> A \<or> t_completition_barrier m)
     else m' = m)"
proof (cases "h = t_ack_input_signal_handle m \<and> length sample = s_trigger_ack_signal_size")
  case True
  define u where "u = uuid_of (uuid_str (convertTriggerAckToHostByteorder mach (ack_at mach sample)))"
  from mark_sched_rel [of configs "N - 1" A "t_schedule_map m" u] at obtain sm where
    "markStepForCurrentSchedule u (t_schedule_map m) = Some (due configs (N - 1) u \<and> u \<notin> A, sm)"
    "sched_rel configs (N - 1) (if due configs (N - 1) u then insert u A else A) sm"
    by (auto simp: master_at_def)
  with True at \<open>0 < N\<close> show ?thesis
    by (simp add: master_Update_def Let_def u_def [symmetric] master_at_def same_master_def)
next
  case False
  then have "master_Update mach h sample m = Some m" by (auto simp: master_Update_def)
  then show ?thesis unfolding if_not_P [OF False] by simp
qed

text \<open>
  A round of a master that waits for completion: no tick before all acknowledgements are in. \<open>Loop False\<close> is
  reached only after a schedule without a real task, \<open>WaitTick\<close> only after a complete one.
\<close>

definition all_in :: "schedule_configs \<Rightarrow> nat \<Rightarrow> string set \<Rightarrow> bool" where
  "all_in configs N A \<longleftrightarrow> N = 0 \<or> {u. due configs (N - 1) u \<and> u \<noteq> []} \<subseteq> A"

definition waits_right :: "schedule_configs \<Rightarrow> nat \<Rightarrow> string set \<Rightarrow> master_pc \<Rightarrow> bool" where
  "waits_right configs N A pc \<longleftrightarrow>
     (case pc of Loop need \<Rightarrow> need \<or> N = 0 \<or> (\<forall>u. due configs (N - 1) u \<longrightarrow> u = [])
      | WaitTick \<Rightarrow> all_in configs N A | _ \<Rightarrow> True) \<and> (N = 0 \<longrightarrow> pc = Loop False)"

lemma next_schedule_at:
  assumes "master_at configs T0 N A m" "0 \<le> T0" "in_int64 (t_current_time m + gcd_of_cycles configs)"
  shows "\<exists>m'. next_schedule mach m = Some (m',
      if \<exists>u. due configs N u
      then [SendTick (send_tick mach (T0 + gcd_of_cycles configs * int N)
              (gcd_of_cycles configs * int (N - last_tick configs N)))] else []) \<and>
    master_at configs T0 (Suc N) {} m' \<and> same_master m m' \<and> waits_right configs (Suc N) {} (t_pc m') \<and>
    t_tick_barrier m' = t_tick_barrier m \<and> t_completition_barrier m' = t_completition_barrier m \<and>
    t_last_acknowledge_received m' = t_last_acknowledge_received m \<and> t_pc m' = Loop (\<exists>u. due configs N u \<and> u \<noteq> [])"
proof -
  from DoNextSchedule_at [OF assms, of mach] obtain m' where m':
    "DoNextSchedule mach m = Some (\<exists>u. due configs N u \<and> u \<noteq> [], m',
      if \<exists>u. due configs N u
      then [SendTick (send_tick mach (T0 + gcd_of_cycles configs * int N)
              (gcd_of_cycles configs * int (N - last_tick configs N)))] else [])"
    "master_at configs T0 (Suc N) {} m'" "same_master m m'" "t_tick_barrier m' = t_tick_barrier m"
    "t_completition_barrier m' = t_completition_barrier m"
    "t_last_acknowledge_received m' = t_last_acknowledge_received m"
    by blast
  then show ?thesis
    by (intro exI [of _ "m'\<lparr>t_pc := Loop (\<exists>u. due configs N u \<and> u \<noteq> [])\<rparr>"])
      (auto simp: next_schedule_def master_at_def same_master_def waits_right_def)
qed

lemma waits_rightD:
  "waits_right configs N A (Loop False) \<Longrightarrow> all_in configs N A"
  "waits_right configs N A WaitTick \<Longrightarrow> all_in configs N A \<and> 0 < N"
  "waits_right configs N A (Loop True) \<Longrightarrow> 0 < N"
  by (auto simp: waits_right_def all_in_def)


definition round_stays :: "schedule_configs \<Rightarrow> timestamp_t \<Rightarrow> nat \<Rightarrow> string set \<Rightarrow> timing_master \<Rightarrow> timing_master \<Rightarrow> bool" where
  "round_stays configs T0 N A m m' \<longleftrightarrow> master_at configs T0 N A m' \<and> waits_right configs N A (t_pc m') \<and>
     same_master m m' \<and> t_tick_barrier m' = t_tick_barrier m"

definition round_advances ::
    "machine \<Rightarrow> schedule_configs \<Rightarrow> timestamp_t \<Rightarrow> nat \<Rightarrow> string set \<Rightarrow> timing_master \<Rightarrow> timing_master \<Rightarrow> master_event list \<Rightarrow> bool" where
  "round_advances mach configs T0 N A m m' es \<longleftrightarrow> all_in configs N A \<and> master_at configs T0 (Suc N) {} m' \<and>
     waits_right configs (Suc N) {} (t_pc m') \<and> same_master m m' \<and> \<not> (t_tick_barrier m' \<and> waits_for_trigger m) \<and>
     es = (if \<exists>u. due configs N u
       then [SendTick (send_tick mach (T0 + gcd_of_cycles configs * int N)
               (gcd_of_cycles configs * int (N - last_tick configs N)))] else [])"

lemma master_at_flags [simp]:
  "master_at configs T0 N A (m\<lparr>t_tick_barrier := b\<rparr>) = master_at configs T0 N A m"
  "master_at configs T0 N A (m\<lparr>t_completition_barrier := b\<rparr>) = master_at configs T0 N A m"
  "master_at configs T0 N A (m\<lparr>t_pc := pc\<rparr>) = master_at configs T0 N A m"
  by (simp_all add: master_at_def)

lemma advance:
  assumes "master_at configs T0 N A m" "0 \<le> T0" "in_int64 (t_current_time m + gcd_of_cycles configs)" "all_in configs N A"
    and "same_master m0 m" "\<not> (t_tick_barrier m \<and> waits_for_trigger m0)"
  shows "\<exists>m' es. next_schedule mach m = Some (m', es) \<and> round_advances mach configs T0 N A m0 m' es"
  using next_schedule_at [OF assms(1-3), of mach] assms(4-6)
  by (auto simp: round_advances_def same_master_def)

lemma master_round_at:
  assumes at: "master_at configs T0 N A m" and T0: "0 \<le> T0 \<or> k = Internal \<and> \<not> t_tick_barrier m \<and> N = 0"
    and range: "in_int64 (t_current_time m + gcd_of_cycles configs)"
    and pc: "waits_right configs N A (t_pc m)" and run: "\<not> t_shutdown_worker_semaphore m"
    and k: "t_step_trigger_strategy m = Some k" "NeedToWaitForCompletition k"
  shows "\<exists>m' es. master_round mach m = Some (m', es) \<and>
    (es = [] \<and> round_stays configs T0 N A m m' \<or> round_advances mach configs T0 N A m m' es)"
proof -
  have w: "waits_for_completition m" "waits_for_trigger m \<longleftrightarrow> NeedToWaitForTrigger k"
    using k by (simp_all add: waits_for_completition_def waits_for_trigger_def)
  have stay: "round_stays configs T0 N A m m"
    using at pc by (simp add: round_stays_def)
  have tick: "\<exists>m' es. (if t_tick_barrier m then next_schedule mach (m\<lparr>t_tick_barrier := False\<rparr>) else Some (m, [])) = Some (m', es) \<and>
      (es = [] \<and> round_stays configs T0 N A m m' \<or> round_advances mach configs T0 N A m m' es)" if "all_in configs N A"
    using advance [of configs T0 N A "m\<lparr>t_tick_barrier := False\<rparr>" m mach] at T0 range that stay
    by (auto simp: same_master_def)
  show ?thesis
  proof (cases "t_pc m")
    case NoThread
    then show ?thesis using stay by (simp add: master_round_def)
  next
    case Finished
    then show ?thesis using stay by (simp add: master_round_def)
  next
    case WaitTick
    with tick run waits_rightD(2) [of configs N A] pc show ?thesis
      by (simp add: master_round_def Let_def)
  next
    case (Loop need)
    show ?thesis
    proof (cases need)
      case False
      with Loop pc have "all_in configs N A" using waits_rightD(1) by simp
      from advance [OF at _ range this, of m mach] tick [OF this] Loop False run w T0 show ?thesis
        by (cases k) (auto simp: master_round_def Let_def)
    next
      case True
      let ?m = "m\<lparr>t_completition_barrier := False\<rparr>"
      have "0 < N" using Loop True pc waits_rightD(3) by simp
      have complete: "isCurrentScheduleComplete (t_schedule_map ?m) = Some (all_in configs N A)"
        using at complete_sched_rel [of configs "N - 1" A "t_schedule_map m"] \<open>0 < N\<close>
        by (simp add: master_at_def all_in_def)
      have "round_stays configs T0 N A m ?m"
        using at pc by (simp add: round_stays_def same_master_def)
      moreover have "round_stays configs T0 N A m (?m\<lparr>t_pc := WaitTick\<rparr>)" if "all_in configs N A"
        using at that \<open>0 < N\<close> by (simp add: round_stays_def same_master_def waits_right_def)
      moreover have "\<exists>m' es. next_schedule mach ?m = Some (m', es) \<and> round_advances mach configs T0 N A m m' es"
        if "all_in configs N A" "\<not> NeedToWaitForTrigger k"
        using that T0 \<open>0 < N\<close> at range w by (intro advance) (auto simp: same_master_def)
      ultimately show ?thesis
        using Loop True run w stay complete by (auto simp: master_round_def Let_def)
    qed
  qed
qed

lemma InternalTrigger_at:
  assumes "master_at configs T0 N A m" "T0 < 0 \<Longrightarrow> N = 0" "0 \<le> t"
  shows "master_at configs (if T0 < 0 then t else T0) N A (InternalTrigger t m)"
    "same_master m (InternalTrigger t m)" "t_pc (InternalTrigger t m) = t_pc m" "t_tick_barrier (InternalTrigger t m)"
proof -
  have "0 \<le> gcd_of_cycles configs * int N" by simp
  moreover have "t_current_time m = T0 + gcd_of_cycles configs * int N"
    using assms(1) by (simp add: master_at_def)
  moreover have "T0 < 0 \<Longrightarrow> gcd_of_cycles configs * int N = 0"
    using assms(2) by simp
  ultimately have "t_current_time m < 0 \<longleftrightarrow> T0 < 0" by linarith
  then show "master_at configs (if T0 < 0 then t else T0) N A (InternalTrigger t m)"
    "same_master m (InternalTrigger t m)" "t_pc (InternalTrigger t m) = t_pc m" "t_tick_barrier (InternalTrigger t m)"
    using assms by (auto simp: InternalTrigger_def Let_def master_at_def same_master_def)
qed

end
