(* ===== verification/Lock_Step.thy ===== *)
theory Lock_Step
  imports Timing_Master
begin

text \<open>
  The lock-step scheduler (\<open>locked_step_scheduler.cpp\<close>) and the simulation system it makes: one timing
  master, any number of timing clients with their tasks, on machines of either byte order.

  Ticks reach each client in the order they were sent (the signal is reliable and ordered); acknowledgements
  may overtake each other. A thread of a task, a round of the master, the delivery of a message and a trigger
  of the clock are the steps, interleaved in any way. The master waits for completion: modes \<open>AFAP\<close> and
  \<open>SYSTEM_TIME\<close>.
\<close>

section \<open>Jobs\<close>

datatype job_call = executeDataIn timestamp_t | execute timestamp_t | executeDataOut timestamp_t

definition forwardCallToJob :: "timestamp_t \<Rightarrow> job_call list" where
  "forwardCallToJob time = [executeDataIn time, execute time, executeDataOut time]"

record job_config =
  cycle_sim_time_us :: timestamp_t
  max_runtime_real_time_us :: timestamp_t
  runtime_violation_strategy :: TimeViolationStrategy

definition convertToStepConfig :: "job_config \<Rightarrow> StepConfig" where
  "convertToStepConfig jc =
     \<lparr>m_cycleTime_sim_us = cycle_sim_time_us jc, m_maxRuntime_us = max_runtime_real_time_us jc,
      m_maxInputWaittime_us = 0, m_runtimeViolationStrategy = runtime_violation_strategy jc,
      m_inputs = [], m_outputs = []\<rparr>"

record scheduler =
  s_client :: timing_client
  s_master :: timing_master
  s_jobs :: "(string \<times> job_config) list"

definition rollback :: "scheduler \<Rightarrow> scheduler" where
  "rollback s = s\<lparr>s_client := fold (\<lambda>(name, _) c. snd (UnregisterStepListener name c)) (s_jobs s) (s_client s),
                  s_jobs := []\<rparr>"

text \<open>The listeners are registered one after the other; the first failure takes all of them back.\<close>

fun register_jobs ::
    "client_env \<Rightarrow> (string \<times> job_config \<times> string) list \<Rightarrow> scheduler \<Rightarrow> fep_result \<times> scheduler" where
  "register_jobs env [] s = (ERR_NOERROR, s)"
| "register_jobs env ((name, jc, uuid) # jobs) s =
     (let (res, c) = RegisterStepListener env uuid name (convertToStepConfig jc) True True (s_client s)
      in if isOk res then register_jobs env jobs (s\<lparr>s_client := c, s_jobs := s_jobs s @ [(name, jc)]\<rparr>)
         else (res, rollback (s\<lparr>s_client := c\<rparr>)))"

definition scheduler_initialize ::
    "client_env \<Rightarrow> master_env \<Rightarrow> (string \<times> job_config \<times> string) list \<Rightarrow> scheduler \<Rightarrow> (fep_result \<times> scheduler) option" where
  "scheduler_initialize env menv jobs s =
     (let (res, s) = register_jobs env jobs s
      in if isFailed res then Some (res, s)
         else
           let (res, c) = client_configure env (s_client s)
           in if isFailed res then Some (res, s\<lparr>s_client := client_reset c\<rparr>)
              else case master_configure menv (s_master s) of
                None \<Rightarrow> None
              | Some (res, m, _) \<Rightarrow>
                  if isFailed res then Some (res, s\<lparr>s_client := client_reset c, s_master := master_reset m\<rparr>)
                  else Some (res, s\<lparr>s_client := c, s_master := m\<rparr>))"

definition scheduler_start :: "master_env \<Rightarrow> scheduler \<Rightarrow> (fep_result \<times> scheduler) option" where
  "scheduler_start menv s =
     (let s = s\<lparr>s_client := client_start (s_client s)\<rparr>
      in case master_start (menv\<lparr>own_schedule := FillScheduleList (s_client s)\<rparr>) (s_master s) of
           None \<Rightarrow> None
         | Some (res, m, _) \<Rightarrow> Some (res, s\<lparr>s_master := m\<rparr>))"

text \<open>\<open>stop\<close> asks both to stop; the joins of the threads follow (see the models of the two).\<close>

definition scheduler_stop :: "scheduler \<Rightarrow> scheduler" where
  "scheduler_stop s = s\<lparr>s_master := master_stop (s_master s), s_client := client_stop (s_client s)\<rparr>"

definition scheduler_deinitialize :: "scheduler \<Rightarrow> scheduler" where
  "scheduler_deinitialize s =
     rollback (s\<lparr>s_master := master_reset (s_master s), s_client := client_reset (s_client s)\<rparr>)"

section \<open>The system\<close>

record lock_step =
  ls_master :: timing_master
  ls_clients :: "timing_client list"
  ls_ticks :: "byte list list list"
  ls_acks :: "byte list list"
  ls_log :: "(nat \<times> client_event) list"

definition ticks_sent :: "master_event list \<Rightarrow> byte list list" where
  "ticks_sent es = concat (map (\<lambda>e. case e of SendTick bs \<Rightarrow> [bs] | _ \<Rightarrow> []) es)"

definition acks_sent :: "task_event list \<Rightarrow> byte list list" where
  "acks_sent es = concat (map (\<lambda>e. case e of Ack bs \<Rightarrow> [bs] | _ \<Rightarrow> []) es)"

text \<open>
  Simulation times stay below \<open>2 ^ 63\<close> microseconds (292000 years): the rule of the master's round stops
  before the overflow. The last rule lets any task thread act, with any inputs and run times.
\<close>

inductive ls_step :: "machine \<Rightarrow> (nat \<Rightarrow> machine) \<Rightarrow> lock_step \<Rightarrow> lock_step \<Rightarrow> bool" for mm cm where
  round: "master_round mm (ls_master s) = Some (m', es) \<Longrightarrow>
    in_int64 (t_current_time (ls_master s) + cycle_time_us (t_schedule_map (ls_master s))) \<Longrightarrow>
    ls_step mm cm s (s\<lparr>ls_master := m', ls_ticks := map (\<lambda>ch. ch @ ticks_sent es) (ls_ticks s)\<rparr>)"
| trigger: "t_step_trigger_strategy (ls_master s) = Some Internal \<Longrightarrow> 0 \<le> t \<Longrightarrow> in_int64 t \<Longrightarrow>
    ls_step mm cm s (s\<lparr>ls_master := InternalTrigger t (ls_master s)\<rparr>)"
| tick: "i < length (ls_clients s) \<Longrightarrow> ls_ticks s ! i = bs # rest \<Longrightarrow>
    client_Update (cm i) (c_trigger_input_signal_handle (ls_clients s ! i)) bs (ls_clients s ! i) = Some (c', es) \<Longrightarrow>
    ls_step mm cm s (s\<lparr>ls_clients := (ls_clients s)[i := c'], ls_ticks := (ls_ticks s)[i := rest],
                       ls_log := ls_log s @ map (Pair i) es\<rparr>)"
| ack: "ls_acks s = xs @ bs # ys \<Longrightarrow>
    master_Update mm (t_ack_input_signal_handle (ls_master s)) bs (ls_master s) = Some m' \<Longrightarrow>
    ls_step mm cm s (s\<lparr>ls_master := m', ls_acks := xs @ ys\<rparr>)"
| thread: "i < length (ls_clients s) \<Longrightarrow> map_of (c_task_map (ls_clients s ! i)) n = Some t \<Longrightarrow>
    thread_step (cm i) input t = Some (t', es) \<Longrightarrow>
    ls_step mm cm s (s\<lparr>ls_clients := (ls_clients s)[i := (ls_clients s ! i)
                         \<lparr>c_task_map := sm_assign n t' (c_task_map (ls_clients s ! i))\<rparr>],
                       ls_acks := ls_acks s @ acks_sent es,
                       ls_log := ls_log s @ map (\<lambda>e. (i, TaskEvent n e)) es\<rparr>)"

text \<open>The times for which the task \<open>n\<close> of client \<open>i\<close> has computed, in order.\<close>

definition computed :: "lock_step \<Rightarrow> nat \<Rightarrow> string \<Rightarrow> timestamp_t list" where
  "computed s i n = concat (map (\<lambda>(j, e). case e of TaskEvent n' (Compute t) \<Rightarrow> if j = i \<and> n' = n then [t] else [] | _ \<Rightarrow> [])
     (ls_log s))"

definition tasks_of :: "lock_step \<Rightarrow> (nat \<times> string \<times> task) set" where
  "tasks_of s = {(i, n, t). i < length (ls_clients s) \<and> map_of (c_task_map (ls_clients s ! i)) n = Some t}"

text \<open>
  The state after all clients and then the master have been started, the schedule having been built from
  exactly the cycle times of the tasks (and possibly the master's own minimum trigger time).
\<close>

definition ls_started :: "schedule_configs \<Rightarrow> lock_step \<Rightarrow> bool" where
  "ls_started configs s \<longleftrightarrow>
     (let m = ls_master s in
        sched_rel configs 0 {} (t_schedule_map m) \<and> is_initial_schedule_flag m \<and> t_duration_since_last_tick m = 0 \<and>
        t_pc m = Loop False \<and> \<not> t_shutdown_worker_semaphore m \<and> \<not> t_tick_barrier m \<and>
        (t_step_trigger_strategy m = Some AFAP \<and> t_current_time m = 0 \<or>
         t_step_trigger_strategy m = Some Internal \<and> t_current_time m = -1)) \<and>
     ls_ticks s = map (\<lambda>_. []) (ls_clients s) \<and> ls_acks s = [] \<and> ls_log s = [] \<and>
     (\<forall>c \<in> set (ls_clients s). client_inv c \<and> c_current_simulation_time c = 0 \<and> c_time_progress_sum c = 0) \<and>
     (\<forall>(i, n, t) \<in> tasks_of s. m_pc t = LoopHead \<and> \<not> m_barrier t \<and>
        length (m_uuid t) = 36 \<and> (m_uuid t, m_cycle t) \<in> set configs) \<and>
     (\<forall>(i, n, t) \<in> tasks_of s. \<forall>(i', n', t') \<in> tasks_of s. m_uuid t = m_uuid t' \<longrightarrow> i = i' \<and> n = n')"

inductive ls_reachable :: "machine \<Rightarrow> (nat \<Rightarrow> machine) \<Rightarrow> schedule_configs \<Rightarrow> lock_step \<Rightarrow> bool" for mm cm configs where
  start: "ls_started configs s \<Longrightarrow> ls_reachable mm cm configs s"
| step: "ls_reachable mm cm configs s \<Longrightarrow> ls_step mm cm s s' \<Longrightarrow> ls_reachable mm cm configs s'"

section \<open>One task\<close>

definition steps_of :: "schedule_configs \<Rightarrow> timestamp_t \<Rightarrow> string \<Rightarrow> nat \<Rightarrow> timestamp_t list" where
  "steps_of configs T0 u k =
     map (\<lambda>m. T0 + gcd_of_cycles configs * int m) (filter (\<lambda>m. due configs m u) [0..<k])"

definition time_of :: "schedule_configs \<Rightarrow> timestamp_t \<Rightarrow> nat \<Rightarrow> timestamp_t" where
  "time_of configs T0 n = T0 + gcd_of_cycles configs * int n"

lemma steps_of_Suc:
  "steps_of configs T0 u (Suc k) = steps_of configs T0 u k @ (if due configs k u then [time_of configs T0 k] else [])"
  by (simp add: steps_of_def time_of_def)

lemma steps_of_pred:
  "0 < N \<Longrightarrow> steps_of configs T0 u N =
     steps_of configs T0 u (N - 1) @ (if due configs (N - 1) u then [time_of configs T0 (N - 1)] else [])"
  using steps_of_Suc [of configs T0 u "N - 1"] by simp

text \<open>
  The step of a task after \<open>N\<close> schedules of the master. It is in one place: its tick is still on the way
  (\<open>pend\<close>), the task owes it (\<open>active\<close>), its acknowledgement is on the way (\<open>k\<close> counts them), or has
  arrived (\<open>arrived\<close>); or it has been given up. It has been computed (\<open>ts\<close>) from the moment its acknowledgement
  is being sent.
\<close>

definition before_compute :: "task \<Rightarrow> bool" where
  "before_compute t \<longleftrightarrow> m_barrier t \<or> (case m_pc t of Woken \<Rightarrow> True | Locked \<Rightarrow> True | Validating _ \<Rightarrow> True | Computing _ \<Rightarrow> True | _ \<Rightarrow> False)"

definition after_compute :: "task \<Rightarrow> bool" where
  "after_compute t \<longleftrightarrow> (case m_pc t of Acking _ _ \<Rightarrow> True | _ \<Rightarrow> False)"

definition task_ok ::
    "schedule_configs \<Rightarrow> timestamp_t \<Rightarrow> nat \<Rightarrow> bool \<Rightarrow> nat \<Rightarrow> bool \<Rightarrow> timestamp_t list \<Rightarrow> task \<Rightarrow> bool" where
  "task_ok configs T0 N pend k arrived ts t \<longleftrightarrow>
     length (m_uuid t) = 36 \<and> (m_uuid t, m_cycle t) \<in> set configs \<and>
     of_bool pend + of_bool (active t) + k + of_bool arrived \<le> (1 :: nat) \<and>
     \<not> (m_barrier t \<and> busy_pc (m_pc t)) \<and>
     (pend \<or> active t \<or> 0 < k \<or> arrived \<longrightarrow> 0 < N \<and> due configs (N - 1) (m_uuid t)) \<and>
     (active t \<longrightarrow> m_current_simulation_time t = time_of configs T0 (N - 1)) \<and>
     (case m_pc t of Validating x \<Rightarrow> x = time_of configs T0 (N - 1) | Computing x \<Rightarrow> x = time_of configs T0 (N - 1) | Acking _ x \<Rightarrow> x = time_of configs T0 (N - 1) | _ \<Rightarrow> True) \<and>
     (ts = steps_of configs T0 (m_uuid t) (N - 1) \<or> ts = steps_of configs T0 (m_uuid t) N) \<and>
     (pend \<or> before_compute t \<longrightarrow> ts = steps_of configs T0 (m_uuid t) (N - 1)) \<and>
     (after_compute t \<or> 0 < k \<or> arrived \<longrightarrow> ts = steps_of configs T0 (m_uuid t) N)"

lemma active_iff: "active t \<longleftrightarrow> before_compute t \<or> after_compute t"
  by (auto simp: active_def busy_pc_def before_compute_def after_compute_def split: task_pc.splits)

lemma uuid_of_chars [simp]: "uuid_of (chars u) = u"
proof -
  have "unat (word_of_nat (of_char c :: nat) :: byte) = of_char c" for c
    by (simp add: unat_of_nat)
  then show ?thesis
    by (simp add: uuid_of_def chars_def comp_def)
qed

definition ack_uuid :: "machine \<Rightarrow> byte list \<Rightarrow> string" where
  "ack_uuid mm bs = uuid_of (uuid_str (convertTriggerAckToHostByteorder mm (ack_at mm bs)))"

lemma sendAcknowledgement_sent:
  assumes "length (m_uuid t) = 36"
  shows "\<exists>b. sendAcknowledgement mach u x ok t = (if ok then (ERR_NOERROR, [Ack b]) else (ERR_FAILED, [])) \<and>
    length b = s_trigger_ack_signal_size \<and> ack_uuid mm b = m_uuid t"
proof -
  let ?a = "\<lparr>uuid_str = chars (m_uuid t), operationalTime = word_of_int u, currSimTime = word_of_int x\<rparr>"
  let ?b = "ack_bytes mach (convertTriggerAckToNetworkByteorder mach ?a)"
  have l: "length (uuid_str ?a) = uuid_length"
    using assms by (simp add: chars_def uuid_length_def)
  have "ack_uuid mm ?b = m_uuid t"
    unfolding ack_uuid_def ack_roundtrip [OF l] by simp
  moreover have "length ?b = s_trigger_ack_signal_size"
    using l by (simp add: ack_bytes_def convertTriggerAckToNetworkByteorder_def s_trigger_ack_signal_size_def
        uuid_length_def)
  ultimately show ?thesis
    using assms by (auto simp: sendAcknowledgement_def Let_def)
qed

lemma acks_sent_simps [simp]:
  "acks_sent [] = []"
  "acks_sent (Ack b # es) = b # acks_sent es"
  "acks_sent (Compute x # es) = acks_sent es"
  "acks_sent (AckFailed # es) = acks_sent es"
  by (simp_all add: acks_sent_def)

lemma acks_sent_violation:
  "applyTimeViolationStrat t = (r, t', es) \<Longrightarrow> acks_sent es = [] \<and> computes es = [] \<and> TriggerViolation \<notin> set es"
  by (auto simp: applyTimeViolationStrat_def acks_sent_def computes_def split: TimeViolationStrategy.splits)

text \<open>Whatever its inputs, a task keeps its step in one place, or gives it up.\<close>

lemma thread_step_ok:
  assumes ok: "task_ok configs T0 N pend k arrived ts t" and cb: "m_callback t"
  shows "\<exists>t' es. thread_step mach input t = Some (t', es) \<and> same_task t t' \<and>
    task_ok configs T0 N pend (k + length (acks_sent es)) arrived (ts @ computes es) t' \<and>
    (\<forall>b \<in> set (acks_sent es). length b = s_trigger_ack_signal_size \<and> ack_uuid mm b = m_uuid t) \<and>
    TriggerViolation \<notin> set es"
proof (cases "m_pc t")
  case NotStarted
  with ok show ?thesis by (simp add: thread_step_def)
next
  case Ended
  with ok show ?thesis by (simp add: thread_step_def)
next
  case LoopHead
  with ok show ?thesis
    by (auto simp: thread_step_def task_ok_def same_task_def active_def busy_pc_def before_compute_def after_compute_def)
next
  case AtBarrier
  with ok show ?thesis
    by (auto simp: thread_step_def task_ok_def same_task_def active_def busy_pc_def before_compute_def after_compute_def)
next
  case Woken
  with ok show ?thesis
    by (auto simp: thread_step_def task_ok_def same_task_def active_def busy_pc_def before_compute_def after_compute_def)
next
  case Locked
  with ok show ?thesis
    by (auto simp: thread_step_def task_ok_def same_task_def active_def busy_pc_def before_compute_def after_compute_def)
next
  case (Validating x)
  with ok show ?thesis
    by (auto simp: thread_step_def task_ok_def same_task_def active_def busy_pc_def before_compute_def after_compute_def)
next
  case (Computing x)
  define r t1 es where "r = fst (if m_operational t \<noteq> 0 \<and> measured_time input > m_operational t
        then applyTimeViolationStrat t else (ERR_NOERROR, t, []))"
    and "t1 = fst (snd (if m_operational t \<noteq> 0 \<and> measured_time input > m_operational t
        then applyTimeViolationStrat t else (ERR_NOERROR, t, [])))"
    and "es = snd (snd (if m_operational t \<noteq> 0 \<and> measured_time input > m_operational t
        then applyTimeViolationStrat t else (ERR_NOERROR, t, [])))"
  have v: "same_task t t1 \<and> m_barrier t1 = m_barrier t \<and> m_current_simulation_time t1 = m_current_simulation_time t"
    using time_violation_effect [of t] by (simp add: t1_def)
  have e: "acks_sent es = []" "computes es = []" "TriggerViolation \<notin> set es"
    using acks_sent_violation [of t "fst (applyTimeViolationStrat t)" "fst (snd (applyTimeViolationStrat t))"
        "snd (snd (applyTimeViolationStrat t))"]
    by (simp_all add: es_def)
  have s: "thread_step mach input t =
      Some (t1\<lparr>m_pc := if isOk r then Acking (measured_time input) x else LoopHead\<rparr>, Compute x # es)"
    using Computing cb by (simp add: thread_step_def r_def t1_def es_def Let_def case_prod_beta)
  have "0 < N" "due configs (N - 1) (m_uuid t)" "x = time_of configs T0 (N - 1)"
      "ts = steps_of configs T0 (m_uuid t) (N - 1)"
    using ok Computing by (auto simp: task_ok_def active_def busy_pc_def before_compute_def)
  then have "ts @ [x] = steps_of configs T0 (m_uuid t) N"
    by (simp add: steps_of_pred)
  then have "task_ok configs T0 N pend k arrived (ts @ [x])
      (t1\<lparr>m_pc := if isOk r then Acking (measured_time input) x else LoopHead\<rparr>)"
    using ok v Computing \<open>x = _\<close>
    by (auto simp: task_ok_def same_task_def active_def busy_pc_def before_compute_def after_compute_def)
  with s v e show ?thesis
    by (auto simp: same_task_def)
next
  case (Acking used x)
  from ok have "length (m_uuid t) = 36" by (simp add: task_ok_def)
  from sendAcknowledgement_sent [OF this, of mach used x "transmit_ok input" mm] obtain b where
    b: "sendAcknowledgement mach used x (transmit_ok input) t =
        (if transmit_ok input then (ERR_NOERROR, [Ack b]) else (ERR_FAILED, []))"
      "length b = s_trigger_ack_signal_size" "ack_uuid mm b = m_uuid t"
    by blast
  have "task_ok configs T0 N pend (k + of_bool (transmit_ok input)) arrived ts (t\<lparr>m_pc := LoopHead\<rparr>)"
    using ok Acking
    by (auto simp: task_ok_def active_def busy_pc_def before_compute_def after_compute_def)
  with b Acking show ?thesis
    by (auto simp: thread_step_def same_task_def isFailed_def)
qed

section \<open>One client\<close>

lemma due_cycle:
  assumes "configs_ok configs" "(u, c) \<in> set configs"
  shows "due configs n u \<longleftrightarrow> c dvd gcd_of_cycles configs * int n"
proof -
  have "distinct (map fst configs)"
    using assms(1) by (simp add: configs_ok_def sm_wf_distinct)
  have "c' = c" if "(u, c') \<in> set configs" for c'
    by (rule eq_key_imp_eq_value [OF \<open>distinct (map fst configs)\<close> that assms(2)])
  then show ?thesis
    using assms(2) unfolding due_def by blast
qed

text \<open>The ticks for the schedules \<open>ds\<close>, each with the time since the one before.\<close>

fun tick_list :: "machine \<Rightarrow> schedule_configs \<Rightarrow> timestamp_t \<Rightarrow> nat \<Rightarrow> nat list \<Rightarrow> byte list list" where
  "tick_list mm configs T0 prev [] = []"
| "tick_list mm configs T0 prev (d # ds) =
     send_tick mm (time_of configs T0 d) (gcd_of_cycles configs * int (d - prev)) # tick_list mm configs T0 d ds"

lemma tick_list_append:
  "tick_list mm configs T0 prev (ds @ [d]) = tick_list mm configs T0 prev ds @
     [send_tick mm (time_of configs T0 d) (gcd_of_cycles configs * int (d - last (prev # ds)))]"
  by (induction mm configs T0 prev ds rule: tick_list.induct) auto

definition client_ok ::
    "machine \<Rightarrow> schedule_configs \<Rightarrow> timestamp_t \<Rightarrow> nat \<Rightarrow> nat list \<Rightarrow> byte list list \<Rightarrow> timing_client \<Rightarrow> bool" where
  "client_ok mm configs T0 N dn channel c \<longleftrightarrow>
     client_inv c \<and>
     (\<exists>rest. ticked configs N = dn @ rest \<and> channel = tick_list mm configs T0 (last (0 # dn)) rest \<and>
        (\<forall>(n, t) \<in> set (c_task_map c). \<forall>d \<in> set rest. due configs d (m_uuid t) \<longrightarrow> d = N - 1)) \<and>
     c_time_progress_sum c = gcd_of_cycles configs * int (last (0 # dn)) \<and>
     c_current_simulation_time c = (if dn = [] then 0 else time_of configs T0 (last dn))"

lemma progress_all_idle:
  "\<forall>(n, t) \<in> set m. \<not> active t \<and> 0 < m_cycle t \<Longrightarrow> 0 \<le> s \<Longrightarrow>
   progress_all s now m =
     Some (map (\<lambda>(n, t). (n, t\<lparr>m_current_simulation_time := now, m_barrier := (m_cycle t dvd s)\<rparr>)) m, [])"
  by (induction m) (auto simp: simTimeProgress_idle)

lemma ticked_distinct: "distinct (ticked configs N)"
  by (simp add: ticked_def)

lemma ticked_sorted: "sorted (ticked configs N)"
  by (simp add: ticked_def sorted_wrt_filter)

lemma ticked_less: "d \<in> set (ticked configs N) \<Longrightarrow> d < N"
  by (simp add: ticked_def)

lemma ticked_parts:
  assumes "ticked configs N = dn @ d # ds"
  shows "d < N" "d \<notin> set dn" "last (0 # dn) \<le> d" "dn \<noteq> [] \<Longrightarrow> last dn < d"
proof -
  show "d < N" using ticked_less [of d configs N] assms by simp
  show "d \<notin> set dn" using ticked_distinct [of configs N] assms by auto
  have "\<forall>x \<in> set dn. x \<le> d"
    using ticked_sorted [of configs N] assms by (auto simp: sorted_append)
  then show "last (0 # dn) \<le> d" by auto
  show "last dn < d" if "dn \<noteq> []"
    using that \<open>\<forall>x \<in> set dn. x \<le> d\<close> \<open>d \<notin> set dn\<close> last_in_set [OF that] by (metis le_neq_implies_less)
qed

text \<open>The next tick of an idle client: its time and sum follow, and exactly the tasks due are woken.\<close>

definition ticked_task :: "schedule_configs \<Rightarrow> timestamp_t \<Rightarrow> nat \<Rightarrow> task \<Rightarrow> task" where
  "ticked_task configs T0 d t =
     t\<lparr>m_current_simulation_time := time_of configs T0 d, m_barrier := due configs d (m_uuid t)\<rparr>"

lemma client_tick:
  assumes ok: "client_ok mm configs T0 N dn (bs # channel) c" and "configs_ok configs" "0 \<le> T0"
    and range: "in_int64 (time_of configs T0 N)"
    and tasks: "\<forall>(n, t) \<in> set (c_task_map c). \<not> active t \<and> (m_uuid t, m_cycle t) \<in> set configs"
  shows "\<exists>d c'. client_Update mach (c_trigger_input_signal_handle c) bs c = Some (c', []) \<and>
    c_task_map c' = map (\<lambda>(n, t). (n, ticked_task configs T0 d t)) (c_task_map c) \<and>
    client_ok mm configs T0 N (dn @ [d]) channel c' \<and> d < N \<and> d \<notin> set dn \<and>
    (\<forall>(n, t) \<in> set (c_task_map c). due configs d (m_uuid t) \<longrightarrow> d = N - 1)"
proof -
  let ?g = "gcd_of_cycles configs"
  have g: "0 < ?g" by (rule Gcd_cycles_pos [OF assms(2)])
  from ok obtain r where r: "ticked configs N = dn @ r"
      "bs # channel = tick_list mm configs T0 (last (0 # dn)) r"
      "\<forall>(n, t) \<in> set (c_task_map c). \<forall>d \<in> set r. due configs d (m_uuid t) \<longrightarrow> d = N - 1"
    unfolding client_ok_def by blast
  then obtain d ds where ds: "r = d # ds" by (cases r) auto
  with r have rest: "ticked configs N = dn @ d # ds"
      "bs = send_tick mm (time_of configs T0 d) (?g * int (d - last (0 # dn)))"
      "channel = tick_list mm configs T0 d ds"
      "\<forall>(n, t) \<in> set (c_task_map c). \<forall>d \<in> set (d # ds). due configs d (m_uuid t) \<longrightarrow> d = N - 1"
    by simp_all
  note part = ticked_parts [OF rest(1)]
  have "?g * int d \<le> ?g * int N"
    using part(1) g by (intro mult_left_mono) auto
  then have d_le: "?g * int d \<le> time_of configs T0 N" "time_of configs T0 d \<le> time_of configs T0 N"
    using \<open>0 \<le> T0\<close> unfolding time_of_def by linarith+
  have r1: "in_int64 (time_of configs T0 d)"
    using in_int64_between [OF range _ d_le(2)] \<open>0 \<le> T0\<close> g by (simp add: time_of_def)
  have "?g * int (d - last (0 # dn)) \<le> ?g * int d"
    using g by (intro mult_left_mono) auto
  with d_le(1) have "?g * int (d - last (0 # dn)) \<le> time_of configs T0 N" by linarith
  then have r2: "in_int64 (?g * int (d - last (0 # dn)))"
    using g by (intro in_int64_between [OF range]) (simp_all del: last.simps)
  have sum: "c_time_progress_sum c + ?g * int (d - last (0 # dn)) = ?g * int d"
    using ok part(3) by (simp add: client_ok_def of_nat_diff algebra_simps)
  have r3: "int64 (?g * int d) = ?g * int d"
    using in_int64_between [OF range _ d_le(1)] g by (simp add: int64_id)
  have skip: "int64 (c_current_simulation_time c + ?g * int (d - last (0 # dn))) = time_of configs T0 d"
    if "0 < c_current_simulation_time c"
  proof -
    have "c_current_simulation_time c = time_of configs T0 (last (0 # dn))"
      using that ok by (simp add: client_ok_def split: if_splits)
    then have "c_current_simulation_time c + ?g * int (d - last (0 # dn)) = time_of configs T0 d"
      using part(3) by (simp add: time_of_def of_nat_diff algebra_simps)
    with r1 show ?thesis by (simp add: int64_id)
  qed
  have inv: "client_inv c" using ok by (simp add: client_ok_def)
  have idle: "\<forall>(n, t) \<in> set (c_task_map c). \<not> active t \<and> 0 < m_cycle t"
    using tasks inv by (fastforce simp: client_inv_def)
  define m' where "m' = map (\<lambda>(n, t). (n, ticked_task configs T0 d t)) (c_task_map c)"
  have "progress_all (?g * int d) (time_of configs T0 d) (c_task_map c) = Some (m', [])"
  proof -
    have "map (\<lambda>(n, t). (n, t\<lparr>m_current_simulation_time := time_of configs T0 d, m_barrier := m_cycle t dvd ?g * int d\<rparr>))
        (c_task_map c) = m'"
      using tasks due_cycle [OF assms(2)] unfolding m'_def by (intro map_cong) (auto simp: ticked_task_def)
    with progress_all_idle [OF idle, of "?g * int d"] g show ?thesis by simp
  qed
  then have "client_Update mach (c_trigger_input_signal_handle c) bs c = Some (c\<lparr>c_last_trigger_received := 0,
      c_current_simulation_time := time_of configs T0 d, c_time_progress_sum := ?g * int d, c_task_map := m'\<rparr>, [])"
    using skip unfolding rest(2) client_Update_send [OF r1 r2] sum r3 by simp
  moreover have "client_ok mm configs T0 N (dn @ [d]) channel (c\<lparr>c_last_trigger_received := 0,
      c_current_simulation_time := time_of configs T0 d, c_time_progress_sum := ?g * int d, c_task_map := m'\<rparr>)"
  proof -
    have "\<forall>(n, t) \<in> set m'. \<forall>d \<in> set ds. due configs d (m_uuid t) \<longrightarrow> d = N - 1"
      using rest(4) by (auto simp: m'_def ticked_task_def)
    moreover have "sm_wf m'" "\<forall>(n, t) \<in> set m'. m_name t = n \<and> 0 < m_cycle t \<and> m_callback t"
      using inv by (auto simp: m'_def client_inv_def ticked_task_def)
    ultimately show ?thesis
      using rest(1,3) by (auto simp: client_ok_def client_inv_def)
  qed
  ultimately show ?thesis
    using part(1,2) rest(4) unfolding m'_def by (intro exI conjI) (auto simp: m'_def)
qed

lemma task_ok_tick:
  assumes "task_ok configs T0 N (0 < N \<and> due configs (N - 1) (m_uuid t) \<and> N - 1 \<notin> set dn) k arrived ts t"
    and "\<not> active t" "d \<notin> set dn" "d < N" "due configs d (m_uuid t) \<longrightarrow> d = N - 1"
  shows "task_ok configs T0 N (0 < N \<and> due configs (N - 1) (m_uuid t) \<and> N - 1 \<notin> set (dn @ [d])) k arrived ts
     (ticked_task configs T0 d t)"
proof (cases "due configs d (m_uuid t)")
  case True
  with assms show ?thesis
    by (auto simp: task_ok_def ticked_task_def active_def busy_pc_def before_compute_def after_compute_def
        split: task_pc.splits)
next
  case False
  then have "N - 1 \<noteq> d" if "due configs (N - 1) (m_uuid t)" using that by auto
  with False assms show ?thesis
    by (auto simp: task_ok_def ticked_task_def active_def busy_pc_def before_compute_def after_compute_def
        split: task_pc.splits)
qed

section \<open>Starting the system\<close>

lemma insert_configs_lookup:
  "sm_wf configs \<Longrightarrow> sm_wf (insert_configs xs configs) \<and>
   map_of (insert_configs xs configs) u = (case map_of configs u of None \<Rightarrow> map_of xs u | Some c \<Rightarrow> Some c)"
proof (induction xs arbitrary: configs)
  case Nil
  then show ?case by (simp add: insert_configs_def split: option.split)
next
  case (Cons x xs)
  obtain v c where x: "x = (v, c)" by (cases x)
  have "insert_configs (x # xs) configs = insert_configs xs (sm_insert v c configs)"
    by (simp add: insert_configs_def x)
  with Cons.IH [of "sm_insert v c configs"] Cons.prems show ?case
    by (auto simp: x map_of_sm_insert split: option.split)
qed

lemma add_min_trigger_lookup:
  "sm_wf configs \<Longrightarrow> u \<noteq> '''' \<Longrightarrow> map_of (add_min_trigger env k configs) u = map_of configs u"
  by (auto simp: add_min_trigger_def map_of_sm_insert split: option.split)

lemma insert_configs_distinct:
  assumes "distinct (map fst xs)" "(u, c) \<in> set xs"
  shows "(u, c) \<in> set (insert_configs xs [])"
proof -
  have "map_of (insert_configs xs []) u = Some c"
    using insert_configs_lookup [of "[]" xs u] assms by simp
  then show ?thesis by (rule map_of_SomeD)
qed

text \<open>The start of a master that has a schedule it can build.\<close>

lemma master_start_at:
  assumes "is_timing_master_flag m" and k: "t_step_trigger_strategy m = Some k"
    and configs: "configs = add_min_trigger env k (insert_configs (own_schedule env) (t_schedule_configs m))"
    and ok: "configs_ok configs" "schedule_length configs \<le> MAX_FEP_SCHEDULE_SIZE (sizeof_ScheduleItem env)"
    and "isOk (strategy_register env)" "isOk (strategy_start env)"
  shows "\<exists>m'. master_start env m = Some (ERR_NOERROR, m', []) \<and> sched_rel configs 0 {} (t_schedule_map m') \<and>
    is_initial_schedule_flag m' \<and> t_duration_since_last_tick m' = 0 \<and> t_pc m' = Loop False \<and>
    t_current_time m' = (if NeedToWaitForTrigger k then -1 else 0) \<and> t_step_trigger_strategy m' = Some k \<and>
    t_shutdown_worker_semaphore m' = t_shutdown_worker_semaphore m \<and> t_tick_barrier m' = t_tick_barrier m"
proof -
  from configure_small [OF ok(1) _ ok(2), of "reset (t_schedule_map m)"] obtain sm where
    sm: "configure (sizeof_ScheduleItem env) configs (reset (t_schedule_map m)) = Some (True, sm)" "sched_rel configs 0 {} sm"
    by (auto simp: reset_def)
  then show ?thesis
    using assms by (simp add: master_start_def Let_def isFailed_def)
qed

text \<open>The system of one participant, with the loops of all threads about to begin.\<close>

definition single_participant :: "scheduler \<Rightarrow> lock_step" where
  "single_participant s = \<lparr>ls_master = s_master s, ls_clients = [s_client s], ls_ticks = [[]], ls_acks = [], ls_log = []\<rparr>"

lemma scheduler_started:
  assumes inv: "client_inv (s_client s)" and m: "is_timing_master_flag (s_master s)" "t_schedule_configs (s_master s) = []"
    and k: "t_step_trigger_strategy (s_master s) = Some k" "NeedToWaitForCompletition k"
    and fresh: "\<not> t_tick_barrier (s_master s)" "\<not> t_shutdown_worker_semaphore (s_master s)"
    and uuids: "distinct (map fst (FillScheduleList (s_client s)))" "\<forall>(u, c) \<in> set (FillScheduleList (s_client s)). length u = 36"
    and configs: "configs = add_min_trigger menv k (insert_configs (FillScheduleList (s_client s)) [])"
    and ok: "configs_ok configs" "schedule_length configs \<le> MAX_FEP_SCHEDULE_SIZE (sizeof_ScheduleItem menv)"
    and res: "isOk (strategy_register menv)" "isOk (strategy_start menv)"
  shows "\<exists>s'. scheduler_start menv s = Some (ERR_NOERROR, s') \<and> ls_started configs (single_participant s')"
proof -
  let ?c = "client_start (s_client s)"
  let ?env = "menv\<lparr>own_schedule := FillScheduleList ?c\<rparr>"
  have list: "FillScheduleList ?c = FillScheduleList (s_client s)"
    by (auto simp: FillScheduleList_def client_start_def task_create_def)
  have env: "configs = add_min_trigger ?env k (insert_configs (own_schedule ?env) (t_schedule_configs (s_master s)))"
    unfolding configs m(2) list by (simp add: add_min_trigger_def)
  from master_start_at [OF m(1) k(1) env ok(1)] ok(2) res obtain m' where
    m': "master_start ?env (s_master s) = Some (ERR_NOERROR, m', [])" "sched_rel configs 0 {} (t_schedule_map m')"
      "is_initial_schedule_flag m'" "t_duration_since_last_tick m' = 0" "t_pc m' = Loop False"
      "t_current_time m' = (if NeedToWaitForTrigger k then -1 else 0)" "t_step_trigger_strategy m' = Some k"
      "t_shutdown_worker_semaphore m' = t_shutdown_worker_semaphore (s_master s)"
      "t_tick_barrier m' = t_tick_barrier (s_master s)"
    by auto
  let ?s = "s\<lparr>s_client := ?c, s_master := m'\<rparr>"
  have start: "scheduler_start menv s = Some (ERR_NOERROR, ?s)"
    using m'(1) by (simp add: scheduler_start_def Let_def)
  have wf: "sm_wf (c_task_map (s_client s))" using inv by (simp add: client_inv_def)
  have task: "\<exists>t0. (n, t0) \<in> set (c_task_map (s_client s)) \<and> t = task_create t0"
    if "map_of (c_task_map ?c) n = Some t" for n t
    using map_of_SomeD [OF that] by (auto simp: client_start_def)
  have entry: "(m_uuid t0, m_cycle t0) \<in> set (FillScheduleList (s_client s))" if "(n, t0) \<in> set (c_task_map (s_client s))" for n t0
    using that by (force simp: FillScheduleList_def)
  have one: "i = 0 \<and> m_pc t = LoopHead \<and> \<not> m_barrier t \<and> length (m_uuid t) = 36 \<and> (m_uuid t, m_cycle t) \<in> set configs"
    if a: "(i, n, t) \<in> tasks_of (single_participant ?s)" for i n t
  proof -
    from a have i: "i = 0" "map_of (c_task_map ?c) n = Some t" by (auto simp: tasks_of_def single_participant_def)
    from task [OF i(2)] obtain t0 where t0: "(n, t0) \<in> set (c_task_map (s_client s))" "t = task_create t0" by blast
    note e = entry [OF t0(1)]
    have len: "length (m_uuid t0) = 36" using e uuids(2) by blast
    have "(m_uuid t0, m_cycle t0) \<in> set (insert_configs (FillScheduleList (s_client s)) [])"
      by (rule insert_configs_distinct [OF uuids(1) e])
    moreover have wfc: "sm_wf (insert_configs (FillScheduleList (s_client s)) [])"
      using insert_configs_lookup [of "[]"] by simp
    ultimately have "map_of (insert_configs (FillScheduleList (s_client s)) []) (m_uuid t0) = Some (m_cycle t0)"
      by (simp add: sm_wf_distinct)
    moreover have "m_uuid t0 \<noteq> ''''" using len by auto
    ultimately have "map_of configs (m_uuid t0) = Some (m_cycle t0)"
      unfolding configs by (simp add: add_min_trigger_lookup [OF wfc])
    with i(1) t0(2) len show ?thesis by (auto simp: task_create_def dest: map_of_SomeD)
  qed
  have unique: "n = n'" if a: "(i, n, t) \<in> tasks_of (single_participant ?s)" "(i', n', t') \<in> tasks_of (single_participant ?s)"
    "m_uuid t = m_uuid t'" for i n t i' n' t'
  proof -
    from a(1,2) have "map_of (c_task_map ?c) n = Some t" "map_of (c_task_map ?c) n' = Some t'"
      by (auto simp: tasks_of_def single_participant_def)
    from task [OF this(1)] task [OF this(2)] obtain t0 t1 where
      t: "(n, t0) \<in> set (c_task_map (s_client s))" "t = task_create t0"
         "(n', t1) \<in> set (c_task_map (s_client s))" "t' = task_create t1" by blast
    with a(3) have "m_uuid t0 = m_uuid t1" by (simp add: task_create_def)
    moreover have "distinct (map (m_uuid \<circ> snd) (c_task_map (s_client s)))"
      using uuids(1) by (simp add: FillScheduleList_def case_prod_unfold comp_def)
    then have inj: "inj_on (m_uuid \<circ> snd) (set (c_task_map (s_client s)))" by (simp add: distinct_map)
    ultimately have "(n, t0) = (n', t1)"
      using t(1,3) inj_onD [OF inj, of "(n, t0)" "(n', t1)"] by simp
    then show ?thesis by simp
  qed
  have c: "client_inv ?c" "c_current_simulation_time ?c = 0" "c_time_progress_sum ?c = 0"
    using inv by (auto simp: client_inv_def client_start_def task_create_def)
  have "k = AFAP \<or> k = Internal" using k(2) by (cases k) auto
  with m'(6,7) have strategy: "t_step_trigger_strategy m' = Some AFAP \<and> t_current_time m' = 0 \<or>
      t_step_trigger_strategy m' = Some Internal \<and> t_current_time m' = -1" by auto
  have "ls_started configs (single_participant ?s)"
    unfolding ls_started_def Let_def
  proof (intro conjI)
    show "\<forall>(i, n, t) \<in> tasks_of (single_participant ?s). m_pc t = LoopHead \<and> \<not> m_barrier t \<and>
        length (m_uuid t) = 36 \<and> (m_uuid t, m_cycle t) \<in> set configs"
      using one by blast
    show "\<forall>(i, n, t) \<in> tasks_of (single_participant ?s). \<forall>(i', n', t') \<in> tasks_of (single_participant ?s).
        m_uuid t = m_uuid t' \<longrightarrow> i = i' \<and> n = n'"
      using one unique by blast
  qed (use c strategy m'(2-5,8,9) fresh in \<open>simp_all add: single_participant_def\<close>)
  with start show ?thesis by blast
qed

text \<open>If the scheduler of the only participant, which is also the master, has been initialised with jobs
  whose identifiers are distinct (and 36 characters long), with a schedule that can be built, and if no trigger
  of an earlier run is left, its start succeeds and is the start of a lock-step simulation, in which every
  job is scheduled with its own cycle time.\<close>

theorem scheduler_start_begins_lock_step:
  assumes inv: "client_inv (s_client s)" and m: "is_timing_master_flag (s_master s)" "t_schedule_configs (s_master s) = []"
    and k: "t_step_trigger_strategy (s_master s) = Some k" "NeedToWaitForCompletition k"
    and fresh: "\<not> t_tick_barrier (s_master s)" "\<not> t_shutdown_worker_semaphore (s_master s)"
    and uuids: "distinct (map fst (FillScheduleList (s_client s)))" "\<forall>(u, c) \<in> set (FillScheduleList (s_client s)). length u = 36"
    and configs: "configs = add_min_trigger menv k (insert_configs (FillScheduleList (s_client s)) [])"
    and ok: "configs_ok configs" "schedule_length configs \<le> MAX_FEP_SCHEDULE_SIZE (sizeof_ScheduleItem menv)"
    and res: "isOk (strategy_register menv)" "isOk (strategy_start menv)"
  shows "\<exists>s'. scheduler_start menv s = Some (ERR_NOERROR, s') \<and> ls_started configs (single_participant s')"
  using assms by (rule scheduler_started)

definition master_env_demo :: master_env where
  "master_env_demo = \<lparr>master_participant = Some ''p'', own_name = Some ''p'', trigger_mode = Some ''AFAP'',
     client_timeout = Some 5, min_trigger_time = None, transmit_command = ERR_NOERROR, register_ack_signal = Some 1,
     register_ack_listener = ERR_NOERROR, register_tick_signal = Some 2, own_schedule = [],
     strategy_register = ERR_NOERROR, strategy_start = ERR_NOERROR, sizeof_ScheduleItem = 56\<rparr>"

definition jobs_demo :: "(string \<times> job_config \<times> string) list" where
  "jobs_demo =
     [(''fast'', \<lparr>cycle_sim_time_us = 40, max_runtime_real_time_us = 0,
         runtime_violation_strategy = TS_WARN_ABOUT_RUNTIME_VIOLATION\<rparr>, replicate 36 CHR ''a''),
      (''slow'', \<lparr>cycle_sim_time_us = 60, max_runtime_real_time_us = 0,
         runtime_violation_strategy = TS_WARN_ABOUT_RUNTIME_VIOLATION\<rparr>, replicate 36 CHR ''b'')]"

definition scheduler_demo :: scheduler where
  "scheduler_demo = snd (the (scheduler_initialize (env_demo\<lparr>prop_master := Some ''p''\<rparr>) master_env_demo jobs_demo
     \<lparr>s_client = TimingClient, s_master = TimingMaster, s_jobs = []\<rparr>))"

definition configs_demo :: schedule_configs where
  "configs_demo = [(replicate 36 CHR ''a'', 40), (replicate 36 CHR ''b'', 60)]"

lemma configs_demo_ok: "configs_ok configs_demo" "schedule_length configs_demo = 6"
proof -
  have "Lcm {40, 60 :: int} = 120" and g: "Gcd {40, 60 :: int} = 20"
    by code_simp+
  then show "configs_ok configs_demo" "schedule_length configs_demo = 6"
    by (simp_all add: configs_demo_def configs_ok_def schedule_length_def cycles_def sm_wf_def in_int64_def eval_nat_numeral
        less_char_def less_list_code del: Gcd_insert Lcm_insert)
qed

lemma scheduler_demo_ready:
  "is_timing_master_flag (s_master scheduler_demo) \<and> t_schedule_configs (s_master scheduler_demo) = [] \<and>
   t_step_trigger_strategy (s_master scheduler_demo) = Some AFAP \<and>
   \<not> t_tick_barrier (s_master scheduler_demo) \<and> \<not> t_shutdown_worker_semaphore (s_master scheduler_demo)"
  "FillScheduleList (s_client scheduler_demo) = configs_demo"
  "client_inv (s_client scheduler_demo)"
  "distinct (map fst configs_demo) \<and> (\<forall>(u, c) \<in> set configs_demo. length u = 36)"
  "configs_demo = add_min_trigger master_env_demo AFAP (insert_configs configs_demo [])"
  "isOk (strategy_register master_env_demo)" "isOk (strategy_start master_env_demo)"
  "schedule_length configs_demo \<le> MAX_FEP_SCHEDULE_SIZE (sizeof_ScheduleItem master_env_demo)"
  unfolding client_inv_def sm_wf_def
  by (code_simp, code_simp, code_simp, code_simp, code_simp, simp_all add: master_env_demo_def MAX_FEP_SCHEDULE_SIZE_def configs_demo_ok)

theorem scheduler_start_begins_lock_step_witness:
  "\<exists>s'. scheduler_start master_env_demo scheduler_demo = Some (ERR_NOERROR, s') \<and>
     ls_started configs_demo (single_participant s')"
  using scheduler_start_begins_lock_step [of scheduler_demo AFAP configs_demo master_env_demo]
    scheduler_demo_ready configs_demo_ok
  by simp

text \<open>The size check of the schedule without natural numbers in the millions.\<close>

lemma configure_code [code]:
  "configure item_size configs m =
     (case calculate_lcm_and_gcd configs of
        Inl _ \<Rightarrow> Some (True, m\<lparr>schedule_vector := [], current_index := 0\<rparr>)
      | Inr (lcm_us, gcd_us) \<Rightarrow>
          if gcd_us = 0 then None
          else
            let schedule = lcm_us sdiv gcd_us in
            if take_bit 64 schedule > 10485760 div int item_size
            then Some (False, m\<lparr>schedule_vector := []\<rparr>)
            else
              let v = resize (nat schedule) (schedule_vector m) in
              Some (True, m\<lparr>
                schedule_vector :=
                  map (\<lambda>i. insert_due_configs configs (int64 (gcd_us * int i)) (v ! i)) [0..<length v],
                cycle_time_us := gcd_us,
                current_index := 0\<rparr>))"
proof -
  have "int (MAX_FEP_SCHEDULE_SIZE item_size) = 10485760 div int item_size"
    by (simp add: MAX_FEP_SCHEDULE_SIZE_def zdiv_int)
  then show ?thesis unfolding configure_def by (simp only:)
qed

text \<open>Chosen steps, to run the system on concrete schedules.\<close>

datatype ls_move = RoundMove | TickMove nat | AckMove | ThreadMove nat string task_input

definition ls_move :: "machine \<Rightarrow> (nat \<Rightarrow> machine) \<Rightarrow> ls_move \<Rightarrow> lock_step \<Rightarrow> lock_step option" where
  "ls_move mm cm mv s =
     (case mv of
        RoundMove \<Rightarrow>
          if in_int64 (t_current_time (ls_master s) + cycle_time_us (t_schedule_map (ls_master s)))
          then map_option (\<lambda>(m', es). s\<lparr>ls_master := m', ls_ticks := map (\<lambda>ch. ch @ ticks_sent es) (ls_ticks s)\<rparr>)
                 (master_round mm (ls_master s))
          else None
      | TickMove i \<Rightarrow>
          if i < length (ls_clients s) \<and> ls_ticks s ! i \<noteq> []
          then map_option (\<lambda>(c', es). s\<lparr>ls_clients := (ls_clients s)[i := c'], ls_ticks := (ls_ticks s)[i := tl (ls_ticks s ! i)],
                       ls_log := ls_log s @ map (Pair i) es\<rparr>)
                 (client_Update (cm i) (c_trigger_input_signal_handle (ls_clients s ! i)) (hd (ls_ticks s ! i)) (ls_clients s ! i))
          else None
      | AckMove \<Rightarrow>
          (case ls_acks s of
             [] \<Rightarrow> None
           | bs # ys \<Rightarrow> map_option (\<lambda>m'. s\<lparr>ls_master := m', ls_acks := ys\<rparr>)
                 (master_Update mm (t_ack_input_signal_handle (ls_master s)) bs (ls_master s)))
      | ThreadMove i n input \<Rightarrow>
          if i < length (ls_clients s)
          then (case map_of (c_task_map (ls_clients s ! i)) n of
                  None \<Rightarrow> None
                | Some t \<Rightarrow> map_option (\<lambda>(t', es). s\<lparr>ls_clients := (ls_clients s)[i := (ls_clients s ! i)
                         \<lparr>c_task_map := sm_assign n t' (c_task_map (ls_clients s ! i))\<rparr>],
                       ls_acks := ls_acks s @ acks_sent es,
                       ls_log := ls_log s @ map (\<lambda>e. (i, TaskEvent n e)) es\<rparr>)
                 (thread_step (cm i) input t))
          else None)"

lemma ls_move_step: "ls_move mm cm mv s = Some s' \<Longrightarrow> ls_step mm cm s s'"
proof (cases mv)
  case AckMove
  moreover assume "ls_move mm cm mv s = Some s'"
  ultimately show ?thesis
    using ls_step.ack [of s "[]"] by (auto simp: ls_move_def split: list.splits)
next
  case (TickMove i)
  moreover assume "ls_move mm cm mv s = Some s'"
  ultimately show ?thesis
    using ls_step.tick [of i s "hd (ls_ticks s ! i)" "tl (ls_ticks s ! i)"] by (auto simp: ls_move_def split: if_splits)
qed (auto simp: ls_move_def split: if_splits option.splits intro: ls_step.intros)

fun ls_moves :: "machine \<Rightarrow> (nat \<Rightarrow> machine) \<Rightarrow> ls_move list \<Rightarrow> lock_step \<Rightarrow> lock_step option" where
  "ls_moves mm cm [] s = Some s"
| "ls_moves mm cm (mv # mvs) s = Option.bind (ls_move mm cm mv s) (ls_moves mm cm mvs)"

lemma ls_moves_reachable:
  "ls_reachable mm cm configs s \<Longrightarrow> ls_moves mm cm mvs s = Some s' \<Longrightarrow> ls_reachable mm cm configs s'"
  by (induction mvs arbitrary: s) (auto simp: bind_eq_Some_conv dest: ls_move_step intro: ls_reachable.step)

definition works :: "string \<Rightarrow> ls_move list" where
  "works n = replicate 7 (ThreadMove 0 n demo_input)"

definition moves_demo :: "ls_move list" where
  "moves_demo = [RoundMove, TickMove 0] @ works ''slow'' @ works ''fast'' @ [AckMove, AckMove] @
     replicate 3 RoundMove @ [TickMove 0] @ works ''fast''"

definition started_demo :: lock_step where
  "started_demo = single_participant (snd (the (scheduler_start master_env_demo scheduler_demo)))"

definition running_demo :: lock_step where
  "running_demo = the (ls_moves LittleEndian (\<lambda>_. BigEndian) moves_demo started_demo)"

section \<open>Faults of starting and running\<close>

text \<open>
  A trigger that a run leaves behind survives the restart: neither \<open>stop\<close> nor \<open>start\<close> clears the barrier
  of the ticks, so the first round of the new run sends a tick at once, for the time \<open>-1\<close> that means that no
  trigger has come yet, and the time of the first real trigger is not taken.
\<close>

theorem stale_trigger_survives_restart:
  assumes m: "is_timing_master_flag m" "t_step_trigger_strategy m = Some Internal" "t_pc m = Finished" "t_tick_barrier m"
    and configs: "configs = add_min_trigger env Internal (insert_configs (own_schedule env) (t_schedule_configs m))"
    and ok: "configs_ok configs" "schedule_length configs \<le> MAX_FEP_SCHEDULE_SIZE (sizeof_ScheduleItem env)"
    and res: "isOk (strategy_register env)" "isOk (strategy_start env)"
  shows "\<exists>m1 m2 m3. master_joined (master_stop m) = Some m1 \<and> master_start env m1 = Some (ERR_NOERROR, m2, []) \<and>
    t_current_time m2 = -1 \<and> master_round mach m2 = Some (m3, [SendTick (send_tick mach (-1) 0)]) \<and>
    (\<forall>t. 1 < gcd_of_cycles configs \<and> in_int64 (gcd_of_cycles configs) \<longrightarrow>
       t_current_time (InternalTrigger t m3) = gcd_of_cycles configs - 1)"
proof -
  define m1 where "m1 = (master_stop m)\<lparr>t_pc := NoThread, t_shutdown_worker_semaphore := False\<rparr>"
  have m1: "master_joined (master_stop m) = Some m1" "is_timing_master_flag m1" "t_step_trigger_strategy m1 = Some Internal"
      "t_tick_barrier m1" "\<not> t_shutdown_worker_semaphore m1" "t_schedule_configs m1 = t_schedule_configs m"
    using m by (simp_all add: master_joined_def master_stop_def m1_def)
  from master_start_at [OF m1(2,3) _ ok res] configs m1(6) obtain m2 where
    m2: "master_start env m1 = Some (ERR_NOERROR, m2, [])" "sched_rel configs 0 {} (t_schedule_map m2)"
      "is_initial_schedule_flag m2" "t_duration_since_last_tick m2 = 0" "t_pc m2 = Loop False" "t_current_time m2 = -1"
      "t_step_trigger_strategy m2 = Some Internal" "\<not> t_shutdown_worker_semaphore m2" "t_tick_barrier m2"
    using m1(4,5) by auto
  have "\<exists>u c. (u, c) \<in> set configs"
    using ok(1) by (cases configs) (auto simp: configs_ok_def)
  then have "\<exists>u. due configs 0 u" by (auto simp: due_def)
  then have step: "isStepInCurrentSchedule (t_schedule_map m2) = Some True"
    using has_step_sched_rel [OF m2(2)] by simp
  obtain b where b: "isConfiguredStepInCurrentSchedule (t_schedule_map m2) = Some b"
    using has_configured_sched_rel [OF m2(2)] by blast
  let ?g = "gcd_of_cycles configs"
  have g: "getCycleTime (t_schedule_map m2) = ?g"
    using m2(2) by (simp add: getCycleTime_def sched_rel_def)
  let ?m3 = "m2\<lparr>t_tick_barrier := False, is_initial_schedule_flag := False, t_duration_since_last_tick := int64 ?g,
      t_current_time := int64 (?g - 1), t_pc := Loop b\<rparr>"
  have "master_round mach m2 = Some (?m3, [SendTick (send_tick mach (-1) 0)])"
    using m2(3-9) step b g
    by (simp add: master_round_def next_schedule_def DoNextSchedule_def waits_for_trigger_def waits_for_completition_def
        sendTickSignalToClients_def Let_def)
  moreover have "t_current_time (InternalTrigger t ?m3) = ?g - 1" if "1 < ?g" "in_int64 ?g" for t
    using that by (simp add: InternalTrigger_def Let_def int64_id in_int64_between [OF that(2)])
  ultimately show ?thesis using m1(1) m2(1,6) by blast
qed

theorem stale_trigger_survives_restart_witness:
  "\<exists>m1 m2 m3. master_joined (master_stop ((s_master scheduler_demo)\<lparr>t_step_trigger_strategy := Some Internal,
       t_pc := Finished, t_tick_barrier := True\<rparr>)) = Some m1 \<and>
     master_start (master_env_demo\<lparr>own_schedule := configs_demo\<rparr>) m1 = Some (ERR_NOERROR, m2, []) \<and>
     master_round LittleEndian m2 = Some (m3, [SendTick (send_tick LittleEndian (-1) 0)])"
proof -
  have c: "configs_demo = add_min_trigger (master_env_demo\<lparr>own_schedule := configs_demo\<rparr>) Internal
      (insert_configs (own_schedule (master_env_demo\<lparr>own_schedule := configs_demo\<rparr>)) [])"
    by code_simp
  show ?thesis
    using stale_trigger_survives_restart [of "(s_master scheduler_demo)\<lparr>t_step_trigger_strategy := Some Internal,
        t_pc := Finished, t_tick_barrier := True\<rparr>" configs_demo "master_env_demo\<lparr>own_schedule := configs_demo\<rparr>" LittleEndian]
      c scheduler_demo_ready(1,6-8) configs_demo_ok(1)
    by auto
qed

text \<open>
  In the mode \<open>AFAP\<close> a master without any step, its own or one of a client, starts without an error, and
  its worker thread then reads behind the end of the empty schedule.
\<close>

theorem master_without_steps_undefined:
  assumes "is_timing_master_flag m" "t_step_trigger_strategy m = Some AFAP" "t_schedule_configs m = []" "own_schedule env = []"
    and "isOk (strategy_register env)" "isOk (strategy_start env)" "\<not> t_shutdown_worker_semaphore m"
  shows "\<exists>m'. master_start env m = Some (ERR_NOERROR, m', []) \<and> master_round mach m' = None"
proof -
  let ?sm = "(t_schedule_map m)\<lparr>schedule_vector := [], cycle_time_us := 0, current_index := 0\<rparr>"
  have "add_min_trigger env AFAP [] = []" by (simp add: add_min_trigger_def split: option.split)
  moreover obtain r where "calculate_lcm_and_gcd [] = Inl r"
    by (simp add: calculate_lcm_and_gcd_def)
  ultimately have "configure (sizeof_ScheduleItem env) (add_min_trigger env AFAP (insert_configs (own_schedule env)
      (t_schedule_configs m))) (reset (t_schedule_map m)) = Some (True, ?sm)"
    using assms(3,4) by (simp add: insert_configs_def configure_def reset_def)
  then obtain m' where m': "master_start env m = Some (ERR_NOERROR, m', [])" "t_schedule_map m' = ?sm" "t_pc m' = Loop False"
      "is_initial_schedule_flag m'" "t_step_trigger_strategy m' = Some AFAP" "\<not> t_shutdown_worker_semaphore m'"
    using assms(1,2,5-7) by (simp add: master_start_def Let_def isFailed_def)
  then have "isStepInCurrentSchedule (t_schedule_map m') = None"
    by (simp add: isStepInCurrentSchedule_def refCurrentScheduleItem_def)
  then have "DoNextSchedule mach m' = None"
    using m'(4) by (simp add: DoNextSchedule_def)
  then have "master_round mach m' = None"
    using m'(3,5,6) by (simp add: master_round_def waits_for_trigger_def waits_for_completition_def next_schedule_def Let_def)
  with m'(1) show ?thesis by blast
qed

theorem master_without_steps_undefined_witness:
  "\<exists>m'. master_start master_env_demo (s_master scheduler_demo) = Some (ERR_NOERROR, m', []) \<and> master_round BigEndian m' = None"
  using master_without_steps_undefined [of "s_master scheduler_demo" master_env_demo BigEndian] scheduler_demo_ready(1)
  by (simp add: master_env_demo_def)

lemma CheckAckTimeout_iterated:
  assumes "t_last_acknowledge_received m = 0" "watchdog_period * int n < 2 ^ 63"
  shows "((\<lambda>m. fst (CheckAckTimeout m)) ^^ n) m = m\<lparr>t_last_acknowledge_received := watchdog_period * int n\<rparr>"
  using assms(2)
proof (induction n)
  case 0
  with assms(1) show ?case by simp
next
  case (Suc n)
  then have "in_int64 (watchdog_period * int n + watchdog_period)"
    by (simp add: in_int64_def watchdog_period_def)
  with Suc show ?case by (simp add: CheckAckTimeout_def int64_id watchdog_period_def algebra_simps)
qed

text \<open>
  The watchdog of the acknowledgements fires although none is outstanding: a master that has received all of
  them and only waits for its clock reports, once more than the configured timeout has passed, that
  acknowledgements are missing and sets the error state, as with any cycle time longer than the timeout.
\<close>

theorem idle_master_times_out:
  assumes at: "master_at configs T0 N A m" "all_in configs N A" "0 < N"
    and m: "t_pc m = WaitTick" "\<not> t_shutdown_worker_semaphore m" "\<not> t_tick_barrier m" "t_last_acknowledge_received m = 0"
    and n: "t_acknowledge_wait_timeout m < watchdog_period * int n" "watchdog_period * int n < 2 ^ 63"
  shows "let m' = ((\<lambda>m. fst (CheckAckTimeout m)) ^^ n) m
    in isCurrentScheduleComplete (t_schedule_map m') = Some True \<and>
       master_round mach m' = Some (m', []) \<and>
       snd (CheckAckTimeout m') = [MasterErrorEvent, AcknowledgementTimeout]"
proof -
  have "isCurrentScheduleComplete (t_schedule_map m) = Some True"
    using at complete_sched_rel [of configs "N - 1" A "t_schedule_map m"] by (simp add: master_at_def all_in_def)
  then show ?thesis
    using m(1-3) n(1) unfolding CheckAckTimeout_iterated [OF m(4) n(2)] Let_def
    by (simp add: master_round_def CheckAckTimeout_def)
qed

theorem idle_master_times_out_witness:
  "\<exists>m. t_acknowledge_wait_timeout m = 10000000 \<and>
     snd (CheckAckTimeout (((\<lambda>m. fst (CheckAckTimeout m)) ^^ 101) m)) = [MasterErrorEvent, AcknowledgementTimeout] \<and>
     master_round BigEndian (((\<lambda>m. fst (CheckAckTimeout m)) ^^ 101) m) = Some (((\<lambda>m. fst (CheckAckTimeout m)) ^^ 101) m, [])"
proof -
  let ?a = "replicate 36 CHR ''a''" and ?b = "replicate 36 CHR ''b''"
  from configure_small [OF configs_demo_ok(1), of new_schedule_map 56] obtain sm where
    sm: "sched_rel configs_demo 0 {} sm"
    by (auto simp: new_schedule_map_def configs_demo_ok MAX_FEP_SCHEDULE_SIZE_def)
  have due: "due configs_demo 0 u \<longleftrightarrow> u = ?a \<or> u = ?b" for u
    by (auto simp: due_def configs_demo_def)
  then have ab: "due configs_demo 0 ?a" "due configs_demo 0 ?b" by blast+
  from mark_sched_rel [OF sm, of ?b] ab(2) obtain sm1 where "sched_rel configs_demo 0 {?b} sm1"
    by auto
  from mark_sched_rel [OF this, of ?a] ab(1) obtain sm' where "sched_rel configs_demo 0 {?a, ?b} sm'"
    by auto
  moreover have "gcd_of_cycles configs_demo = 20"
  proof -
    have "Gcd {40, 60 :: int} = 20" by code_simp
    then show ?thesis by (simp add: configs_demo_def cycles_def del: Gcd_insert)
  qed
  moreover have "last_tick configs_demo 1 = 0"
    using last_tick_Suc [of configs_demo 0] due by auto
  moreover define m where "m = TimingMaster\<lparr>t_schedule_map := sm', t_current_time := 20,
      t_duration_since_last_tick := 20, t_pc := WaitTick\<rparr>"
  ultimately have at: "master_at configs_demo 0 1 {?a, ?b} m"
    by (simp add: master_at_def TimingMaster_def)
  have all: "all_in configs_demo 1 {?a, ?b}" by (auto simp: all_in_def due)
  have m: "t_pc m = WaitTick" "\<not> t_shutdown_worker_semaphore m" "\<not> t_tick_barrier m"
      "t_last_acknowledge_received m = 0" "t_acknowledge_wait_timeout m = 10000000"
    by (simp_all add: m_def TimingMaster_def)
  have n: "t_acknowledge_wait_timeout m < watchdog_period * int 101" "watchdog_period * int 101 < 2 ^ 63"
    by (simp_all add: watchdog_period_def m(5))
  from idle_master_times_out [OF at all _ m(1-4) n, of BigEndian] m(5) show ?thesis
    unfolding Let_def by (intro exI [of _ m] conjI) simp_all
qed

text \<open>
  The strategy \<open>TS_SKIP_OUTPUT_PUBLISH\<close> does not skip anything: when the task finds that its computation took
  too long, the job has already written its outputs (\<open>executeDataOut\<close>), the acknowledgement is still sent, and
  apart from the flag that is set, which nothing reads, the task does what it does under the strategy that only
  warns.
\<close>

theorem skip_output_publish_has_no_effect:
  assumes "m_pc t = Computing now" "m_callback t" "m_operational t \<noteq> 0" "m_operational t < measured_time input"
    and "m_time_violation_strategy t = TS_SKIP_OUTPUT_PUBLISH"
  shows "executeDataOut now \<in> set (forwardCallToJob now) \<and>
    (\<exists>t' w es. thread_step mach input t = Some (t', Compute now # es) \<and> m_pc t' = Acking (measured_time input) now \<and>
       thread_step mach input (t\<lparr>m_time_violation_strategy := TS_WARN_ABOUT_RUNTIME_VIOLATION\<rparr>) =
         Some (w, Compute now # filter (\<lambda>e. e \<noteq> SetSkip) es) \<and>
       t' = w\<lparr>m_time_violation_strategy := TS_SKIP_OUTPUT_PUBLISH\<rparr>)"
  using assms by (cases t) (simp add: forwardCallToJob_def thread_step_def applyTimeViolationStrat_def Let_def)

theorem skip_output_publish_has_no_effect_witness:
  "executeDataOut 20 \<in> set (forwardCallToJob 20) \<and>
   (\<exists>t' es. thread_step LittleEndian (demo_input\<lparr>measured_time := 9\<rparr>)
        (demo_task\<lparr>m_pc := Computing 20, m_time_violation_strategy := TS_SKIP_OUTPUT_PUBLISH\<rparr>) =
      Some (t', Compute 20 # es) \<and> m_pc t' = Acking 9 20)"
  using skip_output_publish_has_no_effect [of "demo_task\<lparr>m_pc := Computing 20, m_time_violation_strategy := TS_SKIP_OUTPUT_PUBLISH\<rparr>"
      20 "demo_input\<lparr>measured_time := 9\<rparr>" LittleEndian]
  by (auto simp: demo_task_def task_create_def demo_input_def)

end
