(* ===== verification/Lock_Step_Safety.thy ===== *)
theory Lock_Step_Safety
  imports Lock_Step
begin

text \<open>
  What the lock-step protocol guarantees: an invariant of the system of Lock_Step that ties the step number
  of the master to the position of every client in its stream of ticks and to the place where the step of
  every task is, its preservation by every step, and the theorems about reachable states that follow.
\<close>

section \<open>The invariant of the system\<close>

definition pending :: "schedule_configs \<Rightarrow> nat \<Rightarrow> nat list \<Rightarrow> string \<Rightarrow> bool" where
  "pending configs N dn u \<longleftrightarrow> 0 < N \<and> due configs (N - 1) u \<and> N - 1 \<notin> set dn"

definition acks_for :: "machine \<Rightarrow> byte list list \<Rightarrow> string \<Rightarrow> nat" where
  "acks_for mm acks u = length (filter (\<lambda>bs. ack_uuid mm bs = u) acks)"

definition master_ok :: "schedule_configs \<Rightarrow> timestamp_t \<Rightarrow> nat \<Rightarrow> string set \<Rightarrow> timing_master \<Rightarrow> bool" where
  "master_ok configs T0 N A m \<longleftrightarrow>
     master_at configs T0 N A m \<and> waits_right configs N A (t_pc m) \<and> \<not> t_shutdown_worker_semaphore m \<and>
     in_int64 (time_of configs T0 N) \<and>
     (\<exists>k. t_step_trigger_strategy m = Some k \<and> NeedToWaitForCompletition k \<and>
        (0 \<le> T0 \<or> k = Internal \<and> \<not> t_tick_barrier m \<and> N = 0))"

definition tasks_ok ::
    "machine \<Rightarrow> schedule_configs \<Rightarrow> timestamp_t \<Rightarrow> nat \<Rightarrow> string set \<Rightarrow> (nat \<Rightarrow> nat list) \<Rightarrow> lock_step \<Rightarrow> bool" where
  "tasks_ok mm configs T0 N A D s \<longleftrightarrow>
     (\<forall>(i, n, t) \<in> tasks_of s. task_ok configs T0 N (pending configs N (D i) (m_uuid t))
        (acks_for mm (ls_acks s) (m_uuid t)) (m_uuid t \<in> A) (computed s i n) t) \<and>
     (\<forall>(i, n, t) \<in> tasks_of s. \<forall>(i', n', t') \<in> tasks_of s. m_uuid t = m_uuid t' \<longrightarrow> i = i' \<and> n = n') \<and>
     (\<forall>bs \<in> set (ls_acks s). length bs = s_trigger_ack_signal_size \<and>
        (\<exists>(i, n, t) \<in> tasks_of s. m_uuid t = ack_uuid mm bs))"

definition log_ok :: "lock_step \<Rightarrow> bool" where
  "log_ok s \<longleftrightarrow> (\<forall>(i, e) \<in> set (ls_log s). e \<noteq> TriggerSkip \<and> (\<forall>n. e \<noteq> TaskEvent n TriggerViolation))"

definition ls_inv ::
    "machine \<Rightarrow> schedule_configs \<Rightarrow> timestamp_t \<Rightarrow> nat \<Rightarrow> string set \<Rightarrow> (nat \<Rightarrow> nat list) \<Rightarrow> lock_step \<Rightarrow> bool" where
  "ls_inv mm configs T0 N A D s \<longleftrightarrow>
     master_ok configs T0 N A (ls_master s) \<and> length (ls_ticks s) = length (ls_clients s) \<and>
     (\<forall>i < length (ls_clients s). client_ok mm configs T0 N (D i) (ls_ticks s ! i) (ls_clients s ! i)) \<and>
     tasks_ok mm configs T0 N A D s \<and> log_ok s"

lemma ls_invD:
  assumes "ls_inv mm configs T0 N A D s"
  shows "master_ok configs T0 N A (ls_master s)" "length (ls_ticks s) = length (ls_clients s)"
    "i < length (ls_clients s) \<Longrightarrow> client_ok mm configs T0 N (D i) (ls_ticks s ! i) (ls_clients s ! i)"
    "tasks_ok mm configs T0 N A D s" "log_ok s" "configs_ok configs"
  using assms master_at_configs_ok unfolding ls_inv_def master_ok_def by blast+

lemma tasks_okD:
  assumes "tasks_ok mm configs T0 N A D s" "(i, n, t) \<in> tasks_of s"
  shows "task_ok configs T0 N (pending configs N (D i) (m_uuid t)) (acks_for mm (ls_acks s) (m_uuid t))
    (m_uuid t \<in> A) (computed s i n) t"
  using assms unfolding tasks_ok_def by blast

lemma task_in_client:
  assumes "ls_inv mm configs T0 N A D s" "i < length (ls_clients s)"
  shows "(n, t) \<in> set (c_task_map (ls_clients s ! i)) \<longleftrightarrow> (i, n, t) \<in> tasks_of s"
proof -
  have "sm_wf (c_task_map (ls_clients s ! i))"
    using ls_invD(3) [OF assms] by (simp add: client_ok_def client_inv_def)
  then have "distinct (map fst (c_task_map (ls_clients s ! i)))" by (rule sm_wf_distinct)
  then show ?thesis
    using assms(2) by (simp add: tasks_of_def)
qed

subsection \<open>A round of the master\<close>

lemma task_ok_advance:
  assumes "task_ok configs T0 N pend k (m_uuid t \<in> A) ts t" "all_in configs N A"
  shows "task_ok configs T0 (Suc N) (due configs N (m_uuid t)) k False ts t" "\<not> pend"
proof -
  let ?u = "m_uuid t"
  have f: "length ?u = 36" "of_bool pend + of_bool (active t) + k + of_bool (?u \<in> A) \<le> (1 :: nat)"
      "pend \<or> active t \<or> 0 < k \<or> ?u \<in> A \<longrightarrow> 0 < N \<and> due configs (N - 1) ?u"
      "ts = steps_of configs T0 ?u (N - 1) \<or> ts = steps_of configs T0 ?u N"
      "?u \<in> A \<longrightarrow> ts = steps_of configs T0 ?u N"
    using assms(1) unfolding task_ok_def by blast+
  then have "?u \<noteq> []" by auto
  have idle: "\<not> pend \<and> \<not> active t \<and> k = 0"
  proof (cases "0 < N \<and> due configs (N - 1) ?u")
    case True
    with assms(2) \<open>?u \<noteq> []\<close> have "?u \<in> A" by (auto simp: all_in_def)
    with f show ?thesis by auto
  next
    case False
    with f show ?thesis by auto
  qed
  have ts: "ts = steps_of configs T0 ?u N"
  proof (cases "0 < N \<and> due configs (N - 1) ?u")
    case True
    with assms(2) \<open>?u \<noteq> []\<close> have "?u \<in> A" by (auto simp: all_in_def)
    with f show ?thesis by auto
  next
    case False
    then have "steps_of configs T0 ?u (N - 1) = steps_of configs T0 ?u N"
      using steps_of_pred [of N configs T0 ?u] by (cases "N = 0") auto
    with f show ?thesis by auto
  qed
  have "\<not> m_barrier t" "\<not> busy_pc (m_pc t)" using idle by (simp_all add: active_def)
  then show "task_ok configs T0 (Suc N) (due configs N ?u) k False ts t"
    using assms(1) idle ts
    by (auto simp: task_ok_def active_iff busy_pc_def split: task_pc.splits)
  show "\<not> pend" using idle by simp
qed

lemma ticks_sent_simps [simp]:
  "ticks_sent [] = []"
  "ticks_sent [SendTick bs] = [bs]"
  by (simp_all add: ticks_sent_def)

lemma client_ok_advance:
  assumes ok: "client_ok mm configs T0 N dn channel c"
    and idle: "\<forall>(n, t) \<in> set (c_task_map c). \<not> pending configs N dn (m_uuid t)"
  shows "client_ok mm configs T0 (Suc N) dn (channel @ ticks_sent (if \<exists>u. due configs N u
      then [SendTick (send_tick mm (T0 + gcd_of_cycles configs * int N)
              (gcd_of_cycles configs * int (N - last_tick configs N)))] else [])) c"
proof -
  from ok obtain rest where rest: "ticked configs N = dn @ rest"
      "channel = tick_list mm configs T0 (last (0 # dn)) rest"
      "\<forall>(n, t) \<in> set (c_task_map c). \<forall>d \<in> set rest. due configs d (m_uuid t) \<longrightarrow> d = N - 1"
    unfolding client_ok_def by blast
  have none: "\<forall>(n, t) \<in> set (c_task_map c). \<forall>d \<in> set rest. \<not> due configs d (m_uuid t)"
  proof -
    have False if a: "(n, t) \<in> set (c_task_map c)" "d \<in> set rest" "due configs d (m_uuid t)" for n t d
    proof -
      from a rest(3) have "d = N - 1" by auto
      moreover have "d < N" using ticked_less [of d configs N] rest(1) a(2) by simp
      moreover have "d \<notin> set dn" using ticked_distinct [of configs N] rest(1) a(2) by auto
      ultimately show False using idle a by (auto simp: pending_def)
    qed
    then show ?thesis by blast
  qed
  have last: "last_tick configs N = last (last (0 # dn) # rest)"
    using rest(1) by (cases rest) (auto simp: last_tick_def)
  let ?new = "if \<exists>u. due configs N u then [N] else []"
  have "ticked configs (Suc N) = dn @ (rest @ ?new)"
    using rest(1) by (simp add: ticked_Suc)
  moreover have "channel @ ticks_sent (if \<exists>u. due configs N u
      then [SendTick (send_tick mm (T0 + gcd_of_cycles configs * int N)
              (gcd_of_cycles configs * int (N - last_tick configs N)))] else []) =
    tick_list mm configs T0 (last (0 # dn)) (rest @ ?new)"
    unfolding rest(2) last by (simp add: tick_list_append time_of_def del: last.simps)
  moreover have "\<forall>(n, t) \<in> set (c_task_map c). \<forall>d \<in> set (rest @ ?new). due configs d (m_uuid t) \<longrightarrow> d = Suc N - 1"
    using none by auto
  ultimately show ?thesis
    using ok unfolding client_ok_def by blast
qed

lemma pending_Suc:
  "ticked configs N = dn @ rest \<Longrightarrow> pending configs (Suc N) dn u \<longleftrightarrow> due configs N u"
  using ticked_less [of N configs N] by (auto simp: pending_def)

lemma round_inv:
  assumes inv: "ls_inv mm configs T0 N A D s" and r: "master_round mm (ls_master s) = Some (m', es)"
    and range: "in_int64 (t_current_time (ls_master s) + cycle_time_us (t_schedule_map (ls_master s)))"
  shows "\<exists>N A. ls_inv mm configs T0 N A D (s\<lparr>ls_master := m', ls_ticks := map (\<lambda>ch. ch @ ticks_sent es) (ls_ticks s)\<rparr>)"
    (is "\<exists>N A. ls_inv mm configs T0 N A D ?s")
proof -
  let ?m = "ls_master s"
  note d = ls_invD [OF inv]
  from d(1) obtain k where m: "master_at configs T0 N A ?m" "waits_right configs N A (t_pc ?m)"
      "\<not> t_shutdown_worker_semaphore ?m" "in_int64 (time_of configs T0 N)"
      "t_step_trigger_strategy ?m = Some k" "NeedToWaitForCompletition k"
      "0 \<le> T0 \<or> k = Internal \<and> \<not> t_tick_barrier ?m \<and> N = 0"
    unfolding master_ok_def by blast
  have range': "in_int64 (t_current_time ?m + gcd_of_cycles configs)"
    using range m(1) by (simp add: master_at_def sched_rel_def)
  have same: "tasks_of ?s = tasks_of s" "computed ?s = computed s" "log_ok ?s = log_ok s"
    by (simp_all add: tasks_of_def computed_def log_ok_def fun_eq_iff)
  from master_round_at [OF m(1,7) range' m(2,3,5,6), of mm] r
  consider "es = []" "round_stays configs T0 N A ?m m'" | "round_advances mm configs T0 N A ?m m' es"
    by auto
  then show ?thesis
  proof cases
    case 1
    then have "master_ok configs T0 N A m'"
      using m by (auto simp: master_ok_def round_stays_def same_master_def)
    then have "ls_inv mm configs T0 N A D ?s"
      using inv 1(1) same unfolding ls_inv_def tasks_ok_def by simp
    then show ?thesis by blast
  next
    case 2
    then have adv: "all_in configs N A" "master_at configs T0 (Suc N) {} m'" "waits_right configs (Suc N) {} (t_pc m')"
        "same_master ?m m'" "\<not> (t_tick_barrier m' \<and> waits_for_trigger ?m)"
      unfolding round_advances_def by blast+
    have es: "es = (if \<exists>u. due configs N u
      then [SendTick (send_tick mm (T0 + gcd_of_cycles configs * int N)
              (gcd_of_cycles configs * int (N - last_tick configs N)))] else [])"
      using 2 unfolding round_advances_def by blast
    have T0: "0 \<le> T0"
    proof (rule ccontr)
      assume "\<not> 0 \<le> T0"
      with m(7) have "k = Internal" "\<not> t_tick_barrier ?m" "N = 0" by auto
      moreover from this m(2) have "t_pc ?m = Loop False" by (simp add: waits_right_def)
      ultimately have "master_round mm ?m = Some (?m, [])"
        using m(3,5) by (simp add: master_round_def Let_def waits_for_completition_def waits_for_trigger_def)
      with r adv(2) m(1) \<open>N = 0\<close> show False by (auto simp: master_at_def)
    qed
    have "in_int64 (time_of configs T0 (Suc N))"
      using range' m(1) by (simp add: master_at_def time_of_def algebra_simps)
    then have M: "master_ok configs T0 (Suc N) {} m'"
      using adv m T0 by (auto simp: master_ok_def same_master_def)
    have task: "task_ok configs T0 (Suc N) (due configs N (m_uuid t)) (acks_for mm (ls_acks s) (m_uuid t)) False (computed s i n) t"
        "\<not> pending configs N (D i) (m_uuid t)" if "(i, n, t) \<in> tasks_of s" for i n t
      using task_ok_advance [OF tasks_okD [OF d(4) that] adv(1)] by blast+
    have C: "client_ok mm configs T0 (Suc N) (D i) (ls_ticks s ! i @ ticks_sent es) (ls_clients s ! i)"
      if "i < length (ls_clients s)" for i
      unfolding es using task(2) task_in_client [OF inv that] by (intro client_ok_advance d(3) that) auto
    have "pending configs (Suc N) (D i) (m_uuid t) \<longleftrightarrow> due configs N (m_uuid t)" if "(i, n, t) \<in> tasks_of s" for i n t
    proof -
      have "i < length (ls_clients s)" using that by (simp add: tasks_of_def)
      from d(3) [OF this] obtain rest where "ticked configs N = D i @ rest" unfolding client_ok_def by blast
      then show ?thesis by (rule pending_Suc)
    qed
    then have "tasks_ok mm configs T0 (Suc N) {} D ?s"
      using d(4) task(1) unfolding tasks_ok_def same by auto
    with M C d(2,5) same(3) have "ls_inv mm configs T0 (Suc N) {} D ?s"
      unfolding ls_inv_def by simp
    then show ?thesis by blast
  qed
qed

subsection \<open>A trigger of the clock\<close>

lemma task_ok_zero: "task_ok configs T0 0 pend k arrived ts t \<Longrightarrow> task_ok configs T1 0 pend k arrived ts t"
  by (auto simp: task_ok_def steps_of_def active_def busy_pc_def split: task_pc.splits)

lemma client_ok_zero: "client_ok mm configs T0 0 dn channel c \<Longrightarrow> client_ok mm configs T1 0 dn channel c"
  by (auto simp: client_ok_def ticked_def)

lemma trigger_inv:
  assumes inv: "ls_inv mm configs T0 N A D s" and t: "0 \<le> t" "in_int64 t"
  shows "\<exists>T0. ls_inv mm configs T0 N A D (s\<lparr>ls_master := InternalTrigger t (ls_master s)\<rparr>)" (is "\<exists>T0. ls_inv _ _ _ _ _ _ ?s")
proof -
  note d = ls_invD [OF inv]
  let ?m = "ls_master s" and ?T = "if T0 < 0 then t else T0"
  from d(1) obtain k where m: "master_at configs T0 N A ?m" "waits_right configs N A (t_pc ?m)"
      "\<not> t_shutdown_worker_semaphore ?m" "in_int64 (time_of configs T0 N)"
      "t_step_trigger_strategy ?m = Some k" "NeedToWaitForCompletition k"
      "0 \<le> T0 \<or> k = Internal \<and> \<not> t_tick_barrier ?m \<and> N = 0"
    unfolding master_ok_def by blast
  have N: "T0 < 0 \<Longrightarrow> N = 0" using m(7) by auto
  note tr = InternalTrigger_at [OF m(1) N t(1)]
  have "in_int64 (time_of configs ?T N)"
    using m(4) N t(2) by (auto simp: time_of_def)
  then have "master_ok configs ?T N A (InternalTrigger t ?m)"
    using tr m t(1) by (auto simp: master_ok_def same_master_def)
  moreover have "client_ok mm configs ?T N (D i) (ls_ticks s ! i) (ls_clients s ! i)" if "i < length (ls_clients s)" for i
    using d(3) [OF that] N client_ok_zero by (cases "T0 < 0") auto
  moreover have "tasks_of ?s = tasks_of s" "computed ?s = computed s" "log_ok ?s = log_ok s"
    by (simp_all add: tasks_of_def computed_def log_ok_def fun_eq_iff)
  moreover have "tasks_ok mm configs ?T N A D s"
    using d(4) N task_ok_zero [of configs T0 _ _ _ _ _ ?T] unfolding tasks_ok_def by (cases "T0 < 0") fastforce+
  ultimately have "ls_inv mm configs ?T N A D ?s"
    using d(2,5) unfolding ls_inv_def tasks_ok_def by simp
  then show ?thesis by blast
qed

subsection \<open>The arrival of a tick\<close>

lemma idle_client:
  assumes inv: "ls_inv mm configs T0 N A D s" and i: "i < length (ls_clients s)" and ch: "ls_ticks s ! i = bs # rest"
    and t: "(i, n, t) \<in> tasks_of s"
  shows "\<not> active t"
proof
  assume "active t"
  moreover note tasks_okD [OF ls_invD(4) [OF inv] t]
  ultimately have "0 < N" "due configs (N - 1) (m_uuid t)" "\<not> pending configs N (D i) (m_uuid t)"
    by (auto simp: task_ok_def)
  then have "N - 1 \<in> set (D i)" by (simp add: pending_def)
  moreover from ls_invD(3) [OF inv i] ch obtain d ds where r: "ticked configs N = D i @ d # ds"
    unfolding client_ok_def by (metis list.distinct(1) neq_Nil_conv tick_list.simps(1))
  moreover from ticked_sorted [of configs N] r have "\<forall>x \<in> set (D i). x \<le> d"
    by (auto simp: sorted_append)
  moreover note ticked_parts(1,2) [OF r]
  ultimately have "N - 1 \<le> d" "d < N" "d \<notin> set (D i)" "N - 1 \<in> set (D i)" by blast+
  moreover from this have "d = N - 1" by linarith
  ultimately show False by simp
qed

lemma tick_time_known:
  assumes inv: "ls_inv mm configs T0 N A D s" and i: "i < length (ls_clients s)" and ch: "ls_ticks s ! i = bs # rest"
  shows "0 \<le> T0"
proof (rule ccontr)
  assume "\<not> 0 \<le> T0"
  then have "N = 0" using ls_invD(1) [OF inv] by (auto simp: master_ok_def)
  with ls_invD(3) [OF inv i] ch show False by (auto simp: client_ok_def ticked_def)
qed

lemma tick_tasks:
  assumes inv: "ls_inv mm configs T0 N A D s" and i: "i < length (ls_clients s)" and ch: "ls_ticks s ! i = bs # rest"
  shows "\<forall>(n, t) \<in> set (c_task_map (ls_clients s ! i)). \<not> active t \<and> (m_uuid t, m_cycle t) \<in> set configs"
proof -
  have "\<not> active t \<and> (m_uuid t, m_cycle t) \<in> set configs" if "(n, t) \<in> set (c_task_map (ls_clients s ! i))" for n t
    using that idle_client [OF inv i ch] tasks_okD [OF ls_invD(4) [OF inv]] task_in_client [OF inv i]
    by (fastforce simp: task_ok_def)
  then show ?thesis by blast
qed

lemma tasks_of_client:
  "(j, n, t) \<in> tasks_of (s\<lparr>ls_clients := (ls_clients s)[i := c], ls_ticks := chs, ls_log := lg\<rparr>) \<longleftrightarrow>
     (if j = i then i < length (ls_clients s) \<and> map_of (c_task_map c) n = Some t else (j, n, t) \<in> tasks_of s)"
  by (auto simp: tasks_of_def)

lemma tick_inv:
  assumes inv: "ls_inv mm configs T0 N A D s" and i: "i < length (ls_clients s)" and ch: "ls_ticks s ! i = bs # rest"
    and u: "client_Update mach (c_trigger_input_signal_handle (ls_clients s ! i)) bs (ls_clients s ! i) = Some (c', es)"
  shows "\<exists>D. ls_inv mm configs T0 N A D (s\<lparr>ls_clients := (ls_clients s)[i := c'], ls_ticks := (ls_ticks s)[i := rest],
      ls_log := ls_log s @ map (Pair i) es\<rparr>)" (is "\<exists>D. ls_inv _ _ _ _ _ D ?s")
proof -
  note d = ls_invD [OF inv]
  let ?c = "ls_clients s ! i"
  have T0: "0 \<le> T0" by (rule tick_time_known [OF inv i ch])
  have range: "in_int64 (time_of configs T0 N)" using d(1) by (simp add: master_ok_def)
  note tasks = tick_tasks [OF inv i ch]
  have "client_ok mm configs T0 N (D i) (bs # rest) ?c" using d(3) [OF i] ch by simp
  from client_tick [OF this d(6) T0 range tasks, of mach] u obtain n0 where
    n0: "es = []" "c_task_map c' = map (\<lambda>(n, t). (n, ticked_task configs T0 n0 t)) (c_task_map ?c)"
      "client_ok mm configs T0 N (D i @ [n0]) rest c'" "n0 < N" "n0 \<notin> set (D i)"
      "\<forall>(n, t) \<in> set (c_task_map ?c). due configs n0 (m_uuid t) \<longrightarrow> n0 = N - 1"
    by auto
  let ?D = "D(i := D i @ [n0])"
  have new: "(j, n, t) \<in> tasks_of ?s \<longleftrightarrow>
      (if j = i then \<exists>t'. (i, n, t') \<in> tasks_of s \<and> t = ticked_task configs T0 n0 t' else (j, n, t) \<in> tasks_of s)" for j n t
    using i unfolding tasks_of_client by (auto simp: n0(2) map_of_map_values tasks_of_def)
  have uuid: "m_uuid (ticked_task configs T0 n0 t) = m_uuid t" for t
    by (simp add: ticked_task_def)
  have old: "\<exists>t'. (j, n, t') \<in> tasks_of s \<and> m_uuid t' = m_uuid t" if "(j, n, t) \<in> tasks_of ?s" for j n t
    using that uuid unfolding new by (auto split: if_splits)
  have task: "task_ok configs T0 N (pending configs N (?D j) (m_uuid t))
      (acks_for mm (ls_acks s) (m_uuid t)) (m_uuid t \<in> A) (computed s j n) t" if "(j, n, t) \<in> tasks_of ?s" for j n t
  proof (cases "j = i")
    case False
    with that new tasks_okD [OF d(4), of j n t] show ?thesis by auto
  next
    case True
    with that new obtain t' where t': "(i, n, t') \<in> tasks_of s" "t = ticked_task configs T0 n0 t'" by auto
    note ok = tasks_okD [OF d(4) t'(1)]
    have "due configs n0 (m_uuid t') \<longrightarrow> n0 = N - 1"
      using n0(6) t'(1) task_in_client [OF inv i] by auto
    from task_ok_tick [OF ok [unfolded pending_def] idle_client [OF inv i ch t'(1)] n0(5,4) this] True t'(2) uuid
    show ?thesis by (simp add: pending_def)
  qed
  have unique: "j = j' \<and> n = n'"
    if a: "(j, n, t) \<in> tasks_of ?s" "(j', n', t') \<in> tasks_of ?s" "m_uuid t = m_uuid t'" for j n t j' n' t'
  proof -
    obtain t1 t2 where "(j, n, t1) \<in> tasks_of s" "(j', n', t2) \<in> tasks_of s" "m_uuid t1 = m_uuid t2"
      using old [OF a(1)] old [OF a(2)] a(3) by auto
    with d(4) show ?thesis unfolding tasks_ok_def by blast
  qed
  have comp: "computed ?s = computed s"
    using n0(1) by (simp add: computed_def fun_eq_iff)
  have "tasks_ok mm configs T0 N A ?D ?s"
    unfolding tasks_ok_def
  proof (intro conjI)
    show "\<forall>(j, n, t) \<in> tasks_of ?s. task_ok configs T0 N (pending configs N (?D j) (m_uuid t))
        (acks_for mm (ls_acks ?s) (m_uuid t)) (m_uuid t \<in> A) (computed ?s j n) t"
      using task unfolding comp by auto
    show "\<forall>(j, n, t) \<in> tasks_of ?s. \<forall>(j', n', t') \<in> tasks_of ?s. m_uuid t = m_uuid t' \<longrightarrow> j = j' \<and> n = n'"
      using unique by blast
    show "\<forall>bs \<in> set (ls_acks ?s). length bs = s_trigger_ack_signal_size \<and>
        (\<exists>(j, n, t) \<in> tasks_of ?s. m_uuid t = ack_uuid mm bs)"
    proof
      fix b assume "b \<in> set (ls_acks ?s)"
      with d(4) obtain j n t where "length b = s_trigger_ack_signal_size" "(j, n, t) \<in> tasks_of s" "m_uuid t = ack_uuid mm b"
        unfolding tasks_ok_def by auto
      moreover from this have "\<exists>t'. (j, n, t') \<in> tasks_of ?s \<and> m_uuid t' = m_uuid t"
        using new uuid by (cases "j = i") auto
      ultimately show "length b = s_trigger_ack_signal_size \<and> (\<exists>(j, n, t) \<in> tasks_of ?s. m_uuid t = ack_uuid mm b)"
        by (metis (mono_tags, lifting) case_prodI)
    qed
  qed
  moreover have "client_ok mm configs T0 N (?D j) (ls_ticks ?s ! j) (ls_clients ?s ! j)" if "j < length (ls_clients ?s)" for j
    using that d(2,3) n0(3) by (auto simp: nth_list_update)
  moreover have "log_ok ?s" using d(5) n0(1) by (simp add: log_ok_def)
  ultimately have "ls_inv mm configs T0 N A ?D ?s"
    using d(1,2) unfolding ls_inv_def by simp
  then show ?thesis by blast
qed

subsection \<open>The arrival of an acknowledgement\<close>

lemma tasks_ok_unique:
  assumes "tasks_ok mm configs T0 N A D s" "(i, n, t) \<in> tasks_of s" "(i', n', t') \<in> tasks_of s" "m_uuid t = m_uuid t'"
  shows "i = i' \<and> n = n'"
  using assms unfolding tasks_ok_def by blast

lemma task_ok_ack:
  assumes "task_ok configs T0 N pend (Suc k) arrived ts t"
  shows "\<not> arrived" "task_ok configs T0 N pend k True ts t"
  using assms by (auto simp: task_ok_def)

lemma waits_right_mono: "waits_right configs N A pc \<Longrightarrow> waits_right configs N (insert u A) pc"
  by (auto simp: waits_right_def all_in_def split: master_pc.splits)

lemma acks_for_split:
  "acks_for mm (xs @ bs # ys) u = acks_for mm (xs @ ys) u + of_bool (ack_uuid mm bs = u)"
  by (simp add: acks_for_def)

lemma ack_inv:
  assumes inv: "ls_inv mm configs T0 N A D s" and acks: "ls_acks s = xs @ bs # ys"
    and u: "master_Update mm (t_ack_input_signal_handle (ls_master s)) bs (ls_master s) = Some m'"
  shows "\<exists>A. ls_inv mm configs T0 N A D (s\<lparr>ls_master := m', ls_acks := xs @ ys\<rparr>)" (is "\<exists>A. ls_inv _ _ _ _ A _ ?s")
proof -
  note d = ls_invD [OF inv]
  let ?m = "ls_master s" and ?u = "ack_uuid mm bs"
  have "bs \<in> set (ls_acks s)" by (simp add: acks)
  with d(4) obtain i0 n0 t0 where bs: "length bs = s_trigger_ack_signal_size" "(i0, n0, t0) \<in> tasks_of s" "m_uuid t0 = ?u"
    unfolding tasks_ok_def by blast
  have count: "acks_for mm (ls_acks s) v = acks_for mm (xs @ ys) v + of_bool (?u = v)" for v
    unfolding acks by (rule acks_for_split)
  have "0 < acks_for mm (ls_acks s) (m_uuid t0)" using bs(3) by (simp add: count)
  with tasks_okD [OF d(4) bs(2)] have "0 < N \<and> due configs (N - 1) (m_uuid t0)"
    unfolding task_ok_def by blast
  then have due: "0 < N" "due configs (N - 1) ?u" using bs(3) by simp_all
  from d(1) obtain k where m: "master_at configs T0 N A ?m" "waits_right configs N A (t_pc ?m)"
      "\<not> t_shutdown_worker_semaphore ?m" "in_int64 (time_of configs T0 N)"
      "t_step_trigger_strategy ?m = Some k" "NeedToWaitForCompletition k"
      "0 \<le> T0 \<or> k = Internal \<and> \<not> t_tick_barrier ?m \<and> N = 0"
    unfolding master_ok_def by blast
  from master_Update_at [OF m(1) due(1), of mm "t_ack_input_signal_handle ?m" bs] u bs(1) due(2)
  have m': "master_at configs T0 N (insert ?u A) m'" "same_master ?m m'" "t_pc m' = t_pc ?m" "t_tick_barrier m' = t_tick_barrier ?m"
    by (auto simp: Let_def ack_uuid_def)
  have M: "master_ok configs T0 N (insert ?u A) m'"
    using m m' waits_right_mono [OF m(2)] by (auto simp: master_ok_def same_master_def)
  have same: "tasks_of ?s = tasks_of s" "computed ?s = computed s" "log_ok ?s = log_ok s"
    by (simp_all add: tasks_of_def computed_def log_ok_def fun_eq_iff)
  have task: "task_ok configs T0 N (pending configs N (D j) (m_uuid t)) (acks_for mm (xs @ ys) (m_uuid t))
      (m_uuid t \<in> insert ?u A) (computed s j n) t" if "(j, n, t) \<in> tasks_of s" for j n t
    using tasks_okD [OF d(4) that] task_ok_ack(2) by (cases "?u = m_uuid t") (auto simp: count)
  have "tasks_ok mm configs T0 N (insert ?u A) D ?s"
    unfolding tasks_ok_def same
  proof (intro conjI)
    show "\<forall>(i, n, t) \<in> tasks_of s. task_ok configs T0 N (pending configs N (D i) (m_uuid t))
        (acks_for mm (ls_acks ?s) (m_uuid t)) (m_uuid t \<in> insert ?u A) (computed s i n) t"
      using task by auto
    show "\<forall>(i, n, t) \<in> tasks_of s. \<forall>(i', n', t') \<in> tasks_of s. m_uuid t = m_uuid t' \<longrightarrow> i = i' \<and> n = n'"
      using d(4) unfolding tasks_ok_def by blast
    show "\<forall>bs \<in> set (ls_acks ?s). length bs = s_trigger_ack_signal_size \<and> (\<exists>(i, n, t) \<in> tasks_of s. m_uuid t = ack_uuid mm bs)"
      using d(4) acks unfolding tasks_ok_def by simp
  qed
  then have "ls_inv mm configs T0 N (insert ?u A) D ?s"
    using M d(2,3,5) same(3) unfolding ls_inv_def by simp
  then show ?thesis by blast
qed

subsection \<open>A step of a task thread\<close>

lemma acks_for_append: "acks_for mm (xs @ ys) u = acks_for mm xs u + acks_for mm ys u"
  by (simp add: acks_for_def)

lemma acks_for_own:
  "\<forall>b \<in> set bs. ack_uuid mm b = u \<Longrightarrow> acks_for mm bs v = (if u = v then length bs else 0)"
  unfolding acks_for_def by (induction bs) auto

lemma concat_append_map: "concat (map f (xs @ ys)) = concat (map f xs) @ concat (map f ys)"
  by simp

lemma computes_of_log:
  "concat (map (\<lambda>(j, e). case e of TaskEvent n' (Compute t) \<Rightarrow> if j = i' \<and> n' = n then [t] else [] | _ \<Rightarrow> [])
     (map (\<lambda>e. (i, TaskEvent m e)) es)) = (if i = i' \<and> m = n then computes es else [])"
  by (induction es) (auto simp: computes_def split: task_event.splits)

lemma computed_append:
  "ls_log s' = ls_log s @ map (\<lambda>e. (i, TaskEvent n e)) es \<Longrightarrow>
   computed s' j n' = computed s j n' @ (if i = j \<and> n = n' then computes es else [])"
  unfolding computed_def by (simp only: concat_append_map computes_of_log)

lemma client_ok_task:
  assumes ok: "client_ok mm configs T0 N dn channel c" and t: "map_of (c_task_map c) n = Some t" and "same_task t t'"
  shows "client_ok mm configs T0 N dn channel (c\<lparr>c_task_map := sm_assign n t' (c_task_map c)\<rparr>)"
proof -
  have inv: "client_inv c" using ok by (simp add: client_ok_def)
  have "(n, t) \<in> set (c_task_map c)" using t by (rule map_of_SomeD)
  with inv assms(3) have new: "m_name t' = n" "0 < m_cycle t'" "m_callback t'" "m_uuid t' = m_uuid t"
    by (auto simp: client_inv_def same_task_def)
  have sub: "set (sm_assign n t' (c_task_map c)) \<subseteq> insert (n, t') (set (c_task_map c))"
    by (rule sm_assign_new)
  have "client_inv (c\<lparr>c_task_map := sm_assign n t' (c_task_map c)\<rparr>)"
    using inv new sub unfolding client_inv_def by fastforce
  moreover have "\<forall>(n, t) \<in> set (sm_assign n t' (c_task_map c)). \<forall>d \<in> set r. due configs d (m_uuid t) \<longrightarrow> d = N - 1"
    if "\<forall>(n, t) \<in> set (c_task_map c). \<forall>d \<in> set r. due configs d (m_uuid t) \<longrightarrow> d = N - 1" for r
    using that sub new(4) \<open>(n, t) \<in> set (c_task_map c)\<close> by fastforce
  moreover from ok obtain r where "ticked configs N = dn @ r" "channel = tick_list mm configs T0 (last (0 # dn)) r"
      "\<forall>(n, t) \<in> set (c_task_map c). \<forall>d \<in> set r. due configs d (m_uuid t) \<longrightarrow> d = N - 1"
    unfolding client_ok_def by blast
  ultimately have "\<exists>r. ticked configs N = dn @ r \<and> channel = tick_list mm configs T0 (last (0 # dn)) r \<and>
      (\<forall>(n, t) \<in> set (sm_assign n t' (c_task_map c)). \<forall>d \<in> set r. due configs d (m_uuid t) \<longrightarrow> d = N - 1)"
    by blast
  with ok \<open>client_inv (c\<lparr>c_task_map := _\<rparr>)\<close> show ?thesis unfolding client_ok_def by (simp del: last.simps)
qed

lemma thread_inv:
  assumes inv: "ls_inv mm configs T0 N A D s" and i: "i < length (ls_clients s)"
    and t: "map_of (c_task_map (ls_clients s ! i)) n = Some t" and step: "thread_step mach input t = Some (t', es)"
  shows "ls_inv mm configs T0 N A D (s\<lparr>ls_clients := (ls_clients s)[i := (ls_clients s ! i)
                         \<lparr>c_task_map := sm_assign n t' (c_task_map (ls_clients s ! i))\<rparr>],
                       ls_acks := ls_acks s @ acks_sent es,
                       ls_log := ls_log s @ map (\<lambda>e. (i, TaskEvent n e)) es\<rparr>)" (is "ls_inv _ _ _ _ _ _ ?s")
proof -
  note d = ls_invD [OF inv]
  let ?c = "ls_clients s ! i"
  have it: "(i, n, t) \<in> tasks_of s" using i t by (simp add: tasks_of_def)
  have ci: "client_inv ?c" using d(3) [OF i] by (simp add: client_ok_def)
  then have wf: "sm_wf (c_task_map ?c)" by (simp add: client_inv_def)
  have "m_callback t" using ci map_of_SomeD [OF t] by (auto simp: client_inv_def)
  from thread_step_ok [OF tasks_okD [OF d(4) it] this, of mach input mm] step
  have own: "same_task t t'"
      "task_ok configs T0 N (pending configs N (D i) (m_uuid t)) (acks_for mm (ls_acks s) (m_uuid t) + length (acks_sent es))
        (m_uuid t \<in> A) (computed s i n @ computes es) t'"
      "\<forall>b \<in> set (acks_sent es). length b = s_trigger_ack_signal_size \<and> ack_uuid mm b = m_uuid t"
      "TriggerViolation \<notin> set es"
    by auto
  have uuid: "m_uuid t' = m_uuid t" using own(1) by (simp add: same_task_def)
  have new: "(j, n', x) \<in> tasks_of ?s \<longleftrightarrow> (if j = i \<and> n' = n then x = t' else (j, n', x) \<in> tasks_of s)" for j n' x
    using i wf by (auto simp: tasks_of_def nth_list_update map_of_sm_assign)
  have old: "\<exists>x'. (j, n', x') \<in> tasks_of s \<and> m_uuid x' = m_uuid x" if "(j, n', x) \<in> tasks_of ?s" for j n' x
    using that new it uuid by (cases "j = i \<and> n' = n") auto
  have unique: "j = j' \<and> n1 = n2"
    if a: "(j, n1, x) \<in> tasks_of ?s" "(j', n2, x') \<in> tasks_of ?s" "m_uuid x = m_uuid x'" for j n1 x j' n2 x'
  proof -
    obtain x1 x2 where "(j, n1, x1) \<in> tasks_of s" "(j', n2, x2) \<in> tasks_of s" "m_uuid x1 = m_uuid x2"
      using old [OF a(1)] old [OF a(2)] a(3) by auto
    with tasks_ok_unique [OF d(4)] show ?thesis by blast
  qed
  have comp: "computed ?s j n' = computed s j n' @ (if i = j \<and> n = n' then computes es else [])" for j n'
    by (rule computed_append) simp
  have count: "acks_for mm (ls_acks ?s) u = acks_for mm (ls_acks s) u + (if m_uuid t = u then length (acks_sent es) else 0)" for u
    using own(3) acks_for_own [of "acks_sent es" mm "m_uuid t" u] by (simp add: acks_for_append)
  have task: "task_ok configs T0 N (pending configs N (D j) (m_uuid x)) (acks_for mm (ls_acks ?s) (m_uuid x))
      (m_uuid x \<in> A) (computed ?s j n') x" if a: "(j, n', x) \<in> tasks_of ?s" for j n' x
  proof (cases "j = i \<and> n' = n")
    case True
    with a new have "x = t'" by simp
    with True own(2) uuid show ?thesis unfolding comp count by simp
  next
    case False
    with a new have x: "(j, n', x) \<in> tasks_of s" by simp
    have neq: "m_uuid t \<noteq> m_uuid x"
      using tasks_ok_unique [OF d(4) it x] False by auto
    have c1: "computed ?s j n' = computed s j n'" using False unfolding comp by auto
    have c2: "acks_for mm (ls_acks ?s) (m_uuid x) = acks_for mm (ls_acks s) (m_uuid x)"
      using neq unfolding count by simp
    show ?thesis unfolding c1 c2 by (rule tasks_okD [OF d(4) x])
  qed
  have "tasks_ok mm configs T0 N A D ?s"
    unfolding tasks_ok_def
  proof (intro conjI)
    show "\<forall>(i, n, t) \<in> tasks_of ?s. task_ok configs T0 N (pending configs N (D i) (m_uuid t))
        (acks_for mm (ls_acks ?s) (m_uuid t)) (m_uuid t \<in> A) (computed ?s i n) t"
      using task by blast
    show "\<forall>(i, n, t) \<in> tasks_of ?s. \<forall>(i', n', t') \<in> tasks_of ?s. m_uuid t = m_uuid t' \<longrightarrow> i = i' \<and> n = n'"
      using unique by blast
    show "\<forall>bs \<in> set (ls_acks ?s). length bs = s_trigger_ack_signal_size \<and> (\<exists>(i, n, t) \<in> tasks_of ?s. m_uuid t = ack_uuid mm bs)"
    proof
      fix b assume b: "b \<in> set (ls_acks ?s)"
      have "length b = s_trigger_ack_signal_size \<and> (\<exists>j n' x. (j, n', x) \<in> tasks_of s \<and> m_uuid x = ack_uuid mm b)"
      proof (cases "b \<in> set (acks_sent es)")
        case True
        with own(3) it show ?thesis by metis
      next
        case False
        with b have "b \<in> set (ls_acks s)" by simp
        with d(4) show ?thesis unfolding tasks_ok_def by blast
      qed
      then obtain j n' x where x: "length b = s_trigger_ack_signal_size" "(j, n', x) \<in> tasks_of s" "m_uuid x = ack_uuid mm b"
        by blast
      have "\<exists>x'. (j, n', x') \<in> tasks_of ?s \<and> m_uuid x' = m_uuid x"
      proof (cases "j = i \<and> n' = n")
        case True
        with x(2) it have "x = t" by (simp add: tasks_of_def)
        with True new uuid show ?thesis by auto
      next
        case False
        with x(2) new show ?thesis by auto
      qed
      with x(1,3) show "length b = s_trigger_ack_signal_size \<and> (\<exists>(i, n, t) \<in> tasks_of ?s. m_uuid t = ack_uuid mm b)"
        by (metis (mono_tags, lifting) case_prodI)
    qed
  qed
  moreover have "client_ok mm configs T0 N (D j) (ls_ticks ?s ! j) (ls_clients ?s ! j)" if "j < length (ls_clients ?s)" for j
    using that i d(3) client_ok_task [OF d(3) [OF i] t own(1)] by (auto simp: nth_list_update)
  moreover have "log_ok ?s" using d(5) own(4) by (auto simp: log_ok_def)
  ultimately show ?thesis using d(1,2) unfolding ls_inv_def by simp
qed

subsection \<open>Reachable states\<close>

lemma start_inv:
  assumes "ls_started configs s"
  shows "\<exists>T0. ls_inv mm configs T0 0 {} (\<lambda>_. []) s"
proof -
  let ?m = "ls_master s"
  have m: "sched_rel configs 0 {} (t_schedule_map ?m)" "is_initial_schedule_flag ?m" "t_duration_since_last_tick ?m = 0"
      "t_pc ?m = Loop False" "\<not> t_shutdown_worker_semaphore ?m" "\<not> t_tick_barrier ?m"
      "t_step_trigger_strategy ?m = Some AFAP \<and> t_current_time ?m = 0 \<or>
       t_step_trigger_strategy ?m = Some Internal \<and> t_current_time ?m = -1"
    and ch: "ls_ticks s = map (\<lambda>_. []) (ls_clients s)" "ls_acks s = []" "ls_log s = []"
    and c: "\<forall>c \<in> set (ls_clients s). client_inv c \<and> c_current_simulation_time c = 0 \<and> c_time_progress_sum c = 0"
    using assms unfolding ls_started_def Let_def by blast+
  have t: "m_pc t = LoopHead \<and> \<not> m_barrier t \<and> length (m_uuid t) = 36 \<and> (m_uuid t, m_cycle t) \<in> set configs"
    if "(i, n, t) \<in> tasks_of s" for i n t
    using assms that unfolding ls_started_def Let_def by blast
  let ?T = "t_current_time ?m"
  have none: "ticked configs 0 = []" by (simp add: ticked_def)
  have "in_int64 ?T" using m(7) by (auto simp: in_int64_def)
  then have "master_ok configs ?T 0 {} ?m"
    using m by (auto simp: master_ok_def master_at_def waits_right_def time_of_def)
  moreover have "client_ok mm configs ?T 0 [] (ls_ticks s ! i) (ls_clients s ! i)" if "i < length (ls_clients s)" for i
    using that c ch(1) none by (simp add: client_ok_def)
  moreover have "tasks_ok mm configs ?T 0 {} (\<lambda>_. []) s"
  proof -
    have "task_ok configs ?T 0 False 0 False [] t" if "(i, n, t) \<in> tasks_of s" for i n t
      using t [OF that]
      by (simp add: task_ok_def active_def busy_pc_def before_compute_def after_compute_def steps_of_def)
    moreover have "pending configs 0 [] u = False" "acks_for mm (ls_acks s) u = 0" "computed s i n = []" for u i n
      using ch by (simp_all add: pending_def acks_for_def computed_def)
    moreover have "\<forall>(i, n, t) \<in> tasks_of s. \<forall>(i', n', t') \<in> tasks_of s. m_uuid t = m_uuid t' \<longrightarrow> i = i' \<and> n = n'"
      using assms unfolding ls_started_def by blast
    ultimately show ?thesis unfolding tasks_ok_def ch(2) by auto
  qed
  moreover have "log_ok s" using ch(3) by (simp add: log_ok_def)
  ultimately have "ls_inv mm configs ?T 0 {} (\<lambda>_. []) s" using ch(1) unfolding ls_inv_def by simp
  then show ?thesis by blast
qed

lemma ls_reachable_inv: "ls_reachable mm cm configs s \<Longrightarrow> \<exists>T0 N A D. ls_inv mm configs T0 N A D s"
proof (induction rule: ls_reachable.induct)
  case (start s)
  from start_inv [OF this] show ?case by blast
next
  case (step s s')
  from step.IH obtain T0 N A D where inv: "ls_inv mm configs T0 N A D s" by blast
  from step.hyps(2) show ?case
  proof cases
    case round
    from round_inv [OF inv round(2,3)] show ?thesis unfolding round(1) by blast
  next
    case trigger
    from trigger_inv [OF inv trigger(3,4)] show ?thesis unfolding trigger(1) by blast
  next
    case tick
    from tick_inv [OF inv tick(2-4)] show ?thesis unfolding tick(1) by blast
  next
    case ack
    from ack_inv [OF inv ack(2,3)] show ?thesis unfolding ack(1) by blast
  next
    case thread
    from thread_inv [OF inv thread(2-4)] show ?thesis unfolding thread(1) by blast
  qed
qed

subsection \<open>No step is undefined\<close>

lemma round_defined:
  assumes inv: "ls_inv mm configs T0 N A D s"
    and range: "in_int64 (t_current_time (ls_master s) + cycle_time_us (t_schedule_map (ls_master s)))"
  shows "master_round mm (ls_master s) \<noteq> None"
proof -
  let ?m = "ls_master s"
  from ls_invD(1) [OF inv] obtain k where m: "master_at configs T0 N A ?m" "waits_right configs N A (t_pc ?m)"
      "\<not> t_shutdown_worker_semaphore ?m" "t_step_trigger_strategy ?m = Some k" "NeedToWaitForCompletition k"
      "0 \<le> T0 \<or> k = Internal \<and> \<not> t_tick_barrier ?m \<and> N = 0"
    unfolding master_ok_def by blast
  have "in_int64 (t_current_time ?m + gcd_of_cycles configs)"
    using range m(1) by (simp add: master_at_def sched_rel_def)
  from master_round_at [OF m(1,6) this m(2-5), of mm] show ?thesis by auto
qed

lemma tick_defined:
  assumes inv: "ls_inv mm configs T0 N A D s" and i: "i < length (ls_clients s)" and ch: "ls_ticks s ! i = bs # rest"
  shows "client_Update mach (c_trigger_input_signal_handle (ls_clients s ! i)) bs (ls_clients s ! i) \<noteq> None"
  using client_tick [OF _ ls_invD(6) [OF inv] tick_time_known [OF inv i ch] _ tick_tasks [OF inv i ch], of mm N "D i" bs rest mach]
    ls_invD(1) [OF inv] ls_invD(3) [OF inv i] ch by (auto simp: master_ok_def)

lemma ack_defined:
  assumes inv: "ls_inv mm configs T0 N A D s" and b: "bs \<in> set (ls_acks s)"
  shows "master_Update mm (t_ack_input_signal_handle (ls_master s)) bs (ls_master s) \<noteq> None"
proof -
  note d = ls_invD [OF inv]
  from d(4) b obtain i n t where t: "(i, n, t) \<in> tasks_of s" "m_uuid t = ack_uuid mm bs"
    unfolding tasks_ok_def by blast
  have "0 < acks_for mm (ls_acks s) (m_uuid t)"
    using b t(2) by (simp only: acks_for_def length_greater_0_conv filter_empty_conv) auto
  with tasks_okD [OF d(4) t(1)] have "0 < N" unfolding task_ok_def by blast
  with d(1) master_Update_at [of configs T0 N A "ls_master s" mm _ bs] show ?thesis
    unfolding master_ok_def by blast
qed

lemma task_has_callback:
  assumes inv: "ls_inv mm configs T0 N A D s" and t: "(i, n, t) \<in> tasks_of s"
  shows "m_callback t"
proof -
  have i: "i < length (ls_clients s)" using t by (simp add: tasks_of_def)
  have "(n, t) \<in> set (c_task_map (ls_clients s ! i))" using task_in_client [OF inv i] t by simp
  with ls_invD(3) [OF inv i] show ?thesis by (auto simp: client_ok_def client_inv_def)
qed

subsection \<open>The times of a task\<close>

lemma multiples_below:
  fixes q :: nat
  assumes "0 < q"
  shows "\<exists>k. filter (\<lambda>m. q dvd m) [0..<N] = map (\<lambda>j. q * j) [0..<k] \<and> N \<le> q * k \<and> (0 < k \<longrightarrow> q * (k - 1) < N)"
proof (induction N)
  case (Suc N)
  then obtain k where k: "filter (\<lambda>m. q dvd m) [0..<N] = map (\<lambda>j. q * j) [0..<k]" "N \<le> q * k" "0 < k \<longrightarrow> q * (k - 1) < N"
    by blast
  show ?case
  proof (cases "q dvd N")
    case True
    then obtain j where j: "N = q * j" by (elim dvdE)
    have "j \<le> k" using k(2) assms unfolding j by simp
    moreover have "k - 1 < j \<or> k = 0" using k(3) assms unfolding j by auto
    ultimately have "k = j" by linarith
    with k(1) j assms show ?thesis by (intro exI [of _ "Suc k"]) simp
  next
    case False
    with k(2) have "N \<noteq> q * k" by auto
    with False k show ?thesis by (intro exI [of _ k]) auto
  qed
qed simp

lemma steps_of_cycle:
  assumes "configs_ok configs" "(u, c) \<in> set configs"
  shows "\<exists>k. steps_of configs T0 u N = map (\<lambda>j. T0 + c * int j) [0..<k]"
proof -
  have "c \<in> cycles configs" using assms(2) by (force simp: cycles_def)
  then have "gcd_of_cycles configs dvd c" by simp
  then obtain q where q: "c = gcd_of_cycles configs * q" by (elim dvdE)
  have g: "0 < gcd_of_cycles configs" by (rule Gcd_cycles_pos [OF assms(1)])
  have "0 < c" using assms by (auto simp: configs_ok_def list_all_iff)
  with q g have "0 < q" by (simp add: zero_less_mult_iff)
  then obtain p where p: "q = int p" "0 < p" using pos_int_cases by blast
  have "a * int p dvd a * int m \<longleftrightarrow> p dvd m" if "0 < a" for a :: int and m
    using that by simp
  then have "due configs m u \<longleftrightarrow> p dvd m" for m
    using g unfolding due_cycle [OF assms] q p(1) by blast
  then have "steps_of configs T0 u N = map (\<lambda>m. T0 + gcd_of_cycles configs * int m) (filter (\<lambda>m. p dvd m) [0..<N])"
    by (simp add: steps_of_def)
  moreover from multiples_below [OF p(2)] obtain k where "filter (\<lambda>m. p dvd m) [0..<N] = map (\<lambda>j. p * j) [0..<k]"
    by blast
  ultimately show ?thesis
    by (intro exI [of _ k]) (simp add: q p(1) mult.assoc)
qed

lemma in_steps_of:
  "x \<in> set (steps_of configs T0 u N) \<longleftrightarrow> (\<exists>m < N. due configs m u \<and> x = time_of configs T0 m)"
  by (auto simp: steps_of_def time_of_def)

lemma time_of_less: "configs_ok configs \<Longrightarrow> time_of configs T0 m < time_of configs T0 n \<longleftrightarrow> m < n"
proof -
  have "T0 + a * int m < T0 + a * int n \<longleftrightarrow> m < n" if "0 < a" for a
    using that by simp
  then show "configs_ok configs \<Longrightarrow> ?thesis" using Gcd_cycles_pos unfolding time_of_def by blast
qed

lemma steps_of_mono: "M \<le> N \<Longrightarrow> set (steps_of configs T0 u M) \<subseteq> set (steps_of configs T0 u N)"
  unfolding steps_of_def by auto

lemma cycle_time_due:
  assumes "configs_ok configs" "(u, c) \<in> set configs"
  obtains m where "due configs m u" "T0 + c * int j = time_of configs T0 m"
proof -
  have "c \<in> cycles configs" using assms(2) by (force simp: cycles_def)
  then have "gcd_of_cycles configs dvd c" by simp
  then obtain q where q: "c = gcd_of_cycles configs * q" by (elim dvdE)
  have "0 < gcd_of_cycles configs" by (rule Gcd_cycles_pos [OF assms(1)])
  moreover have "0 < c" using assms by (auto simp: configs_ok_def list_all_iff)
  ultimately have "0 < q" using q by (simp add: zero_less_mult_iff)
  then obtain p where p: "q = int p" using pos_int_cases by blast
  have "T0 + c * int j = time_of configs T0 (p * j)" by (simp add: time_of_def q p mult.assoc)
  moreover have "due configs (p * j) u" unfolding due_cycle [OF assms] by (simp add: q p)
  ultimately show thesis by (rule that [rotated])
qed

subsection \<open>The guarantees\<close>

text \<open>C2: in a simulation that waits for completion no task is ever triggered while it still works and no tick is
  skipped, however the steps of master, clients and task threads interleave, and no step of the system is
  ever undefined: a round of the master, the delivery of the next tick to a client, of any acknowledgement
  to the master and any step of a task thread all have a result.\<close>

theorem lock_step_never_violates:
  assumes "ls_reachable mm cm configs s"
  shows "(i, TriggerSkip) \<notin> set (ls_log s) \<and> (i, TaskEvent n TriggerViolation) \<notin> set (ls_log s) \<and>
    (in_int64 (t_current_time (ls_master s) + cycle_time_us (t_schedule_map (ls_master s))) \<longrightarrow>
       master_round mm (ls_master s) \<noteq> None) \<and>
    (\<forall>j < length (ls_clients s). ls_ticks s ! j \<noteq> [] \<longrightarrow>
       client_Update mach (c_trigger_input_signal_handle (ls_clients s ! j)) (hd (ls_ticks s ! j)) (ls_clients s ! j) \<noteq> None) \<and>
    (\<forall>bs \<in> set (ls_acks s). master_Update mm (t_ack_input_signal_handle (ls_master s)) bs (ls_master s) \<noteq> None) \<and>
    (\<forall>(j, n', t) \<in> tasks_of s. thread_step mach input t \<noteq> None)"
proof -
  from ls_reachable_inv [OF assms] obtain T0 N A D where inv: "ls_inv mm configs T0 N A D s" by blast
  note d = ls_invD [OF inv]
  show ?thesis
  proof (intro conjI impI allI ballI)
    show "(i, TriggerSkip) \<notin> set (ls_log s)" "(i, TaskEvent n TriggerViolation) \<notin> set (ls_log s)"
      using d(5) by (auto simp: log_ok_def)
  next
    assume "in_int64 (t_current_time (ls_master s) + cycle_time_us (t_schedule_map (ls_master s)))"
    with round_defined [OF inv] show "master_round mm (ls_master s) \<noteq> None" by blast
  next
    fix j assume "j < length (ls_clients s)" "ls_ticks s ! j \<noteq> []"
    with tick_defined [OF inv] show
      "client_Update mach (c_trigger_input_signal_handle (ls_clients s ! j)) (hd (ls_ticks s ! j)) (ls_clients s ! j) \<noteq> None"
      by (cases "ls_ticks s ! j") auto
  next
    fix bs assume "bs \<in> set (ls_acks s)"
    with ack_defined [OF inv] show "master_Update mm (t_ack_input_signal_handle (ls_master s)) bs (ls_master s) \<noteq> None"
      by blast
  next
    fix x assume x: "x \<in> tasks_of s"
    obtain j n' t where e: "x = (j, n', t)" by (cases x)
    with x have t: "(j, n', t) \<in> tasks_of s" by simp
    show "case x of (j, n', t) \<Rightarrow> thread_step mach input t \<noteq> None"
      using thread_step_ok [OF tasks_okD [OF d(4) t] task_has_callback [OF inv t], of mach input mm] unfolding e by auto
  qed
qed

text \<open>C1: in a system that has started afresh (empty channels, idle tasks with uuids of their own, the clients at time 0), whose
  master triggers as fast as possible or by its internal clock and waits for all acknowledgements: in every interleaving of
  the master, the clients and the threads of the tasks, every task has computed exactly for the first multiples of its own
  cycle time, counted from the common first time \<open>T0\<close>, in order and without a gap; and no task is ahead of another: if a
  task has computed for a time, all tasks have computed for all of their times before it.\<close>

theorem tasks_run_in_lock_step:
  assumes "ls_reachable mm cm configs s"
  shows "\<exists>T0 k. (\<forall>(i, n, t) \<in> tasks_of s. computed s i n = map (\<lambda>j. T0 + m_cycle t * int j) [0..<k i n]) \<and>
    (\<forall>(i, n, t) \<in> tasks_of s. \<forall>(i', n', t') \<in> tasks_of s. \<forall>j < k i n. \<forall>j'.
       m_cycle t' * int j' < m_cycle t * int j \<longrightarrow> j' < k i' n')"
proof -
  from ls_reachable_inv [OF assms] obtain T0 N A D where inv: "ls_inv mm configs T0 N A D s" by blast
  note d = ls_invD [OF inv]
  define k where "k i n = length (computed s i n)" for i n
  have task: "(m_uuid t, m_cycle t) \<in> set configs"
      "set (steps_of configs T0 (m_uuid t) (N - 1)) \<subseteq> set (computed s i n)"
      "set (computed s i n) \<subseteq> set (steps_of configs T0 (m_uuid t) N)"
      "computed s i n = map (\<lambda>j. T0 + m_cycle t * int j) [0..<k i n]" if "(i, n, t) \<in> tasks_of s" for i n t
  proof -
    from tasks_okD [OF d(4) that] show c: "(m_uuid t, m_cycle t) \<in> set configs" unfolding task_ok_def by blast
    from tasks_okD [OF d(4) that] have s: "computed s i n = steps_of configs T0 (m_uuid t) (N - 1) \<or>
        computed s i n = steps_of configs T0 (m_uuid t) N" unfolding task_ok_def by blast
    then show "set (steps_of configs T0 (m_uuid t) (N - 1)) \<subseteq> set (computed s i n)"
        "set (computed s i n) \<subseteq> set (steps_of configs T0 (m_uuid t) N)"
      using steps_of_mono [of "N - 1" N configs T0 "m_uuid t"] by auto
    from s steps_of_cycle [OF d(6) c, of T0] obtain l where
      "computed s i n = map (\<lambda>j. T0 + m_cycle t * int j) [0..<l]" by metis
    then show "computed s i n = map (\<lambda>j. T0 + m_cycle t * int j) [0..<k i n]" by (simp add: k_def)
  qed
  have sync: "j' < k i' n'" if a: "(i, n, t) \<in> tasks_of s" "(i', n', t') \<in> tasks_of s" "j < k i n"
      "m_cycle t' * int j' < m_cycle t * int j" for i n t i' n' t' j j'
  proof -
    have "T0 + m_cycle t * int j \<in> set (computed s i n)" using a(3) unfolding task(4) [OF a(1)] by auto
    with task(3) [OF a(1)] have "T0 + m_cycle t * int j \<in> set (steps_of configs T0 (m_uuid t) N)" by blast
    then obtain m where m: "m < N" "T0 + m_cycle t * int j = time_of configs T0 m"
      unfolding in_steps_of by blast
    from cycle_time_due [OF d(6) task(1) [OF a(2)], of T0 j'] obtain m' where
      m': "due configs m' (m_uuid t')" "T0 + m_cycle t' * int j' = time_of configs T0 m'" .
    have "m' < m" using a(4) m(2) m'(2) time_of_less [OF d(6)] by smt
    with m(1) m' have "T0 + m_cycle t' * int j' \<in> set (steps_of configs T0 (m_uuid t') (N - 1))"
      by (auto simp: in_steps_of intro!: exI [of _ m'])
    with task(2,4) [OF a(2)] have "T0 + m_cycle t' * int j' \<in> set (map (\<lambda>j. T0 + m_cycle t' * int j) [0..<k i' n'])"
      by auto
    moreover have "0 < m_cycle t'" using task(1) [OF a(2)] d(6) by (auto simp: configs_ok_def list_all_iff)
    ultimately show ?thesis by auto
  qed
  show ?thesis
    by (intro exI [of _ T0] exI [of _ k]) (use task(4) sync in blast)
qed

text \<open>The run of the two jobs of the demonstration: the fast one has computed twice, the slow one once.\<close>

lemma started_demo_started: "ls_started configs_demo started_demo"
  using scheduler_started [of scheduler_demo AFAP configs_demo master_env_demo] scheduler_demo_ready configs_demo_ok
  by (auto simp: started_demo_def)

lemma running_demo_computes:
  "case ls_moves LittleEndian (\<lambda>_. BigEndian) moves_demo started_demo of None \<Rightarrow> False
   | Some s \<Rightarrow> computed s 0 ''slow'' = [0] \<and> computed s 0 ''fast'' = [0, 40]"
  by code_simp

lemma running_demo_reachable:
  "ls_reachable LittleEndian (\<lambda>_. BigEndian) configs_demo running_demo"
  "computed running_demo 0 ''slow'' = [0]" "computed running_demo 0 ''fast'' = [0, 40]"
proof -
  from running_demo_computes obtain s where
    s: "ls_moves LittleEndian (\<lambda>_. BigEndian) moves_demo started_demo = Some s"
      "computed s 0 ''slow'' = [0]" "computed s 0 ''fast'' = [0, 40]"
    by (auto split: option.splits)
  then have "running_demo = s" by (simp add: running_demo_def)
  with s ls_moves_reachable [OF ls_reachable.start [OF started_demo_started] s(1)] show
    "ls_reachable LittleEndian (\<lambda>_. BigEndian) configs_demo running_demo"
    "computed running_demo 0 ''slow'' = [0]" "computed running_demo 0 ''fast'' = [0, 40]"
    by simp_all
qed

theorem lock_step_never_violates_witness:
  "computed running_demo 0 ''fast'' = [0, 40] \<and> (0, TriggerSkip) \<notin> set (ls_log running_demo) \<and>
   (0, TaskEvent ''fast'' TriggerViolation) \<notin> set (ls_log running_demo)"
  using lock_step_never_violates [OF running_demo_reachable(1)] running_demo_reachable(3) by blast

theorem tasks_run_in_lock_step_witness:
  "\<exists>T0 k. (\<forall>(i, n, t) \<in> tasks_of running_demo.
       computed running_demo i n = map (\<lambda>j. T0 + m_cycle t * int j) [0..<k i n]) \<and>
     computed running_demo 0 ''fast'' = [0, 40] \<and> computed running_demo 0 ''slow'' = [0]"
  using tasks_run_in_lock_step [OF running_demo_reachable(1)] running_demo_reachable(2,3) by blast

end
