(* ===== verification/Sample_Buffer.thy ===== *)
theory Sample_Buffer
  imports Wire_Format
begin

text \<open>
  The receive backlog of a signal: \<open>cDataSampleBuffer\<close>
  (\<open>src/data_access/fep_data_sample_buffer.{h,cpp}\<close>) and what \<open>cDataAccess\<close>
  (\<open>src/data_access/fep_data_access.cpp\<close>) does to it when a signal is registered and when all backlogs are
  cleared.

  The \<open>std::multiset\<close> of slots is the list of its elements in order; equal times keep the order of their
  insertion. Readers hold pointers to samples: a pointer is the number of its allocation. \<open>None\<close> is undefined
  behaviour: an iterator moved before the first element, an element of an empty set, or a dangling pointer.
\<close>

section \<open>State\<close>

record user_sample =
  us_time :: timestamp_t
  us_data :: "byte list"

record slot =
  tmSample :: timestamp_t
  s_ptr :: nat
  poSample :: user_sample
  nLockCount :: int

record sample_buffer =
  m_samples :: "slot list"
  m_oDeletedSlots :: "slot list"
  m_latestSampleTimestamp :: timestamp_t
  b_next :: nat

definition new_sample_buffer :: sample_buffer where
  "new_sample_buffer = \<lparr>m_samples = [], m_oDeletedSlots = [], m_latestSampleTimestamp = -1, b_next = 0\<rparr>"

subsection \<open>The multiset\<close>

fun ms_insert :: "slot \<Rightarrow> slot list \<Rightarrow> slot list" where
  "ms_insert s [] = [s]"
| "ms_insert s (x # xs) = (if tmSample x \<le> tmSample s then x # ms_insert s xs else s # x # xs)"

definition lower_bound :: "timestamp_t \<Rightarrow> slot list \<Rightarrow> nat" where
  "lower_bound t xs = length (takeWhile (\<lambda>s. tmSample s < t) xs)"

definition upper_bound :: "timestamp_t \<Rightarrow> slot list \<Rightarrow> nat" where
  "upper_bound t xs = length (takeWhile (\<lambda>s. tmSample s \<le> t) xs)"

definition remove_at :: "nat \<Rightarrow> 'a list \<Rightarrow> 'a list" where
  "remove_at i xs = take i xs @ drop (Suc i) xs"

text \<open>The first position, as the loops over iterators find it.\<close>

fun first_index :: "('a \<Rightarrow> bool) \<Rightarrow> 'a list \<Rightarrow> nat option" where
  "first_index P [] = None"
| "first_index P (x # xs) = (if P x then Some 0 else map_option Suc (first_index P xs))"

section \<open>Reading\<close>

datatype selection = SS_LATEST_SAMPLE | SS_NEAREST_SAMPLE | SS_OTHER

text \<open>Take a slot: the result, the pointer and whether the sample is valid.\<close>

definition take_slot :: "nat \<Rightarrow> sample_buffer \<Rightarrow> (fep_result \<times> (nat \<times> bool) option) \<times> sample_buffer" where
  "take_slot i b =
     ((ERR_NOERROR, Some (s_ptr (m_samples b ! i), m_latestSampleTimestamp b \<ge> 0)),
      b\<lparr>m_samples := (m_samples b)[i := (m_samples b ! i)\<lparr>nLockCount := nLockCount (m_samples b ! i) + 1\<rparr>]\<rparr>)"

definition nearest_slot :: "timestamp_t \<Rightarrow> slot list \<Rightarrow> nat option" where
  "nearest_slot tmSimulation xs =
     (let t = (if tmSimulation < 0 then 0 else tmSimulation);
          it = lower_bound t xs
      in if it = length xs then (if xs = [] then None else Some (length xs - 1))
         else
           let it = it + length (takeWhile (\<lambda>s. tmSample s = -1) (drop it xs))
           in if it = length xs then None
              else if tmSample (xs ! it) = t then Some it
              else if it = 0 then None
              else if tmSample (xs ! (it - 1)) = -1 then Some it
              else if tmSample (xs ! it) - t \<le> t - tmSample (xs ! (it - 1)) then Some it
              else Some (it - 1))"

definition buffer_LockDataAt ::
    "timestamp_t \<Rightarrow> selection \<Rightarrow> sample_buffer \<Rightarrow> ((fep_result \<times> (nat \<times> bool) option) \<times> sample_buffer) option" where
  "buffer_LockDataAt tmSimulation eSelectionFlags b =
     (case eSelectionFlags of
        SS_LATEST_SAMPLE \<Rightarrow>
          if m_samples b = [] then None else Some (take_slot (length (m_samples b) - 1) b)
      | SS_NEAREST_SAMPLE \<Rightarrow> map_option (\<lambda>i. take_slot i b) (nearest_slot tmSimulation (m_samples b))
      | SS_OTHER \<Rightarrow> Some ((ERR_NOT_FOUND, None), b))"

definition buffer_LockDataAtUpperBound ::
    "timestamp_t \<Rightarrow> sample_buffer \<Rightarrow> (fep_result \<times> (nat \<times> bool) option) \<times> sample_buffer" where
  "buffer_LockDataAtUpperBound tmSimulationUpperBound b =
     (let it = upper_bound tmSimulationUpperBound (m_samples b)
      in if it \<noteq> 0 then take_slot (it - 1) b else ((ERR_NOT_FOUND, None), b))"

text \<open>The time of the sample behind a pointer is read before the slots of that time are searched.\<close>

definition time_behind :: "nat \<Rightarrow> sample_buffer \<Rightarrow> timestamp_t option" where
  "time_behind p b = map_option (us_time \<circ> poSample) (find (\<lambda>s. s_ptr s = p) (m_samples b @ m_oDeletedSlots b))"

definition buffer_UnlockData :: "nat \<Rightarrow> sample_buffer \<Rightarrow> (fep_result \<times> sample_buffer) option" where
  "buffer_UnlockData p b =
     (case time_behind p b of
        None \<Rightarrow> None
      | Some t \<Rightarrow>
          (case first_index (\<lambda>s. tmSample s = t \<and> s_ptr s = p) (m_samples b) of
             Some i \<Rightarrow>
               let s = m_samples b ! i in
               if nLockCount s > 0
               then Some (ERR_NOERROR, b\<lparr>m_samples := (m_samples b)[i := s\<lparr>nLockCount := nLockCount s - 1\<rparr>]\<rparr>)
               else Some (ERR_FAILED, b)
           | None \<Rightarrow>
               (case first_index (\<lambda>s. tmSample s = t \<and> s_ptr s = p) (m_oDeletedSlots b) of
                  Some i \<Rightarrow>
                    let s = (m_oDeletedSlots b ! i)\<lparr>nLockCount := nLockCount (m_oDeletedSlots b ! i) - 1\<rparr> in
                    Some (ERR_NOERROR, b\<lparr>m_oDeletedSlots :=
                      if nLockCount s = 0 then remove_at i (m_oDeletedSlots b) else (m_oDeletedSlots b)[i := s]\<rparr>)
                | None \<Rightarrow> Some (ERR_INVALID_ARG, b))))"

definition GetMostRecent :: "sample_buffer \<Rightarrow> timestamp_t option" where
  "GetMostRecent b = (if m_samples b = [] then None else Some (tmSample (last (m_samples b))))"

text \<open>
  \<open>WaitUntilInTimeWindow\<close>: every element of \<open>wakes\<close> is the return of one wait, whether it was notified, the
  buffer's most recent time then, and whether the thread is to shut down; the list ends when the time is up.
\<close>

fun window_wait :: "timestamp_t \<Rightarrow> timestamp_t \<Rightarrow> (bool \<times> timestamp_t \<times> bool) list \<Rightarrow> fep_result" where
  "window_wait more_recent_than older_than [] = ERR_TIMEOUT"
| "window_wait more_recent_than older_than ((notified, tmMostRecent, shutdown) # wakes) =
     (if notified \<and> tmMostRecent \<ge> more_recent_than
      then (if tmMostRecent \<le> older_than then ERR_NOERROR else ERR_TIMEOUT)
      else if shutdown then ERR_CANCELLED
      else window_wait more_recent_than older_than wakes)"

definition WaitUntilInTimeWindow ::
    "timestamp_t \<Rightarrow> timestamp_t \<Rightarrow> (bool \<times> timestamp_t \<times> bool) list \<Rightarrow> sample_buffer \<Rightarrow> fep_result option" where
  "WaitUntilInTimeWindow more_recent_than older_than wakes b =
     (if more_recent_than > older_than then Some ERR_INVALID_ARG
      else case GetMostRecent b of
        None \<Rightarrow> None
      | Some tmMostRecent \<Rightarrow>
          if tmMostRecent \<ge> more_recent_than then
            (if tmMostRecent \<le> older_than then Some ERR_NOERROR
             else
               let it = upper_bound older_than (m_samples b)
               in if it = 0 then None
                  else if tmSample (m_samples b ! (it - 1)) \<ge> more_recent_than then Some ERR_NOERROR
                  else Some ERR_FAILED)
          else Some (window_wait more_recent_than older_than wakes))"

section \<open>Writing\<close>

definition buffer_Update :: "user_sample \<Rightarrow> sample_buffer \<Rightarrow> fep_result \<times> sample_buffer" where
  "buffer_Update sample b =
     (case first_index (\<lambda>s. tmSample s = -1 \<or> nLockCount s = 0) (m_samples b) of
        None \<Rightarrow> (ERR_RESOURCE_IN_USE, b)
      | Some i \<Rightarrow>
          let oCopy = (m_samples b ! i)\<lparr>tmSample := us_time sample, poSample := sample\<rparr>
          in (ERR_NOERROR, b\<lparr>m_samples := ms_insert oCopy (remove_at i (m_samples b)),
                             m_latestSampleTimestamp := us_time sample\<rparr>))"

text \<open>A new sample has a time and the content of its fresh memory; the pointer is the next one.\<close>

definition add_slot :: "user_sample \<Rightarrow> sample_buffer \<Rightarrow> sample_buffer" where
  "add_slot sample b =
     b\<lparr>m_samples := ms_insert \<lparr>tmSample = us_time sample, s_ptr = b_next b, poSample = sample, nLockCount = 0\<rparr> (m_samples b),
       b_next := b_next b + 1\<rparr>"

fun shrink :: "nat \<Rightarrow> sample_buffer \<Rightarrow> sample_buffer" where
  "shrink 0 b = b"
| "shrink (Suc k) b =
     (case m_samples b of
        [] \<Rightarrow> b
      | it # rest \<Rightarrow> shrink k (b\<lparr>m_samples := rest, m_oDeletedSlots :=
            if nLockCount it > 0 then ms_insert it (m_oDeletedSlots b) else m_oDeletedSlots b\<rparr>))"

definition buffer_SignalBacklogChanged :: "nat \<Rightarrow> byte list \<Rightarrow> sample_buffer \<Rightarrow> sample_buffer" where
  "buffer_SignalBacklogChanged szSampleBacklog fresh b =
     (let b = shrink (length (m_samples b) - szSampleBacklog) b
      in (add_slot \<lparr>us_time = -1, us_data = fresh\<rparr> ^^ (szSampleBacklog - length (m_samples b))) b)"

text \<open>
  \<open>cDataAccess::SignalRegistered\<close> fills the buffer; \<open>content\<close> is what the mapping or the transmission adapter
  has as the signal's current content. A backlog of 0 makes the unsigned loop bound wrap: the loop does not end
  before the memory does.
\<close>

definition SignalRegistered :: "nat \<Rightarrow> byte list \<Rightarrow> byte list \<Rightarrow> sample_buffer \<Rightarrow> sample_buffer option" where
  "SignalRegistered szBacklog fresh content b =
     (if szBacklog = 0 then None
      else Some (add_slot \<lparr>us_time = 0, us_data = content\<rparr>
                  ((add_slot \<lparr>us_time = -1, us_data = fresh\<rparr> ^^ (szBacklog - 1)) b)))"

text \<open>
  \<open>cDataAccess::ClearAll\<close> for one buffer, with the number of warnings about samples that are still locked. The
  new slots replace the old ones (the assignment after it is one of the set to itself).
\<close>

definition zero_slot :: "slot \<Rightarrow> slot" where
  "zero_slot s = s\<lparr>tmSample := -1, nLockCount := 0,
     poSample := \<lparr>us_time = -1, us_data = replicate (length (us_data (poSample s))) 0\<rparr>\<rparr>"

definition buffer_clear :: "byte list \<Rightarrow> sample_buffer \<Rightarrow> (nat \<times> sample_buffer) option" where
  "buffer_clear content b =
     (case fold ms_insert (map zero_slot (m_samples b)) [] of
        [] \<Rightarrow> None
      | oCopy # rest \<Rightarrow>
          Some (length (filter (\<lambda>s. nLockCount s > 0) (m_samples b @ m_oDeletedSlots b)),
            b\<lparr>m_samples := ms_insert (oCopy\<lparr>tmSample := 0, poSample := \<lparr>us_time = 0, us_data = content\<rparr>\<rparr>) rest,
              m_oDeletedSlots := []\<rparr>))"

section \<open>Sequences of operations\<close>

datatype buffer_op =
    OpLock timestamp_t selection
  | OpLockUpper timestamp_t
  | OpUnlock nat
  | OpUpdate user_sample
  | OpBacklog nat "byte list"

fun buffer_step :: "buffer_op \<Rightarrow> sample_buffer \<Rightarrow> sample_buffer option" where
  "buffer_step (OpLock t f) b = map_option snd (buffer_LockDataAt t f b)"
| "buffer_step (OpLockUpper t) b = Some (snd (buffer_LockDataAtUpperBound t b))"
| "buffer_step (OpUnlock p) b = map_option snd (buffer_UnlockData p b)"
| "buffer_step (OpUpdate x) b = Some (snd (buffer_Update x b))"
| "buffer_step (OpBacklog n fresh) b = Some (buffer_SignalBacklogChanged n fresh b)"

fun buffer_run :: "buffer_op list \<Rightarrow> sample_buffer \<Rightarrow> sample_buffer option" where
  "buffer_run [] b = Some b"
| "buffer_run (x # xs) b = Option.bind (buffer_step x b) (buffer_run xs)"

section \<open>The invariant of the buffer\<close>

text \<open>
  The slots are in the order of their times, no sample is in two slots, a slot has the time of its sample, and
  only deleted slots that are still locked are kept.
\<close>

definition slots_ok :: "slot list \<Rightarrow> bool" where
  "slots_ok xs \<longleftrightarrow> sorted (map tmSample xs) \<and> (\<forall>s \<in> set xs. tmSample s = us_time (poSample s) \<and> 0 \<le> nLockCount s)"

definition ptrs_ok :: "nat list \<Rightarrow> nat \<Rightarrow> bool" where
  "ptrs_ok ps n \<longleftrightarrow> distinct ps \<and> (\<forall>p \<in> set ps. p < n)"

definition buffer_inv :: "sample_buffer \<Rightarrow> bool" where
  "buffer_inv b \<longleftrightarrow> slots_ok (m_samples b) \<and> slots_ok (m_oDeletedSlots b) \<and>
     (\<forall>s \<in> set (m_oDeletedSlots b). 0 < nLockCount s) \<and>
     ptrs_ok (map s_ptr (m_samples b) @ map s_ptr (m_oDeletedSlots b)) (b_next b)"

lemma set_ms_insert [simp]: "set (ms_insert s xs) = insert s (set xs)"
  by (induction xs) auto

lemma length_ms_insert [simp]: "length (ms_insert s xs) = Suc (length xs)"
  by (induction xs) auto

lemma distinct_ms_insert [simp]:
  "distinct (map s_ptr (ms_insert s xs)) \<longleftrightarrow> s_ptr s \<notin> s_ptr ` set xs \<and> distinct (map s_ptr xs)"
  by (induction xs) auto

lemma ms_insert_not_Nil [simp]: "ms_insert s xs \<noteq> []"
  by (cases xs) auto

lemma sorted_ms_insert [simp]: "sorted (map tmSample (ms_insert s xs)) \<longleftrightarrow> sorted (map tmSample xs)"
  by (induction xs) auto

lemma ms_insert_last: "\<forall>x \<in> set xs. tmSample x \<le> tmSample s \<Longrightarrow> ms_insert s xs = xs @ [s]"
  by (induction xs) auto

lemma slots_ok_ms_insert [simp]:
  "slots_ok (ms_insert s xs) \<longleftrightarrow> slots_ok xs \<and> tmSample s = us_time (poSample s) \<and> 0 \<le> nLockCount s"
  by (auto simp: slots_ok_def)

lemma remove_at_split: "i < length xs \<Longrightarrow> \<exists>ys zs. xs = ys @ (xs ! i) # zs \<and> remove_at i xs = ys @ zs \<and> length ys = i"
  unfolding remove_at_def by (metis id_take_nth_drop length_take less_imp_le min.absorb2)

lemma first_index_Some:
  "first_index P xs = Some i \<Longrightarrow> i < length xs \<and> P (xs ! i) \<and> (\<forall>j < i. \<not> P (xs ! j))"
  by (induction xs arbitrary: i) (auto split: if_splits simp: less_Suc_eq_0_disj)

lemma first_index_None: "first_index P xs = None \<longleftrightarrow> (\<forall>x \<in> set xs. \<not> P x)"
  by (induction xs) auto

lemma slots_ok_remove: "slots_ok (ys @ x # zs) \<Longrightarrow> slots_ok (ys @ zs)"
  by (auto simp: slots_ok_def sorted_append)

text \<open>The set of samples, with their slots, is what the operations change.\<close>

lemma slots_ok_lock:
  "slots_ok xs \<Longrightarrow> i < length xs \<Longrightarrow> 0 \<le> c \<Longrightarrow> slots_ok (xs[i := (xs ! i)\<lparr>nLockCount := c\<rparr>])"
proof -
  assume ok: "slots_ok xs" and i: "i < length xs" and "0 \<le> c"
  have "map tmSample (xs[i := (xs ! i)\<lparr>nLockCount := c\<rparr>]) = map tmSample xs"
    using i by (intro nth_equalityI) (auto simp: nth_list_update)
  then show ?thesis
    using ok \<open>0 \<le> c\<close> i unfolding slots_ok_def by (auto dest!: set_update_subset_insert [THEN subsetD])
qed

lemma ptrs_lock: "i < length xs \<Longrightarrow> map s_ptr (xs[i := (xs ! i)\<lparr>nLockCount := c\<rparr>]) = map s_ptr xs"
  by (intro nth_equalityI) (auto simp: nth_list_update)

lemma buffer_inv_cong:
  assumes "buffer_inv b" "slots_ok xs" "map s_ptr xs = map s_ptr (m_samples b)"
  shows "buffer_inv (b\<lparr>m_samples := xs\<rparr>)"
  using assms unfolding buffer_inv_def by simp

lemma lock_inv:
  assumes "buffer_inv b" "i < length (m_samples b)" "0 \<le> c"
  shows "buffer_inv (b\<lparr>m_samples := (m_samples b)[i := (m_samples b ! i)\<lparr>nLockCount := c\<rparr>]\<rparr>)"
  using assms(1) by (rule buffer_inv_cong) (use assms in \<open>auto intro: slots_ok_lock ptrs_lock simp: buffer_inv_def\<close>)

lemma take_slot_inv:
  assumes "buffer_inv b" "i < length (m_samples b)"
  shows "buffer_inv (snd (take_slot i b))"
proof -
  have "0 \<le> nLockCount (m_samples b ! i)"
    using assms by (simp add: buffer_inv_def slots_ok_def)
  with lock_inv [OF assms] show ?thesis unfolding take_slot_def by simp
qed

lemma take_slot_Pair: "take_slot i b = (r, b') \<Longrightarrow> buffer_inv b \<Longrightarrow> i < length (m_samples b) \<Longrightarrow> buffer_inv b'"
  using take_slot_inv by fastforce

lemma bound_le: "lower_bound t xs \<le> length xs" "upper_bound t xs \<le> length xs"
  unfolding lower_bound_def upper_bound_def by (rule length_takeWhile_le)+

lemma nearest_slot_less:
  assumes "nearest_slot t xs = Some i"
  shows "i < length xs"
proof -
  define u where "u = (if t < 0 then 0 else t)"
  define l where "l = lower_bound u xs"
  define k where "k = l + length (takeWhile (\<lambda>s. tmSample s = -1) (drop l xs))"
  have "l \<le> length xs" unfolding l_def by (rule bound_le)
  then have "k \<le> length xs"
    using length_takeWhile_le [of "\<lambda>s. tmSample s = -1" "drop l xs"] unfolding k_def by simp
  moreover have "nearest_slot t xs = (if l = length xs then (if xs = [] then None else Some (length xs - 1))
      else if k = length xs then None
      else if tmSample (xs ! k) = u then Some k
      else if k = 0 then None
      else if tmSample (xs ! (k - 1)) = -1 then Some k
      else if tmSample (xs ! k) - u \<le> u - tmSample (xs ! (k - 1)) then Some k else Some (k - 1))"
    unfolding nearest_slot_def Let_def u_def [symmetric] l_def [symmetric] k_def [symmetric] by simp
  ultimately show ?thesis
    using assms by (auto split: if_splits)
qed

lemma delete_inv:
  assumes "buffer_inv b" "i < length (m_oDeletedSlots b)"
  shows "buffer_inv (b\<lparr>m_oDeletedSlots := remove_at i (m_oDeletedSlots b)\<rparr>)"
proof -
  from remove_at_split [OF assms(2)] obtain ys x zs where
    yz: "m_oDeletedSlots b = ys @ x # zs" "remove_at i (m_oDeletedSlots b) = ys @ zs" by blast
  have "slots_ok (ys @ x # zs)" "\<forall>s \<in> set (ys @ x # zs). 0 < nLockCount s"
      "ptrs_ok (map s_ptr (m_samples b) @ map s_ptr (ys @ x # zs)) (b_next b)"
    using assms(1) unfolding buffer_inv_def yz(1) by blast+
  then have "buffer_inv (b\<lparr>m_oDeletedSlots := ys @ zs\<rparr>)"
    using assms(1) slots_ok_remove [of ys x zs] by (auto simp: buffer_inv_def ptrs_ok_def)
  then show ?thesis unfolding yz(2) .
qed

lemma lock_deleted_inv:
  assumes inv: "buffer_inv b" and i: "i < length (m_oDeletedSlots b)" and "0 < c"
  shows "buffer_inv (b\<lparr>m_oDeletedSlots := (m_oDeletedSlots b)[i := (m_oDeletedSlots b ! i)\<lparr>nLockCount := c\<rparr>]\<rparr>)"
proof -
  let ?d = "m_oDeletedSlots b"
  let ?d' = "?d[i := (?d ! i)\<lparr>nLockCount := c\<rparr>]"
  have "slots_ok ?d'" using inv i assms(3) by (intro slots_ok_lock) (auto simp: buffer_inv_def)
  moreover have "\<forall>s \<in> set ?d'. 0 < nLockCount s"
    using inv assms(3) by (auto simp: buffer_inv_def dest!: set_update_subset_insert [THEN subsetD])
  ultimately show ?thesis
    using inv ptrs_lock [OF i, of c] unfolding buffer_inv_def by simp
qed

lemma Unlock_inv:
  assumes inv: "buffer_inv b" and u: "buffer_UnlockData p b = Some (r, b')"
  shows "buffer_inv b'"
proof -
  obtain t where t: "time_behind p b = Some t" using u by (auto simp: buffer_UnlockData_def split: option.splits)
  show ?thesis
  proof (cases "first_index (\<lambda>s. tmSample s = t \<and> s_ptr s = p) (m_samples b)")
    case (Some i)
    with first_index_Some [OF this] lock_inv [OF inv, of i "nLockCount (m_samples b ! i) - 1"] inv t u show ?thesis
      by (auto simp: buffer_UnlockData_def Let_def split: if_splits)
  next
    case no: None
    show ?thesis
    proof (cases "first_index (\<lambda>s. tmSample s = t \<and> s_ptr s = p) (m_oDeletedSlots b)")
      case None
      with no t u inv show ?thesis by (auto simp: buffer_UnlockData_def)
    next
      case (Some i)
      let ?s = "m_oDeletedSlots b ! i"
      from first_index_Some [OF Some] have i: "i < length (m_oDeletedSlots b)" by blast
      then have "0 < nLockCount ?s" using inv by (simp add: buffer_inv_def)
      with lock_deleted_inv [OF inv i, of "nLockCount ?s - 1"] delete_inv [OF inv i] u t no Some show ?thesis
        by (auto simp: buffer_UnlockData_def Let_def split: if_splits)
    qed
  qed
qed

lemma Update_inv: "buffer_inv b \<Longrightarrow> buffer_inv (snd (buffer_Update x b))"
proof (cases "first_index (\<lambda>s. tmSample s = -1 \<or> nLockCount s = 0) (m_samples b)")
  case (Some i)
  assume inv: "buffer_inv b"
  from first_index_Some [OF Some] have "i < length (m_samples b)" by blast
  from remove_at_split [OF this] obtain ys zs where
    yz: "m_samples b = ys @ m_samples b ! i # zs" "remove_at i (m_samples b) = ys @ zs" by blast
  define s where "s = m_samples b ! i"
  note yz = yz [folded s_def]
  have "slots_ok (ys @ zs)" "0 \<le> nLockCount s"
    using inv slots_ok_remove [of ys s zs] yz(1) by (auto simp: buffer_inv_def slots_ok_def)
  moreover have "snd (buffer_Update x b) = b\<lparr>m_samples := ms_insert (s\<lparr>tmSample := us_time x, poSample := x\<rparr>) (ys @ zs),
      m_latestSampleTimestamp := us_time x\<rparr>"
    using Some by (simp add: buffer_Update_def Let_def s_def [symmetric] yz(2))
  moreover have "ptrs_ok (map s_ptr (ys @ s # zs) @ map s_ptr (m_oDeletedSlots b)) (b_next b)"
    using inv unfolding buffer_inv_def yz(1) by blast
  then have "ptrs_ok (map s_ptr (ms_insert (s\<lparr>tmSample := us_time x, poSample := x\<rparr>) (ys @ zs)) @
      map s_ptr (m_oDeletedSlots b)) (b_next b)"
    by (auto simp: ptrs_ok_def)
  ultimately show ?thesis using inv by (simp add: buffer_inv_def)
qed (simp add: buffer_Update_def)

lemma add_slot_inv: "buffer_inv b \<Longrightarrow> buffer_inv (add_slot x b)"
  by (fastforce simp: buffer_inv_def add_slot_def ptrs_ok_def less_Suc_eq)

lemma add_slots_inv: "buffer_inv b \<Longrightarrow> buffer_inv ((add_slot x ^^ n) b)"
  by (induction n) (auto simp: add_slot_inv)

lemma shrink_inv: "buffer_inv b \<Longrightarrow> buffer_inv (shrink n b)"
proof (induction n b rule: shrink.induct)
  case (2 k b)
  show ?case
  proof (cases "m_samples b")
    case (Cons s rest)
    have "buffer_inv (b\<lparr>m_samples := rest, m_oDeletedSlots :=
        if nLockCount s > 0 then ms_insert s (m_oDeletedSlots b) else m_oDeletedSlots b\<rparr>)"
      using "2.prems" Cons by (auto simp: buffer_inv_def ptrs_ok_def slots_ok_def)
    with "2.IH" [OF Cons] Cons show ?thesis by simp
  qed (use 2 in simp)
qed simp

lemma buffer_step_inv: "buffer_inv b \<Longrightarrow> buffer_step x b = Some b' \<Longrightarrow> buffer_inv b'"
proof (cases x)
  case (OpLock t f)
  moreover assume "buffer_inv b" "buffer_step x b = Some b'"
  ultimately show ?thesis
    using nearest_slot_less
    by (auto simp: buffer_LockDataAt_def split: selection.splits if_splits dest: take_slot_Pair)
next
  case (OpLockUpper t)
  moreover assume "buffer_inv b" "buffer_step x b = Some b'"
  ultimately show ?thesis
    using bound_le(2) [of t "m_samples b"]
    by (auto simp: buffer_LockDataAtUpperBound_def Let_def split: if_splits intro!: take_slot_inv)
next
  case (OpUnlock p)
  moreover assume "buffer_inv b" "buffer_step x b = Some b'"
  ultimately show ?thesis by (auto intro: Unlock_inv)
next
  case (OpUpdate s)
  moreover assume "buffer_inv b" "buffer_step x b = Some b'"
  ultimately show ?thesis by (auto intro: Update_inv)
next
  case (OpBacklog n fresh)
  moreover assume "buffer_inv b" "buffer_step x b = Some b'"
  ultimately show ?thesis
    by (auto simp: buffer_SignalBacklogChanged_def Let_def intro!: add_slots_inv shrink_inv)
qed

lemma buffer_run_inv: "buffer_inv b \<Longrightarrow> buffer_run xs b = Some b' \<Longrightarrow> buffer_inv b'"
  by (induction xs arbitrary: b) (auto simp: bind_eq_Some_conv dest: buffer_step_inv)

lemma buffer_inv_new: "buffer_inv new_sample_buffer"
  by (simp add: buffer_inv_def slots_ok_def ptrs_ok_def new_sample_buffer_def)

lemma SignalRegistered_inv: "SignalRegistered n fresh content new_sample_buffer = Some b \<Longrightarrow> buffer_inv b"
  by (auto simp: SignalRegistered_def split: if_splits intro!: add_slot_inv add_slots_inv buffer_inv_new)

section \<open>Locked samples\<close>

definition content_of :: "nat \<Rightarrow> sample_buffer \<Rightarrow> user_sample option" where
  "content_of p b = map_option poSample (find (\<lambda>s. s_ptr s = p) (m_samples b @ m_oDeletedSlots b))"

definition held :: "nat \<Rightarrow> int \<Rightarrow> user_sample \<Rightarrow> slot list \<Rightarrow> bool" where
  "held p c x xs \<longleftrightarrow> (\<exists>s \<in> set xs. s_ptr s = p \<and> poSample s = x \<and> tmSample s \<noteq> -1 \<and> c \<le> nLockCount s)"

definition holds :: "nat \<Rightarrow> int \<Rightarrow> user_sample \<Rightarrow> sample_buffer \<Rightarrow> bool" where
  "holds p c x b \<longleftrightarrow> held p c x (m_samples b) \<or> held p c x (m_oDeletedSlots b)"

lemma held_simps [simp]:
  "\<not> held p c x []"
  "held p c x (ms_insert s xs) \<longleftrightarrow> held p c x (s # xs)"
  "held p c x (ys @ zs) \<longleftrightarrow> held p c x ys \<or> held p c x zs"
  by (auto simp: held_def)

lemma held_Cons:
  "held p c x (s # xs) \<longleftrightarrow> (s_ptr s = p \<and> poSample s = x \<and> tmSample s \<noteq> -1 \<and> c \<le> nLockCount s) \<or> held p c x xs"
  by (auto simp: held_def)

lemma held_update:
  assumes "held p c x xs" "i < length xs" "c' \<le> c" "s_ptr (xs ! i) = p \<Longrightarrow> c \<le> nLockCount (xs ! i) \<Longrightarrow> c' \<le> n"
  shows "held p c' x (xs[i := (xs ! i)\<lparr>nLockCount := n\<rparr>])"
proof -
  from assms(1) obtain s where s: "s \<in> set xs" "s_ptr s = p" "poSample s = x" "tmSample s \<noteq> -1" "c \<le> nLockCount s"
    by (auto simp: held_def)
  from s(1) obtain j where j: "j < length xs" "s = xs ! j" by (auto simp: in_set_conv_nth)
  show ?thesis
  proof (cases "j = i")
    case True
    then have "(xs ! i)\<lparr>nLockCount := n\<rparr> \<in> set (xs[i := (xs ! i)\<lparr>nLockCount := n\<rparr>])"
      using assms(2) by (intro set_update_memI)
    with True j s assms(4) show ?thesis
      unfolding held_def by (intro bexI [of _ "(xs ! i)\<lparr>nLockCount := n\<rparr>"]) auto
  next
    case False
    then have "s \<in> set (xs[i := (xs ! i)\<lparr>nLockCount := n\<rparr>])"
      using j by (metis length_list_update nth_list_update_neq nth_mem)
    with s assms(3) show ?thesis unfolding held_def by force
  qed
qed

lemma take_slot_holds:
  assumes "take_slot i b = (r, b')" "i < length (m_samples b)" "holds p c x b"
  shows "holds p c x b'"
proof -
  have "held p c x ((m_samples b)[i := (m_samples b ! i)\<lparr>nLockCount := nLockCount (m_samples b ! i) + 1\<rparr>])"
    if "held p c x (m_samples b)"
    using that assms(2) by (rule held_update) auto
  moreover from assms(1) have "m_oDeletedSlots b' = m_oDeletedSlots b" "m_samples b' =
      (m_samples b)[i := (m_samples b ! i)\<lparr>nLockCount := nLockCount (m_samples b ! i) + 1\<rparr>]"
    by (auto simp: take_slot_def)
  ultimately show ?thesis using assms(3) unfolding holds_def by metis
qed

lemma find_slot:
  assumes inv: "buffer_inv b" and s: "s \<in> set (m_samples b @ m_oDeletedSlots b)"
  shows "find (\<lambda>x. s_ptr x = s_ptr s) (m_samples b @ m_oDeletedSlots b) = Some s"
proof -
  have "distinct (map s_ptr (m_samples b @ m_oDeletedSlots b))" using inv by (auto simp: buffer_inv_def ptrs_ok_def)
  then have inj: "inj_on s_ptr (set (m_samples b @ m_oDeletedSlots b))" by (simp only: distinct_map)
  have "\<exists>s'. find (\<lambda>x. s_ptr x = s_ptr s) xs = Some s' \<and> s' \<in> set xs \<and> s_ptr s' = s_ptr s" if "s \<in> set xs" for xs
    using that by (induction xs) auto
  from this [OF s] obtain s' where "find (\<lambda>x. s_ptr x = s_ptr s) (m_samples b @ m_oDeletedSlots b) = Some s'"
      "s' \<in> set (m_samples b @ m_oDeletedSlots b)" "s_ptr s' = s_ptr s" by blast
  with s inj show ?thesis by (auto dest: inj_onD)
qed

lemma content_holds:
  assumes inv: "buffer_inv b" and "holds p c x b"
  shows "content_of p b = Some x" "time_behind p b = Some (us_time x)"
proof -
  from assms(2) obtain s where s: "s \<in> set (m_samples b @ m_oDeletedSlots b)" "s_ptr s = p" "poSample s = x"
    by (auto simp: holds_def held_def)
  with find_slot [OF inv s(1)] show "content_of p b = Some x" "time_behind p b = Some (us_time x)"
    by (simp_all add: content_of_def time_behind_def)
qed

lemma Update_holds: "holds p c x b \<Longrightarrow> 0 < c \<Longrightarrow> holds p c x (snd (buffer_Update y b))"
proof (cases "first_index (\<lambda>s. tmSample s = -1 \<or> nLockCount s = 0) (m_samples b)")
  case (Some i)
  assume h: "holds p c x b" "0 < c"
  from first_index_Some [OF Some] have i: "i < length (m_samples b)"
      "tmSample (m_samples b ! i) = -1 \<or> nLockCount (m_samples b ! i) = 0" by blast+
  from remove_at_split [OF i(1)] obtain ys zs where
    yz: "m_samples b = ys @ m_samples b ! i # zs" "remove_at i (m_samples b) = ys @ zs" by blast
  have "held p c x (m_samples b) \<Longrightarrow> held p c x (ys @ zs)"
    using h(2) i(2) by (subst (asm) yz(1)) (auto simp: held_Cons)
  with h(1) Some show ?thesis
    by (auto simp: buffer_Update_def Let_def holds_def yz(2) held_Cons)
qed (simp add: buffer_Update_def)

lemma add_slots_holds: "holds p c x b \<Longrightarrow> holds p c x ((add_slot y ^^ n) b)"
  by (induction n) (auto simp: holds_def add_slot_def held_Cons)

lemma shrink_holds: "holds p c x b \<Longrightarrow> 0 < c \<Longrightarrow> holds p c x (shrink n b)"
proof (induction n b rule: shrink.induct)
  case (2 k b)
  show ?case
  proof (cases "m_samples b")
    case (Cons s rest)
    have "holds p c x (b\<lparr>m_samples := rest, m_oDeletedSlots :=
        if nLockCount s > 0 then ms_insert s (m_oDeletedSlots b) else m_oDeletedSlots b\<rparr>)"
      using "2.prems" Cons by (auto simp: holds_def held_Cons)
    with "2.IH" [OF Cons] Cons "2.prems"(2) show ?thesis by simp
  qed (use 2 in simp)
qed simp

lemma Unlock_holds:
  assumes inv: "buffer_inv b" and h: "holds p c x b" "0 < c'" "c' = (if q = p then c - 1 else c)"
    and u: "buffer_UnlockData q b = Some (r, b')"
  shows "holds p c' x b'"
proof -
  obtain t where t: "time_behind q b = Some t" using u by (auto simp: buffer_UnlockData_def split: option.splits)
  have le: "c' \<le> c" using h(3) by auto
  have weaken: "held p c' x xs" if "held p c x xs" for xs
    using that le unfolding held_def by force
  show ?thesis
  proof (cases "first_index (\<lambda>s. tmSample s = t \<and> s_ptr s = q) (m_samples b)")
    case (Some i)
    from first_index_Some [OF this] have i: "i < length (m_samples b)" "s_ptr (m_samples b ! i) = q" by blast+
    have "held p c' x ((m_samples b)[i := (m_samples b ! i)\<lparr>nLockCount := nLockCount (m_samples b ! i) - 1\<rparr>])"
      if "held p c x (m_samples b)"
      using that i(1) le by (rule held_update) (use i(2) h(3) in auto)
    with Some t u h(1) weaken show ?thesis
      by (auto simp: buffer_UnlockData_def Let_def holds_def split: if_splits)
  next
    case no: None
    show ?thesis
    proof (cases "first_index (\<lambda>s. tmSample s = t \<and> s_ptr s = q) (m_oDeletedSlots b)")
      case None
      with no t u h(1) weaken show ?thesis by (auto simp: buffer_UnlockData_def holds_def)
    next
      case (Some i)
      let ?s = "m_oDeletedSlots b ! i"
      from first_index_Some [OF Some] have i: "i < length (m_oDeletedSlots b)" "s_ptr ?s = q" by blast+
      have upd: "held p c' x ((m_oDeletedSlots b)[i := ?s\<lparr>nLockCount := nLockCount ?s - 1\<rparr>])"
        if "held p c x (m_oDeletedSlots b)"
        using that i(1) le by (rule held_update) (use i(2) h(3) in auto)
      from remove_at_split [OF i(1)] obtain ys zs where
        yz: "m_oDeletedSlots b = ys @ ?s # zs" "remove_at i (m_oDeletedSlots b) = ys @ zs" by blast
      have rem: "held p c' x (remove_at i (m_oDeletedSlots b))"
        if "nLockCount ?s = 1" "held p c x (m_oDeletedSlots b)"
      proof -
        have "c \<le> nLockCount ?s \<Longrightarrow> s_ptr ?s = p \<Longrightarrow> False" using that(1) i(2) h(2,3) by auto
        with that(2) have "held p c x (ys @ zs)" by (subst (asm) yz(1)) (auto simp: held_Cons)
        then show ?thesis unfolding yz(2) by (rule weaken)
      qed
      from no Some t u h(1) weaken upd rem show ?thesis
        by (auto simp: buffer_UnlockData_def Let_def holds_def split: if_splits)
    qed
  qed
qed

lemma buffer_step_holds:
  assumes inv: "buffer_inv b" and h: "holds p c x b" "0 < c'" "c' = (if op = OpUnlock p then c - 1 else c)"
    and s: "buffer_step op b = Some b'"
  shows "holds p c' x b'"
proof (cases op)
  case (OpLock t f)
  with s h nearest_slot_less show ?thesis
    by (auto simp: buffer_LockDataAt_def split: selection.splits if_splits dest: take_slot_holds)
next
  case (OpLockUpper t)
  with s h bound_le(2) [of t "m_samples b"] show ?thesis
    by (auto simp: buffer_LockDataAtUpperBound_def Let_def split: if_splits 
        intro: take_slot_holds [OF prod.collapse [symmetric]])
next
  case (OpUnlock q)
  with s Unlock_holds [OF inv h(1,2), of q] h(3) show ?thesis by auto
next
  case (OpUpdate y)
  with s h Update_holds show ?thesis by auto
next
  case (OpBacklog n fresh)
  with s h show ?thesis
    by (auto simp: buffer_SignalBacklogChanged_def Let_def intro!: add_slots_holds shrink_holds)
qed

lemma buffer_run_holds:
  assumes "buffer_inv b" "holds p c x b" "int (length (filter (\<lambda>op. op = OpUnlock p) ops)) < c" "buffer_run ops b = Some b'"
  shows "content_of p b' = Some x"
  using assms
proof (induction ops arbitrary: b c)
  case Nil
  then show ?case using content_holds by simp
next
  case (Cons op ops)
  then obtain b1 where b1: "buffer_step op b = Some b1" "buffer_run ops b1 = Some b'"
    by (auto simp: bind_eq_Some_conv)
  define c' where "c' = (if op = OpUnlock p then c - 1 else c)"
  have "int (length (filter (\<lambda>op. op = OpUnlock p) ops)) < c'" using Cons.prems(3) by (auto simp: c'_def split: if_splits)
  moreover from this have "0 < c'" by linarith
  ultimately show ?case
    using Cons.IH [OF buffer_step_inv [OF Cons.prems(1) b1(1)] buffer_step_holds [OF Cons.prems(1,2) _ c'_def b1(1)] _ b1(2)]
    by blast
qed

text \<open>
  C35: A sample a reader has locked stays what it is: whatever samples arrive, whatever other readers lock and
  unlock and however the size of the backlog changes, as long as the sample is unlocked less often than it has
  been locked, its content behind the reader's pointer does not change. The exception is a slot that is still unused
  (time -1): a reader that has locked one has it filled by the next sample (\<open>locked_empty_slot_is_overwritten\<close>).
\<close>

theorem locked_sample_is_stable:
  assumes "buffer_inv b" "s \<in> set (m_samples b)" "tmSample s \<noteq> -1"
    and "int (length (filter (\<lambda>op. op = OpUnlock (s_ptr s)) ops)) < nLockCount s" "buffer_run ops b = Some b'"
  shows "content_of (s_ptr s) b' = Some (poSample s)"
proof -
  have "holds (s_ptr s) (nLockCount s) (poSample s) b" using assms(2,3) by (auto simp: holds_def held_def)
  from buffer_run_holds [OF assms(1) this assms(4,5)] show ?thesis .
qed

definition buffer_demo :: sample_buffer where
  "buffer_demo = the (Option.bind (SignalRegistered 2 [9] [0] new_sample_buffer)
     (buffer_run [OpUpdate \<lparr>us_time = 10, us_data = [1]\<rparr>, OpLock 0 SS_LATEST_SAMPLE]))"

lemma buffer_demo_inv: "buffer_inv buffer_demo"
proof -
  have "Option.bind (SignalRegistered 2 [9] [0] new_sample_buffer)
     (buffer_run [OpUpdate \<lparr>us_time = 10, us_data = [1]\<rparr>, OpLock 0 SS_LATEST_SAMPLE]) \<noteq> None"
    by code_simp
  then obtain b0 where "SignalRegistered 2 [9] [0] new_sample_buffer = Some b0"
      "buffer_run [OpUpdate \<lparr>us_time = 10, us_data = [1]\<rparr>, OpLock 0 SS_LATEST_SAMPLE] b0 = Some buffer_demo"
    by (auto simp: buffer_demo_def simp del: buffer_run.simps split: bind_splits)
  then show ?thesis using SignalRegistered_inv buffer_run_inv by blast
qed

theorem locked_sample_is_stable_witness:
  "\<exists>b. buffer_run [OpUpdate \<lparr>us_time = 20, us_data = [2]\<rparr>, OpUpdate \<lparr>us_time = 30, us_data = [3]\<rparr>, OpBacklog 1 []] buffer_demo = Some b \<and>
     content_of 0 b = Some \<lparr>us_time = 10, us_data = [1]\<rparr>"
proof -
  have d: "m_samples buffer_demo = [\<lparr>tmSample = 0, s_ptr = 1, poSample = \<lparr>us_time = 0, us_data = [0]\<rparr>, nLockCount = 0\<rparr>,
      \<lparr>tmSample = 10, s_ptr = 0, poSample = \<lparr>us_time = 10, us_data = [1]\<rparr>, nLockCount = 1\<rparr>]"
    by code_simp
  let ?ops = "[OpUpdate \<lparr>us_time = 20, us_data = [2]\<rparr>, OpUpdate \<lparr>us_time = 30, us_data = [3]\<rparr>, OpBacklog 1 []]"
  obtain b where b: "buffer_run ?ops buffer_demo = Some b" by simp
  with locked_sample_is_stable [OF buffer_demo_inv, of "m_samples buffer_demo ! 1" ?ops b] show ?thesis
    by (simp add: d)
qed

section \<open>Which sample is read\<close>

lemma takeWhile_sorted:
  assumes "sorted (map tmSample xs)" "j < length xs"
  shows "tmSample (xs ! j) < t \<longleftrightarrow> j < lower_bound t xs" "tmSample (xs ! j) \<le> t \<longleftrightarrow> j < upper_bound t xs"
proof -
  have mono: "tmSample (xs ! i) \<le> tmSample (xs ! k)" if "i \<le> k" "k < length xs" for i k
    using sorted_nth_mono [OF assms(1) that(1)] that by simp
  have below: "P (xs ! j) \<longleftrightarrow> j < length (takeWhile P xs)"
    if down: "\<And>i k. i \<le> k \<Longrightarrow> k < length xs \<Longrightarrow> P (xs ! k) \<Longrightarrow> P (xs ! i)" for P
  proof
    assume p: "P (xs ! j)"
    show "j < length (takeWhile P xs)"
    proof (rule ccontr)
      assume n: "\<not> j < length (takeWhile P xs)"
      then have "length (takeWhile P xs) < length xs" using assms(2) by simp
      from nth_length_takeWhile [OF this] down [of "length (takeWhile P xs)" j] n assms(2) p show False by simp
    qed
  next
    assume "j < length (takeWhile P xs)"
    then show "P (xs ! j)" using takeWhile_nth set_takeWhileD nth_mem by metis
  qed
  show "tmSample (xs ! j) < t \<longleftrightarrow> j < lower_bound t xs" "tmSample (xs ! j) \<le> t \<longleftrightarrow> j < upper_bound t xs"
    unfolding lower_bound_def upper_bound_def by (rule below, use mono in fastforce)+
qed

lemma nearest_slot_sorted:
  assumes "sorted (map tmSample xs)"
  shows "nearest_slot tm xs = (let t = max 0 tm; i = lower_bound t xs in
    if i = length xs then (if xs = [] then None else Some (length xs - 1))
    else if tmSample (xs ! i) = t then Some i
    else if i = 0 then None
    else if tmSample (xs ! (i - 1)) = -1 then Some i
    else if tmSample (xs ! i) - t \<le> t - tmSample (xs ! (i - 1)) then Some i else Some (i - 1))"
proof -
  define t where "t = max 0 tm"
  have t: "(if tm < 0 then 0 else tm) = t" by (simp add: t_def)
  define i where "i = lower_bound t xs"
  have "takeWhile (\<lambda>s. tmSample s = -1) (drop i xs) = []" if "i \<noteq> length xs"
  proof -
    have "i < length xs" using bound_le(1) [of t xs] that unfolding i_def by linarith
    moreover from takeWhile_sorted(1) [OF assms this, of t] have "t \<le> tmSample (xs ! i)" by (simp add: i_def)
    ultimately show ?thesis
      by (simp add: t_def Cons_nth_drop_Suc [symmetric])
  qed
  then show ?thesis
    unfolding nearest_slot_def t Let_def t_def [symmetric] i_def [symmetric] by auto
qed

lemma nearest_slot_spec:
  assumes "buffer_inv b" "\<forall>s \<in> set (m_samples b). -1 \<le> tmSample s"
  shows "nearest_slot tm (m_samples b) = None \<longleftrightarrow> m_samples b = [] \<or> max 0 tm < tmSample (hd (m_samples b))"
    and "nearest_slot tm (m_samples b) = Some i \<Longrightarrow> i < length (m_samples b) \<and>
      (\<forall>s \<in> set (m_samples b). tmSample s \<noteq> -1 \<longrightarrow>
         \<bar>tmSample (m_samples b ! i) - max 0 tm\<bar> \<le> \<bar>tmSample s - max 0 tm\<bar> \<and>
         (\<bar>tmSample (m_samples b ! i) - max 0 tm\<bar> = \<bar>tmSample s - max 0 tm\<bar> \<longrightarrow> tmSample s \<le> tmSample (m_samples b ! i)))"
proof -
  let ?xs = "m_samples b"
  define t where "t = max 0 tm"
  define l where "l = lower_bound t ?xs"
  have "0 \<le> t" by (simp add: t_def)
  have s: "sorted (map tmSample ?xs)" using assms by (simp add: buffer_inv_def slots_ok_def)
  have mono: "tmSample (?xs ! j) \<le> tmSample (?xs ! k)" if "j \<le> k" "k < length ?xs" for j k
    using sorted_nth_mono [OF s that(1)] that by simp
  have less: "tmSample (?xs ! j) < t \<longleftrightarrow> j < l" if "j < length ?xs" for j
    using takeWhile_sorted(1) [OF s that] by (simp add: l_def)
  have l: "l \<le> length ?xs" unfolding l_def by (rule bound_le)
  have near: "nearest_slot tm ?xs = (if l = length ?xs then (if ?xs = [] then None else Some (length ?xs - 1))
    else if tmSample (?xs ! l) = t then Some l
    else if l = 0 then None
    else if tmSample (?xs ! (l - 1)) = -1 then Some l
    else if tmSample (?xs ! l) - t \<le> t - tmSample (?xs ! (l - 1)) then Some l else Some (l - 1))"
    unfolding nearest_slot_sorted [OF s] Let_def t_def [symmetric] l_def [symmetric] ..
  show "nearest_slot tm ?xs = None \<longleftrightarrow> ?xs = [] \<or> max 0 tm < tmSample (hd ?xs)"
  proof (cases "?xs = []")
    case False
    with less [of 0] less [of l] l mono [of 0 l] show ?thesis
      unfolding near t_def [symmetric] by (cases "l = 0") (auto simp: hd_conv_nth)
  qed (use near l in simp)
  assume i: "nearest_slot tm ?xs = Some i"
  then have "i < length ?xs" by (rule nearest_slot_less)
  moreover have "\<bar>tmSample (?xs ! i) - t\<bar> \<le> \<bar>tmSample (?xs ! j) - t\<bar> \<and>
      (\<bar>tmSample (?xs ! i) - t\<bar> = \<bar>tmSample (?xs ! j) - t\<bar> \<longrightarrow> tmSample (?xs ! j) \<le> tmSample (?xs ! i))"
    if j: "j < length ?xs" "tmSample (?xs ! j) \<noteq> -1" for j
  proof -
    have lo: "-1 \<le> tmSample (?xs ! j)" using assms(2) j(1) by simp
    show ?thesis
    proof (cases "l = length ?xs")
      case True
      with i near have "i = length ?xs - 1" by (auto split: if_splits)
      with j(1) have "j \<le> i" "i < length ?xs" by linarith+
      from mono [OF this] less [OF this(2)] less [OF j(1)] True j(1) \<open>i < length ?xs\<close> show ?thesis by auto
    next
      case False
      with l have l: "l < length ?xs" by simp
      note at_l = less [OF l] mono [of l j] mono [of j "l - 1"] less [of "l - 1"] less [OF j(1)]
      show ?thesis
      proof (cases "j < l")
        case True
        then have "tmSample (?xs ! j) \<le> tmSample (?xs ! (l - 1))" "tmSample (?xs ! j) < t" "tmSample (?xs ! (l - 1)) < t"
          using at_l l by auto
        with i near False at_l(1) lo j(2) show ?thesis by (auto split: if_splits)
      next
        case False
        then have "tmSample (?xs ! l) \<le> tmSample (?xs ! j)" "t \<le> tmSample (?xs ! l)"
          using at_l j(1) by auto
        moreover have "0 < l \<Longrightarrow> tmSample (?xs ! (l - 1)) < t" using at_l l by auto
        ultimately show ?thesis using i near l by (auto split: if_splits)
      qed
    qed
  qed
  ultimately show "i < length ?xs \<and> (\<forall>s \<in> set ?xs. tmSample s \<noteq> -1 \<longrightarrow>
         \<bar>tmSample (?xs ! i) - max 0 tm\<bar> \<le> \<bar>tmSample s - max 0 tm\<bar> \<and>
         (\<bar>tmSample (?xs ! i) - max 0 tm\<bar> = \<bar>tmSample s - max 0 tm\<bar> \<longrightarrow> tmSample s \<le> tmSample (?xs ! i)))"
    unfolding t_def by (auto simp: in_set_conv_nth)
qed

text \<open>
  The nearest sample is nearest: of all samples in the backlog none is closer in time to the time asked for
  (a negative one counts as 0) than the one that is read, empty slots apart; of two equally close ones the newer
  one is read. But nothing is read, and the element before the first one is accessed, when the backlog is empty
  or even its oldest slot is newer than the time.
\<close>

theorem nearest_sample_is_nearest:
  assumes "buffer_inv b" "\<forall>s \<in> set (m_samples b). -1 \<le> tmSample s"
  shows "(buffer_LockDataAt tm SS_NEAREST_SAMPLE b = None \<longleftrightarrow>
      m_samples b = [] \<or> max 0 tm < tmSample (hd (m_samples b))) \<and>
    (\<forall>r b'. buffer_LockDataAt tm SS_NEAREST_SAMPLE b = Some (r, b') \<longrightarrow>
      (\<exists>x \<in> set (m_samples b). r = (ERR_NOERROR, Some (s_ptr x, m_latestSampleTimestamp b \<ge> 0)) \<and>
        (\<forall>s \<in> set (m_samples b). tmSample s \<noteq> -1 \<longrightarrow>
           \<bar>tmSample x - max 0 tm\<bar> \<le> \<bar>tmSample s - max 0 tm\<bar> \<and>
           (\<bar>tmSample x - max 0 tm\<bar> = \<bar>tmSample s - max 0 tm\<bar> \<longrightarrow> tmSample s \<le> tmSample x))))"
proof (intro conjI allI impI)
  show "buffer_LockDataAt tm SS_NEAREST_SAMPLE b = None \<longleftrightarrow>
      m_samples b = [] \<or> max 0 tm < tmSample (hd (m_samples b))"
    using nearest_slot_spec(1) [OF assms, of tm] by (simp add: buffer_LockDataAt_def)
  fix r b' assume "buffer_LockDataAt tm SS_NEAREST_SAMPLE b = Some (r, b')"
  then obtain i where i: "nearest_slot tm (m_samples b) = Some i" "take_slot i b = (r, b')"
    by (auto simp: buffer_LockDataAt_def)
  from nearest_slot_spec(2) [OF assms i(1)] i(2) show "\<exists>x \<in> set (m_samples b).
      r = (ERR_NOERROR, Some (s_ptr x, m_latestSampleTimestamp b \<ge> 0)) \<and>
      (\<forall>s \<in> set (m_samples b). tmSample s \<noteq> -1 \<longrightarrow>
           \<bar>tmSample x - max 0 tm\<bar> \<le> \<bar>tmSample s - max 0 tm\<bar> \<and>
           (\<bar>tmSample x - max 0 tm\<bar> = \<bar>tmSample s - max 0 tm\<bar> \<longrightarrow> tmSample s \<le> tmSample x))"
    by (intro bexI [of _ "m_samples b ! i"]) (auto simp: take_slot_def)
qed

theorem nearest_sample_is_nearest_witness:
  "(\<exists>b'. buffer_LockDataAt 6 SS_NEAREST_SAMPLE buffer_demo = Some ((ERR_NOERROR, Some (0, True)), b')) \<and>
   (\<exists>x \<in> set (m_samples buffer_demo). s_ptr x = 0 \<and> tmSample x = 10 \<and>
      (\<forall>s \<in> set (m_samples buffer_demo). tmSample s \<noteq> -1 \<longrightarrow> \<bar>tmSample x - 6\<bar> \<le> \<bar>tmSample s - 6\<bar>))"
proof -
  have d: "m_samples buffer_demo = [\<lparr>tmSample = 0, s_ptr = 1, poSample = \<lparr>us_time = 0, us_data = [0]\<rparr>, nLockCount = 0\<rparr>,
      \<lparr>tmSample = 10, s_ptr = 0, poSample = \<lparr>us_time = 10, us_data = [1]\<rparr>, nLockCount = 1\<rparr>]"
    by code_simp
  have "case buffer_LockDataAt 6 SS_NEAREST_SAMPLE buffer_demo of None \<Rightarrow> False
      | Some (r, b') \<Rightarrow> r = (ERR_NOERROR, Some (0, True))"
    by code_simp
  then obtain b' where b': "buffer_LockDataAt 6 SS_NEAREST_SAMPLE buffer_demo = Some ((ERR_NOERROR, Some (0, True)), b')"
    by (auto split: option.splits)
  moreover have h: "\<forall>s \<in> set (m_samples buffer_demo). -1 \<le> tmSample s" by (simp add: d)
  from nearest_sample_is_nearest [OF buffer_demo_inv h, of 6] b' have
    "\<exists>x \<in> set (m_samples buffer_demo). (ERR_NOERROR, Some (0, True)) = (ERR_NOERROR, Some (s_ptr x, m_latestSampleTimestamp buffer_demo \<ge> 0)) \<and>
      (\<forall>s \<in> set (m_samples buffer_demo). tmSample s \<noteq> -1 \<longrightarrow> \<bar>tmSample x - max 0 6\<bar> \<le> \<bar>tmSample s - max 0 6\<bar>)"
    by blast
  ultimately show ?thesis by (auto simp: d)
qed

section \<open>Which samples are kept\<close>

lemma Update_unlocked:
  assumes "slots_ok (m_samples b)" "m_samples b = x # xs" "nLockCount x = 0" "\<forall>s \<in> set (m_samples b). tmSample s \<le> us_time y"
  shows "buffer_Update y b = (ERR_NOERROR, b\<lparr>m_samples := xs @ [x\<lparr>tmSample := us_time y, poSample := y\<rparr>],
      m_latestSampleTimestamp := us_time y\<rparr>)"
  using assms ms_insert_last [of xs "x\<lparr>tmSample := us_time y, poSample := y\<rparr>"]
  by (simp add: buffer_Update_def Let_def remove_at_def)

text \<open>
  If no sample is locked and samples arrive in the order of their times, the backlog holds the most recent
  ones: after any number of updates its content is the end of the sequence of everything it ever held, as long
  as the backlog, oldest first, and the last sample is the latest.
\<close>

theorem backlog_keeps_most_recent:
  assumes "buffer_inv b" "m_samples b \<noteq> []" "\<forall>s \<in> set (m_samples b). nLockCount s = 0"
    and "sorted (map us_time (map poSample (m_samples b) @ ys))"
  shows "\<exists>b'. buffer_run (map OpUpdate ys) b = Some b' \<and>
    map poSample (m_samples b') = drop (length ys) (map poSample (m_samples b) @ ys) \<and>
    length (m_samples b') = length (m_samples b) \<and>
    GetMostRecent b' = Some (us_time (last (map poSample (m_samples b) @ ys)))"
  using assms
proof (induction ys arbitrary: b)
  case Nil
  then have "\<forall>s \<in> set (m_samples b). tmSample s = us_time (poSample s)" by (simp add: buffer_inv_def slots_ok_def)
  with Nil show ?case by (simp add: GetMostRecent_def last_map)
next
  case (Cons y ys)
  obtain x xs where b: "m_samples b = x # xs" using Cons.prems(2) by (cases "m_samples b") auto
  have ok: "slots_ok (m_samples b)" using Cons.prems(1) by (simp add: buffer_inv_def)
  then have "\<forall>s \<in> set (m_samples b). tmSample s \<le> us_time y"
    using Cons.prems(4) by (auto simp: slots_ok_def sorted_append)
  from Update_unlocked [OF ok b _ this] Cons.prems(3) b have u: "buffer_Update y b =
      (ERR_NOERROR, b\<lparr>m_samples := xs @ [x\<lparr>tmSample := us_time y, poSample := y\<rparr>], m_latestSampleTimestamp := us_time y\<rparr>)"
    by simp
  let ?b = "b\<lparr>m_samples := xs @ [x\<lparr>tmSample := us_time y, poSample := y\<rparr>], m_latestSampleTimestamp := us_time y\<rparr>"
  have inv: "buffer_inv ?b" using Update_inv [OF Cons.prems(1), of y] u by simp
  have srt: "sorted (map us_time (map poSample (m_samples ?b) @ ys))"
    using Cons.prems(4) b by (auto simp: sorted_append)
  have unl: "\<forall>s \<in> set (m_samples ?b). nLockCount s = 0" using Cons.prems(3) b by auto
  have "m_samples ?b \<noteq> []" by simp
  from Cons.IH [OF inv this unl srt] obtain b' where "buffer_run (map OpUpdate ys) ?b = Some b'"
      "map poSample (m_samples b') = drop (length ys) (map poSample (m_samples ?b) @ ys)"
      "length (m_samples b') = length (m_samples ?b)"
      "GetMostRecent b' = Some (us_time (last (map poSample (m_samples ?b) @ ys)))"
    by blast
  then show ?case using u b by (intro exI [of _ b']) simp
qed

theorem backlog_keeps_most_recent_witness:
  "\<exists>b b'. SignalRegistered 2 [9] [0] new_sample_buffer = Some b \<and>
     buffer_run (map OpUpdate [\<lparr>us_time = 10, us_data = [1]\<rparr>, \<lparr>us_time = 20, us_data = [2]\<rparr>, \<lparr>us_time = 20, us_data = [3]\<rparr>]) b = Some b' \<and>
     map poSample (m_samples b') = [\<lparr>us_time = 20, us_data = [2]\<rparr>, \<lparr>us_time = 20, us_data = [3]\<rparr>]"
proof -
  define b where "b = the (SignalRegistered 2 [9] [0] new_sample_buffer)"
  have b: "SignalRegistered 2 [9] [0] new_sample_buffer = Some b" by (simp add: b_def SignalRegistered_def)
  have s: "map poSample (m_samples b) = [\<lparr>us_time = -1, us_data = [9]\<rparr>, \<lparr>us_time = 0, us_data = [0]\<rparr>] \<and>
      m_samples b \<noteq> [] \<and> list_all (\<lambda>s. nLockCount s = 0) (m_samples b)"
    unfolding b_def by code_simp
  from backlog_keeps_most_recent [OF SignalRegistered_inv [OF b], of "[\<lparr>us_time = 10, us_data = [1]\<rparr>, \<lparr>us_time = 20, us_data = [2]\<rparr>,
      \<lparr>us_time = 20, us_data = [3]\<rparr>]"] s b show ?thesis
    by (fastforce simp: list_all_iff simp del: buffer_run.simps)
qed

section \<open>Faults\<close>

lemma fold_ms_insert_equal:
  "\<forall>s \<in> set (xs @ acc). tmSample s = t \<Longrightarrow> fold ms_insert xs acc = acc @ xs"
proof (induction xs arbitrary: acc)
  case (Cons x xs)
  then have "ms_insert x acc = acc @ [x]" by (intro ms_insert_last) auto
  with Cons show ?case by simp
qed simp

lemma clear_samples:
  assumes "m_samples b = x # xs"
  shows "\<exists>k. buffer_clear content b = Some (k, b\<lparr>m_samples := map zero_slot xs @
      [(zero_slot x)\<lparr>tmSample := 0, poSample := \<lparr>us_time = 0, us_data = content\<rparr>\<rparr>], m_oDeletedSlots := []\<rparr>)"
proof -
  have "fold ms_insert (map zero_slot (m_samples b)) [] = map zero_slot (m_samples b)"
    using fold_ms_insert_equal [of "map zero_slot (m_samples b)" "[]" "-1"] by (auto simp: zero_slot_def)
  then show ?thesis
    using assms ms_insert_last [of "map zero_slot xs" "(zero_slot x)\<lparr>tmSample := 0, poSample := \<lparr>us_time = 0, us_data = content\<rparr>\<rparr>"]
    by (simp add: buffer_clear_def zero_slot_def)
qed

text \<open>
  Clearing the backlog, when the participant leaves the state running, does not clear the mark that a sample
  has been received. What a reader gets then is the signal's default content, at time 0, and it is handed out
  as a valid sample if and only if any sample arrived in an earlier run.
\<close>

theorem cleared_backlog_claims_valid:
  assumes "buffer_inv b" "m_samples b \<noteq> []"
  shows "\<exists>k b' p b1. buffer_clear content b = Some (k, b') \<and>
    buffer_LockDataAt 0 SS_LATEST_SAMPLE b' = Some ((ERR_NOERROR, Some (p, 0 \<le> m_latestSampleTimestamp b)), b1) \<and>
    content_of p b1 = Some \<lparr>us_time = 0, us_data = content\<rparr>"
proof -
  obtain x xs where x: "m_samples b = x # xs" using assms(2) by (cases "m_samples b") auto
  from clear_samples [OF this] obtain k where k: "buffer_clear content b = Some (k, b\<lparr>m_samples := map zero_slot xs @
      [(zero_slot x)\<lparr>tmSample := 0, poSample := \<lparr>us_time = 0, us_data = content\<rparr>\<rparr>], m_oDeletedSlots := []\<rparr>)" ..
  have "ptrs_ok (map s_ptr (x # xs) @ map s_ptr (m_oDeletedSlots b)) (b_next b)"
    using assms(1) x by (simp add: buffer_inv_def)
  then have "s_ptr x \<notin> s_ptr ` set xs" by (simp add: ptrs_ok_def)
  then have "\<forall>s \<in> set xs. s_ptr s \<noteq> s_ptr x" by (metis imageI)
  then have "find (\<lambda>s. s_ptr s = s_ptr x) (map zero_slot xs) = None"
    by (auto simp: find_None_iff zero_slot_def)
  then have "find (\<lambda>s. s_ptr s = s_ptr x) (map zero_slot xs @ ys) = find (\<lambda>s. s_ptr s = s_ptr x) ys" for ys
    by (induction xs) (auto split: if_splits)
  then show ?thesis
    unfolding k by (simp add: buffer_LockDataAt_def take_slot_def content_of_def zero_slot_def nth_append list_update_append)
qed

theorem cleared_backlog_claims_valid_witness:
  "\<exists>b' p b1. m_samples (snd (the (buffer_clear [0] buffer_demo))) = b' \<and>
    buffer_LockDataAt 0 SS_LATEST_SAMPLE (snd (the (buffer_clear [0] buffer_demo))) = Some ((ERR_NOERROR, Some (p, True)), b1) \<and>
    content_of p b1 = Some \<lparr>us_time = 0, us_data = [0]\<rparr>"
proof -
  have "m_samples buffer_demo \<noteq> [] \<and> 0 \<le> m_latestSampleTimestamp buffer_demo" by code_simp
  with cleared_backlog_claims_valid [OF buffer_demo_inv, of "[0]"] show ?thesis by fastforce
qed

text \<open>
  A wait for a sample in a time window reads before the first slot if every sample of the backlog is newer
  than the window, as whenever a backlog of one sample, the default, holds a sample that came too early.
\<close>

theorem newer_backlog_undefined:
  assumes "m_samples b \<noteq> []" "\<forall>s \<in> set (m_samples b). older_than < tmSample s"
    and "more_recent_than \<le> older_than"
  shows "WaitUntilInTimeWindow more_recent_than older_than wakes b = None"
proof -
  have "older_than < tmSample (last (m_samples b))" using assms(1,2) by simp
  moreover have "upper_bound older_than (m_samples b) = 0"
    using assms(1,2) by (cases "m_samples b") (auto simp: upper_bound_def)
  ultimately show ?thesis
    using assms(1,3) by (simp add: WaitUntilInTimeWindow_def GetMostRecent_def)
qed

theorem newer_backlog_undefined_witness:
  "WaitUntilInTimeWindow (-5) 5 [] \<lparr>m_samples = [\<lparr>tmSample = 10, s_ptr = 0, poSample = \<lparr>us_time = 10, us_data = []\<rparr>, nLockCount = 0\<rparr>],
     m_oDeletedSlots = [], m_latestSampleTimestamp = 10, b_next = 1\<rparr> = None"
  by (rule newer_backlog_undefined) simp_all

text \<open>
  A slot that still has the mark of an empty one is reused even while a reader has it locked: the content
  behind the reader's pointer changes under it.
\<close>

theorem locked_empty_slot_is_overwritten:
  assumes "buffer_inv b" "m_samples b = s # rest" "tmSample s = -1"
  shows "fst (buffer_Update y b) = ERR_NOERROR \<and> content_of (s_ptr s) (snd (buffer_Update y b)) = Some y"
proof -
  let ?b = "snd (buffer_Update y b)" and ?s = "s\<lparr>tmSample := us_time y, poSample := y\<rparr>"
  have "?s \<in> set (m_samples ?b @ m_oDeletedSlots ?b)"
    using assms(2,3) by (simp add: buffer_Update_def Let_def)
  from find_slot [OF Update_inv [OF assms(1)] this] assms(2,3) show ?thesis
    by (simp add: content_of_def buffer_Update_def Let_def)
qed

text \<open>A reader locks the empty slot of a backlog that has grown, where all samples are in its future.\<close>

theorem locked_empty_slot_is_overwritten_witness:
  "\<exists>b. b = snd (buffer_LockDataAtUpperBound 5 (the (Option.bind (SignalRegistered 1 [9] [0] new_sample_buffer)
       (buffer_run [OpUpdate \<lparr>us_time = 10, us_data = [1]\<rparr>, OpBacklog 2 [9]])))) \<and>
     nLockCount (hd (m_samples b)) = 1 \<and> content_of 1 b = Some \<lparr>us_time = -1, us_data = [9]\<rparr> \<and>
     content_of 1 (snd (buffer_Update \<lparr>us_time = 20, us_data = [2]\<rparr> b)) = Some \<lparr>us_time = 20, us_data = [2]\<rparr>"
proof -
  define b0 where "b0 = the (Option.bind (SignalRegistered 1 [9] [0] new_sample_buffer)
     (buffer_run [OpUpdate \<lparr>us_time = 10, us_data = [1]\<rparr>, OpBacklog 2 [9]]))"
  define b where "b = snd (buffer_LockDataAtUpperBound 5 b0)"
  have "Option.bind (SignalRegistered 1 [9] [0] new_sample_buffer)
      (buffer_run [OpUpdate \<lparr>us_time = 10, us_data = [1]\<rparr>, OpBacklog 2 [9]]) = Some b0"
    unfolding b0_def by (simp add: SignalRegistered_def)
  then obtain y where "SignalRegistered 1 [9] [0] new_sample_buffer = Some y"
      "buffer_run [OpUpdate \<lparr>us_time = 10, us_data = [1]\<rparr>, OpBacklog 2 [9]] y = Some b0"
    unfolding bind_eq_Some_conv by blast
  then have "buffer_inv b0" using SignalRegistered_inv buffer_run_inv by blast
  then have inv: "buffer_inv b" using buffer_step_inv [of b0 "OpLockUpper 5" b] by (simp add: b_def)
  have b: "m_samples b \<noteq> [] \<and> tmSample (hd (m_samples b)) = -1 \<and> nLockCount (hd (m_samples b)) = 1 \<and>
      s_ptr (hd (m_samples b)) = 1 \<and> content_of 1 b = Some \<lparr>us_time = -1, us_data = [9]\<rparr>"
    unfolding b_def b0_def by code_simp
  then have "m_samples b = hd (m_samples b) # tl (m_samples b)" by simp
  from locked_empty_slot_is_overwritten [OF inv this] b have
    "content_of 1 (snd (buffer_Update \<lparr>us_time = 20, us_data = [2]\<rparr> b)) = Some \<lparr>us_time = 20, us_data = [2]\<rparr>"
    by simp
  with b show ?thesis unfolding b0_def [symmetric] b_def by blast
qed

end
