(* ===== verification/Transmission.thy ===== *)
theory Transmission
  imports Wire_Format
begin

text \<open>
  The way of a data sample from the sender to the listeners of the receiver, between the user and the driver:
  \<open>cDataSample\<close>, \<open>cTransmitter\<close>, \<open>cDataReceiver\<close> and \<open>cDataListenerAdapter\<close> of
  \<open>src/transmission_adapter/\<close>, and \<open>cSignalCounter\<close> of \<open>src/data_access/\<close>, which numbers the samples.

  What is not in the repository is a field of \<open>platform\<close>: when \<open>a_util::memory::copy\<close> copies, the content of
  fresh memory, the DDL codec, and the version that the build puts into the header. Memory is a list of bytes;
  \<open>None\<close> is an access outside of it, or an allocation whose size has wrapped.
\<close>

unbundle bit_operations_syntax

section \<open>Surroundings\<close>

record platform =
  p_machine :: machine
  p_version :: byte
  copy_succeeds :: "nat \<Rightarrow> nat \<Rightarrow> bool"
  fresh_memory :: "nat \<Rightarrow> byte list"
  ddl_encode :: "byte list \<Rightarrow> byte list"
  ddl_decode :: "byte list \<Rightarrow> byte list \<Rightarrow> byte list"

text \<open>The documented behaviour: \<open>copy\<close> refuses more bytes than the destination holds; the decoder keeps to it.\<close>

definition platform_ok :: "platform \<Rightarrow> bool" where
  "platform_ok pf \<longleftrightarrow> (\<forall>d n. copy_succeeds pf d n \<longleftrightarrow> n \<le> d) \<and> (\<forall>n. length (fresh_memory pf n) = n) \<and>
     (\<forall>p old. length (ddl_decode pf p old) = length old)"

definition overwrite :: "nat \<Rightarrow> byte list \<Rightarrow> byte list \<Rightarrow> byte list" where
  "overwrite i bs mem = take i mem @ bs @ drop (i + length bs) mem"

section \<open>The data sample\<close>

record data_sample =
  ds_sync :: bool
  ds_frame :: "64 word"
  ds_number :: "16 word"
  ds_time :: "64 word"
  ds_handle :: "nat option"
  ds_memory :: "byte list"
  ds_external :: "byte list option"
  ds_size :: nat

definition new_data_sample :: data_sample where
  "new_data_sample = \<lparr>ds_sync = False, ds_frame = 0, ds_number = 0, ds_time = 0, ds_handle = None,
     ds_memory = [], ds_external = None, ds_size = 0\<rparr>"

definition GetPtr :: "data_sample \<Rightarrow> byte list" where
  "GetPtr s = (case ds_external s of None \<Rightarrow> ds_memory s | Some m \<Rightarrow> m)"

definition GetCapacity :: "data_sample \<Rightarrow> nat" where
  "GetCapacity s = length (GetPtr s)"

definition GetSize :: "data_sample \<Rightarrow> nat" where
  "GetSize s = ds_size s"

text \<open>The bytes a reader of the sample may read.\<close>

definition content :: "data_sample \<Rightarrow> byte list" where
  "content s = take (GetSize s) (GetPtr s)"

definition CopyFrom :: "platform \<Rightarrow> byte list \<Rightarrow> data_sample \<Rightarrow> fep_result \<times> data_sample" where
  "CopyFrom pf data s =
     (case ds_external s of
        Some m \<Rightarrow>
          if length data \<le> length m
          then (ERR_NOERROR, s\<lparr>ds_external := Some (if copy_succeeds pf (length m) (length data) then overwrite 0 data m else m),
                               ds_size := length data\<rparr>)
          else (ERR_MEMORY, s)
      | None \<Rightarrow> (ERR_NOERROR, s\<lparr>ds_memory := data, ds_size := length data\<rparr>))"

text \<open>Into a destination of \<open>n\<close> bytes: the bytes copied.\<close>

definition sample_CopyTo :: "nat \<Rightarrow> data_sample \<Rightarrow> fep_result \<times> byte list" where
  "sample_CopyTo n s =
     (case ds_external s of
        Some m \<Rightarrow> if n > length m then (ERR_MEMORY, []) else (ERR_NOERROR, take n m)
      | None \<Rightarrow> if ds_size s < n then (ERR_MEMORY, []) else (ERR_NOERROR, take n (ds_memory s)))"

definition SetSize :: "platform \<Rightarrow> nat \<Rightarrow> data_sample \<Rightarrow> fep_result \<times> data_sample" where
  "SetSize pf n s =
     (if ds_external s \<noteq> None then (ERR_INVALID_FUNCTION, s)
      else (ERR_NOERROR, s\<lparr>ds_memory := fresh_memory pf n, ds_size := n\<rparr>))"

definition AdaptSize :: "platform \<Rightarrow> nat \<Rightarrow> data_sample \<Rightarrow> fep_result \<times> data_sample" where
  "AdaptSize pf n s =
     (if ds_external s \<noteq> None then (ERR_INVALID_FUNCTION, s)
      else if length (ds_memory s) < n then (ERR_NOERROR, s\<lparr>ds_memory := fresh_memory pf n, ds_size := n\<rparr>)
      else (ERR_NOERROR, s\<lparr>ds_size := n\<rparr>))"

definition Attach :: "byte list \<Rightarrow> data_sample \<Rightarrow> data_sample" where
  "Attach m s = s\<lparr>ds_memory := [], ds_external := Some m, ds_size := length m\<rparr>"

definition Detach :: "data_sample \<Rightarrow> fep_result \<times> data_sample" where
  "Detach s =
     (if ds_external s \<noteq> None then (ERR_NOERROR, s\<lparr>ds_external := None, ds_size := 0\<rparr>) else (ERR_MEMORY, s))"

section \<open>Numbering\<close>

record signal_counter =
  sc_prev_sync :: bool
  sc_frame :: "64 word"
  sc_number :: "16 word"

definition ConfigureSampleCounter :: signal_counter where
  "ConfigureSampleCounter = \<lparr>sc_prev_sync = True, sc_frame = 1, sc_number = 0\<rparr>"

definition number_sample :: "signal_counter \<Rightarrow> data_sample \<Rightarrow> data_sample" where
  "number_sample c s = s\<lparr>ds_frame := sc_frame c, ds_number := sc_number c\<rparr>"

definition count_sample :: "fep_result \<Rightarrow> data_sample \<Rightarrow> signal_counter \<Rightarrow> signal_counter" where
  "count_sample nResult s c =
     (let c = c\<lparr>sc_prev_sync := ds_sync s\<rparr>
      in if isOk nResult then
           (if sc_prev_sync c then c\<lparr>sc_number := 0, sc_frame := sc_frame c + 1\<rparr> else c\<lparr>sc_number := sc_number c + 1\<rparr>)
         else c)"

section \<open>The transmitter\<close>

record transmitter =
  tx_buffer :: "byte list"
  tx_serialized_attached :: bool
  tx_raw :: bool
  tx_disable_ddl :: bool
  tx_signal_size :: nat

datatype tx_event = Transmit "byte list" | TxWrongSampleSize | TxFailed

definition DEFAULT_SIZE_FOR_RAW_SIGNALS :: nat where "DEFAULT_SIZE_FOR_RAW_SIGNALS = 62 * 1024"

definition signal_size :: "nat \<Rightarrow> nat" where
  "signal_size n = (if n = 0 then DEFAULT_SIZE_FOR_RAW_SIGNALS else n)"

definition create_transmitter :: "platform \<Rightarrow> bool \<Rightarrow> bool \<Rightarrow> nat \<Rightarrow> transmitter" where
  "create_transmitter pf raw disable_ddl szSampleSize =
     \<lparr>tx_buffer = fresh_memory pf (sizeof_cFepDataHeader + signal_size szSampleSize), tx_serialized_attached = True,
      tx_raw = raw, tx_disable_ddl = disable_ddl, tx_signal_size = signal_size szSampleSize\<rparr>"

text \<open>The minor version is not written: it is what the memory holds.\<close>

definition fill_header :: "platform \<Rightarrow> bool \<Rightarrow> data_sample \<Rightarrow> byte list \<Rightarrow> byte list" where
  "fill_header pf disable_ddl s buf =
     overwrite 0 (header_bytes (p_machine pf)
       \<lparr>m_nMajorVersion = p_version pf, m_nMinorVersion = buf ! 1,
        m_nSerAndByteOrderFlags = (if disable_ddl then SERIALIZATION_RAW else SERIALIZATION_DDL) OR
          GetLocalSystemByteorder (p_machine pf),
        m_nSync = of_bool (ds_sync s), m_nUnused = 0, m_nSampleNumber = ds_number s, m_nFrameId = ds_frame s,
        m_nSendTimeStamp = ds_time s\<rparr>) buf"

definition FillFepDataHeader ::
    "platform \<Rightarrow> data_sample \<Rightarrow> transmitter \<Rightarrow> fep_result \<times> transmitter \<times> tx_event list" where
  "FillFepDataHeader pf s tx =
     (if sizeof_cFepDataHeader + GetSize s \<noteq> length (tx_buffer tx) then
        (if tx_raw tx then
           let buf = fresh_memory pf (GetSize s + sizeof_cFepDataHeader)
           in (ERR_NOERROR, tx\<lparr>tx_buffer := fill_header pf (tx_disable_ddl tx) s buf, tx_serialized_attached := False\<rparr>, [])
         else (ERR_NOT_SUPPORTED, tx, [TxWrongSampleSize]))
      else (ERR_NOERROR, tx\<lparr>tx_buffer := fill_header pf (tx_disable_ddl tx) s (tx_buffer tx)\<rparr>, []))"

text \<open>
  \<open>TransmitData\<close> writes the payload before it looks at the result. The size that is passed to \<open>copy\<close> for the
  destination is that of the whole buffer, while the destination begins behind the header.
\<close>

definition write_payload :: "platform \<Rightarrow> data_sample \<Rightarrow> transmitter \<Rightarrow> transmitter option" where
  "write_payload pf s tx =
     (if \<not> tx_disable_ddl tx then
        let bytes = ddl_encode pf (content s)
        in if tx_serialized_attached tx \<and> length bytes \<le> tx_signal_size tx
           then Some (tx\<lparr>tx_buffer := overwrite sizeof_cFepDataHeader bytes (tx_buffer tx)\<rparr>) else None
      else if \<not> copy_succeeds pf (length (tx_buffer tx)) (length (content s)) then Some tx
      else if sizeof_cFepDataHeader + length (content s) \<le> length (tx_buffer tx)
      then Some (tx\<lparr>tx_buffer := overwrite sizeof_cFepDataHeader (content s) (tx_buffer tx)\<rparr>)
      else None)"

definition TransmitData ::
    "platform \<Rightarrow> fep_result \<Rightarrow> data_sample \<Rightarrow> transmitter \<Rightarrow> (fep_result \<times> transmitter \<times> tx_event list) option" where
  "TransmitData pf driver_result s tx =
     (let (nResult, tx, es) = FillFepDataHeader pf s tx
      in case write_payload pf s tx of
           None \<Rightarrow> None
         | Some tx \<Rightarrow>
             if isFailed nResult then Some (nResult, tx, es)
             else if isFailed driver_result then Some (ERR_FAILED, tx, es @ [TxFailed])
             else Some (ERR_NOERROR, tx, es @ [Transmit (tx_buffer tx)]))"

definition SendNow ::
    "platform \<Rightarrow> fep_result \<Rightarrow> data_sample \<Rightarrow> signal_counter \<times> transmitter \<Rightarrow>
     (fep_result \<times> (signal_counter \<times> transmitter) \<times> tx_event list) option" where
  "SendNow pf driver_result s = (\<lambda>(c, tx).
     (case TransmitData pf driver_result (number_sample c s) tx of
        None \<Rightarrow> None
      | Some (nResult, tx, es) \<Rightarrow> Some (nResult, (count_sample nResult s c, tx), es)))"

section \<open>The receiver\<close>

record container =
  szCapacity :: nat
  c_memory :: "byte list"
  c_size :: nat

record receiver =
  rx_disable_ddl :: bool
  rx_raw :: bool
  rx_signal_size :: nat
  rx_current :: data_sample
  rx_prealloc :: "container list"
  rx_queue :: "container list"
  rx_listeners :: "nat list"

datatype rx_event =
    JobEnqueued
  | UpdateListener nat data_sample
  | RxWrongSampleSize
  | RxWrongVersion
  | RxCorruptHeader
  | RxWrongSerialization

definition new_container :: "platform \<Rightarrow> nat \<Rightarrow> container" where
  "new_container pf n = \<lparr>szCapacity = n, c_memory = fresh_memory pf n, c_size = n\<rparr>"

text \<open>\<open>Create\<close>; with DDL the current sample begins with the default values of the description.\<close>

definition create_receiver :: "platform \<Rightarrow> bool \<Rightarrow> bool \<Rightarrow> nat \<Rightarrow> byte list \<Rightarrow> receiver" where
  "create_receiver pf raw disable_ddl szSampleSize defaults =
     (let n = signal_size szSampleSize;
          ddl = (\<not> raw \<and> \<not> (disable_ddl \<and> n > 0));
          current = snd (SetSize pf n new_data_sample)
      in \<lparr>rx_disable_ddl = disable_ddl, rx_raw = raw, rx_signal_size = n,
          rx_current = (if ddl then current\<lparr>ds_memory := defaults\<rparr> else current)\<lparr>ds_handle := Some 0\<rparr>,
          rx_prealloc = replicate (if ddl then 256 else 20) (new_container pf (n + sizeof_cFepDataHeader)),
          rx_queue = [], rx_listeners = []\<rparr>)"

definition FlushQueue :: "receiver \<Rightarrow> receiver" where
  "FlushQueue r = r\<lparr>rx_prealloc := rx_prealloc r @ rx_queue r, rx_queue := []\<rparr>"

definition EnqueueReceivedData :: "platform \<Rightarrow> byte list \<Rightarrow> receiver \<Rightarrow> receiver \<times> rx_event list" where
  "EnqueueReceivedData pf data r =
     (case rx_prealloc r of
        [] \<Rightarrow> (r, [])
      | c # rest \<Rightarrow>
          let r = r\<lparr>rx_prealloc := rest\<rparr>;
              c = (if rx_raw r \<and> length data > szCapacity c
                   then c\<lparr>c_memory := c_memory c @ fresh_memory pf (length data - szCapacity c), szCapacity := length data\<rparr>
                   else c)
          in if \<not> rx_raw r \<and> length data > rx_signal_size r + sizeof_cFepDataHeader then (r, [RxWrongSampleSize])
             else if copy_succeeds pf (szCapacity c) (length data)
             then (r\<lparr>rx_queue := rx_queue r @ [c\<lparr>c_memory := overwrite 0 data (c_memory c), c_size := length data\<rparr>]\<rparr>,
                   [JobEnqueued])
             else (r\<lparr>rx_prealloc := rest @ [c]\<rparr>, []))"

definition RegisterListener :: "nat option \<Rightarrow> receiver \<Rightarrow> fep_result \<times> receiver" where
  "RegisterListener pListener r =
     (case pListener of
        None \<Rightarrow> (ERR_NOERROR, r)
      | Some l \<Rightarrow> if l \<in> set (rx_listeners r) then (ERR_FAILED, r)
                  else (ERR_NOERROR, r\<lparr>rx_listeners := rx_listeners r @ [l]\<rparr>))"

text \<open>The result is made from the \<open>bool\<close> that tells whether the listener has been found.\<close>

definition UnregisterListener :: "(bool \<Rightarrow> fep_result) \<Rightarrow> nat \<Rightarrow> receiver \<Rightarrow> fep_result \<times> receiver" where
  "UnregisterListener result_of_bool l r =
     (let bFound = (l \<in> set (rx_listeners r));
          nRes = result_of_bool bFound
      in (if isFailed nRes then ERR_NOT_FOUND else nRes, r\<lparr>rx_listeners := remove1 l (rx_listeners r)\<rparr>))"

definition UpdateListeners :: "receiver \<Rightarrow> rx_event list" where
  "UpdateListeners r = map (\<lambda>l. UpdateListener l (rx_current r)) (rx_listeners r)"

text \<open>The payload by the serialization the header names; a failure drops the packet.\<close>

definition read_payload ::
    "platform \<Rightarrow> byte \<Rightarrow> byte \<Rightarrow> byte list \<Rightarrow> receiver \<Rightarrow> fep_result \<times> receiver \<times> rx_event list" where
  "read_payload pf nByteOrderFlag nSerializationFlag payload r =
     (let cur = rx_current r in
      if nSerializationFlag = SERIALIZATION_DDL then
        (if rx_disable_ddl r then (ERR_INVALID_FLAGS, r, [RxWrongSerialization])
         else (ERR_NOERROR, r\<lparr>rx_current := cur\<lparr>ds_memory := ddl_decode pf payload (ds_memory cur)\<rparr>\<rparr>, []))
      else if nSerializationFlag = SERIALIZATION_RAW then
        (if rx_disable_ddl r \<and> nByteOrderFlag = GetLocalSystemByteorder (p_machine pf)
         then (ERR_NOERROR,
               if copy_succeeds pf (GetCapacity cur) (length payload)
               then r\<lparr>rx_current := cur\<lparr>ds_memory := overwrite 0 payload (ds_memory cur)\<rparr>\<rparr> else r, [])
         else (ERR_INVALID_FLAGS, r, [RxWrongSerialization]))
      else (ERR_NOERROR, r, []))"

text \<open>
  \<open>Process\<close>: the header is read from the container whatever the size of the packet is. \<open>None\<close>: the size of a
  variable signal's packet that is shorter than the header wraps.
\<close>

definition Process :: "platform \<Rightarrow> container \<Rightarrow> receiver \<Rightarrow> (fep_result \<times> receiver \<times> rx_event list) option" where
  "Process pf c r =
     (let h = header_at (p_machine pf) (c_memory c);
          flags = m_nSerAndByteOrderFlags h;
          nByteOrderFlag = GetByteOrderFlag flags;
          nSerializationFlag = GetSerializationFlag flags;
          convert = (\<lambda>w. ConvertToCorrectByteorder (p_machine pf) w nByteOrderFlag)
      in if m_nMajorVersion h \<noteq> p_version pf then Some (ERR_INVALID_VERSION, r, [RxWrongVersion])
         else if nByteOrderFlag = 0 \<or> nSerializationFlag = 0 then Some (ERR_INVALID_FLAGS, r, [RxCorruptHeader])
         else
           let differs = (sizeof_cFepDataHeader + GetSize (rx_current r) \<noteq> c_size c)
           in if differs \<and> \<not> rx_raw r then Some (ERR_INVALID_FLAGS, r, [RxCorruptHeader])
              else if differs \<and> c_size c < sizeof_cFepDataHeader then None
              else
                let r = (if differs
                         then r\<lparr>rx_current := snd (AdaptSize pf (c_size c - sizeof_cFepDataHeader) (rx_current r))\<rparr> else r);
                    payload = take (c_size c - sizeof_cFepDataHeader) (drop sizeof_cFepDataHeader (c_memory c));
                    (nResult, r, es) = read_payload pf nByteOrderFlag nSerializationFlag payload r
                in if isFailed nResult then Some (nResult, r, es)
                   else
                     let r = r\<lparr>rx_current := (rx_current r)\<lparr>ds_sync := (m_nSync h \<noteq> 0), ds_frame := convert (m_nFrameId h),
                               ds_number := ConvertToCorrectByteorder (p_machine pf) (m_nSampleNumber h) nByteOrderFlag,
                               ds_time := convert (m_nSendTimeStamp h)\<rparr>\<rparr>
                     in Some (ERR_NOERROR, r, es @ UpdateListeners r))"

text \<open>
  \<open>DoJob\<close> of the worker that gets the receiver's lock: one packet after the other is taken from the queue, processed, and its
  container given back, until the queue is empty. Packets can arrive between any two of these steps; \<open>DoJob\<close> is the loop when
  none does.
\<close>

definition job_step :: "platform \<Rightarrow> receiver \<Rightarrow> (receiver \<times> rx_event list) option" where
  "job_step pf r =
     (case rx_queue r of
        [] \<Rightarrow> Some (r, [])
      | c # cs \<Rightarrow>
          (case Process pf c (r\<lparr>rx_queue := cs\<rparr>) of
             None \<Rightarrow> None
           | Some (_, r, es) \<Rightarrow> Some (r\<lparr>rx_prealloc := rx_prealloc r @ [c]\<rparr>, es)))"

fun process_queue :: "platform \<Rightarrow> nat \<Rightarrow> receiver \<Rightarrow> (receiver \<times> rx_event list) option" where
  "process_queue pf 0 r = Some (r, [])"
| "process_queue pf (Suc n) r =
     (case job_step pf r of
        None \<Rightarrow> None
      | Some (r, es) \<Rightarrow> map_option (\<lambda>(r, es'). (r, es @ es')) (process_queue pf n r))"

definition DoJob :: "platform \<Rightarrow> receiver \<Rightarrow> (receiver \<times> rx_event list) option" where
  "DoJob pf r = process_queue pf (length (rx_queue r)) r"

section \<open>The watch for missing samples\<close>

text \<open>
  The number of the previous sample is kept in 64 bits in the code, but it is always one of 16 bits: adding one does
  not wrap. The frame id does. The 64-bit count of the gaps is taken as unbounded.
\<close>

record listener_adapter =
  m_nMissedDataSamples :: nat
  m_bPrevSyncFlag :: bool
  m_nPrevFrameId :: "64 word"
  m_nPrevSampleNumber :: "16 word"

definition new_listener_adapter :: listener_adapter where
  "new_listener_adapter = \<lparr>m_nMissedDataSamples = 0, m_bPrevSyncFlag = True, m_nPrevFrameId = 0, m_nPrevSampleNumber = 0\<rparr>"

definition misses :: "data_sample \<Rightarrow> listener_adapter \<Rightarrow> bool" where
  "misses s a \<longleftrightarrow> ds_frame s > m_nPrevFrameId a + 1 \<or> unat (ds_number s) > unat (m_nPrevSampleNumber a) + 1 \<or>
     ds_frame s > m_nPrevFrameId a \<and> \<not> m_bPrevSyncFlag a"

definition adapter_Update :: "data_sample \<Rightarrow> listener_adapter \<Rightarrow> listener_adapter" where
  "adapter_Update s a =
     a\<lparr>m_nMissedDataSamples := m_nMissedDataSamples a + of_bool (misses s a), m_bPrevSyncFlag := ds_sync s,
       m_nPrevFrameId := ds_frame s, m_nPrevSampleNumber := ds_number s\<rparr>"

section \<open>From the sender to the listeners\<close>

lemma length_overwrite [simp]: "i + length bs \<le> length mem \<Longrightarrow> length (overwrite i bs mem) = length mem"
  by (simp add: overwrite_def)

lemma overwrite_0: "overwrite 0 bs mem = bs @ drop (length bs) mem"
  by (simp add: overwrite_def)

definition sample_ok :: "data_sample \<Rightarrow> bool" where
  "sample_ok s \<longleftrightarrow> GetSize s \<le> GetCapacity s"

lemma length_content: "sample_ok s \<Longrightarrow> length (content s) = GetSize s"
  by (simp add: sample_ok_def content_def GetCapacity_def)

definition container_ok :: "nat \<Rightarrow> container \<Rightarrow> bool" where
  "container_ok n c \<longleftrightarrow> szCapacity c = length (c_memory c) \<and> n + sizeof_cFepDataHeader \<le> szCapacity c"

definition receiver_ok :: "receiver \<Rightarrow> bool" where
  "receiver_ok r \<longleftrightarrow> ds_external (rx_current r) = None \<and> ds_size (rx_current r) \<le> length (ds_memory (rx_current r)) \<and>
     (\<not> rx_raw r \<longrightarrow> ds_size (rx_current r) = rx_signal_size r) \<and>
     (\<forall>c \<in> set (rx_prealloc r @ rx_queue r). container_ok (rx_signal_size r) c)"

text \<open>What the transmitter puts on the bus: the header and the content, with serialization turned off.\<close>

definition packet :: "platform \<Rightarrow> byte \<Rightarrow> data_sample \<Rightarrow> byte list" where
  "packet pf minor s = header_bytes (p_machine pf)
     \<lparr>m_nMajorVersion = p_version pf, m_nMinorVersion = minor,
      m_nSerAndByteOrderFlags = SERIALIZATION_RAW OR GetLocalSystemByteorder (p_machine pf),
      m_nSync = of_bool (ds_sync s), m_nUnused = 0, m_nSampleNumber = ds_number s, m_nFrameId = ds_frame s,
      m_nSendTimeStamp = ds_time s\<rparr> @ content s"

lemma length_packet: "sample_ok s \<Longrightarrow> length (packet pf minor s) = sizeof_cFepDataHeader + GetSize s"
  by (simp add: packet_def length_content)

lemma overwrite_header_content:
  assumes "length h = n" "length buf = n + length d"
  shows "overwrite n d (overwrite 0 h buf) = h @ d"
  using assms by (simp add: overwrite_def)

lemma transmit_packet:
  assumes pf: "platform_ok pf" and s: "sample_ok s" and tx: "tx_disable_ddl tx"
    "tx_raw tx \<or> length (tx_buffer tx) = sizeof_cFepDataHeader + GetSize s"
  shows "\<exists>minor. TransmitData pf ERR_NOERROR s tx =
    Some (ERR_NOERROR, tx\<lparr>tx_buffer := packet pf minor s,
      tx_serialized_attached := tx_serialized_attached tx \<and> length (tx_buffer tx) = sizeof_cFepDataHeader + GetSize s\<rparr>,
      [Transmit (packet pf minor s)])"
proof -
  define buf where "buf = (if sizeof_cFepDataHeader + GetSize s \<noteq> length (tx_buffer tx)
    then fresh_memory pf (GetSize s + sizeof_cFepDataHeader) else tx_buffer tx)"
  have len: "length buf = sizeof_cFepDataHeader + GetSize s"
    using pf by (auto simp: buf_def platform_ok_def)
  define tx1 where "tx1 = tx\<lparr>tx_buffer := fill_header pf True s buf,
      tx_serialized_attached := tx_serialized_attached tx \<and> length (tx_buffer tx) = sizeof_cFepDataHeader + GetSize s\<rparr>"
  have 1: "FillFepDataHeader pf s tx = (ERR_NOERROR, tx1, [])"
    using tx by (auto simp: FillFepDataHeader_def tx1_def buf_def Let_def)
  have "length (fill_header pf True s buf) = sizeof_cFepDataHeader + GetSize s"
    using len by (simp add: fill_header_def)
  then have 2: "write_payload pf s tx1 =
      Some (tx1\<lparr>tx_buffer := overwrite sizeof_cFepDataHeader (content s) (fill_header pf True s buf)\<rparr>)"
    using tx(1) pf s by (simp add: write_payload_def tx1_def platform_ok_def length_content)
  have "overwrite sizeof_cFepDataHeader (content s) (fill_header pf True s buf) = packet pf (buf ! 1) s"
    unfolding fill_header_def packet_def by (simp add: overwrite_header_content length_content [OF s] len)
  with 1 2 show ?thesis
    by (intro exI [of _ "buf ! 1"]) (simp add: TransmitData_def tx1_def)
qed

lemma enqueue_packet:
  assumes pf: "platform_ok pf" and r: "receiver_ok r" "rx_prealloc r = c # rest"
    and n: "rx_raw r \<or> length bs \<le> rx_signal_size r + sizeof_cFepDataHeader"
  shows "\<exists>c'. EnqueueReceivedData pf bs r = (r\<lparr>rx_prealloc := rest, rx_queue := rx_queue r @ [c']\<rparr>, [JobEnqueued]) \<and>
    take (length bs) (c_memory c') = bs \<and> c_size c' = length bs \<and> container_ok (rx_signal_size r) c'"
proof -
  have c: "szCapacity c = length (c_memory c)" "rx_signal_size r + sizeof_cFepDataHeader \<le> szCapacity c"
    using r(1,2) by (simp_all add: receiver_ok_def container_ok_def)
  show ?thesis
  proof (cases "rx_raw r \<and> length bs > szCapacity c")
    case True
    with c r(2) pf show ?thesis
      by (auto simp: EnqueueReceivedData_def platform_ok_def overwrite_0 container_ok_def)
  next
    case False
    with c r(2) pf n show ?thesis
      by (auto simp: EnqueueReceivedData_def platform_ok_def overwrite_0 container_ok_def)
  qed
qed

text \<open>The sample as the receiver's listeners see it.\<close>

definition same_sample :: "data_sample \<Rightarrow> data_sample \<Rightarrow> bool" where
  "same_sample s s' \<longleftrightarrow> content s' = content s \<and> ds_sync s' = ds_sync s \<and> ds_frame s' = ds_frame s \<and>
     ds_number s' = ds_number s \<and> ds_time s' = ds_time s"

lemma raw_flags:
  "GetByteOrderFlag (SERIALIZATION_RAW OR GetLocalSystemByteorder mach) = GetLocalSystemByteorder mach"
  "GetSerializationFlag (SERIALIZATION_RAW OR GetLocalSystemByteorder mach) = SERIALIZATION_RAW"
  "GetLocalSystemByteorder mach \<noteq> 0" "SERIALIZATION_RAW \<noteq> 0" "SERIALIZATION_RAW \<noteq> SERIALIZATION_DDL"
  by (cases mach; simp add: local_byteorder GetByteOrderFlag_def GetSerializationFlag_def SERIALIZATION_RAW_def
      SERIALIZATION_DDL_def SERIALIZATION_MASK_def BYTEORDER_LE_def BYTEORDER_BE_def BYTEORDER_MASK_def)+

lemma process_packet:
  assumes pf: "platform_ok pf" "p_machine pf' = p_machine pf" "p_version pf' = p_version pf"
    and r: "receiver_ok r" "rx_disable_ddl r" and s: "sample_ok s"
    and c: "take (c_size c) (c_memory c) = packet pf' minor s" "c_size c = sizeof_cFepDataHeader + GetSize s"
    and n: "rx_raw r \<or> GetSize s = rx_signal_size r"
  shows "\<exists>cur. Process pf c r = Some (ERR_NOERROR, r\<lparr>rx_current := cur\<rparr>, map (\<lambda>l. UpdateListener l cur) (rx_listeners r)) \<and>
    same_sample s cur \<and> receiver_ok (r\<lparr>rx_current := cur\<rparr>)"
proof -
  let ?mach = "p_machine pf" and ?cur = "rx_current r"
  define h where "h = \<lparr>m_nMajorVersion = p_version pf, m_nMinorVersion = minor,
      m_nSerAndByteOrderFlags = SERIALIZATION_RAW OR GetLocalSystemByteorder ?mach,
      m_nSync = of_bool (ds_sync s), m_nUnused = 0, m_nSampleNumber = ds_number s, m_nFrameId = ds_frame s,
      m_nSendTimeStamp = ds_time s\<rparr>"
  have mem: "c_memory c = header_bytes ?mach h @ content s @ drop (c_size c) (c_memory c)"
    using append_take_drop_id [of "c_size c" "c_memory c"] c(1) pf(2,3) by (simp add: packet_def h_def)
  have head: "header_at ?mach (c_memory c) = h"
    by (subst mem) (simp add: header_at_bytes load_store_word h_def)
  have payload: "take (c_size c - sizeof_cFepDataHeader) (drop sizeof_cFepDataHeader (c_memory c)) = content s"
    by (subst mem) (simp add: c(2) length_content [OF s])
  have cur: "ds_external ?cur = None" "ds_size ?cur \<le> length (ds_memory ?cur)" "\<not> rx_raw r \<longrightarrow> ds_size ?cur = rx_signal_size r"
    using r(1) by (simp_all add: receiver_ok_def)
  define cur1 where "cur1 = (if sizeof_cFepDataHeader + GetSize ?cur \<noteq> c_size c
      then snd (AdaptSize pf (c_size c - sizeof_cFepDataHeader) ?cur) else ?cur)"
  have cur1: "ds_external cur1 = None" "ds_size cur1 = GetSize s" "GetSize s \<le> length (ds_memory cur1)"
    using cur pf(1) c(2) by (auto simp: cur1_def AdaptSize_def GetSize_def platform_ok_def)
  define cur2 where "cur2 = cur1\<lparr>ds_memory := overwrite 0 (content s) (ds_memory cur1), ds_sync := ds_sync s,
      ds_frame := ds_frame s, ds_number := ds_number s, ds_time := ds_time s\<rparr>"
  have "length (content s) \<le> length (ds_memory cur1)" using cur1(3) length_content [OF s] by simp
  then have same: "same_sample s cur2" "ds_external cur2 = None" "ds_size cur2 = GetSize s"
      "length (ds_memory cur2) = length (ds_memory cur1)"
    using cur1 length_content [OF s]
    by (simp_all add: same_sample_def cur2_def content_def GetPtr_def GetSize_def overwrite_0)
  have copies: "copy_succeeds pf (GetCapacity cur1) (length (content s))"
    using pf(1) cur1 length_content [OF s] by (simp add: platform_ok_def GetCapacity_def GetPtr_def)
  have "Process pf c r = Some (ERR_NOERROR, r\<lparr>rx_current := cur2\<rparr>, map (\<lambda>l. UpdateListener l cur2) (rx_listeners r))"
  proof -
    have diff: "\<not> (sizeof_cFepDataHeader + GetSize ?cur \<noteq> c_size c \<and> \<not> rx_raw r)"
      using n cur(3) c(2) by (auto simp: GetSize_def)
    have r1: "(if sizeof_cFepDataHeader + GetSize ?cur \<noteq> c_size c
        then r\<lparr>rx_current := snd (AdaptSize pf (c_size c - sizeof_cFepDataHeader) ?cur)\<rparr> else r) = r\<lparr>rx_current := cur1\<rparr>"
      by (simp add: cur1_def)
    have "read_payload pf (GetLocalSystemByteorder ?mach) SERIALIZATION_RAW (content s) (r\<lparr>rx_current := cur1\<rparr>) =
        (ERR_NOERROR, r\<lparr>rx_current := cur1\<lparr>ds_memory := overwrite 0 (content s) (ds_memory cur1)\<rparr>\<rparr>, [])"
      using r(2) copies by (simp add: read_payload_def raw_flags Let_def)
    then show ?thesis
      using diff c(2)
      unfolding Process_def Let_def head payload r1
      by (simp add: h_def raw_flags ConvertToCorrectByteorder_def UpdateListeners_def cur2_def)
  qed
  moreover have "receiver_ok (r\<lparr>rx_current := cur2\<rparr>)"
    using r(1) same cur1(3) n unfolding receiver_ok_def by auto
  ultimately show ?thesis using same(1) by blast
qed


text \<open>One sample through a receiver whose queue is empty, and back to such a state.\<close>

definition receives :: "platform \<Rightarrow> byte list \<Rightarrow> receiver \<Rightarrow> receiver \<Rightarrow> rx_event list \<Rightarrow> bool" where
  "receives pf bs r r' es \<longleftrightarrow> DoJob pf (fst (EnqueueReceivedData pf bs r)) = Some (r', es)"

lemma receive_packet:
  assumes pf: "platform_ok pf" "p_machine pf' = p_machine pf" "p_version pf' = p_version pf"
    and r: "receiver_ok r" "rx_disable_ddl r" "rx_queue r = []" "rx_prealloc r \<noteq> []" and s: "sample_ok s"
    and n: "rx_raw r \<or> GetSize s = rx_signal_size r"
  shows "\<exists>r' cur. receives pf (packet pf' minor s) r r' (map (\<lambda>l. UpdateListener l cur) (rx_listeners r)) \<and>
    same_sample s cur \<and> receiver_ok r' \<and> rx_disable_ddl r' \<and> rx_queue r' = [] \<and> rx_prealloc r' \<noteq> [] \<and>
    rx_listeners r' = rx_listeners r \<and> rx_raw r' = rx_raw r \<and> rx_signal_size r' = rx_signal_size r"
proof -
  let ?bs = "packet pf' minor s"
  have len: "length ?bs = sizeof_cFepDataHeader + GetSize s" using s by (rule length_packet)
  obtain c rest where c: "rx_prealloc r = c # rest" using r(4) by (cases "rx_prealloc r") auto
  have "rx_raw r \<or> length ?bs \<le> rx_signal_size r + sizeof_cFepDataHeader" using n len by auto
  from enqueue_packet [OF pf(1) r(1) c this] obtain c' where
    e: "EnqueueReceivedData pf ?bs r = (r\<lparr>rx_prealloc := rest, rx_queue := [c']\<rparr>, [JobEnqueued])"
      "take (length ?bs) (c_memory c') = ?bs" "c_size c' = length ?bs" "container_ok (rx_signal_size r) c'" unfolding r(3) by auto
  let ?r = "r\<lparr>rx_prealloc := rest, rx_queue := []\<rparr>"
  have ok: "receiver_ok ?r" using r(1) c e(4) unfolding receiver_ok_def by simp
  have "take (c_size c') (c_memory c') = ?bs" "c_size c' = sizeof_cFepDataHeader + GetSize s" using e(2,3) len by simp_all
  from process_packet [OF pf ok _ s this] r(2) n obtain cur where
    p: "Process pf c' ?r = Some (ERR_NOERROR, ?r\<lparr>rx_current := cur\<rparr>, map (\<lambda>l. UpdateListener l cur) (rx_listeners r))"
      "same_sample s cur" "receiver_ok (?r\<lparr>rx_current := cur\<rparr>)" by auto
  let ?r' = "?r\<lparr>rx_current := cur, rx_prealloc := rest @ [c']\<rparr>"
  have "receives pf ?bs r ?r' (map (\<lambda>l. UpdateListener l cur) (rx_listeners r))"
    using p(1) by (simp add: receives_def e(1) DoJob_def job_step_def)
  moreover have "receiver_ok ?r'" using p(3) e(4) unfolding receiver_ok_def by auto
  ultimately show ?thesis using p(2) r(2) by (intro exI [of _ ?r'] exI [of _ cur]) simp
qed

section \<open>Streams of samples\<close>

text \<open>
  A sender, a bus that loses the marked samples, and a receiver that works on each packet before the next one
  arrives. \<open>pf'\<close> is the sender's platform, \<open>pf\<close> the receiver's.
\<close>

fun transfer ::
    "platform \<Rightarrow> platform \<Rightarrow> (data_sample \<times> bool) list \<Rightarrow> signal_counter \<times> transmitter \<Rightarrow> receiver \<Rightarrow>
     (receiver \<times> rx_event list) option" where
  "transfer pf' pf [] cx r = Some (r, [])"
| "transfer pf' pf ((s, lost) # ss) cx r =
     (case SendNow pf' ERR_NOERROR s cx of
        Some (nResult, cx', [Transmit bs]) \<Rightarrow>
          if lost then transfer pf' pf ss cx' r
          else
            (case DoJob pf (fst (EnqueueReceivedData pf bs r)) of
               None \<Rightarrow> None
             | Some (r, es) \<Rightarrow> map_option (\<lambda>(r, es'). (r, es @ es')) (transfer pf' pf ss cx' r))
      | _ \<Rightarrow> None)"

text \<open>The samples as the counter numbers them.\<close>

fun number_all :: "signal_counter \<Rightarrow> data_sample list \<Rightarrow> data_sample list" where
  "number_all c [] = []"
| "number_all c (s # ss) = number_sample c s # number_all (count_sample ERR_NOERROR s c) ss"

definition arrived :: "('a \<times> bool) list \<Rightarrow> 'a list" where
  "arrived xs = map fst (filter (\<lambda>x. \<not> snd x) xs)"

lemma length_number_all [simp]: "length (number_all c ss) = length ss"
  by (induction ss arbitrary: c) auto

lemma number_sample_simps [simp]:
  "GetSize (number_sample c s) = GetSize s" "content (number_sample c s) = content s"
  "sample_ok (number_sample c s) = sample_ok s" "ds_sync (number_sample c s) = ds_sync s"
  "ds_frame (number_sample c s) = sc_frame c" "ds_number (number_sample c s) = sc_number c"
  "ds_time (number_sample c s) = ds_time s"
  by (simp_all add: number_sample_def GetSize_def content_def GetPtr_def sample_ok_def GetCapacity_def split: option.splits)

lemma count_sample_simps [simp]:
  "sc_frame (count_sample ERR_NOERROR s c) = (if ds_sync s then sc_frame c + 1 else sc_frame c)"
  "sc_number (count_sample ERR_NOERROR s c) = (if ds_sync s then 0 else sc_number c + 1)"
  "sc_prev_sync (count_sample ERR_NOERROR s c) = ds_sync s"
  by (simp_all add: count_sample_def isOk_def Let_def)

lemma content_number_all: "i < length ss \<Longrightarrow> content (number_all c ss ! i) = content (ss ! i)"
proof (induction ss arbitrary: c i)
  case (Cons s ss)
  then show ?case by (cases i) simp_all
qed simp

definition tx_fits :: "transmitter \<Rightarrow> data_sample \<Rightarrow> bool" where
  "tx_fits tx s \<longleftrightarrow> sample_ok s \<and> (tx_raw tx \<or> GetSize s = tx_signal_size tx)"

definition tx_ok :: "transmitter \<Rightarrow> bool" where
  "tx_ok tx \<longleftrightarrow> tx_disable_ddl tx \<and> (tx_raw tx \<or> length (tx_buffer tx) = sizeof_cFepDataHeader + tx_signal_size tx)"

lemma send_packet:
  assumes pf: "platform_ok pf" and tx: "tx_ok tx" "tx_fits tx s"
  shows "\<exists>minor tx'. SendNow pf ERR_NOERROR s (c, tx) =
    Some (ERR_NOERROR, (count_sample ERR_NOERROR s c, tx'), [Transmit (packet pf minor (number_sample c s))]) \<and>
    tx_ok tx' \<and> tx_raw tx' = tx_raw tx \<and> tx_signal_size tx' = tx_signal_size tx"
proof -
  have s: "sample_ok (number_sample c s)" using tx(2) by (simp add: tx_fits_def)
  have "tx_disable_ddl tx" "tx_raw tx \<or> length (tx_buffer tx) = sizeof_cFepDataHeader + GetSize (number_sample c s)"
    using tx by (auto simp: tx_ok_def tx_fits_def)
  from transmit_packet [OF pf s this] obtain minor where
    "TransmitData pf ERR_NOERROR (number_sample c s) tx =
      Some (ERR_NOERROR, tx\<lparr>tx_buffer := packet pf minor (number_sample c s),
        tx_serialized_attached := tx_serialized_attached tx \<and>
          length (tx_buffer tx) = sizeof_cFepDataHeader + GetSize (number_sample c s)\<rparr>,
        [Transmit (packet pf minor (number_sample c s))])" by blast
  moreover have "tx_ok (tx\<lparr>tx_buffer := packet pf minor (number_sample c s), tx_serialized_attached := b\<rparr>)" for b
    using tx length_packet [OF s] by (auto simp: tx_ok_def tx_fits_def)
  moreover obtain tx' where "tx' = tx\<lparr>tx_buffer := packet pf minor (number_sample c s),
        tx_serialized_attached := tx_serialized_attached tx \<and>
          length (tx_buffer tx) = sizeof_cFepDataHeader + GetSize (number_sample c s)\<rparr>" by blast
  ultimately show ?thesis by (intro exI [of _ minor] exI [of _ tx']) (simp add: SendNow_def)
qed

lemma transfer_stream:
  assumes pf: "platform_ok pf" "platform_ok pf'" "p_machine pf' = p_machine pf" "p_version pf' = p_version pf"
    and tx: "tx_ok tx" "\<forall>(s, lost) \<in> set ss. tx_fits tx s"
    and r: "receiver_ok r" "rx_disable_ddl r" "rx_queue r = []" "rx_prealloc r \<noteq> []"
    "rx_raw r = tx_raw tx" "rx_signal_size r = tx_signal_size tx"
  shows "\<exists>r' curs. transfer pf' pf ss (c, tx) r =
      Some (r', concat (map (\<lambda>cur. map (\<lambda>l. UpdateListener l cur) (rx_listeners r)) curs)) \<and>
    list_all2 same_sample (arrived (zip (number_all c (map fst ss)) (map snd ss))) curs"
  using tx r
proof (induction ss arbitrary: c tx r)
  case Nil
  show ?case by (intro exI [of _ r] exI [of _ "[]"]) (simp add: arrived_def)
next
  case (Cons x ss)
  obtain s lost where x: "x = (s, lost)" by (cases x)
  have fits: "tx_fits tx s" "\<forall>(s, lost) \<in> set ss. tx_fits tx s" using Cons.prems(2) x by auto
  obtain minor tx' where send: "SendNow pf' ERR_NOERROR s (c, tx) =
      Some (ERR_NOERROR, (count_sample ERR_NOERROR s c, tx'), [Transmit (packet pf' minor (number_sample c s))])"
    "tx_ok tx'" "tx_raw tx' = tx_raw tx" "tx_signal_size tx' = tx_signal_size tx"
    using send_packet [OF pf(2) Cons.prems(1) fits(1)] by blast
  have fits': "\<forall>(s, lost) \<in> set ss. tx_fits tx' s" using fits(2) send(3,4) by (simp add: tx_fits_def)
  show ?case
  proof (cases lost)
    case True
    have "rx_raw r = tx_raw tx'" "rx_signal_size r = tx_signal_size tx'" using Cons.prems(7,8) send(3,4) by simp_all
    from Cons.IH [OF send(2) fits' Cons.prems(3-6) this] True show ?thesis
      by (simp add: x send(1) arrived_def)
  next
    case False
    have ok: "sample_ok (number_sample c s)" and n: "rx_raw r \<or> GetSize (number_sample c s) = rx_signal_size r"
      using fits(1) Cons.prems(7,8) by (auto simp: tx_fits_def)
    obtain r1 cur where rc: "receives pf (packet pf' minor (number_sample c s)) r r1 (map (\<lambda>l. UpdateListener l cur) (rx_listeners r))"
      "same_sample (number_sample c s) cur" "receiver_ok r1" "rx_disable_ddl r1" "rx_queue r1 = []" "rx_prealloc r1 \<noteq> []"
      "rx_listeners r1 = rx_listeners r" "rx_raw r1 = rx_raw r" "rx_signal_size r1 = rx_signal_size r"
      using receive_packet [OF pf(1,3,4) Cons.prems(3-6) ok n] by blast
    have "rx_raw r1 = tx_raw tx'" "rx_signal_size r1 = tx_signal_size tx'" using Cons.prems(7,8) send(3,4) rc(8,9) by simp_all
    from Cons.IH [OF send(2) fits' rc(3-6) this, of "count_sample ERR_NOERROR s c"] obtain r' curs where
      IH: "transfer pf' pf ss (count_sample ERR_NOERROR s c, tx') r1 =
        Some (r', concat (map (\<lambda>cur. map (\<lambda>l. UpdateListener l cur) (rx_listeners r1)) curs))"
      "list_all2 same_sample (arrived (zip (number_all (count_sample ERR_NOERROR s c) (map fst ss)) (map snd ss))) curs" by blast
    show ?thesis
      by (intro exI [of _ r'] exI [of _ "cur # curs"])
        (use False IH rc(1,2,7) in \<open>simp add: x send(1) receives_def arrived_def\<close>)
  qed
qed

section \<open>Sender and worker in any order\<close>

text \<open>
  The sender and the worker of the receiver are threads of their own: a sample is sent (and lost, or put into the receiver's
  queue), or the worker takes the next packet of the queue, if there is one.
\<close>

datatype link_event =
    Sends data_sample bool
  | Works


text \<open>
  The reference: a queue with room for \<open>N\<close> samples. One that arrives when the queue is full is dropped; the worker hands on
  the first one. What has been handed on, and what still waits.
\<close>

fun handed_on :: "nat \<Rightarrow> link_event list \<Rightarrow> data_sample list \<Rightarrow> data_sample list \<times> data_sample list" where
  "handed_on N [] ws = ([], ws)"
| "handed_on N (Sends s lost # evs) ws = handed_on N evs (if lost \<or> length ws = N then ws else ws @ [s])"
| "handed_on N (Works # evs) ws =
     (case ws of [] \<Rightarrow> handed_on N evs [] | s # ws \<Rightarrow> (let (xs, ws) = handed_on N evs ws in (s # xs, ws)))"









section \<open>What a listener notices\<close>

definition seen_by :: "nat \<Rightarrow> rx_event list \<Rightarrow> data_sample list" where
  "seen_by l es = concat (map (\<lambda>e. case e of UpdateListener l' cur \<Rightarrow> if l' = l then [cur] else [] | _ \<Rightarrow> []) es)"

definition watch :: "data_sample list \<Rightarrow> listener_adapter \<Rightarrow> listener_adapter" where
  "watch ss a = fold adapter_Update ss a"

lemma watch_simps [simp]: "watch [] a = a" "watch (s # ss) a = watch ss (adapter_Update s a)"
  by (simp_all add: watch_def)

lemma adapter_Update_simps [simp]:
  "m_bPrevSyncFlag (adapter_Update s a) = ds_sync s" "m_nPrevFrameId (adapter_Update s a) = ds_frame s"
  "m_nPrevSampleNumber (adapter_Update s a) = ds_number s"
  "m_nMissedDataSamples (adapter_Update s a) = m_nMissedDataSamples a + of_bool (misses s a)"
  by (simp_all add: adapter_Update_def)

lemma same_sample_update: "same_sample s s' \<Longrightarrow> adapter_Update s' a = adapter_Update s a"
  by (simp add: same_sample_def adapter_Update_def misses_def)

lemma same_sample_watch: "list_all2 same_sample ss ss' \<Longrightarrow> watch ss' a = watch ss a"
  by (induction arbitrary: a rule: list_all2_induct) (simp_all add: same_sample_update)

lemma seen_by_updates:
  assumes "distinct ls" "l \<in> set ls"
  shows "seen_by l (map (\<lambda>l. UpdateListener l cur) ls) = [cur]"
proof -
  have "seen_by l (map (\<lambda>l. UpdateListener l cur) ls) = (if l \<in> set ls then [cur] else [])"
    using assms(1) by (induction ls) (auto simp: seen_by_def)
  with assms(2) show ?thesis by simp
qed

lemma seen_by_stream:
  "distinct ls \<Longrightarrow> l \<in> set ls \<Longrightarrow> seen_by l (concat (map (\<lambda>cur. map (\<lambda>l. UpdateListener l cur) ls) curs)) = curs"
proof (induction curs)
  case (Cons cur curs)
  have "seen_by l (es @ es') = seen_by l es @ seen_by l es'" for es es' by (simp add: seen_by_def)
  with Cons seen_by_updates [OF Cons.prems] show ?case by simp
qed (simp add: seen_by_def)

text \<open>A counter and an adapter between two samples that follow each other.\<close>

definition in_step :: "signal_counter \<Rightarrow> listener_adapter \<Rightarrow> bool" where
  "in_step c a \<longleftrightarrow>
     (if m_bPrevSyncFlag a then unat (sc_frame c) = unat (m_nPrevFrameId a) + 1 \<and> sc_number c = 0
      else sc_frame c = m_nPrevFrameId a \<and> sc_number c = m_nPrevSampleNumber a + 1)"

lemma unat_Suc: "unat (w :: 'a::len word) + 1 < 2 ^ LENGTH('a) \<Longrightarrow> unat (w + 1) = unat w + 1"
  by (simp add: unat_word_ariths)

lemma unat_Suc_le: "unat ((w :: 'a::len word) + 1) \<le> unat w + 1"
  by (simp add: unat_word_ariths)

lemma in_step_misses:
  assumes "in_step c a" "unat (sc_frame c) + 1 < 2 ^ 64"
  shows "\<not> misses (number_sample c s) a"
proof (cases "m_bPrevSyncFlag a")
  case True
  then have "unat (sc_frame c) = unat (m_nPrevFrameId a) + 1" "sc_number c = 0" using assms(1) by (simp_all add: in_step_def)
  then show ?thesis using True assms(2) by (simp add: misses_def word_less_nat_alt unat_Suc)
next
  case False
  then have "sc_frame c = m_nPrevFrameId a" "sc_number c = m_nPrevSampleNumber a + 1" using assms(1) by (simp_all add: in_step_def)
  then show ?thesis using False assms(2) unat_Suc_le [of "m_nPrevSampleNumber a"]
    by (simp add: misses_def word_less_nat_alt unat_Suc)
qed

lemma in_step_next:
  "unat (sc_frame c) + 1 < 2 ^ 64 \<Longrightarrow> in_step (count_sample ERR_NOERROR s c) (adapter_Update (number_sample c s) a)"
  by (simp add: in_step_def unat_Suc)

lemma in_step_watch:
  "in_step c a \<Longrightarrow> unat (sc_frame c) + length ss < 2 ^ 64 \<Longrightarrow>
   m_nMissedDataSamples (watch (number_all c ss) a) = m_nMissedDataSamples a"
proof (induction ss arbitrary: c a)
  case (Cons s ss)
  then have c: "unat (sc_frame c) + 1 < 2 ^ 64" by simp
  have "unat (sc_frame (count_sample ERR_NOERROR s c)) + length ss < 2 ^ 64"
    using Cons.prems(2) c by (simp add: unat_Suc)
  from Cons.IH [OF in_step_next [OF c] this] show ?case
    using in_step_misses [OF Cons.prems(1) c] by simp
qed simp

text \<open>Where a later sample of the stream stands.\<close>

lemma numbering:
  assumes "unat (sc_frame c) + length ss < 2 ^ 64" "unat (sc_number c) + length ss < 2 ^ 16" "j < length ss"
  shows "if \<exists>i<j. ds_sync (ss ! i) then unat (ds_frame (number_all c ss ! j)) > unat (sc_frame c)
    else ds_frame (number_all c ss ! j) = sc_frame c \<and> unat (ds_number (number_all c ss ! j)) = unat (sc_number c) + j"
  using assms
proof (induction ss arbitrary: c j)
  case (Cons s ss)
  show ?case
  proof (cases j)
    case (Suc k)
    let ?c = "count_sample ERR_NOERROR s c"
    have c: "unat (sc_frame c) + 1 < 2 ^ 64" "unat (sc_number c) + 1 < 2 ^ 16" using Cons.prems by simp_all
    have "unat (sc_frame ?c) + length ss < 2 ^ 64" "unat (sc_number ?c) + length ss < 2 ^ 16"
      using Cons.prems c by (simp_all add: unat_Suc)
    from Cons.IH [OF this, of k] Cons.prems(3) Suc
    have IH: "if \<exists>i<k. ds_sync (ss ! i) then unat (ds_frame (number_all ?c ss ! k)) > unat (sc_frame ?c)
      else ds_frame (number_all ?c ss ! k) = sc_frame ?c \<and> unat (ds_number (number_all ?c ss ! k)) = unat (sc_number ?c) + k"
      by simp
    have ex: "(\<exists>i<Suc k. ds_sync ((s # ss) ! i)) \<longleftrightarrow> ds_sync s \<or> (\<exists>i<k. ds_sync (ss ! i))"
      by (simp only: Ex_less_Suc2) simp
    show ?thesis
      unfolding Suc ex using IH c by (cases "ds_sync s") (auto simp: unat_Suc split: if_splits)
  qed simp
qed simp

lemma misses_after_head:
  fixes s :: data_sample
  assumes "unat (sc_frame c) + length ss + 1 < 2 ^ 64" "unat (sc_number c) + length ss + 1 < 2 ^ 16" "k < length ss"
  defines "t \<equiv> number_all (count_sample ERR_NOERROR s c) ss ! k"
  shows "misses t (adapter_Update (number_sample c s) a) \<longleftrightarrow>
    k \<noteq> 0 \<and> \<not> (ds_sync s \<and> unat (ds_frame t) = unat (sc_frame c) + 1 \<and> unat (ds_number t) \<le> unat (sc_number c) + 1)"
proof -
  let ?c = "count_sample ERR_NOERROR s c"
  have c: "unat (sc_frame c) + 1 < 2 ^ 64" "unat (sc_number c) + 1 < 2 ^ 16" using assms(1,2) by simp_all
  have "unat (sc_frame ?c) + length ss < 2 ^ 64" "unat (sc_number ?c) + length ss < 2 ^ 16"
    using assms(1,2) c by (simp_all add: unat_Suc)
  from numbering [OF this assms(3)]
  have n: "if \<exists>i<k. ds_sync (ss ! i) then unat (ds_frame t) > unat (sc_frame ?c)
      else ds_frame t = sc_frame ?c \<and> unat (ds_number t) = unat (sc_number ?c) + k" unfolding t_def .
  have m: "misses t (adapter_Update (number_sample c s) a) \<longleftrightarrow>
      unat (ds_frame t) > unat (sc_frame c) + 1 \<or> unat (ds_number t) > unat (sc_number c) + 1 \<or>
      unat (ds_frame t) > unat (sc_frame c) \<and> \<not> ds_sync s"
    using c by (simp add: misses_def word_less_nat_alt unat_Suc)
  show ?thesis
  proof (cases "\<exists>i<k. ds_sync (ss ! i)")
    case True
    then have "k \<noteq> 0" "unat (ds_frame t) > unat (sc_frame ?c)" using n by auto
    then show ?thesis using m c by (cases "ds_sync s") (auto simp: unat_Suc)
  next
    case False
    then have "ds_frame t = sc_frame ?c" "unat (ds_number t) = unat (sc_number ?c) + k" using n by simp_all
    then show ?thesis using m c by (cases "ds_sync s") (auto simp: unat_Suc)
  qed
qed

lemma misses_later:
  assumes "unat (sc_frame c) + length ss < 2 ^ 64" "unat (sc_number c) + length ss < 2 ^ 16" "i < j" "j < length ss"
  defines "s \<equiv> number_all c ss ! i" and "t \<equiv> number_all c ss ! j"
  shows "misses t (adapter_Update s a) \<longleftrightarrow>
    j \<noteq> Suc i \<and> \<not> (ds_sync s \<and> unat (ds_frame t) = unat (ds_frame s) + 1 \<and> unat (ds_number t) \<le> unat (ds_number s) + 1)"
  using assms(1-4) unfolding s_def t_def
proof (induction ss arbitrary: c i j)
  case (Cons x ss)
  let ?c = "count_sample ERR_NOERROR x c"
  have c: "unat (sc_frame c) + 1 < 2 ^ 64" "unat (sc_number c) + 1 < 2 ^ 16" using Cons.prems by simp_all
  obtain k where j: "j = Suc k" "k < length ss" using Cons.prems(3,4) by (cases j) auto
  show ?case
  proof (cases i)
    case 0
    from misses_after_head [of c ss k x a] Cons.prems(1,2) j show ?thesis by (simp add: 0)
  next
    case (Suc i')
    have "unat (sc_frame ?c) + length ss < 2 ^ 64" "unat (sc_number ?c) + length ss < 2 ^ 16"
      using Cons.prems c by (simp_all add: unat_Suc)
    from Cons.IH [OF this, of i' k] Cons.prems(3) j Suc show ?thesis by simp
  qed
qed simp

text \<open>The times that samples are missing right before one that arrives.\<close>

fun gaps :: "bool \<Rightarrow> bool list \<Rightarrow> nat" where
  "gaps open [] = 0"
| "gaps open (lost # bs) = (if lost then gaps True bs else of_bool open + gaps False bs)"

lemma watch_single_sample_frames:
  assumes "\<forall>(s, lost) \<in> set ss. ds_sync s" "unat (sc_frame c) + length ss < 2 ^ 64" "sc_number c = 0"
    "m_bPrevSyncFlag a" "m_nPrevSampleNumber a = 0" "unat (m_nPrevFrameId a) < unat (sc_frame c)"
    "gap \<longleftrightarrow> unat (m_nPrevFrameId a) + 1 < unat (sc_frame c)"
  shows "m_nMissedDataSamples (watch (arrived (zip (number_all c (map fst ss)) (map snd ss))) a) =
    m_nMissedDataSamples a + gaps gap (map snd ss)"
  using assms
proof (induction ss arbitrary: c a gap)
  case (Cons x ss)
  obtain s lost where x: "x = (s, lost)" by (cases x)
  let ?c = "count_sample ERR_NOERROR s c"
  have s: "ds_sync s" "\<forall>(s, lost) \<in> set ss. ds_sync s" using Cons.prems(1) x by auto
  have c: "unat (sc_frame c) + 1 < 2 ^ 64" using Cons.prems(2) by simp
  have c': "unat (sc_frame ?c) = unat (sc_frame c) + 1" "sc_number ?c = 0" using s c by (simp_all add: unat_Suc)
  have len: "unat (sc_frame ?c) + length ss < 2 ^ 64" using c' Cons.prems(2) by simp
  show ?case
  proof (cases lost)
    case True
    from Cons.IH [OF s(2) len c'(2) Cons.prems(4,5), of True] Cons.prems(6) c' True show ?thesis
      by (simp add: x arrived_def)
  next
    case False
    have "misses (number_sample c s) a \<longleftrightarrow> gap"
      using Cons.prems c by (simp add: misses_def word_less_nat_alt unat_Suc)
    with Cons.IH [OF s(2) len c'(2), of "adapter_Update (number_sample c s) a" False] s Cons.prems(3) c' False show ?thesis
      by (simp add: x arrived_def)
  qed
qed (simp add: arrived_def)

section \<open>Properties of the transmission\<close>

lemma tx_ok_create: "platform_ok pf \<Longrightarrow> tx_ok (create_transmitter pf raw True n)"
  by (simp add: tx_ok_def create_transmitter_def platform_ok_def)

lemma receiver_ok_create:
  assumes "platform_ok pf"
  shows "receiver_ok (create_receiver pf raw True n d\<lparr>rx_listeners := ls\<rparr>)"
proof -
  have "signal_size n > 0" by (simp add: signal_size_def DEFAULT_SIZE_FOR_RAW_SIGNALS_def)
  with assms show ?thesis
    by (simp add: receiver_ok_def create_receiver_def Let_def SetSize_def new_data_sample_def platform_ok_def container_ok_def
        new_container_def)
qed

lemma create_receiver_simps [simp]:
  "rx_disable_ddl (create_receiver pf raw ddl n d) = ddl" "rx_queue (create_receiver pf raw ddl n d) = []"
  "rx_prealloc (create_receiver pf raw ddl n d) \<noteq> []" "rx_raw (create_receiver pf raw ddl n d) = raw"
  "rx_signal_size (create_receiver pf raw ddl n d) = signal_size n"
  by (simp_all add: create_receiver_def Let_def)

lemma transfer_created:
  assumes "platform_ok pf" "platform_ok pf'" "p_machine pf' = p_machine pf" "p_version pf' = p_version pf"
    and ss: "\<forall>(s, lost) \<in> set ss. sample_ok s \<and> (raw \<or> GetSize s = signal_size n)"
  shows "\<exists>r' curs. transfer pf' pf ss (ConfigureSampleCounter, create_transmitter pf' raw True n)
      (create_receiver pf raw True n d\<lparr>rx_listeners := ls\<rparr>) =
      Some (r', concat (map (\<lambda>cur. map (\<lambda>l. UpdateListener l cur) ls) curs)) \<and>
    list_all2 same_sample (arrived (zip (number_all ConfigureSampleCounter (map fst ss)) (map snd ss))) curs"
proof -
  have "\<forall>(s, lost) \<in> set ss. tx_fits (create_transmitter pf' raw True n) s"
    using ss by (simp add: tx_fits_def create_transmitter_def)
  from transfer_stream [OF assms(1-4) tx_ok_create [OF assms(2)] this receiver_ok_create [OF assms(1)]] show ?thesis
    by (simp add: create_transmitter_def)
qed



lemma all_handed_on:
  assumes "\<And>pre e post. evs = pre @ e # post \<Longrightarrow> e \<noteq> Works \<Longrightarrow> length (snd (handed_on N pre ws)) < N"
  shows "fst (handed_on N evs ws) @ snd (handed_on N evs ws) =
    ws @ concat (map (\<lambda>e. case e of Sends s lost \<Rightarrow> if lost then [] else [s] | Works \<Rightarrow> []) evs)"
  using assms
proof (induction evs arbitrary: ws)
  case (Cons e evs)
  show ?case
  proof (cases e)
    case (Sends s lost)
    have "length ws < N" using Cons.prems [of "[]" e evs] by (simp add: Sends)
    then have "length (snd (handed_on N pre (if lost \<or> length ws = N then ws else ws @ [s]))) < N" if "evs = pre @ e' # post" "e' \<noteq> Works" for pre e' post
      using Cons.prems [of "e # pre" e' post] that by (simp add: Sends)
    from Cons.IH [OF this] \<open>length ws < N\<close> show ?thesis by (simp add: Sends)
  next
    case Works
    show ?thesis
    proof (cases ws)
      case Nil
      have "length (snd (handed_on N pre [])) < N" if "evs = pre @ e' # post" "e' \<noteq> Works" for pre e' post
        using Cons.prems [of "e # pre" e' post] that by (simp add: Works Nil)
      from Cons.IH [OF this] show ?thesis by (simp add: Works Nil)
    next
      case (Cons s ws')
      have "length (snd (handed_on N pre ws')) < N" if "evs = pre @ e' # post" "e' \<noteq> Works" for pre e' post
        using Cons.prems [of "e # pre" e' post] that by (simp add: Works Cons case_prod_beta Let_def)
      from Cons.IH [OF this] show ?thesis by (simp add: Works Cons case_prod_beta Let_def)
    qed
  qed
qed simp


definition demo_platform :: platform where
  "demo_platform = \<lparr>p_machine = LittleEndian, p_version = 3, copy_succeeds = \<lambda>d n. n \<le> d,
     fresh_memory = \<lambda>n. replicate n 0, ddl_encode = \<lambda>d. d, ddl_decode = \<lambda>p old. old\<rparr>"

lemma demo_platform_ok: "platform_ok demo_platform"
  by (simp add: demo_platform_def platform_ok_def)

definition demo_sample :: "bool \<Rightarrow> byte \<Rightarrow> data_sample" where
  "demo_sample sync b = (snd (CopyFrom demo_platform [b, b + 1] new_data_sample))\<lparr>ds_sync := sync\<rparr>"

lemma demo_sample_simps [simp]:
  "sample_ok (demo_sample sync b)" "GetSize (demo_sample sync b) = 2" "ds_sync (demo_sample sync b) = sync"
  by (simp_all add: demo_sample_def CopyFrom_def new_data_sample_def sample_ok_def GetSize_def GetCapacity_def GetPtr_def)

definition demo_stream :: "(data_sample \<times> bool) list" where
  "demo_stream = [(demo_sample True 7, False), (demo_sample False 9, True), (demo_sample True 11, False)]"



text \<open>C34: A listener that is there from the beginning never reports a missing sample when nothing is lost, however the
  samples are grouped into frames and even when the number of a sample within its frame wraps. Sender and receiver are of the
  same machine type and version, the signal is not serialised, fewer than 2 ^ 64 - 1 samples are sent, and the worker has
  processed each packet before the next one arrives.\<close>
theorem lossless_stream_reports_nothing:
  assumes "platform_ok pf" "platform_ok pf'" "p_machine pf' = p_machine pf" "p_version pf' = p_version pf"
    and "\<forall>s \<in> set ss. sample_ok s \<and> (raw \<or> GetSize s = signal_size n)"
    and "length ss < 2 ^ 64 - 1" "distinct ls" "l \<in> set ls"
  shows "\<exists>r' es. transfer pf' pf (map (\<lambda>s. (s, False)) ss) (ConfigureSampleCounter, create_transmitter pf' raw True n)
      (create_receiver pf raw True n d\<lparr>rx_listeners := ls\<rparr>) = Some (r', es) \<and>
    length (seen_by l es) = length ss \<and> m_nMissedDataSamples (watch (seen_by l es) new_listener_adapter) = 0"
proof -
  let ?ss = "map (\<lambda>s. (s, False)) ss"
  have "\<forall>(s, lost) \<in> set ?ss. sample_ok s \<and> (raw \<or> GetSize s = signal_size n)" using assms(5) by auto
  from transfer_created [OF assms(1-4) this, of ls d] obtain r' curs where
    t: "transfer pf' pf ?ss (ConfigureSampleCounter, create_transmitter pf' raw True n)
      (create_receiver pf raw True n d\<lparr>rx_listeners := ls\<rparr>) =
      Some (r', concat (map (\<lambda>cur. map (\<lambda>l. UpdateListener l cur) ls) curs))"
    "list_all2 same_sample (arrived (zip (number_all ConfigureSampleCounter (map fst ?ss)) (map snd ?ss))) curs" by blast
  have "arrived (zip xs (map snd (map (\<lambda>s. (s, False)) ys))) = xs" if "length xs = length ys" for xs ys :: "data_sample list"
    using that by (induction xs ys rule: list_induct2) (simp_all add: arrived_def)
  then have "list_all2 same_sample (number_all ConfigureSampleCounter ss) curs" using t(2) by (simp add: comp_def)
  then have "watch curs new_listener_adapter = watch (number_all ConfigureSampleCounter ss) new_listener_adapter"
    "length curs = length ss" by (simp_all add: same_sample_watch list_all2_lengthD [symmetric])
  moreover have "m_nMissedDataSamples (watch (number_all ConfigureSampleCounter ss) new_listener_adapter) = 0"
    using in_step_watch [of ConfigureSampleCounter new_listener_adapter ss] assms(6)
    by (simp add: in_step_def ConfigureSampleCounter_def new_listener_adapter_def)
  ultimately show ?thesis using t(1) seen_by_stream [OF assms(7,8)] by simp
qed

theorem lossless_stream_reports_nothing_witness:
  "\<exists>r' es. transfer demo_platform demo_platform (map (\<lambda>s. (s, False)) [demo_sample False 7, demo_sample True 8, demo_sample True 1])
      (ConfigureSampleCounter, create_transmitter demo_platform True True 0)
      (create_receiver demo_platform True True 0 []\<lparr>rx_listeners := [4, 5]\<rparr>) = Some (r', es) \<and>
    length (seen_by 5 es) = length [demo_sample False 7, demo_sample True 8, demo_sample True 1] \<and>
    m_nMissedDataSamples (watch (seen_by 5 es) new_listener_adapter) = 0"
  by (rule lossless_stream_reports_nothing [OF demo_platform_ok demo_platform_ok]) simp_all

text \<open>Which losses between two samples that a listener sees one after the other are noticed: with the samples numbered
  by the sender's counter, the later one is reported as following a gap exactly if samples are missing between the two
  and they are not just the beginning of the next frame, up to the sample whose number is one above that of the frame's
  end. Before the number of a sample wraps.\<close>
theorem loss_noticed_iff:
  assumes "i < j" "j < length ss" "length ss < 2 ^ 16"
  shows "misses (number_all ConfigureSampleCounter ss ! j) (adapter_Update (number_all ConfigureSampleCounter ss ! i) a) \<longleftrightarrow>
    j \<noteq> Suc i \<and>
    \<not> (ds_sync (number_all ConfigureSampleCounter ss ! i) \<and>
       unat (ds_frame (number_all ConfigureSampleCounter ss ! j)) = unat (ds_frame (number_all ConfigureSampleCounter ss ! i)) + 1 \<and>
       unat (ds_number (number_all ConfigureSampleCounter ss ! j)) \<le> unat (ds_number (number_all ConfigureSampleCounter ss ! i)) + 1)"
  by (rule misses_later) (use assms in \<open>simp_all add: ConfigureSampleCounter_def\<close>)

theorem loss_noticed_iff_witness:
  "misses (number_all ConfigureSampleCounter (map fst demo_stream) ! 2)
      (adapter_Update (number_all ConfigureSampleCounter (map fst demo_stream) ! 0) new_listener_adapter) \<longleftrightarrow>
    (2::nat) \<noteq> Suc 0 \<and>
    \<not> (ds_sync (number_all ConfigureSampleCounter (map fst demo_stream) ! 0) \<and>
       unat (ds_frame (number_all ConfigureSampleCounter (map fst demo_stream) ! 2)) =
         unat (ds_frame (number_all ConfigureSampleCounter (map fst demo_stream) ! 0)) + 1 \<and>
       unat (ds_number (number_all ConfigureSampleCounter (map fst demo_stream) ! 2)) \<le>
         unat (ds_number (number_all ConfigureSampleCounter (map fst demo_stream) ! 0)) + 1)"
  by (rule loss_noticed_iff) (simp_all add: demo_stream_def)

text \<open>When every sample ends its frame, the number of reported gaps is the number of times that samples are lost right
  before one that arrives, the beginning of the stream included.\<close>
theorem single_sample_frames_count_gaps:
  assumes "platform_ok pf" "platform_ok pf'" "p_machine pf' = p_machine pf" "p_version pf' = p_version pf"
    and "\<forall>(s, lost) \<in> set ss. sample_ok s \<and> (raw \<or> GetSize s = signal_size n)" "\<forall>(s, lost) \<in> set ss. ds_sync s"
    and "length ss < 2 ^ 64 - 1" "distinct ls" "l \<in> set ls"
  shows "\<exists>r' es. transfer pf' pf ss (ConfigureSampleCounter, create_transmitter pf' raw True n)
      (create_receiver pf raw True n d\<lparr>rx_listeners := ls\<rparr>) = Some (r', es) \<and>
    m_nMissedDataSamples (watch (seen_by l es) new_listener_adapter) = gaps False (map snd ss)"
proof -
  from transfer_created [OF assms(1-5), of ls d] obtain r' curs where
    t: "transfer pf' pf ss (ConfigureSampleCounter, create_transmitter pf' raw True n)
      (create_receiver pf raw True n d\<lparr>rx_listeners := ls\<rparr>) =
      Some (r', concat (map (\<lambda>cur. map (\<lambda>l. UpdateListener l cur) ls) curs))"
    "list_all2 same_sample (arrived (zip (number_all ConfigureSampleCounter (map fst ss)) (map snd ss))) curs" by blast
  have "m_nMissedDataSamples (watch (arrived (zip (number_all ConfigureSampleCounter (map fst ss)) (map snd ss)))
      new_listener_adapter) = gaps False (map snd ss)"
    using watch_single_sample_frames [OF assms(6), of ConfigureSampleCounter new_listener_adapter False] assms(7)
    by (simp add: ConfigureSampleCounter_def new_listener_adapter_def)
  then show ?thesis using t(1) seen_by_stream [OF assms(8,9)] same_sample_watch [OF t(2)] by simp
qed

theorem single_sample_frames_count_gaps_witness:
  "\<exists>r' es. transfer demo_platform demo_platform [(demo_sample True 7, True), (demo_sample True 8, False), (demo_sample True 9, True)]
      (ConfigureSampleCounter, create_transmitter demo_platform False True 2)
      (create_receiver demo_platform False True 2 []\<lparr>rx_listeners := [4]\<rparr>) = Some (r', es) \<and>
    m_nMissedDataSamples (watch (seen_by 4 es) new_listener_adapter) =
      gaps False (map snd [(demo_sample True 7, True), (demo_sample True 8, False), (demo_sample True 9, True)])"
  by (rule single_sample_frames_count_gaps [OF demo_platform_ok demo_platform_ok]) (simp_all add: signal_size_def)

text \<open>A packet that is too big for a signal of fixed size costs the receiver one of its containers for good: after as
  many of them as it was created with, no packet is taken any more, whatever its size.\<close>
theorem oversize_packets_exhaust_receiver:
  assumes "\<not> rx_raw r" "\<forall>bs \<in> set packets. length bs > rx_signal_size r + sizeof_cFepDataHeader"
    and "length packets = length (rx_prealloc r)" "rx_queue r = []"
  shows "EnqueueReceivedData pf data (FlushQueue (fold (\<lambda>bs r. fst (EnqueueReceivedData pf bs r)) packets r)) =
    (r\<lparr>rx_prealloc := []\<rparr>, [])"
proof -
  have "fold (\<lambda>bs r. fst (EnqueueReceivedData pf bs r)) packets r = r\<lparr>rx_prealloc := []\<rparr>"
    using assms(1-3)
  proof (induction packets arbitrary: r)
    case (Cons bs packets)
    obtain c rest where "rx_prealloc r = c # rest" using Cons.prems(3) by (cases "rx_prealloc r") auto
    with Cons.prems Cons.IH [of "r\<lparr>rx_prealloc := rest\<rparr>"] show ?case by (simp add: EnqueueReceivedData_def)
  qed simp
  then show ?thesis using assms(4) by (simp add: FlushQueue_def EnqueueReceivedData_def)
qed

theorem oversize_packets_exhaust_receiver_witness:
  "EnqueueReceivedData demo_platform [] (FlushQueue (fold (\<lambda>bs r. fst (EnqueueReceivedData demo_platform bs r))
      (replicate 20 (replicate 40 0)) (create_receiver demo_platform False True 2 []))) =
    (create_receiver demo_platform False True 2 []\<lparr>rx_prealloc := []\<rparr>, [])"
  by (rule oversize_packets_exhaust_receiver)
    (simp_all add: create_receiver_def Let_def signal_size_def sizeof_cFepDataHeader_def)

text \<open>Sending a sample that is bigger than its signal of fixed size writes past the end of the send buffer before the
  error is returned, as long as the excess is not above the size of the header.\<close>
theorem wrong_size_sample_overruns_buffer:
  assumes "platform_ok pf" "sample_ok s" "tx_ok tx" "\<not> tx_raw tx"
    and "tx_signal_size tx < GetSize s" "GetSize s \<le> tx_signal_size tx + sizeof_cFepDataHeader"
  shows "TransmitData pf res s tx = None"
  using assms
  by (simp add: TransmitData_def FillFepDataHeader_def tx_ok_def write_payload_def platform_ok_def length_content)

theorem wrong_size_sample_overruns_buffer_witness:
  "TransmitData demo_platform ERR_NOERROR (demo_sample True 7) (create_transmitter demo_platform False True 1) = None"
  by (rule wrong_size_sample_overruns_buffer [OF demo_platform_ok])
    (simp_all add: tx_ok_create demo_platform_ok, simp_all add: create_transmitter_def signal_size_def sizeof_cFepDataHeader_def)

text \<open>A header that the receiver of a signal with (or without) serialization takes.\<close>

definition acceptable :: "platform \<Rightarrow> bool \<Rightarrow> byte list \<Rightarrow> bool" where
  "acceptable pf disable_ddl mem \<longleftrightarrow>
     (let h = header_at (p_machine pf) mem;
          order = GetByteOrderFlag (m_nSerAndByteOrderFlags h);
          ser = GetSerializationFlag (m_nSerAndByteOrderFlags h)
      in m_nMajorVersion h = p_version pf \<and> order \<noteq> 0 \<and> ser \<noteq> 0 \<and>
         (ser = SERIALIZATION_DDL \<longrightarrow> \<not> disable_ddl) \<and>
         (ser = SERIALIZATION_RAW \<longrightarrow> disable_ddl \<and> order = GetLocalSystemByteorder (p_machine pf)))"

lemma read_payload_cases:
  assumes "read_payload pf order ser payload r = (e, r', es)"
  shows "isFailed e \<longleftrightarrow> ser = SERIALIZATION_DDL \<and> rx_disable_ddl r \<or>
      ser = SERIALIZATION_RAW \<and> \<not> (rx_disable_ddl r \<and> order = GetLocalSystemByteorder (p_machine pf))"
    and "isFailed e \<Longrightarrow> r' = r \<and> es = [RxWrongSerialization]"
    and "\<not> isFailed e \<Longrightarrow> es = [] \<and> rx_listeners r' = rx_listeners r"
  using assms raw_flags(5) by (auto simp: read_payload_def Let_def split: if_splits)

text \<open>A receiver of a signal of fixed size survives every packet. It takes a packet exactly if the size is that of the
  signal and the header names its version, a byte order and a serialization that fits -- a header that names both
  serializations included --, and then calls every listener once; a packet that is refused changes nothing, calls no
  listener and is reported once.\<close>
theorem packet_taken_iff:
  assumes "\<not> rx_raw r"
  shows "\<exists>e r' es. Process pf c r = Some (e, r', es) \<and>
    (isFailed e \<longleftrightarrow> \<not> (acceptable pf (rx_disable_ddl r) (c_memory c) \<and> c_size c = sizeof_cFepDataHeader + GetSize (rx_current r))) \<and>
    (if isFailed e then r' = r \<and> (\<exists>x \<in> {RxWrongVersion, RxCorruptHeader, RxWrongSerialization}. es = [x])
     else es = map (\<lambda>l. UpdateListener l (rx_current r')) (rx_listeners r))"
proof -
  let ?h = "header_at (p_machine pf) (c_memory c)"
  let ?flags = "m_nSerAndByteOrderFlags ?h"
  let ?payload = "take (c_size c - sizeof_cFepDataHeader) (drop sizeof_cFepDataHeader (c_memory c))"
  consider "m_nMajorVersion ?h \<noteq> p_version pf"
    | "m_nMajorVersion ?h = p_version pf" "GetByteOrderFlag ?flags = 0 \<or> GetSerializationFlag ?flags = 0"
    | "m_nMajorVersion ?h = p_version pf" "\<not> (GetByteOrderFlag ?flags = 0 \<or> GetSerializationFlag ?flags = 0)"
      "sizeof_cFepDataHeader + GetSize (rx_current r) \<noteq> c_size c"
    | "m_nMajorVersion ?h = p_version pf" "\<not> (GetByteOrderFlag ?flags = 0 \<or> GetSerializationFlag ?flags = 0)"
      "sizeof_cFepDataHeader + GetSize (rx_current r) = c_size c" by blast
  then show ?thesis
  proof cases
    case 4
    obtain e r' es where p: "read_payload pf (GetByteOrderFlag ?flags) (GetSerializationFlag ?flags) ?payload r = (e, r', es)"
      by (rule prod_cases3)
    have ok: "isFailed e \<longleftrightarrow> \<not> acceptable pf (rx_disable_ddl r) (c_memory c)"
      using 4(1,2) read_payload_cases(1) [OF p] by (auto simp: acceptable_def Let_def raw_flags)
    show ?thesis
    proof (cases "isFailed e")
      case True
      then have "Process pf c r = Some (e, r, [RxWrongSerialization])"
        using 4 p read_payload_cases(2) [OF p] by (simp add: Process_def Let_def)
      with True ok show ?thesis by auto
    next
      case False
      obtain r2 where "Process pf c r = Some (ERR_NOERROR, r2, UpdateListeners r2)" "rx_listeners r2 = rx_listeners r"
        using 4 p read_payload_cases(3) [OF p] False by (simp add: Process_def Let_def)
      with False ok 4(3) show ?thesis by (simp add: UpdateListeners_def isFailed_def isOk_def)
    qed
  qed (use assms in \<open>auto simp: Process_def Let_def isFailed_def isOk_def acceptable_def\<close>)
qed

theorem packet_taken_iff_witness:
  "\<exists>e r' es. Process demo_platform (new_container demo_platform 26) (create_receiver demo_platform False True 2 []) = Some (e, r', es) \<and>
    (isFailed e \<longleftrightarrow> \<not> (acceptable demo_platform (rx_disable_ddl (create_receiver demo_platform False True 2 []))
        (c_memory (new_container demo_platform 26)) \<and>
      c_size (new_container demo_platform 26) =
        sizeof_cFepDataHeader + GetSize (rx_current (create_receiver demo_platform False True 2 [])))) \<and>
    (if isFailed e then r' = create_receiver demo_platform False True 2 [] \<and>
        (\<exists>x \<in> {RxWrongVersion, RxCorruptHeader, RxWrongSerialization}. es = [x])
     else es = map (\<lambda>l. UpdateListener l (rx_current r')) (rx_listeners (create_receiver demo_platform False True 2 [])))"
  by (rule packet_taken_iff) simp

end
