(* ===== verification/Property_Tree.thy ===== *)
theory Property_Tree
  imports Fep_Prelude "HOL-Library.Sublist"
begin

text \<open>
  The properties of a participant: \<open>cProperty\<close> (\<open>property.{h,cpp}\<close>) and the tree of them,
  \<open>cPropertyTreeBase\<close> (\<open>propertytreebase.cpp\<close>), both in \<open>src/fep3/components/legacy/property_tree/\<close>.

  A property owns its subproperties, so the tree is a datatype; an operation on a property gets the chain of its
  ancestors, the parent first, because notifications go up that chain. Floating point numbers are of an arbitrary
  type with the conversions of C++ in \<open>float_ops\<close>. What a listener answers is a parameter (\<open>ans\<close>); listeners do
  not change the tree while they are called. Strings and pointers that are null are refused by the code with
  \<open>ERR_POINTER\<close> before anything else and are left out.
\<close>

section \<open>Properties\<close>

datatype 'd variant = VString string | VDouble 'd | VInt32 "32 word" | VBool bool

record 'd float_ops =
  f_eq :: "'d \<Rightarrow> 'd \<Rightarrow> bool"
  int_of_double :: "'d \<Rightarrow> 32 word"
  double_of_int :: "32 word \<Rightarrow> 'd"
  f_zero :: 'd

datatype 'd property =
  Property (m_strName: string) (m_strPath: string) (m_vecValues: "'d variant list") (m_vecListeners: "nat list")
    (m_lstSubproperties: "'d property list")

fun set_name :: "string \<Rightarrow> 'd property \<Rightarrow> 'd property" where
  "set_name n (Property _ path vs ls subs) = Property n path vs ls subs"

fun set_path :: "string \<Rightarrow> 'd property \<Rightarrow> 'd property" where
  "set_path path (Property n _ vs ls subs) = Property n path vs ls subs"

fun set_values :: "'d variant list \<Rightarrow> 'd property \<Rightarrow> 'd property" where
  "set_values vs (Property n path _ ls subs) = Property n path vs ls subs"

fun set_listeners :: "nat list \<Rightarrow> 'd property \<Rightarrow> 'd property" where
  "set_listeners ls (Property n path vs _ subs) = Property n path vs ls subs"

fun set_subs :: "'d property list \<Rightarrow> 'd property \<Rightarrow> 'd property" where
  "set_subs subs (Property n path vs ls _) = Property n path vs ls subs"

lemma property_updates [simp]:
  "m_strName (set_name n p) = n" "m_strPath (set_name n p) = m_strPath p" "m_vecValues (set_name n p) = m_vecValues p"
  "m_vecListeners (set_name n p) = m_vecListeners p" "m_lstSubproperties (set_name n p) = m_lstSubproperties p"
  "m_strName (set_path x p) = m_strName p" "m_strPath (set_path x p) = x" "m_vecValues (set_path x p) = m_vecValues p"
  "m_vecListeners (set_path x p) = m_vecListeners p" "m_lstSubproperties (set_path x p) = m_lstSubproperties p"
  "m_strName (set_values vs p) = m_strName p" "m_strPath (set_values vs p) = m_strPath p"
  "m_vecValues (set_values vs p) = vs" "m_vecListeners (set_values vs p) = m_vecListeners p"
  "m_lstSubproperties (set_values vs p) = m_lstSubproperties p"
  "m_strName (set_listeners ls p) = m_strName p" "m_strPath (set_listeners ls p) = m_strPath p"
  "m_vecValues (set_listeners ls p) = m_vecValues p" "m_vecListeners (set_listeners ls p) = ls"
  "m_lstSubproperties (set_listeners ls p) = m_lstSubproperties p"
  "m_strName (set_subs ss p) = m_strName p" "m_strPath (set_subs ss p) = m_strPath p"
  "m_vecValues (set_subs ss p) = m_vecValues p" "m_vecListeners (set_subs ss p) = m_vecListeners p"
  "m_lstSubproperties (set_subs ss p) = ss"
  by (cases p; simp)+

subsection \<open>Types and values\<close>

fun is_VString where "is_VString (VString _) = True" | "is_VString _ = False"
fun is_VDouble where "is_VDouble (VDouble _) = True" | "is_VDouble _ = False"
fun is_VInt32 where "is_VInt32 (VInt32 _) = True" | "is_VInt32 _ = False"
fun is_VBool where "is_VBool (VBool _) = True" | "is_VBool _ = False"

definition IsBoolean :: "'d property \<Rightarrow> bool" where "IsBoolean p = is_VBool (hd (m_vecValues p))"
definition IsFloat :: "'d property \<Rightarrow> bool" where "IsFloat p = is_VDouble (hd (m_vecValues p))"
definition IsInteger :: "'d property \<Rightarrow> bool" where "IsInteger p = is_VInt32 (hd (m_vecValues p))"
definition IsNumeric :: "'d property \<Rightarrow> bool" where "IsNumeric p \<longleftrightarrow> IsInteger p \<or> IsFloat p"
definition IsString :: "'d property \<Rightarrow> bool" where "IsString p = is_VString (hd (m_vecValues p))"
definition GetArraySize :: "'d property \<Rightarrow> nat" where "GetArraySize p = length (m_vecValues p)"
definition IsArray :: "'d property \<Rightarrow> bool" where "IsArray p \<longleftrightarrow> length (m_vecValues p) > 1"

text \<open>The four overloads of \<open>GetValue\<close>; the elements of an array have the type of the first.\<close>

definition GetString :: "nat \<Rightarrow> 'd property \<Rightarrow> fep_result + string" where
  "GetString i p =
     (if i \<ge> length (m_vecValues p) then Inl ERR_INVALID_INDEX
      else if \<not> IsString p then Inl ERR_INVALID_TYPE
      else case m_vecValues p ! i of VString s \<Rightarrow> Inr s | _ \<Rightarrow> Inl ERR_UNEXPECTED)"

definition GetBool :: "nat \<Rightarrow> 'd property \<Rightarrow> fep_result + bool" where
  "GetBool i p =
     (if i \<ge> length (m_vecValues p) then Inl ERR_INVALID_INDEX
      else if \<not> IsBoolean p then Inl ERR_INVALID_TYPE
      else case m_vecValues p ! i of VBool b \<Rightarrow> Inr b | _ \<Rightarrow> Inl ERR_UNEXPECTED)"

definition GetInt :: "'d float_ops \<Rightarrow> nat \<Rightarrow> 'd property \<Rightarrow> fep_result + 32 word" where
  "GetInt ops i p =
     (if i \<ge> length (m_vecValues p) then Inl ERR_INVALID_INDEX
      else case m_vecValues p ! i of
          VInt32 n \<Rightarrow> if IsInteger p then Inr n else Inl ERR_INVALID_TYPE
        | VDouble d \<Rightarrow> if IsFloat p then Inr (int_of_double ops d) else Inl ERR_INVALID_TYPE
        | _ \<Rightarrow> Inl ERR_INVALID_TYPE)"

definition GetFloat :: "'d float_ops \<Rightarrow> nat \<Rightarrow> 'd property \<Rightarrow> fep_result + 'd" where
  "GetFloat ops i p =
     (if i \<ge> length (m_vecValues p) then Inl ERR_INVALID_INDEX
      else case m_vecValues p ! i of
          VDouble d \<Rightarrow> if IsFloat p then Inr d else Inl ERR_INVALID_TYPE
        | VInt32 n \<Rightarrow> if IsInteger p then Inr (double_of_int ops n) else Inl ERR_INVALID_TYPE
        | _ \<Rightarrow> Inl ERR_INVALID_TYPE)"

section \<open>Notifications\<close>

datatype prop_change = PropertyAdd | PropertyChange | PropertyDelete

text \<open>Listener, callback, the property it is registered at (by its path), the affected property and the relative path.\<close>

datatype 'd prop_event = Notify nat prop_change string "'d property" string

type_synonym 'd answers = "'d prop_event \<Rightarrow> fep_result"

definition rel_path :: "'d property \<Rightarrow> 'd property \<Rightarrow> string" where
  "rel_path p affected =
     (let strRelPath = drop (length (m_strPath p)) (m_strPath affected)
      in if strRelPath = [] then m_strName p
         else if hd strRelPath = CHR ''.'' then tl strRelPath else strRelPath)"

definition first_failed :: "fep_result list \<Rightarrow> fep_result" where
  "first_failed rs = (case find isFailed rs of None \<Rightarrow> ERR_NOERROR | Some r \<Rightarrow> r)"

definition own_events :: "prop_change \<Rightarrow> 'd property \<Rightarrow> 'd property \<Rightarrow> 'd prop_event list" where
  "own_events ch affected p = map (\<lambda>l. Notify l ch (m_strPath p) affected (rel_path p affected)) (m_vecListeners p)"

text \<open>Along a chain: the listeners of the property itself, then those of its parent, and so on.\<close>

fun NotifyListeners ::
    "'d answers \<Rightarrow> prop_change \<Rightarrow> 'd property \<Rightarrow> 'd property list \<Rightarrow> fep_result \<times> 'd prop_event list" where
  "NotifyListeners ans ch affected [] = (ERR_NOERROR, [])"
| "NotifyListeners ans ch affected (p # parents) =
     (let own = own_events ch affected p;
          nResult = first_failed (map ans own);
          (nParentResult, ns) = NotifyListeners ans ch affected parents
      in (if isOk nResult then nParentResult else nResult, own @ ns))"

section \<open>Operations on one property\<close>

type_synonym ('d, 'r) action = "'d property list \<Rightarrow> 'd property \<Rightarrow> 'r \<times> 'd property \<times> 'd prop_event list"

text \<open>Whether the four overloads of \<open>SetValue\<close> notify the listeners.\<close>

definition bNotify :: "'d float_ops \<Rightarrow> 'd variant \<Rightarrow> 'd property \<Rightarrow> bool" where
  "bNotify ops v p =
     (case (v, hd (m_vecValues p)) of
        (VString s, VString s') \<Rightarrow> s \<noteq> s' \<or> IsArray p
      | (VDouble d, VDouble d') \<Rightarrow> \<not> f_eq ops d d' \<or> IsArray p
      | (VDouble d, VInt32 n) \<Rightarrow> int_of_double ops d \<noteq> n \<or> IsArray p
      | (VInt32 n, VInt32 n') \<Rightarrow> n \<noteq> n' \<or> IsArray p
      | (VInt32 n, VDouble d) \<Rightarrow> \<not> f_eq ops (double_of_int ops n) d \<or> IsArray p
      | (VBool b, VBool b') \<Rightarrow> b \<noteq> b' \<or> IsArray p
      | _ \<Rightarrow> True)"

definition SetValue :: "'d float_ops \<Rightarrow> 'd answers \<Rightarrow> 'd variant \<Rightarrow> ('d, fep_result) action" where
  "SetValue ops ans v parents p =
     (let p' = set_values [v] p
      in if bNotify ops v p
         then let (nResult, ns) = NotifyListeners ans PropertyChange p' (p' # parents) in (nResult, p', ns)
         else (ERR_NOERROR, p', []))"

definition converted :: "'d float_ops \<Rightarrow> 'd variant \<Rightarrow> 'd variant \<Rightarrow> 'd variant option" where
  "converted ops v first =
     (case (v, first) of
        (VString s, VString _) \<Rightarrow> Some v
      | (VDouble d, VDouble _) \<Rightarrow> Some v
      | (VDouble d, VInt32 _) \<Rightarrow> Some (VInt32 (int_of_double ops d))
      | (VInt32 n, VInt32 _) \<Rightarrow> Some v
      | (VInt32 n, VDouble _) \<Rightarrow> Some (VDouble (double_of_int ops n))
      | (VBool b, VBool _) \<Rightarrow> Some v
      | _ \<Rightarrow> None)"

definition AppendValue :: "'d float_ops \<Rightarrow> 'd answers \<Rightarrow> 'd variant \<Rightarrow> ('d, fep_result) action" where
  "AppendValue ops ans v parents p =
     (case converted ops v (hd (m_vecValues p)) of
        None \<Rightarrow> (ERR_INVALID_TYPE, p, [])
      | Some v \<Rightarrow>
          let p' = set_values (m_vecValues p @ [v]) p;
              (nResult, ns) = NotifyListeners ans PropertyChange p' (p' # parents)
          in (nResult, p', ns))"

fun append_all :: "'d float_ops \<Rightarrow> 'd answers \<Rightarrow> 'd variant list \<Rightarrow> ('d, fep_result) action" where
  "append_all ops ans [] parents p = (ERR_NOERROR, p, [])"
| "append_all ops ans (v # vs) parents p =
     (let (_, p, ns) = AppendValue ops ans v parents p;
          (r, p, ns') = append_all ops ans vs parents p
      in (r, p, ns @ ns'))"

text \<open>The results of the single steps are dropped.\<close>

definition CopyPropertyValue :: "'d float_ops \<Rightarrow> 'd answers \<Rightarrow> 'd property \<Rightarrow> ('d, fep_result) action" where
  "CopyPropertyValue ops ans source parents p =
     (let (_, p, ns) = SetValue ops ans (hd (m_vecValues source)) parents p;
          (_, p, ns') = append_all ops ans (tl (m_vecValues source)) parents p
      in (ERR_NOERROR, p, ns @ ns'))"

definition RegisterListener :: "nat \<Rightarrow> ('d, fep_result) action" where
  "RegisterListener l parents p = (ERR_NOERROR, set_listeners (m_vecListeners p @ [l]) p, [])"

text \<open>
  \<open>std::remove\<close> moves what stays to the front and leaves the rest of the vector as it is; only the one element at
  the new end is then erased.
\<close>

definition std_remove :: "'a \<Rightarrow> 'a list \<Rightarrow> 'a list \<times> nat" where
  "std_remove x xs = (let kept = filter (\<lambda>y. y \<noteq> x) xs in (kept @ drop (length kept) xs, length kept))"

definition UnregisterListener :: "nat \<Rightarrow> ('d, fep_result) action" where
  "UnregisterListener l parents p =
     (let (vec, itListener) = std_remove l (m_vecListeners p)
      in if itListener = length vec then (ERR_NOT_FOUND, set_listeners vec p, [])
         else (ERR_NOERROR, set_listeners (take itListener vec @ drop (Suc itListener) vec) p, []))"

definition ClearListeners :: "('d, fep_result) action" where
  "ClearListeners parents p = (ERR_NOERROR, set_listeners [] p, [])"

text \<open>
  \<open>SetName\<close> replaces the last part of the path. The comparison that is to decide about a notification comes
  after the assignment, so it never differs; the paths of the subproperties stay.
\<close>

definition directory :: "string \<Rightarrow> string" where
  "directory path = rev (dropWhile (\<lambda>c. c \<noteq> CHR ''.'') (rev path))"

definition SetName :: "'d answers \<Rightarrow> string \<Rightarrow> ('d, fep_result) action" where
  "SetName ans strName parents p =
     (if strName = [] \<and> m_lstSubproperties p \<noteq> [] then (ERR_EMPTY, p, [])
      else
        let p = set_path (directory (m_strPath p) @ strName) (set_name strName p)
        in if m_strName p \<noteq> strName
           then let (nResult, ns) = NotifyListeners ans PropertyChange p (p # parents) in (nResult, p, ns)
           else (ERR_NOERROR, p, []))"

section \<open>Subproperties\<close>

fun find_sub :: "string \<Rightarrow> 'd property list \<Rightarrow> nat option" where
  "find_sub strName [] = None"
| "find_sub strName (p # ps) = (if m_strName p = strName then Some 0 else map_option Suc (find_sub strName ps))"

definition sub_path :: "string \<Rightarrow> string \<Rightarrow> string" where
  "sub_path parent strName = (if parent = [] then strName else parent @ [CHR ''.''] @ strName)"

text \<open>\<open>SetParent\<close> for a property whose parent stays: the new path, and if it differs also those below.\<close>

fun update_paths :: "string \<Rightarrow> 'd property \<Rightarrow> 'd property" where
  "update_paths parent (Property n path vs ls subs) =
     (let strNewPath = sub_path parent n
      in if strNewPath = path then Property n path vs ls subs
         else Property n strNewPath vs ls (map (update_paths strNewPath) subs))"

text \<open>\<open>AddSubproperty\<close> for a property that has no parent yet.\<close>

definition AddSubproperty :: "'d answers \<Rightarrow> 'd property \<Rightarrow> ('d, fep_result) action" where
  "AddSubproperty ans c parents p =
     (if m_strName c = [] then (ERR_EMPTY, p, [])
      else
        let c = update_paths (m_strPath p) c;
            p = set_subs (m_lstSubproperties p @ [c]) p;
            (nResult, ns) = NotifyListeners ans PropertyAdd c (p # parents)
        in (nResult, p, ns))"

text \<open>The constructors without a parent, and with one: a name that is empty is refused, silently.\<close>

definition new_property :: "string \<Rightarrow> 'd variant \<Rightarrow> 'd property" where
  "new_property strName v = Property strName strName [v] [] []"

definition make_sub :: "'d answers \<Rightarrow> string \<Rightarrow> 'd variant \<Rightarrow> ('d, unit) action" where
  "make_sub ans strName v parents p =
     (let (_, p, ns) = AddSubproperty ans (Property strName [] [v] [] []) parents p in ((), p, ns))"

text \<open>The destructor: a property is announced before its subproperties, while its parents still know it.\<close>

fun delete_events :: "'d property list \<Rightarrow> 'd property \<Rightarrow> 'd prop_event list" where
  "delete_events parents (Property n path vs ls subs) =
     (let p = Property n path vs ls subs
      in snd (NotifyListeners (\<lambda>_. ERR_NOERROR) PropertyDelete p (p # parents)) @
         concat (map (delete_events (p # parents)) subs))"

definition ClearSubproperties :: "('d, fep_result) action" where
  "ClearSubproperties parents p =
     (ERR_NOERROR, set_subs [] p, concat (map (delete_events (p # parents)) (m_lstSubproperties p)))"

definition DeleteSubproperty :: "string \<Rightarrow> ('d, fep_result) action" where
  "DeleteSubproperty strName parents p =
     (case find_sub strName (m_lstSubproperties p) of
        None \<Rightarrow> (ERR_NOT_FOUND, p, [])
      | Some i \<Rightarrow>
          (ERR_NOERROR, set_subs (take i (m_lstSubproperties p) @ drop (Suc i) (m_lstSubproperties p)) p,
           delete_events (p # parents) (m_lstSubproperties p ! i)))"

definition in_sub :: "nat \<Rightarrow> ('d, 'r) action \<Rightarrow> ('d, 'r) action" where
  "in_sub i f parents p =
     (let (r, c, ns) = f (p # parents) (m_lstSubproperties p ! i)
      in (r, set_subs ((m_lstSubproperties p)[i := c]) p, ns))"

definition SetSubproperty :: "'d float_ops \<Rightarrow> 'd answers \<Rightarrow> string \<Rightarrow> 'd variant \<Rightarrow> ('d, fep_result) action" where
  "SetSubproperty ops ans strName v parents p =
     (case find_sub strName (m_lstSubproperties p) of
        Some i \<Rightarrow> in_sub i (SetValue ops ans v) parents p
      | None \<Rightarrow> let (_, p, ns) = make_sub ans strName v parents p in (ERR_NOERROR, p, ns))"

subsection \<open>Paths\<close>

text \<open>The parts of a relative path, as \<open>GetOrMakeSubproperty\<close> takes them off one by one.\<close>

function segments :: "string \<Rightarrow> string list" where
  "segments [] = []"
| "segments (c # path) =
     takeWhile (\<lambda>c. c \<noteq> CHR ''.'') (c # path) # segments (tl (dropWhile (\<lambda>c. c \<noteq> CHR ''.'') (c # path)))"
  by pat_completeness auto
termination
proof (relation "measure length")
  fix c :: char and path
  show "(tl (dropWhile (\<lambda>c. c \<noteq> CHR ''.'') (c # path)), c # path) \<in> measure length"
    using length_dropWhile_le [of "\<lambda>c. c \<noteq> CHR ''.''" path] by auto
qed simp

text \<open>
  \<open>GetOrMakeSubproperty\<close> and what is then done with the property it returns. A part that is empty has no
  property and none can be added: the property that is created hangs below its parent, but is not in its list,
  and is never seen again.
\<close>

fun with_sub ::
    "'d answers \<Rightarrow> bool \<Rightarrow> 'd variant \<Rightarrow> ('d, 'r) action \<Rightarrow> string list \<Rightarrow> ('d, 'r option) action" where
  "with_sub ans bMake v f [] parents p = (let (r, p, ns) = f parents p in (Some r, p, ns))"
| "with_sub ans bMake v f (strCurrent # rest) parents p =
     (case find_sub strCurrent (m_lstSubproperties p) of
        Some i \<Rightarrow> in_sub i (with_sub ans bMake v f rest) parents p
      | None \<Rightarrow>
          if \<not> bMake then (None, p, [])
          else
            let value = (if rest = [] then v else VString []) in
            if strCurrent = [] then
              (let (r, _, ns) = with_sub ans bMake v f rest (p # parents) (Property [] [] [value] [] []) in (r, p, ns))
            else
              (let (_, p, ns) = make_sub ans strCurrent value parents p;
                   (r, p, ns') = in_sub (length (m_lstSubproperties p) - 1) (with_sub ans bMake v f rest) parents p
               in (r, p, ns @ ns')))"

section \<open>The tree\<close>

definition new_tree :: "'d property" where
  "new_tree = new_property [] (VString [])"

definition GetProperty :: "string \<Rightarrow> 'd property \<Rightarrow> 'd property option" where
  "GetProperty path root =
     fst (with_sub (\<lambda>_. ERR_NOERROR) False (VString []) (\<lambda>parents p. (p, p, [])) (segments path) [] root)"

text \<open>Something done with the property at a path, if there is one.\<close>

definition at_property :: "fep_result \<Rightarrow> ('d, fep_result) action \<Rightarrow> string \<Rightarrow> 'd property \<Rightarrow>
    fep_result \<times> 'd property \<times> 'd prop_event list" where
  "at_property not_found f path root =
     (case with_sub (\<lambda>_. ERR_NOERROR) False (VString []) f (segments path) [] root of
        (None, root, ns) \<Rightarrow> (not_found, root, ns)
      | (Some r, root, ns) \<Rightarrow> (r, root, ns))"

definition SetPropertyValue ::
    "'d float_ops \<Rightarrow> 'd answers \<Rightarrow> string \<Rightarrow> 'd variant \<Rightarrow> 'd property \<Rightarrow>
     fep_result \<times> 'd property \<times> 'd prop_event list" where
  "SetPropertyValue ops ans path v root =
     (let (r, root, ns) = with_sub ans True v (SetValue ops ans v) (segments path) [] root in (the r, root, ns))"

definition GetPropertyValue :: "('d property \<Rightarrow> fep_result + 'v) \<Rightarrow> string \<Rightarrow> 'd property \<Rightarrow> fep_result + 'v" where
  "GetPropertyValue get path root =
     (case GetProperty path root of None \<Rightarrow> Inl ERR_PATH_NOT_FOUND | Some p \<Rightarrow> get p)"

definition tree_RegisterListener where
  "tree_RegisterListener path l root = at_property ERR_FAILED (RegisterListener l) path root"

definition tree_UnregisterListener where
  "tree_UnregisterListener path l root = at_property ERR_FAILED (UnregisterListener l) path root"

text \<open>Every round of the loop deletes the first subproperty, looked up by its name.\<close>

fun delete_first :: "nat \<Rightarrow> ('d, unit) action" where
  "delete_first 0 parents p = ((), p, [])"
| "delete_first (Suc n) parents p =
     (case m_lstSubproperties p of
        [] \<Rightarrow> ((), p, [])
      | c # _ \<Rightarrow>
          let (_, p, ns) = DeleteSubproperty (m_strName c) parents p;
              (u, p, ns') = delete_first n parents p
          in (u, p, ns @ ns'))"

definition empty_value :: "'d float_ops \<Rightarrow> 'd property \<Rightarrow> 'd variant" where
  "empty_value ops p =
     (case hd (m_vecValues p) of VString _ \<Rightarrow> VString [] | VBool _ \<Rightarrow> VBool False | VDouble _ \<Rightarrow> VDouble (f_zero ops)
      | VInt32 _ \<Rightarrow> VInt32 0)"

definition clear_action :: "'d float_ops \<Rightarrow> 'd answers \<Rightarrow> ('d, fep_result) action" where
  "clear_action ops ans parents p =
     (let (nResult, p, ns) = SetValue ops ans (empty_value ops p) parents p;
          (_, p, ns') = delete_first (length (m_lstSubproperties p)) parents p
      in (nResult, p, ns @ ns'))"

definition ClearProperty where
  "ClearProperty ops ans path root = at_property ERR_PATH_NOT_FOUND (clear_action ops ans) path root"

text \<open>The parent of the property at a path is reached by the path without its last part.\<close>

definition DeleteProperty :: "string \<Rightarrow> 'd property \<Rightarrow> fep_result \<times> 'd property \<times> 'd prop_event list" where
  "DeleteProperty path root =
     (if segments path = [] then (ERR_FAILED, root, [])
      else case GetProperty path root of
          None \<Rightarrow> (ERR_PATH_NOT_FOUND, root, [])
        | Some p \<Rightarrow>
            (case with_sub (\<lambda>_. ERR_NOERROR) False (VString []) (DeleteSubproperty (m_strName p))
                (butlast (segments path)) [] root of
               (None, root, ns) \<Rightarrow> (ERR_PATH_NOT_FOUND, root, ns)
             | (Some r, root, ns) \<Rightarrow> (r, root, ns)))"

text \<open>\<open>MergeProperty\<close>: a copy of a foreign property, with its subproperties, below a path.\<close>

fun MergeProperty ::
    "'d float_ops \<Rightarrow> 'd answers \<Rightarrow> string \<Rightarrow> 'd property \<Rightarrow> 'd property \<Rightarrow> 'd property \<times> 'd prop_event list" where
  "MergeProperty ops ans path (Property n pth vs ls subs) root =
     (let strPath = (if path \<noteq> [] then path @ [CHR ''.''] else path) @ n;
          (_, root, ns) = with_sub ans True (hd vs) (CopyPropertyValue ops ans (Property n pth vs ls subs))
            (segments strPath) [] root
      in fold (\<lambda>sub (root, ns). let (root, ns') = MergeProperty ops ans strPath sub root in (root, ns @ ns')) subs (root, ns))"

section \<open>The tree as a map from paths\<close>

fun lookup :: "'d property \<Rightarrow> string list \<Rightarrow> 'd property option" where
  "lookup p [] = Some p"
| "lookup p (s # ss) =
     (case find_sub s (m_lstSubproperties p) of None \<Rightarrow> None | Some i \<Rightarrow> lookup (m_lstSubproperties p ! i) ss)"

lemma set_subs_twice [simp]: "set_subs a (set_subs b p) = set_subs a p" "set_subs (m_lstSubproperties p) p = p"
  by (cases p; simp)+

fun join :: "string list \<Rightarrow> string" where
  "join [] = []"
| "join [s] = s"
| "join (s # t # ss) = s @ CHR ''.'' # join (t # ss)"

definition part_ok :: "string \<Rightarrow> bool" where
  "part_ok s \<longleftrightarrow> s \<noteq> [] \<and> CHR ''.'' \<notin> set s"

definition path_ok :: "string list \<Rightarrow> bool" where
  "path_ok ss \<longleftrightarrow> (\<forall>s \<in> set ss. part_ok s)"

lemma path_ok_simps [simp]: "path_ok []" "path_ok (s # ss) \<longleftrightarrow> part_ok s \<and> path_ok ss"
  "path_ok (ss @ ts) \<longleftrightarrow> path_ok ss \<and> path_ok ts"
  by (auto simp: path_ok_def)

lemma split_at_dot:
  assumes "CHR ''.'' \<notin> set s"
  shows "takeWhile (\<lambda>c. c \<noteq> CHR ''.'') s = s" "dropWhile (\<lambda>c. c \<noteq> CHR ''.'') s = []"
    "takeWhile (\<lambda>c. c \<noteq> CHR ''.'') (s @ CHR ''.'' # rest) = s"
    "dropWhile (\<lambda>c. c \<noteq> CHR ''.'') (s @ CHR ''.'' # rest) = CHR ''.'' # rest"
  using assms by (induction s) auto

lemma segments_part: "part_ok s \<Longrightarrow> segments s = [s]"
  by (cases s) (auto simp: part_ok_def split_at_dot)

lemma segments_dot: "part_ok s \<Longrightarrow> segments (s @ CHR ''.'' # rest) = s # segments rest"
  by (cases s) (auto simp: part_ok_def split_at_dot)

lemma segments_join [simp]: "path_ok ss \<Longrightarrow> segments (join ss) = ss"
  by (induction ss rule: join.induct) (auto simp: segments_part segments_dot)

lemma segments_no_dot: "s \<in> set (segments path) \<Longrightarrow> CHR ''.'' \<notin> set s"
  by (induction path rule: segments.induct) (auto dest: set_takeWhileD)

subsection \<open>Finding a subproperty\<close>

lemma find_sub_Some: "find_sub s ps = Some i \<Longrightarrow> i < length ps \<and> m_strName (ps ! i) = s"
  by (induction ps arbitrary: i) (auto split: if_splits)

lemma find_sub_None: "find_sub s ps = None \<longleftrightarrow> s \<notin> m_strName ` set ps"
  by (induction ps) auto

lemma find_sub_update [simp]:
  "i < length ps \<Longrightarrow> m_strName c = m_strName (ps ! i) \<Longrightarrow> find_sub s (ps[i := c]) = find_sub s ps"
proof (induction ps arbitrary: i)
  case (Cons p ps)
  then show ?case by (cases i) auto
qed simp

lemma find_sub_append:
  "find_sub s (ps @ [c]) = (case find_sub s ps of Some i \<Rightarrow> Some i | None \<Rightarrow> if m_strName c = s then Some (length ps) else None)"
  by (induction ps) (auto split: option.splits)

lemma find_sub_distinct:
  "distinct (map m_strName ps) \<Longrightarrow> i < length ps \<Longrightarrow> find_sub (m_strName (ps ! i)) ps = Some i"
proof (induction ps arbitrary: i)
  case (Cons p ps)
  then show ?case by (cases i) auto
qed simp

lemma find_sub_delete:
  assumes "distinct (map m_strName ps)" "i < length ps"
  shows "find_sub s (take i ps @ drop (Suc i) ps) =
    (if s = m_strName (ps ! i) then None
     else map_option (\<lambda>j. if j < i then j else j - 1) (find_sub s ps))"
  using assms
proof (induction ps arbitrary: i)
  case (Cons p ps)
  show ?case
  proof (cases i)
    case 0
    then show ?thesis using Cons.prems by (auto simp: find_sub_None option.map_comp comp_def option.map_ident split: if_splits)
  next
    case (Suc k)
    have "j \<noteq> k" if "find_sub s ps = Some j" "s \<noteq> m_strName (ps ! k)" for j
      using find_sub_Some [OF that(1)] that(2) by auto
    with Suc Cons show ?thesis by (cases "find_sub s ps") (auto simp: nat_diff_split)
  qed
qed simp

subsection \<open>Operations at a path\<close>

lemma with_sub_get: "with_sub ans False v (\<lambda>parents p. (p, p, [])) ss parents p = (lookup p ss, p, [])"
proof (induction ss arbitrary: p parents)
  case (Cons s ss)
  show ?case
  proof (cases "find_sub s (m_lstSubproperties p)")
    case (Some i)
    with Cons show ?thesis by (cases p) (simp add: in_sub_def)
  qed simp
qed simp

lemma GetProperty_lookup: "GetProperty path root = lookup root (segments path)"
  by (simp add: GetProperty_def with_sub_get)

text \<open>What an operation leaves as it is: the name and the path of the property, and the names below.\<close>

definition keeps :: "('d, 'r) action \<Rightarrow> bool" where
  "keeps f \<longleftrightarrow> (\<forall>parents p r p' ns. f parents p = (r, p', ns) \<longrightarrow> m_strName p' = m_strName p \<and> m_strPath p' = m_strPath p)"

lemma keepsD: "keeps f \<Longrightarrow> f parents p = (r, p', ns) \<Longrightarrow> m_strName p' = m_strName p \<and> m_strPath p' = m_strPath p"
  unfolding keeps_def by blast

lemma keeps_in_sub: "keeps (in_sub i f)"
  by (auto simp: keeps_def in_sub_def split: prod.splits)

lemma in_subE:
  assumes "in_sub i f parents p = (r, p', ns)"
  obtains c where "f (p # parents) (m_lstSubproperties p ! i) = (r, c, ns)" "p' = set_subs ((m_lstSubproperties p)[i := c]) p"
  using assms by (auto simp: in_sub_def split: prod.splits)

lemma make_sub_eq:
  "strName \<noteq> [] \<Longrightarrow> make_sub ans strName v parents p =
    ((), set_subs (m_lstSubproperties p @ [Property strName (sub_path (m_strPath p) strName) [v] [] []]) p,
     snd (NotifyListeners ans PropertyAdd (Property strName (sub_path (m_strPath p) strName) [v] [] [])
       (set_subs (m_lstSubproperties p @ [Property strName (sub_path (m_strPath p) strName) [v] [] []]) p # parents)))"
  by (auto simp: make_sub_def AddSubproperty_def Let_def sub_path_def split: prod.splits)

lemma keeps_make_sub: "keeps (make_sub ans strName v)"
  by (auto simp: keeps_def make_sub_def AddSubproperty_def Let_def split: prod.splits if_splits)

lemma keeps_with_sub:
  assumes "keeps f"
  shows "keeps (with_sub ans bMake v f ss)"
proof (induction ss)
  case Nil
  then show ?case using assms by (auto simp: keeps_def split: prod.splits)
next
  case (Cons s ss)
  show ?case
    unfolding keeps_def
  proof (intro allI impI)
    fix parents :: "'a property list" and p r p' ns
    assume *: "with_sub ans bMake v f (s # ss) parents p = (r, p', ns)"
    show "m_strName p' = m_strName p \<and> m_strPath p' = m_strPath p"
    proof (cases "find_sub s (m_lstSubproperties p)")
      case (Some i)
      then show ?thesis using * keepsD [OF keeps_in_sub] by simp
    next
      case None
      then show ?thesis
        using * by (auto simp: Let_def split: prod.splits if_splits dest!: keepsD [OF keeps_make_sub] keepsD [OF keeps_in_sub])
    qed
  qed
qed


definition view :: "('d property \<Rightarrow> 'v) \<Rightarrow> 'd property \<Rightarrow> string list \<Rightarrow> 'v option" where
  "view g p ss = map_option g (lookup p ss)"

lemma view_Nil [simp]: "view g p [] = Some (g p)"
  by (simp add: view_def)

lemma view_Cons:
  "view g p (s # ss) =
    (case find_sub s (m_lstSubproperties p) of None \<Rightarrow> None | Some i \<Rightarrow> view g (m_lstSubproperties p ! i) ss)"
  by (simp add: view_def split: option.splits)

lemma view_prefix: "lookup p ss = Some t \<Longrightarrow> view g p (ss @ ts) = view g t ts"
  by (induction ss arbitrary: p) (auto simp: view_Cons split: option.splits)

lemma view_drop: "lookup p ss = Some t \<Longrightarrow> prefix ss q \<Longrightarrow> view g t (drop (length ss) q) = view g p q"
  using view_prefix [of p ss t g "drop (length ss) q"] by (auto simp: prefix_def)

text \<open>What is seen of a property itself, without its subproperties.\<close>

locale node_view =
  fixes g :: "'d property \<Rightarrow> 'v"
  assumes g_set_subs [simp]: "g (set_subs subs p) = g p"
begin

lemma view_set_subs:
  "view g (set_subs subs p) q =
    (case q of [] \<Rightarrow> Some (g p)
     | t # ts \<Rightarrow> (case find_sub t subs of None \<Rightarrow> None | Some i \<Rightarrow> view g (subs ! i) ts))"
  by (cases q) (simp_all add: view_Cons split: option.splits)

lemma view_update:
  assumes "find_sub s (m_lstSubproperties p) = Some i" "m_strName c = s"
  shows "view g (set_subs ((m_lstSubproperties p)[i := c]) p) (t # ts) = (if t = s then view g c ts else view g p (t # ts))"
proof -
  have i: "i < length (m_lstSubproperties p)" "m_strName (m_lstSubproperties p ! i) = s" using find_sub_Some [OF assms(1)] by auto
  then have f: "find_sub t ((m_lstSubproperties p)[i := c]) = find_sub t (m_lstSubproperties p)" using assms(2) by simp
  show ?thesis
  proof (cases "t = s")
    case True
    then show ?thesis using f assms i by (simp add: view_set_subs)
  next
    case False
    have "j \<noteq> i" if "find_sub t (m_lstSubproperties p) = Some j" for j using find_sub_Some [OF that] i(2) False by auto
    then show ?thesis using f False by (auto simp: view_set_subs view_Cons split: option.splits)
  qed
qed

end

interpretation vals: node_view m_vecValues
  by unfold_locales simp

interpretation lsts: node_view m_vecListeners
  by unfold_locales simp

abbreviation values_at :: "'d property \<Rightarrow> string list \<Rightarrow> 'd variant list option" where
  "values_at \<equiv> view m_vecValues"

definition writes :: "'d variant list \<Rightarrow> ('d, 'r) action \<Rightarrow> bool" where
  "writes vs f \<longleftrightarrow> keeps f \<and>
     (\<forall>parents p r p' ns. f parents p = (r, p', ns) \<longrightarrow> m_vecValues p' = vs \<and> m_lstSubproperties p' = m_lstSubproperties p)"

lemma writesD:
  assumes "writes vs f" "f parents p = (r, p', ns)"
  shows "m_vecValues p' = vs" "m_lstSubproperties p' = m_lstSubproperties p" "m_strName p' = m_strName p"
    "m_strPath p' = m_strPath p"
  using assms unfolding writes_def keeps_def by blast+

lemma values_at_with_sub:
  assumes f: "writes vs f" and ss: "\<forall>s \<in> set ss. s \<noteq> []" and w: "with_sub ans True v f ss parents p = (r, p', ns)"
  shows "values_at p' q =
    (if q = ss then Some vs else if values_at p q \<noteq> None then values_at p q
     else if strict_prefix q ss then Some [VString []] else None)"
  using ss w
proof (induction ss arbitrary: parents p r p' ns q)
  case Nil
  obtain r' where "f parents p = (r', p', ns)" using Nil(2) by (auto split: prod.splits)
  from writesD [OF f this] show ?case by (cases q) (simp_all add: view_Cons split: option.splits)
next
  case (Cons s ss)
  let ?subs = "m_lstSubproperties p"
  have keep: "keeps (with_sub ans True v f ss)" using f by (intro keeps_with_sub) (simp add: writes_def)
  show ?case
  proof (cases "find_sub s ?subs")
    case (Some i)
    then have "in_sub i (with_sub ans True v f ss) parents p = (r, p', ns)" using Cons.prems(2) by simp
    then obtain c where c: "with_sub ans True v f ss (p # parents) (?subs ! i) = (r, c, ns)" "p' = set_subs (?subs[i := c]) p"
      by (rule in_subE)
    have "m_strName c = s" using keepsD [OF keep c(1)] find_sub_Some [OF Some] by simp
    note at = vals.view_update [OF Some this]
    have IH: "values_at c ts = (if ts = ss then Some vs else if values_at (?subs ! i) ts \<noteq> None then values_at (?subs ! i) ts
        else if strict_prefix ts ss then Some [VString []] else None)" for ts
      using Cons.IH [OF _ c(1)] Cons.prems(1) by simp
    show ?thesis
    proof (cases q)
      case (Cons t ts)
      show ?thesis
      proof (cases "t = s")
        case True
        then show ?thesis using IH [of ts] at [of s ts] Some unfolding Cons c(2) by (simp add: view_Cons)
      next
        case False
        then show ?thesis using at [of t ts] unfolding Cons c(2) by simp
      qed
    qed (use c(2) in \<open>simp add: vals.view_set_subs\<close>)
  next
    case None
    define v0 where "v0 = (if ss = [] then v else VString [])"
    define c0 where "c0 = Property s (sub_path (m_strPath p) s) [v0] [] []"
    let ?p1 = "set_subs (?subs @ [c0]) p"
    have s: "s \<noteq> []" using Cons.prems(1) by simp
    have "\<exists>ns'. in_sub (length ?subs) (with_sub ans True v f ss) parents ?p1 = (r, p', ns')"
      using Cons.prems(2) None s by (simp add: make_sub_eq [OF s] Let_def c0_def v0_def split: prod.splits if_splits)
    then obtain ns' c where c: "with_sub ans True v f ss (?p1 # parents) c0 = (r, c, ns')" "p' = set_subs (?subs @ [c]) p"
      by (auto elim!: in_subE)
    have name: "m_strName c = s" using keepsD [OF keep c(1)] by (simp add: c0_def)
    have IH: "values_at c ts = (if ts = ss then Some vs else if values_at c0 ts \<noteq> None then values_at c0 ts
        else if strict_prefix ts ss then Some [VString []] else None)" for ts
      using Cons.IH [OF _ c(1)] Cons.prems(1) by simp
    have c0: "values_at c0 ts = (if ts = [] then Some [v0] else None)" for ts
      by (cases ts) (simp_all add: view_Cons c0_def)
    show ?thesis
    proof (cases q)
      case (Cons t ts)
      show ?thesis
      proof (cases "t = s")
        case True
        then have "values_at p' q = values_at c ts"
          using None name unfolding Cons c(2) by (simp add: vals.view_set_subs find_sub_append)
        then show ?thesis using True None IH [of ts] c0 [of ts] unfolding Cons
          by (auto simp: view_Cons v0_def strict_prefix_def)
      next
        case False
        have "values_at p' q = values_at p q"
        proof (cases "find_sub t ?subs")
          case (Some j)
          then show ?thesis using find_sub_Some [OF Some] unfolding Cons c(2)
            by (simp add: vals.view_set_subs find_sub_append view_Cons nth_append)
        next
          case None
          then show ?thesis using False name unfolding Cons c(2)
            by (simp add: vals.view_set_subs find_sub_append view_Cons)
        qed
        then show ?thesis using False unfolding Cons by simp
      qed
    qed (use c(2) in \<open>simp add: vals.view_set_subs\<close>)
  qed
qed

subsection \<open>Operations at a property that is there\<close>

fun ancestors :: "'d property \<Rightarrow> string list \<Rightarrow> 'd property list" where
  "ancestors p [] = []"
| "ancestors p (s # ss) =
     (case find_sub s (m_lstSubproperties p) of None \<Rightarrow> []
      | Some i \<Rightarrow> ancestors (m_lstSubproperties p ! i) ss @ [p])"

lemma with_sub_found:
  "lookup p ss = Some t \<Longrightarrow> f (ancestors p ss @ parents) t = (r, t', ns) \<Longrightarrow>
   \<exists>p'. with_sub ans bMake v f ss parents p = (Some r, p', ns)"
proof (induction ss arbitrary: p parents)
  case (Cons s ss)
  then obtain i where i: "find_sub s (m_lstSubproperties p) = Some i" by (auto split: option.splits)
  with Cons.prems Cons.IH [of "m_lstSubproperties p ! i" "p # parents"] show ?case
    by (auto simp: in_sub_def)
qed simp

lemma with_sub_missing: "lookup p ss = None \<Longrightarrow> with_sub ans False v f ss parents p = (None, p, [])"
proof (induction ss arbitrary: p parents)
  case (Cons s ss)
  show ?case
  proof (cases "find_sub s (m_lstSubproperties p)")
    case (Some i)
    with Cons show ?thesis by (simp add: in_sub_def)
  qed simp
qed simp

text \<open>The values after an operation at a property that is there, whatever it does below.\<close>

context node_view begin

lemma view_found:
  assumes "lookup p ss = Some t" "with_sub ans bMake v f ss parents p = (r, p', ns)" "keeps f"
  shows "\<exists>t' ns. f (ancestors p ss @ parents) t = (the r, t', ns) \<and>
    view g p' q = (if prefix ss q then view g t' (drop (length ss) q) else view g p q)"
  using assms
proof (induction ss arbitrary: p parents q r p' ns)
  case Nil
  then show ?case by (auto split: prod.splits)
next
  case (Cons s ss)
  let ?subs = "m_lstSubproperties p"
  obtain i where i: "find_sub s ?subs = Some i" "lookup (?subs ! i) ss = Some t"
    using Cons.prems(1) by (auto split: option.splits)
  obtain c where c: "with_sub ans bMake v f ss (p # parents) (?subs ! i) = (r, c, ns)" "p' = set_subs (?subs[i := c]) p"
    using Cons.prems(2) i by (auto elim: in_subE)
  have "m_strName c = s" using keepsD [OF keeps_with_sub [OF Cons.prems(3)] c(1)] find_sub_Some [OF i(1)] by simp
  note at = view_update [OF i(1) this]
  obtain t' ns' where t': "f (ancestors (?subs ! i) ss @ p # parents) t = (the r, t', ns')"
    using Cons.IH [OF i(2) c(1) Cons.prems(3)] by blast
  have IH: "view g c ts = (if prefix ss ts then view g t' (drop (length ss) ts) else view g (?subs ! i) ts)" for ts
    using Cons.IH [OF i(2) c(1) Cons.prems(3), of ts] t' by auto
  have "view g p' q = (if prefix (s # ss) q then view g t' (drop (length (s # ss)) q) else view g p q)"
  proof (cases q)
    case (Cons u us)
    then show ?thesis using IH [of us] at [of u us] i(1) unfolding c(2) by (auto simp: view_Cons)
  qed (use c(2) in \<open>simp add: view_set_subs\<close>)
  then show ?case using t' i(1) by auto
qed

end

section \<open>The invariant of the tree\<close>

fun same_type :: "'d variant \<Rightarrow> 'd variant \<Rightarrow> bool" where
  "same_type (VString _) v = is_VString v"
| "same_type (VDouble _) v = is_VDouble v"
| "same_type (VInt32 _) v = is_VInt32 v"
| "same_type (VBool _) v = is_VBool v"

lemma same_type_refl [simp]: "same_type v v"
  by (cases v) auto

text \<open>
  A property has at least one value and all are of one type; its subproperties have different names without a dot,
  and their paths begin with its own.
\<close>

definition values_ok :: "'d variant list \<Rightarrow> bool" where
  "values_ok vs \<longleftrightarrow> vs \<noteq> [] \<and> (\<forall>v \<in> set vs. same_type (hd vs) v)"

fun prop_ok :: "'d property \<Rightarrow> bool" where
  "prop_ok (Property n path vs ls subs) \<longleftrightarrow> values_ok vs \<and> distinct (map m_strName subs) \<and>
     (\<forall>c \<in> set subs. part_ok (m_strName c) \<and> m_strPath c = sub_path path (m_strName c) \<and> prop_ok c)"

definition tree_ok :: "'d property \<Rightarrow> bool" where
  "tree_ok root \<longleftrightarrow> m_strName root = [] \<and> m_strPath root = [] \<and> prop_ok root"

definition subs_ok :: "string \<Rightarrow> 'd property list \<Rightarrow> bool" where
  "subs_ok path subs \<longleftrightarrow> distinct (map m_strName subs) \<and>
     (\<forall>c \<in> set subs. part_ok (m_strName c) \<and> m_strPath c = sub_path path (m_strName c) \<and> prop_ok c)"

lemma prop_ok_iff: "prop_ok p \<longleftrightarrow> values_ok (m_vecValues p) \<and> subs_ok (m_strPath p) (m_lstSubproperties p)"
  by (cases p) (auto simp: subs_ok_def)

lemma values_ok_single [simp]: "values_ok [v]"
  by (simp add: values_ok_def)

lemma tree_ok_new: "tree_ok new_tree"
  by (simp add: tree_ok_def new_tree_def new_property_def)

text \<open>An operation that keeps a good property good.\<close>

definition sound :: "('d, 'r) action \<Rightarrow> bool" where
  "sound f \<longleftrightarrow> keeps f \<and> (\<forall>parents p r p' ns. f parents p = (r, p', ns) \<longrightarrow> prop_ok p \<longrightarrow> prop_ok p')"

lemma soundD: "sound f \<Longrightarrow> f parents p = (r, p', ns) \<Longrightarrow> prop_ok p \<Longrightarrow> prop_ok p'"
  unfolding sound_def by blast

lemma sound_keeps: "sound f \<Longrightarrow> keeps f"
  by (simp add: sound_def)

lemma soundI:
  assumes "\<And>parents p r p' ns. f parents p = (r, p', ns) \<Longrightarrow>
    m_strName p' = m_strName p \<and> m_strPath p' = m_strPath p \<and> (prop_ok p \<longrightarrow> prop_ok p')"
  shows "sound f"
  using assms unfolding sound_def keeps_def by blast

lemma sound_SetValue: "sound (SetValue ops ans v)"
  by (rule soundI) (auto simp: SetValue_def Let_def prop_ok_iff split: prod.splits if_splits)

lemma converted_same_type: "converted ops v first = Some w \<Longrightarrow> same_type first w"
  by (cases v; cases first) (auto simp: converted_def)

lemma values_ok_append: "values_ok vs \<Longrightarrow> same_type (hd vs) v \<Longrightarrow> values_ok (vs @ [v])"
  by (auto simp: values_ok_def)

lemma sound_AppendValue: "sound (AppendValue ops ans v)"
  by (rule soundI)
    (auto simp: AppendValue_def Let_def prop_ok_iff intro!: values_ok_append converted_same_type
      split: option.splits prod.splits)

lemma sound_append_all: "sound (append_all ops ans vs)"
proof (induction vs)
  case Nil
  show ?case by (rule soundI) simp
next
  case (Cons v vs)
  show ?case
  proof (rule soundI)
    fix parents :: "'a property list" and p r p' ns
    assume "append_all ops ans (v # vs) parents p = (r, p', ns)"
    then obtain r1 p1 ns1 ns2 where
      1: "AppendValue ops ans v parents p = (r1, p1, ns1)" and 2: "append_all ops ans vs parents p1 = (r, p', ns2)"
      by (auto split: prod.splits)
    show "m_strName p' = m_strName p \<and> m_strPath p' = m_strPath p \<and> (prop_ok p \<longrightarrow> prop_ok p')"
      using keepsD [OF sound_keeps [OF sound_AppendValue] 1] keepsD [OF sound_keeps [OF Cons] 2]
        soundD [OF sound_AppendValue 1] soundD [OF Cons 2] by auto
  qed
qed

lemma sound_CopyPropertyValue: "sound (CopyPropertyValue ops ans source)"
proof (rule soundI)
  fix parents :: "'a property list" and p r p' ns
  assume "CopyPropertyValue ops ans source parents p = (r, p', ns)"
  then obtain r1 p1 ns1 r2 ns2 where
    1: "SetValue ops ans (hd (m_vecValues source)) parents p = (r1, p1, ns1)" and
    2: "append_all ops ans (tl (m_vecValues source)) parents p1 = (r2, p', ns2)"
    by (auto simp: CopyPropertyValue_def split: prod.splits)
  show "m_strName p' = m_strName p \<and> m_strPath p' = m_strPath p \<and> (prop_ok p \<longrightarrow> prop_ok p')"
    using keepsD [OF sound_keeps [OF sound_SetValue] 1] keepsD [OF sound_keeps [OF sound_append_all] 2]
      soundD [OF sound_SetValue 1] soundD [OF sound_append_all 2] by auto
qed

lemma sound_listeners: "sound (RegisterListener l)" "sound (UnregisterListener l)" "sound ClearListeners"
  by (rule soundI; auto simp: RegisterListener_def UnregisterListener_def ClearListeners_def prop_ok_iff Let_def
      split: prod.splits if_splits)+

lemma subs_ok_delete: "subs_ok path subs \<Longrightarrow> subs_ok path (take i subs @ drop (Suc i) subs)"
proof -
  assume ok: "subs_ok path subs"
  have sub: "set (take i subs @ drop (Suc i) subs) \<subseteq> set subs" by (auto dest: in_set_takeD in_set_dropD)
  have "distinct (take i (map m_strName subs) @ drop (Suc i) (map m_strName subs))"
    using ok set_take_disj_set_drop_if_distinct [of "map m_strName subs" i "Suc i"] by (auto simp: subs_ok_def)
  then show ?thesis using ok sub unfolding subs_ok_def by (auto simp: take_map drop_map)
qed

lemma sound_DeleteSubproperty: "sound (DeleteSubproperty n)"
  by (rule soundI) (auto simp: DeleteSubproperty_def prop_ok_iff subs_ok_delete split: option.splits)

lemma subs_ok_update:
  assumes "subs_ok path subs" "i < length subs" "m_strName c = m_strName (subs ! i)" "m_strPath c = m_strPath (subs ! i)" "prop_ok c"
  shows "subs_ok path (subs[i := c])"
proof -
  have "map m_strName (subs[i := c]) = map m_strName subs"
    using assms(2,3) by (simp add: map_update list_update_id [of "map m_strName subs" i, unfolded nth_map [OF assms(2)]])
  moreover have "\<forall>x \<in> set (subs[i := c]). x = c \<or> x \<in> set subs" using set_update_subset_insert by fast
  ultimately show ?thesis using assms unfolding subs_ok_def by (metis nth_mem)
qed

lemma in_sub_ok:
  assumes "in_sub i f parents p = (r, p', ns)" "keeps f" "i < length (m_lstSubproperties p)" "prop_ok p"
    "\<And>r c ns. f (p # parents) (m_lstSubproperties p ! i) = (r, c, ns) \<Longrightarrow> prop_ok (m_lstSubproperties p ! i) \<Longrightarrow> prop_ok c"
  shows "prop_ok p'"
proof -
  obtain c where c: "f (p # parents) (m_lstSubproperties p ! i) = (r, c, ns)" "p' = set_subs ((m_lstSubproperties p)[i := c]) p"
    using assms(1) by (rule in_subE)
  have "prop_ok (m_lstSubproperties p ! i)" using assms(3,4) by (auto simp: prop_ok_iff [of p] subs_ok_def)
  then have "subs_ok (m_strPath p) ((m_lstSubproperties p)[i := c])"
    using assms(3,4,5) c(1) keepsD [OF assms(2) c(1)] by (intro subs_ok_update) (auto simp: prop_ok_iff [of p])
  then show ?thesis using assms(4) c(2) by (simp add: prop_ok_iff)
qed

lemma sound_with_sub:
  assumes f: "sound f" and ss: "\<forall>s \<in> set ss. CHR ''.'' \<notin> set s"
  shows "sound (with_sub ans bMake v f ss)"
proof -
  have "prop_ok p'" if "with_sub ans bMake v f ss parents p = (r, p', ns)" "prop_ok p" for parents p r p' ns
    using ss that
  proof (induction ss arbitrary: parents p r p' ns)
    case Nil
    then show ?case using soundD [OF f] by (auto split: prod.splits)
  next
    case (Cons s ss)
    let ?subs = "m_lstSubproperties p"
    have keep: "keeps (with_sub ans bMake v f ss)" by (rule keeps_with_sub [OF sound_keeps [OF f]])
    have IH: "\<And>parents p r p' ns. with_sub ans bMake v f ss parents p = (r, p', ns) \<Longrightarrow> prop_ok p \<Longrightarrow> prop_ok p'"
      using Cons.IH Cons.prems(1) by auto
    show ?case
    proof (cases "find_sub s ?subs")
      case (Some i)
      then have "in_sub i (with_sub ans bMake v f ss) parents p = (r, p', ns)" using Cons.prems(2) by simp
      from in_sub_ok [OF this keep _ Cons.prems(3) IH] find_sub_Some [OF Some] show ?thesis by simp
    next
      case None
      show ?thesis
      proof (cases "bMake \<and> s \<noteq> []")
        case False
        then show ?thesis using Cons.prems(2,3) None by (auto simp: Let_def split: prod.splits if_splits)
      next
        case True
        define c0 where "c0 = Property s (sub_path (m_strPath p) s) [if ss = [] then v else VString []] [] []"
        let ?p1 = "set_subs (?subs @ [c0]) p"
        have "\<exists>ns'. in_sub (length ?subs) (with_sub ans bMake v f ss) parents ?p1 = (r, p', ns')"
          using Cons.prems(2) None True by (simp add: make_sub_eq Let_def c0_def split: prod.splits if_splits)
        moreover have "part_ok s" using Cons.prems(1) True by (simp add: part_ok_def)
        then have "subs_ok (m_strPath p) (?subs @ [c0])"
          using Cons.prems(3) None by (auto simp: prop_ok_iff [of p] subs_ok_def c0_def find_sub_None)
        then have "prop_ok ?p1" using Cons.prems(3) by (simp add: prop_ok_iff)
        ultimately show ?thesis using in_sub_ok [OF _ keep _ _ IH] by fastforce
      qed
    qed
  qed
  then show ?thesis using keeps_with_sub [OF sound_keeps [OF f]] unfolding sound_def by blast
qed

lemma DeleteSubproperty_first:
  "m_lstSubproperties p = c # cs \<Longrightarrow> \<exists>ns. DeleteSubproperty (m_strName c) parents p = (ERR_NOERROR, set_subs cs p, ns)"
  by (simp add: DeleteSubproperty_def)

lemma delete_first_all:
  "length (m_lstSubproperties p) \<le> n \<Longrightarrow> \<exists>ns. delete_first n parents p = ((), set_subs [] p, ns)"
proof (induction n arbitrary: p)
  case 0
  then show ?case using set_subs_twice(2) [of p] by simp
next
  case (Suc n)
  show ?case
  proof (cases "m_lstSubproperties p")
    case Nil
    then show ?thesis using set_subs_twice(2) [of p] by simp
  next
    case (Cons c cs)
    obtain ns where 1: "DeleteSubproperty (m_strName c) parents p = (ERR_NOERROR, set_subs cs p, ns)"
      using DeleteSubproperty_first [OF Cons] by blast
    have "length (m_lstSubproperties (set_subs cs p)) \<le> n" using Suc.prems Cons by simp
    from Suc.IH [OF this] 1 Cons show ?thesis by (auto split: prod.splits)
  qed
qed

lemma clear_action_eq:
  "\<exists>r ns. clear_action ops ans parents p = (r, set_subs [] (set_values [empty_value ops p] p), ns)"
proof -
  obtain r ns where 1: "SetValue ops ans (empty_value ops p) parents p = (r, set_values [empty_value ops p] p, ns)"
    by (cases "SetValue ops ans (empty_value ops p) parents p") (auto simp: SetValue_def Let_def split: prod.splits if_splits)
  obtain ns' where "delete_first (length (m_lstSubproperties (set_values [empty_value ops p] p))) parents
      (set_values [empty_value ops p] p) = ((), set_subs [] (set_values [empty_value ops p] p), ns')"
    using delete_first_all [of "set_values [empty_value ops p] p"] by blast
  with 1 show ?thesis by (simp add: clear_action_def)
qed

lemma subs_ok_Nil [simp]: "subs_ok path []"
  by (simp add: subs_ok_def)

lemma sound_clear: "sound (clear_action ops ans)"
proof (rule soundI)
  fix parents :: "'a property list" and p r p' ns
  assume "clear_action ops ans parents p = (r, p', ns)"
  then have "p' = set_subs [] (set_values [empty_value ops p] p)" using clear_action_eq [of ops ans parents p] by auto
  then show "m_strName p' = m_strName p \<and> m_strPath p' = m_strPath p \<and> (prop_ok p \<longrightarrow> prop_ok p')"
    by (simp add: prop_ok_iff)
qed

subsection \<open>Operations on the tree\<close>

datatype 'd tree_op =
    OpSet string "'d variant"
  | OpAppend string "'d variant"
  | OpRegister string nat
  | OpUnregister string nat
  | OpClear string
  | OpDelete string
  | OpMerge string "'d property"

fun tree_step :: "'d float_ops \<Rightarrow> 'd answers \<Rightarrow> 'd tree_op \<Rightarrow> 'd property \<Rightarrow> 'd property" where
  "tree_step ops ans (OpSet path v) root = fst (snd (SetPropertyValue ops ans path v root))"
| "tree_step ops ans (OpAppend path v) root = fst (snd (at_property ERR_FAILED (AppendValue ops ans v) path root))"
| "tree_step ops ans (OpRegister path l) root = fst (snd (tree_RegisterListener path l root))"
| "tree_step ops ans (OpUnregister path l) root = fst (snd (tree_UnregisterListener path l root))"
| "tree_step ops ans (OpClear path) root = fst (snd (ClearProperty ops ans path root))"
| "tree_step ops ans (OpDelete path) root = fst (snd (DeleteProperty path root))"
| "tree_step ops ans (OpMerge path p) root = fst (MergeProperty ops ans path p root)"

definition tree_run :: "'d float_ops \<Rightarrow> 'd answers \<Rightarrow> 'd tree_op list \<Rightarrow> 'd property \<Rightarrow> 'd property" where
  "tree_run ops ans xs root = fold (tree_step ops ans) xs root"

lemma tree_ok_action:
  assumes "sound f" "\<forall>s \<in> set ss. CHR ''.'' \<notin> set s" "with_sub ans bMake v f ss [] root = (r, root', ns)" "tree_ok root"
  shows "tree_ok root'"
  using soundD [OF sound_with_sub [OF assms(1,2)] assms(3)] keepsD [OF keeps_with_sub [OF sound_keeps [OF assms(1)]] assms(3)] assms(4)
  by (simp add: tree_ok_def)

lemma segments_dots: "\<forall>s \<in> set (segments path). CHR ''.'' \<notin> set s"
  using segments_no_dot by blast

lemma tree_ok_at_property: "sound f \<Longrightarrow> tree_ok root \<Longrightarrow> tree_ok (fst (snd (at_property e f path root)))"
  unfolding at_property_def by (auto split: prod.splits option.splits dest: tree_ok_action [OF _ segments_dots])

lemma tree_ok_Delete: "tree_ok root \<Longrightarrow> tree_ok (fst (snd (DeleteProperty path root)))"
proof -
  assume ok: "tree_ok root"
  have "\<forall>s \<in> set (butlast (segments path)). CHR ''.'' \<notin> set s" by (auto dest: in_set_butlastD segments_no_dot)
  then show ?thesis
    unfolding DeleteProperty_def using ok
    by (auto split: prod.splits option.splits dest: tree_ok_action [OF sound_DeleteSubproperty])
qed

lemma tree_ok_Merge: "tree_ok root \<Longrightarrow> tree_ok (fst (MergeProperty ops ans path p root))"
proof (induction p arbitrary: path root)
  case (Property n pth vs ls subs)
  define strPath where "strPath = (if path \<noteq> [] then path @ [CHR ''.''] else path) @ n"
  obtain r root1 ns where w: "with_sub ans True (hd vs) (CopyPropertyValue ops ans (Property n pth vs ls subs))
      (segments strPath) [] root = (r, root1, ns)" by (rule prod_cases3)
  have "tree_ok (fst (fold (\<lambda>sub (root, ns). let (root, ns') = MergeProperty ops ans strPath sub root in (root, ns @ ns')) xs (root1, ns)))"
    if "set xs \<subseteq> set subs" "tree_ok root1" for xs root1 ns
    using that
  proof (induction xs arbitrary: root1 ns)
    case (Cons x xs)
    then show ?case using Property.IH [of x root1 strPath] by (auto split: prod.splits)
  qed simp
  from this [OF _ tree_ok_action [OF sound_CopyPropertyValue segments_dots w Property.prems]] show ?case
    using w by (simp add: strPath_def Let_def)
qed

lemma tree_step_ok: "tree_ok root \<Longrightarrow> tree_ok (tree_step ops ans x root)"
  by (cases x)
    (simp_all add: SetPropertyValue_def tree_RegisterListener_def tree_UnregisterListener_def ClearProperty_def
      tree_ok_at_property sound_AppendValue sound_listeners sound_clear tree_ok_Delete tree_ok_Merge
      tree_ok_action [OF sound_SetValue segments_dots] split: prod.splits)

lemma tree_run_ok: "tree_ok root \<Longrightarrow> tree_ok (tree_run ops ans xs root)"
  unfolding tree_run_def by (induction xs arbitrary: root) (simp_all add: tree_step_ok)

section \<open>What the tree promises\<close>

text \<open>The abstract store: the values at each path, and each operation on it.\<close>

type_synonym 'd store = "string list \<Rightarrow> 'd variant list option"

fun store_step :: "'d float_ops \<Rightarrow> 'd tree_op \<Rightarrow> 'd store \<Rightarrow> 'd store" where
  "store_step ops (OpSet path v) m = (\<lambda>q.
     if q = segments path then Some [v] else if m q \<noteq> None then m q
     else if strict_prefix q (segments path) then Some [VString []] else None)"
| "store_step ops (OpAppend path v) m =
     (case m (segments path) of
        None \<Rightarrow> m
      | Some vs \<Rightarrow> (case converted ops v (hd vs) of None \<Rightarrow> m | Some w \<Rightarrow> m(segments path \<mapsto> vs @ [w])))"
| "store_step ops (OpClear path) m =
     (case m (segments path) of
        None \<Rightarrow> m
      | Some vs \<Rightarrow> (\<lambda>q. if q = segments path then Some [empty_value ops (Property [] [] vs [] [])]
                       else if prefix (segments path) q then None else m q))"
| "store_step ops (OpDelete path) m =
     (\<lambda>q. if segments path \<noteq> [] \<and> prefix (segments path) q then None else m q)"
| "store_step ops _ m = m"

definition plain_op :: "'d tree_op \<Rightarrow> bool" where
  "plain_op x \<longleftrightarrow> (case x of
     OpSet path v \<Rightarrow> path_ok (segments path) | OpDelete path \<Rightarrow> True | OpMerge path p \<Rightarrow> False | _ \<Rightarrow> True)"

lemma writes_SetValue: "writes [v] (SetValue ops ans v)"
  unfolding writes_def keeps_def by (auto simp: SetValue_def Let_def split: prod.splits if_splits)

lemma path_ok_nonempty: "path_ok ss \<Longrightarrow> \<forall>s \<in> set ss. s \<noteq> []"
  by (auto simp: path_ok_def part_ok_def)

lemma values_at_Set:
  assumes "path_ok (segments path)"
  shows "values_at (fst (snd (SetPropertyValue ops ans path v root))) q = store_step ops (OpSet path v) (values_at root) q"
proof -
  obtain r root' ns where w: "with_sub ans True v (SetValue ops ans v) (segments path) [] root = (r, root', ns)" by (rule prod_cases3)
  from values_at_with_sub [OF writes_SetValue path_ok_nonempty [OF assms] w] show ?thesis
    by (simp add: SetPropertyValue_def w)
qed

text \<open>An operation at a property that is there, in terms of the values below it.\<close>

lemma values_at_property:
  assumes "keeps f"
  shows "values_at (fst (snd (at_property e f path root))) q =
    (case lookup root (segments path) of
       None \<Rightarrow> values_at root q
     | Some t \<Rightarrow>
         if prefix (segments path) q
         then values_at (fst (snd (f (ancestors root (segments path)) t))) (drop (length (segments path)) q)
         else values_at root q)"
proof (cases "lookup root (segments path)")
  case None
  then show ?thesis by (simp add: at_property_def with_sub_missing)
next
  case (Some t)
  obtain r root' ns where w: "with_sub (\<lambda>_. ERR_NOERROR) False (VString []) f (segments path) [] root = (r, root', ns)"
    by (rule prod_cases3)
  obtain t' ns' where f: "f (ancestors root (segments path)) t = (the r, t', ns')"
    "values_at root' q = (if prefix (segments path) q then values_at t' (drop (length (segments path)) q) else values_at root q)"
    using vals.view_found [OF Some w assms, of q] by auto
  have "fst (snd (at_property e f path root)) = root'" by (simp add: at_property_def w split: option.splits)
  then show ?thesis using Some f by simp
qed

lemma values_at_same_subs:
  "m_lstSubproperties p' = m_lstSubproperties p \<Longrightarrow>
   values_at p' q = (if q = [] then Some (m_vecValues p') else values_at p q)"
  by (cases q) (simp_all add: view_Cons split: option.splits)

lemma lookup_values: "lookup p ss = Some t \<Longrightarrow> values_at p ss = Some (m_vecValues t)"
  by (simp add: view_def)

lemma prefix_le: "prefix ss q \<Longrightarrow> length q \<le> length ss \<longleftrightarrow> q = ss"
  by (auto simp: prefix_def)

lemma empty_value_values [simp]: "empty_value ops (Property n path (m_vecValues p) ls subs) = empty_value ops p"
  by (simp add: empty_value_def)

lemma values_at_Append:
  "values_at (fst (snd (at_property e (AppendValue ops ans v) path root))) q = store_step ops (OpAppend path v) (values_at root) q"
proof (cases "lookup root (segments path)")
  case None
  then show ?thesis unfolding values_at_property [OF sound_keeps [OF sound_AppendValue]] by (simp add: view_def)
next
  case (Some t)
  have v: "values_at root (segments path) = Some (m_vecValues t)" using Some by (rule lookup_values)
  obtain r t' ns where a: "AppendValue ops ans v (ancestors root (segments path)) t = (r, t', ns)" by (rule prod_cases3)
  have t': "m_lstSubproperties t' = m_lstSubproperties t"
    "m_vecValues t' = (case converted ops v (hd (m_vecValues t)) of None \<Rightarrow> m_vecValues t | Some w \<Rightarrow> m_vecValues t @ [w])"
    using a by (auto simp: AppendValue_def Let_def split: option.splits prod.splits)
  show ?thesis
    unfolding values_at_property [OF sound_keeps [OF sound_AppendValue]] using Some a v t'(2)
    by (auto simp: values_at_same_subs [OF t'(1)] prefix_le view_drop fun_upd_apply split: option.splits)
qed

lemma values_at_listeners:
  assumes "f = RegisterListener l \<or> f = UnregisterListener l"
  shows "values_at (fst (snd (at_property e f path root))) = values_at root"
proof
  fix q
  have k: "keeps f" using assms sound_keeps [OF sound_listeners(1)] sound_keeps [OF sound_listeners(2)] by auto
  have same: "m_lstSubproperties (fst (snd (f parents p))) = m_lstSubproperties p"
    "m_vecValues (fst (snd (f parents p))) = m_vecValues p" for parents p
    using assms by (auto simp: RegisterListener_def UnregisterListener_def split: prod.splits)
  show "values_at (fst (snd (at_property e f path root))) q = values_at root q"
    unfolding values_at_property [OF k]
    by (auto simp: values_at_same_subs [OF same(1)] same(2) prefix_le view_drop lookup_values split: option.splits)
qed

lemma values_at_Clear:
  "values_at (fst (snd (ClearProperty ops ans path root))) q = store_step ops (OpClear path) (values_at root) q"
proof (cases "lookup root (segments path)")
  case None
  then show ?thesis unfolding ClearProperty_def values_at_property [OF sound_keeps [OF sound_clear]] by (simp add: view_def)
next
  case (Some t)
  have v: "values_at root (segments path) = Some (m_vecValues t)" using Some by (rule lookup_values)
  obtain r ns where c: "clear_action ops ans (ancestors root (segments path)) t = (r, set_subs [] (set_values [empty_value ops t] t), ns)"
    using clear_action_eq by blast
  have "values_at (set_subs [] (set_values [w] t)) ts = (if ts = [] then Some [w] else None)" for w ts
    by (cases ts) (simp_all add: view_Cons)
  then show ?thesis
    unfolding ClearProperty_def values_at_property [OF sound_keeps [OF sound_clear]]
    using Some c v by (auto simp: prefix_le)
qed

context node_view begin

lemma view_delete_sub:
  assumes "distinct (map m_strName (m_lstSubproperties p))" "find_sub s (m_lstSubproperties p) = Some i"
  shows "view g (set_subs (take i (m_lstSubproperties p) @ drop (Suc i) (m_lstSubproperties p)) p) (t # ts) =
    (if t = s then None else view g p (t # ts))"
proof -
  let ?subs = "m_lstSubproperties p"
  have i: "i < length ?subs" "m_strName (?subs ! i) = s" using find_sub_Some [OF assms(2)] by auto
  show ?thesis
  proof (cases "t = s \<or> find_sub t ?subs = None")
    case True
    then show ?thesis using i by (auto simp: view_set_subs find_sub_delete [OF assms(1) i(1)] view_Cons)
  next
    case False
    then obtain j where j: "find_sub t ?subs = Some j" by auto
    have "j < length ?subs" "j \<noteq> i" using find_sub_Some [OF j] i(2) False by auto
    then have "(take i ?subs @ drop (Suc i) ?subs) ! (if j < i then j else j - 1) = ?subs ! j"
      using i(1) by (auto simp: nth_append)
    then show ?thesis using False j i(2)
      by (simp add: view_set_subs find_sub_delete [OF assms(1) i(1)] view_Cons)
  qed
qed

end

lemma lookup_append: "lookup p (ss @ ts) = Option.bind (lookup p ss) (\<lambda>t. lookup t ts)"
  by (induction ss arbitrary: p) (auto split: option.splits)

lemma prop_ok_lookup: "prop_ok p \<Longrightarrow> lookup p ss = Some t \<Longrightarrow> prop_ok t"
proof (induction ss arbitrary: p)
  case (Cons s ss)
  then obtain i where "find_sub s (m_lstSubproperties p) = Some i" "lookup (m_lstSubproperties p ! i) ss = Some t"
    by (auto split: option.splits)
  moreover from this(1) have "prop_ok (m_lstSubproperties p ! i)"
    using Cons.prems(1) find_sub_Some [of s "m_lstSubproperties p" i] by (auto simp: prop_ok_iff [of p] subs_ok_def)
  ultimately show ?case using Cons.IH by blast
qed simp

lemma values_at_Delete:
  assumes "prop_ok root"
  shows "values_at (fst (snd (DeleteProperty path root))) q = store_step ops (OpDelete path) (values_at root) q"
proof (cases "segments path = [] \<or> lookup root (segments path) = None")
  case True
  have "values_at root q = None" if "lookup root (segments path) = None" "prefix (segments path) q"
    using that by (auto simp: view_def prefix_def lookup_append)
  then show ?thesis using True by (auto simp: DeleteProperty_def GetProperty_lookup)
next
  case False
  define ss where "ss = butlast (segments path)"
  define s where "s = last (segments path)"
  have path: "segments path = ss @ [s]" using False by (simp add: ss_def s_def)
  obtain t where t: "lookup root (ss @ [s]) = Some t" using False path by auto
  then obtain p i where p: "lookup root ss = Some p" "find_sub s (m_lstSubproperties p) = Some i" "t = m_lstSubproperties p ! i"
    by (auto simp: lookup_append bind_eq_Some_conv split: option.splits)
  have name: "m_strName t = s" using find_sub_Some [OF p(2)] p(3) by simp
  obtain r root' ns where w: "with_sub (\<lambda>_. ERR_NOERROR) False (VString []) (DeleteSubproperty s) ss [] root = (r, root', ns)"
    by (rule prod_cases3)
  have eq: "fst (snd (DeleteProperty path root)) = root'"
    using False t name w path by (simp add: DeleteProperty_def GetProperty_lookup split: option.splits)
  obtain p' ns' where d: "DeleteSubproperty s (ancestors root ss) p = (the r, p', ns')"
    "values_at root' q = (if prefix ss q then values_at p' (drop (length ss) q) else values_at root q)"
    using vals.view_found [OF p(1) w sound_keeps [OF sound_DeleteSubproperty], of q] by auto
  have p': "p' = set_subs (take i (m_lstSubproperties p) @ drop (Suc i) (m_lstSubproperties p)) p"
    using d(1) p(2) by (simp add: DeleteSubproperty_def)
  have dist: "distinct (map m_strName (m_lstSubproperties p))"
    using prop_ok_lookup [OF assms p(1)] unfolding prop_ok_iff [of p] subs_ok_def by blast
  have del: "store_step ops (OpDelete path) m q = (if prefix (ss @ [s]) q then None else m q)" for m :: "'a store"
    by (simp add: path)
  show ?thesis
  proof (cases "prefix ss q")
    case True
    then obtain ts where q: "q = ss @ ts" by (auto simp: prefix_def)
    have "values_at root' q = values_at p' ts" using d(2) q by simp
    also have "\<dots> = (if prefix [s] ts then None else values_at p ts)"
    proof (cases ts)
      case Nil
      then show ?thesis unfolding p' by (simp add: vals.view_set_subs)
    next
      case (Cons u us)
      then show ?thesis unfolding p' using vals.view_delete_sub [OF dist p(2), of u us] by auto
    qed
    finally show ?thesis unfolding eq del using q view_prefix [OF p(1), of m_vecValues ts] by simp
  next
    case False
    then have "\<not> prefix (ss @ [s]) q" by (auto dest: append_prefixD)
    then show ?thesis unfolding eq del using False d(2) by simp
  qed
qed

lemma tree_step_store:
  assumes "tree_ok root" "plain_op x"
  shows "values_at (tree_step ops ans x root) = store_step ops x (values_at root)"
proof
  fix q
  show "values_at (tree_step ops ans x root) q = store_step ops x (values_at root) q"
  proof (cases x)
    case (OpSet path v)
    then have "path_ok (segments path)" using assms(2) by (simp add: plain_op_def)
    from values_at_Set [OF this] show ?thesis unfolding OpSet tree_step.simps .
  next
    case (OpDelete path)
    from values_at_Delete [of root path q] assms(1) show ?thesis unfolding OpDelete tree_step.simps by (simp only: tree_ok_def)
  qed (use assms(2) in \<open>simp_all only: tree_step.simps values_at_Append values_at_Clear tree_RegisterListener_def
      tree_UnregisterListener_def values_at_listeners [OF disjI1 [OF refl]] values_at_listeners [OF disjI2 [OF refl]] store_step.simps plain_op_def tree_op.simps simp_thms\<close>)
qed

text \<open>The property tree is a map from paths to values: whatever operations are applied to it in whatever order -- setting,
  appending, clearing and deleting, registering and unregistering listeners that answer what they like --, the values at
  every path are those of the abstract store, where setting a value also makes the missing properties on the way, as empty
  strings, and deleting takes everything below. For paths without empty parts.\<close>
theorem property_tree_refines_map:
  assumes "tree_ok root" "\<forall>x \<in> set xs. plain_op x"
  shows "values_at (tree_run ops ans xs root) = fold (store_step ops) xs (values_at root)"
  using assms
proof (induction xs arbitrary: root)
  case (Cons x xs)
  from Cons.IH [OF tree_step_ok [OF Cons.prems(1)]] Cons.prems tree_step_store [OF Cons.prems(1)] show ?case
    by (simp add: tree_run_def)
qed (simp add: tree_run_def)

definition int_ops :: "int float_ops" where
  "int_ops = \<lparr>f_eq = (=), int_of_double = word_of_int, double_of_int = sint, f_zero = 0\<rparr>"

theorem property_tree_refines_map_witness:
  "values_at (tree_run int_ops (\<lambda>_. ERR_FAILED) [OpSet ''a.b'' (VBool True), OpRegister ''a'' 3, OpAppend ''a.b'' (VBool False), OpDelete ''a.c'']
      new_tree) =
    fold (store_step int_ops) [OpSet ''a.b'' (VBool True), OpRegister ''a'' 3, OpAppend ''a.b'' (VBool False), OpDelete ''a.c'']
      (values_at new_tree)"
  by (rule property_tree_refines_map [OF tree_ok_new]) (simp add: plain_op_def part_ok_def)

subsection \<open>Paths and names\<close>

lemma join_eq_Nil: "path_ok ss \<Longrightarrow> join ss = [] \<longleftrightarrow> ss = []"
  by (cases ss rule: join.cases) (auto simp: part_ok_def)

lemma join_snoc: "path_ok ss \<Longrightarrow> join (ss @ [s]) = sub_path (join ss) s"
proof (induction ss rule: join.induct)
  case (3 s' t ss)
  then show ?case using join_eq_Nil [of "t # ss"] by (auto simp: sub_path_def)
qed (auto simp: sub_path_def part_ok_def)

lemma join_append: "path_ok ss \<Longrightarrow> ss \<noteq> [] \<Longrightarrow> ts \<noteq> [] \<Longrightarrow> join (ss @ ts) = join ss @ CHR ''.'' # join ts"
proof (induction ss rule: join.induct)
  case (2 s)
  then show ?case by (cases ts) auto
qed auto

lemma join_hd: "path_ok ss \<Longrightarrow> ss \<noteq> [] \<Longrightarrow> hd (join ss) \<noteq> CHR ''.''"
  using hd_in_set by (cases ss rule: join.cases) (fastforce simp: part_ok_def hd_append)+

definition name_at :: "string list \<Rightarrow> string" where
  "name_at ss = (if ss = [] then [] else last ss)"

lemma lookup_names:
  assumes "tree_ok root"
  shows "lookup root ss = Some p \<Longrightarrow> m_strPath p = join ss \<and> m_strName p = name_at ss \<and> path_ok ss \<and> prop_ok p"
proof (induction ss arbitrary: p rule: rev_induct)
  case Nil
  then show ?case using assms by (simp add: tree_ok_def name_at_def)
next
  case (snoc s ss)
  then obtain t i where t: "lookup root ss = Some t" "find_sub s (m_lstSubproperties t) = Some i" "p = m_lstSubproperties t ! i"
    by (auto simp: lookup_append bind_eq_Some_conv split: option.splits)
  have IH: "m_strPath t = join ss" "path_ok ss" "prop_ok t" using snoc.IH [OF t(1)] by simp_all
  have i: "p \<in> set (m_lstSubproperties t)" "m_strName p = s" using find_sub_Some [OF t(2)] t(3) by auto
  have "subs_ok (m_strPath t) (m_lstSubproperties t)" using IH(3) by (simp add: prop_ok_iff)
  then have "part_ok s" "m_strPath p = sub_path (m_strPath t) s" "prop_ok p" using i unfolding subs_ok_def by auto
  then show ?case using IH i(2) by (simp add: join_snoc name_at_def)
qed

text \<open>Whatever is done through the interface of the tree, every property stays reachable under its own path: the path it
  tells is the dotted path that leads to it, no two subproperties of a property have the same name, no name is empty or has a
  dot, and its values are of one type and at least one. For every sequence of the seven operations that take a path of the tree
  (setting, appending, registering and unregistering a listener, clearing, deleting, merging) and all paths, well-formed or not.
  What is done to a property itself, behind the tree, is not among them: renaming it breaks its subproperties
  (\<open>rename_is_silent_and_breaks_paths\<close>), and so does a subproperty that is added under a name with a dot.\<close>
theorem tree_stays_well_formed:
  assumes "lookup (tree_run ops ans xs new_tree) ss = Some p"
  shows "m_strPath p = join ss \<and> path_ok ss \<and> GetProperty (m_strPath p) (tree_run ops ans xs new_tree) = Some p \<and>
    distinct (map m_strName (m_lstSubproperties p)) \<and> values_ok (m_vecValues p)"
proof -
  have ok: "tree_ok (tree_run ops ans xs new_tree)" by (rule tree_run_ok [OF tree_ok_new])
  from lookup_names [OF ok assms] have p: "m_strPath p = join ss" "path_ok ss" "prop_ok p" by simp_all
  moreover have "subs_ok (m_strPath p) (m_lstSubproperties p)" "values_ok (m_vecValues p)" using p(3) by (simp_all add: prop_ok_iff)
  ultimately show ?thesis using assms by (simp add: GetProperty_lookup subs_ok_def)
qed

definition demo_ops :: "int tree_op list" where
  "demo_ops = [OpSet ''a.b'' (VBool True), OpSet ''a..c'' (VInt32 1), OpRegister ''a.b'' 3, OpRegister ''a'' 4, OpSet ''a.d'' (VInt32 2)]"

definition demo_tree :: "int property" where
  "demo_tree = tree_run int_ops (\<lambda>_. ERR_NOERROR) demo_ops new_tree"

definition demo_b :: "int property" where "demo_b = Property ''b'' ''a.b'' [VBool True] [3] []"

lemma demo_tree_eq:
  "demo_tree = Property [] [] [VString []] [] [Property ''a'' ''a'' [VString []] [4]
     [demo_b, Property ''d'' ''a.d'' [VInt32 2] [] []]]"
  by code_simp

theorem tree_stays_well_formed_witness:
  "m_strPath demo_b = join [''a'', ''b''] \<and> path_ok [''a'', ''b''] \<and>
    GetProperty (m_strPath demo_b) (tree_run int_ops (\<lambda>_. ERR_NOERROR) demo_ops new_tree) =
      Some demo_b \<and>
    distinct (map m_strName (m_lstSubproperties demo_b)) \<and>
    values_ok (m_vecValues demo_b)"
  by (rule tree_stays_well_formed) (simp add: demo_tree_eq [unfolded demo_tree_def] demo_b_def)

subsection \<open>Who is told of a change\<close>

lemma first_failed_append: "first_failed (xs @ ys) = (if first_failed xs = ERR_NOERROR then first_failed ys else first_failed xs)"
  by (induction xs) (auto simp: first_failed_def)

lemma NotifyListeners_eq:
  "NotifyListeners ans ch affected chain =
    (first_failed (map ans (concat (map (own_events ch affected) chain))), concat (map (own_events ch affected) chain))"
  by (induction chain) (auto simp: first_failed_append first_failed_def [of "[]"] Let_def)

lemma chain_prefixes:
  "lookup p ss = Some t \<Longrightarrow> map f (t # ancestors p ss) = map (\<lambda>q. f (the (lookup p q))) (rev (prefixes ss))"
proof (induction ss arbitrary: p)
  case (Cons s ss)
  then obtain i where i: "find_sub s (m_lstSubproperties p) = Some i" "lookup (m_lstSubproperties p ! i) ss = Some t"
    by (auto split: option.splits)
  from Cons.IH [OF i(2)] i(1) show ?case by (simp add: rev_map comp_def)
qed simp

definition listeners_at :: "'d property \<Rightarrow> string list \<Rightarrow> nat list" where
  "listeners_at root q = (case lookup root q of None \<Rightarrow> [] | Some p \<Rightarrow> m_vecListeners p)"

text \<open>The path of a property as seen from the one at \<open>q\<close> above it; for itself it is its name.\<close>

definition relative :: "string list \<Rightarrow> string list \<Rightarrow> string" where
  "relative q ss = (if q = ss then name_at ss else join (drop (length q) ss))"

lemma rel_path_relative:
  assumes "tree_ok root" "lookup root q = Some r" "prefix q ss" "path_ok ss" "m_strPath t = join ss"
  shows "rel_path r t = relative q ss"
proof -
  obtain ts where ss: "ss = q @ ts" using assms(3) by (auto simp: prefix_def)
  have r: "m_strPath r = join q" "m_strName r = name_at q" using lookup_names [OF assms(1,2)] by simp_all
  have ok: "path_ok q" "path_ok ts" using assms(4) ss by simp_all
  show ?thesis
  proof (cases "q = [] \<or> ts = []")
    case True
    then show ?thesis
      using r ok assms(5) ss join_eq_Nil [OF ok(2)] join_hd [OF ok(2)] by (auto simp: rel_path_def relative_def Let_def)
  next
    case False
    then show ?thesis using r ok assms(5) join_append [OF ok(1), of ts] by (simp add: ss rel_path_def relative_def Let_def)
  qed
qed

lemma lookup_prefix: "lookup p ss = Some t \<Longrightarrow> prefix q ss \<Longrightarrow> \<exists>r. lookup p q = Some r"
  by (auto simp: prefix_def lookup_append bind_eq_Some_conv)

lemma events_along:
  assumes "tree_ok root" "lookup root ss = Some p" "m_strPath t = join ss" "m_strName t = m_strName p"
    "m_vecListeners t = m_vecListeners p"
  shows "concat (map (own_events ch t) (t # ancestors root ss)) =
    concat (map (\<lambda>q. map (\<lambda>l. Notify l ch (join q) t (relative q ss)) (listeners_at root q)) (rev (prefixes ss)))"
proof -
  have p: "m_strPath p = join ss" "path_ok ss" using lookup_names [OF assms(1,2)] by simp_all
  have "map (own_events ch t) (t # ancestors root ss) = map (own_events ch t) (p # ancestors root ss)"
    using assms(3-5) p(1) by (simp add: own_events_def rel_path_def)
  also have "\<dots> = map (\<lambda>q. own_events ch t (the (lookup root q))) (rev (prefixes ss))"
    by (rule chain_prefixes [OF assms(2)])
  also have "\<dots> = map (\<lambda>q. map (\<lambda>l. Notify l ch (join q) t (relative q ss)) (listeners_at root q)) (rev (prefixes ss))"
  proof (rule map_cong [OF refl])
    fix q
    assume "q \<in> set (rev (prefixes ss))"
    then have q: "prefix q ss" by simp
    then obtain r where r: "lookup root q = Some r" using lookup_prefix [OF assms(2)] by blast
    have "m_strPath r = join q" using lookup_names [OF assms(1) r] by simp
    then show "own_events ch t (the (lookup root q)) = map (\<lambda>l. Notify l ch (join q) t (relative q ss)) (listeners_at root q)"
      using rel_path_relative [OF assms(1) r q p(2) assms(3)] r by (simp add: own_events_def listeners_at_def)
  qed
  finally show ?thesis by simp
qed

lemma SetPropertyValue_found:
  assumes "lookup root (segments path) = Some p" "SetValue ops ans v (ancestors root (segments path)) p = (r, p', ns)"
  shows "\<exists>root'. SetPropertyValue ops ans path v root = (r, root', ns)"
  using with_sub_found [OF assms(1), of "SetValue ops ans v" "[]" r p' ns ans True v] assms(2)
  by (auto simp: SetPropertyValue_def)

text \<open>
  Whether the code compares a floating point number with a number to find out if the value changes; what is a change is then a
  matter of the conversions of C++ (see \<open>fraction_is_set_silently\<close>).
\<close>

definition compares_floats :: "'d variant \<Rightarrow> 'd variant list \<Rightarrow> bool" where
  "compares_floats v vs \<longleftrightarrow>
     is_VDouble v \<and> (is_VDouble (hd vs) \<or> is_VInt32 (hd vs)) \<or> is_VInt32 v \<and> is_VDouble (hd vs)"

lemma notifies_changes:
  assumes "m_vecValues p \<noteq> []" "\<not> compares_floats v (m_vecValues p)"
  shows "bNotify ops v p \<longleftrightarrow> m_vecValues p \<noteq> [v]"
proof -
  obtain w ws where p: "m_vecValues p = w # ws" using assms(1) by (cases "m_vecValues p") auto
  show ?thesis
    using assms(2) by (cases v; cases w) (auto simp: bNotify_def IsArray_def compares_floats_def p)
qed

lemma lookup_values_found:
  assumes "tree_ok root" "lookup root ss = Some p"
  shows "m_vecValues p \<noteq> []"
  using lookup_names [OF assms] by (auto simp: prop_ok_iff values_ok_def)

text \<open>C9: Setting a property to a value that differs from what it holds, in the value, in the type or because it holds an array, is
  announced to every listener registered at the property or at a property above it, once for each registration and in this
  order: those of the property itself first, each with the path of the property relative to where it is registered; the answer
  is the first failure of these listeners in that order. Setting what the property holds already is announced to nobody. Left
  out is a floating point number that meets a number: there the code decides with the conversions of C++, and a change that
  these do not see is made silently.\<close>
theorem change_notifies_upwards:
  assumes "tree_ok root" "lookup root ss = Some p" "\<not> compares_floats v (m_vecValues p)"
  defines "events \<equiv> concat (map (\<lambda>q. map (\<lambda>l. Notify l PropertyChange (join q) (set_values [v] p) (relative q ss))
      (listeners_at root q)) (rev (prefixes ss)))"
  shows "\<exists>root'. SetPropertyValue ops ans (join ss) v root =
    (if m_vecValues p = [v] then (ERR_NOERROR, root', []) else (first_failed (map ans events), root', events))"
proof -
  have p: "m_strPath p = join ss" "path_ok ss" using lookup_names [OF assms(1,2)] by simp_all
  have notify: "bNotify ops v p \<longleftrightarrow> m_vecValues p \<noteq> [v]"
    by (rule notifies_changes [OF lookup_values_found [OF assms(1,2)] assms(3)])
  have "SetValue ops ans v (ancestors root ss) p =
      (if m_vecValues p = [v] then (ERR_NOERROR, set_values [v] p, [])
       else (first_failed (map ans events), set_values [v] p, events))"
    using notify events_along [OF assms(1,2), of "set_values [v] p" PropertyChange] p(1)
    by (simp add: SetValue_def Let_def NotifyListeners_eq events_def del: concat.simps list.map)
  then show ?thesis using SetPropertyValue_found [of root "join ss" p] assms(2) p(2)
    by (cases "m_vecValues p = [v]") simp_all
qed

theorem change_notifies_upwards_witness:
  "\<exists>root'. SetPropertyValue int_ops (\<lambda>_. ERR_NOERROR) (join [''a'', ''b'']) (VBool False) demo_tree =
    (if m_vecValues demo_b = [VBool False] then (ERR_NOERROR, root', [])
     else (first_failed (map (\<lambda>_. ERR_NOERROR) (concat (map (\<lambda>q. map (\<lambda>l. Notify l PropertyChange (join q)
        (set_values [VBool False] demo_b) (relative q [''a'', ''b'']))
        (listeners_at demo_tree q)) (rev (prefixes [''a'', ''b'']))))), root',
     concat (map (\<lambda>q. map (\<lambda>l. Notify l PropertyChange (join q)
        (set_values [VBool False] demo_b) (relative q [''a'', ''b'']))
        (listeners_at demo_tree q)) (rev (prefixes [''a'', ''b''])))))"
proof (rule change_notifies_upwards)
  show "tree_ok demo_tree" unfolding demo_tree_def by (rule tree_run_ok [OF tree_ok_new])
  show "lookup demo_tree [''a'', ''b''] = Some demo_b" unfolding demo_tree_eq by (simp add: demo_b_def)
  show "\<not> compares_floats (VBool False) (m_vecValues demo_b)" by (simp add: compares_floats_def)
qed

subsection \<open>Where the tree differs from what it is meant to be\<close>

text \<open>A listener that is registered once is gone after it has been unregistered, and the others stay as they are. One that
  has been registered twice is not treated like that: erasing one element of what \<open>std::remove\<close> leaves behind can
  register another listener a second time.\<close>
theorem unregister_duplicates_another:
  assumes "l \<notin> set (xs @ [m])"
  shows "UnregisterListener l parents (set_listeners (xs @ l # [m]) p) = (ERR_NOERROR, set_listeners (xs @ [m]) p, []) \<and>
    UnregisterListener l parents (set_listeners (l # l # xs @ [m]) p) = (ERR_NOERROR, set_listeners (xs @ [m, m]) p, [])"
proof -
  have kept: "filter (\<lambda>y. y \<noteq> l) (xs @ [m]) = xs @ [m]" using assms by (auto simp: filter_id_conv)
  have d: "drop (Suc (length xs)) (l # l # xs @ [m]) = drop (length xs) (l # xs) @ [m]"
    using drop_append [of "length xs" "l # xs" "[m]"] by simp
  have last: "drop (length xs) (l # xs) = [last (l # xs)]"
    by (induction xs rule: rev_induct) simp_all
  have 1: "set_listeners ls (set_listeners ls' q) = set_listeners ls q" for ls ls' and q :: "'b property" by (cases q) simp
  have "std_remove l (xs @ l # [m]) = (xs @ [m, m], length xs + 1)"
    using kept assms by (simp add: std_remove_def)
  moreover have "std_remove l (l # l # xs @ [m]) = (xs @ [m, last (l # xs), m], length xs + 1)"
    using kept d last assms by (simp add: std_remove_def)
  ultimately show ?thesis by (simp add: UnregisterListener_def 1)
qed

theorem unregister_duplicates_another_witness:
  "UnregisterListener 1 [] (set_listeners ([2] @ 1 # [3]) demo_b) = (ERR_NOERROR, set_listeners ([2] @ [3]) demo_b, []) \<and>
    UnregisterListener 1 [] (set_listeners (1 # 1 # [2] @ [3]) demo_b) = (ERR_NOERROR, set_listeners ([2] @ [3, 3]) demo_b, [])"
  by (rule unregister_duplicates_another) simp

lemma fst_in_sub: "fst (in_sub i f parents p) = fst (f (p # parents) (m_lstSubproperties p ! i))"
  by (simp add: in_sub_def case_prod_beta)

text \<open>Setting a value at a path with an empty part, as in \<open>a..b\<close>, is reported as done when no listener objects, but
  the value cannot be read back: no property is found at that path.\<close>
theorem empty_part_swallows_value:
  assumes "tree_ok root" "[] \<in> set (segments path)"
  shows "\<exists>r root' ns. SetPropertyValue ops ans path v root = (r, root', ns) \<and>
    GetProperty path root' = None \<and> ((\<forall>e. ans e = ERR_NOERROR) \<longrightarrow> r = ERR_NOERROR)"
proof -
  obtain r root' ns where s: "SetPropertyValue ops ans path v root = (r, root', ns)" by (rule prod_cases3)
  have "tree_ok root'" using tree_step_ok [OF assms(1), of ops ans "OpSet path v"] s by simp
  then have "GetProperty path root' = None"
    using lookup_names [of root' "segments path"] assms(2)
    by (cases "lookup root' (segments path)") (auto simp: GetProperty_lookup path_ok_def part_ok_def)
  moreover have "r = ERR_NOERROR" if ok: "\<forall>e. ans e = ERR_NOERROR"
  proof -
    have none: "first_failed (map ans es) = ERR_NOERROR" for es using ok by (induction es) (auto simp: first_failed_def)
    have "fst (with_sub ans True v (SetValue ops ans v) ss parents p) = Some ERR_NOERROR" for ss parents p
    proof (induction ss arbitrary: parents p)
      case Nil
      show ?case by (simp add: SetValue_def Let_def NotifyListeners_eq first_failed_append none split: prod.splits)
    next
      case (Cons s' ss)
      from Cons.IH show ?case
        by (cases "s' = []"; simp add: Let_def case_prod_beta fst_in_sub split: option.split split del: if_split)
    qed
    then show ?thesis using s by (auto simp: SetPropertyValue_def case_prod_beta)
  qed
  ultimately show ?thesis using s by blast
qed

theorem empty_part_swallows_value_witness:
  "\<exists>r root' ns. SetPropertyValue int_ops (\<lambda>_. ERR_NOERROR) ''a..b'' (VBool True) demo_tree = (r, root', ns) \<and>
    GetProperty ''a..b'' root' = None \<and> ((\<forall>e :: int prop_event. (\<lambda>_. ERR_NOERROR) e = ERR_NOERROR) \<longrightarrow> r = ERR_NOERROR)"
  by (rule empty_part_swallows_value) (simp_all add: demo_tree_def tree_run_ok [OF tree_ok_new])

text \<open>Renaming a property with subproperties is reported to no listener and breaks the tree: the subproperties keep the paths
  they had.\<close>
theorem rename_is_silent_and_breaks_paths:
  assumes "tree_ok root" "lookup root ss = Some p" "m_lstSubproperties p \<noteq> []" "part_ok n" "n \<noteq> m_strName p"
  shows "\<exists>p'. SetName ans n (ancestors root ss) p = (ERR_NOERROR, p', []) \<and> m_strName p' = n \<and>
    m_lstSubproperties p' = m_lstSubproperties p \<and> \<not> prop_ok p'"
proof -
  let ?p' = "set_path (directory (m_strPath p) @ n) (set_name n p)"
  have p: "m_strPath p = join ss" "m_strName p = name_at ss" "path_ok ss" "prop_ok p"
    using lookup_names [OF assms(1,2)] by simp_all
  have dir: "directory (sub_path x s) = (if x = [] then [] else x @ ''.'')" if "part_ok s" for x s
    using that split_at_dot(2) [of "rev s"] split_at_dot(4) [of "rev s" "rev x"]
    by (auto simp: directory_def sub_path_def part_ok_def)
  have "directory (m_strPath p) @ n \<noteq> m_strPath p"
  proof (cases ss rule: rev_cases)
    case Nil
    then show ?thesis using p(1) assms(4) by (simp add: part_ok_def directory_def)
  next
    case (snoc qs s)
    then show ?thesis using p assms(5) dir [of s "join qs"] by (auto simp: join_snoc name_at_def sub_path_def)
  qed
  moreover obtain c cs where c: "m_lstSubproperties p = c # cs" using assms(3) by (cases "m_lstSubproperties p") auto
  moreover have "m_strPath c = sub_path (m_strPath p) (m_strName c)" "part_ok (m_strName c)"
    using p(4) c unfolding prop_ok_iff [of p] subs_ok_def by auto
  ultimately have "\<not> subs_ok (m_strPath ?p') (m_lstSubproperties ?p')"
    unfolding subs_ok_def using assms(4) by (auto simp: sub_path_def part_ok_def)
  then have "\<not> prop_ok ?p'" by (simp add: prop_ok_iff)
  then show ?thesis using assms(4) by (auto simp: SetName_def part_ok_def)
qed

theorem rename_is_silent_and_breaks_paths_witness:
  "\<exists>p'. SetName (\<lambda>_. ERR_NOERROR) ''x'' (ancestors demo_tree [''a'']) (the (lookup demo_tree [''a''])) = (ERR_NOERROR, p', []) \<and>
    m_strName p' = ''x'' \<and> m_lstSubproperties p' = m_lstSubproperties (the (lookup demo_tree [''a''])) \<and> \<not> prop_ok p'"
proof (rule rename_is_silent_and_breaks_paths)
  show "tree_ok demo_tree" unfolding demo_tree_def by (rule tree_run_ok [OF tree_ok_new])
  show "lookup demo_tree [''a''] = Some (the (lookup demo_tree [''a'']))" unfolding demo_tree_eq by simp
qed (simp_all add: demo_tree_eq part_ok_def)

text \<open>A property that holds an integer and is set to a floating point number with the same integer part takes the new value and
  the new type, but no listener is told, although the comment in the code says that a change of the value or of the type is
  announced.\<close>
theorem fraction_is_set_silently:
  assumes "m_vecValues p = [VInt32 n]" "int_of_double ops d = n"
  shows "SetValue ops ans (VDouble d) parents p = (ERR_NOERROR, set_values [VDouble d] p, [])"
  using assms by (simp add: SetValue_def bNotify_def IsArray_def)

theorem fraction_is_set_silently_witness:
  "SetValue (int_ops\<lparr>int_of_double := \<lambda>d. word_of_int (d div 10)\<rparr>) (\<lambda>_. ERR_NOERROR) (VDouble 37) [] (new_property ''x'' (VInt32 3)) =
    (ERR_NOERROR, set_values [VDouble 37] (new_property ''x'' (VInt32 3)), [])"
  by (rule fraction_is_set_silently) (simp_all add: new_property_def)

section \<open>Properties as JSON\<close>

text \<open>
  The nodes of the external library libjson: name and content. Numbers are text there; how numbers are written and
  read is in \<open>json_ops\<close>.
\<close>

datatype json =
    JString (j_name: string) string
  | JNumber (j_name: string) string
  | JBool (j_name: string) bool
  | JNull (j_name: string)
  | JArray (j_name: string) "json list"
  | JNode (j_name: string) "json list"

record 'd json_ops =
  write_float :: "'d \<Rightarrow> string"
  write_int :: "32 word \<Rightarrow> string"
  as_float :: "string \<Rightarrow> 'd"
  as_int :: "string \<Rightarrow> 32 word"

fun value_to_json :: "'d json_ops \<Rightarrow> string \<Rightarrow> 'd variant \<Rightarrow> json" where
  "value_to_json j n (VString s) = JString n s"
| "value_to_json j n (VDouble d) = JNumber n (write_float j d)"
| "value_to_json j n (VInt32 i) = JNumber n (write_int j i)"
| "value_to_json j n (VBool b) = JBool n b"

definition ValuesToJSON :: "'d json_ops \<Rightarrow> 'd property \<Rightarrow> json" where
  "ValuesToJSON j p =
     (if \<not> IsArray p then value_to_json j ''Value'' (hd (m_vecValues p))
      else JArray ''Value'' (map (value_to_json j '''') (m_vecValues p)))"

fun PropertyToJSON :: "'d json_ops \<Rightarrow> 'd property \<Rightarrow> json" where
  "PropertyToJSON j (Property n path vs ls subs) =
     JNode n (ValuesToJSON j (Property n path vs ls []) # map (PropertyToJSON j) subs)"

text \<open>A number is one with a fraction if its text has a dot.\<close>

fun json_value :: "'d json_ops \<Rightarrow> json \<Rightarrow> 'd variant option" where
  "json_value j (JString _ s) = Some (VString s)"
| "json_value j (JNumber _ t) = Some (if CHR ''.'' \<in> set t then VDouble (as_float j t) else VInt32 (as_int j t))"
| "json_value j (JBool _ b) = Some (VBool b)"
| "json_value j _ = None"

fun same_json_type :: "json \<Rightarrow> json \<Rightarrow> bool" where
  "same_json_type (JString _ _) (JString _ _) = True"
| "same_json_type (JNumber _ _) (JNumber _ _) = True"
| "same_json_type (JBool _ _) (JBool _ _) = True"
| "same_json_type _ _ = False"

definition DeserializeFirstValue where
  "DeserializeFirstValue j ops ans node parents p =
     (case json_value j node of
        None \<Rightarrow> (ERR_INVALID_TYPE, p, [])
      | Some v \<Rightarrow> let (_, p, ns) = SetValue ops ans v parents p in (ERR_NOERROR, p, ns))"

fun append_nodes :: "'d json_ops \<Rightarrow> 'd float_ops \<Rightarrow> 'd answers \<Rightarrow> json \<Rightarrow> json list \<Rightarrow> ('d, fep_result) action" where
  "append_nodes j ops ans first [] parents p = (ERR_NOERROR, p, [])"
| "append_nodes j ops ans first (node # nodes) parents p =
     (if \<not> same_json_type first node then (ERR_INVALID_ARG, p, [])
      else case json_value j node of
          None \<Rightarrow> append_nodes j ops ans first nodes parents p
        | Some v \<Rightarrow>
            let (_, p, ns) = AppendValue ops ans v parents p;
                (r, p, ns') = append_nodes j ops ans first nodes parents p
            in (r, p, ns @ ns'))"

definition JSONToValues :: "'d json_ops \<Rightarrow> 'd float_ops \<Rightarrow> 'd answers \<Rightarrow> json \<Rightarrow> ('d, fep_result) action" where
  "JSONToValues j ops ans node parents p =
     (if j_name node \<noteq> ''Value'' then (ERR_INVALID_ARG, p, [])
      else case node of
          JArray _ (first # nodes) \<Rightarrow>
            if nodes = [] \<or> json_value j first = None then (ERR_INVALID_ARG, p, [])
            else
              let (r, p, ns) = DeserializeFirstValue j ops ans first parents p;
                  (r, p, ns') = append_nodes j ops ans first nodes parents p
              in (r, p, ns @ ns')
        | JArray _ [] \<Rightarrow> (ERR_INVALID_ARG, p, [])
        | _ \<Rightarrow> DeserializeFirstValue j ops ans node parents p)"

fun children :: "json \<Rightarrow> json list" where
  "children (JNode _ nodes) = nodes"
| "children (JArray _ nodes) = nodes"
| "children _ = []"

fun is_subproperty :: "json \<Rightarrow> bool" where
  "is_subproperty (JNode _ nodes) \<longleftrightarrow> nodes \<noteq> []"
| "is_subproperty _ \<longleftrightarrow> False"

lemma size_children: "find P (children node) = Some x \<Longrightarrow> size_list size (children node) < size node"
  by (cases node) simp_all

text \<open>
  The subproperties are read into new properties before they are added; the first that fails ends the loop, those
  read before it stay.
\<close>

function (sequential) JSONToProperty :: "'d json_ops \<Rightarrow> 'd float_ops \<Rightarrow> 'd answers \<Rightarrow> json \<Rightarrow> ('d, fep_result) action"
  and JSONToSubs :: "'d json_ops \<Rightarrow> 'd float_ops \<Rightarrow> 'd answers \<Rightarrow> json list \<Rightarrow> ('d, fep_result) action" where
  "JSONToProperty j ops ans node parents p =
     (let (_, p, ns1) = ClearSubproperties parents p;
          (r, p, ns2) = SetName ans (j_name node) parents p
      in if isFailed r then (ERR_INVALID_ARG, p, ns1 @ ns2)
         else case find (\<lambda>x. j_name x = ''Value'') (children node) of
             None \<Rightarrow> (ERR_INVALID_ARG, p, ns1 @ ns2)
           | Some v \<Rightarrow>
               let (r, p, ns3) = JSONToValues j ops ans v parents p
               in if isFailed r then (r, p, ns1 @ ns2 @ ns3)
                  else let (r, p, ns4) = JSONToSubs j ops ans (children node) parents p in (r, p, ns1 @ ns2 @ ns3 @ ns4))"
| "JSONToSubs j ops ans [] parents p = (ERR_NOERROR, p, [])"
| "JSONToSubs j ops ans (x # xs) parents p =
     (if is_subproperty x then
        let (r, sub, ns1) = JSONToProperty j ops ans x [] (new_property [] (VString []))
        in if isFailed r then (r, p, ns1)
           else
             let (_, p, ns2) = AddSubproperty ans sub parents p;
                 (r, p, ns3) = JSONToSubs j ops ans xs parents p
             in (r, p, ns1 @ ns2 @ ns3)
      else JSONToSubs j ops ans xs parents p)"
  by pat_completeness auto
termination
  by (relation "measure (\<lambda>x. case x of Inl (_, _, _, node, _, _) \<Rightarrow> 2 * size node | Inr (_, _, _, nodes, _, _) \<Rightarrow> Suc (2 * size_list size nodes))")
    (auto split: prod.splits sum.splits dest: size_children)


subsection \<open>Writing and reading back\<close>

text \<open>A copy without listeners, with the paths it has on its own.\<close>

fun copy_below :: "string \<Rightarrow> 'd property \<Rightarrow> 'd property" where
  "copy_below path (Property n _ vs ls subs) =
     Property n path vs [] (map (\<lambda>c. copy_below (sub_path path (m_strName c)) c) subs)"

text \<open>
  A number the library reads as it has written it, with a dot in its text just if it is a fraction. There are numbers for which
  it does not: the tests of the repository name the smallest \<open>int32_t\<close> and the largest \<open>double\<close>.
\<close>

fun reads_back :: "'d json_ops \<Rightarrow> 'd variant \<Rightarrow> bool" where
  "reads_back j (VDouble d) \<longleftrightarrow> CHR ''.'' \<in> set (write_float j d) \<and> as_float j (write_float j d) = d"
| "reads_back j (VInt32 i) \<longleftrightarrow> CHR ''.'' \<notin> set (write_int j i) \<and> as_int j (write_int j i) = i"
| "reads_back j _ \<longleftrightarrow> True"

text \<open>All numbers in a property and below it are such numbers.\<close>

fun numbers_read_back :: "'d json_ops \<Rightarrow> 'd property \<Rightarrow> bool" where
  "numbers_read_back j (Property n path vs ls subs) \<longleftrightarrow>
     (\<forall>v \<in> set vs. reads_back j v) \<and> (\<forall>c \<in> set subs. numbers_read_back j c)"

lemma json_value_written: "reads_back j v \<Longrightarrow> json_value j (value_to_json j n v) = Some v"
  by (cases v) simp_all

lemma same_type_written: "same_type v w \<Longrightarrow> same_json_type (value_to_json j n v) (value_to_json j m w)"
  by (cases v; cases w) auto

lemma j_name_written [simp]: "j_name (value_to_json j n v) = n"
  by (cases v) auto

lemma converted_same: "same_type first v \<Longrightarrow> converted ops v first = Some v"
  by (cases v; cases first) (auto simp: converted_def)

lemma AppendValue_same:
  "m_vecValues p = first # vs \<Longrightarrow> same_type first v \<Longrightarrow>
   \<exists>r ns. AppendValue ops ans v parents p = (r, set_values (first # vs @ [v]) p, ns)"
  by (auto simp: AppendValue_def converted_same Let_def split: prod.splits)

lemma append_nodes_written:
  assumes "\<forall>v \<in> set ws. reads_back j v" "\<forall>v \<in> set ws. same_type first v"
  shows "m_vecValues p = first # vs \<Longrightarrow>
    \<exists>ns. append_nodes j ops ans (value_to_json j n first) (map (value_to_json j n) ws) parents p =
      (ERR_NOERROR, set_values (first # vs @ ws) p, ns)"
  using assms
proof (induction ws arbitrary: p vs)
  case Nil
  then show ?case by (cases p) simp
next
  case (Cons w ws)
  have w: "same_type first w" using Cons.prems by simp
  obtain r ns where a: "AppendValue ops ans w parents p = (r, set_values (first # vs @ [w]) p, ns)"
    using AppendValue_same [OF Cons.prems(1) w] by blast
  have twice: "set_values a (set_values b p) = set_values a p" for a b by (cases p) simp
  obtain ns' where "append_nodes j ops ans (value_to_json j n first) (map (value_to_json j n) ws) parents
      (set_values (first # vs @ [w]) p) = (ERR_NOERROR, set_values (first # vs @ w # ws) p, ns')"
    using Cons.IH [of "set_values (first # vs @ [w]) p" "vs @ [w]"] Cons.prems by (auto simp: twice)
  then show ?case
    using a same_type_written [OF w, of j n n] json_value_written [of j w n] Cons.prems by (simp add: twice)
qed

lemma SetValue_values: "\<exists>r ns. SetValue ops ans v parents p = (r, set_values [v] p, ns)"
  by (auto simp: SetValue_def Let_def split: prod.splits)

lemma JSONToValues_written:
  assumes "\<forall>v \<in> set (m_vecValues q). reads_back j v" "values_ok (m_vecValues q)"
  shows "\<exists>ns. JSONToValues j ops ans (ValuesToJSON j q) parents p = (ERR_NOERROR, set_values (m_vecValues q) p, ns)"
proof -
  obtain v vs where q: "m_vecValues q = v # vs" "\<forall>w \<in> set vs. same_type v w"
    using assms(2) by (cases "m_vecValues q") (auto simp: values_ok_def)
  have rb: "reads_back j v" "\<forall>w \<in> set vs. reads_back j w" using assms(1) q(1) by simp_all
  obtain r ns where s: "SetValue ops ans v parents p = (r, set_values [v] p, ns)" using SetValue_values by blast
  have first: "DeserializeFirstValue j ops ans (value_to_json j n v) parents p = (ERR_NOERROR, set_values [v] p, ns)" for n
    using s by (simp add: DeserializeFirstValue_def json_value_written [OF rb(1)])
  have twice: "set_values a (set_values b p) = set_values a p" for a b by (cases p) simp
  show ?thesis
  proof (cases vs)
    case Nil
    have "JSONToValues j ops ans (value_to_json j ''Value'' v) parents p =
        DeserializeFirstValue j ops ans (value_to_json j ''Value'' v) parents p"
      by (cases v) (simp_all add: JSONToValues_def)
    then show ?thesis using Nil q first by (simp add: ValuesToJSON_def IsArray_def)
  next
    case (Cons w ws)
    obtain ns' where "append_nodes j ops ans (value_to_json j [] v) (map (value_to_json j []) vs) parents (set_values [v] p) =
        (ERR_NOERROR, set_values (v # vs) p, ns')"
      using append_nodes_written [OF rb(2) q(2), of "set_values [v] p" "[]" ops ans "[]" parents] by (auto simp: twice)
    then show ?thesis
      using Cons q(1) first [of "[]"] json_value_written [OF rb(1), of "[]"]
      by (simp add: ValuesToJSON_def IsArray_def JSONToValues_def)
  qed
qed

lemma update_paths_copy: "update_paths pp (copy_below x c) = copy_below (sub_path pp (m_strName c)) c"
proof (induction c arbitrary: pp x)
  case (Property n path vs ls subs)
  have name: "m_strName (copy_below y c) = m_strName c" for y and c :: "'a property" by (cases c) simp
  show ?case
    using Property.IH by (auto simp: Let_def)
qed

lemma name_copy_below [simp]: "m_strName (copy_below y c) = m_strName c"
  by (cases c) simp

lemma AddSubproperty_adds:
  "m_strName c \<noteq> [] \<Longrightarrow>
   \<exists>r ns. AddSubproperty ans c parents p = (r, set_subs (m_lstSubproperties p @ [update_paths (m_strPath p) c]) p, ns)"
  by (simp add: AddSubproperty_def Let_def case_prod_beta)

lemma JSONToSubs_written:
  assumes "\<And>c. c \<in> set cs \<Longrightarrow> part_ok (m_strName c)"
    "\<And>c. c \<in> set cs \<Longrightarrow> \<exists>ns. JSONToProperty j ops ans (PropertyToJSON j c) [] (new_property [] (VString [])) =
      (ERR_NOERROR, copy_below (m_strName c) c, ns)"
  shows "\<exists>ns. JSONToSubs j ops ans (map (PropertyToJSON j) cs) parents p =
    (ERR_NOERROR, set_subs (m_lstSubproperties p @ map (\<lambda>c. copy_below (sub_path (m_strPath p) (m_strName c)) c) cs) p, ns)"
  using assms
proof (induction cs arbitrary: p)
  case Nil
  then show ?case using set_subs_twice(2) [of p] by simp
next
  case (Cons c cs)
  let ?c = "copy_below (sub_path (m_strPath p) (m_strName c)) c"
  have sub: "is_subproperty (PropertyToJSON j c)" by (cases c) simp
  obtain ns1 where 1: "JSONToProperty j ops ans (PropertyToJSON j c) [] (new_property [] (VString [])) =
      (ERR_NOERROR, copy_below (m_strName c) c, ns1)" using Cons.prems(2) [of c] by auto
  obtain r ns2 where 2: "AddSubproperty ans (copy_below (m_strName c) c) parents p = (r, set_subs (m_lstSubproperties p @ [?c]) p, ns2)"
    using Cons.prems(1) [of c] AddSubproperty_adds [of "copy_below (m_strName c) c" ans parents p]
    by (auto simp: update_paths_copy part_ok_def)
  obtain ns3 where "JSONToSubs j ops ans (map (PropertyToJSON j) cs) parents (set_subs (m_lstSubproperties p @ [?c]) p) =
      (ERR_NOERROR, set_subs (m_lstSubproperties p @ ?c # map (\<lambda>c. copy_below (sub_path (m_strPath p) (m_strName c)) c) cs) p, ns3)"
    using Cons.IH [of "set_subs (m_lstSubproperties p @ [?c]) p"] Cons.prems by auto
  with sub 1 2 show ?case by simp
qed

lemma ValuesToJSON_not_sub: "\<not> is_subproperty (ValuesToJSON j p) \<and> j_name (ValuesToJSON j p) = ''Value''"
proof -
  have "\<not> is_subproperty (value_to_json j n v)" for n v by (cases v) auto
  then show ?thesis by (simp add: ValuesToJSON_def)
qed

lemma json_roundtrip:
  "prop_ok p \<Longrightarrow> numbers_read_back j p \<Longrightarrow> \<exists>ns. JSONToProperty j ops ans (PropertyToJSON j p) parents q =
    (ERR_NOERROR, set_listeners (m_vecListeners q) (copy_below (directory (m_strPath q) @ m_strName p) p), ns)"
proof (induction p arbitrary: parents q)
  case (Property n path vs ls subs)
  let ?p = "Property n path vs ls subs" and ?path = "directory (m_strPath q) @ n"
  have ok: "values_ok vs" "\<And>c. c \<in> set subs \<Longrightarrow> part_ok (m_strName c) \<and> prop_ok c" using Property.prems by auto
  have rb: "\<forall>v \<in> set vs. reads_back j v" "\<And>c. c \<in> set subs \<Longrightarrow> numbers_read_back j c" using Property.prems by auto
  have "directory [] = []" by (simp add: directory_def)
  then have IH: "\<exists>ns. JSONToProperty j ops ans (PropertyToJSON j c) [] (new_property [] (VString [])) =
      (ERR_NOERROR, copy_below (m_strName c) c, ns)" if "c \<in> set subs" for c
  proof -
    have none: "set_listeners [] (copy_below x c) = copy_below x c" for x by (cases c) simp
    show ?thesis using Property.IH [OF that, of "[]" "new_property [] (VString [])"] ok(2) [OF that] rb(2) [OF that] \<open>directory [] = []\<close>
      by (simp add: new_property_def none)
  qed
  define q1 where "q1 = set_path ?path (set_name n (set_subs [] q))"
  obtain ns1 where 1: "ClearSubproperties parents q = (ERR_NOERROR, set_subs [] q, ns1)" by (simp add: ClearSubproperties_def)
  have 2: "SetName ans n parents (set_subs [] q) = (ERR_NOERROR, q1, [])" by (simp add: SetName_def q1_def)
  obtain ns3 where 3: "JSONToValues j ops ans (ValuesToJSON j (Property n path vs ls [])) parents q1 = (ERR_NOERROR, set_values vs q1, ns3)"
    using JSONToValues_written [of "Property n path vs ls []" j ops ans parents q1] ok(1) rb(1) by auto
  obtain ns4 where "JSONToSubs j ops ans (map (PropertyToJSON j) subs) parents (set_values vs q1) =
      (ERR_NOERROR, set_subs (m_lstSubproperties (set_values vs q1) @
        map (\<lambda>c. copy_below (sub_path (m_strPath (set_values vs q1)) (m_strName c)) c) subs) (set_values vs q1), ns4)"
    using JSONToSubs_written [of subs j ops ans parents "set_values vs q1"] ok(2) IH by blast
  moreover have "set_subs (m_lstSubproperties (set_values vs q1) @
        map (\<lambda>c. copy_below (sub_path (m_strPath (set_values vs q1)) (m_strName c)) c) subs) (set_values vs q1) =
      set_listeners (m_vecListeners q) (copy_below ?path ?p)"
    by (cases q) (simp add: q1_def)
  ultimately have 4: "JSONToSubs j ops ans (children (PropertyToJSON j ?p)) parents (set_values vs q1) =
      (ERR_NOERROR, set_listeners (m_vecListeners q) (copy_below ?path ?p), ns4)"
    using ValuesToJSON_not_sub [of j "Property n path vs ls []"] by simp
  have v: "find (\<lambda>x. j_name x = ''Value'') (children (PropertyToJSON j ?p)) = Some (ValuesToJSON j (Property n path vs ls []))"
    using ValuesToJSON_not_sub [of j "Property n path vs ls []"] by simp
  have "j_name (PropertyToJSON j ?p) = n" by simp
  then show ?case
    unfolding JSONToProperty.simps [of j ops ans "PropertyToJSON j ?p" parents q]
    using 1 2 v 3 4 by (simp del: PropertyToJSON.simps copy_below.simps children.simps)
qed

text \<open>C10: A property that is written as JSON, as the notifications about remote properties do, and read into another property is there
  again with its name, its values and their types and all its subproperties, at any depth; only listeners are not copied. This is
  for a property whose numbers, and those below it, the JSON library reads as it has written them, with a dot in the text of the
  floating point ones only; the tests of the repository name the smallest \<open>int32_t\<close> and the largest \<open>double\<close> as numbers for which
  the library does not.\<close>
theorem property_json_roundtrip:
  assumes "prop_ok p" "numbers_read_back j p"
  shows "\<exists>ns. JSONToProperty j ops ans (PropertyToJSON j p) parents q =
    (ERR_NOERROR, set_listeners (m_vecListeners q) (copy_below (directory (m_strPath q) @ m_strName p) p), ns)"
  using assms by (rule json_roundtrip)

definition unary_json :: "int json_ops" where
  "unary_json = \<lparr>write_float = \<lambda>d. CHR ''.'' # (if d < 0 then ''-'' else []) @ replicate (nat \<bar>d\<bar>) (CHR ''1''),
     write_int = \<lambda>i. replicate (unat i) (CHR ''1''),
     as_float = \<lambda>t. if CHR ''-'' \<in> set t then 2 - int (length t) else int (length t) - 1,
     as_int = \<lambda>t. word_of_nat (length t)\<rparr>"

theorem property_json_roundtrip_witness:
  "\<exists>ns. JSONToProperty unary_json int_ops (\<lambda>_. ERR_NOERROR) (PropertyToJSON unary_json demo_tree) [] demo_b =
    (ERR_NOERROR, set_listeners (m_vecListeners demo_b) (copy_below (directory (m_strPath demo_b) @ m_strName demo_tree) demo_tree), ns)"
proof (rule property_json_roundtrip)
  show "numbers_read_back unary_json demo_tree" unfolding demo_tree_eq by (simp add: demo_b_def unary_json_def)
  show "prop_ok demo_tree" using tree_run_ok [OF tree_ok_new] unfolding demo_tree_def tree_ok_def by blast
qed

end
