(* ===== verification/Property_Mirror.thy ===== *)
theory Property_Mirror
  imports Property_Tree Std_Map "HOL-Library.Product_Lexorder"
begin

text \<open>
  \<open>cPropertyTree\<close> (\<open>src/fep3/components/legacy/property_tree/fep_propertytree.{h,cpp}\<close>): the property tree of a
  participant as the others see it. It executes commands of other participants on the local tree, proxies changes
  below a property to the participants that mirror it, and applies such changes to the local copies of remote
  properties.

  Messages between participants are values: what a command or a notification carries (a changed property goes with
  its name and its values, one that is acknowledged with everything below it). A pointer to a property is its path.
  A proxy is found by the property it is registered at: its listener is in the list of that property.
\<close>

section \<open>State\<close>

record mirror_info =
  strElementName :: string
  strRemotePath :: string
  strLocalPath :: string

text \<open>The order of the keys: element, then remote path, then local path.\<close>

type_synonym info_key = "string \<times> string \<times> string"

definition key_of :: "mirror_info \<Rightarrow> info_key" where
  "key_of info = (strElementName info, strRemotePath info, strLocalPath info)"

definition info_of :: "info_key \<Rightarrow> mirror_info" where
  "info_of k = \<lparr>strElementName = fst k, strRemotePath = fst (snd k), strLocalPath = snd (snd k)\<rparr>"

record proxy =
  px_listener :: nat
  m_strRemoteModule :: string
  px_path :: string
  m_nRefCount :: int

datatype change_event = CE_New | CE_Change | CE_Delete

record 'd changed_notification =
  cn_sender :: string
  cn_event :: change_event
  cn_path :: string
  cn_values :: "'d variant list"

record watcher =
  m_poInfo :: mirror_info
  m_poProperty :: string

record 'd ptree =
  pt_root :: "'d property"
  pt_name :: string
  pt_next :: nat
  m_mapProxyChangeListeners :: "proxy list"
  m_mapMirroredProperties :: "(info_key, string) std_map"
  m_mapRemoteChangeListeners :: "(string \<times> watcher) list"
  pt_watchers :: "watcher list"

datatype 'd pt_message =
    PropertyNotification string string "'d property"
  | RegPropListenerAck string string "'d property"
  | UnregPropListenerAck string string
  | PropertyChanged string "'d changed_notification"

definition new_ptree :: "string \<Rightarrow> 'd ptree" where
  "new_ptree name = \<lparr>pt_root = new_tree, pt_name = name, pt_next = 0, m_mapProxyChangeListeners = [],
     m_mapMirroredProperties = [], m_mapRemoteChangeListeners = [], pt_watchers = []\<rparr>"

section \<open>Proxies\<close>

fun event_of :: "prop_change \<Rightarrow> change_event" where
  "event_of PropertyAdd = CE_New"
| "event_of PropertyChange = CE_Change"
| "event_of PropertyDelete = CE_Delete"

definition changed :: "string \<Rightarrow> change_event \<Rightarrow> 'd property \<Rightarrow> 'd changed_notification" where
  "changed name ev p = \<lparr>cn_sender = name, cn_event = ev, cn_path = m_strPath p, cn_values = m_vecValues p\<rparr>"

definition SendPropertyChangedNotification :: "string \<Rightarrow> proxy \<Rightarrow> 'd property \<Rightarrow> change_event \<Rightarrow> 'd pt_message" where
  "SendPropertyChangedNotification name px p ev = PropertyChanged (m_strRemoteModule px) (changed name ev p)"

text \<open>The callbacks of the proxies among the listeners; a proxy never objects.\<close>

definition proxy_messages :: "'d ptree \<Rightarrow> 'd prop_event list \<Rightarrow> 'd pt_message list" where
  "proxy_messages t ns = concat (map (\<lambda>e. case e of Notify l ch _ affected _ \<Rightarrow>
     (case find (\<lambda>px. px_listener px = l) (m_mapProxyChangeListeners t) of
        None \<Rightarrow> []
      | Some px \<Rightarrow> [SendPropertyChangedNotification (pt_name t) px affected (event_of ch)])) ns)"

definition FindExistingProxyListener :: "'d property \<Rightarrow> string \<Rightarrow> string \<Rightarrow> 'd ptree \<Rightarrow> proxy option" where
  "FindExistingProxyListener p strModule strPath t =
     find (\<lambda>px. px_listener px \<in> set (m_vecListeners p) \<and> m_strRemoteModule px = strModule \<and> px_path px = strPath)
       (m_mapProxyChangeListeners t)"

definition Update_RegPropListener :: "string \<Rightarrow> string \<Rightarrow> 'd ptree \<Rightarrow> 'd ptree \<times> 'd pt_message list" where
  "Update_RegPropListener sender path t =
     (case GetProperty path (pt_root t) of
        None \<Rightarrow> (t, [])
      | Some p \<Rightarrow>
          (case FindExistingProxyListener p sender path t of
             Some px \<Rightarrow>
               (t\<lparr>m_mapProxyChangeListeners := map (\<lambda>x. if x = px then x\<lparr>m_nRefCount := m_nRefCount x + 1\<rparr> else x)
                    (m_mapProxyChangeListeners t)\<rparr>, [RegPropListenerAck sender path p])
           | None \<Rightarrow>
               (t\<lparr>pt_root := fst (snd (tree_RegisterListener path (pt_next t) (pt_root t))), pt_next := pt_next t + 1,
                  m_mapProxyChangeListeners := m_mapProxyChangeListeners t @
                    [\<lparr>px_listener = pt_next t, m_strRemoteModule = sender, px_path = path, m_nRefCount = 1\<rparr>]\<rparr>,
                [RegPropListenerAck sender path p])))"

definition Update_UnregPropListener :: "string \<Rightarrow> string \<Rightarrow> 'd ptree \<Rightarrow> 'd ptree \<times> 'd pt_message list" where
  "Update_UnregPropListener sender path t =
     (case GetProperty path (pt_root t) of
        None \<Rightarrow> (t, [])
      | Some p \<Rightarrow>
          (case FindExistingProxyListener p sender path t of
             None \<Rightarrow> (t, [])
           | Some px \<Rightarrow>
               (if m_nRefCount px - 1 > 0
                then t\<lparr>m_mapProxyChangeListeners := map (\<lambda>x. if x = px then x\<lparr>m_nRefCount := m_nRefCount x - 1\<rparr> else x)
                       (m_mapProxyChangeListeners t)\<rparr>
                else t\<lparr>pt_root := fst (snd (tree_UnregisterListener path (px_listener px) (pt_root t))),
                       m_mapProxyChangeListeners := remove1 px (m_mapProxyChangeListeners t)\<rparr>,
                [UnregPropListenerAck sender path])))"

section \<open>Local changes\<close>

text \<open>The answers of the other listeners of the tree are \<open>ans\<close>.\<close>

definition pt_SetPropertyValue ::
    "'d float_ops \<Rightarrow> 'd answers \<Rightarrow> string \<Rightarrow> 'd variant \<Rightarrow> 'd ptree \<Rightarrow> fep_result \<times> 'd ptree \<times> 'd pt_message list" where
  "pt_SetPropertyValue ops ans path v t =
     (let (r, root, ns) = SetPropertyValue ops ans path v (pt_root t) in (r, t\<lparr>pt_root := root\<rparr>, proxy_messages t ns))"

definition pt_AppendValue ::
    "'d float_ops \<Rightarrow> 'd answers \<Rightarrow> string \<Rightarrow> 'd variant \<Rightarrow> 'd ptree \<Rightarrow> fep_result \<times> 'd ptree \<times> 'd pt_message list" where
  "pt_AppendValue ops ans path v t =
     (let (r, root, ns) = at_property ERR_FAILED (AppendValue ops ans v) path (pt_root t)
      in (r, t\<lparr>pt_root := root\<rparr>, proxy_messages t ns))"

fun pt_append_all ::
    "'d float_ops \<Rightarrow> 'd answers \<Rightarrow> string \<Rightarrow> 'd variant list \<Rightarrow> 'd ptree \<Rightarrow> fep_result \<times> 'd ptree \<times> 'd pt_message list" where
  "pt_append_all ops ans path [] t = (ERR_NOERROR, t, [])"
| "pt_append_all ops ans path (v # vs) t =
     (let (r, t, ms) = pt_AppendValue ops ans path v t
      in if isFailed r then (r, t, ms)
         else let (r, t, ms') = pt_append_all ops ans path vs t in (r, t, ms @ ms'))"

text \<open>\<open>SetPropertyValues\<close>: the results of the single steps are combined, none of them stops the others.\<close>

fun append_values ::
    "'d float_ops \<Rightarrow> 'd answers \<Rightarrow> string \<Rightarrow> 'd variant list \<Rightarrow> fep_result \<Rightarrow> 'd ptree \<Rightarrow> fep_result \<times> 'd ptree \<times> 'd pt_message list" where
  "append_values ops ans path [] nResult t = (nResult, t, [])"
| "append_values ops ans path (v # vs) nResult t =
     (let (r, t, ms) = pt_AppendValue ops ans path v t;
          (r, t, ms') = append_values ops ans path vs (result_or nResult r) t
      in (r, t, ms @ ms'))"

definition SetPropertyValues ::
    "'d float_ops \<Rightarrow> 'd answers \<Rightarrow> string \<Rightarrow> 'd variant list \<Rightarrow> 'd ptree \<Rightarrow> fep_result \<times> 'd ptree \<times> 'd pt_message list" where
  "SetPropertyValues ops ans path vs t =
     (if vs = [] then (ERR_INVALID_ARG, t, [])
      else
        let (nResult, t, ms) = pt_SetPropertyValue ops ans path (hd vs) t
        in if isOk nResult \<and> GetProperty path (pt_root t) \<noteq> None
           then let (r, t, ms') = append_values ops ans path (tl vs) nResult t in (r, t, ms @ ms')
           else (nResult, t, ms))"

text \<open>A command to set a property to one or more values, with the acknowledgement for its sender.\<close>

definition Update_SetProperty ::
    "'d float_ops \<Rightarrow> 'd answers \<Rightarrow> string \<Rightarrow> string \<Rightarrow> 'd variant list \<Rightarrow> 'd ptree \<Rightarrow>
     fep_result \<times> 'd ptree \<times> 'd pt_message list" where
  "Update_SetProperty ops ans sender path vs t =
     (let (r, t, ms) = pt_SetPropertyValue ops ans path (hd vs) t;
          (r, t, ms) = (if isOk r \<and> length vs > 1
                        then let (r, t, ms') = pt_append_all ops ans path (tl vs) t in (r, t, ms @ ms') else (r, t, ms))
      in if isFailed r then (r, t, ms)
         else case GetProperty path (pt_root t) of
             None \<Rightarrow> (ERR_NOERROR, t, ms)
           | Some p \<Rightarrow> (ERR_NOERROR, t, ms @ [PropertyNotification sender path p]))"

definition Update_GetProperty :: "string \<Rightarrow> string \<Rightarrow> 'd ptree \<Rightarrow> 'd pt_message list" where
  "Update_GetProperty sender path t =
     (case GetProperty path (pt_root t) of None \<Rightarrow> [] | Some p \<Rightarrow> [PropertyNotification sender path p])"

text \<open>The proxies at a property are told of its end and removed.\<close>

fun delete_proxies :: "string \<Rightarrow> proxy list \<Rightarrow> 'd property \<Rightarrow> 'd ptree \<Rightarrow> 'd ptree \<times> 'd pt_message list" where
  "delete_proxies path [] p t = (t, [])"
| "delete_proxies path (px # pxs) p t =
     (let t' = t\<lparr>pt_root := fst (snd (tree_UnregisterListener path (px_listener px) (pt_root t))),
               m_mapProxyChangeListeners := remove1 px (m_mapProxyChangeListeners t)\<rparr>;
          (t'', ms) = delete_proxies path pxs p t'
      in (t'', SendPropertyChangedNotification (pt_name t) px p CE_Delete # ms))"

definition DeletePropertyFromMap :: "string \<Rightarrow> 'd property \<Rightarrow> 'd ptree \<Rightarrow> 'd ptree \<times> 'd pt_message list" where
  "DeletePropertyFromMap path p t =
     delete_proxies path (filter (\<lambda>px. px_listener px \<in> set (m_vecListeners p)) (m_mapProxyChangeListeners t)) p t"

text \<open>
  \<open>DeleteProperty\<close> deletes the subproperties first, each by the path it tells. \<open>None\<close>: the fuel does not suffice.
\<close>

fun delete_fuel :: "nat \<Rightarrow> string \<Rightarrow> 'd ptree \<Rightarrow> (fep_result \<times> 'd ptree \<times> 'd pt_message list) option"
  and delete_each :: "nat \<Rightarrow> string list \<Rightarrow> 'd ptree \<Rightarrow> (fep_result \<times> 'd ptree \<times> 'd pt_message list) option" where
  "delete_fuel 0 path t = None"
| "delete_fuel (Suc n) path t =
     (case GetProperty path (pt_root t) of
        None \<Rightarrow>
          let (r, root, ns) = DeleteProperty path (pt_root t) in Some (r, t\<lparr>pt_root := root\<rparr>, proxy_messages t ns)
      | Some p \<Rightarrow>
          let (t, ms1) = DeletePropertyFromMap path p t
          in case delete_each n (map m_strPath (m_lstSubproperties p)) t of
               None \<Rightarrow> None
             | Some (r, t, ms2) \<Rightarrow>
                 if isFailed r then Some (ERR_PATH_NOT_FOUND, t, ms1 @ ms2)
                 else let (r, root, ns) = DeleteProperty path (pt_root t)
                      in Some (r, t\<lparr>pt_root := root\<rparr>, ms1 @ ms2 @ proxy_messages t ns))"
| "delete_each n [] t = Some (ERR_NOERROR, t, [])"
| "delete_each n (path # paths) t =
     (case delete_fuel n path t of
        None \<Rightarrow> None
      | Some (r, t, ms) \<Rightarrow>
          if isFailed r then Some (r, t, ms)
          else map_option (\<lambda>(r, t, ms'). (r, t, ms @ ms')) (delete_each n paths t))"

definition pt_DeleteProperty :: "string \<Rightarrow> 'd ptree \<Rightarrow> (fep_result \<times> 'd ptree \<times> 'd pt_message list) option" where
  "pt_DeleteProperty path t = delete_fuel (Suc (size (pt_root t))) path t"

section \<open>Requests to other participants\<close>

text \<open>
  A request that waits for an answer registers a listener that keeps the first notification of that participant about
  that path: \<open>None\<close> as long as there is none.
\<close>

definition ack_Update :: "string \<Rightarrow> string \<Rightarrow> string \<times> string \<times> 'a \<Rightarrow> 'a option \<Rightarrow> 'a option" where
  "ack_Update strModule strPath n received =
     (let (sender, path, content) = n
      in if received \<noteq> None \<or> sender \<noteq> strModule \<or> path \<noteq> strPath then received else Some content)"

definition ack_received :: "string \<Rightarrow> string \<Rightarrow> (string \<times> string \<times> 'a) list \<Rightarrow> 'a option" where
  "ack_received strModule strPath ns = fold (ack_Update strModule strPath) ns None"

text \<open>
  \<open>SetRemotePropertyValue\<close>: the results of registering the listener and of sending the command are inputs, as is
  whether the answer comes in time; the result, and whether the command was sent. What the waiting yields replaces what
  the sending yielded.
\<close>

definition SetRemotePropertyValue :: "bool \<Rightarrow> fep_result \<Rightarrow> fep_result \<Rightarrow> bool \<Rightarrow> fep_result \<times> bool" where
  "SetRemotePropertyValue waits registered transmitted acknowledged =
     (let nResult = (if waits then registered else ERR_NOERROR);
          sent = isOk nResult;
          nResult = (if sent then transmitted else nResult)
      in (if waits then (if acknowledged then ERR_NOERROR else ERR_TIMEOUT) else nResult, sent))"

text \<open>Several values: a command with all of them. \<open>None\<close>: the first value is read although there is none.\<close>

definition SetRemotePropertyValues ::
    "'d variant list \<Rightarrow> bool \<Rightarrow> fep_result \<Rightarrow> fep_result \<Rightarrow> bool \<Rightarrow> (fep_result \<times> 'd variant list option) option" where
  "SetRemotePropertyValues vs waits registered transmitted acknowledged =
     (let nResult = (if vs = [] then ERR_INVALID_ARG else ERR_NOERROR);
          nResult = (if waits then registered else nResult);
          sent = isOk nResult;
          nResult = (if sent then transmitted else nResult)
      in if sent \<and> vs = [] then None
         else Some (if waits then (if acknowledged then ERR_NOERROR else ERR_TIMEOUT) else nResult,
                    if sent then Some vs else None))"

definition names_one :: "string \<Rightarrow> bool" where
  "names_one strName \<longleftrightarrow> strName \<noteq> [] \<and> CHR ''*'' \<notin> set strName \<and> CHR ''?'' \<notin> set strName"

text \<open>\<open>GetRemoteProperty\<close> with what arrives while it waits.\<close>

definition GetRemoteProperty ::
    "string \<Rightarrow> string \<Rightarrow> bool \<Rightarrow> fep_result \<Rightarrow> fep_result \<Rightarrow> (string \<times> string \<times> 'd property) list \<Rightarrow> fep_result \<times> 'd property option" where
  "GetRemoteProperty strName strPropPath negative_timeout registered transmitted ns =
     (if negative_timeout \<or> \<not> names_one strName then (ERR_INVALID_ARG, None)
      else if isFailed registered then (registered, None)
      else if isFailed transmitted then (ERR_FAILED, None)
      else case ack_received strName strPropPath ns of
          None \<Rightarrow> (ERR_TIMEOUT, None)
        | Some p \<Rightarrow> (ERR_NOERROR, Some p))"

section \<open>Mirrors of remote properties\<close>

definition RemoveMirroredPropertyLocalSubscription :: "string \<Rightarrow> mirror_info \<Rightarrow> 'd ptree \<Rightarrow> 'd ptree" where
  "RemoveMirroredPropertyLocalSubscription prop info t =
     (case map_of (m_mapRemoteChangeListeners t) prop of
        None \<Rightarrow> t
      | Some w \<Rightarrow>
          t\<lparr>pt_watchers := remove1 w (pt_watchers t),
            m_mapRemoteChangeListeners := filter (\<lambda>(k, _). k \<noteq> prop) (m_mapRemoteChangeListeners t),
            m_mapMirroredProperties := sm_erase (key_of info) (m_mapMirroredProperties t)\<rparr>)"

text \<open>
  \<open>MirrorRemoteProperty\<close>, with the property of the acknowledgement that arrives in time, if one does. What has to
  be sent is the command to register a listener.
\<close>

definition MirrorRemoteProperty ::
    "'d float_ops \<Rightarrow> 'd answers \<Rightarrow> mirror_info \<Rightarrow> bool \<Rightarrow> 'd property option \<Rightarrow> 'd ptree \<Rightarrow>
     fep_result \<times> 'd ptree \<times> 'd pt_message list" where
  "MirrorRemoteProperty ops ans info negative_timeout acknowledged t =
     (if negative_timeout \<or> \<not> names_one (strElementName info) then (ERR_INVALID_ARG, t, [])
      else
        let t = (case map_of (m_mapMirroredProperties t) (key_of info) of
                   Some prop \<Rightarrow> RemoveMirroredPropertyLocalSubscription prop info t | None \<Rightarrow> t)
        in case acknowledged of
             None \<Rightarrow> (ERR_TIMEOUT, t, [])
           | Some p \<Rightarrow>
               let p = (if strRemotePath info = [] then fst (snd (SetName ans (strElementName info) [] p)) else p);
                   (root, ns) = MergeProperty ops ans (strLocalPath info) p (pt_root t);
                   prop = (if strLocalPath info = [] then [] else strLocalPath info @ [CHR ''.'']) @ m_strName p;
                   w = \<lparr>m_poInfo = info, m_poProperty = prop\<rparr>
               in (ERR_NOERROR,
                   t\<lparr>pt_root := root,
                     m_mapMirroredProperties := sm_insert (key_of info) prop (m_mapMirroredProperties t),
                     pt_watchers := pt_watchers t @ [w],
                     m_mapRemoteChangeListeners := (if prop \<in> fst ` set (m_mapRemoteChangeListeners t)
                       then m_mapRemoteChangeListeners t else m_mapRemoteChangeListeners t @ [(prop, w)])\<rparr>,
                   proxy_messages t ns))"

text \<open>\<open>UnmirrorRemoteProperty\<close>, with the result of sending the command and whether the acknowledgement comes in time.\<close>

definition UnmirrorRemoteProperty :: "mirror_info \<Rightarrow> bool \<Rightarrow> fep_result \<Rightarrow> bool \<Rightarrow> 'd ptree \<Rightarrow> fep_result \<times> 'd ptree" where
  "UnmirrorRemoteProperty info negative_timeout transmitted acknowledged t =
     (if negative_timeout \<or> CHR ''*'' \<in> set (strElementName info) then (ERR_INVALID_ARG, t)
      else case map_of (m_mapMirroredProperties t) (key_of info) of
          None \<Rightarrow> (ERR_INVALID_ARG, t)
        | Some prop \<Rightarrow>
            let t = RemoveMirroredPropertyLocalSubscription prop info t
            in (if isFailed transmitted then ERR_FAILED else if acknowledged then ERR_NOERROR else ERR_TIMEOUT, t))"

text \<open>
  A participant has a new name: the keys of the mirrored properties, the infos that the listeners point to and the
  proxies change. A listener that is in no map keeps what it had.
\<close>

definition renamed :: "string \<Rightarrow> string \<Rightarrow> (info_key, string) std_map \<Rightarrow> (info_key, string) std_map" where
  "renamed old new m =
     fold (\<lambda>((name, rest), prop) acc. sm_insert (if name = old then new else name, rest) prop acc) m []"

definition refresh :: "(info_key, string) std_map \<Rightarrow> string \<Rightarrow> watcher \<Rightarrow> watcher" where
  "refresh m prop w =
     (case find (\<lambda>(_, p). p = prop) m of None \<Rightarrow> w | Some (k, _) \<Rightarrow> w\<lparr>m_poInfo := info_of k\<rparr>)"

definition ElementNameChanged :: "string \<Rightarrow> string \<Rightarrow> 'd ptree \<Rightarrow> 'd ptree" where
  "ElementNameChanged old new t =
     (if old = new then t
      else
        let m = renamed old new (m_mapMirroredProperties t)
        in t\<lparr>m_mapMirroredProperties := m,
             pt_watchers := map (\<lambda>w. case find (\<lambda>(_, w'). w' = w) (m_mapRemoteChangeListeners t) of
                 None \<Rightarrow> w | Some (prop, _) \<Rightarrow> refresh m prop w) (pt_watchers t),
             m_mapRemoteChangeListeners := map (\<lambda>(prop, w). (prop, refresh m prop w)) (m_mapRemoteChangeListeners t),
             m_mapProxyChangeListeners := map (\<lambda>px. if m_strRemoteModule px = old then px\<lparr>m_strRemoteModule := new\<rparr> else px)
               (m_mapProxyChangeListeners t)\<rparr>)"

text \<open>\<open>SetModule(NULL)\<close>: the tree is taken off the participant, with its listeners and its proxies.\<close>

fun unregister_proxies :: "proxy list \<Rightarrow> 'd property \<Rightarrow> 'd property" where
  "unregister_proxies [] root = root"
| "unregister_proxies (px # pxs) root =
     unregister_proxies pxs (fst (snd (tree_UnregisterListener (px_path px) (px_listener px) root)))"

definition SetModule_none :: "'d ptree \<Rightarrow> 'd ptree" where
  "SetModule_none t =
     t\<lparr>pt_root := unregister_proxies (m_mapProxyChangeListeners t) (pt_root t),
       pt_watchers := filter (\<lambda>w. w \<notin> snd ` set (m_mapRemoteChangeListeners t)) (pt_watchers t),
       m_mapRemoteChangeListeners := [], m_mapProxyChangeListeners := []\<rparr>"

text \<open>
  The path of the local property that a remote path stands for, if there is such a property. The first \<open>None\<close>: the
  local copy itself has been deleted, the pointer to it dangles.
\<close>

definition FindAffectedProperty :: "watcher \<Rightarrow> string \<Rightarrow> 'd property \<Rightarrow> string option option" where
  "FindAffectedProperty w strPath root =
     (let remote = strRemotePath (m_poInfo w)
      in if GetProperty (m_poProperty w) root = None then None
         else if strPath = [] then Some None
         else if strPath = remote then Some (Some (m_poProperty w))
         else
           let rest = (if remote \<noteq> [] then drop (length remote + 1) strPath else strPath);
               local = (if m_poProperty w \<noteq> [] then m_poProperty w @ [CHR ''.''] else []) @ rest
           in Some (map_option m_strPath (GetProperty local root)))"

definition split_last :: "string \<Rightarrow> (string \<times> string) option" where
  "split_last path =
     (if CHR ''.'' \<in> set path
      then Some (butlast (directory path), drop (length (directory path)) path) else None)"

text \<open>\<open>CE_New\<close> is about a property below the one that is found: its name is the last part of the path.\<close>

definition add_copy :: "'d float_ops \<Rightarrow> 'd answers \<Rightarrow> string \<Rightarrow> 'd property \<Rightarrow> ('d, fep_result) action" where
  "add_copy ops ans name source parents p =
     (let (r, p, ns) = SetSubproperty ops ans name (VString []) parents p;
          (_, p, ns') = with_sub (\<lambda>_. ERR_NOERROR) False (VString []) (CopyPropertyValue ops ans source) (segments name) parents p
      in (r, p, ns @ ns'))"

definition watcher_Update ::
    "'d float_ops \<Rightarrow> 'd answers \<Rightarrow> watcher \<Rightarrow> 'd changed_notification \<Rightarrow> 'd ptree \<Rightarrow> ('d ptree \<times> 'd pt_message list) option" where
  "watcher_Update ops ans w n t =
     (let source = Property [] [] (cn_values n) [] [];
          at = (\<lambda>f path. let (_, root, ns) = at_property ERR_FAILED f path (pt_root t) in (t\<lparr>pt_root := root\<rparr>, proxy_messages t ns))
      in if cn_sender n \<noteq> strElementName (m_poInfo w) \<or> \<not> prefix (strRemotePath (m_poInfo w)) (cn_path n) then Some (t, [])
         else case cn_event n of
             CE_New \<Rightarrow>
               (case split_last (cn_path n) of
                  None \<Rightarrow> Some (t, [])
                | Some (dir, name) \<Rightarrow>
                    (case FindAffectedProperty w dir (pt_root t) of
                       None \<Rightarrow> None
                     | Some None \<Rightarrow> Some (t, [])
                     | Some (Some path) \<Rightarrow> Some (at (add_copy ops ans name source) path)))
           | CE_Change \<Rightarrow>
               (case FindAffectedProperty w (cn_path n) (pt_root t) of
                  None \<Rightarrow> None
                | Some None \<Rightarrow> Some (t, [])
                | Some (Some path) \<Rightarrow> Some (at (CopyPropertyValue ops ans source) path))
           | CE_Delete \<Rightarrow>
               (case FindAffectedProperty w (cn_path n) (pt_root t) of
                  None \<Rightarrow> None
                | Some None \<Rightarrow> Some (t, [])
                | Some (Some path) \<Rightarrow>
                    if path = m_poProperty w then
                      map_option (\<lambda>(_, t, ms).
                          (RemoveMirroredPropertyLocalSubscription path
                            \<lparr>strElementName = cn_sender n, strRemotePath = cn_path n,
                             strLocalPath = (case split_last path of None \<Rightarrow> [] | Some (dir, _) \<Rightarrow> dir)\<rparr> t, ms))
                        (pt_DeleteProperty path t)
                    else
                      (case split_last path of
                         None \<Rightarrow> Some (at (DeleteSubproperty path) [])
                       | Some (dir, name) \<Rightarrow> Some (at (DeleteSubproperty name) dir))))"

text \<open>A notification goes to all the watchers that are registered when it arrives.\<close>

definition deliver ::
    "'d float_ops \<Rightarrow> 'd answers \<Rightarrow> 'd changed_notification \<Rightarrow> 'd ptree \<Rightarrow> ('d ptree \<times> 'd pt_message list) option" where
  "deliver ops ans n t =
     fold (\<lambda>w st. case st of None \<Rightarrow> None
           | Some (t, ms) \<Rightarrow> map_option (\<lambda>(t, ms'). (t, ms @ ms')) (watcher_Update ops ans w n t))
       (pt_watchers t) (Some (t, []))"

end
