(* ===== verification/Property_Sync.thy ===== *)
theory Property_Sync
  imports Property_Mirror
begin

text \<open>
  Properties that are mirrored (\<open>Property_Mirror\<close>): what a proxy sends for an operation on the source, what a mirror does
  with a notification, and that the mirror follows; how mirroring begins; what deleting a property does.
\<close>

section \<open>What a proxy sends\<close>

definition the_change :: "string \<Rightarrow> change_event \<Rightarrow> string \<Rightarrow> 'd variant list \<Rightarrow> 'd changed_notification" where
  "the_change name ev path vs = \<lparr>cn_sender = name, cn_event = ev, cn_path = path, cn_values = vs\<rparr>"

lemma proxy_messages_append [simp]: "proxy_messages t (ns @ ns') = proxy_messages t ns @ proxy_messages t ns'"
  by (simp add: proxy_messages_def)

lemma proxy_messages_Nil [simp]: "proxy_messages t [] = []"
  by (simp add: proxy_messages_def)

lemma proxy_messages_concat: "proxy_messages t (concat xss) = concat (map (proxy_messages t) xss)"
  by (induction xss) simp_all

definition occurrences :: "nat \<Rightarrow> 'd property list \<Rightarrow> nat" where
  "occurrences l chain = sum_list (map (\<lambda>p. count_list (m_vecListeners p) l) chain)"

lemma occurrences_simps [simp]:
  "occurrences l [] = 0" "occurrences l (p # ps) = count_list (m_vecListeners p) l + occurrences l ps"
  by (simp_all add: occurrences_def)








section \<open>The mirror takes a change\<close>

lemma set_values_twice [simp]: "set_values a (set_values b p) = set_values a p"
  by (cases p) simp

lemma append_all_same:
  assumes "\<forall>v \<in> set ws. same_type first v"
  shows "m_vecValues p = first # vs \<Longrightarrow> \<exists>r ns. append_all ops ans ws parents p = (r, set_values (first # vs @ ws) p, ns)"
  using assms
proof (induction ws arbitrary: p vs)
  case Nil
  then show ?case by (cases p) simp
next
  case (Cons w ws)
  then obtain r ns where a: "AppendValue ops ans w parents p = (r, set_values (first # vs @ [w]) p, ns)"
    using AppendValue_same [of p first vs w ops ans parents] by auto
  obtain r' ns' where "append_all ops ans ws parents (set_values (first # vs @ [w]) p) = (r', set_values (first # vs @ w # ws) p, ns')"
    using Cons.IH [of "set_values (first # vs @ [w]) p" "vs @ [w]"] Cons.prems(2) by auto
  then show ?case using a by simp
qed

lemma CopyPropertyValue_copies:
  assumes "values_ok (m_vecValues source)"
  shows "\<exists>ns. CopyPropertyValue ops ans source parents p = (ERR_NOERROR, set_values (m_vecValues source) p, ns)"
proof -
  obtain v vs where q: "m_vecValues source = v # vs" "\<forall>w \<in> set vs. same_type v w"
    using assms by (cases "m_vecValues source") (auto simp: values_ok_def)
  obtain r ns where s: "SetValue ops ans v parents p = (r, set_values [v] p, ns)" using SetValue_values by blast
  obtain r' ns' where "append_all ops ans vs parents (set_values [v] p) = (r', set_values (v # vs) p, ns')"
    using append_all_same [OF q(2), of "set_values [v] p" "[]" ops ans parents] by auto
  then show ?thesis using s q(1) by (simp add: CopyPropertyValue_def)
qed

lemma writes_Copy:
  assumes "values_ok (m_vecValues source)"
  shows "writes (m_vecValues source) (CopyPropertyValue ops ans source)"
proof -
  have "p' = set_values (m_vecValues source) p" if "CopyPropertyValue ops ans source parents p = (r, p', ns)" for parents p r p' ns
    using CopyPropertyValue_copies [OF assms, of ops ans parents p] that by auto
  then show ?thesis unfolding writes_def keeps_def by fastforce
qed

lemma values_at_writes:
  assumes "writes vs f" "lookup root (segments path) = Some p"
  shows "values_at (fst (snd (at_property e f path root))) q = (if q = segments path then Some vs else values_at root q)"
proof -
  have k: "keeps f" using assms(1) by (simp add: writes_def)
  obtain r p' ns where f: "f (ancestors root (segments path)) p = (r, p', ns)" by (rule prod_cases3)
  note w = writesD [OF assms(1) f]
  show ?thesis
    unfolding values_at_property [OF k] using f assms(2)
    by (auto simp: values_at_same_subs [OF w(2)] w(1) prefix_le view_drop)
qed







section \<open>What the mirror does with a notification\<close>

lemma deliver_single: "pt_watchers t = [w] \<Longrightarrow> deliver ops ans n t = watcher_Update ops ans w n t"
  by (cases "watcher_Update ops ans w n t") (auto simp: deliver_def)

definition mirror_of :: "watcher \<Rightarrow> string \<Rightarrow> string list \<Rightarrow> string list \<Rightarrow> 'd ptree \<Rightarrow> bool" where
  "mirror_of w name R L t \<longleftrightarrow> tree_ok (pt_root t) \<and> pt_watchers t = [w] \<and> strElementName (m_poInfo w) = name \<and>
     strRemotePath (m_poInfo w) = join R \<and> m_poProperty w = join L \<and> path_ok R \<and> path_ok L \<and> R \<noteq> [] \<and> L \<noteq> [] \<and>
     lookup (pt_root t) L \<noteq> None"

lemma mirror_ofD:
  assumes "mirror_of w name R L t"
  shows "tree_ok (pt_root t)" "pt_watchers t = [w]" "strElementName (m_poInfo w) = name" "strRemotePath (m_poInfo w) = join R"
    "m_poProperty w = join L" "path_ok R" "path_ok L" "R \<noteq> []" "L \<noteq> []" "lookup (pt_root t) L \<noteq> None"
  using assms by (simp_all add: mirror_of_def)





section \<open>What the source sends\<close>














context node_view begin

lemma view_add_sub:
  assumes "find_sub s (m_lstSubproperties p) = None"
  shows "view g (set_subs (m_lstSubproperties p @ [Property s path vs ls []]) p) q =
    (if q = [s] then Some (g (Property s path vs ls [])) else view g p q)"
proof (cases q)
  case (Cons t ts)
  then show ?thesis using assms find_sub_Some [of t "m_lstSubproperties p"]
    by (cases ts) (auto simp: view_set_subs find_sub_append view_Cons nth_append split: option.splits)
qed (simp add: view_set_subs)

end




section \<open>The mirror follows its source\<close>




















section \<open>A copy of a foreign property\<close>


definition sub_values :: "'d property list \<Rightarrow> 'd store" where
  "sub_values cs q = (case q of [] \<Rightarrow> None
     | t # ts \<Rightarrow> (case find_sub t cs of None \<Rightarrow> None | Some i \<Rightarrow> values_at (cs ! i) ts))"

lemma sub_values_Nil [simp]: "sub_values [] q = None" "sub_values cs [] = None"
  by (cases q) (simp_all add: sub_values_def)








section \<open>How mirroring begins\<close>







text \<open>A source with one property, and a participant without any.\<close>

definition demo_root :: "int property" where
  "demo_root = Property [] [] [VString []] [] [Property ''a'' ''a'' [VInt32 1] [] []]"

definition demo_src :: "int ptree" where "demo_src = (new_ptree ''S'')\<lparr>pt_root := demo_root\<rparr>"
definition demo_src1 :: "int ptree" where "demo_src1 = fst (Update_RegPropListener ''M'' (join [''a'']) demo_src)"




section \<open>Where a mirror goes wrong\<close>

text \<open>A remote path that merely begins with the same characters is taken for one below the mirrored property: the mirror of
  \<open>a\<close> takes the value of \<open>ab\<close> for its own, since the rest of the path after the separator is empty and the
  local path that results names the mirror itself.\<close>
theorem longer_name_overwrites_mirror:
  assumes m: "mirror_of w name [a] [l] t" and c: "c \<noteq> CHR ''.''" "part_ok a" and vs: "values_ok vs"
  shows "\<exists>t' ms. deliver ops ans (the_change name CE_Change (a @ [c]) vs) t = Some (t', ms) \<and>
    values_at (pt_root t') [l] = Some vs"
proof -
  note D = mirror_ofD [OF m]
  have l: "part_ok l" using D(7) by simp
  have seg: "segments (l @ [CHR ''.'']) = [l]" using segments_dot [OF l, of "[]"] by simp
  obtain p where p: "lookup (pt_root t) [l] = Some p" using D(10) by blast
  define source :: "'a property" where "source = Property [] [] vs [] []"
  have found: "GetProperty (l @ [CHR ''.'']) (pt_root t) = Some p" "GetProperty l (pt_root t) = Some p"
    using p seg segments_part [OF l] by (simp_all add: GetProperty_lookup)
  have path: "m_strPath p = l" using lookup_names [OF D(1) p] by simp
  have "FindAffectedProperty w (a @ [c]) (pt_root t) = Some (Some l)"
    using D(4,5) c(2) found path l by (simp add: FindAffectedProperty_def Let_def part_ok_def)
  then have "deliver ops ans (the_change name CE_Change (a @ [c]) vs) t =
      Some (t\<lparr>pt_root := fst (snd (at_property ERR_FAILED (CopyPropertyValue ops ans source) l (pt_root t)))\<rparr>,
        proxy_messages t (snd (snd (at_property ERR_FAILED (CopyPropertyValue ops ans source) l (pt_root t)))))"
    using D by (simp add: deliver_single watcher_Update_def the_change_def source_def Let_def case_prod_beta)
  moreover have "values_at (fst (snd (at_property ERR_FAILED (CopyPropertyValue ops ans source) l (pt_root t)))) [l] = Some vs"
    using values_at_writes [OF writes_Copy [of source], of "pt_root t" l p ERR_FAILED ops ans "[l]"] vs p segments_part [OF l]
    by (simp add: source_def)
  ultimately show ?thesis by simp
qed

text \<open>When the local copy has been deleted by its owner, the next notification for it dereferences the pointer that was left:
  whatever it says about a property of the source that is mirrored, the model has no result.\<close>
theorem deleted_mirror_dangles:
  assumes "pt_watchers t = [w]" "GetProperty (m_poProperty w) (pt_root t) = None"
    "cn_sender n = strElementName (m_poInfo w)" "prefix (strRemotePath (m_poInfo w)) (cn_path n)" "cn_event n \<noteq> CE_New"
  shows "deliver ops ans n t = None"
  using assms by (cases "cn_event n") (simp_all add: deliver_single watcher_Update_def FindAffectedProperty_def Let_def)


section \<open>Deleting a property\<close>

text \<open>The proxies below a property that goes are told; the values do not change by that.\<close>

lemma delete_proxies_values:
  "tree_ok (pt_root t) \<Longrightarrow> delete_proxies path pxs p t = (t', ms) \<Longrightarrow>
   tree_ok (pt_root t') \<and> values_at (pt_root t') = values_at (pt_root t)"
proof (induction pxs arbitrary: t t' ms)
  case (Cons px pxs)
  let ?t = "t\<lparr>pt_root := fst (snd (tree_UnregisterListener path (px_listener px) (pt_root t))),
    m_mapProxyChangeListeners := remove1 px (m_mapProxyChangeListeners t)\<rparr>"
  obtain ms' where d: "delete_proxies path pxs p ?t = (t', ms')" using Cons.prems(2) by (auto simp: Let_def split: prod.splits)
  have "tree_ok (pt_root ?t)" "values_at (pt_root ?t) = values_at (pt_root t)"
    using tree_ok_at_property [OF sound_listeners(2) Cons.prems(1)] values_at_listeners [OF disjI2 [OF refl]]
    by (simp_all add: tree_UnregisterListener_def)
  then show ?case using Cons.IH [OF _ d] by simp
qed simp

lemma values_None: "values_at root q = None \<longleftrightarrow> lookup root q = None"
  by (simp add: view_def)

lemma DeleteProperty_result:
  assumes ok: "tree_ok root" and p: "lookup root (segments path) = Some p" and ne: "segments path \<noteq> []"
  shows "fst (DeleteProperty path root) = ERR_NOERROR"
proof -
  define ss s where "ss = butlast (segments path)" and "s = last (segments path)"
  have seg: "segments path = ss @ [s]" using ne by (simp add: ss_def s_def)
  have name: "m_strName p = s" using lookup_names [OF ok p] by (simp add: seg name_at_def)
  obtain t i where t: "lookup root ss = Some t" "find_sub s (m_lstSubproperties t) = Some i"
    using p by (auto simp: seg lookup_append bind_eq_Some_conv split: option.splits)
  then obtain p' ns where "DeleteSubproperty s (ancestors root ss) t = (ERR_NOERROR, p', ns)"
    unfolding DeleteSubproperty_def by auto
  with with_sub_found [OF t(1), of "DeleteSubproperty s" "[]" ERR_NOERROR p' ns "\<lambda>_. ERR_NOERROR" False "VString []"] show ?thesis
    using ne p name by (auto simp: DeleteProperty_def GetProperty_lookup seg)
qed

text \<open>The deletion with enough fuel for the depth of the tree below the path.\<close>

definition deep :: "nat \<Rightarrow> string list \<Rightarrow> 'd property \<Rightarrow> bool" where
  "deep n ss root \<longleftrightarrow> (\<forall>q. lookup root (ss @ q) \<noteq> None \<longrightarrow> length q < n)"

definition deletes :: "nat \<Rightarrow> string \<Rightarrow> 'd ptree \<Rightarrow> bool" where
  "deletes n path t \<longleftrightarrow> (\<exists>r t' ms. delete_fuel n path t = Some (r, t', ms) \<and> tree_ok (pt_root t') \<and>
     (segments path \<noteq> [] \<longrightarrow> lookup (pt_root t) (segments path) \<noteq> None \<longrightarrow> r = ERR_NOERROR) \<and>
     (segments path \<noteq> [] \<longrightarrow> (\<forall>q. values_at (pt_root t') q = (if prefix (segments path) q then None else values_at (pt_root t) q))))"

lemma deep_shrinks:
  "deep n ss root \<Longrightarrow> (\<And>q. values_at root' q \<noteq> None \<Longrightarrow> values_at root q \<noteq> None) \<Longrightarrow> deep n ss root'"
  by (auto simp: deep_def values_None)

lemma delete_each_returns:
  fixes t :: "'d ptree"
  assumes IH: "\<And>path (t :: 'd ptree). tree_ok (pt_root t) \<Longrightarrow> deep n (segments path) (pt_root t) \<Longrightarrow> deletes n path t"
  shows "tree_ok (pt_root t) \<Longrightarrow> path_ok ss \<Longrightarrow> \<forall>x \<in> set xs. part_ok x \<and> deep n (ss @ [x]) (pt_root t) \<and> lookup (pt_root t) (ss @ [x]) \<noteq> None \<Longrightarrow>
    distinct xs \<Longrightarrow>
    \<exists>t' ms. delete_each n (map (\<lambda>x. join (ss @ [x])) xs) t = Some (ERR_NOERROR, t', ms) \<and> tree_ok (pt_root t') \<and>
      (\<forall>q. values_at (pt_root t') q = (if \<exists>x \<in> set xs. prefix (ss @ [x]) q then None else values_at (pt_root t) q))"
proof (induction xs arbitrary: t)
  case (Cons x xs)
  have seg: "segments (join (ss @ [x])) = ss @ [x]" using Cons.prems(2,3) by simp
  have "deletes n (join (ss @ [x])) t" using Cons.prems(3) by (intro IH [OF Cons.prems(1)]) (simp add: seg)
  then obtain t1 ms1 where 1: "delete_fuel n (join (ss @ [x])) t = Some (ERR_NOERROR, t1, ms1)" "tree_ok (pt_root t1)"
    "\<forall>q. values_at (pt_root t1) q = (if prefix (ss @ [x]) q then None else values_at (pt_root t) q)"
    using Cons.prems(3) unfolding deletes_def seg by auto
  have "part_ok y \<and> deep n (ss @ [y]) (pt_root t1) \<and> lookup (pt_root t1) (ss @ [y]) \<noteq> None" if y: "y \<in> set xs" for y
  proof -
    have "y \<noteq> x" using y Cons.prems(4) by auto
    then have "values_at (pt_root t1) (ss @ [y]) = values_at (pt_root t) (ss @ [y])" using 1(3) by simp
    then have "lookup (pt_root t1) (ss @ [y]) \<noteq> None" using y Cons.prems(3) by (auto simp: values_None [symmetric] simp del: not_None_eq)
    moreover have "deep n (ss @ [y]) (pt_root t1)"
      by (rule deep_shrinks [of n "ss @ [y]" "pt_root t"]) (use y Cons.prems(3) 1(3) in \<open>auto split: if_splits\<close>)
    ultimately show ?thesis using y Cons.prems(3) by simp
  qed
  then obtain t2 ms2 where 2: "delete_each n (map (\<lambda>x. join (ss @ [x])) xs) t1 = Some (ERR_NOERROR, t2, ms2)" "tree_ok (pt_root t2)"
    "\<forall>q. values_at (pt_root t2) q = (if \<exists>x \<in> set xs. prefix (ss @ [x]) q then None else values_at (pt_root t1) q)"
    using Cons.IH [OF 1(2) Cons.prems(2)] Cons.prems(4) by auto
  show ?case using 1 2 by auto
qed simp

lemma delete_fuel_returns: "tree_ok (pt_root t) \<Longrightarrow> deep n (segments path) (pt_root t) \<Longrightarrow> n > 0 \<Longrightarrow> deletes n path t"
proof (induction n arbitrary: path t)
  case (Suc n)
  let ?ss = "segments path"
  show ?case
  proof (cases "lookup (pt_root t) ?ss")
    case None
    obtain r root ns where d: "DeleteProperty path (pt_root t) = (r, root, ns)" by (rule prod_cases3)
    have "r \<noteq> ERR_NOERROR" "root = pt_root t" using d None by (auto simp: DeleteProperty_def GetProperty_lookup split: if_splits)
    moreover have "values_at (pt_root t) q = None" if "prefix ?ss q" for q
      using that None by (auto simp: prefix_def values_None lookup_append)
    ultimately show ?thesis using d None Suc.prems(1) by (auto simp: deletes_def GetProperty_lookup)
  next
    case (Some p)
    have P: "m_strPath p = join ?ss" "path_ok ?ss" "prop_ok p" using lookup_names [OF Suc.prems(1) Some] by simp_all
    obtain t1 ms1 where 1: "DeletePropertyFromMap path p t = (t1, ms1)" by (rule prod.exhaust)
    have ok1: "tree_ok (pt_root t1)" and v1: "values_at (pt_root t1) = values_at (pt_root t)"
      using delete_proxies_values [OF Suc.prems(1)] 1 by (simp_all add: DeletePropertyFromMap_def)
    let ?xs = "map m_strName (m_lstSubproperties p)"
    have subs: "subs_ok (join ?ss) (m_lstSubproperties p)" using P(1,3) prop_ok_iff [of p] by simp
    have paths: "map m_strPath (m_lstSubproperties p) = map (\<lambda>x. join (?ss @ [x])) ?xs"
      using subs join_snoc [OF P(2)] by (auto simp: subs_ok_def)
    have below: "part_ok x \<and> deep n (?ss @ [x]) (pt_root t1) \<and> lookup (pt_root t1) (?ss @ [x]) \<noteq> None" if x: "x \<in> set ?xs" for x
    proof -
      have "lookup p [x] \<noteq> None" using x find_sub_None [of x "m_lstSubproperties p"] by (auto split: option.splits)
      then have "lookup (pt_root t) (?ss @ [x]) \<noteq> None" using Some by (simp add: lookup_append)
      moreover have "deep n (?ss @ [x]) (pt_root t)" using Suc.prems(2) by (fastforce simp: deep_def)
      ultimately show ?thesis using x subs v1 deep_shrinks [of n "?ss @ [x]" "pt_root t" "pt_root t1"]
        by (auto simp: subs_ok_def values_None [symmetric] simp del: not_None_eq)
    qed
    have n: "n > 0" if "?xs \<noteq> []"
    proof -
      have "hd ?xs \<in> set ?xs" using that by (rule hd_in_set)
      from below [OF this] show ?thesis unfolding deep_def by (metis append.right_neutral gr_zeroI not_less_zero)
    qed
    have "\<exists>t2 ms2. delete_each n (map (\<lambda>x. join (?ss @ [x])) ?xs) t1 = Some (ERR_NOERROR, t2, ms2) \<and> tree_ok (pt_root t2) \<and>
      (\<forall>q. values_at (pt_root t2) q = (if \<exists>x \<in> set ?xs. prefix (?ss @ [x]) q then None else values_at (pt_root t1) q))"
    proof (cases "?xs = []")
      case True
      then show ?thesis using ok1 by simp
    next
      case False
      have IH: "\<And>path (t :: 'a ptree). tree_ok (pt_root t) \<Longrightarrow> deep n (segments path) (pt_root t) \<Longrightarrow> deletes n path t"
        using Suc.IH n [OF False] by blast
      have "distinct ?xs" using subs by (simp add: subs_ok_def)
      from delete_each_returns [of n t1 ?ss ?xs, OF IH ok1 _ _ this] P below show ?thesis by blast
    qed
    then obtain t2 ms2 where 2: "delete_each n (map m_strPath (m_lstSubproperties p)) t1 = Some (ERR_NOERROR, t2, ms2)" "tree_ok (pt_root t2)"
      "\<forall>q. values_at (pt_root t2) q = (if \<exists>x \<in> set ?xs. prefix (?ss @ [x]) q then None else values_at (pt_root t1) q)"
      unfolding paths by blast
    obtain r root ns where d: "DeleteProperty path (pt_root t2) = (r, root, ns)" by (rule prod_cases3)
    have f: "delete_fuel (Suc n) path t = Some (r, t2\<lparr>pt_root := root\<rparr>, ms1 @ ms2 @ proxy_messages t2 ns)"
      using Some 1 2(1) d by (simp add: GetProperty_lookup)
    have "tree_ok root" using tree_ok_Delete [OF 2(2), of path] d by simp
    moreover have v: "values_at root q = (if ?ss \<noteq> [] \<and> prefix ?ss q then None else values_at (pt_root t2) q)" for q
      using values_at_Delete [of "pt_root t2" path q] 2(2) d by (simp add: tree_ok_def)
    moreover have "values_at (pt_root t2) q = values_at (pt_root t) q" if "\<not> prefix ?ss q" for q
      using that 2(3) v1 by (auto dest: append_prefixD)
    moreover have "r = ERR_NOERROR" if "?ss \<noteq> []"
    proof -
      have "values_at (pt_root t2) ?ss = values_at (pt_root t) ?ss" using 2(3) v1 by simp
      then have "lookup (pt_root t2) ?ss \<noteq> None" using Some by (metis values_None option.distinct(1))
      then show ?thesis using DeleteProperty_result [OF 2(2) _ that] d by auto
    qed
    ultimately show ?thesis using f by (auto simp: deletes_def)
  qed
qed simp


lemma size_sub: "find_sub s (m_lstSubproperties p) = Some i \<Longrightarrow> size (m_lstSubproperties p ! i) < size p"
  using find_sub_Some [of s "m_lstSubproperties p" i] size_list_estimation' [of "m_lstSubproperties p ! i" "m_lstSubproperties p" _ size]
  by (cases p) (fastforce simp: less_Suc_eq_le)

lemma lookup_depth: "lookup p ss \<noteq> None \<Longrightarrow> length ss \<le> size p"
proof (induction ss arbitrary: p)
  case (Cons s ss)
  then obtain i where i: "find_sub s (m_lstSubproperties p) = Some i" "lookup (m_lstSubproperties p ! i) ss \<noteq> None"
    by (auto split: option.splits)
  from Cons.IH [OF i(2)] size_sub [OF i(1)] show ?case by simp
qed simp

text \<open>C13: Deleting a property of a participant always ends, however deep the tree, and whoever listens: a property that is there
  is gone afterwards with everything below it, nothing else changes, and the result is success exactly if it was there. The
  root is not a property that can be deleted; everything below it is.\<close>
theorem delete_always_returns:
  assumes "tree_ok (pt_root t)"
  shows "\<exists>r t' ms. pt_DeleteProperty path t = Some (r, t', ms) \<and>
    (segments path \<noteq> [] \<longrightarrow>
      (r = ERR_NOERROR \<longleftrightarrow> GetProperty path (pt_root t) \<noteq> None) \<and>
      (\<forall>q. values_at (pt_root t') q = (if prefix (segments path) q then None else values_at (pt_root t) q)))"
proof -
  have "deep (Suc (size (pt_root t))) (segments path) (pt_root t)"
    unfolding deep_def using lookup_depth [of "pt_root t"] by (fastforce simp: less_Suc_eq_le)
  from delete_fuel_returns [OF assms this] obtain r t' ms where d: "pt_DeleteProperty path t = Some (r, t', ms)"
    "segments path \<noteq> [] \<longrightarrow> lookup (pt_root t) (segments path) \<noteq> None \<longrightarrow> r = ERR_NOERROR"
    "segments path \<noteq> [] \<longrightarrow> (\<forall>q. values_at (pt_root t') q = (if prefix (segments path) q then None else values_at (pt_root t) q))"
    unfolding deletes_def pt_DeleteProperty_def by auto
  have "r \<noteq> ERR_NOERROR" if "lookup (pt_root t) (segments path) = None"
    using d(1) that by (auto simp: pt_DeleteProperty_def GetProperty_lookup DeleteProperty_def split: if_splits)
  then show ?thesis using d by (auto simp: GetProperty_lookup)
qed

theorem delete_always_returns_witness:
  "\<exists>r t' ms. pt_DeleteProperty ''a'' demo_src1 = Some (r, t', ms) \<and>
    (segments ''a'' \<noteq> [] \<longrightarrow>
      (r = ERR_NOERROR \<longleftrightarrow> GetProperty ''a'' (pt_root demo_src1) \<noteq> None) \<and>
      (\<forall>q. values_at (pt_root t') q = (if prefix (segments ''a'') q then None else values_at (pt_root demo_src1) q)))"
proof (rule delete_always_returns)
  have "pt_root demo_src1 = Property [] [] [VString []] [] [Property ''a'' ''a'' [VInt32 1] [0] []]"
    unfolding demo_src1_def by code_simp
  then show "tree_ok (pt_root demo_src1)" by (simp add: tree_ok_def part_ok_def sub_path_def)
qed

end
