(* ===== verification/Property_Config.thy ===== *)
theory Property_Config
  imports Property_Sync
begin

text \<open>
  Properties as texts. The configuration service for remote procedure calls (\<open>RPCConfigServer\<close> in
  \<open>src/fep3/components/legacy/property_tree/fep_propertytree.cpp\<close>) reads and writes properties of the tree as a value
  and a type, both strings; \<open>Properties\<close> (\<open>include/fep3/base/properties/\<close>) is a list of such pairs by name.

  How numbers are written and read, and how a text is split and its slashes are replaced, is the business of an external
  library: these functions are in \<open>text_ops\<close>. \<open>text_ok\<close> says what is used of them.
\<close>

section \<open>Values and types as texts\<close>

record 'd text_ops =
  bool_text :: "bool \<Rightarrow> string"
  int_text :: "32 word \<Rightarrow> string"
  double_text :: "'d \<Rightarrow> string"
  toBool :: "string \<Rightarrow> bool"
  toInt32 :: "string \<Rightarrow> 32 word"
  toDouble :: "string \<Rightarrow> 'd"
  split_values :: "string \<Rightarrow> string list"
  slashes_to_dots :: "string \<Rightarrow> string"

datatype scalar_type = TBool | TInt | TDouble | TString

fun scalar_name :: "scalar_type \<Rightarrow> string" where
  "scalar_name TBool = ''bool''"
| "scalar_name TInt = ''int''"
| "scalar_name TDouble = ''double''"
| "scalar_name TString = ''string''"

definition getTypeName :: "bool \<Rightarrow> scalar_type \<Rightarrow> string" where
  "getTypeName is_array ty = (if is_array then ''array-'' else []) @ scalar_name ty"

fun value_text :: "'d text_ops \<Rightarrow> 'd variant \<Rightarrow> string" where
  "value_text tx (VBool b) = bool_text tx b"
| "value_text tx (VInt32 n) = int_text tx n"
| "value_text tx (VDouble d) = double_text tx d"
| "value_text tx (VString s) = s"

fun value_of :: "'d text_ops \<Rightarrow> scalar_type \<Rightarrow> string \<Rightarrow> 'd variant" where
  "value_of tx TBool s = VBool (toBool tx s)"
| "value_of tx TInt s = VInt32 (toInt32 tx s)"
| "value_of tx TDouble s = VDouble (toDouble tx s)"
| "value_of tx TString s = VString s"

fun scalar_of :: "'d variant \<Rightarrow> scalar_type" where
  "scalar_of (VBool _) = TBool"
| "scalar_of (VInt32 _) = TInt"
| "scalar_of (VDouble _) = TDouble"
| "scalar_of (VString _) = TString"

text \<open>The conversions of arrays: the texts of the elements with a semicolon between them, and back.\<close>

fun joined :: "string list \<Rightarrow> string" where
  "joined [] = []"
| "joined [s] = s"
| "joined (s # t # ss) = s @ CHR '';'' # joined (t # ss)"

definition array_toString :: "'d text_ops \<Rightarrow> 'd variant list \<Rightarrow> string" where
  "array_toString tx vs = joined (map (value_text tx) vs)"

definition array_fromString :: "'d text_ops \<Rightarrow> scalar_type \<Rightarrow> string \<Rightarrow> 'd variant list" where
  "array_fromString tx ty s = map (value_of tx ty) (split_values tx s)"

section \<open>The configuration service\<close>

definition getValueAsString :: "'d text_ops \<Rightarrow> 'd property \<Rightarrow> string" where
  "getValueAsString tx p =
     (if IsArray p then joined (map (value_text tx) (m_vecValues p)) else value_text tx (hd (m_vecValues p)))"

definition getTypeAsString :: "'d property \<Rightarrow> string" where
  "getTypeAsString p =
     (if IsArray p then ''array-'' else []) @
     (if IsBoolean p then scalar_name TBool else if IsFloat p then scalar_name TDouble
      else if IsInteger p then scalar_name TInt else if IsString p then scalar_name TString else [])"

definition normalizePathForTree :: "'d text_ops \<Rightarrow> string \<Rightarrow> string" where
  "normalizePathForTree tx path =
     slashes_to_dots tx (if path = ''/'' \<or> path = [] then [] else if hd path = CHR ''/'' then tl path else path)"

definition is_root_path :: "string \<Rightarrow> bool" where
  "is_root_path path \<longleftrightarrow> path = [] \<or> path = ''/''"

fun name_list :: "string list \<Rightarrow> string" where
  "name_list [] = []"
| "name_list [s] = s"
| "name_list (s # t # ss) = s @ CHR '','' # name_list (t # ss)"

definition getProperties :: "'d text_ops \<Rightarrow> string \<Rightarrow> 'd property \<Rightarrow> string" where
  "getProperties tx path root =
     (case GetProperty (normalizePathForTree tx path) root of
        None \<Rightarrow> []
      | Some p \<Rightarrow> name_list (map m_strName (m_lstSubproperties p)))"

text \<open>Value and type.\<close>

definition getProperty :: "'d text_ops \<Rightarrow> string \<Rightarrow> 'd property \<Rightarrow> string \<times> string" where
  "getProperty tx path root =
     (if is_root_path path then (bool_text tx True, scalar_name TBool)
      else case GetProperty (normalizePathForTree tx path) root of
          None \<Rightarrow> ([], [])
        | Some p \<Rightarrow> (getValueAsString tx p, getTypeAsString p))"

text \<open>
  \<open>resetProperty\<close>: the first value is set, the others are appended; what these steps return is dropped. The result
  tells whether a value was set at all.
\<close>

fun reset_elements :: "'d text_ops \<Rightarrow> 'd float_ops \<Rightarrow> 'd answers \<Rightarrow> scalar_type option \<Rightarrow> bool \<Rightarrow> string list \<Rightarrow> ('d, bool) action" where
  "reset_elements tx ops ans ty is_first [] parents p = (False, p, [])"
| "reset_elements tx ops ans None is_first (s # ss) parents p = reset_elements tx ops ans None False ss parents p"
| "reset_elements tx ops ans (Some ty) is_first (s # ss) parents p =
     (let (_, p, ns) = (if is_first then SetValue ops ans (value_of tx ty s) else AppendValue ops ans (value_of tx ty s)) parents p;
          (_, p, ns') = reset_elements tx ops ans (Some ty) False ss parents p
      in (True, p, ns @ ns'))"

definition scalar_named :: "string \<Rightarrow> scalar_type option" where
  "scalar_named s = find (\<lambda>ty. scalar_name ty = s) [TBool, TInt, TDouble, TString]"

definition resetProperty :: "'d text_ops \<Rightarrow> 'd float_ops \<Rightarrow> 'd answers \<Rightarrow> string \<Rightarrow> string \<Rightarrow> ('d, bool) action" where
  "resetProperty tx ops ans strValue ty parents p =
     (if length ty > 6 \<and> take 6 ty = ''array-''
      then reset_elements tx ops ans (scalar_named (drop 6 ty)) True (split_values tx strValue) parents p
      else case scalar_named ty of
          None \<Rightarrow> (False, p, [])
        | Some t \<Rightarrow> let (_, p, ns) = SetValue ops ans (value_of tx t strValue) parents p in (True, p, ns))"

definition setProperty ::
    "'d text_ops \<Rightarrow> 'd float_ops \<Rightarrow> 'd answers \<Rightarrow> string \<Rightarrow> string \<Rightarrow> string \<Rightarrow> 'd property \<Rightarrow> int \<times> 'd property \<times> 'd prop_event list" where
  "setProperty tx ops ans path ty strValue root =
     (if is_root_path path then (getErrorCode ERR_ACCESS_DENIED, root, [])
      else case with_sub (\<lambda>_. ERR_NOERROR) False (VString []) (resetProperty tx ops ans strValue ty)
          (segments (normalizePathForTree tx path)) [] root of
          (None, root, ns) \<Rightarrow> (getErrorCode ERR_INVALID_ADDRESS, root, ns)
        | (Some b, root, ns) \<Rightarrow> (if b then 0 else getErrorCode ERR_INVALID_TYPE, root, ns))"

definition property_exists :: "'d text_ops \<Rightarrow> string \<Rightarrow> 'd property \<Rightarrow> bool" where
  "property_exists tx path root \<longleftrightarrow> is_root_path path \<or> GetProperty (normalizePathForTree tx path) root \<noteq> None"

section \<open>Properties by name\<close>

type_synonym properties = "(string, string \<times> string) std_map"

definition ps_setProperty :: "string \<Rightarrow> string \<Rightarrow> string \<Rightarrow> properties \<Rightarrow> bool \<times> properties" where
  "ps_setProperty name v ty ps = (True, sm_assign name (v, ty) ps)"

definition ps_getProperty :: "string \<Rightarrow> properties \<Rightarrow> string" where
  "ps_getProperty name ps = (case map_of ps name of None \<Rightarrow> [] | Some (v, _) \<Rightarrow> v)"

definition ps_getPropertyType :: "string \<Rightarrow> properties \<Rightarrow> string" where
  "ps_getPropertyType name ps = (case map_of ps name of None \<Rightarrow> [] | Some (_, ty) \<Rightarrow> ty)"

definition ps_isEqual :: "properties \<Rightarrow> properties \<Rightarrow> bool" where
  "ps_isEqual ps qs \<longleftrightarrow> list_all (\<lambda>(name, v, _). v = ps_getProperty name qs) ps"

definition copy_to :: "properties \<Rightarrow> properties \<Rightarrow> properties" where
  "copy_to ps qs = fold (\<lambda>(name, v, ty) qs. snd (ps_setProperty name v ty qs)) ps qs"

text \<open>The vector is resized before the names are appended.\<close>

definition getPropertyNames :: "properties \<Rightarrow> string list" where
  "getPropertyNames ps = replicate (length ps) [] @ map fst ps"

section \<open>Reading a property and writing it elsewhere\<close>

text \<open>What is used of the conversions: a value is read as it was written, and splitting takes apart what was joined.\<close>

definition readable :: "'d text_ops \<Rightarrow> 'd variant \<Rightarrow> bool" where
  "readable tx v \<longleftrightarrow> value_of tx (scalar_of v) (value_text tx v) = v"

definition part_text :: "string \<Rightarrow> bool" where
  "part_text s \<longleftrightarrow> s \<noteq> [] \<and> CHR '';'' \<notin> set s"

definition splits :: "'d text_ops \<Rightarrow> bool" where
  "splits tx \<longleftrightarrow> (\<forall>ss. ss \<noteq> [] \<and> (\<forall>s \<in> set ss. part_text s) \<longrightarrow> split_values tx (joined ss) = ss)"

text \<open>A property whose values survive: each can be read back and, in an array, its text is not empty and has no semicolon.\<close>

definition text_ok :: "'d text_ops \<Rightarrow> 'd property \<Rightarrow> bool" where
  "text_ok tx p \<longleftrightarrow> (\<forall>v \<in> set (m_vecValues p). readable tx v \<and> (IsArray p \<longrightarrow> part_text (value_text tx v)))"

lemma scalar_named_name [simp]: "scalar_named (scalar_name ty) = Some ty"
  by (cases ty) (simp_all add: scalar_named_def)

lemma scalar_named_Some: "scalar_named s = Some ty \<longleftrightarrow> s = scalar_name ty"
  by (cases ty) (auto simp: scalar_named_def split: if_splits)

lemma not_array_name: "\<not> (length (scalar_name ty) > 6 \<and> take 6 (scalar_name ty) = ''array-'')"
  by (cases ty) simp_all

lemma getTypeAsString_eq: "getTypeAsString p = getTypeName (IsArray p) (scalar_of (hd (m_vecValues p)))"
  by (cases "hd (m_vecValues p)")
    (simp_all add: getTypeAsString_def getTypeName_def IsBoolean_def IsFloat_def IsInteger_def IsString_def)

lemma same_type_scalar: "same_type v w \<longleftrightarrow> scalar_of w = scalar_of v"
  by (cases v; cases w) simp_all

lemma reset_elements_rest:
  assumes "\<forall>v \<in> set ws. same_type first v \<and> readable tx v"
  shows "m_vecValues p = first # vs \<Longrightarrow>
    \<exists>b ns. reset_elements tx ops ans (Some (scalar_of first)) False (map (value_text tx) ws) parents p =
      (b, set_values (first # vs @ ws) p, ns)"
  using assms
proof (induction ws arbitrary: p vs)
  case Nil
  then show ?case by (cases p) auto
next
  case (Cons w ws)
  have w: "same_type first w" "value_of tx (scalar_of first) (value_text tx w) = w"
    using Cons.prems(2) by (auto simp: readable_def same_type_scalar simp del: conj_assoc dest: sym)
  obtain r ns where "AppendValue ops ans w parents p = (r, set_values (first # vs @ [w]) p, ns)"
    using AppendValue_same [OF Cons.prems(1) w(1)] by blast
  moreover obtain b ns' where
    "reset_elements tx ops ans (Some (scalar_of first)) False (map (value_text tx) ws) parents (set_values (first # vs @ [w]) p) =
      (b, set_values (first # vs @ w # ws) p, ns')"
    using Cons.IH [of "set_values (first # vs @ [w]) p" "vs @ [w]"] Cons.prems(2) by auto
  ultimately show ?case using w(2) by auto
qed

lemma resetProperty_written:
  assumes "values_ok (m_vecValues p)" "text_ok tx p" "splits tx"
  shows "\<exists>ns. resetProperty tx ops ans (getValueAsString tx p) (getTypeAsString p) parents t = (True, set_values (m_vecValues p) t, ns)"
proof -
  obtain v vs where p: "m_vecValues p = v # vs" "\<forall>w \<in> set vs. same_type v w"
    using assms(1) by (cases "m_vecValues p") (auto simp: values_ok_def)
  have read: "\<forall>w \<in> set (v # vs). readable tx w" using assms(2) p(1) by (simp add: text_ok_def)
  then have v: "value_of tx (scalar_of v) (value_text tx v) = v" by (simp add: readable_def)
  obtain r ns where s: "SetValue ops ans v parents t = (r, set_values [v] t, ns)" using SetValue_values by blast
  show ?thesis
  proof (cases "IsArray p")
    case False
    then have "vs = []" using p(1) by (simp add: IsArray_def)
    then show ?thesis
      using False s v p(1) not_array_name [of "scalar_of v"]
      by (auto simp: resetProperty_def getValueAsString_def getTypeAsString_eq getTypeName_def)
  next
    case True
    have "split_values tx (getValueAsString tx p) = map (value_text tx) (v # vs)"
      using assms(2,3) True p(1) by (auto simp: getValueAsString_def splits_def text_ok_def)
    moreover have "\<forall>w \<in> set vs. same_type v w \<and> readable tx w" using p(2) read by simp
    from reset_elements_rest [OF this, of "set_values [v] t" "[]" ops ans parents] obtain b ns' where
      "reset_elements tx ops ans (Some (scalar_of v)) False (map (value_text tx) vs) parents (set_values [v] t) =
        (b, set_values (v # vs) t, ns')" by auto
    moreover have "getTypeAsString p = ''array-'' @ scalar_name (scalar_of v)" "length (scalar_name (scalar_of v)) > 0"
      using True p(1) by (cases v; simp add: getTypeAsString_eq getTypeName_def)+
    ultimately show ?thesis using s v p(1) by (simp add: resetProperty_def)
  qed
qed

lemma setProperty_at:
  assumes "lookup root (segments (normalizePathForTree tx path)) = Some t" "\<not> is_root_path path"
    "resetProperty tx ops ans s ty (ancestors root (segments (normalizePathForTree tx path))) t = (b, set_values vs t, ns)"
    "keeps (resetProperty tx ops ans s ty)"
  shows "\<exists>root'. setProperty tx ops ans path ty s root = (if b then 0 else getErrorCode ERR_INVALID_TYPE, root', ns) \<and>
    (\<forall>q. values_at root' q = (if q = segments (normalizePathForTree tx path) then Some vs else values_at root q))"
proof -
  let ?ss = "segments (normalizePathForTree tx path)"
  obtain root' where w: "with_sub (\<lambda>_. ERR_NOERROR) False (VString []) (resetProperty tx ops ans s ty) ?ss [] root = (Some b, root', ns)"
    using with_sub_found [OF assms(1), of "resetProperty tx ops ans s ty" "[]" b "set_values vs t" ns "\<lambda>_. ERR_NOERROR" False "VString []"] assms(3) by auto
  have "values_at root' q = (if q = ?ss then Some vs else values_at root q)" for q
    using vals.view_found [OF assms(1) w assms(4), of q] assms(3)
    by (auto simp: values_at_same_subs [of "set_values vs t" t] prefix_le view_drop [OF assms(1)])
  then show ?thesis using w assms(2) by (simp add: setProperty_def)
qed

lemma keeps_reset_elements: "keeps (reset_elements tx ops ans ty is_first ss)"
proof -
  have "m_strName p' = m_strName p \<and> m_strPath p' = m_strPath p"
    if "reset_elements tx ops ans ty is_first ss parents p = (b, p', ns)" for parents p b p' ns
    using that
  proof (induction tx ops ans ty is_first ss parents p arbitrary: b p' ns rule: reset_elements.induct)
    case (3 tx ops ans ty is_first s ss parents p)
    obtain r p1 ns1 where 1: "(if is_first then SetValue ops ans (value_of tx ty s) else AppendValue ops ans (value_of tx ty s)) parents p =
        (r, p1, ns1)" by (rule prod_cases3)
    have "keeps (if is_first then SetValue ops ans (value_of tx ty s) else AppendValue ops ans (value_of tx ty s))"
      by (simp add: sound_keeps [OF sound_SetValue] sound_keeps [OF sound_AppendValue])
    from keepsD [OF this 1] have "m_strName p1 = m_strName p \<and> m_strPath p1 = m_strPath p" .
    moreover obtain b' ns' where "reset_elements tx ops ans (Some ty) False ss parents p1 = (b', p', ns')"
      using "3.prems" 1 by (auto split: prod.splits)
    ultimately show ?case using "3.IH" [OF 1 [symmetric]] by fastforce
  qed auto
  then show ?thesis unfolding keeps_def by blast
qed

lemma keeps_resetProperty: "keeps (resetProperty tx ops ans s ty)"
proof (cases "length ty > 6 \<and> take 6 ty = ''array-''")
  case True
  then have "resetProperty tx ops ans s ty = reset_elements tx ops ans (scalar_named (drop 6 ty)) True (split_values tx s)"
    by (intro ext) (simp add: resetProperty_def)
  then show ?thesis using keeps_reset_elements by simp
next
  case False
  show ?thesis
  proof (cases "scalar_named ty")
    case None
    then show ?thesis using False unfolding keeps_def resetProperty_def by auto
  next
    case (Some t)
    then show ?thesis using False keepsD [OF sound_keeps [OF sound_SetValue]]
      unfolding keeps_def resetProperty_def by (fastforce split: prod.splits)
  qed
qed

text \<open>C14: What the configuration service tells of a property -- value and type, as texts -- sets any other property to the same
  values and type: the call succeeds, and nothing else in the tree changes. For well-formed properties whose values can be
  read back as they are written and whose array elements are neither empty nor have a semicolon.\<close>
theorem configuration_roundtrip:
  assumes "splits tx" "tree_ok root" "GetProperty (normalizePathForTree tx path) root = Some p" "text_ok tx p" "\<not> is_root_path path"
    and "GetProperty (normalizePathForTree tx path') root' = Some t" "\<not> is_root_path path'"
    and "getProperty tx path root = (val, ty)"
  shows "\<exists>root'' ns. setProperty tx ops ans path' ty val root' = (0, root'', ns) \<and>
    (\<forall>q. values_at root'' q =
      (if q = segments (normalizePathForTree tx path') then Some (m_vecValues p) else values_at root' q))"
proof -
  have "prop_ok p" using lookup_names [OF assms(2), of "segments (normalizePathForTree tx path)" p] assms(3)
    by (simp add: GetProperty_lookup)
  then have vs: "values_ok (m_vecValues p)" by (simp add: prop_ok_iff)
  have tv: "val = getValueAsString tx p" "ty = getTypeAsString p"
    using assms(3,5,8) by (simp_all add: getProperty_def)
  obtain ns where "resetProperty tx ops ans val ty (ancestors root' (segments (normalizePathForTree tx path'))) t =
      (True, set_values (m_vecValues p) t, ns)"
    using resetProperty_written [OF vs assms(4,1)] unfolding tv by blast
  from setProperty_at [OF _ assms(7) this keeps_resetProperty] assms(6) show ?thesis by (auto simp: GetProperty_lookup)
qed

text \<open>Conversions for which this holds: numbers as strokes.\<close>

fun split_semicolons :: "string \<Rightarrow> string \<Rightarrow> string list" where
  "split_semicolons acc [] = [rev acc]"
| "split_semicolons acc (c # cs) = (if c = CHR '';'' then rev acc # split_semicolons [] cs else split_semicolons (c # acc) cs)"

definition unary_text :: "int text_ops" where
  "unary_text = \<lparr>bool_text = (\<lambda>b. if b then ''true'' else ''false''), int_text = (\<lambda>i. CHR ''i'' # replicate (unat i) (CHR ''1'')),
     double_text = (\<lambda>d. (if d < 0 then ''-'' else ''+'') @ replicate (nat \<bar>d\<bar>) (CHR ''1'')),
     toBool = (\<lambda>s. s = ''true''), toInt32 = (\<lambda>s. word_of_nat (length s - 1)),
     toDouble = (\<lambda>s. if CHR ''-'' \<in> set s then 1 - int (length s) else int (length s) - 1),
     split_values = split_semicolons [], slashes_to_dots = map (\<lambda>c. if c = CHR ''/'' then CHR ''.'' else c)\<rparr>"

lemma split_semicolons_part: "CHR '';'' \<notin> set s \<Longrightarrow> split_semicolons acc s = [rev acc @ s]"
  by (induction s arbitrary: acc) auto

lemma split_semicolons_more: "CHR '';'' \<notin> set s \<Longrightarrow> split_semicolons acc (s @ CHR '';'' # t) = (rev acc @ s) # split_semicolons [] t"
  by (induction s arbitrary: acc) auto

lemma splits_unary: "splits unary_text"
proof -
  have "split_semicolons [] (joined ss) = ss" if "ss \<noteq> []" "\<forall>s \<in> set ss. part_text s" for ss
    using that by (induction ss rule: joined.induct) (simp_all add: part_text_def split_semicolons_part split_semicolons_more)
  then show ?thesis by (simp add: splits_def unary_text_def)
qed

theorem configuration_roundtrip_witness:
  "\<exists>root'' ns. setProperty unary_text int_ops (\<lambda>_. ERR_NOERROR) ''/a/d'' ''bool'' ''true'' demo_tree = (0, root'', ns) \<and>
    (\<forall>q. values_at root'' q = (if q = segments (normalizePathForTree unary_text ''/a/d'') then Some (m_vecValues demo_b) else values_at demo_tree q))"
proof (rule configuration_roundtrip)
  show "splits unary_text" by (rule splits_unary)
  show "tree_ok demo_tree" unfolding demo_tree_def by (rule tree_run_ok [OF tree_ok_new])
  show "GetProperty (normalizePathForTree unary_text ''a/b'') demo_tree = Some demo_b"
    unfolding demo_tree_eq demo_b_def unary_text_def by code_simp
  show "text_ok unary_text demo_b"
    by (simp add: text_ok_def demo_b_def IsArray_def readable_def unary_text_def)
  show "GetProperty (normalizePathForTree unary_text ''/a/d'') demo_tree = Some (Property ''d'' ''a.d'' [VInt32 2] [] [])"
    unfolding demo_tree_eq demo_b_def unary_text_def by code_simp
  show "getProperty unary_text ''a/b'' demo_tree = (''true'', ''bool'')"
    unfolding demo_tree_eq demo_b_def unary_text_def by code_simp
qed (simp_all add: is_root_path_def)

section \<open>What the service refuses\<close>

text \<open>A value is accepted when the type is known; an array must have elements.\<close>

definition accepts :: "'d text_ops \<Rightarrow> string \<Rightarrow> string \<Rightarrow> bool" where
  "accepts tx ty s \<longleftrightarrow> scalar_named ty \<noteq> None \<or>
     take 6 ty = ''array-'' \<and> scalar_named (drop 6 ty) \<noteq> None \<and> split_values tx s \<noteq> []"

lemma reset_elements_result:
  "fst (reset_elements tx ops ans ty is_first ss parents p) \<longleftrightarrow> ty \<noteq> None \<and> ss \<noteq> []"
  by (induction tx ops ans ty is_first ss parents p rule: reset_elements.induct) (auto simp: case_prod_beta)

lemma reset_elements_refused:
  "\<not> fst (reset_elements tx ops ans ty is_first ss parents p) \<Longrightarrow> reset_elements tx ops ans ty is_first ss parents p = (False, p, [])"
  by (induction tx ops ans ty is_first ss parents p rule: reset_elements.induct) (auto simp: case_prod_beta)

lemma resetProperty_result: "fst (resetProperty tx ops ans s ty parents p) \<longleftrightarrow> accepts tx ty s"
proof (cases "length ty > 6 \<and> take 6 ty = ''array-''")
  case True
  then have "scalar_named ty = None" using not_array_name by (cases "scalar_named ty") (auto simp: scalar_named_Some)
  then show ?thesis using True by (simp add: resetProperty_def accepts_def reset_elements_result)
next
  case False
  have "scalar_named [] = None" by (simp add: scalar_named_def)
  then have "\<not> (take 6 ty = ''array-'' \<and> scalar_named (drop 6 ty) \<noteq> None)" using False by (cases "length ty > 6") auto
  then show ?thesis using False by (auto simp: resetProperty_def accepts_def case_prod_beta split: option.splits)
qed

lemma resetProperty_refused:
  "\<not> accepts tx ty s \<Longrightarrow> resetProperty tx ops ans s ty parents p = (False, p, [])"
  using resetProperty_result [of tx ops ans s ty parents p]
  by (auto simp: resetProperty_def reset_elements_refused case_prod_beta split: option.splits if_splits)

text \<open>Setting a property through the service returns access denied exactly for the root, invalid address exactly where no
  property is, invalid type exactly for a type or an array it does not accept, and otherwise success; when it returns an
  error no value has changed and no listener has been called.\<close>
theorem configuration_error_codes:
  fixes root :: "'d property"
  assumes "setProperty tx ops ans path ty s root = (code, root', ns)"
  shows "code = (if is_root_path path then -25 else if GetProperty (normalizePathForTree tx path) root = None then -7
      else if accepts tx ty s then 0 else -42) \<and>
    (code \<noteq> 0 \<longrightarrow> values_at root' = values_at root \<and> ns = [])"
proof (cases "is_root_path path")
  case True
  then show ?thesis using assms by (simp add: setProperty_def)
next
  case False
  let ?ss = "segments (normalizePathForTree tx path)"
  show ?thesis
  proof (cases "lookup root ?ss")
    case None
    then show ?thesis using assms False by (simp add: setProperty_def GetProperty_lookup with_sub_missing)
  next
    case (Some t)
    obtain b t' ns' where r: "resetProperty tx ops ans s ty (ancestors root ?ss) t = (b, t', ns')" by (rule prod_cases3)
    have b: "b = accepts tx ty s" using resetProperty_result [of tx ops ans s ty "ancestors root ?ss" t] r by simp
    show ?thesis
    proof (cases b)
      case True
      then show ?thesis
        using assms False Some b with_sub_found [OF Some, of "resetProperty tx ops ans s ty" "[]" b t' ns' "\<lambda>_. ERR_NOERROR" False "VString []"] r
        by (auto simp: setProperty_def GetProperty_lookup)
    next
      case no: False
      have same: "set_values (m_vecValues t) t = t" by (cases t) simp
      have "resetProperty tx ops ans s ty (ancestors root ?ss) t = (False, set_values (m_vecValues t) t, [])"
        using resetProperty_refused no b same by metis
      from setProperty_at [OF Some False this keeps_resetProperty] assms False Some no b show ?thesis
        using lookup_values [OF Some] by (auto simp: GetProperty_lookup fun_eq_iff)
    qed
  qed
qed

theorem configuration_error_codes_witness:
  "setProperty unary_text int_ops (\<lambda>_. ERR_NOERROR) ''a/b'' ''float'' ''1.0'' demo_tree = (-42, demo_tree, []) \<and>
   (-42 :: int) = (if is_root_path ''a/b'' then -25 else if GetProperty (normalizePathForTree unary_text ''a/b'') demo_tree = None then -7
      else if accepts unary_text ''float'' ''1.0'' then 0 else -42)"
proof
  show r: "setProperty unary_text int_ops (\<lambda>_. ERR_NOERROR) ''a/b'' ''float'' ''1.0'' demo_tree = (-42, demo_tree, [])"
    unfolding demo_tree_eq demo_b_def unary_text_def by code_simp
  show "(-42 :: int) = (if is_root_path ''a/b'' then -25 else if GetProperty (normalizePathForTree unary_text ''a/b'') demo_tree = None then -7
      else if accepts unary_text ''float'' ''1.0'' then 0 else -42)"
    using configuration_error_codes [OF r] by (rule conjunct1)
qed

section \<open>Copying properties by name\<close>

lemma copy_to_lookup:
  "sm_wf qs \<Longrightarrow> distinct (map fst ps) \<Longrightarrow>
   sm_wf (copy_to ps qs) \<and> map_of (copy_to ps qs) name = (case map_of ps name of Some x \<Rightarrow> Some x | None \<Rightarrow> map_of qs name)"
proof (induction ps arbitrary: qs)
  case (Cons e ps)
  obtain n v ty where e: "e = (n, v, ty)" by (rule prod_cases3)
  have "sm_wf (sm_assign n (v, ty) qs)" using Cons.prems(1) by simp
  moreover have "map_of ps n = None" using Cons.prems(2) by (simp add: e map_of_eq_None_iff)
  ultimately show ?case using Cons.IH [of "sm_assign n (v, ty) qs"] Cons.prems
    by (cases "name = n") (auto simp: e copy_to_def ps_setProperty_def map_of_sm_assign split: option.splits)
qed (simp add: copy_to_def)

text \<open>Copying one list of properties into another makes the second equal to the first: every name of the first has its value
  and type there, and the other names keep theirs.\<close>
theorem copied_properties_equal:
  assumes "sm_wf ps" "sm_wf qs"
  shows "ps_isEqual ps (copy_to ps qs) \<and>
    map_of (copy_to ps qs) name = (case map_of ps name of Some x \<Rightarrow> Some x | None \<Rightarrow> map_of qs name)"
proof -
  note c = copy_to_lookup [OF assms(2) sm_wf_distinct [OF assms(1)]]
  have "ps_isEqual ps (copy_to ps qs)"
    using sm_wf_distinct [OF assms(1)] by (auto simp: ps_isEqual_def ps_getProperty_def c list_all_iff)
  then show ?thesis using c by blast
qed

theorem copied_properties_equal_witness:
  "ps_isEqual [(''a'', ''1'', ''int'')] (copy_to [(''a'', ''1'', ''int'')] [(''b'', ''x'', ''string'')]) \<and>
    map_of (copy_to [(''a'', ''1'', ''int'')] [(''b'', ''x'', ''string'')]) ''b'' =
      (case map_of [(''a'', ''1'', ''int'')] ''b'' of Some x \<Rightarrow> Some x | None \<Rightarrow> map_of [(''b'', ''x'', ''string'')] ''b'')"
  by (rule copied_properties_equal) (simp_all add: sm_wf_def)

text \<open>The names that are returned begin with as many empty ones.\<close>

lemma names_are_padded: "getPropertyNames ps = map fst ps \<longleftrightarrow> ps = []"
  using arg_cong [of "getPropertyNames ps" "map fst ps" length] by (auto simp: getPropertyNames_def)

end
