(* ===== verification/Clock.thy ===== *)
theory Clock
  imports Fep_Prelude
begin

text \<open>
  The clocks of a participant: \<open>ClockBase\<close>, \<open>ContinuousClock\<close> and \<open>DiscreteClock\<close>
  (\<open>src/include/fep3/components/clock/clock_base.h\<close>), the real-time clock and the simulated clock of the system
  (\<open>local_system_clock.cpp\<close>, \<open>local_system_clock_discrete.cpp\<close> in \<open>src/src/fep3/components/clock\<close>) and the time that
  is interpolated between two readings of a remote clock (\<open>clock_sync_default/interpolation_time.cpp\<close>).

  Times are microseconds in mathematical integers: 64 bits last for 292 thousand years. Readings of the system's clock
  are inputs. An event for the sink of a clock comes with the time the clock shows while the sink is called.
\<close>

section \<open>Clocks\<close>

datatype clock_event =
    TimeUpdateBegin int int
  | TimeUpdating int
  | TimeUpdateEnd int
  | TimeResetBegin int int
  | TimeResetEnd int

type_synonym shown_event = "int \<times> clock_event"

record clock =
  current_time :: int
  clock_updated :: bool
  clock_started :: bool
  has_sink :: bool

definition new_clock :: clock where
  "new_clock = \<lparr>current_time = 0, clock_updated = False, clock_started = False, has_sink = False\<rparr>"

definition emit :: "clock_event \<Rightarrow> clock \<Rightarrow> shown_event list" where
  "emit e c = (if has_sink c then [(current_time c, e)] else [])"

definition setResetTime :: "int \<Rightarrow> clock \<Rightarrow> clock \<times> shown_event list" where
  "setResetTime new_time c =
     (let begin_events = emit (TimeResetBegin (current_time c) new_time) c;
          c = c\<lparr>current_time := new_time\<rparr>
      in (c, begin_events @ emit (TimeResetEnd new_time) c))"

text \<open>\<open>start\<close> without the call of \<open>reset\<close> at its end, which depends on the kind of clock.\<close>

definition base_start :: "clock \<Rightarrow> clock" where
  "base_start c = c\<lparr>clock_updated := False, has_sink := True, clock_started := True\<rparr>"

definition base_stop :: "clock \<Rightarrow> clock" where
  "base_stop c = c\<lparr>clock_started := False, has_sink := False, clock_updated := False\<rparr>"

subsection \<open>Discrete clocks\<close>

definition discrete_reset :: "clock \<Rightarrow> clock \<times> shown_event list" where
  "discrete_reset c = setResetTime 0 (c\<lparr>clock_updated := True\<rparr>)"

definition discrete_start :: "clock \<Rightarrow> clock \<times> shown_event list" where
  "discrete_start c = discrete_reset (base_start c)"

definition discrete_setNewTime :: "int \<Rightarrow> bool \<Rightarrow> clock \<Rightarrow> clock \<times> shown_event list" where
  "discrete_setNewTime new_time before_after c =
     (let old_time = current_time c
      in if \<not> clock_updated c then setResetTime new_time (c\<lparr>clock_updated := True\<rparr>)
         else if new_time < old_time then setResetTime new_time c
         else
           let es1 = (if before_after then emit (TimeUpdateBegin old_time new_time) c else []);
               c = c\<lparr>current_time := new_time\<rparr>;
               es2 = emit (TimeUpdating new_time) c;
               es3 = (if before_after then emit (TimeUpdateEnd new_time) c else [])
           in (c, es1 @ es2 @ es3))"

subsection \<open>Continuous clocks\<close>

text \<open>The old time is read before the first reset, and compared again after it.\<close>

definition continuous_setNewTime :: "int \<Rightarrow> clock \<Rightarrow> clock \<times> shown_event list" where
  "continuous_setNewTime new_time c =
     (let old_time = current_time c;
          (c, es1) = (if clock_updated c then (c, []) else setResetTime new_time (c\<lparr>clock_updated := True\<rparr>));
          (c, es2) = (if new_time < old_time then setResetTime new_time c else (c, []))
      in (c\<lparr>current_time := new_time\<rparr>, es1 @ es2))"

definition continuous_getTime :: "int \<Rightarrow> clock \<Rightarrow> int \<times> clock \<times> shown_event list" where
  "continuous_getTime getNewTime c =
     (let (c, es) = continuous_setNewTime getNewTime c in (current_time c, c, es))"

definition continuous_reset :: "int \<Rightarrow> clock \<Rightarrow> clock \<times> shown_event list" where
  "continuous_reset resetTime c = setResetTime resetTime c"

definition continuous_start :: "int \<Rightarrow> clock \<Rightarrow> clock \<times> shown_event list" where
  "continuous_start resetTime c = continuous_reset resetTime (base_start c)"

text \<open>The real-time clock: microseconds of the system since the last reset, which reads the system's clock twice.\<close>

definition real_getNewTime :: "bool \<Rightarrow> int \<Rightarrow> int \<Rightarrow> int" where
  "real_getNewTime started now current_offset = (if started then now - current_offset else 0)"

definition real_resetTime :: "int \<Rightarrow> int \<Rightarrow> int \<times> int" where
  "real_resetTime now now' = (let current_offset = now in (now' - current_offset, current_offset))"

section \<open>The simulated clock of the system\<close>

record updater =
  cycle_time :: int
  simulated_time :: int
  next_request_gettime :: int

definition new_updater :: updater where
  "new_updater = \<lparr>cycle_time = 100000, simulated_time = 0, next_request_gettime = -1\<rparr>"

definition updateConfiguration :: "int \<Rightarrow> updater \<Rightarrow> updater" where
  "updateConfiguration cycle_ms u = u\<lparr>cycle_time := int32 (cycle_ms * 1000)\<rparr>"

text \<open>
  What \<open>ready\<close> of the clock service passes on: a cycle time that is not positive is replaced by the default; the time
  factor, which only scales the waiting, is replaced when it is below 0.1 but not 0.
\<close>

definition configured_cycle :: "int \<Rightarrow> int" where
  "configured_cycle cycle_ms = (if cycle_ms \<le> 0 then 100 else cycle_ms)"

definition startWorking :: "updater \<Rightarrow> updater" where
  "startWorking u = u\<lparr>simulated_time := 0, next_request_gettime := -1\<rparr>"

text \<open>
  How long a round waits at the time \<open>now\<close>: not in the first round and not for the factor 0 (\<open>None\<close>), otherwise what is
  left until the next request, divided by the factor.
\<close>

definition round_wait :: "(int \<Rightarrow> int) option \<Rightarrow> int \<Rightarrow> updater \<Rightarrow> int option" where
  "round_wait divided now u =
     (if next_request_gettime u = -1 then None
      else case divided of
          None \<Rightarrow> None
        | Some f \<Rightarrow> let diff = f (next_request_gettime u - now) in if diff > 0 then Some diff else None)"

text \<open>A round after its waiting, at the time \<open>now\<close>.\<close>

definition work_round :: "int \<Rightarrow> updater \<times> clock \<Rightarrow> (updater \<times> clock) \<times> shown_event list" where
  "work_round now uc =
     (let (u, c) = uc;
          u = u\<lparr>next_request_gettime := now + cycle_time u\<rparr>;
          (c, es) = discrete_setNewTime (simulated_time u) True c
      in ((u\<lparr>simulated_time := simulated_time u + cycle_time u\<rparr>, c), es))"

definition sim_start :: "updater \<times> clock \<Rightarrow> (updater \<times> clock) \<times> shown_event list" where
  "sim_start uc = (let (u, c) = uc; (c, es) = discrete_start c in ((startWorking u, c), es))"

fun work :: "int list \<Rightarrow> updater \<times> clock \<Rightarrow> (updater \<times> clock) \<times> shown_event list" where
  "work [] uc = (uc, [])"
| "work (now # nows) uc = (let (uc, es) = work_round now uc; (uc, es') = work nows uc in (uc, es @ es'))"

section \<open>Interpolated time\<close>

record interpolation =
  last_interpolated_time :: int
  time_offset :: int
  last_time_set :: int
  last_raw_time :: int

text \<open>The constructor leaves the raw time as it finds it.\<close>

definition new_interpolation :: "int \<Rightarrow> interpolation" where
  "new_interpolation garbage = \<lparr>last_interpolated_time = 0, time_offset = 0, last_time_set = 0, last_raw_time = garbage\<rparr>"

definition ip_getTime :: "int \<Rightarrow> interpolation \<Rightarrow> int \<times> interpolation" where
  "ip_getTime now i =
     (if last_time_set i > 0 then
        let time = now - time_offset i;
            i = (if last_interpolated_time i < time then i\<lparr>last_interpolated_time := time\<rparr> else i)
        in (last_interpolated_time i, i)
      else (last_time_set i, i))"

definition ip_resetTime :: "int \<Rightarrow> int \<Rightarrow> interpolation \<Rightarrow> interpolation" where
  "ip_resetTime now time i =
     i\<lparr>last_raw_time := time, last_time_set := time, time_offset := now - time, last_interpolated_time := time\<rparr>"

text \<open>\<open>setTime\<close> with the two readings of the system's clock it can make; halves are rounded towards zero.\<close>

definition half :: "int \<Rightarrow> int" where
  "half n = (if n < 0 then - ((- n) div 2) else n div 2)"

definition ip_setTime :: "int \<Rightarrow> int \<Rightarrow> int \<Rightarrow> int \<Rightarrow> interpolation \<Rightarrow> interpolation" where
  "ip_setTime now_reset now time roundtrip_time i =
     (let i = (if time < last_raw_time i then ip_resetTime now_reset time i else i);
          i = i\<lparr>last_raw_time := time\<rparr>;
          i = i\<lparr>last_time_set := time + half roundtrip_time\<rparr>
      in i\<lparr>time_offset := now - last_time_set i\<rparr>)"

section \<open>What a sink is told\<close>

text \<open>
  A sink that follows a clock from the time \<open>t\<close> to the time \<open>t'\<close>: every change comes with its events, in order, and every
  event is sent while the clock shows the time the event speaks of. A time that goes back is always a reset. The flag
  allows the time to go on without an event, as continuous clocks do.
\<close>

inductive told :: "bool \<Rightarrow> int \<Rightarrow> shown_event list \<Rightarrow> int \<Rightarrow> bool" for silent :: bool where
  told_nothing: "told silent t [] t"
| told_reset: "told silent t' es t'' \<Longrightarrow> told silent t ((t, TimeResetBegin t t') # (t', TimeResetEnd t') # es) t''"
| told_update: "t \<le> t' \<Longrightarrow> told silent t' es t'' \<Longrightarrow>
    told silent t ((t, TimeUpdateBegin t t') # (t', TimeUpdating t') # (t', TimeUpdateEnd t') # es) t''"
| told_updating: "t \<le> t' \<Longrightarrow> told silent t' es t'' \<Longrightarrow> told silent t ((t', TimeUpdating t') # es) t''"
| told_flow: "silent \<Longrightarrow> t \<le> t' \<Longrightarrow> told silent t' es t'' \<Longrightarrow> told silent t es t''"

lemmas told_blocks = told_nothing told_reset told_update told_updating

lemma told_trans: "told silent t es t' \<Longrightarrow> told silent t' es' t'' \<Longrightarrow> told silent t (es @ es') t''"
  by (induction rule: told.induct) (auto intro: told.intros)

text \<open>A sink that hears of no reset sees a time that never goes back.\<close>

lemma told_monotone: "told silent t es t' \<Longrightarrow> (\<And>x a b. (x, TimeResetBegin a b) \<notin> set es) \<Longrightarrow> t \<le> t'"
  by (induction rule: told.induct) force+

lemma setResetTime_result:
  "setResetTime t c = (c\<lparr>current_time := t\<rparr>,
     if has_sink c then [(current_time c, TimeResetBegin (current_time c) t), (t, TimeResetEnd t)] else [])"
  by (simp add: setResetTime_def emit_def)

lemma discrete_setNewTime_result:
  "discrete_setNewTime t b c =
     (c\<lparr>current_time := t, clock_updated := True\<rparr>,
      if \<not> has_sink c then []
      else if \<not> clock_updated c \<or> t < current_time c then [(current_time c, TimeResetBegin (current_time c) t), (t, TimeResetEnd t)]
      else (if b then [(current_time c, TimeUpdateBegin (current_time c) t)] else []) @ [(t, TimeUpdating t)] @
        (if b then [(t, TimeUpdateEnd t)] else []))"
  by (cases c) (simp add: discrete_setNewTime_def setResetTime_result emit_def)

lemma continuous_setNewTime_result:
  "continuous_setNewTime t c =
     (c\<lparr>current_time := t, clock_updated := True\<rparr>,
      if \<not> has_sink c then []
      else (if clock_updated c then [] else [(current_time c, TimeResetBegin (current_time c) t), (t, TimeResetEnd t)]) @
        (if t < current_time c then
           [(if clock_updated c then current_time c else t, TimeResetBegin (if clock_updated c then current_time c else t) t),
            (t, TimeResetEnd t)] else []))"
  by (cases c) (simp add: continuous_setNewTime_def setResetTime_result)

subsection \<open>Sequences of operations\<close>

datatype clock_op =
    Do_Start int
  | Do_Stop
  | Do_Reset int
  | Do_SetNewTime int bool

fun discrete_op :: "clock_op \<Rightarrow> clock \<Rightarrow> clock \<times> shown_event list" where
  "discrete_op (Do_Start _) c = discrete_start c"
| "discrete_op Do_Stop c = (base_stop c, [])"
| "discrete_op (Do_Reset _) c = discrete_reset c"
| "discrete_op (Do_SetNewTime t b) c = discrete_setNewTime t b c"

text \<open>The numbers are the readings of the system's clock; reading a continuous clock sets it.\<close>

fun continuous_op :: "clock_op \<Rightarrow> clock \<Rightarrow> clock \<times> shown_event list" where
  "continuous_op (Do_Start t) c = continuous_start t c"
| "continuous_op Do_Stop c = (base_stop c, [])"
| "continuous_op (Do_Reset t) c = continuous_reset t c"
| "continuous_op (Do_SetNewTime t _) c = snd (continuous_getTime t c)"

fun run_clock :: "(clock_op \<Rightarrow> clock \<Rightarrow> clock \<times> shown_event list) \<Rightarrow> clock_op list \<Rightarrow> clock \<Rightarrow> clock \<times> shown_event list" where
  "run_clock op [] c = (c, [])"
| "run_clock op (x # xs) c = (let (c, es) = op x c; (c, es') = run_clock op xs c in (c, es @ es'))"

lemma run_clock_append:
  "run_clock op (xs @ ys) c = (let (c, es) = run_clock op xs c; (c, es') = run_clock op ys c in (c, es @ es'))"
  by (induction xs arbitrary: c) (simp_all add: case_prod_beta Let_def)

text \<open>A clock that has a sink keeps it until it is stopped.\<close>

locale telling_clock =
  fixes op :: "clock_op \<Rightarrow> clock \<Rightarrow> clock \<times> shown_event list" and silent :: bool
  assumes tells: "has_sink c \<Longrightarrow> x \<noteq> Do_Stop \<Longrightarrow>
      has_sink (fst (op x c)) \<and> told silent (current_time c) (snd (op x c)) (current_time (fst (op x c)))"
    and no_sink: "\<not> has_sink c \<Longrightarrow> (\<forall>t. x \<noteq> Do_Start t) \<Longrightarrow> \<not> has_sink (fst (op x c)) \<and> snd (op x c) = []"
    and stops: "\<not> has_sink (fst (op Do_Stop c)) \<and> snd (op Do_Stop c) = []"
begin

lemma run_tells:
  "has_sink c \<Longrightarrow> Do_Stop \<notin> set xs \<Longrightarrow>
   has_sink (fst (run_clock op xs c)) \<and>
   told silent (current_time c) (snd (run_clock op xs c)) (current_time (fst (run_clock op xs c)))"
proof (induction xs arbitrary: c)
  case (Cons x xs)
  have step: "has_sink (fst (op x c))" "told silent (current_time c) (snd (op x c)) (current_time (fst (op x c)))"
    using tells [of c x] Cons.prems by auto
  then show ?case using Cons.IH [of "fst (op x c)"] Cons.prems
    by (auto simp: case_prod_beta Let_def intro: told_trans)
qed (simp add: told_nothing)

lemma silent_without_sink:
  "\<not> has_sink c \<Longrightarrow> \<forall>t. Do_Start t \<notin> set xs \<Longrightarrow> \<not> has_sink (fst (run_clock op xs c)) \<and> snd (run_clock op xs c) = []"
proof (induction xs arbitrary: c)
  case (Cons x xs)
  have "\<not> has_sink (fst (op x c)) \<and> snd (op x c) = []" using no_sink [of c x] Cons.prems by auto
  then show ?case using Cons.IH [of "fst (op x c)"] Cons.prems by (simp add: case_prod_beta Let_def)
qed simp

lemma stopped_is_silent:
  "\<forall>t. Do_Start t \<notin> set xs \<Longrightarrow> snd (run_clock op (Do_Stop # xs) c) = []"
  using stops [of c] silent_without_sink [of "fst (op Do_Stop c)" xs] by (simp add: case_prod_beta Let_def)

end

interpretation discrete_clock: telling_clock discrete_op False
proof
  fix c x
  show "has_sink c \<Longrightarrow> x \<noteq> Do_Stop \<Longrightarrow>
      has_sink (fst (discrete_op x c)) \<and> told False (current_time c) (snd (discrete_op x c)) (current_time (fst (discrete_op x c)))"
    by (cases x) (auto simp: discrete_start_def discrete_reset_def base_start_def setResetTime_result discrete_setNewTime_result
        intro!: told_blocks)
  show "\<not> has_sink c \<Longrightarrow> (\<forall>t. x \<noteq> Do_Start t) \<Longrightarrow> \<not> has_sink (fst (discrete_op x c)) \<and> snd (discrete_op x c) = []"
    by (cases x) (auto simp: discrete_reset_def base_stop_def setResetTime_result discrete_setNewTime_result)
  show "\<not> has_sink (fst (discrete_op Do_Stop c)) \<and> snd (discrete_op Do_Stop c) = []" by (simp add: base_stop_def)
qed

interpretation continuous_clock: telling_clock continuous_op True
proof
  fix c x
  show "has_sink c \<Longrightarrow> x \<noteq> Do_Stop \<Longrightarrow>
      has_sink (fst (continuous_op x c)) \<and> told True (current_time c) (snd (continuous_op x c)) (current_time (fst (continuous_op x c)))"
  proof (cases x)
    case (Do_SetNewTime t b)
    assume "has_sink c"
    then show ?thesis
      by (cases "t < current_time c") (auto simp: Do_SetNewTime continuous_getTime_def continuous_setNewTime_result
          intro!: told_reset told_flow [OF TrueI _ told_nothing])
  qed (auto simp: continuous_start_def continuous_reset_def base_start_def setResetTime_result intro!: told_blocks)
  show "\<not> has_sink c \<Longrightarrow> (\<forall>t. x \<noteq> Do_Start t) \<Longrightarrow> \<not> has_sink (fst (continuous_op x c)) \<and> snd (continuous_op x c) = []"
    by (cases x) (auto simp: continuous_reset_def base_stop_def setResetTime_result continuous_getTime_def continuous_setNewTime_result)
  show "\<not> has_sink (fst (continuous_op Do_Stop c)) \<and> snd (continuous_op Do_Stop c) = []" by (simp add: base_stop_def)
qed

text \<open>
  What the sink of a discrete clock is to be told, from the times alone: a start and a reset set the time to 0, a time that is
  set is a reset if it is earlier than the one before (or the clock has not had a time since it was made) and an update
  otherwise, with its beginning and its end if they are asked for.
\<close>

fun to_tell :: "bool \<Rightarrow> int \<Rightarrow> clock_op list \<Rightarrow> shown_event list" where
  "to_tell known t [] = []"
| "to_tell known t (Do_SetNewTime t' around # xs) =
     (if known \<and> t \<le> t'
      then (if around then [(t, TimeUpdateBegin t t')] else []) @ [(t', TimeUpdating t')] @ (if around then [(t', TimeUpdateEnd t')] else [])
      else [(t, TimeResetBegin t t'), (t', TimeResetEnd t')]) @ to_tell True t' xs"
| "to_tell known t (Do_Stop # xs) = []"
| "to_tell known t (_ # xs) = [(t, TimeResetBegin t 0), (0, TimeResetEnd 0)] @ to_tell True 0 xs"

lemma discrete_run_tells:
  "has_sink c \<Longrightarrow> Do_Stop \<notin> set xs \<Longrightarrow> snd (run_clock discrete_op xs c) = to_tell (clock_updated c) (current_time c) xs"
proof (induction xs arbitrary: c)
  case (Cons x xs)
  show ?case
    using Cons by (cases x) (auto simp: discrete_start_def discrete_reset_def base_start_def setResetTime_result
        discrete_setNewTime_result case_prod_beta Let_def)
qed simp

text \<open>A started discrete clock tells its sink of every change, whatever the order of updates, resets and restarts, and of nothing
  else: a time that goes on is announced, shown and confirmed if the caller asks for the events around it and only shown
  otherwise, a time that goes back (and the first one of a clock that has had none) is a reset to it, a start and a reset of the
  clock are resets to 0, and the sink is always called while the clock shows the time it is told. A stopped clock tells
  nothing until it is started again.\<close>
theorem discrete_clock_tells_every_change:
  assumes "has_sink c" "Do_Stop \<notin> set xs" "\<forall>t. Do_Start t \<notin> set ys"
  shows "snd (run_clock discrete_op xs c) = to_tell (clock_updated c) (current_time c) xs \<and>
    told False (current_time c) (snd (run_clock discrete_op xs c)) (current_time (fst (run_clock discrete_op xs c))) \<and>
    snd (run_clock discrete_op (Do_Stop # ys) c) = []"
  using discrete_run_tells [OF assms(1,2)] discrete_clock.run_tells [OF assms(1, 2)] discrete_clock.stopped_is_silent [OF assms(3)] by blast

definition demo_clock :: clock where
  "demo_clock = \<lparr>current_time = 5, clock_updated = True, clock_started = True, has_sink = True\<rparr>"

theorem discrete_clock_tells_every_change_witness:
  "snd (run_clock discrete_op [Do_SetNewTime 9 True, Do_SetNewTime 2 True, Do_SetNewTime 4 False] demo_clock) =
     [(5, TimeUpdateBegin 5 9), (9, TimeUpdating 9), (9, TimeUpdateEnd 9), (9, TimeResetBegin 9 2), (2, TimeResetEnd 2), (4, TimeUpdating 4)]"
proof -
  have "has_sink demo_clock" "Do_Stop \<notin> set [Do_SetNewTime 9 True, Do_SetNewTime 2 True, Do_SetNewTime 4 False]" "\<forall>t. Do_Start t \<notin> set []"
    by (simp_all add: demo_clock_def)
  from discrete_clock_tells_every_change [OF this]
  have "snd (run_clock discrete_op [Do_SetNewTime 9 True, Do_SetNewTime 2 True, Do_SetNewTime 4 False] demo_clock) =
      to_tell (clock_updated demo_clock) (current_time demo_clock) [Do_SetNewTime 9 True, Do_SetNewTime 2 True, Do_SetNewTime 4 False]" by blast
  also have "\<dots> = [(5, TimeUpdateBegin 5 9), (9, TimeUpdating 9), (9, TimeUpdateEnd 9), (9, TimeResetBegin 9 2), (2, TimeResetEnd 2), (4, TimeUpdating 4)]"
    by (simp add: demo_clock_def)
  finally show ?thesis .
qed

text \<open>A continuous clock tells its sink of every reset; between two resets its readings never go back.\<close>
theorem continuous_clock_tells_resets:
  assumes "has_sink c" "Do_Stop \<notin> set xs"
  shows "told True (current_time c) (snd (run_clock continuous_op xs c)) (current_time (fst (run_clock continuous_op xs c)))"
    "(\<And>x a b. (x, TimeResetBegin a b) \<notin> set (snd (run_clock continuous_op xs c))) \<Longrightarrow>
      current_time c \<le> current_time (fst (run_clock continuous_op xs c))"
  using continuous_clock.run_tells [OF assms] told_monotone by blast+

text \<open>The first reading after a start is a second reset, and a third when it is lower than the time before it.\<close>

lemma first_reading_resets_again:
  "snd (run_clock continuous_op [Do_Start 3, Do_SetNewTime 2 False] new_clock) =
     [(0, TimeResetBegin 0 3), (3, TimeResetEnd 3), (3, TimeResetBegin 3 2), (2, TimeResetEnd 2), (2, TimeResetBegin 2 2), (2, TimeResetEnd 2)]"
  by code_simp

subsection \<open>Simulated time\<close>

lemma work_append: "work (xs @ ys) uc = (let (uc, es) = work xs uc; (uc, es') = work ys uc in (uc, es @ es'))"
  by (induction xs arbitrary: uc) (simp_all add: case_prod_beta Let_def)

definition update_block :: "int \<Rightarrow> int \<Rightarrow> shown_event list" where
  "update_block old t = [(old, TimeUpdateBegin old t), (t, TimeUpdating t), (t, TimeUpdateEnd t)]"

lemma work_round_update:
  assumes "has_sink c" "clock_updated c" "current_time c \<le> simulated_time u"
  shows "work_round now (u, c) =
    ((u\<lparr>next_request_gettime := now + cycle_time u, simulated_time := simulated_time u + cycle_time u\<rparr>,
      c\<lparr>current_time := simulated_time u, clock_updated := True\<rparr>), update_block (current_time c) (simulated_time u))"
  using assms by (cases u) (simp add: work_round_def discrete_setNewTime_result update_block_def)

text \<open>The time announced before round \<open>n\<close>.\<close>

definition announced :: "int \<Rightarrow> nat \<Rightarrow> int" where
  "announced T n = (if n = 0 then 0 else (int n - 1) * T)"

lemma announced_simps [simp]: "announced T 0 = 0" "announced T (Suc n) = int n * T"
  by (simp_all add: announced_def)

lemma announced_le: "0 \<le> T \<Longrightarrow> announced T n \<le> int n * T"
  by (simp add: announced_def mult_right_mono)

lemma work_rounds:
  assumes "has_sink c" "clock_updated c" "current_time c = 0" "simulated_time u = 0" "0 \<le> cycle_time u"
  shows "\<exists>u' c'. work nows (u, c) =
      ((u', c'), concat (map (\<lambda>k. update_block (announced (cycle_time u) k) (int k * cycle_time u)) [0..<length nows])) \<and>
      has_sink c' \<and> clock_updated c' \<and> cycle_time u' = cycle_time u \<and>
      simulated_time u' = int (length nows) * cycle_time u \<and> current_time c' = announced (cycle_time u) (length nows)"
    (is "\<exists>u' c'. _ = ((u', c'), ?es nows) \<and> _")
proof (induction nows rule: rev_induct)
  case (snoc now nows)
  then obtain u' c' where IH: "work nows (u, c) = ((u', c'), ?es nows)" "has_sink c'" "clock_updated c'" "cycle_time u' = cycle_time u"
      "simulated_time u' = int (length nows) * cycle_time u" "current_time c' = announced (cycle_time u) (length nows)" by blast
  have "current_time c' \<le> simulated_time u'" using announced_le [OF assms(5)] by (simp add: IH(5,6))
  then show ?case using IH by (simp add: work_append work_round_update distrib_right add.commute)
qed (use assms in simp)

text \<open>The simulated clock after its start: whatever the waiting and whatever the system's clock says, the rounds announce the
  times 0, T, 2 T and so on, each once and in order, where T is the cycle time.\<close>
theorem simulated_time_is_deterministic:
  assumes "sim_start (u, c) = (uc, es)" "0 \<le> cycle_time u"
  shows "snd (work nows uc) = concat (map (\<lambda>k. update_block (announced (cycle_time u) k) (int k * cycle_time u)) [0..<length nows])"
proof -
  let ?c = "fst (discrete_start c)"
  have uc: "uc = (startWorking u, ?c)" using assms(1) by (auto simp: sim_start_def case_prod_beta)
  have "has_sink ?c" "clock_updated ?c" "current_time ?c = 0"
    by (simp_all add: discrete_start_def discrete_reset_def base_start_def setResetTime_result)
  from work_rounds [OF this, of "startWorking u" nows] show ?thesis
    using assms(2) by (auto simp: uc startWorking_def)
qed

theorem simulated_time_is_deterministic_witness:
  "snd (work [17, 4, 90] (fst (sim_start (updateConfiguration (configured_cycle 20) new_updater, new_clock)))) =
     update_block 0 0 @ update_block 0 20000 @ update_block 20000 40000"
proof -
  have c: "cycle_time (updateConfiguration (configured_cycle 20) new_updater) = 20000" by code_simp
  show ?thesis
    using simulated_time_is_deterministic [OF prod.collapse [symmetric],
        of "updateConfiguration (configured_cycle 20) new_updater" "[17, 4, 90]" new_clock]
    by (simp add: c upt_rec)
qed

text \<open>A cycle time of more than half an hour does not fit: its microseconds overflow and the time would run backwards.\<close>

lemma long_cycle_overflows: "cycle_time (updateConfiguration 2147484 new_updater) < 0"
  by code_simp

lemma configured_cycle_positive:
  "cycle_ms \<le> 2147483 \<Longrightarrow> 0 < cycle_time (updateConfiguration (configured_cycle cycle_ms) u)"
  by (auto simp: updateConfiguration_def configured_cycle_def int32_id)

subsection \<open>How far interpolated time can be off\<close>

text \<open>
  A slave that synchronises with the clock of a master which is \<open>d\<close> ahead of the slave's own system clock: it asks at
  \<open>t0\<close>, the master reads its clock at \<open>tm\<close>, the answer is there at \<open>t1\<close> and is entered at \<open>t2\<close>. In between it reads its
  interpolated time.
\<close>

datatype ip_event =
    Ip_Sync int int int int
  | Ip_Read int

fun ip_step :: "int \<Rightarrow> ip_event \<Rightarrow> interpolation \<Rightarrow> interpolation" where
  "ip_step d (Ip_Sync t0 tm t1 t2) i = ip_setTime t2 t2 (tm + d) (t1 - t0) i"
| "ip_step d (Ip_Read now) i = snd (ip_getTime now i)"

text \<open>The events happen in order, and a synchronisation is precise to \<open>E\<close>: half of the round trip and the delay after it.\<close>

fun chronological :: "int \<Rightarrow> int \<Rightarrow> ip_event list \<Rightarrow> bool" where
  "chronological E T [] \<longleftrightarrow> True"
| "chronological E T (Ip_Sync t0 tm t1 t2 # es) \<longleftrightarrow>
     T \<le> t0 \<and> t0 \<le> tm \<and> tm \<le> t1 \<and> t1 \<le> t2 \<and> (t1 - t0 + 1) div 2 + (t2 - t1) \<le> E \<and> chronological E t2 es"
| "chronological E T (Ip_Read now # es) \<longleftrightarrow> T \<le> now \<and> chronological E now es"

fun readings :: "int \<Rightarrow> ip_event list \<Rightarrow> interpolation \<Rightarrow> int list" where
  "readings d [] i = []"
| "readings d (Ip_Read now # es) i = fst (ip_getTime now i) # readings d es (ip_step d (Ip_Read now) i)"
| "readings d (Ip_Sync t0 tm t1 t2 # es) i = readings d es (ip_step d (Ip_Sync t0 tm t1 t2) i)"

fun end_of :: "int \<Rightarrow> ip_event list \<Rightarrow> int" where
  "end_of T [] = T"
| "end_of T (Ip_Sync t0 tm t1 t2 # es) = end_of t2 es"
| "end_of T (Ip_Read now # es) = end_of now es"

definition tracks :: "int \<Rightarrow> int \<Rightarrow> int \<Rightarrow> interpolation \<Rightarrow> bool" where
  "tracks d E T i \<longleftrightarrow> last_raw_time i \<le> T + d \<and> last_interpolated_time i \<le> T + d + E \<and> 0 \<le> last_interpolated_time i \<and> 0 < T + d \<and>
     (if last_time_set i > 0 then \<bar>- time_offset i - d\<bar> \<le> E else last_time_set i = 0 \<and> last_interpolated_time i = 0)"

lemma tracks_reset: "0 < T + d \<Longrightarrow> 0 \<le> E \<Longrightarrow> tracks d E T (ip_resetTime T 0 i)"
  by (simp add: tracks_def ip_resetTime_def)

lemma tracks_read:
  assumes "tracks d E T i" "T \<le> now"
  shows "tracks d E now (snd (ip_getTime now i))" "last_time_set i > 0 \<Longrightarrow> \<bar>fst (ip_getTime now i) - (now + d)\<bar> \<le> E"
    "last_interpolated_time i \<le> fst (ip_getTime now i)" "fst (ip_getTime now i) = last_interpolated_time (snd (ip_getTime now i))"
  using assms by (auto simp: tracks_def ip_getTime_def Let_def split: if_splits)

lemma tracks_sync:
  assumes "tracks d E T i" "T \<le> t0" "t0 \<le> tm" "tm \<le> t1" "t1 \<le> t2" "(t1 - t0 + 1) div 2 + (t2 - t1) \<le> E"
  shows "tracks d E t2 (ip_setTime t2 t2 (tm + d) (t1 - t0) i)"
    "last_interpolated_time (ip_setTime t2 t2 (tm + d) (t1 - t0) i) = last_interpolated_time i"
proof -
  let ?j = "ip_setTime t2 t2 (tm + d) (t1 - t0) i"
  have "last_raw_time i \<le> tm + d" using assms by (simp add: tracks_def)
  then have j: "last_interpolated_time ?j = last_interpolated_time i" "last_raw_time ?j = tm + d"
      "last_time_set ?j = tm + d + (t1 - t0) div 2" "time_offset ?j = t2 - (tm + d + (t1 - t0) div 2)"
    using assms by (simp_all add: ip_setTime_def half_def)
  show "last_interpolated_time ?j = last_interpolated_time i" by (rule j(1))
  have "0 < tm + d" using assms by (simp add: tracks_def)
  moreover have "0 \<le> (t1 - t0) div 2" using assms by simp
  moreover have "\<bar>tm + (t1 - t0) div 2 - t2\<bar> \<le> E" using assms by linarith
  moreover have "last_interpolated_time i \<le> t2 + d + E" "0 \<le> last_interpolated_time i" using assms by (auto simp: tracks_def)
  ultimately show "tracks d E t2 ?j" using assms(5,4) by (auto simp: tracks_def j)
qed

lemma tracks_run:
  "tracks d E T i \<Longrightarrow> chronological E T es \<Longrightarrow>
   tracks d E (end_of T es) (fold (ip_step d) es i) \<and> T \<le> end_of T es \<and>
   sorted (readings d es i) \<and> (\<forall>r \<in> set (readings d es i). last_interpolated_time i \<le> r)"
proof (induction es arbitrary: T i)
  case (Cons e es)
  show ?case
  proof (cases e)
    case (Ip_Sync t0 tm t1 t2)
    let ?j = "ip_setTime t2 t2 (tm + d) (t1 - t0) i"
    have "tracks d E t2 ?j" "last_interpolated_time ?j = last_interpolated_time i"
      using tracks_sync Cons.prems by (simp_all add: Ip_Sync)
    then show ?thesis using Cons.IH [of t2 ?j] Cons.prems by (auto simp: Ip_Sync)
  next
    case (Ip_Read now)
    let ?j = "snd (ip_getTime now i)"
    have "T \<le> now" using Cons.prems by (simp add: Ip_Read)
    note r = tracks_read [OF Cons.prems(1) this]
    show ?thesis using Cons.IH [OF r(1), of] r(3,4) Cons.prems by (fastforce simp: Ip_Read)
  qed
qed simp

text \<open>C31: Interpolated time: between two resets, and while the time of the master is positive, a slave that synchronises with a clock which runs as fast as its own is never
  further from the master's time than the worst half round trip plus the delay of entering the answer, at every reading
  after the first synchronisation; and its readings never go back.\<close>
theorem interpolated_time_is_close:
  assumes "0 < T + d" "0 \<le> E" "chronological E T es"
    and "i = fold (ip_step d) es (ip_resetTime T 0 i0)" "0 < last_time_set i" "end_of T es \<le> now"
  shows "\<bar>fst (ip_getTime now i) - (now + d)\<bar> \<le> E \<and> sorted (readings d es (ip_resetTime T 0 i0))"
  using tracks_run [OF tracks_reset [OF assms(1,2)] assms(3), of i0] tracks_read(2) [OF _ assms(6), of d E i] assms(4,5) by auto

theorem interpolated_time_is_close_witness:
  "\<bar>fst (ip_getTime 90 (fold (ip_step 1000) [Ip_Sync 10 14 16 17, Ip_Read 20, Ip_Sync 40 41 50 50, Ip_Read 60] (ip_resetTime 5 0 (new_interpolation 77))))
     - 1090\<bar> \<le> 5 \<and> sorted [1020 :: int, 1056]"
proof -
  let ?es = "[Ip_Sync 10 14 16 17, Ip_Read 20, Ip_Sync 40 41 50 50, Ip_Read 60]"
  let ?i = "fold (ip_step 1000) ?es (ip_resetTime 5 0 (new_interpolation 77))"
  have "0 < last_time_set ?i" by code_simp
  from interpolated_time_is_close [of 5 1000 5 ?es ?i "new_interpolation 77" 90, OF _ _ _ refl this]
  have "\<bar>fst (ip_getTime 90 ?i) - 1090\<bar> \<le> 5" "sorted (readings 1000 ?es (ip_resetTime 5 0 (new_interpolation 77)))" by simp_all
  moreover have "readings 1000 ?es (ip_resetTime 5 0 (new_interpolation 77)) = [1020, 1056]" by code_simp
  ultimately show ?thesis by simp
qed

end
