(* ===== verification/Clock_Sync.thy ===== *)
theory Clock_Sync
  imports Clock Std_Map
begin

unbundle bit_operations_syntax

text \<open>
  Clocks between participants: the registry of clocks and of event sinks (\<open>LocalClockService\<close> and
  \<open>ClockEventSinkRegistry\<close>, \<open>src/fep3/components/clock/local_clock_service.cpp\<close>), the master that passes the events of its
  clock on to its slaves (\<open>ClockMaster\<close>, \<open>local_clock_service_master.cpp\<close>) and the clock of a slave
  (\<open>FarClockUpdater\<close>, \<open>MasterOnDemandClockDiscrete\<close>, \<open>MasterOnDemandClockInterpolating\<close> in
  \<open>clock_sync_default/master_on_demand_clock_client.cpp\<close>, created by \<open>clock_sync_service.cpp\<close>).

  A clock object is a name and an identity. Times cross between participants as decimal texts, which an external library
  writes and reads: \<open>fmt\<close> and \<open>prs\<close>. Whether a remote call arrives is an input, too.
\<close>

section \<open>The sinks of a clock\<close>

definition registerSink :: "'s \<Rightarrow> 's list \<Rightarrow> 's list" where
  "registerSink sink sinks = (if sink \<in> set sinks then sinks else sinks @ [sink])"

definition unregisterSink :: "'s \<Rightarrow> 's list \<Rightarrow> 's list" where
  "unregisterSink sink sinks = remove1 sink sinks"

text \<open>The registry is itself a sink: it calls its sinks one after the other.\<close>

definition sink_calls :: "'s list \<Rightarrow> clock_event \<Rightarrow> ('s \<times> clock_event) list" where
  "sink_calls sinks e = map (\<lambda>s. (s, e)) sinks"

definition registerEventSink :: "'s \<Rightarrow> 's \<Rightarrow> 's list \<Rightarrow> 's list" where
  "registerEventSink clock_master sink sinks =
     registerSink clock_master (registerSink sink (unregisterSink clock_master sinks))"

definition unregisterEventSink :: "'s \<Rightarrow> 's list \<Rightarrow> 's list" where
  "unregisterEventSink sink sinks = unregisterSink sink sinks"

section \<open>The clocks of a participant\<close>

datatype clock_type = continuous | discrete

type_synonym clock_ref = "string \<times> nat"

record clock_service =
  registered_clocks :: "clock_ref list"
  current_clock :: clock_ref
  service_started :: bool
  main_clock_property :: string

definition local_system_real_clock :: clock_ref where
  "local_system_real_clock = (''local_system_realtime'', 0)"

definition local_system_sim_clock :: clock_ref where
  "local_system_sim_clock = (''local_system_simtime'', 1)"

definition findClock :: "string \<Rightarrow> clock_service \<Rightarrow> clock_ref option" where
  "findClock name cs = List.find (\<lambda>c. fst c = name) (registered_clocks cs)"

definition getClockList :: "clock_service \<Rightarrow> string list" where
  "getClockList cs = map fst (registered_clocks cs)"

definition registerClock :: "clock_ref \<Rightarrow> clock_service \<Rightarrow> fep_result \<times> clock_service" where
  "registerClock c cs =
     (if service_started cs then (ERR_INVALID_STATE, cs)
      else case findClock (fst c) cs of
          Some _ \<Rightarrow> (ERR_INVALID_ARG, cs)
        | None \<Rightarrow> (ERR_NOERROR, cs\<lparr>registered_clocks := registered_clocks cs @ [c]\<rparr>))"

fun erase_clock :: "string \<Rightarrow> clock_ref list \<Rightarrow> clock_ref list option" where
  "erase_clock name [] = None"
| "erase_clock name (c # cs) = (if fst c = name then Some cs else map_option ((#) c) (erase_clock name cs))"

definition unregisterClockUnlocked :: "string \<Rightarrow> clock_service \<Rightarrow> fep_result \<times> clock_service" where
  "unregisterClockUnlocked name cs =
     (case erase_clock name (registered_clocks cs) of
        Some rest \<Rightarrow> (ERR_NOERROR, cs\<lparr>registered_clocks := rest\<rparr>)
      | None \<Rightarrow> (ERR_INVALID_ARG, cs))"

definition unregisterClock :: "string \<Rightarrow> clock_service \<Rightarrow> fep_result \<times> clock_service" where
  "unregisterClock name cs =
     (if service_started cs then (ERR_INVALID_STATE, cs)
      else
        let current_clock_name = fst (current_clock cs);
            (result, cs) = unregisterClockUnlocked name cs;
            cs = (if isOk result \<and> current_clock_name = name then cs\<lparr>current_clock := local_system_real_clock\<rparr> else cs)
        in (ERR_NOERROR, cs))"

definition setMainClock :: "string \<Rightarrow> clock_service \<Rightarrow> fep_result \<times> clock_service" where
  "setMainClock name cs =
     (if service_started cs then (ERR_INVALID_STATE, cs)
      else case findClock name cs of
          None \<Rightarrow> (ERR_NOT_FOUND, cs\<lparr>current_clock := local_system_real_clock\<rparr>)
        | Some c \<Rightarrow> (ERR_NOERROR, cs\<lparr>current_clock := c, main_clock_property := name\<rparr>))"

text \<open>The constructor and \<open>create\<close>, \<open>ready\<close>, \<open>start\<close> and \<open>stop\<close>. The last two also start and stop the current clock.\<close>

definition new_clock_service :: clock_service where
  "new_clock_service =
     (let cs = \<lparr>registered_clocks = [], current_clock = local_system_real_clock, service_started = False, main_clock_property = []\<rparr>;
          cs = snd (registerClock local_system_real_clock cs);
          cs = snd (registerClock local_system_sim_clock cs)
      in cs)"

definition create :: "clock_service \<Rightarrow> clock_service" where
  "create cs = (if main_clock_property cs = [] then cs\<lparr>main_clock_property := fst local_system_real_clock\<rparr> else cs)"

definition ready :: "clock_service \<Rightarrow> fep_result \<times> clock_service" where
  "ready cs =
     (if main_clock_property cs \<noteq> fst (current_clock cs) then
        let (r, cs) = setMainClock (main_clock_property cs) cs in if isFailed r then (r, cs) else (ERR_NOERROR, cs)
      else (ERR_NOERROR, cs))"

definition start :: "clock_service \<Rightarrow> clock_service" where
  "start cs = cs\<lparr>service_started := True\<rparr>"

definition stop :: "clock_service \<Rightarrow> clock_service" where
  "stop cs = cs\<lparr>service_started := False\<rparr>"

text \<open>Times and types; \<open>read\<close> reads a clock.\<close>

definition getTime :: "(clock_ref \<Rightarrow> int) \<Rightarrow> clock_service \<Rightarrow> int" where
  "getTime read cs = (if service_started cs then read (current_clock cs) else 0)"

definition getTimeOf :: "(clock_ref \<Rightarrow> int) \<Rightarrow> string \<Rightarrow> clock_service \<Rightarrow> int" where
  "getTimeOf read name cs = (case findClock name cs of Some c \<Rightarrow> read c | None \<Rightarrow> -1)"

fun type_code :: "clock_type \<Rightarrow> int" where
  "type_code continuous = 0"
| "type_code discrete = 1"

definition getTypeOf :: "(clock_ref \<Rightarrow> clock_type) \<Rightarrow> string \<Rightarrow> clock_service \<Rightarrow> int" where
  "getTypeOf ty name cs = (case findClock name cs of Some c \<Rightarrow> type_code (ty c) | None \<Rightarrow> -1)"

text \<open>The clocks as the remote service lists them.\<close>

fun joined_names :: "string list \<Rightarrow> string" where
  "joined_names [] = []"
| "joined_names [n] = n"
| "joined_names (n # m # ns) = n @ CHR '','' # joined_names (m # ns)"

definition getClocks :: "clock_service \<Rightarrow> string" where
  "getClocks cs = joined_names (getClockList cs)"

definition getTime_rpc :: "(int \<Rightarrow> string) \<Rightarrow> (clock_ref \<Rightarrow> int) \<Rightarrow> string \<Rightarrow> clock_service \<Rightarrow> string" where
  "getTime_rpc fmt read name cs = fmt (if name = [] then getTime read cs else getTimeOf read name cs)"

section \<open>The master\<close>

record clock_slave =
  slave_active :: bool
  event_id_flag :: int

type_synonym slaves = "(string, clock_slave) std_map"

abbreviation (input) "timeUpdateBefore \<equiv> 1 :: int"
abbreviation (input) "timeUpdating \<equiv> 2 :: int"
abbreviation (input) "timeUpdateAfter \<equiv> 3 :: int"
abbreviation (input) "timeReset \<equiv> 4 :: int"

abbreviation (input) "register_for_timeUpdateBefore \<equiv> 1 :: int"
abbreviation (input) "register_for_timeUpdating \<equiv> 2 :: int"
abbreviation (input) "register_for_timeUpdateAfter \<equiv> 4 :: int"
abbreviation (input) "register_for_timeReset \<equiv> 8 :: int"

definition isSet :: "int \<Rightarrow> clock_slave \<Rightarrow> bool" where
  "isSet flag sl \<longleftrightarrow> (event_id_flag sl AND flag) = flag"

definition registerSlave :: "string \<Rightarrow> int \<Rightarrow> slaves \<Rightarrow> fep_result \<times> slaves" where
  "registerSlave name flag sls =
     (ERR_NOERROR,
      case map_of sls name of
        Some sl \<Rightarrow> sm_assign name (sl\<lparr>event_id_flag := flag, slave_active := True\<rparr>) sls
      | None \<Rightarrow> sm_assign name \<lparr>slave_active = True, event_id_flag = flag\<rparr> sls)"

definition unregisterSlave :: "string \<Rightarrow> slaves \<Rightarrow> fep_result \<times> slaves" where
  "unregisterSlave name sls =
     (case map_of sls name of
        Some sl \<Rightarrow> (ERR_NOERROR, sm_assign name (sl\<lparr>slave_active := False\<rparr>) sls)
      | None \<Rightarrow> (ERR_NOT_FOUND, sls))"

definition registerSyncSlave :: "int \<Rightarrow> string \<Rightarrow> slaves \<Rightarrow> int \<times> slaves" where
  "registerSyncSlave flag name sls = (let (r, sls) = registerSlave name flag sls in (if isOk r then 0 else -1, sls))"

definition unregisterSyncSlave :: "string \<Rightarrow> slaves \<Rightarrow> int \<times> slaves" where
  "unregisterSyncSlave name sls = (let (r, sls) = unregisterSlave name sls in (if isOk r then 0 else -1, sls))"

text \<open>The flag, the event and the two times of the call a master makes for an event of its clock.\<close>

fun master_call :: "clock_event \<Rightarrow> (int \<times> int \<times> int \<times> int) option" where
  "master_call (TimeUpdateBegin old_time new_time) = Some (register_for_timeUpdateBefore, timeUpdateBefore, new_time, old_time)"
| "master_call (TimeUpdating new_time) = Some (register_for_timeUpdating, timeUpdating, new_time, 0)"
| "master_call (TimeUpdateEnd new_time) = Some (register_for_timeUpdateAfter, timeUpdateAfter, new_time, 0)"
| "master_call (TimeResetBegin old_time new_time) = Some (register_for_timeReset, timeReset, new_time, old_time)"
| "master_call (TimeResetEnd new_time) = None"

text \<open>A call that does not arrive raises an exception. The result has the calls that arrive.\<close>

type_synonym sync_call = "string \<times> int \<times> string \<times> string"

definition notify_slaves :: "(int \<Rightarrow> string) \<Rightarrow> string set \<Rightarrow> clock_event \<Rightarrow> slaves \<Rightarrow> slaves \<times> sync_call list" where
  "notify_slaves fmt reach e sls =
     (case master_call e of
        None \<Rightarrow> (sls, [])
      | Some (flag, event_id, new_time, old_time) \<Rightarrow>
          (map (\<lambda>(n, sl). (n, if isSet flag sl \<and> n \<notin> reach then sl\<lparr>slave_active := False\<rparr> else sl)) sls,
           map (\<lambda>(n, sl). (n, event_id, fmt new_time, fmt old_time)) (filter (\<lambda>(n, sl). isSet flag sl \<and> n \<in> reach) sls)))"

section \<open>The slave\<close>

definition getEventIDFlags :: "bool \<Rightarrow> int" where
  "getEventIDFlags beforeAndAfterEvent =
     (if beforeAndAfterEvent
      then register_for_timeUpdateBefore OR register_for_timeUpdating OR register_for_timeUpdateAfter OR register_for_timeReset
      else register_for_timeUpdating OR register_for_timeReset)"

subsection \<open>The discrete clock\<close>

record discrete_slave =
  sl_clock :: clock
  beforeAndAfterEvent :: bool

definition slave_emit :: "clock_event \<Rightarrow> clock \<Rightarrow> shown_event list" where
  "slave_emit e c = (if has_sink c then [(current_time c, e)] else [])"

definition masterTimeEvent :: "int \<Rightarrow> int \<Rightarrow> int \<Rightarrow> discrete_slave \<Rightarrow> int \<times> discrete_slave \<times> shown_event list" where
  "masterTimeEvent event_id new_time old_time s =
     (let (c, es) =
        (if event_id = timeReset then (if new_time \<noteq> old_time then discrete_reset (sl_clock s) else (sl_clock s, []))
         else if event_id = timeUpdateBefore then (sl_clock s, slave_emit (TimeUpdateBegin old_time new_time) (sl_clock s))
         else if event_id = timeUpdating then discrete_setNewTime new_time (\<not> beforeAndAfterEvent s) (sl_clock s)
         else if event_id = timeUpdateAfter then (sl_clock s, slave_emit (TimeUpdateEnd new_time) (sl_clock s))
         else (sl_clock s, []))
      in (current_time c, s\<lparr>sl_clock := c\<rparr>, es))"

definition syncTimeEvent ::
  "(int \<Rightarrow> string) \<Rightarrow> (string \<Rightarrow> int) \<Rightarrow> int \<Rightarrow> string \<Rightarrow> string \<Rightarrow> discrete_slave \<Rightarrow> string \<times> discrete_slave \<times> shown_event list" where
  "syncTimeEvent fmt prs event_id new_time old_time s =
     (let (t, s, es) = masterTimeEvent event_id (prs new_time) (prs old_time) s in (fmt t, s, es))"

definition updateTime_discrete :: "int \<Rightarrow> int \<Rightarrow> discrete_slave \<Rightarrow> discrete_slave \<times> shown_event list" where
  "updateTime_discrete new_time roundtrip_time s =
     (let (c, es) = discrete_setNewTime new_time True (sl_clock s) in (s\<lparr>sl_clock := c\<rparr>, es))"

subsection \<open>The interpolating clock\<close>

record interpolating_slave =
  ip_clock :: clock
  current_interpolation_time :: interpolation

definition ip_slave_getTime :: "int \<Rightarrow> interpolating_slave \<Rightarrow> int \<times> interpolating_slave \<times> shown_event list" where
  "ip_slave_getTime now s =
     (let (new_time, ip) = ip_getTime now (current_interpolation_time s);
          (t, c, es) = continuous_getTime new_time (ip_clock s)
      in (t, \<lparr>ip_clock = c, current_interpolation_time = ip\<rparr>, es))"

definition ip_slave_reset :: "int \<Rightarrow> interpolating_slave \<Rightarrow> interpolating_slave \<times> shown_event list" where
  "ip_slave_reset now s =
     (let ip = ip_resetTime now 0 (current_interpolation_time s);
          (c, es) = continuous_reset 0 (ip_clock s)
      in (\<lparr>ip_clock = c, current_interpolation_time = ip\<rparr>, es))"

definition ip_slave_start :: "int \<Rightarrow> interpolating_slave \<Rightarrow> interpolating_slave \<times> shown_event list" where
  "ip_slave_start now s = ip_slave_reset now (s\<lparr>ip_clock := base_start (ip_clock s)\<rparr>)"

definition updateTime_interpolating :: "int \<Rightarrow> int \<Rightarrow> int \<Rightarrow> int \<Rightarrow> interpolating_slave \<Rightarrow> interpolating_slave" where
  "updateTime_interpolating now_reset now new_time roundtrip_time s =
     s\<lparr>current_interpolation_time := ip_setTime now_reset now new_time roundtrip_time (current_interpolation_time s)\<rparr>"

definition masterTimeEvent_interpolating ::
  "int \<Rightarrow> int \<Rightarrow> int \<Rightarrow> int \<Rightarrow> int \<Rightarrow> interpolating_slave \<Rightarrow> int \<times> interpolating_slave \<times> shown_event list" where
  "masterTimeEvent_interpolating now now' event_id new_time old_time s =
     (let (s, es) = (if event_id = timeReset then ip_slave_reset now s else (s, []));
          (t, s, es') = ip_slave_getTime now' s
      in (t, s, es @ es'))"

subsection \<open>Registration and the worker\<close>

record far_updater =
  master_type :: int
  on_demand_step_size :: int
  next_request :: int

definition new_far_updater :: "int \<Rightarrow> far_updater" where
  "new_far_updater step_size = \<lparr>master_type = -1, on_demand_step_size = step_size, next_request = -1\<rparr>"

text \<open>The answer of the master about its type and whether the registration arrives; \<open>None\<close> and \<open>False\<close> are exceptions.\<close>

definition registerToMaster :: "int option \<Rightarrow> bool \<Rightarrow> far_updater \<Rightarrow> far_updater" where
  "registerToMaster type_answer registered u =
     (let u = (case type_answer of Some t \<Rightarrow> u\<lparr>master_type := t\<rparr> | None \<Rightarrow> u)
      in if registered then u else u\<lparr>master_type := -1\<rparr>)"

definition isClientRegistered :: "far_updater \<Rightarrow> bool" where
  "isClientRegistered u \<longleftrightarrow> master_type u \<noteq> -1"

text \<open>Whether the start of the communication also starts the worker.\<close>

definition startRPC :: "int option \<Rightarrow> bool \<Rightarrow> far_updater \<Rightarrow> far_updater \<times> bool" where
  "startRPC type_answer registered u =
     (let u = registerToMaster type_answer registered u;
          starts = (master_type u \<noteq> type_code discrete)
      in (if starts then u\<lparr>next_request := -1\<rparr> else u, starts))"

datatype waiting = No_Wait | Yield | Wait int

definition worker_wait :: "int \<Rightarrow> far_updater \<Rightarrow> waiting" where
  "worker_wait now_ms u =
     (if next_request u = -1 then No_Wait
      else let diff = next_request u - now_ms in if diff > 5 then Wait diff else if diff > 0 then Yield else No_Wait)"

text \<open>
  A round of the worker after its waiting: \<open>master_time\<close> is the answer to the request of the time with the time it took,
  \<open>None\<close> when it raises an exception; a first and another registration have answers of their own. The result says whether the clock is set.
\<close>

definition worker_round ::
  "int option \<times> bool \<Rightarrow> int option \<times> bool \<Rightarrow> (int \<times> int) option \<Rightarrow> int \<Rightarrow> far_updater \<Rightarrow> far_updater \<times> (int \<times> int) option" where
  "worker_round first again master_time now_ms u =
     (let u = (if isClientRegistered u then u else registerToMaster (fst first) (snd first) u)
      in if master_type u = type_code continuous then
           (case master_time of
              Some tr \<Rightarrow> (u\<lparr>next_request := int32 (now_ms + on_demand_step_size u)\<rparr>, Some tr)
            | None \<Rightarrow> (registerToMaster (fst again) (snd again) u, None))
         else (u\<lparr>next_request := int32 (now_ms + on_demand_step_size u)\<rparr>, None))"

subsection \<open>The synchronisation service\<close>

datatype slave_kind = Interpolating | Discrete_Slave

definition slave_mode :: "string \<Rightarrow> slave_kind option" where
  "slave_mode main_clock_mode =
     (if main_clock_mode = ''slave_master_on_demand'' then Some Interpolating
      else if main_clock_mode = ''slave_master_on_demand_discrete'' then Some Discrete_Slave
      else None)"

definition sync_cycle_time :: "int \<Rightarrow> int" where
  "sync_cycle_time configured = (if configured = 0 then 1000 else configured)"

text \<open>\<open>initializing\<close>: a slave clock with the given identity is made when the main clock asks for one, and registered; a slave
  clock of an earlier initialisation is registered again.\<close>

record sync_service =
  slave_clock :: "(slave_kind \<times> clock_ref) option"

definition initializing :: "string \<Rightarrow> nat \<Rightarrow> sync_service \<times> clock_service \<Rightarrow> fep_result \<times> sync_service \<times> clock_service" where
  "initializing master_name fresh sc =
     (let (ss, cs) = sc; mode = main_clock_property cs
      in if slave_mode mode \<noteq> None \<and> master_name = [] then (ERR_INVALID_ARG, ss, cs)
         else
           let ss = (case slave_mode mode of Some k \<Rightarrow> ss\<lparr>slave_clock := Some (k, mode, fresh)\<rparr> | None \<Rightarrow> ss)
           in case slave_clock ss of
                None \<Rightarrow> (ERR_NOERROR, ss, cs)
              | Some (k, c) \<Rightarrow>
                  let (r, cs) = registerClock c cs in if isFailed r then (r, ss, cs) else (ERR_NOERROR, ss, cs))"

definition deinitializing :: "sync_service \<times> clock_service \<Rightarrow> fep_result \<times> sync_service \<times> clock_service" where
  "deinitializing sc =
     (let (ss, cs) = sc
      in case slave_clock ss of
           None \<Rightarrow> (ERR_NOERROR, ss, cs)
         | Some (k, c) \<Rightarrow> (ERR_NOERROR, ss\<lparr>slave_clock := None\<rparr>, snd (unregisterClock (fst c) cs)))"

section \<open>No clock is used after it is gone\<close>

lemma find_Some: "List.find P xs = Some x \<Longrightarrow> x \<in> set xs \<and> P x"
  by (induction xs) (auto split: if_splits)

lemma find_None: "List.find P xs = None \<longleftrightarrow> (\<forall>x \<in> set xs. \<not> P x)"
  by (induction xs) auto

lemma erase_clock_Some:
  "erase_clock name cs = Some rest \<Longrightarrow> distinct (map fst cs) \<Longrightarrow>
   rest = filter (\<lambda>c. fst c \<noteq> name) cs"
proof (induction cs arbitrary: rest)
  case (Cons c cs)
  show ?case
  proof (cases "fst c = name")
    case True
    then have "\<forall>x \<in> set cs. fst x \<noteq> name" using Cons.prems(2) by (metis distinct.simps(2) image_eqI list.set_map list.simps(9))
    then show ?thesis using Cons.prems True by (auto simp: filter_id_conv)
  next
    case False
    then show ?thesis using Cons by (auto simp: map_option_case split: option.splits)
  qed
qed simp

lemma erase_clock_None: "erase_clock name cs = None \<longleftrightarrow> (\<forall>c \<in> set cs. fst c \<noteq> name)"
  by (induction cs) (auto simp: map_option_case split: option.splits)

definition service_inv :: "clock_service \<Rightarrow> bool" where
  "service_inv cs \<longleftrightarrow> distinct (map fst (registered_clocks cs)) \<and>
     (current_clock cs = local_system_real_clock \<or> current_clock cs \<in> set (registered_clocks cs))"

lemma new_service_inv: "service_inv new_clock_service"
  unfolding service_inv_def by code_simp

lemma registerClock_inv:
  "service_inv cs \<Longrightarrow> service_inv (snd (registerClock c cs)) \<and> current_clock (snd (registerClock c cs)) = current_clock cs \<and>
    set (registered_clocks (snd (registerClock c cs))) \<subseteq> insert c (set (registered_clocks cs))"
  by (auto simp: registerClock_def service_inv_def findClock_def find_None split: option.splits)

lemma unregisterClock_result:
  assumes "service_inv cs"
  shows "registered_clocks (snd (unregisterClock name cs)) =
      (if service_started cs then registered_clocks cs else filter (\<lambda>c. fst c \<noteq> name) (registered_clocks cs))"
    "current_clock (snd (unregisterClock name cs)) =
      (if \<not> service_started cs \<and> fst (current_clock cs) = name then local_system_real_clock else current_clock cs)"
proof -
  consider "erase_clock name (registered_clocks cs) = None" "\<forall>c \<in> set (registered_clocks cs). fst c \<noteq> name"
    | "erase_clock name (registered_clocks cs) = Some (filter (\<lambda>c. fst c \<noteq> name) (registered_clocks cs))"
    using erase_clock_None erase_clock_Some assms by (cases "erase_clock name (registered_clocks cs)") (auto simp: service_inv_def)
  then have "registered_clocks (snd (unregisterClock name cs)) =
      (if service_started cs then registered_clocks cs else filter (\<lambda>c. fst c \<noteq> name) (registered_clocks cs)) \<and>
     current_clock (snd (unregisterClock name cs)) =
      (if \<not> service_started cs \<and> fst (current_clock cs) = name then local_system_real_clock else current_clock cs)"
  proof cases
    case 1
    then have "filter (\<lambda>c. fst c \<noteq> name) (registered_clocks cs) = registered_clocks cs" by (simp add: filter_id_conv)
    then show ?thesis using 1 assms by (auto simp: unregisterClock_def unregisterClockUnlocked_def service_inv_def)
  qed (simp add: unregisterClock_def unregisterClockUnlocked_def)
  then show "registered_clocks (snd (unregisterClock name cs)) =
      (if service_started cs then registered_clocks cs else filter (\<lambda>c. fst c \<noteq> name) (registered_clocks cs))"
    "current_clock (snd (unregisterClock name cs)) =
      (if \<not> service_started cs \<and> fst (current_clock cs) = name then local_system_real_clock else current_clock cs)" by auto
qed

lemma unregisterClock_inv:
  assumes "service_inv cs"
  shows "service_inv (snd (unregisterClock name cs))"
  using assms by (auto simp: service_inv_def unregisterClock_result [OF assms] distinct_map inj_on_def)

lemma setMainClock_inv:
  assumes "service_inv cs"
  shows "service_inv (snd (setMainClock name cs))" "registered_clocks (snd (setMainClock name cs)) = registered_clocks cs"
    "current_clock (snd (setMainClock name cs)) \<in> {current_clock cs, local_system_real_clock} \<union> set (registered_clocks cs)"
  using assms by (auto simp: setMainClock_def service_inv_def findClock_def split: option.splits dest: find_Some)

lemma ready_setMainClock:
  "snd (ready cs) = (if main_clock_property cs \<noteq> fst (current_clock cs) then snd (setMainClock (main_clock_property cs) cs) else cs)"
  by (simp add: ready_def case_prod_beta Let_def)

text \<open>The operations of a participant on its clocks; the last part of the state lists the clocks that are destroyed.\<close>

datatype service_op =
    Op_Register clock_ref
  | Op_Unregister string
  | Op_SetMain string
  | Op_Property string
  | Op_Ready
  | Op_Start
  | Op_Stop
  | Op_Initializing string nat
  | Op_Deinitializing

type_synonym service_state = "sync_service \<times> clock_service \<times> clock_ref list"

fun service_step :: "service_op \<Rightarrow> service_state \<Rightarrow> service_state" where
  "service_step (Op_Register c) (ss, cs, dead) = (ss, snd (registerClock c cs), dead)"
| "service_step (Op_Unregister name) (ss, cs, dead) = (ss, snd (unregisterClock name cs), dead)"
| "service_step (Op_SetMain name) (ss, cs, dead) = (ss, snd (setMainClock name cs), dead)"
| "service_step (Op_Property name) (ss, cs, dead) = (ss, cs\<lparr>main_clock_property := name\<rparr>, dead)"
| "service_step Op_Ready (ss, cs, dead) = (ss, snd (ready cs), dead)"
| "service_step Op_Start (ss, cs, dead) = (ss, start cs, dead)"
| "service_step Op_Stop (ss, cs, dead) = (ss, stop cs, dead)"
| "service_step (Op_Initializing master fresh) (ss, cs, dead) =
     (let (r, ss', cs') = initializing master fresh (ss, cs)
      in (ss', cs', (if slave_clock ss' = slave_clock ss then [] else map snd (case slave_clock ss of None \<Rightarrow> [] | Some c \<Rightarrow> [c])) @ dead))"
| "service_step Op_Deinitializing (ss, cs, dead) =
     (let (r, ss', cs') = deinitializing (ss, cs)
      in (ss', cs', map snd (case slave_clock ss of None \<Rightarrow> [] | Some c \<Rightarrow> [c]) @ dead))"

text \<open>
  Clocks are told apart by their identities: a new clock is none that is there or is gone, and whoever registers a clock keeps
  it until it is unregistered. The clock service is stopped before the synchronisation is deinitialised (\<open>deinitializing\<close> follows
  \<open>stop\<close> in the module). Nothing keeps a service from being initialised again: the slave clock that is there is then replaced.
\<close>

fun service_allowed :: "service_op \<Rightarrow> service_state \<Rightarrow> bool" where
  "service_allowed (Op_Register c) (ss, cs, dead) \<longleftrightarrow> c \<notin> set dead"
| "service_allowed (Op_Initializing master fresh) (ss, cs, dead) \<longleftrightarrow>
     (main_clock_property cs, fresh) \<notin> set dead \<union> snd ` set_option (slave_clock ss)"
| "service_allowed Op_Deinitializing (ss, cs, dead) \<longleftrightarrow> \<not> service_started cs"
| "service_allowed _ _ \<longleftrightarrow> True"

fun replaced_by :: "service_op \<Rightarrow> service_state \<Rightarrow> clock_ref list" where
  "replaced_by (Op_Initializing master fresh) (ss, cs, dead) =
     (case slave_clock ss of
        Some (k, c) \<Rightarrow> if slave_mode (main_clock_property cs) \<noteq> None \<and> master \<noteq> [] then [c] else []
      | None \<Rightarrow> [])"
| "replaced_by _ _ = []"

inductive service_reach :: "service_state \<Rightarrow> clock_ref list \<Rightarrow> bool" where
  service_new: "service_reach (\<lparr>slave_clock = None\<rparr>, create new_clock_service, []) []"
| service_next: "service_reach st replaced \<Longrightarrow> service_allowed op st \<Longrightarrow> service_reach (service_step op st) (replaced_by op st @ replaced)"

definition alive_inv :: "service_state \<Rightarrow> clock_ref list \<Rightarrow> bool" where
  "alive_inv st replaced = (case st of (ss, cs, dead) \<Rightarrow>
     service_inv cs \<and> set (registered_clocks cs) \<inter> set dead \<subseteq> set replaced \<and> (\<forall>c \<in> set dead. slave_mode (fst c) \<noteq> None) \<and>
     (case slave_clock ss of None \<Rightarrow> True | Some (k, c) \<Rightarrow> slave_mode (fst c) \<noteq> None \<and> c \<notin> set dead))"

lemma initializing_cases:
  "initializing master fresh (ss, cs) =
     (if slave_mode (main_clock_property cs) = None
      then (case slave_clock ss of None \<Rightarrow> (ERR_NOERROR, ss, cs) | Some (k, c) \<Rightarrow> (let (r, cs') = registerClock c cs in (r, ss, cs')))
      else if master = [] then (ERR_INVALID_ARG, ss, cs)
      else (let (r, cs') = registerClock (main_clock_property cs, fresh) cs
            in (r, ss\<lparr>slave_clock := Some (the (slave_mode (main_clock_property cs)), main_clock_property cs, fresh)\<rparr>, cs')))"
  by (auto simp: initializing_def Let_def case_prod_beta split: option.splits)

lemma alive_initializing:
  assumes "alive_inv (ss, cs, dead) replaced" "service_allowed (Op_Initializing master fresh) (ss, cs, dead)"
  shows "alive_inv (service_step (Op_Initializing master fresh) (ss, cs, dead)) (replaced_by (Op_Initializing master fresh) (ss, cs, dead) @ replaced)"
proof -
  have inv: "service_inv cs" using assms(1) by (simp add: alive_inv_def)
  let ?new = "(main_clock_property cs, fresh)"
  consider "slave_mode (main_clock_property cs) = None" "slave_clock ss = None"
    | k c where "slave_mode (main_clock_property cs) = None" "slave_clock ss = Some (k, c)"
    | "slave_mode (main_clock_property cs) \<noteq> None" "master = []"
    | "slave_mode (main_clock_property cs) \<noteq> None" "master \<noteq> []" "slave_clock ss = None"
    | k c where "slave_mode (main_clock_property cs) \<noteq> None" "master \<noteq> []" "slave_clock ss = Some (k, c)"
    by (metis not_None_eq prod.exhaust_sel)
  then show ?thesis
  proof cases
    case 1
    then show ?thesis using assms(1) by (simp add: initializing_cases)
  next
    case 2
    then show ?thesis using assms(1) registerClock_inv [OF inv, of c]
      by (auto simp: initializing_cases alive_inv_def Let_def case_prod_beta)
  next
    case 3
    then show ?thesis using assms(1) by (auto simp: initializing_cases split: option.split)
  next
    case 4
    then show ?thesis using assms registerClock_inv [OF inv, of ?new]
      by (auto simp: initializing_cases alive_inv_def Let_def case_prod_beta)
  next
    case 5
    then show ?thesis using assms registerClock_inv [OF inv, of ?new]
      by (auto simp: initializing_cases alive_inv_def Let_def case_prod_beta)
  qed
qed

lemma alive_step:
  assumes "alive_inv (ss, cs, dead) replaced" "service_allowed op (ss, cs, dead)"
  shows "alive_inv (service_step op (ss, cs, dead)) (replaced_by op (ss, cs, dead) @ replaced)"
proof -
  have inv: "service_inv cs" using assms(1) by (simp add: alive_inv_def)
  show ?thesis
  proof (cases op)
    case (Op_Register c)
    then show ?thesis using assms registerClock_inv [OF inv, of c] by (auto simp: alive_inv_def)
  next
    case (Op_Unregister name)
    then show ?thesis using assms unregisterClock_inv [OF inv, of name] by (auto simp: alive_inv_def unregisterClock_result [OF inv])
  next
    case (Op_SetMain name)
    then show ?thesis using assms setMainClock_inv [OF inv, of name] by (auto simp: alive_inv_def)
  next
    case Op_Ready
    then show ?thesis using assms setMainClock_inv [OF inv, of "main_clock_property cs"] by (auto simp: alive_inv_def ready_setMainClock)
  next
    case (Op_Initializing master fresh)
    then show ?thesis using alive_initializing [OF assms(1)] assms(2) by simp
  next
    case Op_Deinitializing
    show ?thesis
    proof (cases "slave_clock ss")
      case None
      then show ?thesis using assms by (simp add: Op_Deinitializing deinitializing_def alive_inv_def)
    next
      case (Some kc)
      obtain k c where kc: "kc = (k, c)" by (cases kc)
      show ?thesis using assms unregisterClock_inv [OF inv, of "fst c"] Some
        by (auto simp: Op_Deinitializing kc deinitializing_def alive_inv_def unregisterClock_result [OF inv])
    qed
  qed (use assms in \<open>auto simp: alive_inv_def service_inv_def start_def stop_def\<close>)
qed

lemma reach_alive: "service_reach st replaced \<Longrightarrow> alive_inv st replaced"
proof (induction rule: service_reach.induct)
  case service_new
  then show ?case using new_service_inv by (simp add: alive_inv_def create_def service_inv_def)
next
  case (service_next st replaced op)
  then show ?case using alive_step [of "fst st" "fst (snd st)" "snd (snd st)" replaced op] by simp
qed

text \<open>When the clock service holds a clock that is destroyed: along every sequence of operations on the clocks of a participant
  the names of the registered clocks are distinct, the current clock is one of them or the real-time clock of the system, and a
  destroyed clock is only registered or current if it was a slave clock that the synchronisation service has replaced when it
  was initialised a second time without being deinitialised. (This the state machine of a participant can do; see
  \<open>second_initialisation_dangles\<close>.) Whoever registers a clock has to keep it until it is unregistered, and the service is
  deinitialised only when the clock service has been stopped.\<close>
theorem no_dangling_clock:
  assumes "service_reach (ss, cs, dead) replaced"
  shows "distinct (getClockList cs) \<and> set (registered_clocks cs) \<inter> set dead \<subseteq> set replaced \<and>
    (current_clock cs \<in> set dead \<longrightarrow> current_clock cs \<in> set replaced) \<and>
    (current_clock cs = local_system_real_clock \<or> findClock (fst (current_clock cs)) cs = Some (current_clock cs))"
proof -
  have inv: "alive_inv (ss, cs, dead) replaced" using reach_alive [OF assms] .
  have "findClock (fst (current_clock cs)) cs = Some (current_clock cs)" if "current_clock cs \<in> set (registered_clocks cs)"
  proof (cases "findClock (fst (current_clock cs)) cs")
    case None
    then show ?thesis using that by (auto simp: findClock_def find_None)
  next
    case (Some c)
    then show ?thesis using that inv find_Some [OF Some [unfolded findClock_def]]
      by (auto simp: alive_inv_def service_inv_def distinct_map inj_on_def)
  qed
  moreover have "local_system_real_clock \<notin> set dead"
    using inv by (auto simp: alive_inv_def local_system_real_clock_def slave_mode_def)
  ultimately show ?thesis using inv by (auto simp: alive_inv_def service_inv_def getClockList_def)
qed

definition demo_service :: "service_state" where
  "demo_service = fold service_step
     [Op_Property ''slave_master_on_demand'', Op_Initializing ''m'' 7, Op_Ready, Op_Start, Op_Stop, Op_Deinitializing]
     (\<lparr>slave_clock = None\<rparr>, create new_clock_service, [])"

lemma demo_service_eq:
  "demo_service = (\<lparr>slave_clock = None\<rparr>,
     \<lparr>registered_clocks = [local_system_real_clock, local_system_sim_clock], current_clock = local_system_real_clock,
      service_started = False, main_clock_property = ''slave_master_on_demand''\<rparr>, [(''slave_master_on_demand'', 7)])"
  by code_simp

theorem no_dangling_clock_witness:
  "service_reach demo_service [] \<and> current_clock (fst (snd demo_service)) \<notin> set (snd (snd demo_service))"
proof
  have step: "service_reach st [] \<Longrightarrow> service_allowed op st \<Longrightarrow> replaced_by op st = [] \<Longrightarrow> service_reach (service_step op st) []" for st op
    using service_next [of st "[]" op] by simp
  show "service_reach demo_service []"
    unfolding demo_service_def fold.simps o_apply id_apply
    by (rule step | rule service_new | code_simp)+
  then show "current_clock (fst (snd demo_service)) \<notin> set (snd (snd demo_service))"
    using no_dangling_clock [of "fst demo_service" "fst (snd demo_service)" "snd (snd demo_service)" "[]"] by simp
qed

text \<open>Unregistering a clock that is not registered is reported as a success.\<close>

lemma unregister_unknown_succeeds:
  "\<not> service_started cs \<Longrightarrow> findClock name cs = None \<Longrightarrow> unregisterClock name cs = (ERR_NOERROR, cs)"
  using erase_clock_None [of name "registered_clocks cs"]
  by (simp add: unregisterClock_def unregisterClockUnlocked_def findClock_def find_None)

text \<open>The master is always the last sink, so that the sinks of a participant are told before its slaves.\<close>

lemma master_is_last_sink:
  "sink \<noteq> clock_master \<Longrightarrow> distinct sinks \<Longrightarrow> last (registerEventSink clock_master sink sinks) = clock_master"
  by (auto simp: registerEventSink_def registerSink_def unregisterSink_def)

section \<open>A discrete clock and its slave\<close>

text \<open>
  The clock of a master runs a sequence of operations. Each event goes to the slaves, and the calls that arrive at the
  slave \<open>name\<close> are served there before the next event.
\<close>

definition serve :: "(int \<Rightarrow> string) \<Rightarrow> (string \<Rightarrow> int) \<Rightarrow> string \<Rightarrow> sync_call list \<Rightarrow> discrete_slave \<Rightarrow> discrete_slave \<times> shown_event list" where
  "serve fmt prs name calls s =
     fold (\<lambda>(n, event_id, new_time, old_time) (s, es).
        if n = name then (let (_, s, es') = syncTimeEvent fmt prs event_id new_time old_time s in (s, es @ es')) else (s, es)) calls (s, [])"

definition pass_on ::
  "(int \<Rightarrow> string) \<Rightarrow> (string \<Rightarrow> int) \<Rightarrow> string set \<Rightarrow> string \<Rightarrow> shown_event \<Rightarrow>
   slaves \<times> discrete_slave \<times> shown_event list \<Rightarrow> slaves \<times> discrete_slave \<times> shown_event list" where
  "pass_on fmt prs reach name e st =
     (let (sls, s, es) = st;
          (sls, calls) = notify_slaves fmt reach (snd e) sls;
          (s, es') = serve fmt prs name calls s
      in (sls, s, es @ es'))"

definition run_master ::
  "(int \<Rightarrow> string) \<Rightarrow> (string \<Rightarrow> int) \<Rightarrow> string set \<Rightarrow> string \<Rightarrow> clock_op list \<Rightarrow> clock \<Rightarrow> slaves \<times> discrete_slave \<Rightarrow>
   slaves \<times> discrete_slave \<times> shown_event list" where
  "run_master fmt prs reach name xs c st =
     fold (pass_on fmt prs reach name) (snd (run_clock discrete_op xs c)) (fst st, snd st, [])"

text \<open>The slave is registered and hears what it asked for.\<close>

definition hears :: "string \<Rightarrow> bool \<Rightarrow> slaves \<Rightarrow> bool" where
  "hears name before_after sls \<longleftrightarrow>
     distinct (map fst sls) \<and> (\<exists>sl. map_of sls name = Some sl \<and> event_id_flag sl = getEventIDFlags before_after)"

lemma flags_set:
  "event_id_flag sl = getEventIDFlags b \<Longrightarrow> isSet 1 sl = b \<and> isSet 2 sl \<and> isSet 4 sl = b \<and> isSet 8 sl"
  by (cases b) (simp_all add: isSet_def getEventIDFlags_def)

lemma registered_slave_hears:
  assumes "sm_wf sls"
  shows "hears name b (snd (registerSyncSlave (getEventIDFlags b) name sls))"
proof -
  let ?sls = "snd (registerSyncSlave (getEventIDFlags b) name sls)"
  have "sm_wf ?sls" using assms by (simp add: registerSyncSlave_def registerSlave_def split: option.splits)
  moreover have "\<exists>sl. map_of ?sls name = Some sl \<and> event_id_flag sl = getEventIDFlags b"
    using assms by (simp add: registerSyncSlave_def registerSlave_def map_of_sm_assign split: option.splits)
  ultimately show ?thesis by (simp only: hears_def sm_wf_distinct simp_thms)
qed

lemma filter_one:
  "distinct (map fst xs) \<Longrightarrow> map_of xs k = Some v \<Longrightarrow> filter (\<lambda>(n, x). n = k \<and> P x) xs = (if P v then [(k, v)] else [])"
proof (induction xs)
  case (Cons x xs)
  obtain a w where x: "x = (a, w)" by (cases x)
  show ?case
  proof (cases "a = k")
    case True
    then have "\<forall>y \<in> set xs. fst y \<noteq> k" using Cons.prems(1) by (metis x distinct.simps(2) fst_conv image_eqI list.set_map list.simps(9))
    then have "filter (\<lambda>(n, x). n = k \<and> P x) xs = []" by (auto simp: filter_empty_conv)
    then show ?thesis using Cons.prems True by (simp add: x)
  next
    case False
    then show ?thesis using Cons by (simp add: x)
  qed
qed simp

text \<open>Serving the calls is serving those to the slave; there is at most one.\<close>

lemma serve_filter: "serve fmt prs name calls s = serve fmt prs name (filter (\<lambda>(n, _). n = name) calls) s"
proof -
  have "fold (\<lambda>(n, event_id, new_time, old_time) (s, es).
        if n = name then (let (_, s, es') = syncTimeEvent fmt prs event_id new_time old_time s in (s, es @ es')) else (s, es)) calls st =
    fold (\<lambda>(n, event_id, new_time, old_time) (s, es).
        if n = name then (let (_, s, es') = syncTimeEvent fmt prs event_id new_time old_time s in (s, es @ es')) else (s, es))
      (filter (\<lambda>(n, _). n = name) calls) st" for st
    by (induction calls arbitrary: st) auto
  then show ?thesis by (simp add: serve_def)
qed

lemma hears_notify:
  assumes "hears name b sls" "name \<in> reach"
  shows "hears name b (fst (notify_slaves fmt reach e sls))"
    "filter (\<lambda>(n, _). n = name) (snd (notify_slaves fmt reach e sls)) =
       (case master_call e of None \<Rightarrow> []
        | Some (flag, i, new, old) \<Rightarrow> if flag = 2 \<or> flag = 8 \<or> b then [(name, i, fmt new, fmt old)] else [])"
proof -
  obtain sl where sl: "map_of sls name = Some sl" "event_id_flag sl = getEventIDFlags b" "distinct (map fst sls)"
    using assms(1) by (auto simp: hears_def)
  note set = flags_set [OF sl(2)]
  have "map fst (fst (notify_slaves fmt reach e sls)) = map fst sls"
    by (auto simp: notify_slaves_def comp_def case_prod_beta split: option.splits)
  moreover have "\<exists>sl'. map_of (fst (notify_slaves fmt reach e sls)) name = Some sl' \<and> event_id_flag sl' = getEventIDFlags b"
    using sl by (auto simp: notify_slaves_def map_of_map_values split: option.splits)
  ultimately show "hears name b (fst (notify_slaves fmt reach e sls))" using sl by (simp add: hears_def)
  have one: "filter (\<lambda>x. case x of (n, sl) \<Rightarrow> n = name \<and> isSet flag sl) sls = (if isSet flag sl then [(name, sl)] else [])" for flag
    using filter_one [OF sl(3,1), of "isSet flag"] by simp
  have eq: "filter (\<lambda>(n, _). n = name) (map (\<lambda>(n, sl). (n, i, x, y)) (filter (\<lambda>(n, sl). isSet flag sl \<and> n \<in> reach) sls)) =
      (if isSet flag sl then [(name, i, x, y)] else [])" for flag and i :: int and x y :: string
  proof -
    have "filter (\<lambda>(n, _). n = name) (map (\<lambda>(n, sl). (n, i, x, y)) (filter (\<lambda>(n, sl). isSet flag sl \<and> n \<in> reach) sls)) =
        map (\<lambda>(n, sl). (n, i, x, y)) (filter (\<lambda>(n, sl). n = name \<and> isSet flag sl) sls)"
      using assms(2) by (auto simp: filter_map filter_filter comp_def case_prod_beta intro!: arg_cong [where f = "map _"] filter_cong)
    then show ?thesis by (simp add: one)
  qed
  show "filter (\<lambda>(n, _). n = name) (snd (notify_slaves fmt reach e sls)) =
       (case master_call e of None \<Rightarrow> []
        | Some (flag, i, new, old) \<Rightarrow> if flag = 2 \<or> flag = 8 \<or> b then [(name, i, fmt new, fmt old)] else [])"
    using set by (cases e) (simp_all add: notify_slaves_def eq)
qed

text \<open>What one event of the master does at a slave that hears what it asked for.\<close>

fun slave_hears :: "clock_event \<Rightarrow> discrete_slave \<Rightarrow> discrete_slave \<times> shown_event list" where
  "slave_hears (TimeUpdateBegin old_time new_time) s =
     (if beforeAndAfterEvent s then snd (masterTimeEvent timeUpdateBefore new_time old_time s) else (s, []))"
| "slave_hears (TimeUpdating new_time) s = snd (masterTimeEvent timeUpdating new_time 0 s)"
| "slave_hears (TimeUpdateEnd new_time) s =
     (if beforeAndAfterEvent s then snd (masterTimeEvent timeUpdateAfter new_time 0 s) else (s, []))"
| "slave_hears (TimeResetBegin old_time new_time) s = snd (masterTimeEvent timeReset new_time old_time s)"
| "slave_hears (TimeResetEnd new_time) s = (s, [])"

fun slave_run :: "shown_event list \<Rightarrow> discrete_slave \<Rightarrow> discrete_slave \<times> shown_event list" where
  "slave_run [] s = (s, [])"
| "slave_run (e # es) s = (let (s, es1) = slave_hears (snd e) s; (s, es2) = slave_run es s in (s, es1 @ es2))"

lemma slave_run_append:
  "slave_run (es @ es') s = (let (s, es1) = slave_run es s; (s, es2) = slave_run es' s in (s, es1 @ es2))"
  by (induction es arbitrary: s) (simp_all add: case_prod_beta Let_def)

lemma slave_hears_flag: "beforeAndAfterEvent (fst (slave_hears e s)) = beforeAndAfterEvent s"
  by (cases e) (simp_all add: masterTimeEvent_def case_prod_beta Let_def)

lemma pass_on_hears:
  assumes "hears name (beforeAndAfterEvent s) sls" "name \<in> reach" "\<And>n. prs (fmt n) = n"
  shows "pass_on fmt prs reach name e (sls, s, es) =
    (fst (notify_slaves fmt reach (snd e) sls), fst (slave_hears (snd e) s), es @ snd (slave_hears (snd e) s))"
proof -
  have "serve fmt prs name (snd (notify_slaves fmt reach (snd e) sls)) s = slave_hears (snd e) s"
    by (subst serve_filter, subst hears_notify(2) [OF assms(1,2)])
      (cases "snd e"; simp add: serve_def syncTimeEvent_def assms(3) case_prod_beta Let_def)
  then show ?thesis by (simp add: pass_on_def case_prod_beta Let_def)
qed

lemma pass_on_run:
  assumes "hears name (beforeAndAfterEvent s) sls" "name \<in> reach" "\<And>n. prs (fmt n) = n"
  shows "snd (fold (pass_on fmt prs reach name) evs (sls, s, es)) = (fst (slave_run evs s), es @ snd (slave_run evs s))"
  using assms(1)
proof (induction evs arbitrary: sls s es)
  case (Cons e evs)
  have "hears name (beforeAndAfterEvent (fst (slave_hears (snd e) s))) (fst (notify_slaves fmt reach (snd e) sls))"
    using hears_notify(1) [OF Cons.prems assms(2)] by (simp add: slave_hears_flag)
  from Cons.IH [OF this] show ?case
    by (simp add: pass_on_hears [OF Cons.prems assms(2,3)] case_prod_beta Let_def)
qed simp

subsection \<open>The slave shows what its master shows\<close>

text \<open>Operations that move the clock of the master forward or reset it. A slave that does not ask for the events around an
  update makes them itself, so the master has to send them, too.\<close>

fun forwards :: "bool \<Rightarrow> clock_op list \<Rightarrow> clock \<Rightarrow> bool" where
  "forwards b [] c \<longleftrightarrow> True"
| "forwards b (x # xs) c \<longleftrightarrow>
     (case x of Do_Stop \<Rightarrow> False | Do_SetNewTime t around \<Rightarrow> current_time c \<le> t \<and> (around \<or> b) | _ \<Rightarrow> True) \<and>
     forwards b xs (fst (discrete_op x c))"

text \<open>A reset from 0 to 0 is not passed on.\<close>

fun heard :: "shown_event list \<Rightarrow> shown_event list" where
  "heard ((x, TimeResetBegin a b) # (y, TimeResetEnd d) # es) =
     (if a = b then heard es else (x, TimeResetBegin a b) # (y, TimeResetEnd d) # heard es)"
| "heard (e # es) = e # heard es"
| "heard [] = []"

definition in_step :: "clock \<Rightarrow> discrete_slave \<Rightarrow> bool" where
  "in_step c s \<longleftrightarrow> has_sink c \<and> clock_updated c \<and> has_sink (sl_clock s) \<and> clock_updated (sl_clock s) \<and>
     current_time (sl_clock s) = current_time c"

lemma slave_run_reset:
  assumes "in_step c s"
  shows "in_step (c\<lparr>current_time := 0, clock_updated := True\<rparr>) (fst (slave_run [(t, TimeResetBegin (current_time c) 0), (0, TimeResetEnd 0)] s)) \<and>
    snd (slave_run [(t, TimeResetBegin (current_time c) 0), (0, TimeResetEnd 0)] s) =
      (if current_time c = 0 then [] else [(current_time c, TimeResetBegin (current_time c) 0), (0, TimeResetEnd 0)])"
  using assms by (simp add: in_step_def masterTimeEvent_def discrete_reset_def setResetTime_result case_prod_beta Let_def)

lemma slave_run_update:
  assumes "in_step c s" "current_time c \<le> t" "around \<or> beforeAndAfterEvent s"
  shows "in_step (c\<lparr>current_time := t, clock_updated := True\<rparr>) (fst (slave_run (snd (discrete_setNewTime t around c)) s)) \<and>
    snd (slave_run (snd (discrete_setNewTime t around c)) s) = snd (discrete_setNewTime t around c)"
  using assms by (auto simp: in_step_def masterTimeEvent_def discrete_setNewTime_result slave_emit_def case_prod_beta Let_def)

lemma slave_run_flag: "beforeAndAfterEvent (fst (slave_run es s)) = beforeAndAfterEvent s"
  by (induction es arbitrary: s) (simp_all add: case_prod_beta Let_def slave_hears_flag)

lemma slave_run_op:
  assumes "in_step c s" "case x of Do_Stop \<Rightarrow> False | Do_SetNewTime t around \<Rightarrow> current_time c \<le> t \<and> (around \<or> beforeAndAfterEvent s) | _ \<Rightarrow> True"
  shows "in_step (fst (discrete_op x c)) (fst (slave_run (snd (discrete_op x c)) s))"
    "heard (snd (discrete_op x c) @ es) = snd (slave_run (snd (discrete_op x c)) s) @ heard es"
proof -
  have reset: "discrete_reset c' = (c'\<lparr>current_time := 0, clock_updated := True\<rparr>,
      [(current_time c', TimeResetBegin (current_time c') 0), (0, TimeResetEnd 0)])" if "has_sink c'" for c'
    using that by (cases c') (simp add: discrete_reset_def setResetTime_result)
  have sink: "has_sink c" using assms(1) by (simp add: in_step_def)
  have start: "discrete_start c = (c\<lparr>clock_started := True, current_time := 0, clock_updated := True\<rparr>,
      [(current_time c, TimeResetBegin (current_time c) 0), (0, TimeResetEnd 0)])"
    using reset [of "base_start c"] sink by (cases c) (simp add: discrete_start_def base_start_def)
  have "in_step (fst (discrete_op x c)) (fst (slave_run (snd (discrete_op x c)) s)) \<and>
    heard (snd (discrete_op x c) @ es) = snd (slave_run (snd (discrete_op x c)) s) @ heard es"
  proof (cases x)
    case (Do_SetNewTime t around)
    have "heard (snd (discrete_setNewTime t around c) @ es) = snd (discrete_setNewTime t around c) @ heard es"
      using assms by (simp add: Do_SetNewTime discrete_setNewTime_result in_step_def)
    then show ?thesis using slave_run_update [OF assms(1), of t around] assms(2)
      by (simp add: Do_SetNewTime discrete_setNewTime_result)
  next
    case (Do_Start t)
    then show ?thesis using slave_run_reset [OF assms(1), where t = "current_time c"] by (simp add: start in_step_def)
  next
    case (Do_Reset t)
    then show ?thesis using slave_run_reset [OF assms(1), where t = "current_time c"] by (simp add: reset [OF sink])
  qed (use assms in simp)
  then show "in_step (fst (discrete_op x c)) (fst (slave_run (snd (discrete_op x c)) s))"
    "heard (snd (discrete_op x c) @ es) = snd (slave_run (snd (discrete_op x c)) s) @ heard es" by blast+
qed

lemma slave_run_clock:
  "in_step c s \<Longrightarrow> forwards (beforeAndAfterEvent s) xs c \<Longrightarrow>
   in_step (fst (run_clock discrete_op xs c)) (fst (slave_run (snd (run_clock discrete_op xs c)) s)) \<and>
   snd (slave_run (snd (run_clock discrete_op xs c)) s) = heard (snd (run_clock discrete_op xs c))"
proof (induction xs arbitrary: c s)
  case (Cons x xs)
  let ?c = "fst (discrete_op x c)" and ?s = "fst (slave_run (snd (discrete_op x c)) s)"
  note op = slave_run_op(1) [OF Cons.prems(1), of x] slave_run_op(2) [OF Cons.prems(1), of x "snd (run_clock discrete_op xs ?c)"]
  have "in_step ?c ?s" using op(1) Cons.prems(2) by simp
  moreover have "forwards (beforeAndAfterEvent ?s) xs ?c" using Cons.prems(2) by (simp add: slave_run_flag)
  ultimately have "in_step (fst (run_clock discrete_op xs ?c)) (fst (slave_run (snd (run_clock discrete_op xs ?c)) ?s)) \<and>
      snd (slave_run (snd (run_clock discrete_op xs ?c)) ?s) = heard (snd (run_clock discrete_op xs ?c))" by (rule Cons.IH)
  then show ?case using op(2) Cons.prems(2) by (simp add: slave_run_append case_prod_beta Let_def)
qed (simp)

text \<open>C29: A slave in step with its master: as long as the clock of the master goes forward or is reset to 0, the sinks of the
  slave are told exactly what the sinks of the master are told, the resets from 0 to 0 aside, and both clocks show the
  same time after every operation. The slave is registered at the master for the events it asks for, every call arrives, the
  transport keeps the times as they are, and both have a sink and have been read before. If the slave does not ask for the
  events around an update, it makes them itself: then the master has to send them with every update, too, or the slave tells
  its sinks more than the master does. The clock of the master is not stopped meanwhile.\<close>
theorem slave_follows_master:
  assumes "hears name (beforeAndAfterEvent s) sls" "name \<in> reach" "\<And>n. prs (fmt n) = n"
    and "in_step c s" "forwards (beforeAndAfterEvent s) xs c"
  shows "snd (snd (run_master fmt prs reach name xs c (sls, s))) = heard (snd (run_clock discrete_op xs c)) \<and>
    current_time (sl_clock (fst (snd (run_master fmt prs reach name xs c (sls, s))))) = current_time (fst (run_clock discrete_op xs c))"
  using pass_on_run [OF assms(1-3), of "snd (run_clock discrete_op xs c)" "[]"] slave_run_clock [OF assms(4,5)]
  by (simp_all add: run_master_def in_step_def)

definition tally :: "int \<Rightarrow> string" where
  "tally n = (if n < 0 then CHR ''-'' # replicate (nat (- n)) (CHR ''1'') else replicate (nat n) (CHR ''1''))"

definition count_tally :: "string \<Rightarrow> int" where
  "count_tally s = (case s of CHR ''-'' # s' \<Rightarrow> - int (length s') | _ \<Rightarrow> int (length s))"

lemma count_tally: "count_tally (tally n) = n"
  by (cases "nat n") (auto simp: tally_def count_tally_def)

definition demo_slave :: discrete_slave where
  "demo_slave = \<lparr>sl_clock = demo_clock, beforeAndAfterEvent = False\<rparr>"

theorem slave_follows_master_witness:
  "snd (snd (run_master tally count_tally UNIV ''a'' [Do_SetNewTime 9 True, Do_Reset 0] demo_clock
      (snd (registerSyncSlave (getEventIDFlags False) ''a'' []), demo_slave))) =
    [(5, TimeUpdateBegin 5 9), (9, TimeUpdating 9), (9, TimeUpdateEnd 9), (9, TimeResetBegin 9 0), (0, TimeResetEnd 0)]"
proof -
  have "hears ''a'' (beforeAndAfterEvent demo_slave) (snd (registerSyncSlave (getEventIDFlags False) ''a'' []))"
    using registered_slave_hears [of "[]" "''a''" False] by (simp add: demo_slave_def)
  from slave_follows_master [OF this, of UNIV count_tally tally demo_clock "[Do_SetNewTime 9 True, Do_Reset 0]"]
  have "snd (snd (run_master tally count_tally UNIV ''a'' [Do_SetNewTime 9 True, Do_Reset 0] demo_clock
      (snd (registerSyncSlave (getEventIDFlags False) ''a'' []), demo_slave))) =
     heard (snd (run_clock discrete_op [Do_SetNewTime 9 True, Do_Reset 0] demo_clock))"
    by (simp add: count_tally in_step_def demo_slave_def demo_clock_def discrete_setNewTime_result)
  also have "\<dots> = [(5, TimeUpdateBegin 5 9), (9, TimeUpdating 9), (9, TimeUpdateEnd 9), (9, TimeResetBegin 9 0), (0, TimeResetEnd 0)]"
    by code_simp
  finally show ?thesis .
qed

subsection \<open>Where the synchronisation loses its way\<close>

text \<open>A master that goes back to a time other than 0 resets its slave to 0.\<close>

lemma slave_loses_reset_time:
  "current_time (sl_clock (fst (snd (run_master tally count_tally UNIV ''a'' [Do_SetNewTime 3 True] demo_clock
      (snd (registerSyncSlave (getEventIDFlags False) ''a'' []), demo_slave))))) = 0 \<and>
   current_time (fst (run_clock discrete_op [Do_SetNewTime 3 True] demo_clock)) = 3"
  by code_simp

text \<open>A slave that is gone is called again for every event: it is marked, but the mark is never looked at; and a slave that
  has unregistered still hears everything.\<close>

lemma unregistered_slave_still_hears:
  assumes "hears name b sls" "sm_wf sls"
  shows "hears name b (snd (unregisterSyncSlave name sls))"
proof -
  obtain sl where sl: "map_of sls name = Some sl" "event_id_flag sl = getEventIDFlags b" using assms(1) by (auto simp: hears_def)
  let ?sls = "snd (unregisterSyncSlave name sls)"
  have "sm_wf ?sls" using assms(2) sl by (simp add: unregisterSyncSlave_def unregisterSlave_def)
  moreover have "\<exists>sl. map_of ?sls name = Some sl \<and> event_id_flag sl = getEventIDFlags b"
    using assms(2) sl by (simp add: unregisterSyncSlave_def unregisterSlave_def map_of_sm_assign)
  ultimately show ?thesis by (simp only: hears_def sm_wf_distinct simp_thms)
qed

text \<open>The time of the next request is kept in 32 bits: once the milliseconds do not fit, the worker asks without waiting.\<close>

lemma late_worker_never_waits:
  assumes "2 ^ 31 \<le> now_ms" "now_ms \<le> later" "worker_round first again answer now_ms u = (u', r)" "next_request u < 2 ^ 31"
  shows "worker_wait later u' = No_Wait"
proof -
  have "int32 x < 2 ^ 31" for x
    using signed_take_bit_int_less_exp [of 31 x] by (simp add: int32_def)
  then have "next_request u' < 2 ^ 31" using assms(3,4)
    by (auto simp: worker_round_def registerToMaster_def Let_def split: if_splits option.splits)
  then show ?thesis using assms(1,2) by (simp add: worker_wait_def)
qed

end
