(* ===== verification/Component_Lifecycle.thy ===== *)
theory Component_Lifecycle
  imports State_Machine Clock_Sync
begin

text \<open>
  The components of a participant and their life: \<open>ComponentRegistry\<close> (\<open>src/fep3/components/base/component_registry.cpp\<close>),
  which calls all components in order and takes back what succeeded when one fails, and what the module does with it when
  the state machine enters a state (\<open>cModulePrivate\<close> in \<open>src/module/fep_module.cpp\<close>).

  A component is an object; the same object can be registered under several names. What a component answers is an input.
\<close>

section \<open>The registry\<close>

datatype phase = Creating | Destroying | Initializing | Deinitializing | Getting_Ready | Starting | Stopping

type_synonym 'c registry = "(string \<times> 'c) list"

definition findComponent :: "string \<Rightarrow> 'c registry \<Rightarrow> 'c option" where
  "findComponent iid cs = map_option snd (List.find (\<lambda>c. fst c = iid) cs)"

definition registerComponent :: "string \<Rightarrow> 'c \<Rightarrow> 'c registry \<Rightarrow> fep_result \<times> 'c registry" where
  "registerComponent iid c cs =
     (case findComponent iid cs of
        None \<Rightarrow> (ERR_NOERROR, cs @ [(iid, c)])
      | Some _ \<Rightarrow> (ERR_INVALID_ARG, cs))"

fun unregisterComponent :: "string \<Rightarrow> 'c registry \<Rightarrow> fep_result \<times> 'c registry" where
  "unregisterComponent iid [] = (ERR_INVALID_ARG, [])"
| "unregisterComponent iid (c # cs) =
     (if fst c = iid then (ERR_NOERROR, cs)
      else let (r, cs) = unregisterComponent iid cs in (r, c # cs))"

type_synonym 'c calls = "(phase \<times> 'c) list"

text \<open>The components that have succeeded are remembered, the last one first.\<close>

fun raiseWithFallback ::
  "(phase \<Rightarrow> 'c \<Rightarrow> fep_result) \<Rightarrow> phase \<Rightarrow> phase \<Rightarrow> 'c list \<Rightarrow> 'c list \<Rightarrow> fep_result \<times> 'c calls" where
  "raiseWithFallback ans raise fallback [] succeeded = (ERR_NOERROR, [])"
| "raiseWithFallback ans raise fallback (c # cs) succeeded =
     (let r = ans raise c
      in if isOk r then
           (let (r, calls) = raiseWithFallback ans raise fallback cs (c # succeeded) in (r, (raise, c) # calls))
         else (r, (raise, c) # map (Pair fallback) succeeded))"

text \<open>The operations that go back call every component in reverse order and combine the results.\<close>

definition call_reversed :: "(phase \<Rightarrow> 'c \<Rightarrow> fep_result) \<Rightarrow> phase \<Rightarrow> 'c list \<Rightarrow> fep_result \<times> 'c calls" where
  "call_reversed ans p cs = (foldl (\<lambda>r c. result_or r (ans p c)) ERR_NOERROR (rev cs), map (Pair p) (rev cs))"

definition registry_call :: "(phase \<Rightarrow> 'c \<Rightarrow> fep_result) \<Rightarrow> phase \<Rightarrow> 'c registry \<Rightarrow> fep_result \<times> 'c calls" where
  "registry_call ans p reg =
     (let cs = map snd reg
      in case p of
           Creating \<Rightarrow> raiseWithFallback ans Creating Destroying cs []
         | Initializing \<Rightarrow> raiseWithFallback ans Initializing Deinitializing cs []
         | Getting_Ready \<Rightarrow> raiseWithFallback ans Getting_Ready Deinitializing cs []
         | Starting \<Rightarrow> raiseWithFallback ans Starting Stopping cs []
         | _ \<Rightarrow> call_reversed ans p cs)"

lemma raise_all:
  "\<forall>c \<in> set cs. ans p c = ERR_NOERROR \<Longrightarrow> raiseWithFallback ans p f cs succeeded = (ERR_NOERROR, map (Pair p) cs)"
  by (induction cs arbitrary: succeeded) auto

lemma raise_until:
  "\<forall>c \<in> set cs. ans p c = ERR_NOERROR \<Longrightarrow> ans p c0 \<noteq> ERR_NOERROR \<Longrightarrow>
   raiseWithFallback ans p f (cs @ c0 # cs') succeeded =
     (ans p c0, map (Pair p) cs @ (p, c0) # map (Pair f) (rev cs @ succeeded))"
  by (induction cs arbitrary: succeeded) auto

text \<open>All or nothing: an operation that goes on either succeeds for all components in order, or stops at the first one that
  fails and takes back those before it, the last one first.\<close>
theorem raise_is_all_or_nothing:
  assumes "registry_call ans p reg = (r, made)" "p = Creating \<or> p = Initializing \<or> p = Getting_Ready \<or> p = Starting"
  shows "r = ERR_NOERROR \<and> made = map (Pair p) (map snd reg) \<or>
    (\<exists>cs c cs'. map snd reg = cs @ c # cs' \<and> (\<forall>x \<in> set cs. ans p x = ERR_NOERROR) \<and> ans p c = r \<and> r \<noteq> ERR_NOERROR \<and>
      made = map (Pair p) (cs @ [c]) @ map (Pair (if p = Creating then Destroying else if p = Starting then Stopping else Deinitializing)) (rev cs))"
proof -
  let ?f = "if p = Creating then Destroying else if p = Starting then Stopping else Deinitializing"
  have call: "raiseWithFallback ans p ?f (map snd reg) [] = (r, made)" using assms by (auto simp: registry_call_def)
  show ?thesis
  proof (cases "\<forall>c \<in> set (map snd reg). ans p c = ERR_NOERROR")
    case True
    then show ?thesis using call raise_all [of "map snd reg" ans p ?f "[]", OF True] by simp
  next
    case False
    then have "\<exists>c \<in> set (map snd reg). ans p c \<noteq> ERR_NOERROR" by blast
    then obtain cs c cs' where split: "map snd reg = cs @ c # cs'" "ans p c \<noteq> ERR_NOERROR" "\<forall>x \<in> set cs. ans p x = ERR_NOERROR"
      using split_list_first_prop [of "map snd reg" "\<lambda>c. ans p c \<noteq> ERR_NOERROR"] by blast
    then have "r = ans p c" "made = map (Pair p) cs @ (p, c) # map (Pair ?f) (rev cs)"
      using call raise_until [of cs ans p c ?f cs' "[]", OF split(3,2)] by auto
    then show ?thesis using split by (intro disjI2 exI [of _ cs] exI [of _ c] exI [of _ cs']) simp
  qed
qed

section \<open>The module\<close>

text \<open>
  What the module does when a state is requested, left or entered: calls of the components, and calls of the parts of the
  module that are older than them, whose results are not modelled. A failure of an operation that goes back is only reported.
\<close>

datatype action =
    Call phase
  | Enable_Bus
  | Disable_Bus
  | Reset_DDB_Data
  | Clear_Data_Access
  | Clear_Mapping_Configuration
  | Clear_Signal_Descriptions
  | Configure_Remote_Description
  | Configure_Remote_Mapping
  | Allow_Signal_Registration
  | Disallow_Signal_Registration
  | Start_Mapping_Engine
  | Reset_Mapping_Engine
  | Set_Current_State tState
  | Call_Shutdown_Handler

definition ProcessIdleEntry :: "tState \<Rightarrow> action list" where
  "ProcessIdleEntry eOldState =
     (if eOldState = FS_READY then [Disable_Bus, Call Deinitializing, Reset_DDB_Data] else []) @
     (if eOldState = FS_RUNNING then [Call Stopping, Disable_Bus, Call Deinitializing, Clear_Data_Access, Reset_DDB_Data] else []) @
     (if eOldState = FS_ERROR then [Reset_DDB_Data] else []) @
     (if eOldState \<noteq> FS_STARTUP then [Clear_Mapping_Configuration, Clear_Signal_Descriptions] else []) @
     [Set_Current_State FS_IDLE]"

definition ProcessInitializingEntry :: "tState \<Rightarrow> action list" where
  "ProcessInitializingEntry eOldState =
     [Configure_Remote_Description, Configure_Remote_Mapping, Call Initializing, Set_Current_State FS_INITIALIZING]"

definition ProcessReadyEntry :: "tState \<Rightarrow> action list" where
  "ProcessReadyEntry eOldState =
     [Enable_Bus] @ (if eOldState \<noteq> FS_RUNNING then [Disallow_Signal_Registration] else []) @ [Set_Current_State FS_READY]"

definition ProcessRunningEntry :: "tState \<Rightarrow> action list" where
  "ProcessRunningEntry eOldState =
     [Start_Mapping_Engine] @ (if eOldState \<noteq> FS_READY then [Disallow_Signal_Registration] else []) @
     [Call Starting, Set_Current_State FS_RUNNING]"

definition ProcessErrorEntry :: "tState \<Rightarrow> action list" where
  "ProcessErrorEntry eOldState =
     (if eOldState = FS_RUNNING then [Call Stopping] else []) @
     (if eOldState = FS_READY \<or> eOldState = FS_RUNNING then [Disable_Bus, Call Deinitializing] else []) @
     [Set_Current_State FS_ERROR]"

definition ProcessShutdownEntry :: "tState \<Rightarrow> action list" where
  "ProcessShutdownEntry eOldState = [Set_Current_State FS_SHUTDOWN, Call_Shutdown_Handler]"

definition ProcessReadyExit :: "tState \<Rightarrow> action list" where
  "ProcessReadyExit eNewState = (if eNewState \<noteq> FS_RUNNING then [Allow_Signal_Registration] else [])"

definition ProcessRunningExit :: "tState \<Rightarrow> action list" where
  "ProcessRunningExit eNewState = [Reset_Mapping_Engine] @ (if eNewState \<noteq> FS_READY then [Allow_Signal_Registration] else [])"

definition ProcessReadyRequest :: "tState \<Rightarrow> action list" where
  "ProcessReadyRequest eOldState = (if eOldState = FS_INITIALIZING then [Call Getting_Ready] else [])"

definition entry_actions :: "tState \<Rightarrow> tState \<Rightarrow> action list" where
  "entry_actions old_state new_state =
     (case new_state of
        FS_IDLE \<Rightarrow> ProcessIdleEntry old_state
      | FS_INITIALIZING \<Rightarrow> ProcessInitializingEntry old_state
      | FS_READY \<Rightarrow> ProcessReadyEntry old_state
      | FS_RUNNING \<Rightarrow> ProcessRunningEntry old_state
      | FS_ERROR \<Rightarrow> ProcessErrorEntry old_state
      | FS_SHUTDOWN \<Rightarrow> ProcessShutdownEntry old_state
      | _ \<Rightarrow> [])"

definition exit_actions :: "tState \<Rightarrow> tState \<Rightarrow> action list" where
  "exit_actions old_state new_state =
     (if old_state = FS_READY then ProcessReadyExit new_state
      else if old_state = FS_RUNNING then ProcessRunningExit new_state
      else [])"

text \<open>The part that concerns the components.\<close>

definition component_phase :: "action \<Rightarrow> phase option" where
  "component_phase a = (case a of Call p \<Rightarrow> Some p | _ \<Rightarrow> None)"

lemma component_phase_simps [simp]:
  "component_phase (Call p) = Some p" "\<forall>p. a \<noteq> Call p \<Longrightarrow> component_phase a = None"
  by (cases a; simp add: component_phase_def)+

definition request_phases :: "tState \<Rightarrow> tState \<Rightarrow> phase list" where
  "request_phases old_state new_state =
     (if new_state = FS_READY then List.map_filter component_phase (ProcessReadyRequest old_state) else [])"

definition entry_phases :: "tState \<Rightarrow> tState \<Rightarrow> phase list" where
  "entry_phases old_state new_state = List.map_filter component_phase (entry_actions old_state new_state)"

lemma request_phases_eq:
  "request_phases old_state new_state = (if new_state = FS_READY \<and> old_state = FS_INITIALIZING then [Getting_Ready] else [])"
  by (simp add: request_phases_def ProcessReadyRequest_def map_filter_simps)

lemma entry_phases_eq:
  "entry_phases old_state new_state =
     (case new_state of
        FS_IDLE \<Rightarrow>
          (if old_state = FS_READY then [Deinitializing] else if old_state = FS_RUNNING then [Stopping, Deinitializing] else [])
      | FS_INITIALIZING \<Rightarrow> [Initializing]
      | FS_RUNNING \<Rightarrow> [Starting]
      | FS_ERROR \<Rightarrow>
          (if old_state = FS_RUNNING then [Stopping] else []) @
          (if old_state = FS_READY \<or> old_state = FS_RUNNING then [Deinitializing] else [])
      | _ \<Rightarrow> [])"
  by (cases new_state; cases old_state)
    (simp_all add: entry_phases_def entry_actions_def ProcessIdleEntry_def ProcessInitializingEntry_def ProcessReadyEntry_def
      ProcessRunningEntry_def ProcessErrorEntry_def ProcessShutdownEntry_def map_filter_simps)

text \<open>The bus is enabled and the registration of signals is closed exactly while the participant is ready or runs.\<close>

fun bus_after :: "action list \<Rightarrow> bool \<times> bool \<Rightarrow> bool \<times> bool" where
  "bus_after [] st = st"
| "bus_after (a # as) st = bus_after as
     (if a = Enable_Bus then (True, snd st) else if a = Disable_Bus then (False, snd st)
      else if a = Allow_Signal_Registration then (fst st, False) else if a = Disallow_Signal_Registration then (fst st, True) else st)"

definition in_operation :: "tState \<Rightarrow> bool" where
  "in_operation s \<longleftrightarrow> s = FS_READY \<or> s = FS_RUNNING"

lemma bus_follows_state:
  assumes "transition_target t s = s'" "s' \<noteq> FS_UNKNOWN"
  shows "bus_after (exit_actions s s' @ entry_actions s s') (in_operation s, in_operation s) = (in_operation s', in_operation s')"
  using assms by (cases t; cases s)
    (auto simp: transition_target_def exit_actions_def entry_actions_def in_operation_def ProcessIdleEntry_def ProcessInitializingEntry_def
      ProcessReadyEntry_def ProcessRunningEntry_def ProcessErrorEntry_def ProcessShutdownEntry_def ProcessReadyExit_def ProcessRunningExit_def)

definition goes_on :: "phase \<Rightarrow> bool" where
  "goes_on p \<longleftrightarrow> p \<in> {Creating, Initializing, Getting_Ready, Starting}"

text \<open>The calls for a list of phases; it ends with the first one that goes on and fails.\<close>

fun run_phases :: "(phase \<Rightarrow> 'c \<Rightarrow> fep_result) \<Rightarrow> phase list \<Rightarrow> 'c registry \<Rightarrow> fep_result \<times> 'c calls" where
  "run_phases ans [] reg = (ERR_NOERROR, [])"
| "run_phases ans (p # ps) reg =
     (let (r, calls) = registry_call ans p reg
      in if goes_on p \<and> isFailed r then (r, calls)
         else let (r', calls') = run_phases ans ps reg in (r', calls @ calls'))"

text \<open>
  A transition of the state machine, without listeners other than the module and outside \<open>PerformShutdown\<close>. A request that
  fails keeps the state; the error event that the state machine then raises is put behind those that are pending, and is one
  of the transitions that follow. The result of the entry is not used (\<open>SetState\<close> calls the internal listener as a statement):
  the new state stays although a component could not be initialised or started.
\<close>

definition module_step ::
  "(phase \<Rightarrow> 'c \<Rightarrow> fep_result) \<Rightarrow> 'c registry \<Rightarrow> tStateTransition \<Rightarrow> tState \<Rightarrow> tState \<times> 'c calls" where
  "module_step ans reg t s =
     (let s' = transition_target t s
      in if s' = FS_UNKNOWN then (s, [])
         else
           let (r, calls) = run_phases ans (request_phases s s') reg
           in if isFailed r then (s, calls)
              else (s', calls @ snd (run_phases ans (entry_phases s s') reg)))"

text \<open>A run of the module: each transition comes with the answers of the components.\<close>

fun module_run ::
  "'c registry \<Rightarrow> (tStateTransition \<times> (phase \<Rightarrow> 'c \<Rightarrow> fep_result)) list \<Rightarrow> tState \<Rightarrow> tState \<times> 'c calls" where
  "module_run reg [] s = (s, [])"
| "module_run reg (x # xs) s =
     (let (s, calls) = module_step (snd x) reg (fst x) s; (s, calls') = module_run reg xs s in (s, calls @ calls'))"

section \<open>The life of a component\<close>

text \<open>What a component may rely on: it is initialised before it gets ready, ready before it is started, stopped before it is
  deinitialised. Going back is allowed again.\<close>

datatype life = Created | Initialized | Is_Ready | Running

fun life_step :: "phase \<Rightarrow> life \<Rightarrow> life option" where
  "life_step Initializing l = (if l = Created then Some Initialized else None)"
| "life_step Getting_Ready l = (if l = Initialized then Some Is_Ready else None)"
| "life_step Starting l = (if l = Is_Ready then Some Running else None)"
| "life_step Stopping l = (if l = Running \<or> l = Is_Ready then Some Is_Ready else None)"
| "life_step Deinitializing l = (if l = Running then None else Some Created)"
| "life_step _ l = None"

fun life_run :: "phase list \<Rightarrow> life \<Rightarrow> life option" where
  "life_run [] l = Some l"
| "life_run (p # ps) l = Option.bind (life_step p l) (life_run ps)"

lemma life_run_append: "life_run (ps @ qs) l = Option.bind (life_run ps l) (life_run qs)"
  by (induction ps arbitrary: l) (auto simp: bind_assoc split: bind_splits)

definition calls_of :: "'c \<Rightarrow> 'c calls \<Rightarrow> phase list" where
  "calls_of c made = map fst (filter (\<lambda>e. snd e = c) made)"

lemma calls_of_append [simp]: "calls_of c (a @ b) = calls_of c a @ calls_of c b"
  by (simp add: calls_of_def)

lemma calls_of_Nil [simp]: "calls_of c [] = []"
  by (simp add: calls_of_def)

lemma calls_of_all: "calls_of c (map (Pair p) cs) = replicate (count_list cs c) p"
  by (induction cs) (auto simp: calls_of_def)

lemma count_list_rev: "count_list (rev xs) x = count_list xs x"
  by (induction xs) auto

text \<open>A call that starts a step for a component which fails leaves it where it was.\<close>

definition phases_of :: "(phase \<Rightarrow> 'c \<Rightarrow> fep_result) \<Rightarrow> 'c \<Rightarrow> 'c calls \<Rightarrow> phase list" where
  "phases_of ans c made = filter (\<lambda>p. \<not> (goes_on p \<and> isFailed (ans p c))) (calls_of c made)"

lemma phases_of_append [simp]: "phases_of ans c (a @ b) = phases_of ans c a @ phases_of ans c b"
  by (simp add: phases_of_def)

lemma phases_of_Nil [simp]: "phases_of ans c [] = []"
  by (simp add: phases_of_def)

text \<open>One phase for the whole registry, seen by one component: either it goes on, or, when a component fails, it ends where it
  began or (when a start is taken back) before it.\<close>

definition taken_back :: "phase \<Rightarrow> phase" where
  "taken_back p = (if p = Creating then Destroying else if p = Starting then Stopping else Deinitializing)"

lemma counted_in: "count_list xs x = 1 \<Longrightarrow> x \<in> set xs"
  by (rule ccontr) (simp add: count_notin)

lemma counted_once:
  assumes "count_list (xs @ y # zs) x = 1"
  shows "count_list xs x = 0 \<or> count_list xs x = 1 \<and> x \<noteq> y \<and> x \<in> set xs"
proof -
  have "count_list xs x = 0 \<or> count_list xs x = 1 \<and> x \<noteq> y"
    using assms by (cases "x = y") auto
  then show ?thesis using counted_in by fast
qed

lemma phase_of_component:
  assumes "registry_call ans p reg = (r, made)" "goes_on p" "count_list (map snd reg) c = 1"
  shows "if r = ERR_NOERROR then phases_of ans c made = [p] else phases_of ans c made = [] \<or> phases_of ans c made = [p, taken_back p]"
proof -
  have p: "p = Creating \<or> p = Initializing \<or> p = Getting_Ready \<or> p = Starting" using assms(2) by (auto simp: goes_on_def)
  then have call: "raiseWithFallback ans p (taken_back p) (map snd reg) [] = (r, made)"
    using assms(1) by (auto simp: registry_call_def taken_back_def)
  have no_raise: "\<not> goes_on (taken_back p)" by (auto simp: goes_on_def taken_back_def)
  show ?thesis
  proof (cases "\<forall>x \<in> set (map snd reg). ans p x = ERR_NOERROR")
    case True
    then have "r = ERR_NOERROR" "made = map (Pair p) (map snd reg)"
      using call raise_all [of "map snd reg" ans p "taken_back p" "[]", OF True] by auto
    moreover have "c \<in> set (map snd reg)" using assms(3) by (rule counted_in)
    then have "ans p c = ERR_NOERROR" using True by blast
    ultimately show ?thesis using assms(3) calls_of_all [of c p "map snd reg"] by (simp add: phases_of_def)
  next
    case False
    then have "\<exists>x \<in> set (map snd reg). ans p x \<noteq> ERR_NOERROR" by blast
    then obtain cs d cs' where split: "map snd reg = cs @ d # cs'" "ans p d \<noteq> ERR_NOERROR" "\<forall>x \<in> set cs. ans p x = ERR_NOERROR"
      using split_list_first_prop [of "map snd reg" "\<lambda>x. ans p x \<noteq> ERR_NOERROR"] by blast
    then have r: "r = ans p d" "made = map (Pair p) cs @ (p, d) # map (Pair (taken_back p)) (rev cs)"
      using call raise_until [of cs ans p d "taken_back p" cs' "[]", OF split(3,2)] by auto
    have "calls_of c made = replicate (count_list cs c) p @ (if c = d then [p] else []) @ replicate (count_list cs c) (taken_back p)"
    proof -
      have "made = map (Pair p) cs @ map (Pair p) [d] @ map (Pair (taken_back p)) (rev cs)" using r(2) by simp
      then show ?thesis by (simp only: calls_of_append calls_of_all count_list_rev) simp
    qed
    moreover have "count_list cs c = 0 \<or> count_list cs c = 1 \<and> c \<noteq> d \<and> c \<in> set cs"
      using assms(3) unfolding split(1) by (rule counted_once)
    ultimately have "calls_of c made = [] \<or> c = d \<and> calls_of c made = [p] \<or> ans p c = ERR_NOERROR \<and> calls_of c made = [p, taken_back p]"
      using split(3) by auto
    then show ?thesis using split(2) r(1) no_raise assms(2) by (auto simp: phases_of_def)
  qed
qed

lemma back_of_component:
  assumes "registry_call ans p reg = (r, made)" "p = Stopping \<or> p = Deinitializing" "count_list (map snd reg) c = 1"
  shows "phases_of ans c made = [p]"
proof -
  have "made = map (Pair p) (rev (map snd reg))" using assms(1,2) by (auto simp: registry_call_def call_reversed_def Let_def)
  then have "calls_of c made = [p]" using assms(3) by (simp only: calls_of_all count_list_rev) simp
  then show ?thesis using assms(2) by (auto simp: phases_of_def goes_on_def)
qed

text \<open>
  The life of every component that goes with a state of the participant, where the flag says whether the last start has
  succeeded: the participant runs after a start that has failed too, and its components have been taken back.
\<close>

fun life_in :: "tState \<Rightarrow> bool \<Rightarrow> life" where
  "life_in FS_INITIALIZING started = Initialized"
| "life_in FS_READY started = Is_Ready"
| "life_in FS_RUNNING started = (if started then Running else Is_Ready)"
| "life_in _ started = Created"

definition start_succeeds :: "(phase \<Rightarrow> 'c \<Rightarrow> fep_result) \<Rightarrow> 'c registry \<Rightarrow> bool" where
  "start_succeeds ans reg \<longleftrightarrow> (\<forall>c \<in> set (map snd reg). ans Starting c = ERR_NOERROR)"

definition started_after ::
  "tStateTransition \<Rightarrow> (phase \<Rightarrow> 'c \<Rightarrow> fep_result) \<Rightarrow> 'c registry \<Rightarrow> tState \<Rightarrow> bool \<Rightarrow> bool" where
  "started_after t ans reg s started = (if transition_target t s = FS_RUNNING then start_succeeds ans reg else started)"

text \<open>Every component can be initialised; the state of initialisation is only left for the ready state, and getting ready does
  not fail.\<close>

definition completes_initialisation ::
  "'c registry \<Rightarrow> tStateTransition \<Rightarrow> (phase \<Rightarrow> 'c \<Rightarrow> fep_result) \<Rightarrow> tState \<Rightarrow> bool" where
  "completes_initialisation reg t ans s \<longleftrightarrow>
     (transition_target t s = FS_INITIALIZING \<longrightarrow> (\<forall>c \<in> set (map snd reg). ans Initializing c = ERR_NOERROR)) \<and>
     (s = FS_INITIALIZING \<longrightarrow>
       (transition_target t s = FS_READY \<and> (\<forall>c \<in> set (map snd reg). ans Getting_Ready c = ERR_NOERROR)) \<or>
       transition_target t s = FS_UNKNOWN)"

lemma back_phases:
  assumes "set ps \<subseteq> {Stopping, Deinitializing}" "count_list (map snd reg) c = 1"
  shows "fst (run_phases ans ps reg) = ERR_NOERROR \<and> phases_of ans c (snd (run_phases ans ps reg)) = ps"
  using assms(1)
proof (induction ps)
  case (Cons p ps)
  obtain r made where call: "registry_call ans p reg = (r, made)" by (cases "registry_call ans p reg")
  have p: "p = Stopping \<or> p = Deinitializing" using Cons.prems by auto
  then have "\<not> goes_on p" by (auto simp: goes_on_def)
  then show ?case using Cons back_of_component [OF call p assms(2)] by (simp add: call case_prod_beta)
qed simp

lemma one_phase:
  assumes "goes_on p" "count_list (map snd reg) c = 1"
  shows "if fst (run_phases ans [p] reg) = ERR_NOERROR then phases_of ans c (snd (run_phases ans [p] reg)) = [p]
    else phases_of ans c (snd (run_phases ans [p] reg)) \<in> {[], [p, taken_back p]}"
proof -
  obtain r made where call: "registry_call ans p reg = (r, made)" by (cases "registry_call ans p reg")
  show ?thesis using phase_of_component [OF call assms] by (simp add: call assms(1))
qed

lemma one_phase_ok:
  assumes "goes_on p"
  shows "fst (run_phases ans [p] reg) = ERR_NOERROR \<longleftrightarrow> (\<forall>c \<in> set (map snd reg). ans p c = ERR_NOERROR)"
proof -
  obtain r made where call: "registry_call ans p reg = (r, made)" by (cases "registry_call ans p reg")
  have p: "p = Creating \<or> p = Initializing \<or> p = Getting_Ready \<or> p = Starting" using assms by (auto simp: goes_on_def)
  have "(\<forall>c \<in> set (map snd reg). ans p c = ERR_NOERROR) \<Longrightarrow> r = ERR_NOERROR"
    using raise_all [of "map snd reg" ans p "taken_back p" "[]"] call p by (auto simp: registry_call_def taken_back_def)
  moreover have "r = ERR_NOERROR \<Longrightarrow> \<forall>c \<in> set (map snd reg). ans p c = ERR_NOERROR"
  proof (rule ccontr)
    assume r: "r = ERR_NOERROR" and "\<not> (\<forall>c \<in> set (map snd reg). ans p c = ERR_NOERROR)"
    then obtain cs d cs' where split: "map snd reg = cs @ d # cs'" "ans p d \<noteq> ERR_NOERROR" "\<forall>x \<in> set cs. ans p x = ERR_NOERROR"
      using split_list_first_prop [of "map snd reg" "\<lambda>x. ans p x \<noteq> ERR_NOERROR"] by blast
    then have "registry_call ans p reg = (ans p d, map (Pair p) cs @ (p, d) # map (Pair (taken_back p)) (rev cs))"
      using raise_until [of cs ans p d "taken_back p" cs' "[]", OF split(3,2)] p by (auto simp: registry_call_def taken_back_def)
    then show False using call r split(2) by simp
  qed
  ultimately show ?thesis by (simp add: call assms) blast
qed

text \<open>A start that fails has no effect on a component that is ready, as it can be stopped without having been started.\<close>

lemma starting_phase:
  assumes "count_list (map snd reg) c = 1"
  shows "life_run (phases_of ans c (snd (run_phases ans [Starting] reg))) Is_Ready = Some (if start_succeeds ans reg then Running else Is_Ready)"
  using one_phase [of Starting reg c ans] one_phase_ok [of Starting ans reg] assms
  by (auto simp: goes_on_def taken_back_def start_succeeds_def simp del: run_phases.simps split: if_splits)

lemma step_cases:
  "module_step ans reg t s =
     (let s' = transition_target t s; req = run_phases ans (request_phases s s') reg
      in if s' = FS_UNKNOWN then (s, [])
         else if fst req \<noteq> ERR_NOERROR then (s, snd req)
         else (s', snd req @ snd (run_phases ans (entry_phases s s') reg)))"
  by (simp add: module_step_def case_prod_beta Let_def)

lemma quiet_phases [simp]: "fst (run_phases ans [] reg) = ERR_NOERROR" "snd (run_phases ans [] reg) = []"
  by simp_all

lemma module_step_life:
  assumes "count_list (map snd reg) c = 1" "completes_initialisation reg t ans s"
  shows "life_run (phases_of ans c (snd (module_step ans reg t s))) (life_in s b) =
    Some (life_in (fst (module_step ans reg t s)) (started_after t ans reg s b))"
proof -
  let ?s' = "transition_target t s"
  note backs = back_phases [OF _ assms(1), of _ ans] and one = one_phase [OF _ assms(1), of _ ans] and ok = one_phase_ok [of _ ans reg]
  consider "?s' = FS_UNKNOWN" | "?s' = FS_INITIALIZING" "s = FS_IDLE" | "?s' = FS_READY" "s = FS_INITIALIZING"
    | "?s' = FS_RUNNING" "s = FS_READY"
    | "request_phases s ?s' = []" "set (entry_phases s ?s') \<subseteq> {Stopping, Deinitializing}" "s \<noteq> FS_INITIALIZING"
      "?s' \<notin> {FS_UNKNOWN, FS_INITIALIZING, FS_READY, FS_RUNNING}" "s \<in> {FS_READY, FS_RUNNING} \<longrightarrow> ?s' \<in> {FS_IDLE, FS_ERROR}"
    using assms(2) by (cases t; cases s) (auto simp: transition_target_def completes_initialisation_def request_phases_eq entry_phases_eq)
  then show ?thesis
  proof cases
    case 1
    then show ?thesis by (simp add: step_cases Let_def started_after_def)
  next
    case 2
    have tt: "transition_target t FS_IDLE = FS_INITIALIZING" using 2 by simp
    have ph: "request_phases FS_IDLE FS_INITIALIZING = []" "entry_phases FS_IDLE FS_INITIALIZING = [Initializing]"
      by (simp_all add: request_phases_eq entry_phases_eq)
    have "phases_of ans c (snd (run_phases ans [Initializing] reg)) = [Initializing]"
      using one [of Initializing] ok [of Initializing] assms(2) 2
      by (simp add: goes_on_def completes_initialisation_def del: run_phases.simps)
    then show ?thesis by (simp add: step_cases Let_def 2(2) tt ph del: run_phases.simps(2))
  next
    case 3
    have tt: "transition_target t FS_INITIALIZING = FS_READY" using 3 by simp
    have ph: "request_phases FS_INITIALIZING FS_READY = [Getting_Ready]" "entry_phases FS_INITIALIZING FS_READY = []"
      by (simp_all add: request_phases_eq entry_phases_eq)
    have "fst (run_phases ans [Getting_Ready] reg) = ERR_NOERROR"
      using ok [of Getting_Ready] assms(2) 3 by (simp add: goes_on_def completes_initialisation_def del: run_phases.simps)
    then show ?thesis using one [of Getting_Ready]
      by (simp add: step_cases Let_def 3(2) tt ph goes_on_def del: run_phases.simps)
  next
    case 4
    have tt: "transition_target t FS_READY = FS_RUNNING" using 4 by simp
    have ph: "request_phases FS_READY FS_RUNNING = []" "entry_phases FS_READY FS_RUNNING = [Starting]"
      by (simp_all add: request_phases_eq entry_phases_eq)
    show ?thesis using starting_phase [OF assms(1), of ans]
      by (simp add: step_cases Let_def 4(2) tt ph started_after_def del: run_phases.simps(2))
  next
    case 5
    have "module_step ans reg t s = (?s', snd (run_phases ans (entry_phases s ?s') reg))"
      using 5(1,4) by (simp add: step_cases Let_def)
    moreover have "life_run (entry_phases s ?s') (life_in s b) = Some (life_in ?s' (started_after t ans reg s b))"
      using 5(3-5) by (cases s; cases ?s') (auto simp: entry_phases_eq started_after_def)
    ultimately show ?thesis using backs [OF 5(2)] by simp
  qed
qed

text \<open>The phases of a component in a run, and the condition along it.\<close>

fun component_phases ::
  "'c \<Rightarrow> 'c registry \<Rightarrow> (tStateTransition \<times> (phase \<Rightarrow> 'c \<Rightarrow> fep_result)) list \<Rightarrow> tState \<Rightarrow> phase list" where
  "component_phases c reg [] s = []"
| "component_phases c reg (x # xs) s =
     phases_of (snd x) c (snd (module_step (snd x) reg (fst x) s)) @
     component_phases c reg xs (fst (module_step (snd x) reg (fst x) s))"

fun completes_all :: "'c registry \<Rightarrow> (tStateTransition \<times> (phase \<Rightarrow> 'c \<Rightarrow> fep_result)) list \<Rightarrow> tState \<Rightarrow> bool" where
  "completes_all reg [] s \<longleftrightarrow> True"
| "completes_all reg (x # xs) s \<longleftrightarrow> completes_initialisation reg (fst x) (snd x) s \<and>
     completes_all reg xs (fst (module_step (snd x) reg (fst x) s))"

fun last_start_succeeded ::
  "'c registry \<Rightarrow> (tStateTransition \<times> (phase \<Rightarrow> 'c \<Rightarrow> fep_result)) list \<Rightarrow> tState \<Rightarrow> bool \<Rightarrow> bool" where
  "last_start_succeeded reg [] s b = b"
| "last_start_succeeded reg (x # xs) s b =
     last_start_succeeded reg xs (fst (module_step (snd x) reg (fst x) s)) (started_after (fst x) (snd x) reg s b)"

lemma component_phases_run:
  "(\<And>x. x \<in> set xs \<Longrightarrow> snd x = ans) \<Longrightarrow> component_phases c reg xs s = phases_of ans c (snd (module_run reg xs s))"
  by (induction xs arbitrary: s) (simp_all add: case_prod_beta Let_def)

text \<open>C16: The module keeps to the protocol of its components as long as every initialisation is completed: no component fails to
  initialise or to get ready, and the participant does not leave the initialising state for another one than ready (a stop or
  an error meanwhile). Then, for every sequence of further transitions and whatever components fail to start, a component that
  is registered once is never started before it is ready nor deinitialised while it runs, and the state of the participant says
  where it is. In the running state it runs if the last start of all components has succeeded, and else it is ready only: the
  participant stays in that state, as the result of the entry is not used. No other listener refuses a request.\<close>
theorem components_follow_protocol:
  assumes "count_list (map snd reg) c = 1" "completes_all reg xs s"
  shows "life_run (component_phases c reg xs s) (life_in s b) =
    Some (life_in (fst (module_run reg xs s)) (last_start_succeeded reg xs s b))"
  using assms(2)
proof (induction xs arbitrary: s b)
  case (Cons x xs)
  let ?s = "fst (module_step (snd x) reg (fst x) s)" and ?b = "started_after (fst x) (snd x) reg s b"
  have "life_run (phases_of (snd x) c (snd (module_step (snd x) reg (fst x) s))) (life_in s b) = Some (life_in ?s ?b)"
    using module_step_life [OF assms(1), of "fst x" "snd x" s b] Cons.prems by simp
  moreover have "life_run (component_phases c reg xs ?s) (life_in ?s ?b) =
      Some (life_in (fst (module_run reg xs ?s)) (last_start_succeeded reg xs ?s ?b))"
    using Cons by simp
  ultimately show ?case by (simp add: life_run_append case_prod_beta Let_def)
qed simp

definition all_ok :: "phase \<Rightarrow> nat \<Rightarrow> fep_result" where
  "all_ok p c = ERR_NOERROR"

definition no_start :: "phase \<Rightarrow> nat \<Rightarrow> fep_result" where
  "no_start p c = (if p = Starting \<and> c = 1 then ERR_FAILED else ERR_NOERROR)"

definition demo_registry :: "nat registry" where
  "demo_registry = [(''clock'', 0), (''scheduler'', 1)]"

theorem raise_is_all_or_nothing_witness:
  "registry_call no_start Starting demo_registry = (ERR_FAILED, [(Starting, 0), (Starting, 1), (Stopping, 0)]) \<and>
   (\<exists>cs c cs'. map snd demo_registry = cs @ c # cs' \<and> no_start Starting c = ERR_FAILED \<and>
      [(Starting, 0), (Starting, 1), (Stopping, 0)] = map (Pair Starting) (cs @ [c]) @ map (Pair Stopping) (rev cs))"
proof
  show call: "registry_call no_start Starting demo_registry = (ERR_FAILED, [(Starting, 0), (Starting, 1), (Stopping, 0)])" by code_simp
  show "\<exists>cs c cs'. map snd demo_registry = cs @ c # cs' \<and> no_start Starting c = ERR_FAILED \<and>
      [(Starting, 0), (Starting, 1), (Stopping, 0)] = map (Pair Starting) (cs @ [c]) @ map (Pair Stopping) (rev cs)"
    using raise_is_all_or_nothing [OF call] by auto
qed

definition demo_failed_start :: "(tStateTransition \<times> (phase \<Rightarrow> nat \<Rightarrow> fep_result)) list" where
  "demo_failed_start = [(ST_Initialize, all_ok), (ST_InitDone, all_ok), (ST_Start, no_start), (ST_Stop, all_ok)]"

lemma demo_failed_start_completes: "completes_all demo_registry demo_failed_start FS_IDLE"
  by (simp add: demo_failed_start_def demo_registry_def completes_initialisation_def transition_target_def all_ok_def
      module_step_def request_phases_eq entry_phases_eq registry_call_def goes_on_def)

theorem components_follow_protocol_witness:
  "life_run [Initializing, Getting_Ready, Starting, Stopping, Stopping, Deinitializing] Created = Some Created \<and>
   module_run demo_registry (take 3 demo_failed_start) FS_IDLE = (FS_RUNNING,
     [(Initializing, 0), (Initializing, 1), (Getting_Ready, 0), (Getting_Ready, 1), (Starting, 0), (Starting, 1), (Stopping, 0)])"
proof
  have run: "fst (module_run demo_registry demo_failed_start FS_IDLE) = FS_IDLE"
    "component_phases 0 demo_registry demo_failed_start FS_IDLE = [Initializing, Getting_Ready, Starting, Stopping, Stopping, Deinitializing]"
    by code_simp+
  have "count_list (map snd demo_registry) 0 = 1" by code_simp
  from components_follow_protocol [OF this demo_failed_start_completes, of True]
  show "life_run [Initializing, Getting_Ready, Starting, Stopping, Stopping, Deinitializing] Created = Some Created"
    by (simp only: run life_in.simps)
  show "module_run demo_registry (take 3 demo_failed_start) FS_IDLE = (FS_RUNNING,
     [(Initializing, 0), (Initializing, 1), (Getting_Ready, 0), (Getting_Ready, 1), (Starting, 0), (Starting, 1), (Stopping, 0)])"
    by code_simp
qed

section \<open>Initialisations that are not completed\<close>

text \<open>A participant that is stopped, or gets into the error state, while it initialises does not deinitialise its components:
  the next initialisation initialises every component a second time.\<close>
theorem aborted_initialisation_is_repeated:
  assumes "count_list (map snd reg) c = 1" "\<And>p x. ans p x = ERR_NOERROR"
    and "abort = [ST_Stop] \<or> abort = [ST_Error, ST_ErrorFixed]"
  shows "component_phases c reg (map (\<lambda>t. (t, ans)) ([ST_Initialize] @ abort @ [ST_Initialize])) FS_IDLE = [Initializing, Initializing] \<and>
    life_run [Initializing, Initializing] Created = None"
proof -
  have "registry_call ans Initializing reg = (ERR_NOERROR, map (Pair Initializing) (map snd reg))"
    using raise_all [of "map snd reg" ans Initializing Deinitializing "[]"] assms(2) by (simp add: registry_call_def)
  then have init: "module_step ans reg ST_Initialize FS_IDLE = (FS_INITIALIZING, map (Pair Initializing) (map snd reg))"
    by (simp add: module_step_def transition_target_def request_phases_eq entry_phases_eq goes_on_def)
  have abort: "module_step ans reg ST_Stop FS_INITIALIZING = (FS_IDLE, [])" "module_step ans reg ST_Error FS_INITIALIZING = (FS_ERROR, [])"
    "module_step ans reg ST_ErrorFixed FS_ERROR = (FS_IDLE, [])"
    by (simp_all add: module_step_def transition_target_def request_phases_eq entry_phases_eq)
  have "phases_of ans c (map (Pair Initializing) (map snd reg)) = [Initializing]"
    using calls_of_all [of c Initializing "map snd reg"] assms(1,2) by (simp add: phases_of_def)
  then show ?thesis using assms(3) init abort by auto
qed

theorem aborted_initialisation_is_repeated_witness:
  "component_phases 1 demo_registry (map (\<lambda>t. (t, all_ok)) ([ST_Initialize] @ [ST_Stop] @ [ST_Initialize])) FS_IDLE = [Initializing, Initializing]"
  using aborted_initialisation_is_repeated [of demo_registry 1 all_ok "[ST_Stop]"] by (simp add: demo_registry_def all_ok_def)

text \<open>The synchronisation service makes a new slave clock each time it is initialised: the second one destroys the clock of the
  first, which the clock service still has in its list.\<close>
theorem second_initialisation_dangles:
  "let (ss, cs, dead) = fold service_step
      [Op_Property ''slave_master_on_demand'', Op_Initializing ''m'' 7, Op_Initializing ''m'' 8] (\<lparr>slave_clock = None\<rparr>, create new_clock_service, [])
   in (''slave_master_on_demand'', 7) \<in> set (registered_clocks cs) \<inter> set dead \<and>
      findClock ''slave_master_on_demand'' cs = Some (''slave_master_on_demand'', 7)"
  by code_simp

text \<open>When a component cannot be initialised, those before it are deinitialised, but the participant stays in the initialising
  state, and the event that ends it has all components get ready that are not initialised.\<close>
lemma failed_initialisation_gets_ready:
  assumes "count_list (map snd reg) c = 1" "c' \<in> set (map snd reg)" "ans Initializing c' \<noteq> ERR_NOERROR" "\<And>x. ans Getting_Ready x = ERR_NOERROR"
  shows "fst (module_run reg [(ST_Initialize, ans), (ST_InitDone, ans)] FS_IDLE) = FS_READY \<and>
    life_run (component_phases c reg [(ST_Initialize, ans), (ST_InitDone, ans)] FS_IDLE) Created = None"
proof -
  note one = one_phase [OF _ assms(1), of _ ans] and ok = one_phase_ok [of _ ans reg]
  have init: "module_step ans reg ST_Initialize FS_IDLE = (FS_INITIALIZING, snd (run_phases ans [Initializing] reg))"
    by (simp add: step_cases Let_def transition_target_def request_phases_eq entry_phases_eq del: run_phases.simps(2))
  have gr: "fst (run_phases ans [Getting_Ready] reg) = ERR_NOERROR"
    using ok [of Getting_Ready] assms(4) by (simp add: goes_on_def del: run_phases.simps)
  then have ready: "module_step ans reg ST_InitDone FS_INITIALIZING = (FS_READY, snd (run_phases ans [Getting_Ready] reg))"
    by (simp add: step_cases Let_def transition_target_def request_phases_eq entry_phases_eq del: run_phases.simps(2))
  have "fst (run_phases ans [Initializing] reg) \<noteq> ERR_NOERROR"
    using ok [of Initializing] assms(2,3) by (auto simp: goes_on_def simp del: run_phases.simps)
  then have "life_run (phases_of ans c (snd (run_phases ans [Initializing] reg))) Created = Some Created"
    using one [of Initializing] by (auto simp: goes_on_def taken_back_def simp del: run_phases.simps)
  moreover have "phases_of ans c (snd (run_phases ans [Getting_Ready] reg)) = [Getting_Ready]"
    using one [of Getting_Ready] gr by (simp add: goes_on_def del: run_phases.simps)
  ultimately show ?thesis by (simp add: init ready life_run_append del: run_phases.simps)
qed

text \<open>When a component cannot get ready, those after it (and it itself) stay initialised when the participant gets into the
  error state.\<close>
lemma failing_ready_leaves_initialised:
  "let xs = [(ST_Initialize, all_ok), (ST_InitDone, \<lambda>p c. if p = Getting_Ready then ERR_FAILED else ERR_NOERROR), (ST_Error, all_ok)]
   in component_phases 1 demo_registry xs FS_IDLE = [Initializing] \<and> fst (module_run demo_registry xs FS_IDLE) = FS_ERROR"
  by code_simp

text \<open>A component that is registered under two names is called twice.\<close>
lemma twice_registered_is_called_twice:
  "snd (registry_call all_ok Creating [(''rpc_internal'', 0), (''rpc'', 0)]) = [(Creating, 0), (Creating, 0)]"
  by code_simp

end
