(* ===== verification/Timer_Scheduler.thy ===== *)
theory Timer_Scheduler
  imports Clock "HOL-Library.Monad_Syntax" "HOL-Library.Multiset"
begin

text \<open>
  The scheduler that runs jobs at the times of the clock (\<open>src/fep3/components/scheduler\<close>): the check of a job's run time
  (\<open>job_runtime_check.cpp\<close>), the thread of a timer (\<open>cTimerThread\<close> in \<open>clock_based/local_clock_based_scheduler.cpp\<close>) and
  the queue of timers (\<open>cTimerScheduler\<close> in \<open>clock_based/timer_scheduler_impl.cpp\<close>), which is processed synchronously
  for a discrete clock and asynchronously for a continuous one.

  A job is what its three methods return and how long it computes; what is called is recorded as events. Timers are
  identified by the number of their thread. A call that never returns is \<open>None\<close>.
\<close>

section \<open>The check of the run time\<close>

datatype time_violation_strategy =
    JTS_UNKNOWN
  | JTS_IGNORE_RUNTIME_VIOLATION
  | JTS_WARN_ABOUT_RUNTIME_VIOLATION
  | JTS_SKIP_OUTPUT_PUBLISH
  | JTS_SET_STM_TO_ERROR

datatype job_event =
    Data_In int
  | Execute int
  | Data_Out int
  | Warning_Incident
  | Critical_Incident
  | Set_To_Error_State

record job =
  executeDataIn :: "int \<Rightarrow> fep_result"
  execute :: "int \<Rightarrow> fep_result"
  execution_time :: "int \<Rightarrow> int"
  executeDataOut :: "int \<Rightarrow> fep_result"

record runtime_check =
  rc_time_violation_strategy :: time_violation_strategy
  rc_max_runtime :: int
  rc_cancelled :: bool
  rc_skip_output :: bool

definition new_runtime_check :: "time_violation_strategy \<Rightarrow> int \<Rightarrow> runtime_check" where
  "new_runtime_check strategy max_runtime =
     \<lparr>rc_time_violation_strategy = strategy, rc_max_runtime = max_runtime, rc_cancelled = False, rc_skip_output = False\<rparr>"

text \<open>\<open>set_error\<close> is what setting the participant to the error state returns.\<close>

definition applyTimeViolationStrategy :: "fep_result \<Rightarrow> runtime_check \<Rightarrow> fep_result \<times> runtime_check \<times> job_event list" where
  "applyTimeViolationStrategy set_error rc =
     (case rc_time_violation_strategy rc of
        JTS_IGNORE_RUNTIME_VIOLATION \<Rightarrow> (ERR_NOERROR, rc, [])
      | JTS_WARN_ABOUT_RUNTIME_VIOLATION \<Rightarrow> (ERR_NOERROR, rc, [Warning_Incident])
      | JTS_SKIP_OUTPUT_PUBLISH \<Rightarrow> (ERR_NOERROR, rc\<lparr>rc_skip_output := True\<rparr>, [Critical_Incident])
      | JTS_SET_STM_TO_ERROR \<Rightarrow>
          if isFailed set_error then (set_error, rc, [Critical_Incident, Set_To_Error_State])
          else (ERR_CANCELLED, rc\<lparr>rc_cancelled := True, rc_skip_output := True\<rparr>, [Critical_Incident, Set_To_Error_State])
      | JTS_UNKNOWN \<Rightarrow> (ERR_NOERROR, rc, []))"

definition warn_if_failed :: "fep_result \<Rightarrow> job_event list" where
  "warn_if_failed r = (if isFailed r then [Warning_Incident] else [])"

definition runJob :: "fep_result \<Rightarrow> int \<Rightarrow> job \<Rightarrow> runtime_check \<Rightarrow> fep_result \<times> runtime_check \<times> job_event list" where
  "runJob set_error trigger_time j rc =
     (if rc_cancelled rc then (ERR_CANCELLED, rc, [])
      else
        let rc = rc\<lparr>rc_skip_output := False\<rparr>;
            es1 = Data_In trigger_time # warn_if_failed (executeDataIn j trigger_time);
            result = execute j trigger_time;
            es2 = Execute trigger_time # warn_if_failed result;
            (violation, rc, es3) =
              (if 0 < rc_max_runtime rc \<and> execution_time j trigger_time > rc_max_runtime rc
               then applyTimeViolationStrategy set_error rc else (ERR_NOERROR, rc, []))
        in if isFailed violation then (violation, rc, es1 @ es2 @ es3)
           else (result, rc, es1 @ es2 @ es3 @
             (if rc_skip_output rc then [] else Data_Out trigger_time # warn_if_failed (executeDataOut j trigger_time))))"

section \<open>The thread of a timer\<close>

record timer_thread =
  tt_running :: bool
  m_tmLastCallTime :: int
  tt_check :: runtime_check

definition new_timer_thread :: "runtime_check \<Rightarrow> timer_thread" where
  "new_timer_thread rc = \<lparr>tt_running = True, m_tmLastCallTime = -1, tt_check = rc\<rparr>"

text \<open>
  A round of \<open>execute\<close> after a wake-up: it ends the thread when the job fails. The last result says whether the promise of the
  caller is fulfilled; a thread that has ended does not see the wake-up.
\<close>

definition thread_round :: "fep_result \<Rightarrow> job \<Rightarrow> int \<Rightarrow> timer_thread \<Rightarrow> timer_thread \<times> job_event list \<times> bool" where
  "thread_round set_error j wakeup_time th =
     (if \<not> tt_running th then (th, [], False)
      else if m_tmLastCallTime th = -1 \<or> wakeup_time > m_tmLastCallTime th then
        let (r, rc, es) = runJob set_error wakeup_time j (tt_check th)
        in if isFailed r then (th\<lparr>tt_running := False, tt_check := rc\<rparr>, es, False)
           else (th\<lparr>m_tmLastCallTime := wakeup_time, tt_check := rc\<rparr>, es, True)
      else (th, [], True))"

definition thread_Reset :: "timer_thread \<Rightarrow> timer_thread" where
  "thread_Reset th = th\<lparr>m_tmLastCallTime := -1\<rparr>"

section \<open>The queue of timers\<close>

record timer_info =
  pTimer :: nat
  tmNextInstant :: int
  tmPeriod :: int

record timer_scheduler =
  m_oTimers :: "timer_info list"
  ts_threads :: "timer_thread list"
  m_StartUpResetTime :: int
  m_bCancelled :: bool
  m_bStarted :: bool

definition new_timer_scheduler :: timer_scheduler where
  "new_timer_scheduler =
     \<lparr>m_oTimers = [], ts_threads = [], m_StartUpResetTime = -1, m_bCancelled = False, m_bStarted = False\<rparr>"

text \<open>A thread and its timer are made together (\<open>initialize\<close>); \<open>now\<close> is the time of the clock service.\<close>

definition AddTimer :: "int \<Rightarrow> int \<Rightarrow> int \<Rightarrow> runtime_check \<Rightarrow> timer_scheduler \<Rightarrow> timer_scheduler" where
  "AddTimer now nPeriod nInitialDelay rc s =
     s\<lparr>m_oTimers := m_oTimers s @ [\<lparr>pTimer = length (ts_threads s), tmNextInstant = now + nInitialDelay, tmPeriod = nPeriod\<rparr>],
       ts_threads := ts_threads s @ [new_timer_thread rc]\<rparr>"

fun erase_timer :: "nat \<Rightarrow> timer_info list \<Rightarrow> timer_info list option" where
  "erase_timer i [] = None"
| "erase_timer i (t # ts) = (if pTimer t = i then Some ts else map_option ((#) t) (erase_timer i ts))"

definition RemoveTimer :: "nat \<Rightarrow> timer_scheduler \<Rightarrow> fep_result \<times> timer_scheduler" where
  "RemoveTimer i s =
     (case erase_timer i (m_oTimers s) of
        Some ts \<Rightarrow> (ERR_NOERROR, s\<lparr>m_oTimers := ts\<rparr>)
      | None \<Rightarrow> (ERR_NOT_FOUND, s))"

subsection \<open>Synchronous processing\<close>

text \<open>The place of a timer that has been advanced: timers that are due are passed by, and it stands before the first later one.\<close>

definition reinsert :: "int \<Rightarrow> timer_info \<Rightarrow> timer_info list \<Rightarrow> timer_info list" where
  "reinsert tmCurrent t others =
     (let passed = (\<lambda>other. tmNextInstant other \<le> tmCurrent \<or> \<not> tmNextInstant t < tmNextInstant other)
      in takeWhile passed others @ t # dropWhile passed others)"

type_synonym queue_state = "timer_info list \<times> timer_thread list"

text \<open>The jobs are the environment.\<close>

partial_function (option) process_queue ::
  "fep_result \<Rightarrow> (nat \<Rightarrow> job) \<Rightarrow> int \<Rightarrow> queue_state \<Rightarrow> (queue_state \<times> (nat \<times> job_event) list \<times> int) option" where
  "process_queue set_error jobs tmCurrent s =
     (case fst s of
        [] \<Rightarrow> Some (s, [], -1)
      | t # others \<Rightarrow>
          if tmNextInstant t \<noteq> 0 \<and> tmNextInstant t > tmCurrent then Some (s, [], tmNextInstant t - tmCurrent)
          else
            let timers = (if tmPeriod t \<noteq> 0 then reinsert tmCurrent (t\<lparr>tmNextInstant := tmNextInstant t + tmPeriod t\<rparr>) others
                          else others);
                i = pTimer t;
                r = thread_round set_error (jobs i) (tmNextInstant t) (snd s ! i)
            in if snd (snd r) then
                 do {
                   rest \<leftarrow> process_queue set_error jobs tmCurrent (timers, (snd s)[i := fst r]);
                   Some (fst rest, map (Pair i) (fst (snd r)) @ fst (snd rest), snd (snd rest))
                 }
               else None)"

definition ProcessSchedulerQueueSynchron ::
  "fep_result \<Rightarrow> (nat \<Rightarrow> job) \<Rightarrow> int \<Rightarrow> timer_scheduler \<Rightarrow> (timer_scheduler \<times> (nat \<times> job_event) list \<times> int) option" where
  "ProcessSchedulerQueueSynchron set_error jobs tmCurrent s =
     map_option (\<lambda>(q, es, wait). (s\<lparr>m_oTimers := fst q, ts_threads := snd q\<rparr>, es, wait))
       (process_queue set_error jobs tmCurrent (sort_key tmNextInstant (m_oTimers s), ts_threads s))"

subsection \<open>Asynchronous processing\<close>

text \<open>One pass over the timers: what is left of them, the threads that are woken, the shortest time to wait so far and
  whether another pass is due.\<close>

fun async_pass :: "int \<Rightarrow> timer_info list \<Rightarrow> int \<Rightarrow> timer_info list \<times> nat list \<times> int \<times> bool" where
  "async_pass tmCurrent [] min_wait = ([], [], min_wait, False)"
| "async_pass tmCurrent (t # ts) min_wait =
     (if tmNextInstant t \<noteq> 0 \<and> tmNextInstant t > tmCurrent then
        let diff = tmNextInstant t - tmCurrent;
            (ts, ws, m, again) = async_pass tmCurrent ts (if min_wait < 0 \<or> diff < min_wait then diff else min_wait)
        in (t # ts, ws, m, again)
      else if tmNextInstant t \<le> tmCurrent then
        let (ts, ws, m, again) = async_pass tmCurrent ts min_wait
        in if tmPeriod t \<le> 0 then (ts, pTimer t # ws, m, again)
           else (t\<lparr>tmNextInstant := tmNextInstant t + tmPeriod t\<rparr> # ts, pTimer t # ws, m, True)
      else
        let (ts, ws, m, again) = async_pass tmCurrent ts min_wait in (t # ts, ws, m, again))"

text \<open>The number is that of the passes left of 1000.\<close>

fun async_loop :: "nat \<Rightarrow> int \<Rightarrow> timer_info list \<Rightarrow> int \<Rightarrow> timer_info list \<times> nat list \<times> int" where
  "async_loop 0 tmCurrent ts min_wait = (ts, [], 0)"
| "async_loop (Suc n) tmCurrent ts min_wait =
     (let (ts, ws, m, again) = async_pass tmCurrent ts min_wait
      in if again then (let (ts, ws', m) = async_loop n tmCurrent ts m in (ts, ws @ ws', m))
         else (ts, ws, if n = 0 then 0 else m))"

definition ProcessSchedulerQueueAsynchron :: "int \<Rightarrow> timer_scheduler \<Rightarrow> timer_scheduler \<times> nat list \<times> int" where
  "ProcessSchedulerQueueAsynchron tmCurrent s =
     (let (ts, ws, wait) = async_loop 1000 tmCurrent (m_oTimers s) (-1) in (s\<lparr>m_oTimers := ts\<rparr>, ws, wait))"

datatype scheduler_wait = For_Event | Just_Yield | For_Microseconds int

definition wait_of :: "int \<Rightarrow> scheduler_wait" where
  "wait_of tmTimeToWait =
     (if tmTimeToWait < 0 then For_Event else if tmTimeToWait div 1000 = 0 then Just_Yield else For_Microseconds tmTimeToWait)"

text \<open>A round of the scheduler thread: \<open>None\<close> when it has been cancelled.\<close>

definition scheduler_round :: "bool \<Rightarrow> int \<Rightarrow> timer_scheduler \<Rightarrow> (timer_scheduler \<times> nat list \<times> scheduler_wait) option" where
  "scheduler_round is_continuous now s =
     (if m_bCancelled s then None
      else if is_continuous then (let (s, ws, wait) = ProcessSchedulerQueueAsynchron now s in Some (s, ws, wait_of wait))
      else Some (s, [], For_Event))"

subsection \<open>Start, stop and the events of the clock\<close>

definition Start ::
  "bool \<Rightarrow> fep_result \<Rightarrow> (nat \<Rightarrow> job) \<Rightarrow> timer_scheduler \<Rightarrow> (timer_scheduler \<times> (nat \<times> job_event) list) option" where
  "Start is_discrete set_error jobs s =
     do {
       r \<leftarrow> (if m_StartUpResetTime s > -1 \<and> is_discrete
             then map_option (\<lambda>(s, es, _). (s, es)) (ProcessSchedulerQueueSynchron set_error jobs (m_StartUpResetTime s) s)
             else Some (s, []));
       Some ((fst r)\<lparr>m_bStarted := True\<rparr>, snd r)
     }"

definition Stop :: "timer_scheduler \<Rightarrow> timer_scheduler" where
  "Stop s = s\<lparr>m_bCancelled := True, m_bStarted := False, m_StartUpResetTime := -1\<rparr>"

definition timeResetBegin :: "int \<Rightarrow> int \<Rightarrow> timer_scheduler \<Rightarrow> timer_scheduler" where
  "timeResetBegin nOldTime nNewTime s =
     (let s = (if \<not> m_bStarted s then s\<lparr>m_StartUpResetTime := nNewTime\<rparr> else s);
          bForward = (nOldTime < nNewTime);
          ts = map (\<lambda>t. t\<lparr>tmNextInstant := tmNextInstant t + (nNewTime - nOldTime)\<rparr>) (m_oTimers s);
          ths = (if bForward then ts_threads s
                 else fold (\<lambda>t ths. ths[pTimer t := thread_Reset (ths ! pTimer t)]) (m_oTimers s) (ts_threads s))
      in s\<lparr>m_oTimers := ts, ts_threads := ths\<rparr>)"

definition timeResetEnd ::
  "bool \<Rightarrow> fep_result \<Rightarrow> (nat \<Rightarrow> job) \<Rightarrow> int \<Rightarrow> timer_scheduler \<Rightarrow> (timer_scheduler \<times> (nat \<times> job_event) list) option" where
  "timeResetEnd is_discrete set_error jobs nNewTime s =
     (if m_bStarted s \<and> is_discrete
      then map_option (\<lambda>(s, es, _). (s, es)) (ProcessSchedulerQueueSynchron set_error jobs nNewTime s)
      else Some (s, []))"

definition timeUpdating ::
  "fep_result \<Rightarrow> (nat \<Rightarrow> job) \<Rightarrow> int \<Rightarrow> timer_scheduler \<Rightarrow> (timer_scheduler \<times> (nat \<times> job_event) list) option" where
  "timeUpdating set_error jobs nNewTime s =
     (if m_bStarted s
      then map_option (\<lambda>(s, es, _). (s, es)) (ProcessSchedulerQueueSynchron set_error jobs nNewTime s)
      else Some (s, []))"

text \<open>Stopping the thread of a timer removes the timer and ends the thread; stopping the scheduler stops all of them. A thread
  that is no longer there is passed over. \<open>deinitialize\<close> also forgets the threads and the queue.\<close>

definition timer_Stop :: "nat \<Rightarrow> timer_scheduler \<Rightarrow> timer_scheduler" where
  "timer_Stop i s = (let s = snd (RemoveTimer i s) in s\<lparr>ts_threads := (ts_threads s)[i := (ts_threads s ! i)\<lparr>tt_running := False\<rparr>]\<rparr>)"

definition stop_scheduler :: "timer_scheduler \<Rightarrow> timer_scheduler" where
  "stop_scheduler s = fold timer_Stop [0..<length (ts_threads s)] (Stop s)"

definition deinitialize_scheduler :: "timer_scheduler \<Rightarrow> timer_scheduler" where
  "deinitialize_scheduler s = new_timer_scheduler"

text \<open>The updates of a clock, one after the other.\<close>

fun run_updates ::
  "fep_result \<Rightarrow> (nat \<Rightarrow> job) \<Rightarrow> int list \<Rightarrow> timer_scheduler \<Rightarrow> (timer_scheduler \<times> (nat \<times> job_event) list) option" where
  "run_updates set_error jobs [] s = Some (s, [])"
| "run_updates set_error jobs (t # ts) s =
     do {
       r \<leftarrow> timeUpdating set_error jobs t s;
       r' \<leftarrow> run_updates set_error jobs ts (fst r);
       Some (fst r', snd r @ snd r')
     }"

section \<open>When timers are called\<close>

text \<open>The specification: a timer is due at its next instant and every period after it, a timer without a period once.\<close>

definition due_count :: "int \<Rightarrow> timer_info \<Rightarrow> nat" where
  "due_count tmCurrent t =
     (if tmNextInstant t \<le> tmCurrent then
        (if tmPeriod t = 0 then 1 else nat ((tmCurrent - tmNextInstant t) div tmPeriod t) + 1)
      else 0)"

definition due_instants :: "int \<Rightarrow> timer_info \<Rightarrow> int list" where
  "due_instants tmCurrent t = map (\<lambda>k. tmNextInstant t + int k * tmPeriod t) [0..<due_count tmCurrent t]"

definition advance :: "int \<Rightarrow> timer_info \<Rightarrow> timer_info option" where
  "advance tmCurrent t =
     (if tmPeriod t = 0 \<and> tmNextInstant t \<le> tmCurrent then None
      else Some (t\<lparr>tmNextInstant := tmNextInstant t + int (due_count tmCurrent t) * tmPeriod t\<rparr>))"

abbreviation next_timer :: "timer_info \<Rightarrow> timer_info" where
  "next_timer t \<equiv> t\<lparr>tmNextInstant := tmNextInstant t + tmPeriod t\<rparr>"

lemma due_count_0 [simp]: "due_count c t = 0 \<longleftrightarrow> c < tmNextInstant t"
  by (auto simp: due_count_def)

lemma due_count_next:
  assumes "0 < tmPeriod t" "tmNextInstant t \<le> c"
  shows "due_count c t = Suc (due_count c (next_timer t))"
proof -
  let ?d = "c - tmNextInstant t" and ?p = "tmPeriod t"
  have d: "0 \<le> ?d" using assms by simp
  show ?thesis
  proof (cases "tmNextInstant t + ?p \<le> c")
    case True
    have "?d div ?p = (?d - ?p) div ?p + 1" using assms by (simp add: div_pos_geq [of ?p ?d] True algebra_simps)
    moreover have "0 \<le> (?d - ?p) div ?p" using True assms by (intro pos_imp_zdiv_nonneg_iff [THEN iffD2]) auto
    ultimately have "nat (?d div ?p) = Suc (nat ((?d - ?p) div ?p))" by simp
    then show ?thesis using assms True by (simp add: due_count_def algebra_simps)
  next
    case False
    then have "?d div ?p = 0" using d by (intro div_pos_pos_trivial) auto
    then show ?thesis using assms False by (simp add: due_count_def)
  qed
qed

lemma due_instants_next:
  assumes "0 < tmPeriod t" "tmNextInstant t \<le> c"
  shows "due_instants c t = tmNextInstant t # due_instants c (next_timer t)"
  using assms by (simp add: due_instants_def due_count_next upt_conv_Cons map_Suc_upt [symmetric] algebra_simps del: upt_Suc map_Suc_upt)

lemma due_instants_once: "tmPeriod t = 0 \<Longrightarrow> tmNextInstant t \<le> c \<Longrightarrow> due_instants c t = [tmNextInstant t]"
  by (simp add: due_instants_def due_count_def)

lemma due_instants_later [simp]: "c < tmNextInstant t \<Longrightarrow> due_instants c t = []"
  by (simp add: due_instants_def)

lemma advance_next: "0 < tmPeriod t \<Longrightarrow> tmNextInstant t \<le> c \<Longrightarrow> advance c t = advance c (next_timer t)"
  by (simp add: advance_def due_count_next algebra_simps)

lemma advance_later [simp]: "c < tmNextInstant t \<Longrightarrow> advance c t = Some t"
  by (simp add: advance_def due_count_def)

lemma advance_fields: "advance c t = Some t' \<Longrightarrow> pTimer t' = pTimer t \<and> tmPeriod t' = tmPeriod t"
  by (auto simp: advance_def split: if_splits)

subsection \<open>One call of a thread\<close>

text \<open>A job that neither fails nor takes too long under a strategy that ends it.\<close>

definition sound_thread :: "job \<Rightarrow> timer_thread \<Rightarrow> bool" where
  "sound_thread j th \<longleftrightarrow> tt_running th \<and> \<not> rc_cancelled (tt_check th) \<and> (\<forall>t. execute j t = ERR_NOERROR) \<and>
     (rc_time_violation_strategy (tt_check th) = JTS_SET_STM_TO_ERROR \<longrightarrow>
      rc_max_runtime (tt_check th) \<le> 0 \<or> (\<forall>t. execution_time j t \<le> rc_max_runtime (tt_check th)))"

definition executed :: "job_event list \<Rightarrow> int list" where
  "executed es = concat (map (\<lambda>e. case e of Execute t \<Rightarrow> [t] | _ \<Rightarrow> []) es)"

lemma executed_simps [simp]:
  "executed [] = []" "executed (Execute t # es) = t # executed es" "executed (Data_In t # es) = executed es"
  "executed (Data_Out t # es) = executed es" "executed (Warning_Incident # es) = executed es"
  "executed (Critical_Incident # es) = executed es" "executed (Set_To_Error_State # es) = executed es"
  "executed (es @ es') = executed es @ executed es'" "executed (warn_if_failed r @ es) = executed es"
  by (simp_all add: executed_def warn_if_failed_def)

lemma executed_warn [simp]: "executed (warn_if_failed r) = []"
  by (simp add: warn_if_failed_def)

lemma runJob_sound:
  assumes "sound_thread j th"
  shows "\<exists>rc es. runJob set_error t j (tt_check th) = (ERR_NOERROR, rc, es) \<and> executed es = [t] \<and>
    rc_time_violation_strategy rc = rc_time_violation_strategy (tt_check th) \<and> rc_max_runtime rc = rc_max_runtime (tt_check th) \<and>
    \<not> rc_cancelled rc"
proof -
  have "\<not> (0 < rc_max_runtime (tt_check th) \<and> execution_time j t > rc_max_runtime (tt_check th))"
    if "rc_time_violation_strategy (tt_check th) = JTS_SET_STM_TO_ERROR"
    using assms that by (auto simp: sound_thread_def not_less)
  then show ?thesis using assms
    by (cases "rc_time_violation_strategy (tt_check th)")
      (auto simp: sound_thread_def runJob_def applyTimeViolationStrategy_def Let_def)
qed

lemma thread_round_sound:
  assumes "sound_thread j th" "m_tmLastCallTime th = -1 \<or> m_tmLastCallTime th < t"
  shows "\<exists>th' es. thread_round set_error j t th = (th', es, True) \<and> sound_thread j th' \<and> m_tmLastCallTime th' = t \<and> executed es = [t]"
proof -
  obtain rc es where r: "runJob set_error t j (tt_check th) = (ERR_NOERROR, rc, es)" "executed es = [t]"
      "rc_time_violation_strategy rc = rc_time_violation_strategy (tt_check th)" "rc_max_runtime rc = rc_max_runtime (tt_check th)"
      "\<not> rc_cancelled rc"
    using runJob_sound [OF assms(1)] by blast
  have "sound_thread j (th\<lparr>m_tmLastCallTime := t, tt_check := rc\<rparr>)" using assms(1) r by (simp add: sound_thread_def)
  then show ?thesis using r(1,2) assms by (auto simp: thread_round_def sound_thread_def)
qed

subsection \<open>The loop of the synchronous processing\<close>

definition executions :: "nat \<Rightarrow> (nat \<times> job_event) list \<Rightarrow> int list" where
  "executions i es = executed (map snd (filter (\<lambda>e. fst e = i) es))"

lemma executions_append [simp]: "executions i (es @ es') = executions i es @ executions i es'"
  by (simp add: executions_def)

lemma executions_Nil [simp]: "executions i [] = []"
  by (simp add: executions_def)

lemma executions_of [simp]: "executions i (map (Pair k) es) = (if i = k then executed es else [])"
  by (induction es) (auto simp: executions_def executed_def)

definition ready_queue :: "(nat \<Rightarrow> job) \<Rightarrow> queue_state \<Rightarrow> bool" where
  "ready_queue jobs q \<longleftrightarrow> distinct (map pTimer (fst q)) \<and>
     (\<forall>t \<in> set (fst q). 0 \<le> tmPeriod t \<and> pTimer t < length (snd q) \<and> sound_thread (jobs (pTimer t)) (snd q ! pTimer t) \<and>
       (m_tmLastCallTime (snd q ! pTimer t) = -1 \<or> m_tmLastCallTime (snd q ! pTimer t) < tmNextInstant t))"

definition time_to_wait :: "int \<Rightarrow> timer_info list \<Rightarrow> int" where
  "time_to_wait c ts = (case ts of [] \<Rightarrow> -1 | t # _ \<Rightarrow> tmNextInstant t - c)"

lemma reinsert_due:
  assumes "\<forall>d \<in> set D. tmNextInstant d \<le> c" "\<forall>f \<in> set F. c < tmNextInstant f" "tmNextInstant t \<le> c"
  shows "reinsert c t (D @ F) = (D @ [t]) @ F"
proof -
  have "takeWhile (\<lambda>other. tmNextInstant other \<le> c \<or> \<not> tmNextInstant t < tmNextInstant other) F = []"
    using assms(2,3) by (cases F) auto
  moreover from this have "dropWhile (\<lambda>other. tmNextInstant other \<le> c \<or> \<not> tmNextInstant t < tmNextInstant other) F = F"
    by (metis takeWhile_dropWhile_id append_Nil)
  ultimately show ?thesis using assms(1) by (simp add: reinsert_def takeWhile_append2 dropWhile_append2)
qed

lemma reinsert_set: "set (reinsert c t others) = insert t (set others)"
proof -
  have "set (A @ t # B) = insert t (set (A @ B))" for A B by auto
  then show ?thesis by (simp only: reinsert_def Let_def takeWhile_dropWhile_id)
qed

lemma distinct_middle: "distinct (map f (A @ t # B)) \<longleftrightarrow> distinct (map f (t # A @ B))"
  by auto

lemma reinsert_distinct: "distinct (map pTimer (reinsert c t others)) \<longleftrightarrow> distinct (map pTimer (t # others))"
  unfolding reinsert_def Let_def distinct_middle by simp

lemma reinsert_later:
  assumes "\<forall>d \<in> set D. tmNextInstant d \<le> c" "\<forall>f \<in> set F. c < tmNextInstant f" "c < tmNextInstant t"
    and "sorted (map tmNextInstant F)"
  shows "\<exists>F'. reinsert c t (D @ F) = D @ F' \<and> set F' = insert t (set F) \<and> sorted (map tmNextInstant F')"
proof -
  let ?P = "\<lambda>other. tmNextInstant other \<le> c \<or> \<not> tmNextInstant t < tmNextInstant other"
  obtain A B where AB: "takeWhile ?P F = A" "dropWhile ?P F = B" by blast
  then have F: "F = A @ B" using takeWhile_dropWhile_id [of ?P F] by simp
  have A: "\<forall>x \<in> set A. tmNextInstant x \<le> tmNextInstant t" using assms(3) AB(1) by (auto dest: set_takeWhileD)
  have B: "\<forall>x \<in> set B. tmNextInstant t \<le> tmNextInstant x"
  proof (cases B)
    case (Cons b bs)
    have "\<not> ?P b" using hd_dropWhile [of ?P F] AB(2) Cons by simp
    then show ?thesis using assms(4) unfolding F Cons by (auto simp: sorted_append)
  qed simp
  have "sorted (map tmNextInstant (A @ t # B))" using assms(4) A B unfolding F by (auto simp: sorted_append)
  moreover have "reinsert c t (D @ F) = D @ (A @ t # B)"
    using assms(1) by (simp add: reinsert_def takeWhile_append2 dropWhile_append2 AB)
  moreover have "set (A @ t # B) = insert t (set F)" unfolding F by auto
  ultimately show ?thesis by blast
qed

lemma process_later:
  assumes "0 \<le> c" "\<forall>f \<in> set ts. c < tmNextInstant f"
  shows "process_queue set_error jobs c (ts, ths) = Some ((ts, ths), [], time_to_wait c ts)"
  using assms by (cases ts) (simp_all add: process_queue.simps time_to_wait_def)

lemma process_due:
  assumes "tmNextInstant t \<le> c" "thread_round set_error (jobs (pTimer t)) (tmNextInstant t) (ths ! pTimer t) = (th', es, True)"
  shows "process_queue set_error jobs c (t # others, ths) =
    map_option (\<lambda>(q, es', wait). (q, map (Pair (pTimer t)) es @ es', wait))
      (process_queue set_error jobs c
        (if tmPeriod t \<noteq> 0 then reinsert c (next_timer t) others else others, ths[pTimer t := th']))"
proof -
  let ?rest = "process_queue set_error jobs c
      (if tmPeriod t \<noteq> 0 then reinsert c (next_timer t) others else others, ths[pTimer t := th'])"
  have "process_queue set_error jobs c (t # others, ths) =
      Option.bind ?rest (\<lambda>rest. Some (fst rest, map (Pair (pTimer t)) es @ fst (snd rest), snd (snd rest)))"
    using assms by (subst process_queue.simps) (simp add: Let_def)
  then show ?thesis by (cases ?rest) (simp_all only: bind.simps option.map case_prod_beta)
qed

text \<open>What the loop establishes.\<close>

definition processed :: "(nat \<Rightarrow> job) \<Rightarrow> int \<Rightarrow> timer_info list \<Rightarrow> queue_state \<Rightarrow> (nat \<times> job_event) list \<Rightarrow> bool" where
  "processed jobs c ts q es \<longleftrightarrow> ready_queue jobs q \<and> sorted (map tmNextInstant (fst q)) \<and>
     (\<forall>t. t \<in> set (fst q) \<longleftrightarrow> (\<exists>t0 \<in> set ts. advance c t0 = Some t)) \<and> (\<forall>t \<in> set (fst q). c < tmNextInstant t) \<and>
     (\<forall>t \<in> set ts. executions (pTimer t) es = due_instants c t) \<and> (\<forall>i. i \<notin> pTimer ` set ts \<longrightarrow> executions i es = [])"

lemma ready_queue_call:
  assumes "ready_queue jobs (t # others, ths)" "sound_thread (jobs (pTimer t)) th'" "m_tmLastCallTime th' = tmNextInstant t"
  shows "ready_queue jobs (others, ths[pTimer t := th'])"
    "0 < tmPeriod t \<Longrightarrow> ready_queue jobs (reinsert c (next_timer t) others, ths[pTimer t := th'])"
proof -
  have other: "x \<in> set others \<Longrightarrow> ths[pTimer t := th'] ! pTimer x = ths ! pTimer x" for x
    using assms(1) by (auto simp: ready_queue_def nth_list_update)
  show "ready_queue jobs (others, ths[pTimer t := th'])"
    using assms(1) other by (auto simp: ready_queue_def)
  then show "0 < tmPeriod t \<Longrightarrow> ready_queue jobs (reinsert c (next_timer t) others, ths[pTimer t := th'])"
    using assms by (auto simp: ready_queue_def reinsert_set reinsert_distinct)
qed

lemma process_sound:
  "ready_queue jobs (D @ F, ths) \<Longrightarrow> 0 \<le> c \<Longrightarrow> \<forall>d \<in> set D. tmNextInstant d \<le> c \<Longrightarrow> \<forall>f \<in> set F. c < tmNextInstant f \<Longrightarrow>
   sorted (map tmNextInstant F) \<Longrightarrow>
   \<exists>q es. process_queue set_error jobs c (D @ F, ths) = Some (q, es, time_to_wait c (fst q)) \<and> processed jobs c (D @ F) q es"
proof (induction "sum_list (map (due_count c) D)" arbitrary: D F ths rule: less_induct)
  case less
  show ?case
  proof (cases D)
    case Nil
    then show ?thesis using less.prems process_later [of c F set_error jobs ths] by (auto simp: processed_def)
  next
    case (Cons t D')
    let ?i = "pTimer t"
    have t: "tmNextInstant t \<le> c" "0 \<le> tmPeriod t" using less.prems by (auto simp: Cons ready_queue_def)
    have D': "\<forall>d \<in> set D'. tmNextInstant d \<le> c" using less.prems(3) by (simp add: Cons)
    have "sound_thread (jobs ?i) (ths ! ?i)" "m_tmLastCallTime (ths ! ?i) = -1 \<or> m_tmLastCallTime (ths ! ?i) < tmNextInstant t"
      using less.prems(1) by (auto simp: Cons ready_queue_def)
    from thread_round_sound [OF this] obtain th' es where call:
      "thread_round set_error (jobs ?i) (tmNextInstant t) (ths ! ?i) = (th', es, True)"
      "sound_thread (jobs ?i) th'" "m_tmLastCallTime th' = tmNextInstant t" "executed es = [tmNextInstant t]" by blast
    have rq: "ready_queue jobs (t # D' @ F, ths)" using less.prems(1) by (simp add: Cons)
    note rest = ready_queue_call [OF rq call(2,3)]
    have fresh: "?i \<notin> pTimer ` set (D' @ F)" using rq by (auto simp: ready_queue_def)
    have neq: "pTimer x \<noteq> ?i" if "x \<in> set (D' @ F)" for x using fresh that by (metis image_eqI)
    show ?thesis
    proof (cases "tmPeriod t = 0")
      case True
      have "sum_list (map (due_count c) D') < sum_list (map (due_count c) D)"
        using t by (simp add: Cons due_count_def)
      from less.hyps [OF this rest(1) less.prems(2) D' less.prems(4,5)]
      obtain q es' where IH: "process_queue set_error jobs c (D' @ F, ths[?i := th']) = Some (q, es', time_to_wait c (fst q))"
        "processed jobs c (D' @ F) q es'" by blast
      have "processed jobs c (D @ F) q (map (Pair ?i) es @ es')"
      proof -
        have none: "advance c t = None" using True t by (simp add: advance_def)
        have "t' \<in> set (fst q) \<longleftrightarrow> (\<exists>t0 \<in> set (D @ F). advance c t0 = Some t')" for t'
          using IH(2) none by (simp add: processed_def Cons)
        moreover have "executions (pTimer t0) (map (Pair ?i) es @ es') = due_instants c t0" if "t0 \<in> set (D @ F)" for t0
          using that IH(2) fresh neq call(4) due_instants_once [OF True t(1)] by (auto simp: processed_def Cons)
        moreover have "executions i (map (Pair ?i) es @ es') = []" if "i \<notin> pTimer ` set (D @ F)" for i
          using that IH(2) by (simp add: processed_def Cons)
        ultimately show ?thesis using IH(2) by (simp add: processed_def)
      qed
      then show ?thesis using IH(1) process_due [of t c set_error jobs ths th' es "D' @ F", OF t(1) call(1)] True by (simp add: Cons)
    next
      case False
      then have p: "0 < tmPeriod t" using t by simp
      have split: "\<exists>D1 F1. reinsert c (next_timer t) (D' @ F) = D1 @ F1 \<and> (\<forall>d \<in> set D1. tmNextInstant d \<le> c) \<and>
          (\<forall>f \<in> set F1. c < tmNextInstant f) \<and> sorted (map tmNextInstant F1) \<and>
          sum_list (map (due_count c) D1) < sum_list (map (due_count c) D)"
      proof (cases "tmNextInstant t + tmPeriod t \<le> c")
        case True
        then show ?thesis using reinsert_due [OF D' less.prems(4), of "next_timer t"] D' less.prems(4,5) due_count_next [OF p t(1)]
          by (intro exI [of _ "D' @ [next_timer t]"] exI [of _ F]) (auto simp: Cons)
      next
        case False
        then obtain F' where "reinsert c (next_timer t) (D' @ F) = D' @ F'" "set F' = insert (next_timer t) (set F)"
            "sorted (map tmNextInstant F')"
          using reinsert_later [OF D' less.prems(4) _ less.prems(5), of "next_timer t"] by auto
        then show ?thesis using False D' less.prems(4) due_count_next [OF p t(1)]
          by (intro exI [of _ D'] exI [of _ F']) (auto simp: Cons)
      qed
      then obtain D1 F1 where D1: "reinsert c (next_timer t) (D' @ F) = D1 @ F1" "\<forall>d \<in> set D1. tmNextInstant d \<le> c"
          "\<forall>f \<in> set F1. c < tmNextInstant f" "sorted (map tmNextInstant F1)"
          "sum_list (map (due_count c) D1) < sum_list (map (due_count c) D)" by blast
      have "ready_queue jobs (D1 @ F1, ths[?i := th'])" using rest(2) [OF p, of c] D1(1) by simp
      from less.hyps [OF D1(5) this less.prems(2) D1(2-4)]
      obtain q es' where IH: "process_queue set_error jobs c (D1 @ F1, ths[?i := th']) = Some (q, es', time_to_wait c (fst q))"
        "processed jobs c (D1 @ F1) q es'" by blast
      have set: "set (D1 @ F1) = insert (next_timer t) (set (D' @ F))"
        unfolding D1(1) [symmetric] by (rule reinsert_set)
      have "processed jobs c (D @ F) q (map (Pair ?i) es @ es')"
      proof -
        have "t' \<in> set (fst q) \<longleftrightarrow> (\<exists>t0 \<in> set (D @ F). advance c t0 = Some t')" for t'
          using IH(2) advance_next [OF p t(1)] unfolding processed_def set by (simp add: Cons)
        moreover have "executions (pTimer t0) (map (Pair ?i) es @ es') = due_instants c t0" if "t0 \<in> set (D @ F)" for t0
          using that IH(2) fresh neq call(4) due_instants_next [OF p t(1)] unfolding processed_def set by (auto simp: Cons)
        moreover have "executions i (map (Pair ?i) es @ es') = []" if "i \<notin> pTimer ` set (D @ F)" for i
          using that IH(2) unfolding processed_def set by (auto simp: Cons)
        ultimately show ?thesis using IH(2) by (simp add: processed_def)
      qed
      then show ?thesis using IH(1) process_due [of t c set_error jobs ths th' es "D' @ F", OF t(1) call(1)] False D1(1) by (simp add: Cons)
    qed
  qed
qed

subsection \<open>From update to update\<close>

lemma due_instants_split:
  "0 \<le> tmPeriod t \<Longrightarrow> c1 \<le> c2 \<Longrightarrow>
   due_instants c2 t = due_instants c1 t @ (case advance c1 t of None \<Rightarrow> [] | Some t' \<Rightarrow> due_instants c2 t')"
proof (induction "due_count c1 t" arbitrary: t)
  case 0
  then show ?case by simp
next
  case (Suc n)
  then have t: "tmNextInstant t \<le> c1" by (metis due_count_0 not_less Zero_not_Suc)
  show ?case
  proof (cases "tmPeriod t = 0")
    case True
    then show ?thesis using t Suc.prems(2) by (simp add: due_instants_once advance_def)
  next
    case False
    then have p: "0 < tmPeriod t" using Suc.prems(1) by simp
    have "n = due_count c1 (next_timer t)" using Suc.hyps(2) due_count_next [OF p t] by simp
    from Suc.hyps(1) [OF this] have "due_instants c2 (next_timer t) =
        due_instants c1 (next_timer t) @ (case advance c1 (next_timer t) of None \<Rightarrow> [] | Some t' \<Rightarrow> due_instants c2 t')"
      using Suc.prems by simp
    then show ?thesis using due_instants_next [OF p t] due_instants_next [OF p, of c2] t Suc.prems(2) advance_next [OF p t] by simp
  qed
qed

lemma ready_queue_sort: "ready_queue jobs (sort_key tmNextInstant ts, ths) \<longleftrightarrow> ready_queue jobs (ts, ths)"
proof -
  have "mset (map pTimer (sort_key tmNextInstant ts)) = mset (map pTimer ts)" by simp
  then have "distinct (map pTimer (sort_key tmNextInstant ts)) \<longleftrightarrow> distinct (map pTimer ts)" by (rule mset_eq_imp_distinct_iff)
  then show ?thesis by (simp add: ready_queue_def)
qed

lemma synchron_sound:
  assumes "ready_queue jobs (m_oTimers s, ts_threads s)" "0 \<le> c"
  shows "\<exists>s' es. ProcessSchedulerQueueSynchron set_error jobs c s = Some (s', es, time_to_wait c (m_oTimers s')) \<and>
    processed jobs c (m_oTimers s) (m_oTimers s', ts_threads s') es \<and>
    s' = s\<lparr>m_oTimers := m_oTimers s', ts_threads := ts_threads s'\<rparr>"
proof -
  let ?L = "sort_key tmNextInstant (m_oTimers s)"
  let ?due = "\<lambda>t. tmNextInstant t \<le> c"
  have L: "takeWhile ?due ?L @ dropWhile ?due ?L = ?L" by simp
  have sorted: "sorted (map tmNextInstant ?L)" by simp
  have later: "\<forall>f \<in> set (dropWhile ?due ?L). c < tmNextInstant f"
  proof (cases "dropWhile ?due ?L")
    case (Cons f fs)
    have "\<not> ?due f" using hd_dropWhile [of ?due ?L] Cons by simp
    moreover have "sorted (map tmNextInstant (f # fs))" using sorted by (metis L Cons map_append sorted_append)
    ultimately show ?thesis unfolding Cons by auto
  next
    case Nil
    show ?thesis unfolding Nil by simp
  qed
  have early: "\<forall>d \<in> set (takeWhile ?due ?L). ?due d" by (auto dest: set_takeWhileD)
  have rq: "ready_queue jobs (takeWhile ?due ?L @ dropWhile ?due ?L, ts_threads s)"
    unfolding L using assms(1) by (simp add: ready_queue_sort)
  have "sorted (map tmNextInstant (dropWhile ?due ?L))" using sorted by (metis L map_append sorted_append)
  from process_sound [OF rq assms(2) early later this, of set_error]
  obtain q es where q: "process_queue set_error jobs c (?L, ts_threads s) = Some (q, es, time_to_wait c (fst q))"
      "processed jobs c ?L q es"
    unfolding L by blast
  have "processed jobs c (m_oTimers s) q es" using q(2) by (simp add: processed_def)
  then show ?thesis using q(1)
    by (intro exI [of _ "s\<lparr>m_oTimers := fst q, ts_threads := snd q\<rparr>"] exI [of _ es])
      (simp add: ProcessSchedulerQueueSynchron_def)
qed

lemma updates_sound:
  "ready_queue jobs (m_oTimers s, ts_threads s) \<Longrightarrow> m_bStarted s \<Longrightarrow> sorted (c # cs) \<Longrightarrow> 0 \<le> c \<Longrightarrow>
   \<exists>s' es. run_updates set_error jobs (c # cs) s = Some (s', es) \<and>
     (\<forall>t \<in> set (m_oTimers s). executions (pTimer t) es = due_instants (last (c # cs)) t) \<and>
     (\<forall>i. i \<notin> pTimer ` set (m_oTimers s) \<longrightarrow> executions i es = [])"
proof (induction cs arbitrary: c s)
  case Nil
  then obtain s' es where "ProcessSchedulerQueueSynchron set_error jobs c s = Some (s', es, time_to_wait c (m_oTimers s'))"
      "processed jobs c (m_oTimers s) (m_oTimers s', ts_threads s') es"
    using synchron_sound by blast
  then show ?case using Nil.prems(2) by (simp add: timeUpdating_def processed_def)
next
  case (Cons c' cs)
  obtain s1 es1 where s1: "ProcessSchedulerQueueSynchron set_error jobs c s = Some (s1, es1, time_to_wait c (m_oTimers s1))"
      "processed jobs c (m_oTimers s) (m_oTimers s1, ts_threads s1) es1" "m_bStarted s1"
    using synchron_sound [OF Cons.prems(1,4), of set_error] Cons.prems(2) by (metis timer_scheduler.simps(5) timer_scheduler.select_convs(5) timer_scheduler.surjective timer_scheduler.update_convs(1,2))
  have "ready_queue jobs (m_oTimers s1, ts_threads s1)" using s1(2) by (simp add: processed_def)
  from Cons.IH [OF this s1(3), of c'] Cons.prems(3,4) obtain s2 es2 where s2:
      "run_updates set_error jobs (c' # cs) s1 = Some (s2, es2)"
      "\<forall>t \<in> set (m_oTimers s1). executions (pTimer t) es2 = due_instants (last (c' # cs)) t"
      "\<forall>i. i \<notin> pTimer ` set (m_oTimers s1) \<longrightarrow> executions i es2 = []" by auto
  have "run_updates set_error jobs (c # c' # cs) s = Some (s2, es1 @ es2)"
    using s1(1) s2(1) Cons.prems(2) by (subst run_updates.simps(2)) (simp add: timeUpdating_def del: run_updates.simps)
  moreover have "executions (pTimer t) (es1 @ es2) = due_instants (last (c # c' # cs)) t" if t: "t \<in> set (m_oTimers s)" for t
  proof -
    have le: "c \<le> last (c' # cs)" using Cons.prems(3) by (metis last_in_set list.distinct(1) sorted_wrt.simps(2))
    have "0 \<le> tmPeriod t" using Cons.prems(1) t by (simp add: ready_queue_def)
    note split = due_instants_split [OF this le]
    have "executions (pTimer t) es2 = (case advance c t of None \<Rightarrow> [] | Some t' \<Rightarrow> due_instants (last (c' # cs)) t')"
    proof (cases "advance c t")
      case None
      have "pTimer t \<notin> pTimer ` set (m_oTimers s1)"
      proof
        assume "pTimer t \<in> pTimer ` set (m_oTimers s1)"
        then obtain t1 where t1: "t1 \<in> set (m_oTimers s1)" "pTimer t1 = pTimer t" by (metis imageE)
        then obtain t0 where "t0 \<in> set (m_oTimers s)" "advance c t0 = Some t1"
          using s1(2) unfolding processed_def by auto
        then have "t0 \<in> set (m_oTimers s)" "advance c t0 = Some t1" "pTimer t0 = pTimer t" using t1(2) advance_fields by auto
        then have "t0 = t" using Cons.prems(1) t unfolding ready_queue_def distinct_map inj_on_def by auto
        then show False using None \<open>advance c t0 = Some t1\<close> by simp
      qed
      then show ?thesis using s2(3) None by simp
    next
      case (Some t')
      then have "t' \<in> set (m_oTimers s1)" using s1(2) t unfolding processed_def by auto
      then show ?thesis using s2(2) Some advance_fields [OF Some] by auto
    qed
    then show ?thesis using split s1(2) t by (simp add: processed_def)
  qed
  moreover have "executions i (es1 @ es2) = []" if i: "i \<notin> pTimer ` set (m_oTimers s)" for i
  proof -
    have "i \<notin> pTimer ` set (m_oTimers s1)" using i s1(2) advance_fields unfolding processed_def by fastforce
    then show ?thesis using s1(2) s2(3) i by (simp add: processed_def)
  qed
  ultimately show ?case by blast
qed

text \<open>C18: A started scheduler on a discrete clock whose time goes on from a time that is not negative: every timer runs its job at
  its next instant and every period after it up to the time of the last update, each once and in order, whatever the steps of the
  clock. The queue has to be ready: each timer has a thread of its own that runs and has last been called before the next instant,
  if at all; no period is negative; and no job fails, nor does one whose strategy is the error state exceed its runtime. One job
  that does blocks the clock and with it all timers (\<open>failing_job_blocks_clock\<close>).\<close>
theorem timers_called_at_their_instants:
  assumes "ready_queue jobs (m_oTimers s, ts_threads s)" "m_bStarted s" "sorted (c # cs)" "0 \<le> c" "t \<in> set (m_oTimers s)"
  shows "\<exists>s' es. run_updates set_error jobs (c # cs) s = Some (s', es) \<and>
    executions (pTimer t) es = due_instants (last (c # cs)) t"
  using updates_sound [OF assms(1-4), of set_error] assms(5) by blast

definition quick_job :: job where
  "quick_job = \<lparr>executeDataIn = (\<lambda>_. ERR_NOERROR), execute = (\<lambda>_. ERR_NOERROR), execution_time = (\<lambda>_. 1), executeDataOut = (\<lambda>_. ERR_NOERROR)\<rparr>"

definition demo_scheduler :: timer_scheduler where
  "demo_scheduler = (AddTimer 0 3 1 (new_runtime_check JTS_WARN_ABOUT_RUNTIME_VIOLATION 0)
     (AddTimer 0 2 0 (new_runtime_check JTS_SET_STM_TO_ERROR 5) new_timer_scheduler))\<lparr>m_bStarted := True\<rparr>"

lemma demo_scheduler_ready: "ready_queue (\<lambda>_. quick_job) (m_oTimers demo_scheduler, ts_threads demo_scheduler)"
  by (simp add: demo_scheduler_def ready_queue_def AddTimer_def new_timer_scheduler_def new_timer_thread_def sound_thread_def
      quick_job_def new_runtime_check_def nth_append)

theorem timers_called_at_their_instants_witness:
  "\<exists>s' es. run_updates ERR_NOERROR (\<lambda>_. quick_job) [0, 4, 5] demo_scheduler = Some (s', es) \<and> executions 1 es = [1, 4]"
proof -
  let ?t = "\<lparr>pTimer = 1, tmNextInstant = 1, tmPeriod = 3\<rparr>"
  have "?t \<in> set (m_oTimers demo_scheduler)" "m_bStarted demo_scheduler"
    by (simp_all add: demo_scheduler_def AddTimer_def new_timer_scheduler_def)
  then have "\<exists>s' es. run_updates ERR_NOERROR (\<lambda>_. quick_job) [0, 4, 5] demo_scheduler = Some (s', es) \<and>
      executions (pTimer ?t) es = due_instants (last [0, 4, 5]) ?t"
    by (intro timers_called_at_their_instants [OF demo_scheduler_ready]) simp_all
  moreover have "due_instants (last [0, 4, 5]) ?t = [1, 4]" by code_simp
  ultimately show ?thesis by simp
qed

subsection \<open>On the simulated clock of the system\<close>

text \<open>The scheduler is a sink of the clock.\<close>

fun clock_told :: "fep_result \<Rightarrow> (nat \<Rightarrow> job) \<Rightarrow> clock_event \<Rightarrow> timer_scheduler \<Rightarrow> (timer_scheduler \<times> (nat \<times> job_event) list) option" where
  "clock_told set_error jobs (TimeUpdateBegin old_time new_time) s = Some (s, [])"
| "clock_told set_error jobs (TimeUpdating new_time) s = timeUpdating set_error jobs new_time s"
| "clock_told set_error jobs (TimeUpdateEnd new_time) s = Some (s, [])"
| "clock_told set_error jobs (TimeResetBegin old_time new_time) s = Some (timeResetBegin old_time new_time s, [])"
| "clock_told set_error jobs (TimeResetEnd new_time) s = timeResetEnd True set_error jobs new_time s"

fun clock_run ::
  "fep_result \<Rightarrow> (nat \<Rightarrow> job) \<Rightarrow> shown_event list \<Rightarrow> timer_scheduler \<Rightarrow> (timer_scheduler \<times> (nat \<times> job_event) list) option" where
  "clock_run set_error jobs [] s = Some (s, [])"
| "clock_run set_error jobs (e # es) s =
     do {
       r \<leftarrow> clock_told set_error jobs (snd e) s;
       r' \<leftarrow> clock_run set_error jobs es (fst r);
       Some (fst r', snd r @ snd r')
     }"

lemma clock_run_blocks:
  "clock_run set_error jobs (concat (map (\<lambda>k. update_block (f k) (g k)) ks)) s = run_updates set_error jobs (map g ks) s"
proof (induction ks arbitrary: s)
  case (Cons k ks)
  have "clock_run set_error jobs (update_block (f k) (g k) @ es) s =
     do { r \<leftarrow> timeUpdating set_error jobs (g k) s; r' \<leftarrow> clock_run set_error jobs es (fst r); Some (fst r', snd r @ snd r') }" for es
  proof (cases "timeUpdating set_error jobs (g k) s")
    case (Some r)
    then show ?thesis by (cases "clock_run set_error jobs es (fst r)") (simp_all add: update_block_def)
  qed (simp add: update_block_def)
  then show ?case by (simp add: Cons.IH)
qed simp

record job_configuration =
  cycle_sim_time_us :: int
  delay_sim_time_us :: int
  max_runtime_real_time_us :: int
  runtime_violation_strategy :: time_violation_strategy

definition add_job :: "int \<Rightarrow> job_configuration \<Rightarrow> timer_scheduler \<Rightarrow> timer_scheduler" where
  "add_job now cfg = AddTimer now (cycle_sim_time_us cfg) (delay_sim_time_us cfg)
     (new_runtime_check (runtime_violation_strategy cfg) (max_runtime_real_time_us cfg))"

text \<open>\<open>LocalClockBasedScheduler::initialize\<close>.\<close>

definition initialize_scheduler :: "int \<Rightarrow> job_configuration list \<Rightarrow> timer_scheduler" where
  "initialize_scheduler now cfgs = fold (add_job now) cfgs new_timer_scheduler"

definition job_timer :: "int \<Rightarrow> nat \<Rightarrow> job_configuration \<Rightarrow> timer_info" where
  "job_timer now i cfg = \<lparr>pTimer = i, tmNextInstant = now + delay_sim_time_us cfg, tmPeriod = cycle_sim_time_us cfg\<rparr>"

definition job_thread :: "job_configuration \<Rightarrow> timer_thread" where
  "job_thread cfg = new_timer_thread (new_runtime_check (runtime_violation_strategy cfg) (max_runtime_real_time_us cfg))"

lemma add_jobs:
  "length (m_oTimers s) = length (ts_threads s) \<Longrightarrow>
   fold (add_job now) cfgs s = s\<lparr>m_oTimers := m_oTimers s @ map2 (job_timer now) [length (m_oTimers s)..<length (m_oTimers s) + length cfgs] cfgs,
     ts_threads := ts_threads s @ map job_thread cfgs\<rparr>"
proof (induction cfgs arbitrary: s)
  case (Cons cfg cfgs)
  then show ?case by (simp add: add_job_def AddTimer_def job_timer_def job_thread_def upt_conv_Cons del: upt_Suc)
qed simp

lemma initialize_scheduler_eq:
  "initialize_scheduler now cfgs = new_timer_scheduler\<lparr>m_oTimers := map2 (job_timer now) [0..<length cfgs] cfgs, ts_threads := map job_thread cfgs\<rparr>"
  by (simp add: initialize_scheduler_def add_jobs new_timer_scheduler_def)

lemma nth_job_timers: "i < length cfgs \<Longrightarrow> map2 (job_timer now) [0..<length cfgs] cfgs ! i = job_timer now i (cfgs ! i)"
  by simp

text \<open>Jobs that do what is asked of them.\<close>

definition well_behaved :: "job_configuration \<Rightarrow> job \<Rightarrow> bool" where
  "well_behaved cfg j \<longleftrightarrow> 0 \<le> cycle_sim_time_us cfg \<and> sound_thread j (job_thread cfg)"

lemma reset_fresh:
  assumes "\<forall>th \<in> set ths. m_tmLastCallTime th = -1"
  shows "fold (\<lambda>t ths. ths[f t := thread_Reset (ths ! f t)]) ts ths = ths"
  using assms
proof (induction ts)
  case (Cons t ts)
  have "ths[f t := thread_Reset (ths ! f t)] = ths"
  proof (cases "f t < length ths")
    case True
    then have "m_tmLastCallTime (ths ! f t) = -1" using Cons.prems by simp
    then have "thread_Reset (ths ! f t) = ths ! f t" by (simp add: thread_Reset_def)
    then show ?thesis by simp
  qed (simp add: list_update_beyond)
  then show ?case using Cons by simp
qed simp

text \<open>The scheduler before its start, when the clock has been reset from the time \<open>T0\<close> to 0.\<close>

definition reset_scheduler :: "int \<Rightarrow> job_configuration list \<Rightarrow> timer_scheduler" where
  "reset_scheduler T0 cfgs = new_timer_scheduler\<lparr>m_oTimers := map2 (job_timer (- T0)) [0..<length cfgs] cfgs,
     ts_threads := map job_thread cfgs, m_StartUpResetTime := 0\<rparr>"

lemma reset_before_start:
  assumes "0 \<le> T0"
  shows "clock_run set_error jobs [(T0, TimeResetBegin T0 0), (0, TimeResetEnd 0)] (initialize_scheduler 0 cfgs) =
    Some (reset_scheduler T0 cfgs, [])"
proof -
  have shift: "map (\<lambda>t. t\<lparr>tmNextInstant := tmNextInstant t + (0 - T0)\<rparr>) (map2 (job_timer 0) ns cfgs) = map2 (job_timer (- T0)) ns cfgs" for ns
    by (simp add: job_timer_def case_prod_beta comp_def)
  have "\<forall>th \<in> set (map job_thread cfgs). m_tmLastCallTime th = -1" by (auto simp: job_thread_def new_timer_thread_def)
  from reset_fresh [OF this] have "timeResetBegin T0 0 (initialize_scheduler 0 cfgs) = reset_scheduler T0 cfgs"
    using assms shift by (simp add: timeResetBegin_def initialize_scheduler_eq reset_scheduler_def new_timer_scheduler_def Let_def)
  then show ?thesis by (simp add: timeResetEnd_def reset_scheduler_def new_timer_scheduler_def)
qed

lemma reset_scheduler_ready:
  assumes "\<forall>i < length cfgs. well_behaved (cfgs ! i) (jobs i)"
  shows "ready_queue jobs (m_oTimers (reset_scheduler T0 cfgs), ts_threads (reset_scheduler T0 cfgs))"
proof -
  have ids: "map pTimer (map2 (job_timer n) ns cs) = take (length cs) ns" for n ns cs
    by (induction ns cs rule: list_induct2') (auto simp: job_timer_def)
  have "0 \<le> tmPeriod t \<and> pTimer t < length cfgs \<and> sound_thread (jobs (pTimer t)) (map job_thread cfgs ! pTimer t) \<and>
      m_tmLastCallTime (map job_thread cfgs ! pTimer t) = -1" if t: "t \<in> set (map2 (job_timer (- T0)) [0..<length cfgs] cfgs)" for t
  proof -
    obtain i where i: "i < length cfgs" "t = job_timer (- T0) i (cfgs ! i)"
      using t by (auto simp: in_set_zip)
    then have "well_behaved (cfgs ! i) (jobs i)" using assms by blast
    then show ?thesis using i by (simp add: job_timer_def well_behaved_def) (simp add: job_thread_def new_timer_thread_def)
  qed
  then have all: "\<forall>t \<in> set (map2 (job_timer (- T0)) [0..<length cfgs] cfgs). 0 \<le> tmPeriod t \<and> pTimer t < length (map job_thread cfgs) \<and>
      sound_thread (jobs (pTimer t)) (map job_thread cfgs ! pTimer t) \<and>
      (m_tmLastCallTime (map job_thread cfgs ! pTimer t) = -1 \<or> m_tmLastCallTime (map job_thread cfgs ! pTimer t) < tmNextInstant t)"
    by (simp only: length_map) blast
  have fields: "m_oTimers (reset_scheduler T0 cfgs) = map2 (job_timer (- T0)) [0..<length cfgs] cfgs"
    "ts_threads (reset_scheduler T0 cfgs) = map job_thread cfgs" by (simp_all add: reset_scheduler_def)
  have "distinct (map pTimer (map2 (job_timer (- T0)) [0..<length cfgs] cfgs))" unfolding ids by simp
  with all show ?thesis unfolding ready_queue_def fst_conv snd_conv fields by blast
qed

lemma start_is_update:
  assumes "-1 < m_StartUpResetTime s"
  shows "Start True set_error jobs s = timeUpdating set_error jobs (m_StartUpResetTime s) (s\<lparr>m_bStarted := True\<rparr>)"
  using assms by (cases s) (simp add: Start_def timeUpdating_def ProcessSchedulerQueueSynchron_def option.map_comp comp_def
      case_prod_beta map_conv_bind_option)

lemma start_then_updates:
  assumes "-1 < m_StartUpResetTime s"
  shows "do { r \<leftarrow> Start True set_error jobs s; r' \<leftarrow> run_updates set_error jobs ts (fst r); Some (fst r', snd r @ snd r') } =
    run_updates set_error jobs (m_StartUpResetTime s # ts) (s\<lparr>m_bStarted := True\<rparr>)"
  by (simp add: start_is_update [OF assms])

text \<open>A participant with the simulated clock: the jobs are added, the clock is started, which resets it from the time \<open>T0\<close> it
  shows to 0, the scheduler is started and the clock makes its rounds.\<close>

definition simulation ::
  "fep_result \<Rightarrow> (nat \<Rightarrow> job) \<Rightarrow> job_configuration list \<Rightarrow> updater \<times> clock \<Rightarrow> int list \<Rightarrow> (timer_scheduler \<times> (nat \<times> job_event) list) option" where
  "simulation set_error jobs cfgs uc nows =
     (let (uc, es) = sim_start uc
      in do {
        r0 \<leftarrow> clock_run set_error jobs es (initialize_scheduler 0 cfgs);
        r1 \<leftarrow> Start True set_error jobs (fst r0);
        r2 \<leftarrow> clock_run set_error jobs (snd (work nows uc)) (fst r1);
        Some (fst r2, snd r0 @ snd r1 @ snd r2)
      })"

lemma simulation_sound:
  assumes "\<forall>i < length cfgs. well_behaved (cfgs ! i) (jobs i)" "0 \<le> cycle_time u" "0 \<le> current_time c" "i < length cfgs"
  shows "\<exists>s es. simulation set_error jobs cfgs (u, c) nows = Some (s, es) \<and>
    executions i es = due_instants (announced (cycle_time u) (length nows)) (job_timer (- current_time c) i (cfgs ! i))"
proof -
  let ?T = "cycle_time u" and ?n = "length nows" and ?s = "reset_scheduler (current_time c) cfgs"
  let ?ts = "map (\<lambda>k. int k * ?T) [0..<?n]"
  define c1 where "c1 = fst (discrete_start c)"
  have start: "sim_start (u, c) = ((startWorking u, c1), [(current_time c, TimeResetBegin (current_time c) 0), (0, TimeResetEnd 0)])"
    by (simp add: c1_def sim_start_def case_prod_beta Let_def discrete_start_def discrete_reset_def base_start_def setResetTime_result)
  have "has_sink c1" "clock_updated c1" "current_time c1 = 0"
    by (simp_all add: c1_def discrete_start_def discrete_reset_def base_start_def setResetTime_result)
  from work_rounds [OF this, of "startWorking u" nows]
  have rounds: "snd (work nows (startWorking u, c1)) =
      concat (map (\<lambda>k. update_block (announced ?T k) (int k * ?T)) [0..<?n])"
    using assms(2) by (auto simp: startWorking_def)
  have zero: "m_StartUpResetTime ?s = 0" by (simp add: reset_scheduler_def)
  have run: "simulation set_error jobs cfgs (u, c) nows = run_updates set_error jobs (0 # ?ts) (?s\<lparr>m_bStarted := True\<rparr>)"
    using start_then_updates [of ?s set_error jobs ?ts] zero
    by (simp only: simulation_def start Let_def case_prod_conv reset_before_start [OF assms(3)] Option.bind.simps fst_conv snd_conv
        rounds clock_run_blocks append_Nil)
  have sorted: "sorted (0 # ?ts)"
    using assms(2) by (auto simp: sorted_iff_nth_mono mult_right_mono)
  have last: "last (0 # ?ts) = announced ?T ?n" by (cases ?n) (simp_all add: last_map)
  have "ready_queue jobs (m_oTimers (?s\<lparr>m_bStarted := True\<rparr>), ts_threads (?s\<lparr>m_bStarted := True\<rparr>))"
    using reset_scheduler_ready [OF assms(1), of "current_time c"] by simp
  from updates_sound [OF this _ sorted, of set_error] obtain s es where
    "run_updates set_error jobs (0 # ?ts) (?s\<lparr>m_bStarted := True\<rparr>) = Some (s, es)"
    "\<forall>t \<in> set (m_oTimers ?s). executions (pTimer t) es = due_instants (announced ?T ?n) t"
    unfolding last by auto
  moreover have "job_timer (- current_time c) i (cfgs ! i) \<in> set (m_oTimers ?s)"
    using assms(4) by (auto simp: reset_scheduler_def in_set_zip intro!: image_eqI [of _ _ "(i, cfgs ! i)"] exI [of _ i])
  ultimately show ?thesis unfolding run by (force simp: job_timer_def)
qed

text \<open>C15: Jobs on the simulated clock, in the first run, which starts at time 0: after \<open>n\<close> rounds a job has run at its delay and every
  cycle after it, up to the time the last round has announced, once each and in order, whatever the cycle time of the clock and
  the number, the cycles and the delays of the other jobs. All jobs have to be well behaved: no cycle is negative, no job fails,
  and none whose strategy is the error state exceeds its runtime, because one that does blocks the clock for all of them. In a
  second run the jobs start in the past (\<open>second_run_starts_in_the_past\<close>).\<close>
theorem jobs_run_at_simulated_time:
  assumes "\<forall>i < length cfgs. well_behaved (cfgs ! i) (jobs i)" "0 \<le> cycle_time u" "current_time c = 0" "i < length cfgs"
  shows "\<exists>s es. simulation set_error jobs cfgs (u, c) nows = Some (s, es) \<and>
    executions i es = due_instants (announced (cycle_time u) (length nows)) (job_timer 0 i (cfgs ! i))"
  using simulation_sound [OF assms(1,2) _ assms(4), of c set_error nows] assms(3) by simp

definition demo_configs :: "job_configuration list" where
  "demo_configs = [\<lparr>cycle_sim_time_us = 40000, delay_sim_time_us = 0, max_runtime_real_time_us = 5, runtime_violation_strategy = JTS_SET_STM_TO_ERROR\<rparr>,
     \<lparr>cycle_sim_time_us = 15000, delay_sim_time_us = 5000, max_runtime_real_time_us = 0, runtime_violation_strategy = JTS_SKIP_OUTPUT_PUBLISH\<rparr>]"

lemma demo_configs_well_behaved: "\<forall>i < length demo_configs. well_behaved (demo_configs ! i) quick_job"
  by (auto simp: demo_configs_def less_Suc_eq well_behaved_def job_thread_def new_timer_thread_def new_runtime_check_def
      sound_thread_def quick_job_def)

theorem jobs_run_at_simulated_time_witness:
  "\<exists>s es. simulation ERR_NOERROR (\<lambda>_. quick_job) demo_configs (updateConfiguration (configured_cycle 20) new_updater, new_clock) [3, 1, 4] =
      Some (s, es) \<and> executions 1 es = [5000, 20000, 35000]"
proof -
  have u: "cycle_time (updateConfiguration (configured_cycle 20) new_updater) = 20000" "current_time new_clock = 0" by code_simp+
  have "\<exists>s es. simulation ERR_NOERROR (\<lambda>_. quick_job) demo_configs (updateConfiguration (configured_cycle 20) new_updater, new_clock) [3, 1, 4] =
      Some (s, es) \<and> executions 1 es = due_instants (announced 20000 (length [3 :: int, 1, 4])) (job_timer 0 1 (demo_configs ! 1))"
    using jobs_run_at_simulated_time [OF demo_configs_well_behaved, of "updateConfiguration (configured_cycle 20) new_updater" new_clock 1
        ERR_NOERROR "[3, 1, 4]"] by (simp add: u demo_configs_def)
  moreover have "due_instants (announced 20000 (length [3 :: int, 1, 4])) (job_timer 0 1 (demo_configs ! 1)) = [5000, 20000, 35000]"
    by code_simp
  ultimately show ?thesis by simp
qed

section \<open>The asynchronous processing\<close>

definition shorter :: "int \<Rightarrow> int \<Rightarrow> int" where
  "shorter m d = (if m < 0 \<or> d < m then d else m)"

definition after_pass :: "int \<Rightarrow> timer_info \<Rightarrow> timer_info option" where
  "after_pass c t = (if c < tmNextInstant t then Some t else if tmPeriod t \<le> 0 then None else Some (next_timer t))"

lemma async_pass_eq:
  assumes "0 \<le> c"
  shows "async_pass c ts m =
    (List.map_filter (after_pass c) ts, map pTimer (filter (\<lambda>t. tmNextInstant t \<le> c) ts),
     foldl shorter m (map (\<lambda>t. tmNextInstant t - c) (filter (\<lambda>t. c < tmNextInstant t) ts)),
     \<exists>t \<in> set ts. tmNextInstant t \<le> c \<and> 0 < tmPeriod t)"
proof (induction ts arbitrary: m)
  case (Cons t ts)
  then show ?case using assms
    by (cases "c < tmNextInstant t") (auto simp: map_filter_simps after_pass_def shorter_def Let_def not_less)
qed (simp add: map_filter_simps)

lemma foldl_shorter:
  "\<forall>d \<in> set ds. 0 < d \<Longrightarrow> m = -1 \<or> m \<in> set ds \<Longrightarrow>
   foldl shorter m ds = (if ds = [] then -1 else Min (set ds))"
proof -
  have "\<forall>d \<in> set ds. 0 < d \<Longrightarrow> 0 < m \<Longrightarrow> foldl shorter m ds = Min (insert m (set ds))" for m and ds :: "int list"
  proof (induction ds arbitrary: m)
    case (Cons d ds)
    have "shorter m d = min m d" using Cons.prems by (simp add: shorter_def)
    then show ?case using Cons.IH [of "min m d"] Cons.prems by (cases "ds = []") (auto simp: min.assoc insert_commute)
  qed simp
  note pos = this
  assume ds: "\<forall>d \<in> set ds. 0 < d" and m: "m = -1 \<or> m \<in> set ds"
  show "foldl shorter m ds = (if ds = [] then -1 else Min (set ds))"
  proof (cases "m = -1")
    case True
    then show ?thesis using ds pos [of "tl ds" "hd ds"] by (cases ds) (auto simp: shorter_def)
  next
    case False
    then have "m \<in> set ds" "0 < m" using ds m by auto
    then show ?thesis using pos [OF ds, of m] by (auto simp: insert_absorb)
  qed
qed

text \<open>The shortest time to wait that is remembered is that of a timer which is still there.\<close>

definition remembered :: "int \<Rightarrow> timer_info list \<Rightarrow> int \<Rightarrow> bool" where
  "remembered c ts m \<longleftrightarrow> m = -1 \<or> (\<exists>t \<in> set ts. c < tmNextInstant t \<and> m = tmNextInstant t - c)"

lemma set_after_pass:
  "t' \<in> set (List.map_filter (after_pass c) ts) \<longleftrightarrow> (\<exists>t \<in> set ts. after_pass c t = Some t')"
  by (induction ts) (auto simp: map_filter_simps split: option.splits)

lemma pass_min:
  assumes "remembered c ts m"
  shows "foldl shorter m (map (\<lambda>t. tmNextInstant t - c) (filter (\<lambda>t. c < tmNextInstant t) ts)) =
    (if filter (\<lambda>t. c < tmNextInstant t) ts = [] then -1
     else Min ((\<lambda>t. tmNextInstant t - c) ` set (filter (\<lambda>t. c < tmNextInstant t) ts)))"
  using foldl_shorter [of "map (\<lambda>t. tmNextInstant t - c) (filter (\<lambda>t. c < tmNextInstant t) ts)" m] assms
  by (force simp: remembered_def)

lemma pass_remembers:
  assumes "remembered c ts m"
  shows "remembered c (List.map_filter (after_pass c) ts)
    (foldl shorter m (map (\<lambda>t. tmNextInstant t - c) (filter (\<lambda>t. c < tmNextInstant t) ts)))"
proof -
  let ?L = "filter (\<lambda>t. c < tmNextInstant t) ts"
  show ?thesis
  proof (cases "?L = []")
    case False
    then have "Min ((\<lambda>t. tmNextInstant t - c) ` set ?L) \<in> (\<lambda>t. tmNextInstant t - c) ` set ?L"
      by (intro Min_in) (simp_all only: finite_imageI finite_set image_is_empty set_empty not_False_eq_True)
    then obtain t where "t \<in> set ts" "c < tmNextInstant t" "Min ((\<lambda>t. tmNextInstant t - c) ` set ?L) = tmNextInstant t - c" by auto
    moreover from this have "t \<in> set (List.map_filter (after_pass c) ts)"
      unfolding set_after_pass by (intro bexI [of _ t]) (simp_all add: after_pass_def)
    ultimately show ?thesis using pass_min [OF assms] False by (auto simp: remembered_def)
  next
    case True
    then show ?thesis using pass_min [OF assms] by (simp add: remembered_def)
  qed
qed

lemma async_loop_waits:
  "0 \<le> c \<Longrightarrow> remembered c ts m \<Longrightarrow> async_loop n c ts m = (ts', ws, w) \<Longrightarrow> w \<noteq> 0 \<Longrightarrow>
   (\<forall>t \<in> set ts'. c < tmNextInstant t) \<and> w = (if ts' = [] then -1 else Min ((\<lambda>t. tmNextInstant t - c) ` set ts'))"
proof (induction n arbitrary: ts m ws)
  case (Suc n)
  let ?ts = "List.map_filter (after_pass c) ts"
  let ?m = "foldl shorter m (map (\<lambda>t. tmNextInstant t - c) (filter (\<lambda>t. c < tmNextInstant t) ts))"
  show ?case
  proof (cases "\<exists>t \<in> set ts. tmNextInstant t \<le> c \<and> 0 < tmPeriod t")
    case True
    obtain ws' where "async_loop n c ?ts ?m = (ts', ws', w)"
      using Suc.prems(1,3) True by (simp add: async_pass_eq case_prod_beta Let_def) (metis prod.collapse)
    then show ?thesis using Suc.IH [OF Suc.prems(1) pass_remembers [OF Suc.prems(2)]] Suc.prems(4) by blast
  next
    case False
    then have r: "ts' = ?ts" "w = ?m" using Suc.prems by (auto simp: async_pass_eq Let_def split: if_splits)
    have "set ?ts = set (filter (\<lambda>t. c < tmNextInstant t) ts)"
      using False by (auto simp: set_after_pass after_pass_def not_less split: if_splits intro!: bexI)
    moreover from this have "?ts = [] \<longleftrightarrow> filter (\<lambda>t. c < tmNextInstant t) ts = []" by (metis set_empty)
    ultimately show ?thesis using pass_min [OF Suc.prems(2)] r by auto
  qed
qed simp

lemma ids_after_pass: "distinct (map pTimer ts) \<Longrightarrow> distinct (map pTimer (List.map_filter (after_pass c) ts)) \<and>
    pTimer ` set (List.map_filter (after_pass c) ts) \<subseteq> pTimer ` set ts"
  by (induction ts) (auto simp: map_filter_simps after_pass_def)

lemma count_due: "distinct (map pTimer ts) \<Longrightarrow> t \<in> set ts \<Longrightarrow>
    count_list (map pTimer (filter (\<lambda>t. tmNextInstant t \<le> c) ts)) (pTimer t) = (if tmNextInstant t \<le> c then 1 else 0)"
proof (induction ts)
  case (Cons a ts)
  have "count_list (map pTimer (filter (\<lambda>t. tmNextInstant t \<le> c) ts)) i = 0" if "i \<notin> pTimer ` set ts" for i
    using that by (intro count_notin) auto
  then show ?case using Cons by auto
qed simp

lemma async_loop_wakes:
  "0 \<le> c \<Longrightarrow> distinct (map pTimer ts) \<Longrightarrow> \<forall>t \<in> set ts. 0 \<le> tmPeriod t \<Longrightarrow> async_loop n c ts m = (ts', ws, w) \<Longrightarrow> w \<noteq> 0 \<Longrightarrow>
   (\<forall>t \<in> set ts. count_list ws (pTimer t) = due_count c t) \<and> (\<forall>i. i \<notin> pTimer ` set ts \<longrightarrow> count_list ws i = 0)"
proof (induction n arbitrary: ts m ws)
  case (Suc n)
  let ?ts = "List.map_filter (after_pass c) ts"
  let ?m = "foldl shorter m (map (\<lambda>t. tmNextInstant t - c) (filter (\<lambda>t. c < tmNextInstant t) ts))"
  let ?ws = "map pTimer (filter (\<lambda>t. tmNextInstant t \<le> c) ts)"
  have none: "count_list ?ws i = 0" if "i \<notin> pTimer ` set ts" for i using that by (intro count_notin) auto
  show ?case
  proof (cases "\<exists>t \<in> set ts. tmNextInstant t \<le> c \<and> 0 < tmPeriod t")
    case True
    obtain ws' where loop: "async_loop n c ?ts ?m = (ts', ws', w)" "ws = ?ws @ ws'"
      using Suc.prems(1,4) True by (simp add: async_pass_eq case_prod_beta Let_def) (metis prod.collapse)
    have "\<forall>t \<in> set ?ts. 0 \<le> tmPeriod t" using Suc.prems(3) by (auto simp: set_after_pass after_pass_def split: if_splits)
    from Suc.IH [OF Suc.prems(1) _ this loop(1) Suc.prems(5)] ids_after_pass [OF Suc.prems(2)]
    have IH: "\<forall>t \<in> set ?ts. count_list ws' (pTimer t) = due_count c t" "\<forall>i. i \<notin> pTimer ` set ?ts \<longrightarrow> count_list ws' i = 0"
      by blast+
    have "count_list ws (pTimer t) = due_count c t" if t: "t \<in> set ts" for t
    proof (cases "after_pass c t")
      case None
      then have once: "tmNextInstant t \<le> c" "tmPeriod t = 0" using Suc.prems(3) t by (auto simp: after_pass_def split: if_splits)
      have "pTimer t \<notin> pTimer ` set ?ts"
      proof
        assume "pTimer t \<in> pTimer ` set ?ts"
        then obtain t0 t1 where "t0 \<in> set ts" "after_pass c t0 = Some t1" "pTimer t = pTimer t1" by (auto simp: set_after_pass)
        moreover from this have "pTimer t0 = pTimer t" by (auto simp: after_pass_def split: if_splits)
        ultimately show False using t None Suc.prems(2) by (auto simp: distinct_map inj_on_def)
      qed
      then show ?thesis using IH(2) loop(2) count_due [OF Suc.prems(2) t, of c] once by (simp add: due_count_def)
    next
      case (Some t')
      then have "t' \<in> set ?ts" using t by (auto simp: set_after_pass)
      then have "count_list ws' (pTimer t) = due_count c t'" using IH(1) Some by (auto simp: after_pass_def split: if_splits)
      then show ?thesis using Some loop(2) count_due [OF Suc.prems(2) t, of c] due_count_next [of t c]
        by (auto simp: after_pass_def split: if_splits)
    qed
    moreover have "count_list ws i = 0" if "i \<notin> pTimer ` set ts" for i
    proof -
      have "i \<notin> pTimer ` set ?ts" using that ids_after_pass [OF Suc.prems(2), of c] by blast
      then show ?thesis using IH(2) none [OF that] loop(2) by simp
    qed
    ultimately show ?thesis by blast
  next
    case False
    then have "ws = ?ws" using Suc.prems by (auto simp: async_pass_eq Let_def split: if_splits)
    moreover have "due_count c t = (if tmNextInstant t \<le> c then 1 else 0)" if "t \<in> set ts" for t
      using False Suc.prems(3) that by (force simp: due_count_def)
    ultimately show ?thesis using count_due [OF Suc.prems(2), of _ c] none by auto
  qed
qed simp

text \<open>A continuous clock: when the scheduler knows how long to wait, every timer has been woken once for each of its instants up
  to now, the timers that are left are in the future, and the wait ends with the first of them.\<close>
theorem async_waits_for_next_timer:
  assumes "ProcessSchedulerQueueAsynchron now s = (s', ws, wait)" "wait \<noteq> 0" "0 \<le> now"
    and "distinct (map pTimer (m_oTimers s))" "\<forall>t \<in> set (m_oTimers s). 0 \<le> tmPeriod t"
  shows "(\<forall>t \<in> set (m_oTimers s). count_list ws (pTimer t) = due_count now t) \<and> (\<forall>t \<in> set (m_oTimers s'). now < tmNextInstant t) \<and>
    wait = (if m_oTimers s' = [] then -1 else Min ((\<lambda>t. tmNextInstant t - now) ` set (m_oTimers s')))"
proof -
  obtain a b d where e: "async_loop 1000 now (m_oTimers s) (-1) = (a, b, d)" by (rule prod_cases3)
  have "a = m_oTimers s' \<and> b = ws \<and> d = wait"
    using assms(1) unfolding ProcessSchedulerQueueAsynchron_def e Let_def case_prod_conv by auto
  with e have loop: "async_loop 1000 now (m_oTimers s) (-1) = (m_oTimers s', ws, wait)" by simp
  show ?thesis
    using async_loop_waits [OF assms(3) _ loop assms(2)] async_loop_wakes [OF assms(3-5) loop assms(2)]
    by (simp add: remembered_def)
qed

theorem async_waits_for_next_timer_witness:
  "count_list [0, 1, 0, 0 :: nat] 0 = due_count 5 \<lparr>pTimer = 0, tmNextInstant = 0, tmPeriod = 2\<rparr> \<and>
   Min ((\<lambda>t. tmNextInstant t - 5) ` {\<lparr>pTimer = 0, tmNextInstant = 6, tmPeriod = 2\<rparr>}) = 1"
proof -
  let ?s = "new_timer_scheduler\<lparr>m_oTimers := [\<lparr>pTimer = 0, tmNextInstant = 0, tmPeriod = 2\<rparr>, \<lparr>pTimer = 1, tmNextInstant = 4, tmPeriod = 0\<rparr>]\<rparr>"
  let ?s' = "new_timer_scheduler\<lparr>m_oTimers := [\<lparr>pTimer = 0, tmNextInstant = 6, tmPeriod = 2\<rparr>]\<rparr>"
  have run: "ProcessSchedulerQueueAsynchron 5 ?s = (?s', [0, 1, 0, 0], 1)"
    by (simp add: ProcessSchedulerQueueAsynchron_def new_timer_scheduler_def eval_nat_numeral(3) numeral_eq_Suc)
  show ?thesis using async_waits_for_next_timer [OF run] by simp
qed

section \<open>Where the scheduler fails\<close>

text \<open>The clock keeps its time when it is stopped, and resets it when it is started again. Timers that have been added in between
  at the time 0, as a stopped clock service tells it, are moved into the past: the second run begins with the cycles of
  the first one, at negative times.\<close>
theorem second_run_starts_in_the_past:
  assumes "\<forall>i < length cfgs. well_behaved (cfgs ! i) (jobs i)" "0 \<le> cycle_time u" "i < length cfgs"
    and "delay_sim_time_us (cfgs ! i) < current_time c" "0 \<le> current_time c"
  shows "\<exists>s es. simulation set_error jobs cfgs (u, base_stop c) nows = Some (s, es) \<and>
    executions i es \<noteq> [] \<and> hd (executions i es) = delay_sim_time_us (cfgs ! i) - current_time c \<and> hd (executions i es) < 0"
proof -
  let ?t = "job_timer (- current_time c) i (cfgs ! i)" and ?c = "announced (cycle_time u) (length nows)"
  have "current_time (base_stop c) = current_time c" by (simp add: base_stop_def)
  with simulation_sound [OF assms(1,2) _ assms(3), of "base_stop c" set_error nows] assms(5) obtain s es where
    run: "simulation set_error jobs cfgs (u, base_stop c) nows = Some (s, es)" "executions i es = due_instants ?c ?t" by auto
  have c: "0 \<le> ?c" using assms(2) by (cases "length nows") simp_all
  have t: "tmNextInstant ?t = delay_sim_time_us (cfgs ! i) - current_time c" by (simp add: job_timer_def)
  have p: "0 \<le> tmPeriod ?t" using assms(1,3) by (simp add: job_timer_def well_behaved_def)
  have due: "tmNextInstant ?t \<le> ?c" using t c assms(4) by simp
  have "\<exists>es'. due_instants ?c ?t = tmNextInstant ?t # es'"
    using due_instants_next [OF _ due] due_instants_once [OF _ due] p by (cases "tmPeriod ?t = 0") auto
  then show ?thesis using run assms(4) t by auto
qed

definition stopped_at :: "int \<Rightarrow> clock" where
  "stopped_at t = \<lparr>current_time = t, clock_updated = True, clock_started = True, has_sink = True\<rparr>"

theorem second_run_starts_in_the_past_witness:
  "\<exists>s es. simulation ERR_NOERROR (\<lambda>_. quick_job) demo_configs (new_updater, base_stop (stopped_at 60000)) [] = Some (s, es) \<and>
     executions 0 es \<noteq> [] \<and> hd (executions 0 es) = -60000"
  using second_run_starts_in_the_past [OF demo_configs_well_behaved, of new_updater 0 "stopped_at 60000" ERR_NOERROR "[]"]
  by (auto simp: demo_configs_def stopped_at_def new_updater_def)

text \<open>The first timer of the queue is due and its job fails: its thread ends without fulfilling the promise, and the clock
  waits for it for ever. The same happens when the strategy of the job sets the participant to the error state.\<close>
theorem failing_job_blocks_clock:
  assumes "m_bStarted s" "sort_key tmNextInstant (m_oTimers s) = t # ts" "tmNextInstant t \<le> now"
    and "tt_running th" "m_tmLastCallTime th = -1 \<or> m_tmLastCallTime th < tmNextInstant t" "th = ts_threads s ! pTimer t"
    and "execute (jobs (pTimer t)) (tmNextInstant t) \<noteq> ERR_NOERROR \<or>
      0 < rc_max_runtime (tt_check th) \<and> execution_time (jobs (pTimer t)) (tmNextInstant t) > rc_max_runtime (tt_check th) \<and>
      rc_time_violation_strategy (tt_check th) = JTS_SET_STM_TO_ERROR"
  shows "timeUpdating set_error jobs now s = None"
proof -
  have "isFailed (fst (runJob set_error (tmNextInstant t) (jobs (pTimer t)) (tt_check th)))"
    using assms(7) by (auto simp: runJob_def applyTimeViolationStrategy_def Let_def split: time_violation_strategy.splits)
  then have "\<not> snd (snd (thread_round set_error (jobs (pTimer t)) (tmNextInstant t) (ts_threads s ! pTimer t)))"
    using assms(4-6) by (simp add: thread_round_def case_prod_beta Let_def)
  then show ?thesis using assms(1-3)
    by (simp add: timeUpdating_def ProcessSchedulerQueueSynchron_def process_queue.simps [of _ _ _ "(_ # _, _)"] Let_def)
qed

definition failing_job :: job where
  "failing_job = quick_job\<lparr>execute := (\<lambda>t. if t = 4 then ERR_FAILED else ERR_NOERROR)\<rparr>"

theorem failing_job_blocks_clock_witness:
  "timeUpdating ERR_NOERROR (\<lambda>_. failing_job) 4 (demo_scheduler\<lparr>m_oTimers := [\<lparr>pTimer = 0, tmNextInstant = 4, tmPeriod = 2\<rparr>]\<rparr>) = None"
  by (rule failing_job_blocks_clock [where t = "\<lparr>pTimer = 0, tmNextInstant = 4, tmPeriod = 2\<rparr>" and ts = "[]" and
        th = "new_timer_thread (new_runtime_check JTS_SET_STM_TO_ERROR 5)"])
    (simp_all add: demo_scheduler_def AddTimer_def new_timer_scheduler_def new_timer_thread_def failing_job_def)

text \<open>The mark that a scheduler has been stopped is never taken back: started again, its thread ends at once, and timers on a
  continuous clock do not run.\<close>

lemma restarted_scheduler_ends_at_once:
  "Start False set_error jobs (Stop s) = Some (s', es) \<Longrightarrow> scheduler_round is_continuous now s' = None"
  by (auto simp: Start_def Stop_def scheduler_round_def)

text \<open>A scheduler that has been stopped runs no job, whatever the clock tells it.\<close>

lemma timer_Stop_started: "m_bStarted (timer_Stop i s) = m_bStarted s"
  by (simp add: timer_Stop_def RemoveTimer_def Let_def split: option.splits)

lemma stopped_scheduler_runs_nothing: "timeUpdating set_error jobs now (stop_scheduler s) = Some (stop_scheduler s, [])"
proof -
  have "m_bStarted (fold timer_Stop is s) = m_bStarted s" for "is" s
    by (induction "is" arbitrary: s) (simp_all add: timer_Stop_started)
  then have "\<not> m_bStarted (stop_scheduler s)" by (simp add: stop_scheduler_def Stop_def)
  then show ?thesis by (simp add: timeUpdating_def)
qed

text \<open>A timer with a negative period that is due keeps the synchronous processing busy for ever; a negative cycle time is not
  refused. It is stepped back and stays due.\<close>

lemma negative_period_stays_due:
  "tmPeriod t < 0 \<Longrightarrow> tmNextInstant t \<le> c \<Longrightarrow> tmNextInstant (next_timer t) \<le> c"
  by simp

end
