(* ===== verification/Scheduler_Service.thy ===== *)
theory Scheduler_Service
  imports Timer_Scheduler
begin

text \<open>
  The scheduler service: the schedulers and jobs of a participant (\<open>LocalSchedulerService\<close>,
  \<open>src/fep3/components/scheduler/local_scheduler_service.cpp\<close>) and sequences of jobs (\<open>jobs/jobsequence.cpp\<close>,
  \<open>jobs/job.cpp\<close>). A scheduler and a job object are a name and an identity; the name of the scheduler that the
  participant brings along is \<open>clock_based_scheduler\<close>.
\<close>

section \<open>Schedulers\<close>

type_synonym scheduler_ref = "string \<times> nat"

record scheduler_service =
  schedulers :: "scheduler_ref list"
  current_scheduler :: "scheduler_ref option"
  ss_started :: bool
  ss_jobs :: "(nat \<times> string \<times> job_configuration) list"
  scheduler_property :: string

definition clock_based_scheduler :: scheduler_ref where
  "clock_based_scheduler = (''clock_based_scheduler'', 0)"

definition new_scheduler_service :: scheduler_service where
  "new_scheduler_service =
     \<lparr>schedulers = [], current_scheduler = None, ss_started = False, ss_jobs = [], scheduler_property = []\<rparr>"

definition findScheduler :: "string \<Rightarrow> scheduler_service \<Rightarrow> scheduler_ref option" where
  "findScheduler name s = List.find (\<lambda>x. fst x = name) (schedulers s)"

definition setScheduler :: "string \<Rightarrow> scheduler_service \<Rightarrow> fep_result \<times> scheduler_service" where
  "setScheduler name s =
     (case findScheduler name s of
        Some x \<Rightarrow> (ERR_NOERROR, s\<lparr>current_scheduler := Some x\<rparr>)
      | None \<Rightarrow> (ERR_NOT_FOUND, s))"

definition getScheduler :: "string \<Rightarrow> scheduler_service \<Rightarrow> scheduler_ref option" where
  "getScheduler name s = (if name = [] then current_scheduler s else findScheduler name s)"

definition registerScheduler :: "scheduler_ref \<Rightarrow> scheduler_service \<Rightarrow> fep_result \<times> scheduler_service" where
  "registerScheduler x s =
     (if ss_started s then (ERR_INVALID_STATE, s)
      else case findScheduler (fst x) s of
          None \<Rightarrow> (ERR_NOERROR, s\<lparr>schedulers := schedulers s @ [x]\<rparr>)
        | Some _ \<Rightarrow> (ERR_INVALID_ARG, s))"

fun erase_named :: "string \<Rightarrow> scheduler_ref list \<Rightarrow> scheduler_ref list option" where
  "erase_named name [] = None"
| "erase_named name (x # xs) = (if fst x = name then Some xs else map_option ((#) x) (erase_named name xs))"

text \<open>The current scheduler is dereferenced without a test; \<open>create\<close> has set it.\<close>

definition unregisterScheduler :: "string \<Rightarrow> scheduler_service \<Rightarrow> fep_result \<times> scheduler_service" where
  "unregisterScheduler name s =
     (if ss_started s then (ERR_INVALID_STATE, s)
      else if fst clock_based_scheduler = name then (ERR_INVALID_ARG, s)
      else case erase_named name (schedulers s) of
          None \<Rightarrow> (ERR_NOT_FOUND, s)
        | Some rest \<Rightarrow>
            let s = s\<lparr>schedulers := rest\<rparr>
            in (ERR_NOERROR, if map_option fst (current_scheduler s) = Some name then s\<lparr>current_scheduler := Some clock_based_scheduler\<rparr> else s))"

definition getSchedulerList :: "scheduler_service \<Rightarrow> string list" where
  "getSchedulerList s = map fst (schedulers s)"

text \<open>The list of the remote service: what its loop builds.\<close>

fun getSchedulers :: "string list \<Rightarrow> string" where
  "getSchedulers [] = []"
| "getSchedulers (n # ns) = n @ n @ concat ns"

definition create_service :: "scheduler_service \<Rightarrow> scheduler_service" where
  "create_service s =
     (let s = snd (registerScheduler clock_based_scheduler s);
          s = snd (setScheduler (fst clock_based_scheduler) s)
      in if scheduler_property s = [] then s\<lparr>scheduler_property := fst clock_based_scheduler\<rparr> else s)"

text \<open>\<open>ready\<close> chooses the configured scheduler and initialises it; \<open>init\<close> is what this returns.\<close>

definition ready_service :: "(scheduler_ref \<Rightarrow> fep_result) \<Rightarrow> scheduler_service \<Rightarrow> fep_result \<times> scheduler_service" where
  "ready_service init s =
     (let (r, s) = setScheduler (scheduler_property s) s
      in if isFailed r then (r, s)
         else case current_scheduler s of None \<Rightarrow> (ERR_POINTER, s) | Some x \<Rightarrow> (init x, s))"

definition start_service :: "(scheduler_ref \<Rightarrow> fep_result) \<Rightarrow> scheduler_service \<Rightarrow> fep_result \<times> scheduler_service" where
  "start_service started s =
     (case current_scheduler s of None \<Rightarrow> (ERR_POINTER, s) | Some x \<Rightarrow> (started x, s\<lparr>ss_started := True\<rparr>))"

definition stop_service :: "(scheduler_ref \<Rightarrow> fep_result) \<Rightarrow> scheduler_service \<Rightarrow> fep_result \<times> scheduler_service" where
  "stop_service stopped s =
     ((case current_scheduler s of None \<Rightarrow> ERR_NOERROR | Some x \<Rightarrow> stopped x), s\<lparr>ss_started := False\<rparr>)"

section \<open>Jobs\<close>

definition findJob :: "string \<Rightarrow> scheduler_service \<Rightarrow> (string \<times> job_configuration) option" where
  "findJob name s = map_option snd (List.find (\<lambda>j. fst (snd j) = name) (ss_jobs s))"

definition addJob :: "string \<Rightarrow> nat \<Rightarrow> job_configuration \<Rightarrow> scheduler_service \<Rightarrow> fep_result \<times> scheduler_service" where
  "addJob name j cfg s =
     (case findJob name s of
        Some _ \<Rightarrow> (ERR_INVALID_ARG, s)
      | None \<Rightarrow> (ERR_NOERROR, s\<lparr>ss_jobs := ss_jobs s @ [(j, name, cfg)]\<rparr>))"

fun erase_job :: "string \<Rightarrow> (nat \<times> string \<times> job_configuration) list \<Rightarrow> (nat \<times> string \<times> job_configuration) list" where
  "erase_job name [] = []"
| "erase_job name (j # js) = (if fst (snd j) = name then js else j # erase_job name js)"

definition removeJob :: "string \<Rightarrow> scheduler_service \<Rightarrow> fep_result \<times> scheduler_service" where
  "removeJob name s =
     (case findJob name s of
        Some _ \<Rightarrow> (ERR_NOERROR, s\<lparr>ss_jobs := erase_job name (ss_jobs s)\<rparr>)
      | None \<Rightarrow> (ERR_NOT_FOUND, s))"

definition getJobs :: "scheduler_service \<Rightarrow> (string \<times> job_configuration) list" where
  "getJobs s = map snd (ss_jobs s)"

text \<open>What the clock based scheduler is initialised with.\<close>

definition scheduler_of_service :: "int \<Rightarrow> scheduler_service \<Rightarrow> timer_scheduler" where
  "scheduler_of_service now s = initialize_scheduler now (map (snd \<circ> snd) (ss_jobs s))"

text \<open>The compatibility mode is set on all jobs in front of the first one that does not support it.\<close>

fun reconfigureJobs :: "(nat \<Rightarrow> bool) \<Rightarrow> nat list \<Rightarrow> fep_result \<times> nat list" where
  "reconfigureJobs supports [] = (ERR_NOERROR, [])"
| "reconfigureJobs supports (j # js) =
     (if supports j then (let (r, set) = reconfigureJobs supports js in (r, j # set)) else (ERR_POINTER, []))"

text \<open>A sequence executes its jobs until one fails.\<close>

fun sequence_execute :: "job list \<Rightarrow> int \<Rightarrow> fep_result \<times> nat" where
  "sequence_execute [] t = (ERR_NOERROR, 0)"
| "sequence_execute (j # js) t =
     (let r = execute j t in if isFailed r then (r, 1) else (let (r, n) = sequence_execute js t in (r, Suc n)))"

section \<open>The registry stays usable\<close>

definition schedulers_inv :: "scheduler_service \<Rightarrow> bool" where
  "schedulers_inv s \<longleftrightarrow> distinct (map fst (schedulers s)) \<and> clock_based_scheduler \<in> set (schedulers s) \<and>
     (\<exists>x \<in> set (schedulers s). current_scheduler s = Some x) \<and> distinct (map (fst \<circ> snd) (ss_jobs s))"

datatype scheduler_op =
    Reg scheduler_ref
  | Unreg string
  | Set string
  | Ready
  | Start_Op
  | Stop_Op
  | Add_Job string nat job_configuration
  | Remove_Job string
  | Set_Property string

fun scheduler_step :: "(scheduler_ref \<Rightarrow> fep_result) \<Rightarrow> scheduler_op \<Rightarrow> scheduler_service \<Rightarrow> scheduler_service" where
  "scheduler_step ans (Reg x) s = snd (registerScheduler x s)"
| "scheduler_step ans (Unreg name) s = snd (unregisterScheduler name s)"
| "scheduler_step ans (Set name) s = snd (setScheduler name s)"
| "scheduler_step ans Ready s = snd (ready_service ans s)"
| "scheduler_step ans Start_Op s = snd (start_service ans s)"
| "scheduler_step ans Stop_Op s = snd (stop_service ans s)"
| "scheduler_step ans (Add_Job name j cfg) s = snd (addJob name j cfg s)"
| "scheduler_step ans (Remove_Job name) s = snd (removeJob name s)"
| "scheduler_step ans (Set_Property name) s = s\<lparr>scheduler_property := name\<rparr>"

lemma found: "List.find P xs = Some x \<Longrightarrow> x \<in> set xs \<and> P x"
  by (induction xs) (auto split: if_splits)

lemma not_found: "List.find P xs = None \<longleftrightarrow> (\<forall>x \<in> set xs. \<not> P x)"
  by (induction xs) auto

lemma erase_named_Some:
  "erase_named name xs = Some rest \<Longrightarrow> distinct (map fst xs) \<Longrightarrow>
   distinct (map fst rest) \<and> set rest = {x \<in> set xs. fst x \<noteq> name}"
proof (induction xs arbitrary: rest)
  case (Cons x xs)
  show ?case
  proof (cases "fst x = name")
    case True
    then have "\<forall>y \<in> set xs. fst y \<noteq> name" using Cons.prems(2) by (metis distinct.simps(2) image_eqI list.set_map list.simps(9))
    then show ?thesis using Cons.prems True by auto
  next
    case False
    then obtain rest' where r: "erase_named name xs = Some rest'" "rest = x # rest'" using Cons.prems(1) by auto
    have "distinct (map fst rest') \<and> set rest' = {x \<in> set xs. fst x \<noteq> name}" using Cons.IH [OF r(1)] Cons.prems(2) by simp
    then show ?thesis using r(2) False Cons.prems(2) by auto
  qed
qed simp

lemma erase_job_keys: "distinct (map (fst \<circ> snd) js) \<Longrightarrow>
    distinct (map (fst \<circ> snd) (erase_job name js)) \<and> set (erase_job name js) \<subseteq> set js"
  by (induction js) (auto simp: image_iff)

lemma scheduler_step_inv: "schedulers_inv s \<Longrightarrow> schedulers_inv (scheduler_step ans op s)"
proof (cases op)
  case (Reg x)
  assume "schedulers_inv s"
  then show ?thesis by (auto simp: Reg registerScheduler_def schedulers_inv_def findScheduler_def not_found split: option.splits)
next
  case (Unreg name)
  assume inv: "schedulers_inv s"
  show ?thesis
  proof (cases "erase_named name (schedulers s)")
    case (Some rest)
    then show ?thesis using erase_named_Some [OF Some] inv
      by (auto simp: Unreg unregisterScheduler_def schedulers_inv_def Let_def)
  qed (use inv in \<open>simp add: Unreg unregisterScheduler_def\<close>)
next
  case (Set name)
  assume "schedulers_inv s"
  then show ?thesis by (auto simp: Set setScheduler_def schedulers_inv_def findScheduler_def split: option.splits dest: found)
next
  case Ready
  assume "schedulers_inv s"
  then show ?thesis
    by (auto simp: Ready ready_service_def setScheduler_def schedulers_inv_def findScheduler_def split: option.splits dest: found)
next
  case (Add_Job name j cfg)
  assume "schedulers_inv s"
  then show ?thesis by (auto simp: Add_Job addJob_def schedulers_inv_def findJob_def not_found split: option.splits)
next
  case (Remove_Job name)
  assume "schedulers_inv s"
  then show ?thesis using erase_job_keys [of "ss_jobs s" name]
    by (auto simp: Remove_Job removeJob_def schedulers_inv_def split: option.splits)
qed (auto simp: start_service_def stop_service_def schedulers_inv_def split: option.splits)

text \<open>The scheduler service of a participant after any operations: it has a current scheduler, which is registered; the names of
  schedulers and of jobs are unique; and the scheduler of the participant is always there to fall back to.\<close>
theorem scheduler_service_always_usable:
  "schedulers_inv (fold (scheduler_step ans) ops (create_service new_scheduler_service))"
proof -
  have "schedulers_inv (create_service new_scheduler_service)" unfolding schedulers_inv_def by code_simp
  then show ?thesis by (induction ops rule: rev_induct) (simp_all add: scheduler_step_inv)
qed

text \<open>The remote list of schedulers has the first name twice and no commas.\<close>

lemma scheduler_list_garbled: "getSchedulers [''a'', ''b''] = ''aab''"
  by simp

lemma sequence_stops_at_failure:
  "sequence_execute js t = (r, n) \<Longrightarrow> if r = ERR_NOERROR then n = length js \<and> (\<forall>j \<in> set js. execute j t = ERR_NOERROR)
   else 0 < n \<and> n \<le> length js \<and> execute (js ! (n - 1)) t = r \<and> (\<forall>j \<in> set (take (n - 1) js). execute j t = ERR_NOERROR)"
proof (induction js arbitrary: n)
  case (Cons j js)
  then show ?case by (cases "execute j t = ERR_NOERROR"; cases n) (auto simp: Let_def case_prod_beta nth_Cons' take_Cons' prod_eq_iff split: if_splits)
qed auto

end
