(* ===== verification/Data_Item_Queue.thy ===== *)
theory Data_Item_Queue
  imports Fep_Prelude "HOL-Library.Monad_Syntax"
begin

text \<open>
  The queues of samples and stream types between the bus and the jobs: \<open>DataItemQueue\<close>, a ring of fixed size that drops the
  oldest item (\<open>data_item_queue.h\<close>), and \<open>DynamicDataItemQueue\<close>, which grows (\<open>dynamic_data_item_queue.h\<close>); what both
  promise to the templates that use them is the locale \<open>item_queue\<close>. \<open>DataReaderBacklog\<close> (\<open>data_reader_queue.cpp\<close>) keeps
  the last samples that were received.

  A sample and a stream type are values behind read-only pointers; a null pointer is \<open>None\<close>. \<open>INVALID_timestamp_t_fep\<close> is the
  smallest number of 64 bits. Indices are natural numbers: they never exceed the size of the vector.
\<close>

definition INVALID_timestamp_t_fep :: int where
  "INVALID_timestamp_t_fep = - (2 ^ 63)"

section \<open>Items\<close>

datatype item_type = Sample_Item | Type_Item

record ('s, 't) data_item =
  item_type :: item_type
  item_time :: int
  item_sample :: "'s option"
  item_stream_type :: "'t option"

definition empty_item :: "('s, 't) data_item" where
  "empty_item = \<lparr>item_type = Sample_Item, item_time = 0, item_sample = None, item_stream_type = None\<rparr>"

definition set_sample :: "'s \<Rightarrow> int \<Rightarrow> ('s, 't) data_item \<Rightarrow> ('s, 't) data_item" where
  "set_sample s t i = i\<lparr>item_sample := Some s, item_time := t, item_stream_type := None, item_type := Sample_Item\<rparr>"

definition set_stream_type :: "'t \<Rightarrow> int \<Rightarrow> ('s, 't) data_item \<Rightarrow> ('s, 't) data_item" where
  "set_stream_type ty t i = i\<lparr>item_stream_type := Some ty, item_time := t, item_sample := None, item_type := Type_Item\<rparr>"

text \<open>What the receiver of an item is called with, and what an item holds.\<close>

type_synonym ('s, 't) delivery = "'s option + 't option"

definition deliver :: "('s, 't) data_item \<Rightarrow> ('s, 't) delivery" where
  "deliver i = (case item_type i of Sample_Item \<Rightarrow> Inl (item_sample i) | Type_Item \<Rightarrow> Inr (item_stream_type i))"

lemma deliver_set [simp]:
  "deliver (set_sample s t i) = Inl (Some s)" "deliver (set_stream_type ty t i) = Inr (Some ty)"
  "item_time (set_sample s t i) = t" "item_time (set_stream_type ty t i) = t"
  by (simp_all add: deliver_def set_sample_def set_stream_type_def)

section \<open>The queue of fixed size\<close>

record ('s, 't) ring =
  ring_items :: "('s, 't) data_item list"
  ring_capacity :: nat
  next_write_idx :: nat
  next_read_idx :: nat
  ring_size :: nat

definition ring_new :: "nat \<Rightarrow> ('s, 't) ring" where
  "ring_new capacity =
     (let capacity = if capacity \<le> 0 then 1 else capacity
      in \<lparr>ring_items = replicate capacity empty_item, ring_capacity = capacity, next_write_idx = 0, next_read_idx = 0,
          ring_size = 0\<rparr>)"

text \<open>An index that has reached the end is set to the beginning when it is used next.\<close>

definition wrapped :: "nat \<Rightarrow> ('s, 't) ring \<Rightarrow> nat" where
  "wrapped idx q = (if idx = length (ring_items q) then 0 else idx)"

definition ring_put ::
  "(('s, 't) data_item \<Rightarrow> ('s, 't) data_item) \<Rightarrow> ('s, 't) ring \<Rightarrow> ('s, 't) ring" where
  "ring_put assign q =
     (let w = wrapped (next_write_idx q) q;
          q = q\<lparr>ring_items := (ring_items q)[w := assign (ring_items q ! w)], next_write_idx := w + 1,
                ring_size := ring_size q + 1\<rparr>
      in if ring_size q > length (ring_items q)
         then q\<lparr>ring_size := length (ring_items q), next_read_idx := wrapped (next_read_idx q) q + 1\<rparr>
         else q)"

definition ring_push :: "'s \<Rightarrow> int \<Rightarrow> ('s, 't) ring \<Rightarrow> ('s, 't) ring" where
  "ring_push s t q = ring_put (set_sample s t) q"

definition ring_pushType :: "'t \<Rightarrow> int \<Rightarrow> ('s, 't) ring \<Rightarrow> ('s, 't) ring" where
  "ring_pushType ty t q = ring_put (set_stream_type ty t) q"

definition ring_topTime :: "('s, 't) ring \<Rightarrow> int" where
  "ring_topTime q =
     (if ring_size q > 0 then item_time (ring_items q ! wrapped (next_read_idx q) q) else INVALID_timestamp_t_fep)"

definition ring_drop :: "('s, 't) ring \<Rightarrow> bool \<times> ('s, 't) ring" where
  "ring_drop q =
     (if ring_size q > 0 then
        let r = wrapped (next_read_idx q) q
        in (True, q\<lparr>ring_items := (ring_items q)[r := (ring_items q ! r)\<lparr>item_sample := None, item_stream_type := None\<rparr>],
              next_read_idx := r + 1, ring_size := ring_size q - 1\<rparr>)
      else (False, q))"

definition ring_pop :: "('s, 't) ring \<Rightarrow> ('s, 't) delivery option \<times> ('s, 't) ring" where
  "ring_pop q =
     (if ring_size q > 0 then
        let r = wrapped (next_read_idx q) q;
            i = ring_items q ! r;
            i' = (case item_type i of Sample_Item \<Rightarrow> i\<lparr>item_sample := None\<rparr> | Type_Item \<Rightarrow> i\<lparr>item_stream_type := None\<rparr>)
        in (Some (deliver i), q\<lparr>ring_items := (ring_items q)[r := i'], next_read_idx := r + 1, ring_size := ring_size q - 1\<rparr>)
      else (None, q))"

definition ring_clear :: "('s, 't) ring \<Rightarrow> ('s, 't) ring" where
  "ring_clear q = q\<lparr>ring_items := replicate (ring_capacity q) empty_item, next_write_idx := 0, next_read_idx := 0, ring_size := 0\<rparr>"

section \<open>The queue that grows\<close>

type_synonym ('s, 't) dynamic_queue = "('s, 't) data_item list"

definition dyn_push :: "'s \<Rightarrow> int \<Rightarrow> ('s, 't) dynamic_queue \<Rightarrow> ('s, 't) dynamic_queue" where
  "dyn_push s t q = q @ [\<lparr>item_type = Sample_Item, item_time = t, item_sample = Some s, item_stream_type = None\<rparr>]"

definition dyn_pushType :: "'t \<Rightarrow> int \<Rightarrow> ('s, 't) dynamic_queue \<Rightarrow> ('s, 't) dynamic_queue" where
  "dyn_pushType ty t q = q @ [\<lparr>item_type = Type_Item, item_time = t, item_sample = None, item_stream_type = Some ty\<rparr>]"

definition dyn_topTime :: "('s, 't) dynamic_queue \<Rightarrow> int" where
  "dyn_topTime q = (if q \<noteq> [] then item_time (hd q) else INVALID_timestamp_t_fep)"

definition dyn_drop :: "('s, 't) dynamic_queue \<Rightarrow> bool \<times> ('s, 't) dynamic_queue" where
  "dyn_drop q = (if q \<noteq> [] then (True, tl q) else (False, q))"

definition dyn_pop :: "('s, 't) dynamic_queue \<Rightarrow> ('s, 't) delivery option \<times> ('s, 't) dynamic_queue" where
  "dyn_pop q = (if q \<noteq> [] then (Some (deliver (hd q)), tl q) else (None, q))"

definition dyn_clear :: "('s, 't) dynamic_queue \<Rightarrow> ('s, 't) dynamic_queue" where
  "dyn_clear q = []"

section \<open>What a queue promises\<close>

text \<open>The content of a queue is a list of what is delivered with the time of each item; a bounded queue keeps the newest ones.\<close>

definition keep_newest :: "nat option \<Rightarrow> 'a list \<Rightarrow> 'a list" where
  "keep_newest room xs = (case room of None \<Rightarrow> xs | Some n \<Rightarrow> drop (length xs - n) xs)"

lemma keep_newest_simps [simp]:
  "keep_newest None xs = xs" "keep_newest (Some n) xs = drop (length xs - n) xs"
  by (simp_all add: keep_newest_def)

lemma keep_newest_twice: "keep_newest room (keep_newest room xs @ ys) = keep_newest room (xs @ ys)"
proof (cases room)
  case (Some n)
  show ?thesis
  proof (cases "length xs \<le> n")
    case False
    then have "length xs - n + (n + length ys - n) = length xs + length ys - n" by simp
    then show ?thesis using False Some by (simp add: add.commute)
  qed (simp add: Some)
qed simp

locale item_queue =
  fixes push :: "'s \<Rightarrow> int \<Rightarrow> 'q \<Rightarrow> 'q"
    and pushType :: "'t \<Rightarrow> int \<Rightarrow> 'q \<Rightarrow> 'q"
    and topTime :: "'q \<Rightarrow> int"
    and pop :: "'q \<Rightarrow> ('s, 't) delivery option \<times> 'q"
    and count :: "'q \<Rightarrow> nat"
    and clear :: "'q \<Rightarrow> 'q"
    and valid :: "'q \<Rightarrow> bool"
    and content :: "'q \<Rightarrow> (('s, 't) delivery \<times> int) list"
    and room :: "'q \<Rightarrow> nat option"
  assumes push: "valid q \<Longrightarrow> valid (push s t q) \<and> room (push s t q) = room q \<and>
        content (push s t q) = keep_newest (room q) (content q @ [(Inl (Some s), t)])"
    and pushType: "valid q \<Longrightarrow> valid (pushType ty t q) \<and> room (pushType ty t q) = room q \<and>
        content (pushType ty t q) = keep_newest (room q) (content q @ [(Inr (Some ty), t)])"
    and topTime: "valid q \<Longrightarrow> topTime q = (case content q of [] \<Rightarrow> INVALID_timestamp_t_fep | x # _ \<Rightarrow> snd x)"
    and pop_empty: "valid q \<Longrightarrow> content q = [] \<Longrightarrow> pop q = (None, q)"
    and pop_first: "valid q \<Longrightarrow> content q = x # xs \<Longrightarrow>
        fst (pop q) = Some (fst x) \<and> valid (snd (pop q)) \<and> content (snd (pop q)) = xs \<and> room (snd (pop q)) = room q"
    and count: "valid q \<Longrightarrow> count q = length (content q)"
    and clear: "valid q \<Longrightarrow> valid (clear q) \<and> content (clear q) = [] \<and> room (clear q) = room q"

text \<open>The two loops that empty a queue: \<open>flush\<close> of a writer and the reading of the items up to a time.\<close>

partial_function (option) flush_queue ::
  "('q \<Rightarrow> nat) \<Rightarrow> ('q \<Rightarrow> ('s, 't) delivery option \<times> 'q) \<Rightarrow> 'q \<Rightarrow> (('s, 't) delivery list \<times> 'q) option" where
  "flush_queue sz take_item q =
     (if sz q > 0 then
        do { (ds, q') \<leftarrow> flush_queue sz take_item (snd (take_item q));
             Some ((case fst (take_item q) of None \<Rightarrow> [] | Some d \<Rightarrow> [d]) @ ds, q') }
      else Some ([], q))"

text \<open>\<open>receiveNow\<close> reads the items before the time, \<open>receiveNowFEP22Compatible\<close> those up to it (\<open>until\<close>).\<close>

partial_function (option) receive_items ::
  "('q \<Rightarrow> int) \<Rightarrow> ('q \<Rightarrow> ('s, 't) delivery option \<times> 'q) \<Rightarrow> (int \<Rightarrow> bool) \<Rightarrow> 'q \<Rightarrow> (('s, 't) delivery list \<times> 'q) option" where
  "receive_items top_time take_item before q =
     (if top_time q \<noteq> INVALID_timestamp_t_fep \<and> before (top_time q) then
        (if fst (take_item q) = None then Some ([], snd (take_item q))
         else do { (ds, q') \<leftarrow> receive_items top_time take_item before (snd (take_item q));
                   Some (the (fst (take_item q)) # ds, q') })
      else Some ([], q))"

definition readable :: "(int \<Rightarrow> bool) \<Rightarrow> 'd \<times> int \<Rightarrow> bool" where
  "readable before x \<longleftrightarrow> snd x \<noteq> INVALID_timestamp_t_fep \<and> before (snd x)"

definition put_item :: "('s \<Rightarrow> int \<Rightarrow> 'q \<Rightarrow> 'q) \<Rightarrow> ('t \<Rightarrow> int \<Rightarrow> 'q \<Rightarrow> 'q) \<Rightarrow> ('s + 't) \<times> int \<Rightarrow> 'q \<Rightarrow> 'q" where
  "put_item put_s put_t x q = (case fst x of Inl s \<Rightarrow> put_s s (snd x) q | Inr ty \<Rightarrow> put_t ty (snd x) q)"

definition entry :: "('s + 't) \<times> int \<Rightarrow> ('s, 't) delivery \<times> int" where
  "entry x = (map_sum Some Some (fst x), snd x)"

context item_queue begin

lemma flush_all:
  assumes "valid q"
  shows "\<exists>q'. flush_queue count pop q = Some (map fst (content q), q') \<and> valid q' \<and> content q' = [] \<and> room q' = room q"
  using assms
proof (induction "content q" arbitrary: q)
  case Nil
  then show ?case by (subst flush_queue.simps) (simp add: count)
next
  case (Cons x xs)
  have first: "fst (pop q) = Some (fst x)" "valid (snd (pop q))" "content (snd (pop q)) = xs" "room (snd (pop q)) = room q"
    using pop_first [OF Cons.prems, of x xs] Cons.hyps(2) by simp_all
  then obtain q' where "flush_queue count pop (snd (pop q)) = Some (map fst xs, q')" "valid q'" "content q' = []" "room q' = room q"
    using Cons.hyps(1) [of "snd (pop q)"] by auto
  moreover have "count q > 0" using Cons by (simp add: count flip: Cons.hyps(2))
  ultimately show ?case by (subst flush_queue.simps) (simp add: first(1) flip: Cons.hyps(2))
qed

lemma receive_readable:
  assumes "valid q"
  shows "\<exists>q'. receive_items topTime pop before q = Some (map fst (takeWhile (readable before) (content q)), q') \<and> valid q' \<and>
    content q' = dropWhile (readable before) (content q) \<and> room q' = room q"
  using assms
proof (induction "content q" arbitrary: q)
  case Nil
  then show ?case by (subst receive_items.simps) (simp add: topTime flip: Nil.hyps)
next
  case (Cons x xs)
  have first: "fst (pop q) = Some (fst x)" "valid (snd (pop q))" "content (snd (pop q)) = xs" "room (snd (pop q)) = room q"
    using pop_first [OF Cons.prems, of x xs] Cons.hyps(2) by simp_all
  have top: "topTime q = snd x" using topTime [OF Cons.prems] by (simp flip: Cons.hyps(2))
  show ?case
  proof (cases "readable before x")
    case True
    obtain q' where "receive_items topTime pop before (snd (pop q)) = Some (map fst (takeWhile (readable before) xs), q')" "valid q'"
      "content q' = dropWhile (readable before) xs" "room q' = room q"
      using Cons.hyps(1) [of "snd (pop q)"] first by auto
    then show ?thesis using True
      by (subst receive_items.simps) (simp add: first(1) top readable_def flip: Cons.hyps(2))
  next
    case False
    then have "receive_items topTime pop before q = Some ([], q)" by (subst receive_items.simps) (auto simp: top readable_def)
    then show ?thesis using False Cons by (simp flip: Cons.hyps(2))
  qed
qed

text \<open>Any sequence of insertions leaves the newest items, in their order.\<close>

lemma put_all:
  assumes "valid q"
  shows "valid (fold (put_item push pushType) xs q) \<and> room (fold (put_item push pushType) xs q) = room q \<and>
    (xs \<noteq> [] \<longrightarrow> content (fold (put_item push pushType) xs q) = keep_newest (room q) (content q @ map entry xs))"
  using assms
proof (induction xs arbitrary: q)
  case (Cons x xs)
  obtain c t where x: "x = (c, t)" by (cases x)
  have one: "valid (put_item push pushType x q)" "room (put_item push pushType x q) = room q"
    "content (put_item push pushType x q) = keep_newest (room q) (content q @ [entry x])"
    using push [OF Cons.prems] pushType [OF Cons.prems] by (cases c; simp add: put_item_def entry_def x)+
  show ?case
  proof (cases "xs = []")
    case False
    then show ?thesis using Cons.IH [OF one(1)] by (simp only: one) (simp add: keep_newest_twice)
  qed (use one in simp)
qed simp

end

section \<open>The queue of fixed size is a bounded queue\<close>

definition ring_valid :: "('s, 't) ring \<Rightarrow> bool" where
  "ring_valid q \<longleftrightarrow> ring_capacity q > 0 \<and> length (ring_items q) = ring_capacity q \<and> ring_size q \<le> ring_capacity q \<and>
     next_write_idx q \<le> ring_capacity q \<and> next_read_idx q \<le> ring_capacity q \<and>
     next_write_idx q mod ring_capacity q = (next_read_idx q + ring_size q) mod ring_capacity q"

definition ring_content :: "('s, 't) ring \<Rightarrow> (('s, 't) delivery \<times> int) list" where
  "ring_content q = map (\<lambda>k. let i = ring_items q ! ((next_read_idx q + k) mod ring_capacity q) in (deliver i, item_time i)) [0..<ring_size q]"


text \<open>Where the items of the queue are: \<open>k\<close> places behind the next one that is read.\<close>

definition slot_of :: "nat \<Rightarrow> ('s, 't) ring \<Rightarrow> nat" where
  "slot_of k q = (next_read_idx q + k) mod ring_capacity q"

lemma slot_inj_le: "i \<le> j \<Longrightarrow> j < (n :: nat) \<Longrightarrow> (a + i) mod n = (a + j) mod n \<Longrightarrow> i = j"
proof (rule ccontr)
  assume *: "i \<le> j" "j < n" "(a + i) mod n = (a + j) mod n" "i \<noteq> j"
  then have "n dvd a + j - (a + i)" using mod_eq_dvd_iff_nat [of "a + i" "a + j" n] by simp
  then show False using * dvd_imp_le [of n "j - i"] by simp
qed

lemma slot_inj: "i < n \<Longrightarrow> j < (n :: nat) \<Longrightarrow> (a + i) mod n = (a + j) mod n \<longleftrightarrow> i = j"
  using slot_inj_le [of i j n a] slot_inj_le [of j i n a] by (metis nat_le_linear)

lemma wrapped_mod: "ring_valid q \<Longrightarrow> i \<le> ring_capacity q \<Longrightarrow> wrapped i q = i mod ring_capacity q"
  by (auto simp: wrapped_def ring_valid_def)

lemma wrapped_assigned [simp]:
  "wrapped i (q\<lparr>ring_items := (ring_items q)[j := x], next_write_idx := a, ring_size := b\<rparr>) = wrapped i q"
  by (simp add: wrapped_def)

lemma ring_content_nth:
  "k < ring_size q \<Longrightarrow> ring_content q ! k = (deliver (ring_items q ! slot_of k q), item_time (ring_items q ! slot_of k q))"
  by (simp add: ring_content_def slot_of_def Let_def)

lemma length_ring_content [simp]: "length (ring_content q) = ring_size q"
  by (simp add: ring_content_def)

lemma ring_put_content:
  assumes v: "ring_valid q"
  shows "ring_valid (ring_put f q) \<and> ring_capacity (ring_put f q) = ring_capacity q \<and>
    (\<exists>i. ring_content (ring_put f q) = keep_newest (Some (ring_capacity q)) (ring_content q @ [(deliver (f i), item_time (f i))]))"
proof -
  let ?n = "ring_capacity q" and ?r = "next_read_idx q" and ?s = "ring_size q"
  let ?w = "(?r + ?s) mod ?n"
  have n: "0 < ?n" "length (ring_items q) = ?n" "?s \<le> ?n" and w: "next_write_idx q mod ?n = ?w"
    using v by (simp_all add: ring_valid_def)
  have wraps: "wrapped (next_write_idx q) q = ?w" "wrapped ?r q = ?r mod ?n"
    using wrapped_mod [OF v] v w by (simp_all add: ring_valid_def)
  let ?i = "f (ring_items q ! ?w)"
  have w_in: "?w < ?n" using n by simp
  show ?thesis
  proof (cases "?s < ?n")
    case True
    then have put: "ring_put f q = q\<lparr>ring_items := (ring_items q)[?w := ?i], next_write_idx := ?w + 1, ring_size := ?s + 1\<rparr>"
      by (simp add: ring_put_def wraps n Let_def)
    have valid: "ring_valid (ring_put f q)"
      using v True w_in by (simp add: put ring_valid_def mod_Suc_eq Suc_leI)
    have "ring_content (ring_put f q) = ring_content q @ [(deliver ?i, item_time ?i)]"
    proof (intro nth_equalityI)
      fix k assume "k < length (ring_content (ring_put f q))"
      then have k: "k < Suc ?s" by (simp add: put)
      then have "(?r + k) mod ?n = ?w \<longleftrightarrow> k = ?s" using slot_inj [of k ?n ?s ?r] True by simp
      then show "ring_content (ring_put f q) ! k = (ring_content q @ [(deliver ?i, item_time ?i)]) ! k"
        using k w_in n by (auto simp: put ring_content_nth nth_append slot_of_def less_Suc_eq)
    qed (simp add: put)
    moreover have "ring_capacity (ring_put f q) = ?n" by (simp add: put)
    ultimately show ?thesis using valid True by (intro conjI exI [of _ "ring_items q ! ?w"]) simp_all
  next
    case False
    then have full: "?s = ?n" and wr: "?w = ?r mod ?n" using n by simp_all
    have put: "ring_put f q = q\<lparr>ring_items := (ring_items q)[?w := ?i], next_write_idx := ?w + 1, ring_size := ?n, next_read_idx := ?w + 1\<rparr>"
      unfolding ring_put_def wraps(1) Let_def using n full wr by (simp add: wraps(2))
    have valid: "ring_valid (ring_put f q)" using v w_in mod_add_self2 [of "Suc ?w" ?n] by (simp add: put ring_valid_def Suc_leI)
    have "ring_content (ring_put f q) = tl (ring_content q @ [(deliver ?i, item_time ?i)])"
    proof (intro nth_equalityI)
      fix k assume "k < length (ring_content (ring_put f q))"
      then have k: "k < ?n" by (simp add: put)
      have idx: "(?w + 1 + k) mod ?n = (?r + Suc k) mod ?n" using mod_add_left_eq [of ?r ?n "Suc k"] by (simp add: wr)
      have "(?r + Suc k) mod ?n = ?w \<longleftrightarrow> Suc k = ?n"
      proof (cases "Suc k = ?n")
        case False
        then have "Suc k < ?n" using k by simp
        then show ?thesis using slot_inj [of "Suc k" ?n 0 ?r] n by (simp add: wr)
      qed (simp add: wr)
      then show "ring_content (ring_put f q) ! k = tl (ring_content q @ [(deliver ?i, item_time ?i)]) ! k"
        using k w_in n full idx
        by (cases "Suc k = ?n") (simp_all add: put ring_content_nth nth_tl nth_append slot_of_def)
    qed (simp add: put full)
    moreover have "ring_capacity (ring_put f q) = ?n" by (simp add: put)
    moreover have "keep_newest (Some ?n) (ring_content q @ [e]) = tl (ring_content q @ [e])" for e
      by (simp add: full drop_Suc del: drop_append tl_append)
    ultimately show ?thesis using valid by (intro conjI exI [of _ "ring_items q ! ?w"]) simp_all
  qed
qed

lemma ring_take_content:
  assumes v: "ring_valid q" and c: "ring_content q = x # xs"
  shows "\<exists>r. wrapped (next_read_idx q) q = r \<and> r < length (ring_items q) \<and> ring_size q > 0 \<and>
    x = (deliver (ring_items q ! r), item_time (ring_items q ! r)) \<and>
    (\<forall>i. let q' = q\<lparr>ring_items := (ring_items q)[r := i], next_read_idx := r + 1, ring_size := ring_size q - 1\<rparr>
         in ring_valid q' \<and> ring_content q' = xs)"
proof -
  let ?n = "ring_capacity q" and ?s = "ring_size q"
  let ?r = "next_read_idx q mod ?n"
  have n: "0 < ?n" "length (ring_items q) = ?n" "?s \<le> ?n" using v by (simp_all add: ring_valid_def)
  have s: "?s = Suc (length xs)" using length_ring_content [of q] c by simp
  have wraps: "wrapped (next_read_idx q) q = ?r" using wrapped_mod [OF v] v by (simp add: ring_valid_def)
  have "x = ring_content q ! 0" using c by simp
  then have x: "x = (deliver (ring_items q ! ?r), item_time (ring_items q ! ?r))" using s by (simp add: ring_content_nth slot_of_def)
  have "let q' = q\<lparr>ring_items := (ring_items q)[?r := i], next_read_idx := ?r + 1, ring_size := ?s - 1\<rparr>
         in ring_valid q' \<and> ring_content q' = xs" for i
  proof -
    let ?q = "q\<lparr>ring_items := (ring_items q)[?r := i], next_read_idx := ?r + 1, ring_size := ?s - 1\<rparr>"
    have "(?r + 1 + (?s - 1)) mod ?n = (next_read_idx q + ?s) mod ?n" using s mod_add_left_eq [of "next_read_idx q" ?n ?s] by simp
    then have "ring_valid ?q" using v n by (auto simp: ring_valid_def Suc_leI)
    moreover have "ring_content ?q = xs"
    proof (intro nth_equalityI)
      fix k assume "k < length (ring_content ?q)"
      then have k: "k < length xs" using s by simp
      have idx: "(?r + 1 + k) mod ?n = (next_read_idx q + Suc k) mod ?n"
        using mod_add_left_eq [of "next_read_idx q" ?n "Suc k"] by simp
      moreover have "(next_read_idx q + Suc k) mod ?n \<noteq> ?r"
        using slot_inj [of "Suc k" ?n 0 "next_read_idx q"] k s n by simp
      moreover have "xs ! k = ring_content q ! Suc k" using c by simp
      ultimately show "ring_content ?q ! k = xs ! k" using k s by (simp add: ring_content_nth slot_of_def)
    qed (simp add: s)
    ultimately show ?thesis by (simp add: Let_def)
  qed
  then show ?thesis using wraps n x s by (intro exI [of _ ?r]) simp
qed

lemma ring_valid_new [simp]: "ring_valid (ring_new n)" "ring_content (ring_new n) = []" "ring_capacity (ring_new n) = max 1 n"
  by (simp_all add: ring_new_def ring_valid_def ring_content_def Let_def)

lemma ring_content_empty: "ring_content q = [] \<longleftrightarrow> ring_size q = 0"
  by (simp flip: length_0_conv)

lemma ring_topTime_content:
  "ring_valid q \<Longrightarrow> ring_topTime q = (case ring_content q of [] \<Rightarrow> INVALID_timestamp_t_fep | x # _ \<Rightarrow> snd x)"
  using ring_take_content [of q] ring_content_empty [of q] by (cases "ring_content q") (auto simp: ring_topTime_def)

lemma ring_pop_content:
  "ring_valid q \<Longrightarrow> ring_content q = x # xs \<Longrightarrow>
   fst (ring_pop q) = Some (fst x) \<and> ring_valid (snd (ring_pop q)) \<and> ring_content (snd (ring_pop q)) = xs \<and>
   ring_capacity (snd (ring_pop q)) = ring_capacity q"
  using ring_take_content [of q x xs] by (auto simp: ring_pop_def Let_def)

lemma ring_clear_content: "ring_valid q \<Longrightarrow> ring_valid (ring_clear q) \<and> ring_content (ring_clear q) = []"
  by (simp add: ring_clear_def ring_valid_def ring_content_def)

interpretation ring: item_queue ring_push ring_pushType ring_topTime ring_pop ring_size ring_clear ring_valid ring_content
  "\<lambda>q. Some (ring_capacity q)"
proof (unfold_locales, goal_cases)
  case (1 q s t)
  then show ?case using ring_put_content [of q "set_sample s t"] by (simp add: ring_push_def)
next
  case (2 q ty t)
  then show ?case using ring_put_content [of q "set_stream_type ty t"] by (simp add: ring_pushType_def)
next
  case (4 q)
  then show ?case by (simp add: ring_content_empty ring_pop_def)
next
  case (5 q x xs)
  then show ?case using ring_pop_content [of q x xs] by simp
next
  case (7 q)
  then show ?case using ring_clear_content [of q] by (simp add: ring_clear_def)
qed (simp_all add: ring_topTime_content)

lemma dyn_content [simp]:
  "map (\<lambda>i. (deliver i, item_time i)) (dyn_push s t q) = map (\<lambda>i. (deliver i, item_time i)) q @ [(Inl (Some s), t)]"
  "map (\<lambda>i. (deliver i, item_time i)) (dyn_pushType ty t q) = map (\<lambda>i. (deliver i, item_time i)) q @ [(Inr (Some ty), t)]"
  by (simp_all add: dyn_push_def dyn_pushType_def deliver_def)

definition dyn_content_of :: "('s, 't) dynamic_queue \<Rightarrow> (('s, 't) delivery \<times> int) list" where
  "dyn_content_of q = map (\<lambda>i. (deliver i, item_time i)) q"

interpretation dynamic: item_queue dyn_push dyn_pushType dyn_topTime dyn_pop length dyn_clear "\<lambda>q. True" dyn_content_of "\<lambda>q. None"
proof (unfold_locales, goal_cases)
  case (3 q)
  then show ?case by (cases q) (simp_all add: dyn_content_of_def dyn_topTime_def)
next
  case (5 q x xs)
  then show ?case by (cases q) (auto simp: dyn_content_of_def dyn_pop_def)
qed (simp_all add: dyn_content_of_def dyn_pop_def dyn_clear_def)

section \<open>Samples and their reader\<close>

text \<open>A sample as the registry hands it on: its time, its counter and its bytes.\<close>

record sample =
  sample_time :: int
  sample_counter :: nat
  sample_bytes :: "8 word list"

text \<open>\<open>DataReaderQueue\<close>: a stream type is queued without a time.\<close>

definition queue_onReceive :: "(sample + 't) \<Rightarrow> (sample, 't) ring \<Rightarrow> (sample, 't) ring" where
  "queue_onReceive x q =
     (case x of Inl s \<Rightarrow> ring_push s (sample_time s) q | Inr ty \<Rightarrow> ring_pushType ty INVALID_timestamp_t_fep q)"

record 't backlog =
  bl_samples :: "sample option list"
  bl_type :: "'t option"
  last_idx :: nat
  bl_size :: nat

definition backlog_new :: "nat \<Rightarrow> 't \<Rightarrow> 't backlog" where
  "backlog_new sz init_type =
     \<lparr>bl_samples = replicate (if sz \<le> 0 then 1 else sz) None, bl_type = Some init_type, last_idx = 0, bl_size = 0\<rparr>"

definition backlog_onReceiveType :: "'t option \<Rightarrow> 't backlog \<Rightarrow> 't backlog" where
  "backlog_onReceiveType ty b = b\<lparr>bl_type := ty\<rparr>"

definition backlog_onReceive :: "sample option \<Rightarrow> 't backlog \<Rightarrow> 't backlog" where
  "backlog_onReceive s b =
     (let i = last_idx b + 1;
          i = (if i = length (bl_samples b) then 0 else i);
          n = (if bl_size b < length (bl_samples b) then bl_size b + 1 else bl_size b)
      in b\<lparr>last_idx := i, bl_size := n, bl_samples := (bl_samples b)[i := s]\<rparr>)"

definition backlog_resize :: "nat \<Rightarrow> 't backlog \<Rightarrow> nat \<times> 't backlog" where
  "backlog_resize queue_size b =
     (let queue_size = if queue_size \<le> 0 then 1 else queue_size
      in (queue_size,
          if length (bl_samples b) \<noteq> queue_size
          then b\<lparr>last_idx := 0, bl_size := 0, bl_samples := replicate queue_size None\<rparr> else b))"

definition backlog_read :: "'t backlog \<Rightarrow> sample option" where
  "backlog_read b = bl_samples b ! last_idx b"

text \<open>The samples are looked at from the last one backwards; \<open>None\<close> is the use of a null pointer.\<close>

fun look_back :: "'t backlog \<Rightarrow> int \<Rightarrow> nat \<Rightarrow> nat \<Rightarrow> sample option option" where
  "look_back b upper_bound 0 i = Some None"
| "look_back b upper_bound (Suc loop_count) i =
     (case bl_samples b ! i of
        None \<Rightarrow> None
      | Some s \<Rightarrow>
          if sample_time s \<le> upper_bound then Some (Some s)
          else look_back b upper_bound loop_count (if i = 0 then bl_size b - 1 else i - 1))"

definition backlog_readBefore :: "int \<Rightarrow> 't backlog \<Rightarrow> sample option option" where
  "backlog_readBefore upper_bound b = look_back b upper_bound (bl_size b) (last_idx b)"

definition backlog_receive :: "(sample, 't) delivery \<Rightarrow> 't backlog \<Rightarrow> 't backlog" where
  "backlog_receive d b = (case d of Inl s \<Rightarrow> backlog_onReceive s b | Inr ty \<Rightarrow> backlog_onReceiveType ty b)"

text \<open>\<open>DataReader\<close>: what the queue gives until the time of the execution goes into the backlog.\<close>

definition receiveNow :: "int \<Rightarrow> (sample, 't) ring \<times> 't backlog \<Rightarrow> ((sample, 't) ring \<times> 't backlog) option" where
  "receiveNow time_of_update st =
     do { (ds, q) \<leftarrow> receive_items ring_topTime ring_pop (\<lambda>t. t < time_of_update) (fst st);
          Some (q, fold backlog_receive ds (snd st)) }"

definition receiveNowFEP22Compatible :: "int \<Rightarrow> (sample, 't) ring \<times> 't backlog \<Rightarrow> ((sample, 't) ring \<times> 't backlog) option" where
  "receiveNowFEP22Compatible time_of_update st =
     do { (ds, q) \<leftarrow> receive_items ring_topTime ring_pop (\<lambda>t. t \<le> time_of_update) (fst st);
          Some (q, fold backlog_receive ds (snd st)) }"

section \<open>The backlog holds the last samples\<close>

text \<open>The samples in the backlog, the last one first.\<close>

definition back_slot :: "nat \<Rightarrow> 't backlog \<Rightarrow> nat" where
  "back_slot k b = (let n = length (bl_samples b) in if k \<le> last_idx b then last_idx b - k else last_idx b + n - k)"

definition backlog_holds :: "'t backlog \<Rightarrow> sample list \<Rightarrow> bool" where
  "backlog_holds b xs \<longleftrightarrow> length xs = bl_size b \<and> bl_size b \<le> length (bl_samples b) \<and> last_idx b < length (bl_samples b) \<and>
     (bl_size b < length (bl_samples b) \<longrightarrow> last_idx b = bl_size b) \<and> (bl_size b = 0 \<longrightarrow> bl_samples b ! last_idx b = None) \<and>
     (\<forall>k < bl_size b. bl_samples b ! back_slot k b = Some (xs ! k))"

lemma backlog_holds_new [simp]: "backlog_holds (backlog_new n ty) []"
  by (simp add: backlog_holds_def backlog_new_def)

lemma backlog_receive_holds:
  assumes "backlog_holds b xs"
  shows "backlog_holds (backlog_onReceive (Some s) b) (take (length (bl_samples b)) (s # xs))"
proof -
  let ?n = "length (bl_samples b)" and ?b = "backlog_onReceive (Some s) b"
  let ?i = "if last_idx b + 1 = ?n then 0 else last_idx b + 1"
  have b: "length xs = bl_size b" "bl_size b \<le> ?n" "last_idx b < ?n" "bl_size b < ?n \<Longrightarrow> last_idx b = bl_size b"
    "\<And>k. k < bl_size b \<Longrightarrow> bl_samples b ! back_slot k b = Some (xs ! k)"
    using assms by (auto simp: backlog_holds_def)
  have new: "bl_samples ?b = (bl_samples b)[?i := Some s]" "last_idx ?b = ?i" "bl_size ?b = min ?n (Suc (bl_size b))"
    using b(2) by (auto simp: backlog_onReceive_def Let_def)
  have "bl_samples ?b ! back_slot k ?b = Some ((s # xs) ! k)" if k: "k < min ?n (Suc (bl_size b))" for k
  proof (cases k)
    case 0
    moreover have "bl_samples b \<noteq> []" using b(3) by auto
    ultimately show ?thesis using b(3) by (auto simp: new back_slot_def)
  next
    case (Suc j)
    have "back_slot k ?b = back_slot j b" "back_slot j b \<noteq> ?i" "back_slot j b < ?n"
      using b(2-4) k Suc by (auto simp: new back_slot_def Let_def split: if_splits)
    then show ?thesis using b(5) [of j] k Suc by (simp add: new)
  qed
  then show ?thesis using b by (auto simp: backlog_holds_def new min_def)
qed

lemma backlog_receive_length [simp]: "length (bl_samples (backlog_onReceive s b)) = length (bl_samples b)"
  by (simp add: backlog_onReceive_def Let_def)

lemma backlog_type_holds [simp]: "backlog_holds (backlog_onReceiveType ty b) xs \<longleftrightarrow> backlog_holds b xs"
  by (simp add: backlog_holds_def backlog_onReceiveType_def back_slot_def)

lemma backlog_read_holds: "backlog_holds b xs \<Longrightarrow> backlog_read b = (case xs of [] \<Rightarrow> None | x # _ \<Rightarrow> Some x)"
  by (cases xs) (force simp: backlog_holds_def backlog_read_def back_slot_def)+

lemma look_back_holds:
  assumes "backlog_holds b xs" "loop_count + k = bl_size b" "loop_count > 0 \<Longrightarrow> i = back_slot k b"
  shows "look_back b u loop_count i = Some (List.find (\<lambda>s. sample_time s \<le> u) (drop k xs))"
  using assms(2,3)
proof (induction loop_count arbitrary: k i)
  case 0
  then show ?case using assms(1) by (simp add: backlog_holds_def)
next
  case (Suc n)
  have k: "k < bl_size b" "length xs = bl_size b" using Suc.prems assms(1) by (auto simp: backlog_holds_def)
  then have here: "drop k xs = xs ! k # drop (Suc k) xs" "bl_samples b ! i = Some (xs ! k)"
    using Suc.prems assms(1) by (auto simp: backlog_holds_def Cons_nth_drop_Suc)
  have next_slot: "n > 0 \<Longrightarrow> (if i = 0 then bl_size b - 1 else i - 1) = back_slot (Suc k) b"
    using Suc.prems assms(1) by (auto simp: backlog_holds_def back_slot_def Let_def split: if_splits)
  show ?case using Suc.IH [OF _ next_slot] Suc.prems(1) by (simp add: here)
qed


section \<open>What a reader shows\<close>

text \<open>
  The abstract reader: the samples and types that wait, and the samples of the backlog, the last one first. An arrival drops
  what is too old; an execution moves what is readable.
\<close>

type_synonym 't reader_view = "((sample + 't) \<times> int) list \<times> sample list"

datatype 't reader_event = Arrives "sample + 't" | Execution int | Execution_FEP22 int

definition stamp :: "sample + 't \<Rightarrow> (sample + 't) \<times> int" where
  "stamp x = (x, case x of Inl s \<Rightarrow> sample_time s | Inr _ \<Rightarrow> INVALID_timestamp_t_fep)"

definition samples_of :: "((sample + 't) \<times> int) list \<Rightarrow> sample list" where
  "samples_of xs = List.map_filter (\<lambda>x. case fst x of Inl s \<Rightarrow> Some s | Inr _ \<Rightarrow> None) xs"

definition move_readable :: "nat \<Rightarrow> (int \<Rightarrow> bool) \<Rightarrow> 't reader_view \<Rightarrow> 't reader_view" where
  "move_readable n before v =
     (dropWhile (readable before) (fst v),
      take n (rev (samples_of (takeWhile (readable before) (fst v))) @ snd v))"

fun view_step :: "nat \<Rightarrow> 't reader_event \<Rightarrow> 't reader_view \<Rightarrow> 't reader_view" where
  "view_step n (Arrives x) v = (keep_newest (Some n) (fst v @ [stamp x]), snd v)"
| "view_step n (Execution t) v = move_readable n (\<lambda>u. u < t) v"
| "view_step n (Execution_FEP22 t) v = move_readable n (\<lambda>u. u \<le> t) v"

fun reader_step :: "'t reader_event \<Rightarrow> (sample, 't) ring \<times> 't backlog \<Rightarrow> ((sample, 't) ring \<times> 't backlog) option" where
  "reader_step (Arrives x) st = Some (queue_onReceive x (fst st), snd st)"
| "reader_step (Execution t) st = receiveNow t st"
| "reader_step (Execution_FEP22 t) st = receiveNowFEP22Compatible t st"

fun reader_run :: "'t reader_event list \<Rightarrow> (sample, 't) ring \<times> 't backlog \<Rightarrow> ((sample, 't) ring \<times> 't backlog) option" where
  "reader_run [] st = Some st"
| "reader_run (e # es) st = do { st \<leftarrow> reader_step e st; reader_run es st }"

definition reader_shows :: "nat \<Rightarrow> 't reader_view \<Rightarrow> (sample, 't) ring \<times> 't backlog \<Rightarrow> bool" where
  "reader_shows n v st \<longleftrightarrow> ring_valid (fst st) \<and> ring_capacity (fst st) = n \<and> ring_content (fst st) = map entry (fst v) \<and>
     backlog_holds (snd st) (snd v) \<and> length (bl_samples (snd st)) = n"

lemma entry_stamp [simp]: "readable before (entry x) = readable before x" "snd (entry x) = snd x"
  by (simp_all add: readable_def entry_def)

lemma keep_newest_map: "map f (keep_newest room xs) = keep_newest room (map f xs)"
  by (cases room) (simp_all add: drop_map)

lemma backlog_receive_all:
  assumes "backlog_holds b ys" "length (bl_samples b) = n"
  shows "backlog_holds (fold backlog_receive (map (\<lambda>x. fst (entry x)) xs) b) (take n (rev (samples_of xs) @ ys)) \<and>
    length (bl_samples (fold backlog_receive (map (\<lambda>x. fst (entry x)) xs) b)) = n"
  using assms
proof (induction xs arbitrary: b ys)
  case Nil
  then show ?case by (auto simp: samples_of_def backlog_holds_def map_filter_simps)
next
  case (Cons x xs)
  show ?case
  proof (cases "fst x")
    case (Inl s)
    have "take n (rev (samples_of xs) @ take n (s # ys)) = take n (rev (samples_of xs) @ s # ys)"
      by (cases "length (samples_of xs) \<le> n") (simp_all add: min_def)
    then show ?thesis
      using Cons.IH [of "backlog_onReceive (Some s) b" "take n (s # ys)"] backlog_receive_holds [OF Cons.prems(1)] Cons.prems(2)
      by (simp add: entry_def Inl backlog_receive_def samples_of_def map_filter_simps)
  next
    case (Inr ty)
    then show ?thesis using Cons.IH [of "backlog_onReceiveType (Some ty) b" ys] Cons.prems
      by (simp add: entry_def backlog_receive_def samples_of_def map_filter_simps) (simp add: backlog_onReceiveType_def)
  qed
qed

lemma receive_shows:
  assumes "reader_shows n v st"
  shows "\<exists>q. receive_items ring_topTime ring_pop before (fst st) =
      Some (map (\<lambda>x. fst (entry x)) (takeWhile (readable before) (fst v)), q) \<and>
    reader_shows n (move_readable n before v)
      (q, fold backlog_receive (map (\<lambda>x. fst (entry x)) (takeWhile (readable before) (fst v))) (snd st))"
proof -
  have st: "ring_valid (fst st)" "ring_capacity (fst st) = n" "ring_content (fst st) = map entry (fst v)"
    "backlog_holds (snd st) (snd v)" "length (bl_samples (snd st)) = n" using assms by (simp_all add: reader_shows_def)
  obtain q where "receive_items ring_topTime ring_pop before (fst st) = Some (map fst (takeWhile (readable before) (ring_content (fst st))), q)"
    "ring_valid q" "ring_content q = dropWhile (readable before) (ring_content (fst st))" "Some (ring_capacity q) = Some (ring_capacity (fst st))"
    using ring.receive_readable [OF st(1)] by blast
  then show ?thesis using backlog_receive_all [OF st(4,5)] st(2)
    by (auto simp: reader_shows_def move_readable_def st(3) takeWhile_map dropWhile_map o_def)
qed

lemma reader_step_shows:
  assumes "reader_shows n v st"
  shows "\<exists>st'. reader_step e st = Some st' \<and> reader_shows n (view_step n e v) st'"
proof (cases e)
  case (Arrives x)
  have "ring_valid (fst st)" "ring_content (fst st) = map entry (fst v)" "ring_capacity (fst st) = n"
    using assms by (simp_all add: reader_shows_def)
  then have "ring_valid (queue_onReceive x (fst st)) \<and> ring_capacity (queue_onReceive x (fst st)) = n \<and>
      ring_content (queue_onReceive x (fst st)) = map entry (keep_newest (Some n) (fst v @ [stamp x]))"
    using ring.push [of "fst st"] ring.pushType [of "fst st"]
    by (cases x) (simp_all add: queue_onReceive_def stamp_def entry_def keep_newest_map del: keep_newest_simps)
  then show ?thesis using assms by (simp add: Arrives reader_shows_def)
next
  case (Execution t)
  then show ?thesis using receive_shows [OF assms, of "\<lambda>u. u < t"] by (auto simp: receiveNow_def)
next
  case (Execution_FEP22 t)
  then show ?thesis using receive_shows [OF assms, of "\<lambda>u. u \<le> t"] by (auto simp: receiveNowFEP22Compatible_def)
qed


lemma reader_run_shows:
  assumes "reader_shows n v st"
  shows "\<exists>st'. reader_run es st = Some st' \<and> reader_shows n (fold (view_step n) es v) st'"
  using assms
proof (induction es arbitrary: v st)
  case (Cons e es)
  obtain st1 where "reader_step e st = Some st1" "reader_shows n (view_step n e v) st1"
    using reader_step_shows [OF Cons.prems] by blast
  then show ?case using Cons.IH [of "view_step n e v" st1] by simp
qed simp

definition new_reader :: "nat \<Rightarrow> 't \<Rightarrow> (sample, 't) ring \<times> 't backlog" where
  "new_reader n ty = (ring_new n, backlog_new n ty)"

lemma new_reader_shows: "reader_shows (max 1 n) ([], []) (new_reader n ty)"
  by (simp add: new_reader_def reader_shows_def) (simp add: backlog_new_def)

lemma shows_reads:
  assumes "reader_shows n v st"
  shows "ring_content (fst st) = map entry (fst v) \<and> backlog_read (snd st) = (case snd v of [] \<Rightarrow> None | s # _ \<Rightarrow> Some s) \<and>
    backlog_readBefore u (snd st) = Some (List.find (\<lambda>s. sample_time s \<le> u) (snd v))"
proof -
  have holds: "backlog_holds (snd st) (snd v)" using assms by (simp add: reader_shows_def)
  show ?thesis using backlog_read_holds [OF holds] look_back_holds [OF holds, of "bl_size (snd st)" 0 "last_idx (snd st)" u] assms
    by (simp add: backlog_readBefore_def back_slot_def reader_shows_def)
qed

text \<open>C20: A reader is its abstract view: whatever arrives and is executed, no null pointer is used and no loop goes on for ever; the
  last sample and the last sample up to a time are those of the view, which keeps as many items as the reader was made for
  (at least one), the newest ones.\<close>
theorem reader_refines_view:
  "\<exists>st. reader_run es (new_reader n ty) = Some st \<and>
     (let (waiting, seen) = fold (view_step (max 1 n)) es ([], [])
      in ring_content (fst st) = map entry waiting \<and>
         backlog_read (snd st) = (case seen of [] \<Rightarrow> None | s # _ \<Rightarrow> Some s) \<and>
         backlog_readBefore u (snd st) = Some (List.find (\<lambda>s. sample_time s \<le> u) seen))"
proof -
  obtain st where st: "reader_run es (new_reader n ty) = Some st" "reader_shows (max 1 n) (fold (view_step (max 1 n)) es ([], [])) st"
    using reader_run_shows [OF new_reader_shows [of n ty], of es] by blast
  then show ?thesis using shows_reads [OF st(2), of u] by (auto simp: case_prod_beta Let_def)
qed

section \<open>What a job can rely on\<close>

text \<open>
  The samples arrive in the order of their times, and the reader has room for those that wait (\<open>keeps_up\<close>). \<open>arrivals\<close> are the
  samples that arrived.
\<close>

fun keeps_up :: "nat \<Rightarrow> 't reader_event list \<Rightarrow> 't reader_view \<Rightarrow> bool" where
  "keeps_up n [] v \<longleftrightarrow> True"
| "keeps_up n (e # es) v \<longleftrightarrow>
     (case e of Arrives x \<Rightarrow> length (fst v) < n | _ \<Rightarrow> True) \<and> keeps_up n es (view_step n e v)"

definition arrivals :: "'t reader_event list \<Rightarrow> sample list" where
  "arrivals es = List.map_filter (\<lambda>e. case e of Arrives (Inl s) \<Rightarrow> Some s | _ \<Rightarrow> None) es"

definition only_samples :: "int \<Rightarrow> 't reader_event list \<Rightarrow> bool" where
  "only_samples now es \<longleftrightarrow> list_all (\<lambda>e. case e of
     Arrives (Inl s) \<Rightarrow> INVALID_timestamp_t_fep < sample_time s | Execution t \<Rightarrow> t \<le> now | _ \<Rightarrow> False) es"

lemma samples_of_stamps [simp]: "samples_of (map (stamp \<circ> Inl) xs) = xs"
  by (induction xs) (simp_all add: samples_of_def map_filter_simps stamp_def)

lemma samples_of_stamps' [simp]: "samples_of (map (\<lambda>x. stamp (Inl x)) xs) = xs"
  using samples_of_stamps [of xs] by (simp add: o_def)

lemma take_append_take: "take n (xs @ take n ys) = take n (xs @ ys)"
  by (cases "length xs \<le> n") simp_all

lemma arrivals_append [simp]: "arrivals (xs @ ys) = arrivals xs @ arrivals ys"
  by (induction xs) (simp_all add: arrivals_def map_filter_simps split: option.split)

lemma arrivals_simps [simp]:
  "arrivals [] = []" "arrivals [Arrives (Inl s)] = [s]" "arrivals [Execution t] = []"
  by (simp_all add: arrivals_def map_filter_simps)

lemma keeps_up_snoc: "keeps_up n (es @ [e]) v \<longleftrightarrow> keeps_up n es v \<and>
    (case e of Arrives x \<Rightarrow> length (fst (fold (view_step n) es v)) < n | _ \<Rightarrow> True)"
  by (induction es arbitrary: v) (auto split: reader_event.split)

lemma only_samples_append [simp]: "only_samples now (xs @ ys) \<longleftrightarrow> only_samples now xs \<and> only_samples now ys"
  by (simp add: only_samples_def)

text \<open>The view is cut out of the arrivals: the first \<open>k\<close> have been read.\<close>

definition read_so_far :: "nat \<Rightarrow> int \<Rightarrow> sample list \<Rightarrow> nat \<Rightarrow> 't reader_view \<Rightarrow> bool" where
  "read_so_far n now xs k v \<longleftrightarrow> k \<le> length xs \<and> fst v = map (stamp \<circ> Inl) (drop k xs) \<and> snd v = take n (rev (take k xs)) \<and>
     (\<forall>s \<in> set (take k xs). sample_time s < now)"

lemma readable_stamp: "INVALID_timestamp_t_fep < sample_time s \<Longrightarrow> readable before (stamp (Inl s)) = before (sample_time s)"
  by (simp add: readable_def stamp_def)

lemma takeWhile_drop_take: "take k xs @ takeWhile P (drop k xs) = take (k + length (takeWhile P (drop k xs))) xs"
  by (metis take_add takeWhile_eq_take)

lemma execution_reads:
  assumes "read_so_far n now xs k v" "\<forall>s \<in> set xs. INVALID_timestamp_t_fep < sample_time s" "t \<le> now"
  shows "read_so_far n now xs (k + length (takeWhile (\<lambda>s. sample_time s < t) (drop k xs))) (view_step n (Execution t) v)"
proof -
  let ?l = "length (takeWhile (\<lambda>s. sample_time s < t) (drop k xs))"
  have v: "fst v = map (stamp \<circ> Inl) (drop k xs)" "snd v = take n (rev (take k xs))" "k \<le> length xs"
    "\<forall>s \<in> set (take k xs). sample_time s < now" using assms(1) by (simp_all add: read_so_far_def)
  have same: "takeWhile (\<lambda>s. readable (\<lambda>u. u < t) (stamp (Inl s))) (drop k xs) = takeWhile (\<lambda>s. sample_time s < t) (drop k xs)"
    "dropWhile (\<lambda>s. readable (\<lambda>u. u < t) (stamp (Inl s))) (drop k xs) = dropWhile (\<lambda>s. sample_time s < t) (drop k xs)"
    using assms(2) by (auto intro!: takeWhile_cong dropWhile_cong simp: readable_stamp dest: in_set_dropD)
  have "fst (view_step n (Execution t) v) = map (stamp \<circ> Inl) (drop (k + ?l) xs)"
    using dropWhile_eq_drop [of "\<lambda>s. sample_time s < t" "drop k xs"]
    by (simp add: move_readable_def v(1) dropWhile_map o_def same add.commute)
  moreover have "snd (view_step n (Execution t) v) = take n (rev (takeWhile (\<lambda>s. sample_time s < t) (drop k xs)) @ take n (rev (take k xs)))"
    unfolding view_step.simps move_readable_def snd_conv v(1,2) takeWhile_map o_def same samples_of_stamps' ..
  then have "snd (view_step n (Execution t) v) = take n (rev (take (k + ?l) xs))"
    by (simp only: take_append_take flip: rev_append takeWhile_drop_take)
  moreover have "\<forall>s \<in> set (take (k + ?l) xs). sample_time s < now"
    using v(4) assms(3) by (auto dest!: set_takeWhileD simp flip: takeWhile_drop_take)
  moreover have "k + ?l \<le> length xs" using v(3) length_takeWhile_le [of "\<lambda>s. sample_time s < t" "drop k xs"] by simp
  ultimately show ?thesis by (simp add: read_so_far_def)
qed

lemma only_samples_valid: "only_samples now es \<Longrightarrow> \<forall>s \<in> set (arrivals es). INVALID_timestamp_t_fep < sample_time s"
  by (induction es) (auto simp: only_samples_def arrivals_def map_filter_simps split: reader_event.splits sum.splits)

lemma reading_goes_on:
  assumes "only_samples now es" "keeps_up n es ([], [])"
  shows "\<exists>k. read_so_far n now (arrivals es) k (fold (view_step n) es ([], []))"
  using assms
proof (induction es rule: rev_induct)
  case Nil
  then show ?case by (simp add: read_so_far_def)
next
  case (snoc e es)
  let ?v = "fold (view_step n) es ([], [])"
  obtain k where k: "read_so_far n now (arrivals es) k ?v" using snoc by (auto simp: keeps_up_snoc)
  show ?case
  proof (cases e)
    case (Arrives x)
    then obtain s where "x = Inl s" using snoc.prems(1) by (cases x) (auto simp: only_samples_def)
    moreover have "length (fst ?v) < n" using snoc.prems(2) by (simp add: keeps_up_snoc Arrives)
    ultimately show ?thesis using k
      by (intro exI [of _ k]) (simp_all add: Arrives read_so_far_def)
  next
    case (Execution t)
    have "t \<le> now" "\<forall>s \<in> set (arrivals es). INVALID_timestamp_t_fep < sample_time s"
      using snoc.prems(1) only_samples_valid by (auto simp: only_samples_def Execution)
    then show ?thesis using execution_reads [OF k] by (auto simp: Execution)
  qed (use snoc.prems in \<open>simp add: only_samples_def\<close>)
qed


lemma sorted_splits:
  assumes "sorted (map sample_time xs)"
  shows "filter (\<lambda>s. sample_time s < t) xs = takeWhile (\<lambda>s. sample_time s < t) xs"
    and "filter (\<lambda>s. \<not> sample_time s < t) xs = dropWhile (\<lambda>s. sample_time s < t) xs"
  using assms by (induction xs) (auto simp: filter_empty_conv filter_id_conv takeWhile_eq_Nil_iff dropWhile_eq_self_iff dest!: hd_in_set)

text \<open>A job executed at a time sees exactly the samples before that time, as long as only samples are queued, no stream types
  (the registry of the repository queues nothing else): when the samples arrive in the order of their times, no
  earlier execution was for a later time and the reader has room for what waits, the last sample is the newest one before
  the time of the execution, and the last sample up to a bound is the newest such one among those the backlog keeps.\<close>
theorem job_sees_samples_before_its_time:
  assumes "only_samples now es" "keeps_up n es ([], [])" "sorted (map sample_time (arrivals es))" "1 \<le> n"
  shows "let visible = filter (\<lambda>s. sample_time s < now) (arrivals es)
    in \<exists>st. reader_run (es @ [Execution now]) (new_reader n ty) = Some st \<and>
         backlog_read (snd st) = (if visible = [] then None else Some (last visible)) \<and>
         backlog_readBefore u (snd st) = Some (List.find (\<lambda>s. sample_time s \<le> u) (take n (rev visible))) \<and>
         map fst (ring_content (fst st)) = map (Inl \<circ> Some) (filter (\<lambda>s. \<not> sample_time s < now) (arrivals es))"
proof -
  let ?xs = "arrivals es" and ?P = "\<lambda>s. sample_time s < now" and ?es = "es @ [Execution now]"
  let ?visible = "filter ?P ?xs"
  obtain k where "read_so_far n now ?xs k (fold (view_step n) es ([], []))" using reading_goes_on [OF assms(1,2)] by blast
  then have final: "read_so_far n now ?xs (k + length (takeWhile ?P (drop k ?xs))) (fold (view_step n) ?es ([], []))"
    (is "read_so_far n now ?xs ?k ?v")
    using execution_reads [where n = n and k = k, OF _ only_samples_valid [OF assms(1)] order_refl] by simp
  have first: "\<forall>s \<in> set (take k ?xs). ?P s" using \<open>read_so_far n now ?xs k _\<close> by (simp add: read_so_far_def)
  have "sorted (map sample_time (drop k ?xs))" using assms(3) by (simp add: sorted_wrt_drop flip: drop_map)
  then have rest: "filter ?P (drop k ?xs) = takeWhile ?P (drop k ?xs)" "filter (\<lambda>s. \<not> ?P s) (drop k ?xs) = dropWhile ?P (drop k ?xs)"
    by (rule sorted_splits)+
  have cut: "filter Q ?xs = filter Q (take k ?xs) @ filter Q (drop k ?xs)" for Q by (simp flip: filter_append)
  have "filter ?P (take k ?xs) = take k ?xs" "filter (\<lambda>s. \<not> ?P s) (take k ?xs) = []"
    using first by (auto simp: filter_id_conv filter_empty_conv)
  then have seen: "?visible = take ?k ?xs" and waiting: "filter (\<lambda>s. \<not> ?P s) ?xs = drop ?k ?xs"
    unfolding cut [of ?P] cut [of "\<lambda>s. \<not> ?P s"] rest by (simp_all only: takeWhile_drop_take dropWhile_eq_drop append_Nil drop_drop add.commute)
  have v: "fst ?v = map (stamp \<circ> Inl) (drop ?k ?xs)" "snd ?v = take n (rev ?visible)"
    using final unfolding read_so_far_def seen by blast+
  have max: "max 1 n = n" using assms(4) by simp
  obtain st where run: "reader_run ?es (new_reader n ty) = Some st" "reader_shows n ?v st"
    using reader_run_shows [OF new_reader_shows [of n ty], of ?es] unfolding max by blast
  have "(case take n (rev ?visible) of [] \<Rightarrow> None | s # _ \<Rightarrow> Some s) = (if ?visible = [] then None else Some (last ?visible))"
    using assms(4) by (cases ?visible rule: rev_cases) (simp_all add: take_Cons split: nat.split)
  then show ?thesis using run(1) shows_reads [OF run(2), of u] unfolding Let_def waiting v
    by (intro exI [of _ st]) (simp add: entry_def stamp_def)
qed


definition demo_sample :: "int \<Rightarrow> sample" where
  "demo_sample t = \<lparr>sample_time = t, sample_counter = 0, sample_bytes = []\<rparr>"

definition demo_arrival :: "int \<Rightarrow> nat reader_event" where
  "demo_arrival t = Arrives (Inl (demo_sample t))"

theorem job_sees_samples_before_its_time_witness:
  "\<exists>st. reader_run [demo_arrival 3, demo_arrival 9, Execution 5, demo_arrival 12, Execution 10] (new_reader 2 (0 :: nat)) = Some st \<and>
     backlog_read (snd st) = Some (demo_sample 9) \<and> backlog_readBefore 8 (snd st) = Some (Some (demo_sample 3)) \<and>
     map fst (ring_content (fst st)) = [Inl (Some (demo_sample 12))]"
proof -
  let ?es = "[demo_arrival 3, demo_arrival 9, Execution 5, demo_arrival 12]"
  have arrived: "arrivals ?es = [demo_sample 3, demo_sample 9, demo_sample 12]"
    by (simp add: arrivals_def demo_arrival_def map_filter_simps)
  have "only_samples 10 ?es" by (simp add: only_samples_def demo_arrival_def demo_sample_def INVALID_timestamp_t_fep_def)
  moreover have "keeps_up 2 ?es ([], [])" by code_simp
  moreover have "sorted (map sample_time (arrivals ?es))" by (simp add: arrived demo_sample_def)
  ultimately show ?thesis using job_sees_samples_before_its_time [of 10 ?es 2 "0 :: nat" 8]
    by (simp add: arrived) (simp add: demo_sample_def numeral_2_eq_2)
qed

text \<open>A reader without room for what waits, which is what a job gets when it says nothing about the size (one sample), loses the
  sample it should see to one that is still in the future, and sees nothing; it sees the later one when its time has come.\<close>
theorem future_sample_hides_present_one:
  assumes "sample_time s < now" "now \<le> sample_time s'" "INVALID_timestamp_t_fep < sample_time s"
  shows "\<exists>st. reader_run [Arrives (Inl s), Arrives (Inl s'), Execution now] (new_reader 1 ty) = Some st \<and>
      backlog_read (snd st) = None \<and> map fst (ring_content (fst st)) = [Inl (Some s')]"
proof -
  let ?es = "[Arrives (Inl s), Arrives (Inl s'), Execution now]"
  have v: "fold (view_step 1) ?es ([], []) = ([stamp (Inl s')], [])"
    using assms by (simp add: move_readable_def samples_of_def map_filter_simps readable_def stamp_def)
  obtain st where st: "reader_run ?es (new_reader 1 ty) = Some st" "reader_shows 1 (fold (view_step 1) ?es ([], [])) st"
    using reader_run_shows [OF new_reader_shows [of 1 ty], of ?es] unfolding max.idem by blast
  show ?thesis using st(1) shows_reads [OF st(2) [unfolded v]]
    by (intro exI [of _ st]) (simp add: entry_def stamp_def del: reader_run.simps)
qed

theorem future_sample_hides_present_one_witness:
  "\<exists>st. reader_run [demo_arrival 3, demo_arrival 9, Execution 5] (new_reader 1 (0 :: nat)) = Some st \<and>
     backlog_read (snd st) = None \<and> map fst (ring_content (fst st)) = [Inl (Some (demo_sample 9))]"
  using future_sample_hides_present_one [of "demo_sample 3" 5 "demo_sample 9" "0 :: nat"]
  by (simp add: demo_arrival_def) (simp add: demo_sample_def INVALID_timestamp_t_fep_def)

text \<open>A stream type in the queue has no time: it is never read, and nothing behind it is, until it is dropped because the queue
  is full. The registry of this repository only queues samples.\<close>
lemma stream_type_blocks:
  "list_all (\<lambda>e. \<not> (\<exists>x. e = Arrives x)) es \<Longrightarrow>
   fold (view_step n) es (stamp (Inr ty) # waiting, seen) = (stamp (Inr ty) # waiting, take (if es = [] then length seen else n) seen)"
proof (induction es arbitrary: seen)
  case (Cons e es)
  have "move_readable n before (stamp (Inr ty) # waiting, seen) = (stamp (Inr ty) # waiting, take n seen)" for before
    by (simp add: move_readable_def readable_def stamp_def samples_of_def map_filter_simps)
  then show ?case using Cons by (cases e) (auto simp: min_def)
qed simp

text \<open>Changing the size of the backlog forgets what it holds.\<close>
lemma resize_forgets:
  "length (bl_samples b) \<noteq> max 1 n \<Longrightarrow> backlog_holds (snd (backlog_resize n b)) [] \<and> fst (backlog_resize n b) = max 1 n"
  by (cases n) (auto simp: backlog_resize_def backlog_holds_def)

end
