(* ===== verification/Signal_Description.thy ===== *)
theory Signal_Description
  imports Fep_Prelude
begin

text \<open>
  The descriptions of signal types: \<open>cDDLManager\<close> (\<open>src/signal_registry/fep_ddl_manager.cpp\<close>) and the part of
  \<open>cSignalRegistry\<close> that registers, clears and resolves descriptions (\<open>fep_signal_registry.cpp\<close>).

  The library that parses, compares, merges and resolves descriptions (\<open>ddl\<close>) is not part of the repository: it is a record of
  functions, and a description is a value of a type parameter. Reading a file, cutting a text into its parts and what the mapping
  answers to a new description are functions too.
\<close>

unbundle bit_operations_syntax

record 'd ddl_lib =
  parse_ddl :: "string \<Rightarrow> 'd option"
  has_dynamic_structs :: "'d \<Rightarrow> bool"
  conflicts :: "'d \<Rightarrow> 'd \<Rightarrow> bool"
  merge_ddl :: "'d \<Rightarrow> 'd \<Rightarrow> fep_result \<times> 'd"
  has_struct :: "'d \<Rightarrow> string \<Rightarrow> bool"
  resolved_xml :: "'d \<Rightarrow> string \<Rightarrow> string option"
  default_ddl :: 'd

record surroundings =
  read_text_file :: "string \<Rightarrow> string option"
  splitToken :: "string \<Rightarrow> string list"
  trim :: "string \<Rightarrow> string"

record 'd descriptions =
  current_ddl :: 'd
  known_types :: "(string \<times> string) list"

definition new_descriptions :: "'d ddl_lib \<Rightarrow> 'd descriptions" where
  "new_descriptions lib = \<lparr>current_ddl = default_ddl lib, known_types = []\<rparr>"

section \<open>The manager of descriptions\<close>

definition LoadDDL :: "'d ddl_lib \<Rightarrow> string \<Rightarrow> 'd \<Rightarrow> fep_result \<times> 'd" where
  "LoadDDL lib text_of_ddl d =
     (let (r, d) = (case parse_ddl lib text_of_ddl of None \<Rightarrow> (ERR_INVALID_ARG, d) | Some d' \<Rightarrow> (ERR_NOERROR, d'))
      in (if has_dynamic_structs lib d then ERR_INVALID_TYPE else r, d))"

definition MergeDDL :: "'d ddl_lib \<Rightarrow> string \<Rightarrow> 'd \<Rightarrow> fep_result \<times> 'd" where
  "MergeDDL lib text_of_ddl d =
     (case parse_ddl lib text_of_ddl of
        None \<Rightarrow> (ERR_INVALID_ARG, d)
      | Some d' \<Rightarrow>
          if \<not> conflicts lib d' d \<and> \<not> has_dynamic_structs lib d' then merge_ddl lib d d'
          else (ERR_INVALID_TYPE, d))"

definition ResolveType :: "'d ddl_lib \<Rightarrow> string \<Rightarrow> 'd \<Rightarrow> string option" where
  "ResolveType lib strType d =
     (if strType = [] then None else if has_struct lib d strType then resolved_xml lib d strType else None)"

section \<open>The registry of descriptions\<close>

definition DF_REPLACE :: "32 word" where "DF_REPLACE = 1"
definition DF_MERGE :: "32 word" where "DF_MERGE = 2"
definition DF_DESCRIPTION_FILE :: "32 word" where "DF_DESCRIPTION_FILE = 4"

text \<open>The second component says whether an incident is raised. Without a mapping component (\<open>None\<close>) nobody is told.\<close>

definition RegisterSignalDescription ::
  "'d ddl_lib \<Rightarrow> surroundings \<Rightarrow> ('d \<Rightarrow> fep_result) option \<Rightarrow> string option \<Rightarrow> 32 word \<Rightarrow> 'd descriptions \<Rightarrow>
   fep_result \<times> bool \<times> 'd descriptions" where
  "RegisterSignalDescription lib env mapping strDescription flags st =
     (let bReplace = (flags AND DF_REPLACE = DF_REPLACE);
          bMerge = (flags AND DF_MERGE = DF_MERGE)
      in case strDescription of
           None \<Rightarrow> (ERR_INVALID_ARG, False, st)
         | Some strDescription \<Rightarrow>
             if bReplace \<and> bMerge then (ERR_INVALID_ARG, False, st)
             else
               case (if flags AND DF_DESCRIPTION_FILE = DF_DESCRIPTION_FILE then read_text_file env strDescription
                     else Some strDescription) of
                 None \<Rightarrow> (ERR_INVALID_FILE, False, st)
               | Some desc \<Rightarrow>
                   let (r, d) = (if bReplace \<or> \<not> bMerge then LoadDDL lib desc (current_ddl st)
                                 else MergeDDL lib desc (current_ddl st));
                       st = st\<lparr>current_ddl := d\<rparr>
                   in if isFailed r then (r, True, st)
                      else (case mapping of None \<Rightarrow> r | Some reset \<Rightarrow> reset d, False, st))"

definition ClearSignalDescriptions ::
  "'d ddl_lib \<Rightarrow> ('d \<Rightarrow> fep_result) option \<Rightarrow> 'd descriptions \<Rightarrow> fep_result \<times> 'd descriptions" where
  "ClearSignalDescriptions lib mapping st =
     (case mapping of None \<Rightarrow> ERR_NOERROR | Some reset \<Rightarrow> reset (default_ddl lib), new_descriptions lib)"

text \<open>What has been resolved once is remembered.\<close>

definition ResolveSignalType ::
  "'d ddl_lib \<Rightarrow> string option \<Rightarrow> 'd descriptions \<Rightarrow> fep_result \<times> string option \<times> 'd descriptions" where
  "ResolveSignalType lib strSignalType st =
     (case strSignalType of
        None \<Rightarrow> (ERR_POINTER, None, st)
      | Some ty \<Rightarrow>
          case map_of (known_types st) ty of
            Some desc \<Rightarrow> (ERR_NOERROR, Some desc, st)
          | None \<Rightarrow>
              case ResolveType lib ty (current_ddl st) of
                Some desc \<Rightarrow> (ERR_NOERROR, Some desc, st\<lparr>known_types := (ty, desc) # known_types st\<rparr>)
              | None \<Rightarrow> (ERR_NOT_FOUND, None, st))"

fun register_files ::
  "'d ddl_lib \<Rightarrow> surroundings \<Rightarrow> ('d \<Rightarrow> fep_result) option \<Rightarrow> string list \<Rightarrow> 'd descriptions \<Rightarrow>
   fep_result \<times> 'd descriptions" where
  "register_files lib env mapping [] st = (ERR_NOERROR, st)"
| "register_files lib env mapping (f # fs) st =
     (let (r, incident, st) = RegisterSignalDescription lib env mapping (Some f) (DF_MERGE OR DF_DESCRIPTION_FILE) st
      in if isFailed r then (r, snd (ClearSignalDescriptions lib mapping st))
         else if fs = [] then (r, st) else register_files lib env mapping fs st)"

definition RegisterRemoteDescriptionConfig ::
  "'d ddl_lib \<Rightarrow> surroundings \<Rightarrow> ('d \<Rightarrow> fep_result) option \<Rightarrow> string \<Rightarrow> 'd descriptions \<Rightarrow>
   fep_result \<times> 'd descriptions" where
  "RegisterRemoteDescriptionConfig lib env mapping path st =
     register_files lib env mapping (map (trim env) (splitToken env path)) st"

text \<open>\<open>ConfigureRemoteDescription\<close>: the last path that could be read is kept in the registry; failures are only reported.\<close>

definition ConfigureRemoteDescription ::
  "'d ddl_lib \<Rightarrow> surroundings \<Rightarrow> ('d \<Rightarrow> fep_result) option \<Rightarrow> string option \<Rightarrow> string \<Rightarrow> 'd descriptions \<Rightarrow>
   string \<times> bool \<times> 'd descriptions" where
  "ConfigureRemoteDescription lib env mapping property path st =
     (let path = (case property of None \<Rightarrow> path | Some p \<Rightarrow> p)
      in if path \<noteq> [] then
           (let (r, st) = RegisterRemoteDescriptionConfig lib env mapping path st in (path, isFailed r, st))
         else (path, False, st))"


section \<open>What is resolved\<close>

text \<open>Merging keeps what can be resolved, unless the descriptions conflict: this is what the library documents.\<close>

definition merge_keeps :: "'d ddl_lib \<Rightarrow> bool" where
  "merge_keeps lib \<longleftrightarrow> (\<forall>d d' ty x. \<not> conflicts lib d' d \<longrightarrow> ResolveType lib ty d = Some x \<longrightarrow>
     ResolveType lib ty (snd (merge_ddl lib d d')) = Some x)"

datatype description_op =
    Op_Register "string option" "32 word"
  | Op_Clear
  | Op_Resolve "string option"
  | Op_Remote string

fun description_step :: "'d ddl_lib \<Rightarrow> surroundings \<Rightarrow> ('d \<Rightarrow> fep_result) option \<Rightarrow> description_op \<Rightarrow> 'd descriptions \<Rightarrow> 'd descriptions" where
  "description_step lib env mapping (Op_Register desc flags) st = snd (snd (RegisterSignalDescription lib env mapping desc flags st))"
| "description_step lib env mapping Op_Clear st = snd (ClearSignalDescriptions lib mapping st)"
| "description_step lib env mapping (Op_Resolve ty) st = snd (snd (ResolveSignalType lib ty st))"
| "description_step lib env mapping (Op_Remote path) st = snd (RegisterRemoteDescriptionConfig lib env mapping path st)"

fun replaces :: "description_op \<Rightarrow> bool" where
  "replaces (Op_Register desc flags) \<longleftrightarrow> flags AND DF_MERGE \<noteq> DF_MERGE"
| "replaces _ \<longleftrightarrow> False"

definition known_current :: "'d ddl_lib \<Rightarrow> 'd descriptions \<Rightarrow> bool" where
  "known_current lib st \<longleftrightarrow> (\<forall>ty x. map_of (known_types st) ty = Some x \<longrightarrow> ResolveType lib ty (current_ddl st) = Some x)"

lemma merge_known:
  assumes "merge_keeps lib" "known_current lib st" "flags AND DF_MERGE = DF_MERGE"
  shows "known_current lib (snd (snd (RegisterSignalDescription lib env mapping desc flags st)))"
proof -
  have "ResolveType lib ty (snd (MergeDDL lib t (current_ddl st))) = Some x"
    if "ResolveType lib ty (current_ddl st) = Some x" for ty x t
    using assms(1) that by (auto simp: MergeDDL_def merge_keeps_def split: option.splits)
  then show ?thesis using assms(2,3)
    by (auto simp: RegisterSignalDescription_def known_current_def Let_def case_prod_beta split: option.splits)
qed

lemma merge_file_flags: "(DF_MERGE OR DF_DESCRIPTION_FILE) AND DF_MERGE = DF_MERGE"
  by (simp add: DF_MERGE_def DF_DESCRIPTION_FILE_def)

lemma known_new [simp]: "known_current lib (new_descriptions lib)"
  by (simp add: known_current_def new_descriptions_def)

lemma clear_new [simp]: "snd (ClearSignalDescriptions lib mapping st) = new_descriptions lib"
  by (simp add: ClearSignalDescriptions_def)

lemma files_known:
  assumes "merge_keeps lib"
  shows "known_current lib st \<Longrightarrow> known_current lib (snd (register_files lib env mapping fs st))"
proof (induction fs arbitrary: st)
  case (Cons f fs)
  then show ?case using merge_known [OF assms Cons.prems merge_file_flags, of env mapping "Some f"]
    by (simp add: case_prod_beta Let_def)
qed simp

lemma step_known:
  assumes "merge_keeps lib" "known_current lib st" "\<not> replaces e"
  shows "known_current lib (description_step lib env mapping e st)"
proof (cases e)
  case (Op_Register desc flags)
  then show ?thesis using merge_known [OF assms(1,2)] assms(3) by simp
next
  case (Op_Resolve ty)
  then show ?thesis using assms(2) by (auto simp: ResolveSignalType_def known_current_def split: option.splits)
next
  case (Op_Remote path)
  then show ?thesis using files_known [OF assms(1,2)] by (simp add: RegisterRemoteDescriptionConfig_def)
qed simp

text \<open>C22: As long as descriptions are only merged and cleared, also by remote configuration, a signal type is resolved to what the
  current description says of it, whether or not it was resolved before.\<close>
theorem resolved_types_are_current:
  assumes "merge_keeps lib" "list_all (\<lambda>e. \<not> replaces e) es"
  shows "let st = fold (description_step lib env mapping) es (new_descriptions lib)
    in fst (snd (ResolveSignalType lib (Some ty) st)) = ResolveType lib ty (current_ddl st)"
proof -
  have known: "known_current lib (fold (description_step lib env mapping) es st)" if "known_current lib st" for st
    using assms(2) that by (induction es arbitrary: st) (auto intro: step_known [OF assms(1)])
  then show ?thesis using known [OF known_new]
    by (auto simp: Let_def ResolveSignalType_def known_current_def split: option.split)
qed

text \<open>A library for examples: a description is a list of structures with their text, a text of one letter describes
  the structure of that letter, and two letters the structure of the first one with another text.\<close>

definition demo_ddl :: "(string \<times> string) list ddl_lib" where
  "demo_ddl = \<lparr>parse_ddl = (\<lambda>s. case s of [] \<Rightarrow> None | c # cs \<Rightarrow> Some [([c], s)]), has_dynamic_structs = (\<lambda>d. False),
     conflicts = (\<lambda>d' d. \<not> list_all (\<lambda>x. map_of d (fst x) \<in> {None, Some (snd x)}) d'),
     merge_ddl = (\<lambda>d d'. (ERR_NOERROR, d @ d')), has_struct = (\<lambda>d ty. ty \<in> fst ` set d),
     resolved_xml = (\<lambda>d ty. map_of d ty), default_ddl = []\<rparr>"

definition demo_surroundings :: surroundings where
  "demo_surroundings = \<lparr>read_text_file = (\<lambda>f. if f = [] then None else Some f), splitToken = (\<lambda>s. map (\<lambda>c. [c]) s), trim = id\<rparr>"

lemma demo_merge_keeps: "merge_keeps demo_ddl"
  by (auto simp: merge_keeps_def demo_ddl_def ResolveType_def map_add_Some_iff split: if_splits)

theorem resolved_types_are_current_witness:
  "fst (snd (ResolveSignalType demo_ddl (Some ''B'')
     (fold (description_step demo_ddl demo_surroundings None) [Op_Remote ''AB'', Op_Resolve (Some ''B''), Op_Remote ''C''] (new_descriptions demo_ddl)))) = Some ''B''"
proof -
  have "current_ddl (fold (description_step demo_ddl demo_surroundings None) [Op_Remote ''AB'', Op_Resolve (Some ''B''), Op_Remote ''C''] (new_descriptions demo_ddl)) =
      [(''A'', ''A''), (''B'', ''B''), (''C'', ''C'')]" by code_simp
  then show ?thesis
    using resolved_types_are_current [OF demo_merge_keeps, of "[Op_Remote ''AB'', Op_Resolve (Some ''B''), Op_Remote ''C'']" demo_surroundings None "''B''"]
    by (simp add: Let_def ResolveType_def) (simp add: demo_ddl_def)
qed

text \<open>A description that replaces the current one does not: what has been resolved before is still resolved to the old text.\<close>
theorem replaced_type_stays_resolved:
  assumes "ResolveSignalType lib (Some ty) st = (ERR_NOERROR, x, st1)"
  shows "fst (snd (ResolveSignalType lib (Some ty) (snd (snd (RegisterSignalDescription lib env mapping desc flags st1))))) = x"
proof -
  have "known_types (snd (snd (RegisterSignalDescription lib env mapping desc flags st1))) = known_types st1"
    by (auto simp: RegisterSignalDescription_def Let_def case_prod_beta split: option.split)
  moreover have "map_of (known_types st1) ty = x" "x \<noteq> None"
    using assms by (auto simp: ResolveSignalType_def dest: sym split: option.splits)
  ultimately show ?thesis by (auto simp: ResolveSignalType_def)
qed

theorem replaced_type_stays_resolved_witness:
  "let st1 = snd (snd (ResolveSignalType demo_ddl (Some ''A'') \<lparr>current_ddl = [(''A'', ''A'')], known_types = []\<rparr>));
       (r, incident, st2) = RegisterSignalDescription demo_ddl demo_surroundings None (Some ''AX'') DF_REPLACE st1
   in r = ERR_NOERROR \<and> ResolveType demo_ddl ''A'' (current_ddl st2) = Some ''AX'' \<and>
      fst (snd (ResolveSignalType demo_ddl (Some ''A'') st2)) = Some ''A''"
proof -
  let ?st = "\<lparr>current_ddl = [(''A'', ''A'')], known_types = []\<rparr> :: (string \<times> string) list descriptions"
  have "ResolveSignalType demo_ddl (Some ''A'') ?st = (ERR_NOERROR, Some ''A'', ?st\<lparr>known_types := [(''A'', ''A'')]\<rparr>)"
    by code_simp
  from this replaced_type_stays_resolved [OF this, of demo_surroundings None "Some ''AX''" DF_REPLACE] show ?thesis
    by (simp add: RegisterSignalDescription_def LoadDDL_def DF_REPLACE_def DF_MERGE_def DF_DESCRIPTION_FILE_def)
      (simp add: demo_ddl_def ResolveType_def)
qed

text \<open>A description that is refused because of a structure of variable size has replaced the current one nevertheless.\<close>
theorem refused_description_is_used:
  assumes "parse_ddl lib desc = Some d" "has_dynamic_structs lib d"
  shows "RegisterSignalDescription lib env mapping (Some desc) DF_REPLACE st = (ERR_INVALID_TYPE, True, st\<lparr>current_ddl := d\<rparr>)"
  using assms by (simp add: RegisterSignalDescription_def LoadDDL_def DF_REPLACE_def DF_MERGE_def DF_DESCRIPTION_FILE_def)

lemma merged_file:
  assumes "RegisterSignalDescription lib env mapping (Some f) (DF_MERGE OR DF_DESCRIPTION_FILE) st = (ERR_NOERROR, inc, st')"
  shows "\<exists>t. read_text_file env f = Some t \<and> MergeDDL lib t (current_ddl st) = (ERR_NOERROR, current_ddl st') \<and>
    known_types st' = known_types st"
proof -
  have "DF_MERGE OR DF_DESCRIPTION_FILE = 6" by (simp add: DF_MERGE_def DF_DESCRIPTION_FILE_def)
  then show ?thesis using assms
    by (auto simp: RegisterSignalDescription_def DF_REPLACE_def DF_MERGE_def DF_DESCRIPTION_FILE_def Let_def case_prod_beta prod_eq_iff
        split: option.splits if_splits)
qed

fun merge_texts :: "'d ddl_lib \<Rightarrow> string list \<Rightarrow> 'd \<Rightarrow> 'd option" where
  "merge_texts lib [] d = Some d"
| "merge_texts lib (t # ts) d =
     (case MergeDDL lib t d of (r, d') \<Rightarrow> if r = ERR_NOERROR then merge_texts lib ts d' else None)"

text \<open>C23: Configuring the descriptions remotely is all or nothing: either every file could be read and merged, in the order of the
  property, or no description is left, not even one registered before.\<close>
theorem remote_descriptions_all_or_nothing:
  "let (r, st') = RegisterRemoteDescriptionConfig lib env mapping path st
   in if r = ERR_NOERROR
      then \<exists>ts. map (read_text_file env \<circ> trim env) (splitToken env path) = map Some ts \<and>
             merge_texts lib ts (current_ddl st) = Some (current_ddl st') \<and> known_types st' = known_types st
      else st' = new_descriptions lib"
proof -
  have "case register_files lib env mapping fs st of (r, st') \<Rightarrow>
    if r = ERR_NOERROR
    then \<exists>ts. map (read_text_file env) fs = map Some ts \<and> merge_texts lib ts (current_ddl st) = Some (current_ddl st') \<and>
           known_types st' = known_types st
    else st' = new_descriptions lib" for fs
  proof (induction fs arbitrary: st)
    case (Cons f fs)
    obtain r inc st1 where one: "RegisterSignalDescription lib env mapping (Some f) (DF_MERGE OR DF_DESCRIPTION_FILE) st = (r, inc, st1)"
      by (rule prod_cases3)
    show ?case
    proof (cases "r = ERR_NOERROR")
      case True
      obtain t where t: "read_text_file env f = Some t" "known_types st1 = known_types st"
        "MergeDDL lib t (current_ddl st) = (ERR_NOERROR, current_ddl st1)"
        using merged_file [OF one [unfolded True]] by blast
      have step: "register_files lib env mapping (f # fs) st = (if fs = [] then (ERR_NOERROR, st1) else register_files lib env mapping fs st1)"
        by (simp add: one True)
      show ?thesis
      proof (cases "fs = []")
        case True
        then show ?thesis using t step by (auto intro!: exI [of _ "[t]"])
      next
        case False
        have "(\<exists>ts. map (read_text_file env) (f # fs) = map Some ts \<and> merge_texts lib ts (current_ddl st) = Some d \<and> k = known_types st) \<longleftrightarrow>
          (\<exists>ts. map (read_text_file env) fs = map Some ts \<and> merge_texts lib ts (current_ddl st1) = Some d \<and> k = known_types st1)" (is "?l \<longleftrightarrow> ?r") for d k
        proof
          assume ?l
          then show ?r using t by (auto simp: Cons_eq_map_conv)
        next
          assume ?r
          then obtain ts where "map (read_text_file env) fs = map Some ts" "merge_texts lib ts (current_ddl st1) = Some d" "k = known_types st1"
            by blast
          then show ?l using t by (intro exI [of _ "t # ts"]) simp
        qed
        then show ?thesis using Cons.IH [of st1] False unfolding step by (simp add: case_prod_beta)
      qed
    qed (simp add: one)
  qed (auto intro!: exI [of _ "[]"])
  from this [of "map (trim env) (splitToken env path)"] show ?thesis
    unfolding RegisterRemoteDescriptionConfig_def Let_def case_prod_beta map_map .
qed

end
