(* ===== verification/Signal_Registry.thy ===== *)
theory Signal_Registry
  imports Signal_Description
begin

text \<open>
  The registration of signals: \<open>cSignalRegistry\<close> (\<open>src/signal_registry/fep_signal_registry.cpp\<close>) with the options of a
  signal (\<open>fep_user_signal_options.cpp\<close>), \<open>cDataAccess\<close> (\<open>src/data_access/fep_data_access.cpp\<close>), which keeps the counters of
  output signals, the listeners and the sample buffers of input signals, and \<open>cTransmissionAdapter\<close>
  (\<open>src/transmission_adapter/fep_transmission.cpp\<close>), which owns receivers and transmitters.

  Objects are identified by their addresses. Which addresses an operation gets for the objects it makes is an input, as is all
  else that it does not decide (\<open>answers\<close>): what the mapping answers, whether a receiver or transmitter can be created, the size
  of a type and which result a truth value is (\<open>an_found\<close>, a matter of \<open>a_util\<close>). An address is only free as long as no object
  has it: the address of an object that is gone, and with it a handle, can be given again. What a sample buffer, a receiver and
  a transmitter do is modelled in other theories; here they exist or not. The transmission adapter is taken between its creation
  and its destruction (before and after, it answers \<open>ERR_NOT_INITIALISED\<close> to everything). Of the property tree only the branch of
  each signal and which properties are below it are modelled, for names without dots, and not their values.
\<close>

section \<open>Signals and their options\<close>

datatype direction = SD_Undefined | SD_Input | SD_Output

record signal_options =
  so_name :: string
  so_type :: string
  so_direction :: direction
  so_reliable :: bool
  so_raw :: bool
  so_low_latency :: bool
  so_async_publisher :: bool

definition default_options :: signal_options where
  "default_options = \<lparr>so_name = [], so_type = [], so_direction = SD_Undefined, so_reliable = False, so_raw = True,
     so_low_latency = True, so_async_publisher = False\<rparr>"

definition SetSignalType :: "string option \<Rightarrow> signal_options \<Rightarrow> signal_options" where
  "SetSignalType ty so = (case ty of None \<Rightarrow> so | Some ty \<Rightarrow> so\<lparr>so_type := ty, so_raw := False\<rparr>)"

definition SetSignalRaw :: "signal_options \<Rightarrow> signal_options" where
  "SetSignalRaw so = so\<lparr>so_type := [], so_raw := True\<rparr>"

definition user_signal_options :: "string option \<Rightarrow> direction \<Rightarrow> signal_options" where
  "user_signal_options name dir =
     (let so = (case name of None \<Rightarrow> default_options | Some n \<Rightarrow> default_options\<lparr>so_name := n\<rparr>) in so\<lparr>so_direction := dir\<rparr>)"

definition CheckValidity :: "signal_options \<Rightarrow> bool" where
  "CheckValidity so \<longleftrightarrow>
     so_name so \<noteq> [] \<and> (if so_raw so then so_type so = [] else so_type so \<noteq> []) \<and> so_direction so \<noteq> SD_Undefined"

record signal =
  sg_name :: string
  sg_type :: string
  sg_desc :: string
  sg_direction :: direction
  sg_size :: nat
  sg_mapped :: bool
  sg_raw :: bool
  sg_backlog :: nat
  sg_serialized :: bool
  sg_reliable :: bool
  sg_low_latency :: bool
  sg_async_publisher :: bool

section \<open>The state\<close>

record answers =
  an_size :: "fep_result \<times> nat"
  an_mapping :: fep_result
  an_create :: fep_result
  an_unmap :: fep_result
  an_listen :: fep_result
  an_found :: "bool \<Rightarrow> fep_result"
  an_signal :: nat
  an_handle :: nat
  an_object :: nat

text \<open>The last three are the addresses that the entry in the list of signals, the object whose address is the handle (a counter, a
  receiver or an object of the mapping), and the transmitter of a counter or the adapter of a listener get.\<close>

datatype info_field = Info_SignalType | Info_SignalSize | Info_MappedSignal | Info_MutedSignal | Info_SampleBacklogLength

type_synonym info = "(direction \<times> string) \<times> info_field"

definition signal_infos :: "direction \<times> string \<Rightarrow> info list" where
  "signal_infos key = map (Pair key)
     ([Info_SignalType, Info_SignalSize, Info_MappedSignal] @
      (if fst key = SD_Output then [Info_MutedSignal] else [Info_SampleBacklogLength]))"

record bus =
  signal_list :: "(nat \<times> signal) list"
  handle_map :: "(nat \<times> nat) list"
  allow_registration :: bool
  enabled_serialization :: bool
  info_branches :: "(direction \<times> string) list"
  infos :: "info list"
  counters :: "(nat \<times> nat) list"
  adapters :: "(nat \<times> nat \<times> nat) list"
  sample_buffers :: "nat list"
  receivers :: "(nat \<times> nat list) list"
  transmitters :: "nat list"
  mapped_signals :: "nat list"
  muted :: "nat list"

text \<open>
  \<open>signal_list\<close> has the address of each signal, \<open>handle_map\<close> takes a handle to an address, \<open>counters\<close> have the handle of their
  transmitter, \<open>adapters\<close> are the listener adapters with the listener and the handle, \<open>receivers\<close> have the adapters they call,
  \<open>infos\<close> are the properties of signals in the property tree and \<open>info_branches\<close> the branches they are below. The data access itself is the listener 0.
\<close>

definition new_bus :: bus where
  "new_bus = \<lparr>signal_list = [], handle_map = [], allow_registration = True, enabled_serialization = True, info_branches = [], infos = [],
     counters = [], adapters = [], sample_buffers = [], receivers = [], transmitters = [], mapped_signals = [], muted = []\<rparr>"

section \<open>Looking up signals\<close>

definition FindSignal :: "string \<Rightarrow> direction \<Rightarrow> bus \<Rightarrow> (nat \<times> signal) option" where
  "FindSignal name dir st = List.find (\<lambda>x. sg_name (snd x) = name \<and> sg_direction (snd x) = dir) (signal_list st)"

definition FindSignalByHandle :: "nat \<Rightarrow> bus \<Rightarrow> (nat \<times> signal) option" where
  "FindSignalByHandle h st =
     (case map_of (handle_map st) h of
        None \<Rightarrow> None
      | Some a \<Rightarrow> map_option (Pair a) (map_of (signal_list st) a))"

definition GetSignalHandleFromName :: "string \<Rightarrow> direction \<Rightarrow> bus \<Rightarrow> fep_result \<times> nat option" where
  "GetSignalHandleFromName name dir st =
     (if dir = SD_Undefined then (ERR_INVALID_ARG, None)
      else case FindSignal name dir st of
             None \<Rightarrow> (ERR_NOT_FOUND, None)
           | Some (a, s) \<Rightarrow>
               case List.find (\<lambda>x. snd x = a) (handle_map st) of
                 None \<Rightarrow> (ERR_NOT_FOUND, None)
               | Some (h, _) \<Rightarrow> (ERR_NOERROR, Some h))"

definition GetSignalNameFromHandle :: "nat \<Rightarrow> bus \<Rightarrow> fep_result \<times> string option" where
  "GetSignalNameFromHandle h st =
     (case FindSignalByHandle h st of None \<Rightarrow> (ERR_NOT_FOUND, None) | Some (_, s) \<Rightarrow> (ERR_NOERROR, Some (sg_name s)))"

definition GetSignalTypeFromHandle :: "nat \<Rightarrow> bus \<Rightarrow> fep_result \<times> string option" where
  "GetSignalTypeFromHandle h st =
     (case FindSignalByHandle h st of None \<Rightarrow> (ERR_NOT_FOUND, None) | Some (_, s) \<Rightarrow> (ERR_NOERROR, Some (sg_type s)))"

definition GetSignalTypeFromName :: "string option \<Rightarrow> direction \<Rightarrow> bus \<Rightarrow> fep_result \<times> string option" where
  "GetSignalTypeFromName name dir st =
     (case name of
        None \<Rightarrow> (ERR_INVALID_ARG, None)
      | Some name \<Rightarrow>
          if dir = SD_Undefined then (ERR_INVALID_ARG, None)
          else case FindSignal name dir st of None \<Rightarrow> (ERR_NOT_FOUND, None) | Some (_, s) \<Rightarrow> (ERR_NOERROR, Some (sg_type s)))"

definition GetSignalSampleSize :: "nat \<Rightarrow> bus \<Rightarrow> fep_result \<times> nat option" where
  "GetSignalSampleSize h st =
     (case FindSignalByHandle h st of None \<Rightarrow> (ERR_NOT_FOUND, None) | Some (_, s) \<Rightarrow> (ERR_NOERROR, Some (sg_size s)))"

definition GetSignalSampleSizeFromName :: "string \<Rightarrow> direction \<Rightarrow> bus \<Rightarrow> fep_result \<times> nat option" where
  "GetSignalSampleSizeFromName name dir st =
     (if dir = SD_Undefined then (ERR_INVALID_ARG, None)
      else case FindSignal name dir st of None \<Rightarrow> (ERR_NOT_FOUND, None) | Some (_, s) \<Rightarrow> (ERR_NOERROR, Some (sg_size s)))"

definition IsMappedSignal :: "nat \<Rightarrow> bus \<Rightarrow> bool" where
  "IsMappedSignal h st = (case FindSignalByHandle h st of None \<Rightarrow> False | Some (_, s) \<Rightarrow> sg_mapped s)"

definition AnyMappedSignals :: "bus \<Rightarrow> bool" where
  "AnyMappedSignals st \<longleftrightarrow> list_ex (\<lambda>x. sg_mapped (snd x)) (signal_list st)"

definition GetSignalSampleBacklog :: "nat \<Rightarrow> bus \<Rightarrow> fep_result \<times> nat option" where
  "GetSignalSampleBacklog h st =
     (case FindSignalByHandle h st of
        None \<Rightarrow> (ERR_INVALID_ARG, None)
      | Some (_, s) \<Rightarrow> if sg_direction s \<noteq> SD_Input then (ERR_INVALID_TYPE, None) else (ERR_NOERROR, Some (sg_backlog s)))"

text \<open>Names and types follow each other, the input signals in the first list.\<close>

definition GetSignalNamesAndTypes :: "bus \<Rightarrow> string list \<times> string list" where
  "GetSignalNamesAndTypes st =
     (let of_dir = (\<lambda>d. concat (map (\<lambda>x. [sg_name (snd x), sg_type (snd x)]) (filter (\<lambda>x. sg_direction (snd x) = d) (signal_list st))))
      in (of_dir SD_Input, of_dir SD_Output))"

section \<open>The transmission adapter\<close>

definition adapter_RegisterSignal :: "fep_result \<Rightarrow> nat \<Rightarrow> direction \<Rightarrow> bus \<Rightarrow> fep_result \<times> nat \<times> bus" where
  "adapter_RegisterSignal create a dir st =
     (case dir of
        SD_Output \<Rightarrow> if isOk create then (create, a, st\<lparr>transmitters := transmitters st @ [a]\<rparr>) else (create, 0, st)
      | SD_Input \<Rightarrow> if isOk create then (create, a, st\<lparr>receivers := receivers st @ [(a, [])]\<rparr>) else (create, 0, st)
      | SD_Undefined \<Rightarrow> (ERR_UNEXPECTED, 0, st))"

definition adapter_UnregisterSignal :: "nat \<Rightarrow> bus \<Rightarrow> fep_result \<times> bus" where
  "adapter_UnregisterSignal h st =
     (if h \<in> fst ` set (receivers st)
      then (ERR_NOERROR, st\<lparr>receivers := filter (\<lambda>x. fst x \<noteq> h) (receivers st), muted := removeAll h (muted st)\<rparr>)
      else if h \<in> set (transmitters st)
      then (ERR_NOERROR, st\<lparr>transmitters := remove1 h (transmitters st), muted := removeAll h (muted st)\<rparr>)
      else (ERR_NOT_FOUND, st))"

definition adapter_RegisterDataListener :: "nat \<Rightarrow> nat \<Rightarrow> bus \<Rightarrow> fep_result \<times> bus" where
  "adapter_RegisterDataListener ad h st =
     (case map_of (receivers st) h of
        None \<Rightarrow> (ERR_NOT_FOUND, st)
      | Some ls \<Rightarrow>
          if ad \<in> set ls then (ERR_FAILED, st)
          else (ERR_NOERROR, st\<lparr>receivers := map (\<lambda>x. if fst x = h then (h, snd x @ [ad]) else x) (receivers st)\<rparr>))"

definition adapter_UnregisterDataListener :: "answers \<Rightarrow> nat \<Rightarrow> nat \<Rightarrow> bus \<Rightarrow> fep_result \<times> bus" where
  "adapter_UnregisterDataListener ans ad h st =
     (case map_of (receivers st) h of
        None \<Rightarrow> (ERR_NOT_FOUND, st)
      | Some ls \<Rightarrow>
          let r = an_found ans (ad \<in> set ls)
          in (if isFailed r then ERR_NOT_FOUND else r,
              st\<lparr>receivers := map (\<lambda>x. if fst x = h then (h, remove1 ad (snd x)) else x) (receivers st)\<rparr>))"

definition adapter_Mute :: "bool \<Rightarrow> nat \<Rightarrow> bus \<Rightarrow> fep_result \<times> bus" where
  "adapter_Mute on h st =
     (if h \<in> fst ` set (receivers st) \<or> h \<in> set (transmitters st)
      then (ERR_NOERROR, st\<lparr>muted := if on then List.insert h (muted st) else removeAll h (muted st)\<rparr>)
      else (ERR_NOT_FOUND, st))"


section \<open>The data access\<close>

definition RegisterDataListener :: "answers \<Rightarrow> nat \<Rightarrow> nat \<Rightarrow> bus \<Rightarrow> fep_result \<times> bus" where
  "RegisterDataListener ans listener h st =
     (if IsMappedSignal h st then (an_listen ans, st)
      else
        let (r, st') = adapter_RegisterDataListener (an_object ans) h st
        in if isOk r then (r, st'\<lparr>adapters := adapters st' @ [(an_object ans, listener, h)]\<rparr>) else (r, st'))"

definition UnregisterDataListener :: "answers \<Rightarrow> nat \<Rightarrow> nat \<Rightarrow> bus \<Rightarrow> fep_result \<times> bus" where
  "UnregisterDataListener ans listener h st =
     (if IsMappedSignal h st then (an_listen ans, st)
      else case List.find (\<lambda>x. snd x = (listener, h)) (adapters st) of
             None \<Rightarrow> (ERR_NOT_FOUND, st)
           | Some (ad, _) \<Rightarrow>
               let (r, st') = adapter_UnregisterDataListener ans ad h st
               in (r, st'\<lparr>adapters := filter (\<lambda>x. fst x \<noteq> ad) (adapters st')\<rparr>))"

text \<open>The result: the handle, and whether the signal is mapped.\<close>

definition access_RegisterSignal :: "answers \<Rightarrow> signal \<Rightarrow> bus \<Rightarrow> fep_result \<times> nat \<times> bool \<times> bus" where
  "access_RegisterSignal ans s st =
     (if sg_name s = [] \<or> sg_direction s = SD_Undefined then (ERR_POINTER, 0, False, st)
      else if sg_direction s = SD_Input then
        if \<not> sg_raw s \<and> an_mapping ans \<noteq> ERR_NOT_FOUND then
          if isOk (an_mapping ans)
          then (ERR_NOERROR, an_handle ans, True, st\<lparr>mapped_signals := mapped_signals st @ [an_handle ans]\<rparr>)
          else (an_mapping ans, 0, False, st)
        else let (r, h, st) = adapter_RegisterSignal (an_create ans) (an_handle ans) SD_Input st in (r, h, False, st)
      else
        let (r, h, st) = adapter_RegisterSignal (an_create ans) (an_object ans) SD_Output st
        in if isOk r then (r, an_handle ans, False, st\<lparr>counters := counters st @ [(an_handle ans, h)]\<rparr>) else (r, 0, False, st))"

definition SignalRegistered :: "answers \<Rightarrow> nat \<Rightarrow> bus \<Rightarrow> fep_result \<times> bus" where
  "SignalRegistered ans h st =
     (let r = fst (GetSignalSampleBacklog h st)
      in if isFailed r then (r, st)
         else (ERR_NOERROR, snd (RegisterDataListener ans 0 h (st\<lparr>sample_buffers := List.insert h (sample_buffers st)\<rparr>))))"

definition SignalUnregistered :: "answers \<Rightarrow> nat \<Rightarrow> bus \<Rightarrow> bus" where
  "SignalUnregistered ans h st =
     (let st = fold (\<lambda>x st. snd (UnregisterDataListener ans (fst (snd x)) h st)) (filter (\<lambda>x. snd (snd x) = h) (adapters st)) st
      in st\<lparr>sample_buffers := removeAll h (sample_buffers st)\<rparr>)"

definition access_UnregisterSignal :: "answers \<Rightarrow> signal \<Rightarrow> nat \<Rightarrow> bus \<Rightarrow> fep_result \<times> bus" where
  "access_UnregisterSignal ans s h st =
     (case sg_direction s of
        SD_Output \<Rightarrow>
          (ERR_NOERROR,
           (case map_of (counters st) h of None \<Rightarrow> st | Some i \<Rightarrow> snd (adapter_UnregisterSignal i st))
             \<lparr>counters := filter (\<lambda>x. fst x \<noteq> h) (counters st)\<rparr>)
      | SD_Input \<Rightarrow>
          if sg_mapped s then
            let st = (if isOk (an_unmap ans) then st\<lparr>mapped_signals := removeAll h (mapped_signals st)\<rparr> else st)
            in (an_unmap ans, SignalUnregistered ans h st)
          else adapter_UnregisterSignal h (SignalUnregistered ans h st)
      | SD_Undefined \<Rightarrow> (ERR_NOERROR, st))"

text \<open>A handle is used as a counter without a test: \<open>None\<close> is a handle that is none. The properties that show muting are left out.\<close>

definition MuteSignal :: "bool \<Rightarrow> nat \<Rightarrow> bus \<Rightarrow> (fep_result \<times> bus) option" where
  "MuteSignal on h st = map_option (\<lambda>i. adapter_Mute on i st) (map_of (counters st) h)"

definition MuteAll :: "bool \<Rightarrow> bus \<Rightarrow> fep_result \<times> bus" where
  "MuteAll on st = (ERR_NOERROR, fold (\<lambda>x st. snd (adapter_Mute on (snd x) st)) (counters st) st)"

text \<open>The result is sent back to the participant that gave the command.\<close>

definition Update_mute_command :: "string \<Rightarrow> direction \<Rightarrow> bool \<Rightarrow> bus \<Rightarrow> (fep_result \<times> bus) option" where
  "Update_mute_command name dir on st =
     (if dir = SD_Input then Some (ERR_NOT_SUPPORTED, st)
      else if name = ''*'' then Some (MuteAll on st)
      else case GetSignalHandleFromName name dir st of
             (r, Some h) \<Rightarrow> if isOk r then MuteSignal on h st else Some (r, st)
           | (r, None) \<Rightarrow> Some (r, st))"

section \<open>The registry\<close>

definition InternalRegisterSignal :: "answers \<Rightarrow> signal_options \<Rightarrow> string option \<Rightarrow> bus \<Rightarrow> fep_result \<times> bus" where
  "InternalRegisterSignal ans so desc st =
     (if FindSignal (so_name so) (so_direction so) st \<noteq> None then (ERR_RESOURCE_IN_USE, st)
      else
        let (r, size) = (if so_raw so then (ERR_NOERROR, 0) else an_size ans);
            s = \<lparr>sg_name = so_name so, sg_type = so_type so, sg_desc = (case desc of None \<Rightarrow> [] | Some d \<Rightarrow> d),
                 sg_direction = so_direction so, sg_size = size, sg_mapped = False, sg_raw = so_raw so, sg_backlog = 1,
                 sg_serialized = enabled_serialization st \<and> \<not> so_raw so, sg_reliable = so_reliable so,
                 sg_low_latency = so_low_latency so, sg_async_publisher = so_async_publisher so\<rparr>
        in if isOk r then (r, st\<lparr>signal_list := signal_list st @ [(an_signal ans, s)]\<rparr>) else (r, st))"

definition InternalUnregisterSignal :: "nat \<Rightarrow> bus \<Rightarrow> bus" where
  "InternalUnregisterSignal a st =
     st\<lparr>handle_map := filter (\<lambda>x. snd x \<noteq> a) (handle_map st), signal_list := filter (\<lambda>x. fst x \<noteq> a) (signal_list st)\<rparr>"

definition AssociateHandle :: "nat \<Rightarrow> nat \<Rightarrow> bus \<Rightarrow> fep_result \<times> bus" where
  "AssociateHandle a h st =
     (if h \<in> fst ` set (handle_map st) then (ERR_RESOURCE_IN_USE, st)
      else (ERR_NOERROR, st\<lparr>handle_map := handle_map st @ [(h, a)]\<rparr>))"

definition set_mapped :: "nat \<Rightarrow> bool \<Rightarrow> bus \<Rightarrow> bus" where
  "set_mapped a m st =
     (if m then st\<lparr>signal_list := map (\<lambda>x. if fst x = a then (a, (snd x)\<lparr>sg_mapped := True\<rparr>) else x) (signal_list st)\<rparr> else st)"

definition RegisterAtDataAccess :: "answers \<Rightarrow> nat \<Rightarrow> signal \<Rightarrow> bus \<Rightarrow> fep_result \<times> nat option \<times> bus" where
  "RegisterAtDataAccess ans a s st =
     (let (r, h, is_mapped, st) = access_RegisterSignal ans s st
      in if isFailed r then (r, None, InternalUnregisterSignal a st)
         else
           let st = snd (AssociateHandle a h (set_mapped a is_mapped st))
           in (r, Some h, snd (SignalRegistered ans h st)))"

text \<open>The properties that tell about a signal are made one by one, and later deleted one by one: their branch stays.\<close>

definition add_infos :: "direction \<times> string \<Rightarrow> bus \<Rightarrow> bus" where
  "add_infos key b = b\<lparr>info_branches := List.insert key (info_branches b), infos := fold List.insert (signal_infos key) (infos b)\<rparr>"

definition delete_infos :: "direction \<times> string \<Rightarrow> bus \<Rightarrow> bus" where
  "delete_infos key b = b\<lparr>infos := fold removeAll (signal_infos key) (infos b)\<rparr>"

definition RegisterSignal ::
  "'d ddl_lib \<Rightarrow> answers \<Rightarrow> signal_options \<Rightarrow> 'd descriptions \<times> bus \<Rightarrow> (fep_result \<times> nat option) \<times> 'd descriptions \<times> bus" where
  "RegisterSignal lib ans so st =
     (let (ds, b) = st
      in if \<not> allow_registration b then ((ERR_INVALID_STATE, None), ds, b)
         else if \<not> CheckValidity so then ((ERR_INVALID_ARG, None), ds, b)
         else
           let (r, desc, ds) = (if so_raw so then (ERR_NOERROR, None, ds) else ResolveSignalType lib (Some (so_type so)) ds)
           in if isFailed r then ((ERR_INVALID_TYPE, None), ds, b)
              else
                let (r, b) = InternalRegisterSignal ans so desc b
                in case FindSignal (so_name so) (so_direction so) b of
                     None \<Rightarrow> ((ERR_UNEXPECTED, None), ds, b)
                   | Some (a, s) \<Rightarrow>
                       if isFailed r then ((r, None), ds, b)
                       else
                         let (r, h, b) = RegisterAtDataAccess ans a s b
                         in if isFailed r then ((r, h), ds, b)
                            else ((r, h), ds, add_infos (so_direction so, so_name so) b))"

definition UnregisterSignal :: "answers \<Rightarrow> nat \<Rightarrow> bus \<Rightarrow> fep_result \<times> bus" where
  "UnregisterSignal ans h b =
     (if \<not> allow_registration b then (ERR_INVALID_STATE, b)
      else case FindSignalByHandle h b of
             None \<Rightarrow> (ERR_NOT_FOUND, b)
           | Some (a, s) \<Rightarrow>
               if sg_direction s = SD_Undefined then (ERR_UNEXPECTED, b)
               else
                 let (r, b) = access_UnregisterSignal ans s h b
                 in if isFailed r then (r, b)
                    else (ERR_NOERROR, InternalUnregisterSignal a (delete_infos (sg_direction s, sg_name s) b)))"

definition SetSignalSampleBacklog :: "nat \<Rightarrow> nat \<Rightarrow> bus \<Rightarrow> fep_result \<times> bus" where
  "SetSignalSampleBacklog h n b =
     (case FindSignalByHandle h b of
        None \<Rightarrow> (ERR_INVALID_ARG, b)
      | Some (a, s) \<Rightarrow>
          if sg_direction s \<noteq> SD_Input then (ERR_INVALID_TYPE, b)
          else (if h \<in> set (sample_buffers b) then ERR_NOERROR else ERR_INVALID_ARG,
                b\<lparr>signal_list := map (\<lambda>x. if fst x = a then (a, (snd x)\<lparr>sg_backlog := n\<rparr>) else x) (signal_list b)\<rparr>))"

definition AllowSignalRegistration :: "bool \<Rightarrow> bus \<Rightarrow> bus" where
  "AllowSignalRegistration allow b = b\<lparr>allow_registration := allow\<rparr>"

text \<open>A change of the flag for serialization is a warning when signals are registered.\<close>

definition serialization_changed :: "bool \<Rightarrow> bus \<Rightarrow> bool \<times> bus" where
  "serialization_changed on b =
     (if on \<noteq> enabled_serialization b then (signal_list b \<noteq> [], b\<lparr>enabled_serialization := on\<rparr>) else (False, b))"


section \<open>The invariant\<close>

definition registered :: "bus \<Rightarrow> (nat \<times> signal) set" where
  "registered b = {(h, s). \<exists>a. (h, a) \<in> set (handle_map b) \<and> (a, s) \<in> set (signal_list b)}"

definition handles_where :: "(signal \<Rightarrow> bool) \<Rightarrow> bus \<Rightarrow> nat set" where
  "handles_where P b = {h. \<exists>s. (h, s) \<in> registered b \<and> P s}"

definition is_output :: "signal \<Rightarrow> bool" where "is_output s \<longleftrightarrow> sg_direction s = SD_Output"
definition is_mapped :: "signal \<Rightarrow> bool" where "is_mapped s \<longleftrightarrow> sg_direction s = SD_Input \<and> sg_mapped s"
definition is_received :: "signal \<Rightarrow> bool" where "is_received s \<longleftrightarrow> sg_direction s = SD_Input \<and> \<not> sg_mapped s"

text \<open>Signals differ in name or direction, each has exactly one handle, and its properties are in the property tree.\<close>

definition signal_key :: "nat \<times> signal \<Rightarrow> direction \<times> string" where
  "signal_key x = (sg_direction (snd x), sg_name (snd x))"

definition signals_ok :: "bus \<Rightarrow> bool" where
  "signals_ok b \<longleftrightarrow> distinct (map fst (signal_list b)) \<and> distinct (map signal_key (signal_list b)) \<and>
     distinct (map fst (handle_map b)) \<and> distinct (map snd (handle_map b)) \<and>
     snd ` set (handle_map b) = fst ` set (signal_list b) \<and>
     (\<forall>x \<in> set (signal_list b). sg_direction (snd x) \<noteq> SD_Undefined) \<and>
     set (infos b) = (\<Union>x \<in> set (signal_list b). set (signal_infos (signal_key x)))"

text \<open>Counters with their transmitters, receivers, mapped signals and sample buffers exist for the handles of such signals only.\<close>

definition objects_ok :: "bus \<Rightarrow> bool" where
  "objects_ok b \<longleftrightarrow> distinct (map fst (counters b)) \<and> distinct (map snd (counters b)) \<and> distinct (map fst (receivers b)) \<and>
     fst ` set (counters b) = handles_where is_output b \<and> set (transmitters b) = snd ` set (counters b) \<and> distinct (transmitters b) \<and>
     fst ` set (receivers b) = handles_where is_received b \<and>
     set (mapped_signals b) = handles_where is_mapped b \<and>
     set (sample_buffers b) = handles_where (\<lambda>s. is_received s \<or> is_mapped s) b \<and>
     set (transmitters b) \<inter> fst ` set (handle_map b) = {}"

text \<open>A receiver calls exactly the listener adapters that exist for its handle.\<close>

definition listeners_ok :: "bus \<Rightarrow> bool" where
  "listeners_ok b \<longleftrightarrow> distinct (map fst (adapters b)) \<and> (\<forall>x \<in> set (adapters b). snd (snd x) \<in> fst ` set (receivers b)) \<and>
     (\<forall>r \<in> set (receivers b). distinct (snd r) \<and> set (snd r) = fst ` {x \<in> set (adapters b). snd (snd x) = fst r})"

definition ids :: "bus \<Rightarrow> nat set" where
  "ids b = fst ` set (signal_list b) \<union> fst ` set (handle_map b) \<union> fst ` set (counters b) \<union> set (transmitters b) \<union>
     fst ` set (receivers b) \<union> set (mapped_signals b) \<union> fst ` set (adapters b)"

text \<open>What an allocator guarantees: new objects have addresses that differ and that no object has.\<close>

definition free_addresses :: "answers \<Rightarrow> bus \<Rightarrow> bool" where
  "free_addresses ans b \<longleftrightarrow> distinct [an_signal ans, an_handle ans, an_object ans] \<and>
     {an_signal ans, an_handle ans, an_object ans} \<inter> ids b = {}"

text \<open>Only transmitters that exist are muted.\<close>

definition muted_ok :: "bus \<Rightarrow> bool" where
  "muted_ok b \<longleftrightarrow> set (muted b) \<subseteq> set (transmitters b)"

definition bus_ok :: "bus \<Rightarrow> bool" where
  "bus_ok b \<longleftrightarrow> signals_ok b \<and> objects_ok b \<and> listeners_ok b \<and> muted_ok b"

lemma bus_ok_new [simp]: "bus_ok new_bus"
  by (auto simp: bus_ok_def muted_ok_def signals_ok_def objects_ok_def listeners_ok_def new_bus_def handles_where_def registered_def)

lemma find_signal_some:
  assumes "FindSignal name dir b = Some (a, s)"
  shows "(a, s) \<in> set (signal_list b) \<and> sg_name s = name \<and> sg_direction s = dir"
  using assms by (auto simp: FindSignal_def find_Some_iff) (metis nth_mem snd_conv)+

lemma find_signal_none: "FindSignal name dir b = None \<longleftrightarrow> (dir, name) \<notin> signal_key ` set (signal_list b)"
  by (force simp: FindSignal_def find_None_iff signal_key_def)

lemma find_by_handle:
  assumes "signals_ok b"
  shows "FindSignalByHandle h b = Some (a, s) \<longleftrightarrow> (h, a) \<in> set (handle_map b) \<and> (a, s) \<in> set (signal_list b)"
proof -
  have "(h, x) \<in> set (handle_map b) \<longleftrightarrow> map_of (handle_map b) h = Some x" "(k, y) \<in> set (signal_list b) \<longleftrightarrow> map_of (signal_list b) k = Some y" for x k y
    using assms by (simp_all add: signals_ok_def)
  then show ?thesis by (auto simp only: FindSignalByHandle_def split: option.splits)
qed

text \<open>A handle belongs to one signal.\<close>

lemma registered_unique:
  assumes "signals_ok b" "(h, s) \<in> registered b" "(h, s') \<in> registered b"
  shows "s = s'"
  using assms by (auto simp: registered_def signals_ok_def) (metis eq_key_imp_eq_value)

lemma found_registered:
  assumes "signals_ok b"
  shows "(\<exists>a. FindSignalByHandle h b = Some (a, s)) \<longleftrightarrow> (h, s) \<in> registered b"
  using find_by_handle [OF assms] by (auto simp: registered_def)

lemma mapped_iff:
  assumes "signals_ok b" "(h, s) \<in> registered b"
  shows "IsMappedSignal h b = sg_mapped s"
proof -
  obtain a where "FindSignalByHandle h b = Some (a, s)" using found_registered [OF assms(1)] assms(2) by blast
  then show ?thesis by (simp add: IsMappedSignal_def)
qed


section \<open>Registering a signal\<close>

lemma free_apart:
  assumes "free_addresses ans b"
  shows "an_signal ans \<noteq> an_handle ans" "an_handle ans \<noteq> an_signal ans" "an_signal ans \<noteq> an_object ans"
    "an_object ans \<noteq> an_signal ans" "an_handle ans \<noteq> an_object ans" "an_object ans \<noteq> an_handle ans"
  using assms by (auto simp: free_addresses_def)

lemma free_lookup:
  assumes "free_addresses ans b" "x \<in> {an_signal ans, an_handle ans, an_object ans}"
  shows "map_of (handle_map b) x = None" "map_of (signal_list b) x = None" "map_of (receivers b) x = None"
    "x \<notin> fst ` set (handle_map b)" "x \<notin> fst ` set (signal_list b)" "x \<notin> fst ` set (receivers b)"
    "x \<notin> fst ` set (counters b)" "x \<notin> fst ` set (adapters b)" "x \<notin> set (transmitters b)" "x \<notin> set (mapped_signals b)"
proof -
  have "x \<notin> ids b" using assms by (auto simp: free_addresses_def)
  then show "map_of (handle_map b) x = None" "map_of (signal_list b) x = None" "map_of (receivers b) x = None"
    "x \<notin> fst ` set (handle_map b)" "x \<notin> fst ` set (signal_list b)" "x \<notin> fst ` set (receivers b)"
    "x \<notin> fst ` set (counters b)" "x \<notin> fst ` set (adapters b)" "x \<notin> set (transmitters b)" "x \<notin> set (mapped_signals b)"
    by (simp_all add: ids_def map_of_eq_None_iff)
qed

lemma set_fold_removeAll [simp]: "set (fold removeAll xs ys) = set ys - set xs"
  by (induction xs arbitrary: ys) auto

lemma set_fold_insert [simp]: "set (fold List.insert xs ys) = set xs \<union> set ys"
  by (induction xs arbitrary: ys) auto

lemma signal_infos_disjoint: "k \<noteq> k' \<Longrightarrow> set (signal_infos k) \<inter> set (signal_infos k') = {}"
  by (auto simp: signal_infos_def)

lemma find_append: "List.find P (xs @ ys) = (case List.find P xs of None \<Rightarrow> List.find P ys | Some x \<Rightarrow> Some x)"
  by (induction xs) simp_all

text \<open>The state after the registration of each kind of signal.\<close>

definition with_signal :: "answers \<Rightarrow> signal \<Rightarrow> bus \<Rightarrow> bus" where
  "with_signal ans s b = add_infos (signal_key (an_signal ans, s)) (b\<lparr>signal_list := signal_list b @ [(an_signal ans, s)],
     handle_map := handle_map b @ [(an_handle ans, an_signal ans)]\<rparr>)"

definition after_registration :: "answers \<Rightarrow> signal \<Rightarrow> bus \<Rightarrow> bus" where
  "after_registration ans s b =
     (if is_output s then (with_signal ans s b)\<lparr>counters := counters b @ [(an_handle ans, an_object ans)],
        transmitters := transmitters b @ [an_object ans]\<rparr>
      else if is_mapped s then (with_signal ans s b)\<lparr>mapped_signals := mapped_signals b @ [an_handle ans],
        sample_buffers := List.insert (an_handle ans) (sample_buffers b)\<rparr>
      else (with_signal ans s b)\<lparr>receivers := receivers b @ [(an_handle ans, [an_object ans])],
        adapters := adapters b @ [(an_object ans, 0, an_handle ans)], sample_buffers := List.insert (an_handle ans) (sample_buffers b)\<rparr>)"

lemma remove_free:
  assumes "free_addresses ans b" "signals_ok b"
  shows "filter (\<lambda>x. fst x \<noteq> an_signal ans) (signal_list b) = signal_list b"
    "filter (\<lambda>x. snd x \<noteq> an_signal ans) (handle_map b) = handle_map b"
proof -
  have "an_signal ans \<notin> fst ` set (signal_list b)" using free_lookup [OF assms(1), of "an_signal ans"] by simp
  moreover from this have "an_signal ans \<notin> snd ` set (handle_map b)" using assms(2) by (simp add: signals_ok_def)
  ultimately show "filter (\<lambda>x. fst x \<noteq> an_signal ans) (signal_list b) = signal_list b"
    "filter (\<lambda>x. snd x \<noteq> an_signal ans) (handle_map b) = handle_map b"
    by (force simp: filter_id_conv)+
qed

lemma map_unchanged: "k \<notin> fst ` set xs \<Longrightarrow> map (\<lambda>x. if fst x = k then g x else x) xs = xs"
  by (rule map_idI) force

lemma associated:
  assumes "map_of (handle_map st) h = None" "map_of (signal_list st) a = Some s"
  shows "snd (AssociateHandle a h st) = st\<lparr>handle_map := handle_map st @ [(h, a)]\<rparr>"
    and "FindSignalByHandle h (st\<lparr>handle_map := handle_map st @ [(h, a)]\<rparr>) = Some (a, s)"
  using assms by (simp add: AssociateHandle_def map_of_eq_None_iff) (use assms in \<open>simp add: FindSignalByHandle_def map_add_def\<close>)

lemma notified:
  assumes "FindSignalByHandle h st = Some (a, s)"
  shows "sg_direction s = SD_Output \<Longrightarrow> snd (SignalRegistered ans h st) = st"
    and "is_mapped s \<Longrightarrow> snd (SignalRegistered ans h st) = st\<lparr>sample_buffers := List.insert h (sample_buffers st)\<rparr>"
    and "is_received s \<Longrightarrow> map_of (receivers st) h = Some [] \<Longrightarrow> snd (SignalRegistered ans h st) =
      st\<lparr>sample_buffers := List.insert h (sample_buffers st), adapters := adapters st @ [(an_object ans, 0, h)],
         receivers := map (\<lambda>x. if fst x = h then (h, snd x @ [an_object ans]) else x) (receivers st)\<rparr>"
proof -
  have find: "FindSignalByHandle h (st\<lparr>sample_buffers := bs\<rparr>) = Some (a, s)" for bs using assms by (auto simp: FindSignalByHandle_def split: option.splits)
  show "sg_direction s = SD_Output \<Longrightarrow> snd (SignalRegistered ans h st) = st"
    using assms by (simp add: SignalRegistered_def GetSignalSampleBacklog_def Let_def)
  show "is_mapped s \<Longrightarrow> snd (SignalRegistered ans h st) = st\<lparr>sample_buffers := List.insert h (sample_buffers st)\<rparr>"
    using assms find by (simp add: SignalRegistered_def GetSignalSampleBacklog_def RegisterDataListener_def IsMappedSignal_def is_mapped_def Let_def)
  show "is_received s \<Longrightarrow> map_of (receivers st) h = Some [] \<Longrightarrow> snd (SignalRegistered ans h st) =
      st\<lparr>sample_buffers := List.insert h (sample_buffers st), adapters := adapters st @ [(an_object ans, 0, h)],
         receivers := map (\<lambda>x. if fst x = h then (h, snd x @ [an_object ans]) else x) (receivers st)\<rparr>"
    using assms find by (simp add: SignalRegistered_def GetSignalSampleBacklog_def RegisterDataListener_def IsMappedSignal_def
        adapter_RegisterDataListener_def is_received_def Let_def)
qed

lemma at_data_access:
  assumes ok: "signals_ok b" "free_addresses ans b" and new: "sg_name s \<noteq> []" "sg_direction s \<noteq> SD_Undefined" "\<not> sg_mapped s"
  shows "case RegisterAtDataAccess ans (an_signal ans) s (b\<lparr>signal_list := signal_list b @ [(an_signal ans, s)]\<rparr>) of
    (r, h, b') \<Rightarrow> if r = ERR_NOERROR
      then h = Some (an_handle ans) \<and>
        (\<exists>m. (m \<longrightarrow> sg_direction s = SD_Input) \<and>
          add_infos (signal_key (an_signal ans, s)) b' = after_registration ans (s\<lparr>sg_mapped := m\<rparr>) b)
      else h = None \<and> b' = b"
proof -
  let ?b = "b\<lparr>signal_list := signal_list b @ [(an_signal ans, s)]\<rparr>" and ?h = "an_handle ans"
  note none = free_lookup [OF ok(2), of "an_signal ans"] free_lookup [OF ok(2), of "an_handle ans"]
  have keep: "filter (\<lambda>x. fst x \<noteq> an_signal ans) (signal_list b) = signal_list b" "filter (\<lambda>x. snd x \<noteq> an_signal ans) (handle_map b) = handle_map b"
    using remove_free [OF ok(2,1)] .
  note apart = free_apart [OF ok(2)]
  have failed: "InternalUnregisterSignal (an_signal ans) ?b = b" by (simp add: InternalUnregisterSignal_def keep)
  consider "sg_direction s = SD_Output" | "sg_direction s = SD_Input" "\<not> sg_raw s \<and> an_mapping ans \<noteq> ERR_NOT_FOUND"
    | "sg_direction s = SD_Input" "\<not> (\<not> sg_raw s \<and> an_mapping ans \<noteq> ERR_NOT_FOUND)"
    using new(2) by (cases "sg_direction s") auto
  then show ?thesis
  proof cases
    case 1
    show ?thesis
    proof (cases "an_create ans = ERR_NOERROR")
      case True
      let ?st = "?b\<lparr>counters := counters b @ [(?h, an_object ans)], transmitters := transmitters b @ [an_object ans]\<rparr>"
      have access: "access_RegisterSignal ans s ?b = (ERR_NOERROR, ?h, False, ?st)"
        using 1 new True by (simp add: access_RegisterSignal_def adapter_RegisterSignal_def)
      have found: "snd (AssociateHandle (an_signal ans) ?h ?st) = ?st\<lparr>handle_map := handle_map b @ [(?h, an_signal ans)]\<rparr>"
        "FindSignalByHandle ?h (?st\<lparr>handle_map := handle_map b @ [(?h, an_signal ans)]\<rparr>) = Some (an_signal ans, s)"
        using associated [of ?st ?h "an_signal ans" "s"] none by (simp_all add: map_add_def)
      show ?thesis using 1 new
        by (auto simp: RegisterAtDataAccess_def access [simplified] set_mapped_def found [simplified] notified(1) [OF found(2) [simplified]] after_registration_def with_signal_def add_infos_def
            is_output_def signal_key_def intro!: exI [of _ False])
    next
      case False
      then have "access_RegisterSignal ans s ?b = (an_create ans, 0, False, ?b)"
        using 1 new by (simp add: access_RegisterSignal_def adapter_RegisterSignal_def)
      then show ?thesis using False failed by (simp add: RegisterAtDataAccess_def)
    qed
  next
    case 2
    show ?thesis
    proof (cases "an_mapping ans = ERR_NOERROR")
      case True
      let ?st = "?b\<lparr>mapped_signals := mapped_signals b @ [?h]\<rparr>"
      let ?st' = "?st\<lparr>signal_list := signal_list b @ [(an_signal ans, s\<lparr>sg_mapped := True\<rparr>)]\<rparr>"
      have access: "access_RegisterSignal ans s ?b = (ERR_NOERROR, ?h, True, ?st)"
        using 2 new True by (simp add: access_RegisterSignal_def)
      have mapped: "set_mapped (an_signal ans) True ?st = ?st'" using none by (simp add: set_mapped_def map_unchanged)
      have found: "snd (AssociateHandle (an_signal ans) ?h ?st') = ?st'\<lparr>handle_map := handle_map b @ [(?h, an_signal ans)]\<rparr>"
        "FindSignalByHandle ?h (?st'\<lparr>handle_map := handle_map b @ [(?h, an_signal ans)]\<rparr>) = Some (an_signal ans, s\<lparr>sg_mapped := True\<rparr>)"
        using associated [of ?st' ?h "an_signal ans" "s\<lparr>sg_mapped := True\<rparr>"] none by (simp_all add: map_add_def)
      have "is_mapped (s\<lparr>sg_mapped := True\<rparr>)" using 2 by (simp add: is_mapped_def)
      then show ?thesis using 2 new notified(2) [OF found(2), of ans]
        by (auto simp: RegisterAtDataAccess_def access [simplified] mapped [simplified] found [simplified] after_registration_def with_signal_def add_infos_def
            is_output_def signal_key_def intro!: exI [of _ True])
    next
      case False
      then have "access_RegisterSignal ans s ?b = (an_mapping ans, 0, False, ?b)" using 2 new by (simp add: access_RegisterSignal_def)
      then show ?thesis using False failed by (simp add: RegisterAtDataAccess_def)
    qed
  next
    case 3
    have adapter: "access_RegisterSignal ans s ?b = (case adapter_RegisterSignal (an_create ans) (an_handle ans) SD_Input ?b of (r, h, st) \<Rightarrow> (r, h, False, st))"
      using 3 new by (cases "sg_raw s") (simp_all add: access_RegisterSignal_def)
    show ?thesis
    proof (cases "an_create ans = ERR_NOERROR")
      case True
      let ?st = "?b\<lparr>receivers := receivers b @ [(?h, [])]\<rparr>"
      have access: "access_RegisterSignal ans s ?b = (ERR_NOERROR, ?h, False, ?st)"
        using True by (simp add: adapter [simplified] adapter_RegisterSignal_def)
      have found: "snd (AssociateHandle (an_signal ans) ?h ?st) = ?st\<lparr>handle_map := handle_map b @ [(?h, an_signal ans)]\<rparr>"
        "FindSignalByHandle ?h (?st\<lparr>handle_map := handle_map b @ [(?h, an_signal ans)]\<rparr>) = Some (an_signal ans, s)"
        using associated [of ?st ?h "an_signal ans" "s"] none by (simp_all add: map_add_def)
      have "is_received s" "map_of (receivers b @ [(an_handle ans, [])]) (an_handle ans) = Some []"
        using 3 new none by (simp_all add: is_received_def map_add_def)
      then show ?thesis using 3 new none notified(3) [OF found(2), of ans]
        by (auto simp: RegisterAtDataAccess_def access [simplified] set_mapped_def found [simplified] map_unchanged after_registration_def with_signal_def add_infos_def
            is_output_def is_mapped_def signal_key_def intro!: exI [of _ False])
    next
      case False
      then have "access_RegisterSignal ans s ?b = (an_create ans, 0, False, ?b)" by (simp add: adapter [simplified] adapter_RegisterSignal_def)
      then show ?thesis using False failed by (simp add: RegisterAtDataAccess_def)
    qed
  qed
qed


lemma after_registration_fields [simp]:
  "signal_list (after_registration ans s b) = signal_list b @ [(an_signal ans, s)]"
  "handle_map (after_registration ans s b) = handle_map b @ [(an_handle ans, an_signal ans)]"
  "infos (after_registration ans s b) = fold List.insert (signal_infos (signal_key (an_signal ans, s))) (infos b)"
  "info_branches (after_registration ans s b) = List.insert (signal_key (an_signal ans, s)) (info_branches b)"
  "allow_registration (after_registration ans s b) = allow_registration b"
  by (simp_all add: after_registration_def with_signal_def add_infos_def)

lemma bus_registered_after:
  assumes "bus_ok b" "free_addresses ans b"
  shows "registered (after_registration ans s b) = insert (an_handle ans, s) (registered b)"
proof -
  have ids: "free_addresses ans b" "signals_ok b" using assms by (simp_all add: bus_ok_def)
  then have "an_signal ans \<notin> fst ` set (signal_list b)" "an_signal ans \<notin> snd ` set (handle_map b)"
    using free_lookup [OF ids(1), of "an_signal ans"] by (simp_all add: signals_ok_def)
  then show ?thesis by (force simp: registered_def)
qed

lemma handles_after:
  "bus_ok b \<Longrightarrow> free_addresses ans b \<Longrightarrow> handles_where P (after_registration ans s b) =
     (if P s then insert (an_handle ans) (handles_where P b) else handles_where P b)"
  by (auto simp: handles_where_def bus_registered_after)

lemma signals_after:
  assumes "bus_ok b" "sg_direction s \<noteq> SD_Undefined" "signal_key (an_signal ans, s) \<notin> signal_key ` set (signal_list b)"
    and free: "free_addresses ans b"
  shows "signals_ok (after_registration ans s b)"
proof -
  have ids: "free_addresses ans b" "signals_ok b" using assms(1) free by (simp_all add: bus_ok_def)
  have new: "an_signal ans \<notin> fst ` set (signal_list b)" "an_signal ans \<notin> snd ` set (handle_map b)" "an_handle ans \<notin> fst ` set (handle_map b)"
    using free_lookup [OF ids(1), of "an_signal ans"] free_lookup [OF ids(1), of "an_handle ans"] ids(2) by (simp_all add: signals_ok_def)
  show ?thesis using ids(2) assms(2,3) new by (auto simp: signals_ok_def signal_key_def)
qed

lemma kind_cases:
  assumes "sg_direction s \<noteq> SD_Undefined" "sg_mapped s \<longrightarrow> sg_direction s = SD_Input"
  obtains "is_output s" "\<not> is_mapped s" "\<not> is_received s" | "\<not> is_output s" "is_mapped s" "\<not> is_received s"
    | "\<not> is_output s" "\<not> is_mapped s" "is_received s"
  using assms by (cases "sg_direction s") (auto simp: is_output_def is_mapped_def is_received_def)

lemma objects_after:
  assumes ok: "bus_ok b" and free: "free_addresses ans b" and dir: "sg_direction s \<noteq> SD_Undefined" "sg_mapped s \<longrightarrow> sg_direction s = SD_Input"
  shows "objects_ok (after_registration ans s b)"
proof -
  have b: "free_addresses ans b" "objects_ok b" using ok free by (simp_all add: bus_ok_def)
  note apart = free_apart [OF free]
  note none = free_lookup(4-) [OF b(1), of "an_handle ans"] free_lookup(4-) [OF b(1), of "an_object ans"]
  have dis: "snd ` set (counters b) \<inter> fst ` set (handle_map b) = {}" using b(2) unfolding objects_ok_def by metis
  from dir show ?thesis
  proof (cases rule: kind_cases)
    case 1
    then have "counters (after_registration ans s b) = counters b @ [(an_handle ans, an_object ans)]"
      "transmitters (after_registration ans s b) = transmitters b @ [an_object ans]"
      "receivers (after_registration ans s b) = receivers b" "mapped_signals (after_registration ans s b) = mapped_signals b"
      "sample_buffers (after_registration ans s b) = sample_buffers b"
      by (simp_all add: after_registration_def with_signal_def add_infos_def)
    moreover have "an_object ans \<notin> snd ` set (counters b)" using none b(2) by (simp add: objects_ok_def)
    ultimately show ?thesis using b(2) none 1 unfolding objects_ok_def handles_after [OF ok free] by (simp add: dis apart)
  next
    case 2
    then have "counters (after_registration ans s b) = counters b" "transmitters (after_registration ans s b) = transmitters b"
      "receivers (after_registration ans s b) = receivers b" "mapped_signals (after_registration ans s b) = mapped_signals b @ [an_handle ans]"
      "sample_buffers (after_registration ans s b) = List.insert (an_handle ans) (sample_buffers b)"
      by (simp_all add: after_registration_def with_signal_def add_infos_def)
    then show ?thesis using b(2) none 2 unfolding objects_ok_def handles_after [OF ok free] by (simp add: dis apart)
  next
    case 3
    then have "counters (after_registration ans s b) = counters b" "transmitters (after_registration ans s b) = transmitters b"
      "receivers (after_registration ans s b) = receivers b @ [(an_handle ans, [an_object ans])]"
      "mapped_signals (after_registration ans s b) = mapped_signals b"
      "sample_buffers (after_registration ans s b) = List.insert (an_handle ans) (sample_buffers b)"
      by (simp_all add: after_registration_def with_signal_def add_infos_def)
    then show ?thesis using b(2) none 3 unfolding objects_ok_def handles_after [OF ok free] by (simp add: dis apart)
  qed
qed

lemma bus_listeners_after:
  assumes ok: "bus_ok b" and free: "free_addresses ans b"
  shows "listeners_ok (after_registration ans s b)"
proof (cases "is_output s \<or> is_mapped s")
  case True
  then show ?thesis using ok by (auto simp: bus_ok_def listeners_ok_def after_registration_def with_signal_def add_infos_def)
next
  case False
  then have fields: "adapters (after_registration ans s b) = adapters b @ [(an_object ans, 0, an_handle ans)]"
    "receivers (after_registration ans s b) = receivers b @ [(an_handle ans, [an_object ans])]"
    by (simp_all add: after_registration_def with_signal_def add_infos_def)
  have b: "free_addresses ans b" "listeners_ok b" using ok free by (simp_all add: bus_ok_def)
  have none: "an_handle ans \<notin> fst ` set (receivers b)" "an_object ans \<notin> fst ` set (adapters b)"
    using free_lookup [OF b(1), of "an_handle ans"] free_lookup [OF b(1), of "an_object ans"] by simp_all
  have "\<forall>x \<in> set (adapters b). snd (snd x) \<in> fst ` set (receivers b)" using b(2) by (simp add: listeners_ok_def)
  then have unused: "{x \<in> set (adapters b). snd (snd x) = an_handle ans} = {}"
    unfolding Collect_empty_eq using none(1) by metis
  have old: "fst r \<noteq> an_handle ans" if "r \<in> set (receivers b)" for r using none(1) that by (auto simp: image_iff)
  have one: "{x \<in> set (adapters b @ [(ad, l, h)]). snd (snd x) = k} =
      {x \<in> set (adapters b). snd (snd x) = k} \<union> (if h = k then {(ad, l, h)} else {})" for ad l h k
    by auto
  show ?thesis using b(2) none unused old unfolding listeners_ok_def fields one by auto
qed

lemma muted_after: "muted_ok b \<Longrightarrow> muted_ok (after_registration ans s b)"
  by (auto simp: muted_ok_def after_registration_def with_signal_def add_infos_def)

lemma bus_ok_after:
  assumes "bus_ok b" "free_addresses ans b" "sg_direction s \<noteq> SD_Undefined" "sg_mapped s \<longrightarrow> sg_direction s = SD_Input"
    and "signal_key (an_signal ans, s) \<notin> signal_key ` set (signal_list b)"
  shows "bus_ok (after_registration ans s b)"
  unfolding bus_ok_def using signals_after [OF assms(1,3,5,2)] objects_after [OF assms(1-4)] bus_listeners_after [OF assms(1,2)] muted_after assms(1)
  by (simp add: bus_ok_def)

text \<open>A registration fails without a trace, or it adds a signal with its objects.\<close>

lemma register_cases:
  assumes ok: "bus_ok b" and free: "free_addresses ans b"
  shows "case RegisterSignal lib ans so (ds, b) of ((r, h), ds', b') \<Rightarrow>
    if r = ERR_NOERROR
    then h = Some (an_handle ans) \<and> CheckValidity so \<and> allow_registration b \<and> FindSignal (so_name so) (so_direction so) b = None \<and>
      (\<exists>s. sg_name s = so_name so \<and> sg_direction s = so_direction so \<and> (sg_mapped s \<longrightarrow> sg_direction s = SD_Input) \<and>
           b' = after_registration ans s b)
    else h = None \<and> b' = b"
proof -
  have parts: "signals_ok b" "free_addresses ans b" using ok free by (simp_all add: bus_ok_def)
  show ?thesis
  proof (cases "allow_registration b \<and> CheckValidity so")
    case True
    obtain r0 desc ds0 where resolved: "(if so_raw so then (ERR_NOERROR, None, ds) else ResolveSignalType lib (Some (so_type so)) ds) = (r0, desc, ds0)"
      by (rule prod_cases3)
    obtain r1 b1 where internal: "InternalRegisterSignal ans so desc b = (r1, b1)" by (cases "InternalRegisterSignal ans so desc b")
    show ?thesis
    proof (cases "r0 = ERR_NOERROR \<and> r1 = ERR_NOERROR")
      case False
      have "b1 = b \<or> r1 = ERR_NOERROR" using internal by (auto simp: InternalRegisterSignal_def Let_def case_prod_beta split: if_splits)
      then show ?thesis using False True resolved internal
        by (auto simp: RegisterSignal_def split: option.split)
    next
      case both: True
      define s where "s = \<lparr>sg_name = so_name so, sg_type = so_type so, sg_desc = (case desc of None \<Rightarrow> [] | Some d \<Rightarrow> d),
        sg_direction = so_direction so, sg_size = (if so_raw so then 0 else snd (an_size ans)), sg_mapped = False, sg_raw = so_raw so,
        sg_backlog = 1, sg_serialized = enabled_serialization b \<and> \<not> so_raw so, sg_reliable = so_reliable so,
                 sg_low_latency = so_low_latency so, sg_async_publisher = so_async_publisher so\<rparr>"
      have new: "FindSignal (so_name so) (so_direction so) b = None"
        and b1: "b1 = b\<lparr>signal_list := signal_list b @ [(an_signal ans, s)]\<rparr>"
        using internal both unfolding not_None_eq [symmetric]
        by (auto simp: InternalRegisterSignal_def s_def Let_def case_prod_beta simp del: not_None_eq split: if_splits)
      have s: "sg_name s = so_name so" "sg_direction s = so_direction so" "\<not> sg_mapped s" by (simp_all add: s_def)
      have found: "FindSignal (so_name so) (so_direction so) b1 = Some (an_signal ans, s)"
        using new by (simp add: b1 FindSignal_def find_append s)
      have "sg_name s \<noteq> []" "sg_direction s \<noteq> SD_Undefined" using True by (simp_all add: s CheckValidity_def)
      note at = at_data_access [OF parts this s(3), folded b1]
      obtain r h b2 where access: "RegisterAtDataAccess ans (an_signal ans) s b1 = (r, h, b2)" by (rule prod_cases3)
      have run: "RegisterSignal lib ans so (ds, b) =
          ((r, h), ds0, if r = ERR_NOERROR then add_infos (so_direction so, so_name so) b2 else b2)"
        using True resolved internal both found access by (simp add: RegisterSignal_def)
      have key: "signal_key (an_signal ans, s) = (so_direction so, so_name so)" by (simp add: signal_key_def s)
      show ?thesis
      proof (cases "r = ERR_NOERROR")
        case ok: True
        then obtain m where m: "m \<longrightarrow> sg_direction s = SD_Input"
          "add_infos (signal_key (an_signal ans, s)) b2 = after_registration ans (s\<lparr>sg_mapped := m\<rparr>) b" "h = Some (an_handle ans)"
          using at access by auto
        then show ?thesis using ok True new run unfolding key
          by (auto simp: s intro!: exI [of _ "s\<lparr>sg_mapped := m\<rparr>"])
      next
        case False
        then show ?thesis using at access by (simp add: run)
      qed
    qed
  next
    case False
    then show ?thesis by (auto simp: RegisterSignal_def)
  qed
qed

lemma register_keeps_ok:
  assumes "bus_ok b" "free_addresses ans b"
  shows "bus_ok (snd (snd (RegisterSignal lib ans so (ds, b))))"
proof -
  obtain r h ds' b' where run: "RegisterSignal lib ans so (ds, b) = ((r, h), ds', b')" by (metis prod.exhaust)
  show ?thesis
  proof (cases "r = ERR_NOERROR")
    case True
    obtain s where s: "sg_name s = so_name so" "sg_direction s = so_direction so" "sg_mapped s \<longrightarrow> sg_direction s = SD_Input"
      "b' = after_registration ans s b" "CheckValidity so" "FindSignal (so_name so) (so_direction so) b = None"
      using register_cases [OF assms, where lib = lib and so = so and ds = ds] by (auto simp: run True)
    then show ?thesis using bus_ok_after [OF assms, of s]
      by (simp add: run CheckValidity_def find_signal_none signal_key_def)
  next
    case False
    then show ?thesis using register_cases [OF assms, where lib = lib and so = so and ds = ds] assms by (auto simp: run)
  qed
qed


end
