(* ===== verification/Signal_Removal.thy ===== *)
theory Signal_Removal
  imports Signal_Registry
begin

section \<open>Unregistering a signal\<close>

lemma objects_facts:
  assumes "objects_ok b"
  shows "fst ` set (counters b) = handles_where is_output b" "set (transmitters b) = snd ` set (counters b)"
    "fst ` set (receivers b) = handles_where is_received b" "set (mapped_signals b) = handles_where is_mapped b"
    "set (sample_buffers b) = handles_where (\<lambda>s. is_received s \<or> is_mapped s) b" "set (transmitters b) \<inter> fst ` set (handle_map b) = {}"
  by (insert assms [unfolded objects_ok_def], (elim conjE, assumption)+)

lemma find_first: "filter Q ys = x # xs \<Longrightarrow> P x \<Longrightarrow> (\<And>y. P y \<Longrightarrow> Q y) \<Longrightarrow> List.find P ys = Some x"
  by (induction ys) (auto split: if_splits)

lemma filter_other:
  assumes "distinct (map fst ys)" "x \<in> set ys" "\<not> Q x"
  shows "filter Q (filter (\<lambda>y. fst y \<noteq> fst x) ys) = filter Q ys"
proof -
  have "y = x" if "y \<in> set ys" "fst y = fst x" for y using assms that by (metis eq_key_imp_eq_value prod.collapse)
  then have "filter (\<lambda>y. Q y \<and> fst y \<noteq> fst x) ys = filter Q ys" using assms(3) by (intro filter_cong) auto
  then show ?thesis by (simp add: conj_commute)
qed

lemma filter_rest:
  assumes "distinct (map fst ys)" "filter Q ys = x # xs"
  shows "filter Q (filter (\<lambda>y. fst y \<noteq> fst x) ys) = xs"
proof -
  have "filter Q (filter (\<lambda>y. fst y \<noteq> fst x) ys) = filter (\<lambda>y. fst y \<noteq> fst x) (x # xs)"
    unfolding assms(2) [symmetric] by (simp add: conj_commute)
  moreover have "distinct (map fst (x # xs))" using assms by (metis distinct_map_filter)
  then have "filter (\<lambda>y. fst y \<noteq> fst x) (x # xs) = xs" by (auto simp: filter_id_conv image_iff)
  ultimately show ?thesis by simp
qed

definition only_at :: "nat \<Rightarrow> (nat \<times> nat list) list \<Rightarrow> (nat \<times> nat list) list \<Rightarrow> bool" where
  "only_at h rs rs' \<longleftrightarrow> filter (\<lambda>x. fst x \<noteq> h) rs' = filter (\<lambda>x. fst x \<noteq> h) rs \<and> map fst rs' = map fst rs"

lemma only_at_map: "only_at h rs (map (\<lambda>x. if fst x = h then (h, g (snd x)) else x) rs)"
  by (induction rs) (auto simp: only_at_def)

lemma only_at_refl [simp]: "only_at h rs rs" by (simp add: only_at_def)

lemma find_ignores [simp]:
  "FindSignalByHandle h (b\<lparr>adapters := ads, receivers := rs\<rparr>) = FindSignalByHandle h b"
  "FindSignalByHandle h (b\<lparr>sample_buffers := bs\<rparr>) = FindSignalByHandle h b"
  by (auto simp: FindSignalByHandle_def split: option.split)

lemma unlisten:
  assumes "\<not> IsMappedSignal h b" "List.find (\<lambda>x. snd x = (l, h)) (adapters b) = Some (ad, l', h')"
  shows "\<exists>r rs. UnregisterDataListener ans l h b = (r, b\<lparr>adapters := filter (\<lambda>x. fst x \<noteq> ad) (adapters b), receivers := rs\<rparr>) \<and>
    only_at h (receivers b) rs"
proof (cases "map_of (receivers b) h")
  case None
  then show ?thesis using assms
    by (auto simp: UnregisterDataListener_def adapter_UnregisterDataListener_def intro!: exI [of _ "receivers b"])
next
  case (Some ls)
  then show ?thesis using assms only_at_map [of h "receivers b" "remove1 ad"]
    by (cases b) (auto simp: UnregisterDataListener_def adapter_UnregisterDataListener_def Let_def)
qed

lemma unlisten_all:
  assumes "xs = filter (\<lambda>x. snd (snd x) = h) (adapters b)" "distinct (map fst (adapters b))" "\<not> IsMappedSignal h b"
  shows "\<exists>rs. fold (\<lambda>x st. snd (UnregisterDataListener ans (fst (snd x)) h st)) xs b =
      b\<lparr>adapters := filter (\<lambda>x. snd (snd x) \<noteq> h) (adapters b), receivers := rs\<rparr> \<and> only_at h (receivers b) rs"
  using assms
proof (induction xs arbitrary: b)
  case Nil
  then have "filter (\<lambda>x. snd (snd x) = h) (adapters b) = []" by simp
  then have "filter (\<lambda>x. snd (snd x) \<noteq> h) (adapters b) = adapters b" by (auto simp: filter_id_conv filter_empty_conv)
  then show ?case by (auto intro!: exI [of _ "receivers b"])
next
  case (Cons x xs)
  obtain ad l where x: "x = (ad, l, h)" using Cons.prems(1) by (cases x) (auto dest!: Cons_eq_filterD)
  have xin: "x \<in> set (adapters b)" using Cons.prems(1) 
    by (metis (no_types, lifting) filter_is_subset list.set_intros(1) subsetD)
  have "List.find (\<lambda>y. snd y = (l, h)) (adapters b) = Some x"
    by (rule find_first [OF Cons.prems(1) [symmetric]]) (auto simp: x)
  then obtain r rs where one: "UnregisterDataListener ans l h b = (r, b\<lparr>adapters := filter (\<lambda>x. fst x \<noteq> ad) (adapters b), receivers := rs\<rparr>)"
    "only_at h (receivers b) rs" using unlisten [OF Cons.prems(3), of l ad l h ans] by (auto simp: x)
  let ?b = "b\<lparr>adapters := filter (\<lambda>x. fst x \<noteq> ad) (adapters b), receivers := rs\<rparr>"
  have "xs = filter (\<lambda>x. snd (snd x) = h) (adapters ?b)"
    using filter_rest [OF Cons.prems(2) Cons.prems(1) [symmetric]] by (simp add: x)
  moreover have "distinct (map fst (adapters ?b))" using Cons.prems(2) by (simp add: distinct_map_filter)
  moreover have "\<not> IsMappedSignal h ?b" using Cons.prems(3) by (simp add: IsMappedSignal_def)
  ultimately obtain rs' where rest: "fold (\<lambda>x st. snd (UnregisterDataListener ans (fst (snd x)) h st)) xs ?b =
      ?b\<lparr>adapters := filter (\<lambda>x. snd (snd x) \<noteq> h) (adapters ?b), receivers := rs'\<rparr>" "only_at h rs rs'"
    using Cons.IH [of ?b] by auto
  have "filter (\<lambda>y. snd (snd y) \<noteq> h) (filter (\<lambda>y. fst y \<noteq> fst x) (adapters b)) = filter (\<lambda>y. snd (snd y) \<noteq> h) (adapters b)"
    using filter_other [OF Cons.prems(2) xin, of "\<lambda>y. snd (snd y) \<noteq> h"] by (simp add: x)
  then have "fold (\<lambda>x st. snd (UnregisterDataListener ans (fst (snd x)) h st)) (x # xs) b =
      b\<lparr>adapters := filter (\<lambda>x. snd (snd x) \<noteq> h) (adapters b), receivers := rs'\<rparr>"
    using rest(1) one(1) by (simp add: x)
  moreover have "only_at h (receivers b) rs'" using one(2) rest(2) by (simp add: only_at_def)
  ultimately show ?case by blast
qed

lemma signal_unregistered:
  assumes "distinct (map fst (adapters b))" "\<not> IsMappedSignal h b"
  shows "\<exists>rs. SignalUnregistered ans h b = b\<lparr>adapters := filter (\<lambda>x. snd (snd x) \<noteq> h) (adapters b), receivers := rs,
      sample_buffers := removeAll h (sample_buffers b)\<rparr> \<and> only_at h (receivers b) rs"
  using unlisten_all [OF refl assms, of ans] by (auto simp: SignalUnregistered_def Let_def)

lemma mapped_unregistered:
  assumes "\<forall>x \<in> set (adapters b). snd (snd x) \<noteq> h"
  shows "SignalUnregistered ans h b = b\<lparr>sample_buffers := removeAll h (sample_buffers b)\<rparr>"
  using assms by (simp add: SignalUnregistered_def Let_def filter_False)


text \<open>The state after the signal at address \<open>a\<close> with the handle \<open>h\<close> is gone.\<close>

definition without_signal :: "nat \<Rightarrow> nat \<Rightarrow> signal \<Rightarrow> bus \<Rightarrow> bus" where
  "without_signal h a s b = b\<lparr>signal_list := filter (\<lambda>x. fst x \<noteq> a) (signal_list b),
     handle_map := filter (\<lambda>x. snd x \<noteq> a) (handle_map b), infos := fold removeAll (signal_infos (signal_key (a, s))) (infos b),
     counters := filter (\<lambda>x. fst x \<noteq> h) (counters b), transmitters := filter (\<lambda>t. (h, t) \<notin> set (counters b)) (transmitters b),
     muted := filter (\<lambda>t. (h, t) \<notin> set (counters b)) (muted b), mapped_signals := removeAll h (mapped_signals b),
     adapters := filter (\<lambda>x. snd (snd x) \<noteq> h) (adapters b), receivers := filter (\<lambda>x. fst x \<noteq> h) (receivers b),
     sample_buffers := removeAll h (sample_buffers b)\<rparr>"

lemma kinds_of_handle:
  assumes "bus_ok b" "(h, s) \<in> registered b"
  shows "h \<in> handles_where P b \<longleftrightarrow> P s"
proof -
  have "signals_ok b" using assms(1) by (simp add: bus_ok_def)
  then have "s' = s" if "(h, s') \<in> registered b" for s' using that assms(2) by (rule registered_unique)
  then show ?thesis using assms(2) unfolding handles_where_def by blast
qed

lemma handles_registered: "handles_where P b \<subseteq> fst ` set (handle_map b)"
  by (force simp: handles_where_def registered_def)

lemma unregister_output:
  assumes ok: "bus_ok b" and h: "(h, s) \<in> registered b" and out: "is_output s"
  shows "access_UnregisterSignal ans s h b = (ERR_NOERROR, b\<lparr>transmitters := filter (\<lambda>t. (h, t) \<notin> set (counters b)) (transmitters b),
    muted := filter (\<lambda>t. (h, t) \<notin> set (counters b)) (muted b), counters := filter (\<lambda>x. fst x \<noteq> h) (counters b)\<rparr>)"
proof -
  have obj: "objects_ok b" using ok by (simp add: bus_ok_def)
  have "h \<in> fst ` set (counters b)" using obj kinds_of_handle [OF ok h, of is_output] out by (simp add: objects_ok_def)
  then obtain i where i: "(h, i) \<in> set (counters b)" by auto
  then have get: "map_of (counters b) h = Some i" using obj by (simp add: objects_ok_def)
  have "distinct (map fst (counters b))" using obj by (simp add: objects_ok_def)
  then have only: "(h, t) \<in> set (counters b) \<longleftrightarrow> t = i" for t using i eq_key_imp_eq_value by metis
  have drop: "filter (\<lambda>t. (h, t) \<notin> set (counters b)) ts = removeAll i ts" for ts by (simp add: only removeAll_filter_not_eq) metis
  have sets: "set (transmitters b) = snd ` set (counters b)" "set (transmitters b) \<inter> fst ` set (handle_map b) = {}"
    "fst ` set (receivers b) = handles_where is_received b" using obj unfolding objects_ok_def by blast+
  have "i \<in> set (transmitters b)" unfolding sets(1) using i by force
  moreover from this have "i \<notin> fst ` set (receivers b)" using sets(2) handles_registered unfolding sets(3) by blast
  moreover have "distinct (transmitters b)" using obj by (simp add: objects_ok_def)
  ultimately have "adapter_UnregisterSignal i b = (ERR_NOERROR, b\<lparr>transmitters := removeAll i (transmitters b), muted := removeAll i (muted b)\<rparr>)"
    by (simp add: adapter_UnregisterSignal_def distinct_remove1_removeAll)
  then show ?thesis using out get unfolding drop by (simp add: access_UnregisterSignal_def is_output_def)
qed

lemma no_adapter:
  assumes "bus_ok b" "(h, s) \<in> registered b" "\<not> is_received s"
  shows "filter (\<lambda>x. snd (snd x) \<noteq> h) (adapters b) = adapters b" "filter (\<lambda>x. fst x \<noteq> h) (receivers b) = receivers b"
    "\<forall>x \<in> set (adapters b). snd (snd x) \<noteq> h"
proof -
  have "h \<notin> fst ` set (receivers b)" using assms kinds_of_handle [OF assms(1,2), of is_received] by (simp add: bus_ok_def objects_ok_def)
  moreover have "\<forall>x \<in> set (adapters b). snd (snd x) \<in> fst ` set (receivers b)" using assms(1) by (simp add: bus_ok_def listeners_ok_def)
  ultimately show "filter (\<lambda>x. snd (snd x) \<noteq> h) (adapters b) = adapters b" "filter (\<lambda>x. fst x \<noteq> h) (receivers b) = receivers b"
    "\<forall>x \<in> set (adapters b). snd (snd x) \<noteq> h"
    by (force simp: filter_id_conv)+
qed

lemma no_counter:
  assumes "bus_ok b" "(h, s) \<in> registered b" "\<not> is_output s"
  shows "filter (\<lambda>x. fst x \<noteq> h) (counters b) = counters b" "(h, t) \<notin> set (counters b)"
proof -
  have "h \<notin> fst ` set (counters b)" using assms kinds_of_handle [OF assms(1,2), of is_output] by (simp add: bus_ok_def objects_ok_def)
  then show "filter (\<lambda>x. fst x \<noteq> h) (counters b) = counters b" "(h, t) \<notin> set (counters b)" by (force simp: filter_id_conv)+
qed

lemma unregister_received:
  assumes ok: "bus_ok b" and h: "(h, s) \<in> registered b" and received: "is_received s"
  shows "access_UnregisterSignal ans s h b = (ERR_NOERROR, b\<lparr>adapters := filter (\<lambda>x. snd (snd x) \<noteq> h) (adapters b),
    receivers := filter (\<lambda>x. fst x \<noteq> h) (receivers b), sample_buffers := removeAll h (sample_buffers b)\<rparr>)"
proof -
  have parts: "signals_ok b" "objects_ok b" "distinct (map fst (adapters b))" "set (muted b) \<subseteq> set (transmitters b)"
    using ok by (simp_all add: bus_ok_def listeners_ok_def muted_ok_def)
  have mapped: "\<not> IsMappedSignal h b" using mapped_iff [OF parts(1) h] received by (simp add: is_received_def)
  obtain rs where rs: "SignalUnregistered ans h b = b\<lparr>adapters := filter (\<lambda>x. snd (snd x) \<noteq> h) (adapters b), receivers := rs,
      sample_buffers := removeAll h (sample_buffers b)\<rparr>" "only_at h (receivers b) rs"
    using signal_unregistered [OF parts(3) mapped] by blast
  have "fst ` set (receivers b) = handles_where is_received b" using parts(2) unfolding objects_ok_def by blast
  then have "h \<in> set (map fst (receivers b))" using kinds_of_handle [OF ok h, of is_received] received by simp
  then have "h \<in> set (map fst rs)" using rs(2) by (simp add: only_at_def)
  moreover have "h \<in> fst ` set (handle_map b)" using h by (force simp: registered_def)
  then have "h \<notin> set (muted b)" using parts(2,4) unfolding objects_ok_def by blast
  ultimately show ?thesis using received rs
    by (cases b) (simp add: access_UnregisterSignal_def is_received_def adapter_UnregisterSignal_def only_at_def)
qed

lemma unregister_mapped:
  assumes ok: "bus_ok b" and h: "(h, s) \<in> registered b" and mapped: "is_mapped s"
  shows "access_UnregisterSignal ans s h b = (an_unmap ans,
    (if isOk (an_unmap ans) then b\<lparr>mapped_signals := removeAll h (mapped_signals b), sample_buffers := removeAll h (sample_buffers b)\<rparr>
     else b\<lparr>sample_buffers := removeAll h (sample_buffers b)\<rparr>))"
proof -
  have "\<not> is_received s" using mapped by (simp add: is_mapped_def is_received_def)
  then have none: "\<forall>x \<in> set (adapters b). snd (snd x) \<noteq> h" by (rule no_adapter(3) [OF ok h])
  then show ?thesis using mapped mapped_unregistered [of b h ans] mapped_unregistered [of "b\<lparr>mapped_signals := removeAll h (mapped_signals b)\<rparr>" h ans]
    by (simp add: access_UnregisterSignal_def is_mapped_def)
qed

text \<open>An unregistration takes away exactly the signal, unless the mapping refuses: then only the sample buffer is gone.\<close>

lemma unregister_cases:
  assumes ok: "bus_ok b" and at: "FindSignalByHandle h b = Some (a, s)"
  shows "UnregisterSignal ans h b =
    (if \<not> allow_registration b then (ERR_INVALID_STATE, b)
     else if is_mapped s \<and> isFailed (an_unmap ans) then (an_unmap ans, b\<lparr>sample_buffers := removeAll h (sample_buffers b)\<rparr>)
     else (ERR_NOERROR, without_signal h a s b))"
proof -
  have parts: "signals_ok b" "objects_ok b" "set (muted b) \<subseteq> set (transmitters b)" using ok by (simp_all add: bus_ok_def muted_ok_def)
  have sig: "(h, a) \<in> set (handle_map b)" "(a, s) \<in> set (signal_list b)" using at find_by_handle [OF parts(1)] by simp_all
  then have h: "(h, s) \<in> registered b" by (auto simp: registered_def)
  have "\<forall>x \<in> set (signal_list b). sg_direction (snd x) \<noteq> SD_Undefined" using parts(1) by (simp add: signals_ok_def)
  then have dir: "sg_direction s \<noteq> SD_Undefined" using sig(2) by force
  have buffers: "set (sample_buffers b) = handles_where (\<lambda>s. is_received s \<or> is_mapped s) b" "set (mapped_signals b) = handles_where is_mapped b"
    using parts(2) unfolding objects_ok_def by blast+
  have key: "signal_key (a, s) = (sg_direction s, sg_name s)" by (simp add: signal_key_def)
  consider "is_output s" "\<not> is_received s" "\<not> is_mapped s" | "is_mapped s" "\<not> is_received s" "\<not> is_output s"
    | "is_received s" "\<not> is_mapped s" "\<not> is_output s"
    using dir by (cases "sg_direction s") (auto simp: is_output_def is_mapped_def is_received_def)
  then show ?thesis
  proof cases
    case 1
    have "removeAll h (sample_buffers b) = sample_buffers b" "removeAll h (mapped_signals b) = mapped_signals b"
      using kinds_of_handle [OF ok h] 1 by (simp_all add: buffers)
    then show ?thesis using 1 at dir unregister_output [OF ok h 1(1), of ans] no_adapter [OF ok h 1(2)]
      by (auto simp: UnregisterSignal_def InternalUnregisterSignal_def delete_infos_def without_signal_def key intro!: bus.equality)
  next
    case 2
    show ?thesis
    proof (cases "isOk (an_unmap ans)")
      case True
      then show ?thesis using 2 at dir unregister_mapped [OF ok h 2(1), of ans] no_adapter [OF ok h 2(2)] no_counter [OF ok h 2(3)]
        by (auto simp: UnregisterSignal_def InternalUnregisterSignal_def delete_infos_def without_signal_def key intro!: bus.equality)
    next
      case False
      then show ?thesis using 2 at dir unregister_mapped [OF ok h 2(1), of ans] by (simp add: UnregisterSignal_def)
    qed
  next
    case 3
    have "removeAll h (mapped_signals b) = mapped_signals b" using kinds_of_handle [OF ok h] 3 by (simp add: buffers)
    then show ?thesis using 3 at dir unregister_received [OF ok h 3(1), of ans] no_counter [OF ok h 3(3)]
      by (auto simp: UnregisterSignal_def InternalUnregisterSignal_def delete_infos_def without_signal_def key intro!: bus.equality)
  qed
qed

section \<open>A round trip\<close>









section \<open>The invariant is kept\<close>

lemma distinct_inj: "distinct (map f xs) \<Longrightarrow> x \<in> set xs \<Longrightarrow> y \<in> set xs \<Longrightarrow> f x = f y \<Longrightarrow> x = y"
  by (auto simp: distinct_map dest: inj_onD)

lemma filtered_image: "f ` {x \<in> A. f x \<noteq> k} = f ` A - {k}" by auto

lemma registered_without:
  assumes ok: "signals_ok b" and at: "(h, a) \<in> set (handle_map b)"
  shows "registered (without_signal h a s b) = {x \<in> registered b. fst x \<noteq> h}"
proof -
  have "distinct (map fst (handle_map b))" "distinct (map snd (handle_map b))" using ok by (simp_all add: signals_ok_def)
  then have "k = h \<longleftrightarrow> c = a" if "(k, c) \<in> set (handle_map b)" for k c
    using distinct_inj [of fst "handle_map b" "(k, c)" "(h, a)"] distinct_inj [of snd "handle_map b" "(k, c)" "(h, a)"] that at by auto
  then show ?thesis unfolding registered_def without_signal_def by fastforce
qed

lemma handles_without:
  assumes "signals_ok b" "(h, a) \<in> set (handle_map b)"
  shows "handles_where P (without_signal h a s b) = handles_where P b - {h}"
  by (auto simp: handles_where_def registered_without [OF assms])

lemma signals_without:
  assumes ok: "signals_ok b" and at: "(h, a) \<in> set (handle_map b)" "(a, s) \<in> set (signal_list b)"
  shows "signals_ok (without_signal h a s b)"
proof -
  have dis: "distinct (map fst (signal_list b))" "distinct (map signal_key (signal_list b))" "distinct (map fst (handle_map b))"
    "distinct (map snd (handle_map b))" and sets: "snd ` set (handle_map b) = fst ` set (signal_list b)"
    "\<forall>x \<in> set (signal_list b). sg_direction (snd x) \<noteq> SD_Undefined" "set (infos b) = (\<Union>x \<in> set (signal_list b). set (signal_infos (signal_key x)))"
    using ok by (simp_all add: signals_ok_def)
  have "signal_key x = signal_key (a, s) \<longleftrightarrow> fst x = a" if "x \<in> set (signal_list b)" for x
    using distinct_inj [OF dis(1) that at(2)] distinct_inj [OF dis(2) that at(2)] by auto
  then have other: "signal_key x \<noteq> signal_key (a, s)" if "x \<in> set (signal_list b)" "fst x \<noteq> a" for x using that by blast
  have one: "x = (a, s)" if "x \<in> set (signal_list b)" "fst x = a" for x using distinct_inj [OF dis(1) that(1) at(2)] that(2) by simp
  have "set (infos b) - set (signal_infos (signal_key (a, s))) =
      (\<Union>x \<in> {x \<in> set (signal_list b). fst x \<noteq> a}. set (signal_infos (signal_key x)))"
    unfolding sets(3) using signal_infos_disjoint [OF other] one by fastforce
  then show ?thesis using dis sets unfolding signals_ok_def by (simp add: without_signal_def distinct_map_filter filtered_image)
qed

lemma objects_without:
  assumes ok: "signals_ok b" "objects_ok b" and at: "(h, a) \<in> set (handle_map b)"
  shows "objects_ok (without_signal h a s b)"
proof -
  have dis: "distinct (map fst (counters b))" "distinct (map snd (counters b))" "distinct (map fst (receivers b))" "distinct (transmitters b)"
    and sets: "fst ` set (counters b) = handles_where is_output b" "set (transmitters b) = snd ` set (counters b)"
    "fst ` set (receivers b) = handles_where is_received b" "set (mapped_signals b) = handles_where is_mapped b"
    "set (sample_buffers b) = handles_where (\<lambda>s. is_received s \<or> is_mapped s) b" "set (transmitters b) \<inter> fst ` set (handle_map b) = {}"
    by (insert ok(2) [unfolded objects_ok_def], (elim conjE, assumption)+)
  have one: "k = h" if "(k, t) \<in> set (counters b)" "(h, t) \<in> set (counters b)" for k t
    using distinct_inj [OF dis(2) that] by simp
  let ?b = "without_signal h a s b"
  have trans: "set (transmitters ?b) = snd ` set (counters ?b)"
  proof (intro equalityI subsetI)
    fix t assume "t \<in> set (transmitters ?b)"
    then have "t \<in> snd ` set (counters b)" "(h, t) \<notin> set (counters b)" unfolding sets(2) [symmetric] by (simp_all add: without_signal_def)
    then show "t \<in> snd ` set (counters ?b)" by (force simp: without_signal_def)
  next
    fix t assume "t \<in> snd ` set (counters ?b)"
    then obtain k where k: "(k, t) \<in> set (counters b)" "k \<noteq> h" by (auto simp: without_signal_def)
    then have "t \<in> set (transmitters b)" "(h, t) \<notin> set (counters b)" unfolding sets(2) using one by force+
    then show "t \<in> set (transmitters ?b)" by (simp add: without_signal_def)
  qed
  have "set (transmitters ?b) \<subseteq> set (transmitters b)" "fst ` set (handle_map ?b) \<subseteq> fst ` set (handle_map b)" by (auto simp: without_signal_def)
  then have apart: "set (transmitters ?b) \<inter> fst ` set (handle_map ?b) = {}" using sets(6) by blast
  have "distinct (map fst (counters ?b))" "distinct (map snd (counters ?b))" "distinct (map fst (receivers ?b))" "distinct (transmitters ?b)"
    using dis by (simp_all add: without_signal_def distinct_map_filter)
  moreover have "fst ` set (counters ?b) = handles_where is_output ?b" "fst ` set (receivers ?b) = handles_where is_received ?b"
    "set (mapped_signals ?b) = handles_where is_mapped ?b" "set (sample_buffers ?b) = handles_where (\<lambda>s. is_received s \<or> is_mapped s) ?b"
    unfolding handles_without [OF ok(1) at] sets(1,3-5) [symmetric] by (simp_all add: without_signal_def filtered_image)
  ultimately show ?thesis using trans apart unfolding objects_ok_def by blast
qed

lemma listeners_without: "listeners_ok b \<Longrightarrow> listeners_ok (without_signal h a s b)"
proof -
  assume "listeners_ok b"
  then have b: "distinct (map fst (adapters b))" "\<forall>x \<in> set (adapters b). snd (snd x) \<in> fst ` set (receivers b)"
    "\<forall>r \<in> set (receivers b). distinct (snd r) \<and> set (snd r) = fst ` {x \<in> set (adapters b). snd (snd x) = fst r}"
    by (simp_all add: listeners_ok_def)
  have "{x. (x \<in> set (adapters b) \<and> snd (snd x) \<noteq> h) \<and> snd (snd x) = k} = {x \<in> set (adapters b). snd (snd x) = k}" if "k \<noteq> h" for k using that by auto
  then show ?thesis using b unfolding listeners_ok_def by (simp add: without_signal_def distinct_map_filter filtered_image)
qed

lemma bus_ok_without:
  assumes ok: "bus_ok b" and at: "(h, a) \<in> set (handle_map b)" "(a, s) \<in> set (signal_list b)"
  shows "bus_ok (without_signal h a s b)"
proof -
  have parts: "signals_ok b" "objects_ok b" "listeners_ok b" "muted_ok b" using ok by (simp_all add: bus_ok_def)
  have "muted_ok (without_signal h a s b)" using parts(4) by (auto simp: muted_ok_def without_signal_def)
  then show ?thesis unfolding bus_ok_def
    using signals_without [OF parts(1) at] objects_without [OF parts(1,2) at(1)] listeners_without [OF parts(3)] by blast
qed

lemma unregister_keeps_ok:
  assumes "bus_ok b" "isOk (an_unmap ans)"
  shows "bus_ok (snd (UnregisterSignal ans h b))"
proof (cases "FindSignalByHandle h b")
  case None
  then show ?thesis using assms by (simp add: UnregisterSignal_def)
next
  case (Some x)
  obtain a s where x: "x = (a, s)" by (cases x)
  then have "(h, a) \<in> set (handle_map b)" "(a, s) \<in> set (signal_list b)"
    using Some find_by_handle assms(1) by (simp_all add: bus_ok_def)
  then show ?thesis using unregister_cases [OF assms(1), of h a s ans] bus_ok_without [OF assms(1)] Some x assms by simp
qed

text \<open>Listeners.\<close>

lemma receivers_changed:
  assumes "map fst rs = map fst (receivers b)"
  shows "signals_ok (b\<lparr>adapters := ads, receivers := rs\<rparr>) = signals_ok b"
    and "objects_ok (b\<lparr>adapters := ads, receivers := rs\<rparr>) = objects_ok b"
    and "muted_ok (b\<lparr>adapters := ads, receivers := rs\<rparr>) = muted_ok b"
proof -
  have keys: "fst ` set rs = fst ` set (receivers b)" using assms by (metis set_map)
  show "signals_ok (b\<lparr>adapters := ads, receivers := rs\<rparr>) = signals_ok b"
    "objects_ok (b\<lparr>adapters := ads, receivers := rs\<rparr>) = objects_ok b"
    "muted_ok (b\<lparr>adapters := ads, receivers := rs\<rparr>) = muted_ok b"
    by (simp_all add: signals_ok_def objects_ok_def muted_ok_def handles_where_def registered_def assms keys)
qed

lemma map_at_keys: "map fst (map (\<lambda>x. if fst x = h then (h, g (snd x)) else x) rs) = map fst rs"
  by (induction rs) auto

lemma listen_keeps_ok:
  assumes ok: "bus_ok b" and free: "free_addresses ans b"
  shows "bus_ok (snd (RegisterDataListener ans l h b))"
proof (cases "IsMappedSignal h b \<or> h \<notin> fst ` set (receivers b)")
  case True
  then have "RegisterDataListener ans l h b = (an_listen ans, b) \<or> RegisterDataListener ans l h b = (ERR_NOT_FOUND, b)"
    using map_of_eq_None_iff [of "receivers b" h]
    by (cases "IsMappedSignal h b") (simp_all add: RegisterDataListener_def adapter_RegisterDataListener_def)
  then show ?thesis using ok by auto
next
  case False
  let ?ad = "an_object ans"
  let ?rs = "map (\<lambda>x. if fst x = h then (h, snd x @ [?ad]) else x) (receivers b)" and ?ads = "adapters b @ [(?ad, l, h)]"
  have parts: "listeners_ok b" using ok by (simp add: bus_ok_def)
  obtain ls where ls: "map_of (receivers b) h = Some ls" using False by (metis map_of_eq_None_iff not_None_eq)
  have dis: "distinct (map fst (adapters b))" and at: "\<forall>x \<in> set (adapters b). snd (snd x) \<in> fst ` set (receivers b)"
    and calls: "\<forall>r \<in> set (receivers b). distinct (snd r) \<and> set (snd r) = fst ` {x \<in> set (adapters b). snd (snd x) = fst r}"
    using parts by (simp_all add: listeners_ok_def)
  have new: "?ad \<notin> fst ` set (adapters b)" using free_lookup [OF free, of ?ad] by simp
  then have unused: "?ad \<notin> set (snd r)" if "r \<in> set (receivers b)" for r using calls that by auto
  then have "?ad \<notin> set ls" using map_of_SomeD [OF ls] by force
  then have run: "snd (RegisterDataListener ans l h b) = b\<lparr>adapters := ?ads, receivers := ?rs\<rparr>"
    using False ls by (cases b) (simp add: RegisterDataListener_def adapter_RegisterDataListener_def IsMappedSignal_def FindSignalByHandle_def)
  have one: "{x \<in> set ?ads. snd (snd x) = k} = {x \<in> set (adapters b). snd (snd x) = k} \<union> (if h = k then {(?ad, l, h)} else {})" for k by auto
  have keys: "fst ` set ?rs = fst ` set (receivers b)" using map_at_keys [of h "\<lambda>ls. ls @ [?ad]" "receivers b"] by (metis set_map)
  have "listeners_ok (b\<lparr>adapters := ?ads, receivers := ?rs\<rparr>)"
    unfolding listeners_ok_def
  proof (intro conjI ballI)
    show "distinct (map fst (adapters (b\<lparr>adapters := ?ads, receivers := ?rs\<rparr>)))" using dis new by simp
  next
    fix x assume "x \<in> set (adapters (b\<lparr>adapters := ?ads, receivers := ?rs\<rparr>))"
    then have "x \<in> set (adapters b) \<or> x = (?ad, l, h)" by auto
    moreover have "h \<in> fst ` set (receivers b)" using False by blast
    ultimately have "snd (snd x) \<in> fst ` set (receivers b)" using at by force
    then show "snd (snd x) \<in> fst ` set (receivers (b\<lparr>adapters := ?ads, receivers := ?rs\<rparr>))" using keys by simp
  next
    fix r assume "r \<in> set (receivers (b\<lparr>adapters := ?ads, receivers := ?rs\<rparr>))"
    then have "r \<in> set ?rs" by simp
    then obtain q where q: "q \<in> set (receivers b)" "r = (if fst q = h then (h, snd q @ [?ad]) else q)" unfolding set_map image_iff by blast
    show "distinct (snd r)" using q(2) calls [rule_format, OF q(1)] unused [OF q(1)] by (cases "fst q = h") simp_all
    have "set (snd r) = set (snd q) \<union> (if h = fst q then {?ad} else {})" "fst r = fst q" using q(2) by auto
    moreover have "set (snd q) = fst ` {x \<in> set (adapters b). snd (snd x) = fst q}" using calls q(1) by blast
    moreover have "fst ` {x \<in> set ?ads. snd (snd x) = fst q} =
        fst ` {x \<in> set (adapters b). snd (snd x) = fst q} \<union> (if h = fst q then {?ad} else {})" unfolding one by (simp add: image_Un)
    ultimately show "set (snd r) = fst ` {x \<in> set (adapters (b\<lparr>adapters := ?ads, receivers := ?rs\<rparr>)). snd (snd x) = fst r}"
      by simp
  qed
  then show ?thesis unfolding run using ok receivers_changed [where b = b and rs = ?rs and ads = ?ads, OF map_at_keys]
    by (simp add: bus_ok_def)
qed

lemma unlisten_keeps_ok:
  assumes ok: "bus_ok b"
  shows "bus_ok (snd (UnregisterDataListener ans l h b))"
proof (cases "IsMappedSignal h b \<or> List.find (\<lambda>x. snd x = (l, h)) (adapters b) = None")
  case True
  then show ?thesis using ok by (auto simp: UnregisterDataListener_def)
next
  case False
  then obtain ad l' h' where found: "List.find (\<lambda>x. snd x = (l, h)) (adapters b) = Some (ad, l', h')" by auto
  then have ad: "(ad, l, h) \<in> set (adapters b)" by (metis (mono_tags, lifting) find_Some_iff fst_conv nth_mem prod.collapse)
  let ?rs = "map (\<lambda>x. if fst x = h then (h, remove1 ad (snd x)) else x) (receivers b)" and ?ads = "filter (\<lambda>x. fst x \<noteq> ad) (adapters b)"
  have parts: "listeners_ok b" using ok by (simp add: bus_ok_def)
  have dis: "distinct (map fst (adapters b))" and at: "\<forall>x \<in> set (adapters b). snd (snd x) \<in> fst ` set (receivers b)"
    and calls: "\<forall>r \<in> set (receivers b). distinct (snd r) \<and> set (snd r) = fst ` {x \<in> set (adapters b). snd (snd x) = fst r}"
    using parts by (simp_all add: listeners_ok_def)
  have "h \<in> fst ` set (receivers b)" using at ad by force
  then obtain ls where ls: "map_of (receivers b) h = Some ls" by (metis map_of_eq_None_iff not_None_eq)
  have run: "snd (UnregisterDataListener ans l h b) = b\<lparr>adapters := ?ads, receivers := ?rs\<rparr>"
    using False ls found by (cases b) (simp add: UnregisterDataListener_def adapter_UnregisterDataListener_def Let_def)
  have keys: "fst ` set ?rs = fst ` set (receivers b)" using map_at_keys [of h "remove1 ad" "receivers b"] by (metis set_map)
  have others: "fst ` {x \<in> set ?ads. snd (snd x) = k} = fst ` {x \<in> set (adapters b). snd (snd x) = k} - {ad}" for k by auto
  have mine: "ad \<notin> fst ` {x \<in> set (adapters b). snd (snd x) = k}" if "k \<noteq> h" for k
    using that distinct_inj [OF dis ad] by force
  have "listeners_ok (b\<lparr>adapters := ?ads, receivers := ?rs\<rparr>)"
    unfolding listeners_ok_def
  proof (intro conjI ballI)
    show "distinct (map fst (adapters (b\<lparr>adapters := ?ads, receivers := ?rs\<rparr>)))" using dis by (simp add: distinct_map_filter)
  next
    fix x assume "x \<in> set (adapters (b\<lparr>adapters := ?ads, receivers := ?rs\<rparr>))"
    then have "snd (snd x) \<in> fst ` set (receivers b)" using at by auto
    then show "snd (snd x) \<in> fst ` set (receivers (b\<lparr>adapters := ?ads, receivers := ?rs\<rparr>))" using keys by simp
  next
    fix r assume "r \<in> set (receivers (b\<lparr>adapters := ?ads, receivers := ?rs\<rparr>))"
    then have "r \<in> set ?rs" by simp
    then obtain q where q: "q \<in> set (receivers b)" "r = (if fst q = h then (h, remove1 ad (snd q)) else q)" unfolding set_map image_iff by blast
    have dq: "distinct (snd q)" "set (snd q) = fst ` {x \<in> set (adapters b). snd (snd x) = fst q}" using calls q(1) by auto
    show "distinct (snd r)" using q(2) dq(1) by simp
    have "set (snd r) = set (snd q) - {ad}" using q(2) dq mine [of "fst q"] by auto
    moreover have "fst r = fst q" using q(2) by simp
    ultimately show "set (snd r) = fst ` {x \<in> set (adapters (b\<lparr>adapters := ?ads, receivers := ?rs\<rparr>)). snd (snd x) = fst r}"
      using dq(2) others [of "fst q"] by simp
  qed
  then show ?thesis unfolding run using ok receivers_changed [where b = b and rs = ?rs and ads = ?ads, OF map_at_keys]
    by (simp add: bus_ok_def)
qed

text \<open>The backlog, muting and the flags.\<close>

lemma backlog_keeps_ok:
  assumes ok: "bus_ok b"
  shows "bus_ok (snd (SetSignalSampleBacklog h n b))"
proof (cases "snd (SetSignalSampleBacklog h n b) = b")
  case True
  then show ?thesis using ok by simp
next
  case False
  define f where "f a x = (if fst x = a then (a, (snd x)\<lparr>sg_backlog := n\<rparr>) else x)" for a :: nat and x :: "nat \<times> signal"
  obtain a where b': "snd (SetSignalSampleBacklog h n b) = b\<lparr>signal_list := map (f a) (signal_list b)\<rparr>"
    using False by (auto simp: SetSignalSampleBacklog_def f_def [abs_def] split: option.splits if_splits)
  let ?b = "b\<lparr>signal_list := map (f a) (signal_list b)\<rparr>"
  have f: "fst (f a x) = fst x" "signal_key (f a x) = signal_key x" "sg_direction (snd (f a x)) = sg_direction (snd x)"
    "sg_mapped (snd (f a x)) = sg_mapped (snd x)" for x by (simp_all add: f_def signal_key_def)
  have maps: "map fst (map (f a) (signal_list b)) = map fst (signal_list b)" "map signal_key (map (f a) (signal_list b)) = map signal_key (signal_list b)"
    by (simp_all add: f)
  then have sets: "fst ` set (map (f a) (signal_list b)) = fst ` set (signal_list b)"
    "signal_key ` set (map (f a) (signal_list b)) = signal_key ` set (signal_list b)" by (metis set_map)+
  have same: "handles_where P ?b = handles_where P b" if "\<And>x. P (snd (f a x)) = P (snd x)" for P
  proof -
    have "(\<exists>s. (k, s) \<in> set (map (f a) (signal_list b)) \<and> P s) = (\<exists>s. (k, s) \<in> set (signal_list b) \<and> P s)" for k
    proof
      assume "\<exists>s. (k, s) \<in> set (map (f a) (signal_list b)) \<and> P s"
      then obtain s x where x: "x \<in> set (signal_list b)" "(k, s) = f a x" "P s" by auto
      then have "fst x = k" "P (snd x)" using f(1) [of x] that [of x] by (metis fst_conv, metis snd_conv)
      then show "\<exists>s. (k, s) \<in> set (signal_list b) \<and> P s" using x(1) by (metis prod.collapse)
    next
      assume "\<exists>s. (k, s) \<in> set (signal_list b) \<and> P s"
      then obtain s where s: "(k, s) \<in> set (signal_list b)" "P s" by blast
      then have "f a (k, s) \<in> set (map (f a) (signal_list b))" unfolding set_map by blast
      moreover from s have "f a (k, s) = (k, snd (f a (k, s)))" "P (snd (f a (k, s)))"
        using f(1) [of "(k, s)"] that [of "(k, s)"] by (simp_all add: prod_eq_iff)
      ultimately show "\<exists>s. (k, s) \<in> set (map (f a) (signal_list b)) \<and> P s" by metis
    qed
    then show ?thesis unfolding handles_where_def registered_def by (simp del: set_map) blast
  qed
  have kinds: "is_output (snd (f a x)) = is_output (snd x)" "is_mapped (snd (f a x)) = is_mapped (snd x)" "is_received (snd (f a x)) = is_received (snd x)" for x
    by (simp_all add: is_output_def is_mapped_def is_received_def f)
  have parts: "signals_ok b" "objects_ok b" "listeners_ok b" "muted_ok b" using ok by (simp_all add: bus_ok_def)
  have "signals_ok ?b" using parts(1) maps sets unfolding signals_ok_def by (simp del: set_map map_map) (simp add: f)
  moreover have "objects_ok ?b = objects_ok b" by (simp add: objects_ok_def same kinds)
  then have "objects_ok ?b" using parts(2) by simp
  moreover have "listeners_ok ?b" "muted_ok ?b" using parts(3,4) by (simp_all add: listeners_ok_def muted_ok_def)
  ultimately show ?thesis unfolding b' bus_ok_def by blast
qed

lemma muted_changed:
  assumes "bus_ok b" "set m \<subseteq> set (transmitters b)"
  shows "bus_ok (b\<lparr>muted := m\<rparr>)"
proof -
  have "signals_ok (b\<lparr>muted := m\<rparr>) = signals_ok b" "objects_ok (b\<lparr>muted := m\<rparr>) = objects_ok b"
    "listeners_ok (b\<lparr>muted := m\<rparr>) = listeners_ok b"
    by (simp_all add: signals_ok_def objects_ok_def listeners_ok_def handles_where_def registered_def)
  then show ?thesis using assms by (simp add: bus_ok_def muted_ok_def)
qed

definition only_muted :: "bus \<Rightarrow> bus \<Rightarrow> bool" where
  "only_muted b b' \<longleftrightarrow> (\<exists>m. b' = b\<lparr>muted := m\<rparr> \<and> set m \<subseteq> set (transmitters b))"

lemma only_mutedI: "set (muted b) \<subseteq> set (transmitters b) \<Longrightarrow> only_muted b b"
  by (auto simp: only_muted_def intro!: exI [of _ "muted b"])

lemma adapter_mutes: "only_muted b b' \<Longrightarrow> i \<in> set (transmitters b) \<Longrightarrow> only_muted b (snd (adapter_Mute on i b'))"
proof -
  assume "only_muted b b'" and i: "i \<in> set (transmitters b)"
  then obtain m where m: "b' = b\<lparr>muted := m\<rparr>" "set m \<subseteq> set (transmitters b)" unfolding only_muted_def by blast
  let ?m = "if on then List.insert i m else removeAll i m"
  have "snd (adapter_Mute on i b') = b\<lparr>muted := ?m\<rparr>" using i by (simp add: m(1) adapter_Mute_def)
  moreover have "set ?m \<subseteq> set (transmitters b)" using i m(2) by auto
  ultimately show ?thesis unfolding only_muted_def by blast
qed

lemma mute_all:
  assumes "bus_ok b"
  shows "only_muted b (snd (MuteAll on b))"
proof -
  have "objects_ok b" using assms by (simp add: bus_ok_def)
  then have sets: "set (transmitters b) = snd ` set (counters b)" by (rule objects_facts(2))
  have same: "only_muted b b" using assms by (simp add: bus_ok_def muted_ok_def only_mutedI)
  have "set xs \<subseteq> set (counters b) \<Longrightarrow> only_muted b b' \<Longrightarrow> only_muted b (fold (\<lambda>x st. snd (adapter_Mute on (snd x) st)) xs b')" for xs b'
  proof (induction xs arbitrary: b')
    case (Cons x xs)
    have "snd x \<in> set (transmitters b)" using Cons.prems(1) unfolding sets by simp
    then have "only_muted b (snd (adapter_Mute on (snd x) b'))" by (rule adapter_mutes [OF Cons.prems(2)])
    from Cons.IH [OF _ this] Cons.prems(1) show ?case by simp
  qed simp
  from this [OF order_refl same] show ?thesis by (simp add: MuteAll_def)
qed

lemma handle_of_name:
  assumes ok: "signals_ok b" and dir: "dir \<noteq> SD_Undefined"
  shows "case GetSignalHandleFromName name dir b of
    (r, None) \<Rightarrow> r = ERR_NOT_FOUND \<and> (dir, name) \<notin> signal_key ` set (signal_list b)
  | (r, Some h) \<Rightarrow> r = ERR_NOERROR \<and> (\<exists>s. (h, s) \<in> registered b \<and> sg_name s = name \<and> sg_direction s = dir)"
proof (cases "FindSignal name dir b")
  case None
  then show ?thesis using dir find_signal_none [of name dir b] by (simp add: GetSignalHandleFromName_def)
next
  case (Some x)
  obtain a s where x: "x = (a, s)" by (cases x)
  then have s: "(a, s) \<in> set (signal_list b)" "sg_name s = name" "sg_direction s = dir" using find_signal_some Some by simp_all
  have "snd ` set (handle_map b) = fst ` set (signal_list b)" using ok by (simp add: signals_ok_def)
  then have "a \<in> snd ` set (handle_map b)" using s(1) by force
  then obtain y where y: "List.find (\<lambda>y. snd y = a) (handle_map b) = Some y" by (cases "List.find (\<lambda>y. snd y = a) (handle_map b)") (auto simp: find_None_iff)
  then have "y \<in> set (handle_map b)" "snd y = a" by (metis (mono_tags, lifting) find_Some_iff nth_mem)+
  then have "(fst y, s) \<in> registered b" using s(1) by (auto simp: registered_def) (metis prod.collapse)
  then show ?thesis using dir Some x y s by (cases y) (auto simp: GetSignalHandleFromName_def)
qed

lemma mute_by_name:
  assumes ok: "bus_ok b"
  shows "\<exists>r b'. Update_mute_command name dir on b = Some (r, b') \<and> only_muted b b'"
proof -
  have parts: "signals_ok b" "objects_ok b" "set (muted b) \<subseteq> set (transmitters b)" using ok by (simp_all add: bus_ok_def muted_ok_def)
  note same = only_mutedI [OF parts(3)]
  show ?thesis
  proof (cases "dir = SD_Output \<and> name \<noteq> ''*''")
    case True
    obtain r h where get: "GetSignalHandleFromName name dir b = (r, h)" by (cases "GetSignalHandleFromName name dir b")
    show ?thesis
    proof (cases h)
      case None
      then show ?thesis using True get same by (simp add: Update_mute_command_def)
    next
      case (Some h)
      then obtain s where s: "(h, s) \<in> registered b" "sg_direction s = dir" "r = ERR_NOERROR"
        using handle_of_name [OF parts(1), of dir name] True get by auto
      have sets: "fst ` set (counters b) = handles_where is_output b" "set (transmitters b) = snd ` set (counters b)"
        using objects_facts [OF parts(2)] by simp_all
      have "h \<in> fst ` set (counters b)" using kinds_of_handle [OF ok s(1), of is_output] s(2) True unfolding sets(1) by (simp add: is_output_def)
      then obtain i where i: "map_of (counters b) h = Some i" by (metis map_of_eq_None_iff not_None_eq)
      then have "i \<in> set (transmitters b)" unfolding sets(2) by (force dest: map_of_SomeD)
      then show ?thesis using True get Some s(3) i adapter_mutes [OF same, of i on]
        by (cases "adapter_Mute on i b") (simp add: Update_mute_command_def MuteSignal_def)
    qed
  next
    case False
    then show ?thesis using same mute_all [OF ok, of on]
      by (cases dir; cases "MuteAll on b") (auto simp: Update_mute_command_def GetSignalHandleFromName_def)
  qed
qed


section \<open>Sequences of operations\<close>

text \<open>\<open>None\<close> is a handle that is used for an object that it is not of.\<close>

datatype bus_op =
    Op_RegisterSignal answers signal_options
  | Op_UnregisterSignal answers nat
  | Op_RegisterDataListener answers nat nat
  | Op_UnregisterDataListener answers nat nat
  | Op_Backlog nat nat
  | Op_Mute string direction bool
  | Op_Allow bool
  | Op_Serialization bool

fun bus_step :: "'d ddl_lib \<Rightarrow> bus_op \<Rightarrow> 'd descriptions \<times> bus \<Rightarrow> ('d descriptions \<times> bus) option" where
  "bus_step lib (Op_RegisterSignal ans so) (ds, b) = Some (snd (RegisterSignal lib ans so (ds, b)))"
| "bus_step lib (Op_UnregisterSignal ans h) (ds, b) = Some (ds, snd (UnregisterSignal ans h b))"
| "bus_step lib (Op_RegisterDataListener ans l h) (ds, b) = Some (ds, snd (RegisterDataListener ans l h b))"
| "bus_step lib (Op_UnregisterDataListener ans l h) (ds, b) = Some (ds, snd (UnregisterDataListener ans l h b))"
| "bus_step lib (Op_Backlog h n) (ds, b) = Some (ds, snd (SetSignalSampleBacklog h n b))"
| "bus_step lib (Op_Mute name dir on) (ds, b) = map_option (\<lambda>x. (ds, snd x)) (Update_mute_command name dir on b)"
| "bus_step lib (Op_Allow allow) (ds, b) = Some (ds, AllowSignalRegistration allow b)"
| "bus_step lib (Op_Serialization on) (ds, b) = Some (ds, snd (serialization_changed on b))"

primrec run_bus :: "'d ddl_lib \<Rightarrow> bus_op list \<Rightarrow> 'd descriptions \<times> bus \<Rightarrow> ('d descriptions \<times> bus) option" where
  "run_bus lib [] st = Some st"
| "run_bus lib (op # ops) st = Option.bind (bus_step lib op st) (run_bus lib ops)"

text \<open>New objects get addresses that are free, and the mapping lets its signals go.\<close>

fun op_possible :: "bus_op \<Rightarrow> bus \<Rightarrow> bool" where
  "op_possible (Op_RegisterSignal ans so) b \<longleftrightarrow> free_addresses ans b"
| "op_possible (Op_RegisterDataListener ans l h) b \<longleftrightarrow> free_addresses ans b"
| "op_possible (Op_UnregisterSignal ans h) b \<longleftrightarrow> isOk (an_unmap ans)"
| "op_possible _ b \<longleftrightarrow> True"

fun run_possible :: "'d ddl_lib \<Rightarrow> bus_op list \<Rightarrow> 'd descriptions \<times> bus \<Rightarrow> bool" where
  "run_possible lib [] st \<longleftrightarrow> True"
| "run_possible lib (op # ops) st \<longleftrightarrow>
     op_possible op (snd st) \<and> (case bus_step lib op st of None \<Rightarrow> True | Some st \<Rightarrow> run_possible lib ops st)"

lemma flags_keep_ok:
  "bus_ok (b\<lparr>allow_registration := f\<rparr>) = bus_ok b" "bus_ok (b\<lparr>enabled_serialization := f\<rparr>) = bus_ok b"
  by (simp_all add: bus_ok_def signals_ok_def objects_ok_def listeners_ok_def muted_ok_def handles_where_def registered_def)

lemma step_keeps_ok:
  assumes ok: "bus_ok b" and op: "op_possible op b"
  shows "\<exists>ds' b'. bus_step lib op (ds, b) = Some (ds', b') \<and> bus_ok b'"
proof (cases op)
  case (Op_RegisterSignal ans so)
  obtain ds' b' where "snd (RegisterSignal lib ans so (ds, b)) = (ds', b')" by (rule prod.exhaust)
  then show ?thesis using register_keeps_ok [OF ok, of ans lib so ds] op Op_RegisterSignal by simp
next
  case (Op_Mute name dir on)
  obtain r b' where mute: "Update_mute_command name dir on b = Some (r, b')" "only_muted b b'" using mute_by_name [OF ok] by blast
  then have "bus_ok b'" using muted_changed [OF ok] by (auto simp: only_muted_def)
  then show ?thesis using Op_Mute mute(1) by simp
qed (use ok op in \<open>simp_all add: unregister_keeps_ok listen_keeps_ok unlisten_keeps_ok backlog_keeps_ok AllowSignalRegistration_def
  serialization_changed_def flags_keep_ok\<close>)

text \<open>C24: The parts of the registration belong together along every sequence of registrations and unregistrations of signals and
  listeners, changes of backlogs, mute commands and flags, when all signals are registered through the signal registry (the
  timing components, which register theirs at the transmission adapter, are not part of it), new objects get free addresses
  and the mapping lets its signals go: names, handles, the properties in the tree, counters, transmitters, receivers with their
  listeners, mapped signals and sample buffers are those of the registered signals, and no command to mute finds a handle of
  another kind.\<close>
theorem bus_stays_consistent:
  assumes "run_possible lib ops (ds, new_bus)"
  shows "\<exists>ds' b. run_bus lib ops (ds, new_bus) = Some (ds', b) \<and> bus_ok b"
proof -
  have "bus_ok b0 \<Longrightarrow> run_possible lib ops (ds, b0) \<Longrightarrow> \<exists>ds' b. run_bus lib ops (ds, b0) = Some (ds', b) \<and> bus_ok b" for b0
  proof (induction ops arbitrary: ds b0)
    case (Cons op ops)
    obtain ds1 b1 where one: "bus_step lib op (ds, b0) = Some (ds1, b1)" "bus_ok b1" using step_keeps_ok Cons.prems by fastforce
    then show ?case using Cons.IH [OF one(2)] Cons.prems(2) by simp
  qed simp
  then show ?thesis using assms bus_ok_new by blast
qed

definition demo_answers :: answers where
  "demo_answers = \<lparr>an_size = (ERR_NOERROR, 8), an_mapping = ERR_NOT_FOUND, an_create = ERR_NOERROR, an_unmap = ERR_NOERROR,
     an_listen = ERR_NOERROR, an_found = (\<lambda>x. if x then ERR_NOERROR else ERR_FAILED),
     an_signal = 1, an_handle = 2, an_object = 3\<rparr>"

definition demo_answers_at :: "nat \<Rightarrow> answers" where
  "demo_answers_at n = demo_answers\<lparr>an_signal := n, an_handle := n + 1, an_object := n + 2\<rparr>"

text \<open>The addresses of the signal that is gone are given again.\<close>

definition demo_ops :: "bus_op list" where
  "demo_ops = [Op_RegisterSignal demo_answers (user_signal_options (Some ''s'') SD_Input),
     Op_RegisterSignal (demo_answers_at 4) (user_signal_options (Some ''s'') SD_Output), Op_RegisterDataListener (demo_answers_at 7) 9 2,
     Op_Mute ''s'' SD_Output True, Op_UnregisterSignal demo_answers 2,
     Op_RegisterSignal demo_answers (user_signal_options (Some ''t'') SD_Input)]"

theorem bus_stays_consistent_witness:
  "let b = snd (the (run_bus demo_ddl demo_ops (new_descriptions demo_ddl, new_bus)))
   in bus_ok b \<and> handle_map b = [(5, 4), (2, 1)] \<and> counters b = [(5, 6)] \<and> muted b = [6] \<and> receivers b = [(2, [3])] \<and> adapters b = [(3, 0, 2)]"
proof -
  have possible: "run_possible demo_ddl demo_ops (new_descriptions demo_ddl, new_bus)" by code_simp
  let ?b = "snd (the (run_bus demo_ddl demo_ops (new_descriptions demo_ddl, new_bus)))"
  have "handle_map ?b = [(5, 4), (2, 1)] \<and> counters ?b = [(5, 6)] \<and> muted ?b = [6] \<and> receivers ?b = [(2, [3])] \<and> adapters ?b = [(3, 0, 2)]"
    by code_simp
  then show ?thesis using bus_stays_consistent [OF possible] by (auto simp: Let_def)
qed



text \<open>A mapped signal that the mapping does not let go stays registered without its sample buffer: it is never received again.\<close>
theorem refused_unregistration_loses_buffer:
  assumes "bus_ok b" "allow_registration b" "FindSignalByHandle h b = Some (a, s)" "is_mapped s" "isFailed (an_unmap ans)"
  shows "let (r, b') = UnregisterSignal ans h b
    in isFailed r \<and> FindSignalByHandle h b' = Some (a, s) \<and> h \<in> set (sample_buffers b) \<and> h \<notin> set (sample_buffers b')"
proof -
  have parts: "signals_ok b" "objects_ok b" using assms(1) by (simp_all add: bus_ok_def)
  have "(h, s) \<in> registered b" using assms(3) find_by_handle [OF parts(1)] by (auto simp: registered_def)
  from kinds_of_handle [OF assms(1) this] have "h \<in> set (sample_buffers b)" unfolding objects_facts(5) [OF parts(2)] using assms(4) by simp
  then show ?thesis using assms unregister_cases [OF assms(1,3), of ans] by simp
qed

end
