(* ===== verification/Step_Data_Access.thy ===== *)
theory Step_Data_Access
  imports Sample_Buffer Std_Map
begin

text \<open>
  What a step reads and writes: \<open>cStepDataAccess\<close> (\<open>src/data_access/fep_step_data_access.{h,cpp}\<close>), on the sample buffers of
  \<open>Sample_Buffer\<close>.

  The buffers of the data access are a function from handles; an input points to the buffer of its handle, and \<open>None\<close> is a
  buffer that is gone, a read behind the end of a sample or a write behind the end of a sample. How the waits for an input end is an argument,
  as are the results of transmitting. The memory of a sample is its list of bytes. Incidents and the event for the state
  machine are values.
\<close>

section \<open>State\<close>

datatype input_strategy = IS_UNKNOWN | IS_IGNORE_INPUT_VALIDITY_VIOLATION | IS_WARN_ABOUT_INPUT_VALIDITY_VIOLATION
  | IS_SKIP_OUTPUT_PUBLISH | IS_SET_STM_TO_ERROR

fun strategy_number :: "input_strategy \<Rightarrow> nat" where
  "strategy_number IS_UNKNOWN = 0"
| "strategy_number IS_IGNORE_INPUT_VALIDITY_VIOLATION = 1"
| "strategy_number IS_WARN_ABOUT_INPUT_VALIDITY_VIOLATION = 2"
| "strategy_number IS_SKIP_OUTPUT_PUBLISH = 3"
| "strategy_number IS_SET_STM_TO_ERROR = 4"

instantiation input_strategy :: linorder
begin

definition less_eq_input_strategy :: "input_strategy \<Rightarrow> input_strategy \<Rightarrow> bool" where
  "less_eq_input_strategy s t \<longleftrightarrow> strategy_number s \<le> strategy_number t"

definition less_input_strategy :: "input_strategy \<Rightarrow> input_strategy \<Rightarrow> bool" where
  "less_input_strategy s t \<longleftrightarrow> strategy_number s < strategy_number t"

instance
proof
  fix s t :: input_strategy
  show "s \<le> t \<Longrightarrow> t \<le> s \<Longrightarrow> s = t" unfolding less_eq_input_strategy_def by (cases s; cases t) simp_all
qed (auto simp: less_eq_input_strategy_def less_input_strategy_def)

end

record input_config =
  ic_handle :: nat
  ic_validAge_sim_us :: timestamp_t
  ic_delay_sim_us :: timestamp_t
  ic_inputViolationStrategy :: input_strategy

record step_input =
  in_name :: string
  in_tmValidAge :: timestamp_t
  in_tmDelay :: timestamp_t
  in_pBuffer :: nat

record step_access =
  m_bNeedToSkip :: bool
  sd_tmCurrSimTime :: timestamp_t
  sd_tmCycle :: timestamp_t
  sd_tmWaitTime :: timestamp_t
  m_oInputs :: "(input_strategy \<times> step_input) list"
  m_oOutputs :: "(nat, user_sample) std_map"

type_synonym buffers = "nat \<Rightarrow> sample_buffer option"

datatype severity = SL_Warning | SL_Critical_Global

datatype step_event = InputViolation severity string | ErrorEvent

definition new_step_access :: step_access where
  "new_step_access = \<lparr>m_bNeedToSkip = False, sd_tmCurrSimTime = 0, sd_tmCycle = 0, sd_tmWaitTime = 0, m_oInputs = [], m_oOutputs = []\<rparr>"

section \<open>Configuration\<close>

text \<open>The multimap has its greatest key first; equal keys are in the order of their insertion.\<close>

fun insert_input :: "input_strategy \<times> step_input \<Rightarrow> (input_strategy \<times> step_input) list \<Rightarrow> (input_strategy \<times> step_input) list" where
  "insert_input x [] = [x]"
| "insert_input x (y # ys) = (if fst x \<le> fst y then y # insert_input x ys else x # y # ys)"

definition ConfigureInput :: "buffers \<Rightarrow> string \<Rightarrow> input_config \<Rightarrow> step_access \<Rightarrow> fep_result \<times> step_access" where
  "ConfigureInput bufs strName c st =
     (if ic_delay_sim_us c < 0 \<or> ic_inputViolationStrategy c = IS_UNKNOWN \<or> ic_validAge_sim_us c < 0 then (ERR_INVALID_ARG, st)
      else if bufs (ic_handle c) = None then (ERR_NOT_FOUND, st)
      else (ERR_NOERROR, st\<lparr>m_oInputs := insert_input (ic_inputViolationStrategy c,
              \<lparr>in_name = strName, in_tmValidAge = ic_validAge_sim_us c, in_tmDelay = ic_delay_sim_us c, in_pBuffer = ic_handle c\<rparr>) (m_oInputs st)\<rparr>))"

text \<open>\<open>sizes\<close> tells the size of the samples of a registered signal.\<close>

definition ConfigureOutput :: "(nat \<Rightarrow> nat option) \<Rightarrow> nat \<Rightarrow> step_access \<Rightarrow> fep_result \<times> step_access" where
  "ConfigureOutput sizes h st =
     (case sizes h of
        None \<Rightarrow> (ERR_NOT_FOUND, st)
      | Some n \<Rightarrow> (ERR_NOERROR, st\<lparr>m_oOutputs := sm_insert h \<lparr>us_time = 0, us_data = replicate n 0\<rparr> (m_oOutputs st)\<rparr>))"

definition step_Clear :: "step_access \<Rightarrow> step_access" where
  "step_Clear st = st\<lparr>m_oInputs := [], m_oOutputs := []\<rparr>"

definition SetCycleTime :: "timestamp_t \<Rightarrow> step_access \<Rightarrow> step_access" where
  "SetCycleTime t st = st\<lparr>sd_tmCycle := t\<rparr>"

definition SetWaitTimeForInputs :: "timestamp_t \<Rightarrow> step_access \<Rightarrow> step_access" where
  "SetWaitTimeForInputs t st = st\<lparr>sd_tmWaitTime := t\<rparr>"

definition SetSkip :: "step_access \<Rightarrow> step_access" where
  "SetSkip st = st\<lparr>m_bNeedToSkip := True\<rparr>"

section \<open>Validation\<close>

definition ApplyInputViolationStrat :: "string \<Rightarrow> input_strategy \<Rightarrow> step_access \<Rightarrow> fep_result \<times> step_access \<times> step_event list" where
  "ApplyInputViolationStrat strName eStrategy st =
     (case eStrategy of
        IS_IGNORE_INPUT_VALIDITY_VIOLATION \<Rightarrow> (ERR_NOERROR, st, [])
      | IS_WARN_ABOUT_INPUT_VALIDITY_VIOLATION \<Rightarrow> (ERR_NOERROR, st, [InputViolation SL_Warning strName])
      | IS_SKIP_OUTPUT_PUBLISH \<Rightarrow> (ERR_NOERROR, st\<lparr>m_bNeedToSkip := True\<rparr>, [InputViolation SL_Critical_Global strName])
      | IS_SET_STM_TO_ERROR \<Rightarrow> (ERR_CANCELLED, st\<lparr>m_bNeedToSkip := True\<rparr>, [InputViolation SL_Critical_Global strName, ErrorEvent])
      | IS_UNKNOWN \<Rightarrow> (ERR_NOERROR, st, []))"

text \<open>\<open>wakes\<close> gives the returns of the waits for an input, as in \<open>WaitUntilInTimeWindow\<close>.\<close>

type_synonym waits = "step_input \<Rightarrow> (bool \<times> timestamp_t \<times> bool) list"

definition input_result :: "waits \<Rightarrow> buffers \<Rightarrow> timestamp_t \<Rightarrow> step_input \<Rightarrow> fep_result option" where
  "input_result wakes bufs now i =
     Option.bind (bufs (in_pBuffer i)) (WaitUntilInTimeWindow (now - in_tmValidAge i) (now + in_tmDelay i) (wakes i))"

fun validate_each ::
  "waits \<Rightarrow> buffers \<Rightarrow> timestamp_t \<Rightarrow> (input_strategy \<times> step_input) list \<Rightarrow> step_access \<Rightarrow> (fep_result \<times> step_access \<times> step_event list) option" where
  "validate_each wakes bufs now [] st = Some (ERR_NOERROR, st, [])"
| "validate_each wakes bufs now ((eStrategy, i) # inputs) st =
     (case input_result wakes bufs now i of
        None \<Rightarrow> None
      | Some nLocalResult \<Rightarrow>
          if isOk nLocalResult then validate_each wakes bufs now inputs st
          else if nLocalResult = ERR_CANCELLED then Some (nLocalResult, st, [])
          else
            case ApplyInputViolationStrat (in_name i) eStrategy st of
              (nResult, st, es) \<Rightarrow>
                if isFailed nResult then Some (nResult, st, es)
                else map_option (\<lambda>(nResult, st, es'). (nResult, st, es @ es')) (validate_each wakes bufs now inputs st))"

definition ValidateInputs ::
  "waits \<Rightarrow> buffers \<Rightarrow> timestamp_t \<Rightarrow> step_access \<Rightarrow> (fep_result \<times> step_access \<times> step_event list) option" where
  "ValidateInputs wakes bufs tmCurrSimTime st =
     validate_each wakes bufs tmCurrSimTime (m_oInputs st) (st\<lparr>sd_tmCurrSimTime := tmCurrSimTime\<rparr>)"

section \<open>Reading and writing\<close>

text \<open>The sample of the user has its handle beside time and content.\<close>

record step_sample = user_sample +
  ss_handle :: nat

definition CopyDataBefore ::
  "nat \<Rightarrow> timestamp_t \<Rightarrow> step_sample \<Rightarrow> buffers \<Rightarrow> (fep_result \<times> step_sample \<times> buffers) option" where
  "CopyDataBefore h tmUpperBound s bufs =
     (case bufs h of
        None \<Rightarrow> Some (ERR_NOT_FOUND, s, bufs)
      | Some b \<Rightarrow>
          (case buffer_LockDataAtUpperBound tmUpperBound b of
             ((r, None), b) \<Rightarrow> Some (r, s, bufs(h \<mapsto> b))
           | ((r, Some (p, valid)), b) \<Rightarrow>
               (case content_of p b of
                  None \<Rightarrow> None
                | Some x \<Rightarrow>
                    if length (us_data s) < length (us_data x) then None
                    else
                      (case buffer_UnlockData p b of
                         None \<Rightarrow> None
                       | Some (_, b) \<Rightarrow>
                           Some (if valid then r else ERR_OUT_OF_SYNC,
                             s\<lparr>us_time := us_time x, ss_handle := h, us_data := us_data x @ drop (length (us_data x)) (us_data s)\<rparr>,
                             bufs(h \<mapsto> b))))))"

definition CopyRecentData ::
  "nat \<Rightarrow> step_sample \<Rightarrow> step_access \<Rightarrow> buffers \<Rightarrow> (fep_result \<times> step_sample \<times> buffers) option" where
  "CopyRecentData h s st bufs = CopyDataBefore h (sd_tmCurrSimTime st) s bufs"

text \<open>An output that is configured takes as many bytes as it has itself; what is sent is the handle and the sample.\<close>

definition step_TransmitData ::
  "(nat \<Rightarrow> fep_result) \<Rightarrow> step_sample \<Rightarrow> step_access \<Rightarrow> (fep_result \<times> step_sample \<times> step_access \<times> (nat \<times> user_sample) list) option" where
  "step_TransmitData results s st =
     (case map_of (m_oOutputs st) (ss_handle s) of
        Some out \<Rightarrow>
          if length (us_data s) < length (us_data out) then None
          else Some (ERR_NOERROR, s, st\<lparr>m_oOutputs :=
                 sm_assign (ss_handle s) (out\<lparr>us_data := take (length (us_data out)) (us_data s)\<rparr>) (m_oOutputs st)\<rparr>, [])
      | None \<Rightarrow>
          let s = s\<lparr>us_time := sd_tmCurrSimTime st + sd_tmCycle st\<rparr>
          in Some (results (ss_handle s), s, st, [(ss_handle s, \<lparr>us_time = us_time s, us_data = us_data s\<rparr>)]))"

fun transmit_each ::
  "(nat \<Rightarrow> fep_result) \<Rightarrow> timestamp_t \<Rightarrow> (nat, user_sample) std_map \<Rightarrow> fep_result \<times> (nat, user_sample) std_map \<times> (nat \<times> user_sample) list" where
  "transmit_each results t [] = (ERR_NOERROR, [], [])"
| "transmit_each results t ((h, s) # outs) =
     (if isFailed (results h) then (ERR_FAILED, (h, s\<lparr>us_time := t\<rparr>) # outs, [(h, s\<lparr>us_time := t\<rparr>)])
      else let (r, outs, sent) = transmit_each results t outs in (r, (h, s\<lparr>us_time := t\<rparr>) # outs, (h, s\<lparr>us_time := t\<rparr>) # sent))"

definition TransmitAllOutputs :: "(nat \<Rightarrow> fep_result) \<Rightarrow> step_access \<Rightarrow> fep_result \<times> step_access \<times> (nat \<times> user_sample) list" where
  "TransmitAllOutputs results st =
     (if m_bNeedToSkip st then (ERR_NOERROR, st\<lparr>m_bNeedToSkip := False\<rparr>, [])
      else let (r, outs, sent) = transmit_each results (sd_tmCurrSimTime st + sd_tmCycle st) (m_oOutputs st)
           in (r, st\<lparr>m_oOutputs := outs, m_bNeedToSkip := False\<rparr>, sent))"

section \<open>The worst violation decides\<close>

definition configure_inputs :: "buffers \<Rightarrow> (string \<times> input_config) list \<Rightarrow> step_access \<Rightarrow> step_access" where
  "configure_inputs bufs = fold (\<lambda>(strName, c) st. snd (ConfigureInput bufs strName c st))"

definition inputs_ok :: "(input_strategy \<times> step_input) list \<Rightarrow> bool" where
  "inputs_ok xs \<longleftrightarrow> sorted_wrt (\<ge>) (map fst xs) \<and> IS_UNKNOWN \<notin> fst ` set xs"

lemma set_insert_input [simp]: "set (insert_input x ys) = insert x (set ys)"
  by (induction ys) auto

lemma insert_input_ok: "inputs_ok ys \<Longrightarrow> fst x \<noteq> IS_UNKNOWN \<Longrightarrow> inputs_ok (insert_input x ys)"
  by (induction ys) (auto simp: inputs_ok_def image_iff)

lemma configured_inputs_ok: "inputs_ok (m_oInputs st) \<Longrightarrow> inputs_ok (m_oInputs (configure_inputs bufs cs st))"
proof (induction cs arbitrary: st)
  case (Cons c cs)
  have "inputs_ok (m_oInputs (snd (ConfigureInput bufs (fst c) (snd c) st)))"
    using Cons.prems by (simp add: ConfigureInput_def insert_input_ok)
  from Cons.IH [OF this] show ?case by (simp add: configure_inputs_def case_prod_beta)
qed (simp add: configure_inputs_def)

lemma configured_skip: "m_bNeedToSkip (configure_inputs bufs cs st) = m_bNeedToSkip st"
proof (induction cs arbitrary: st)
  case (Cons c cs)
  then show ?case by (simp add: configure_inputs_def case_prod_beta) (simp add: ConfigureInput_def)
qed (simp add: configure_inputs_def)

definition violated :: "waits \<Rightarrow> buffers \<Rightarrow> timestamp_t \<Rightarrow> input_strategy \<times> step_input \<Rightarrow> bool" where
  "violated wakes bufs now x \<longleftrightarrow> input_result wakes bufs now (snd x) \<noteq> Some ERR_NOERROR"

fun told :: "input_strategy \<times> step_input \<Rightarrow> step_event list" where
  "told (eStrategy, i) =
     (if eStrategy = IS_WARN_ABOUT_INPUT_VALIDITY_VIOLATION then [InputViolation SL_Warning (in_name i)]
      else if eStrategy = IS_SKIP_OUTPUT_PUBLISH then [InputViolation SL_Critical_Global (in_name i)]
      else if eStrategy = IS_SET_STM_TO_ERROR then [InputViolation SL_Critical_Global (in_name i), ErrorEvent] else [])"

lemma validate_each_spec:
  assumes "inputs_ok xs" "\<forall>x \<in> set xs. input_result wakes bufs now (snd x) \<notin> {None, Some ERR_CANCELLED}"
  shows "validate_each wakes bufs now xs st =
    (let vs = filter (violated wakes bufs now) xs
     in if vs \<noteq> [] \<and> fst (hd vs) = IS_SET_STM_TO_ERROR then Some (ERR_CANCELLED, st\<lparr>m_bNeedToSkip := True\<rparr>, told (hd vs))
        else Some (ERR_NOERROR, st\<lparr>m_bNeedToSkip := m_bNeedToSkip st \<or> IS_SKIP_OUTPUT_PUBLISH \<in> fst ` set vs\<rparr>, concat (map told vs)))"
  using assms
proof (induction xs arbitrary: st)
  case Nil
  then show ?case by simp
next
  case (Cons x xs)
  obtain s i where x: "x = (s, i)" by (cases x)
  have rest: "inputs_ok xs" "\<forall>x \<in> set xs. input_result wakes bufs now (snd x) \<notin> {None, Some ERR_CANCELLED}"
    using Cons.prems by (simp_all add: inputs_ok_def)
  obtain r where r: "input_result wakes bufs now i = Some r" "r \<noteq> ERR_CANCELLED" using Cons.prems(2) by (auto simp: x)
  show ?case
  proof (cases "r = ERR_NOERROR")
    case True
    then show ?thesis using Cons.IH [OF rest, of st] r by (simp add: x violated_def)
  next
    case False
    have "s \<noteq> IS_UNKNOWN" using Cons.prems(1) by (auto simp: inputs_ok_def x)
    moreover have "IS_SET_STM_TO_ERROR \<notin> fst ` set xs" if "s \<noteq> IS_SET_STM_TO_ERROR"
    proof
      assume "IS_SET_STM_TO_ERROR \<in> fst ` set xs"
      then have "IS_SET_STM_TO_ERROR \<le> s" using Cons.prems(1) by (auto simp: inputs_ok_def x)
      then show False using that by (cases s) (simp_all add: less_eq_input_strategy_def)
    qed
    then have "fst (hd (filter (violated wakes bufs now) xs)) \<noteq> IS_SET_STM_TO_ERROR"
      if "s \<noteq> IS_SET_STM_TO_ERROR" "filter (violated wakes bufs now) xs \<noteq> []"
      using that hd_in_set [OF that(2)] by force
    moreover have "violated wakes bufs now (s, i)" using False r by (simp add: violated_def)
    ultimately show ?thesis using False r Cons.IH [OF rest]
      by (cases s) (auto simp: x ApplyInputViolationStrat_def Let_def)
  qed
qed

text \<open>The strategies act in the order of their weight: if an input that must be valid is not, the first one is reported, the
  state machine gets its error and nothing else happens. Otherwise the step goes on, every other violation is
  reported as its strategy says, and the outputs are to be skipped if one of them says so. Here no wait is cancelled and no
  buffer is gone or empty.\<close>
theorem worst_violation_decides:
  assumes "st = configure_inputs bufs cs new_step_access"
    and "\<forall>x \<in> set (m_oInputs st). input_result wakes bufs now (snd x) \<notin> {None, Some ERR_CANCELLED}"
  shows "ValidateInputs wakes bufs now st =
    (let vs = filter (violated wakes bufs now) (m_oInputs st)
     in if IS_SET_STM_TO_ERROR \<in> fst ` set vs
        then Some (ERR_CANCELLED, st\<lparr>sd_tmCurrSimTime := now, m_bNeedToSkip := True\<rparr>, [InputViolation SL_Critical_Global (in_name (snd (hd vs))), ErrorEvent])
        else Some (ERR_NOERROR, st\<lparr>sd_tmCurrSimTime := now, m_bNeedToSkip := IS_SKIP_OUTPUT_PUBLISH \<in> fst ` set vs\<rparr>, concat (map told vs)))"
proof -
  have ok: "inputs_ok (m_oInputs st)" unfolding assms(1) by (rule configured_inputs_ok) (simp add: inputs_ok_def new_step_access_def)
  have skip: "\<not> m_bNeedToSkip st" unfolding assms(1) configured_skip by (simp add: new_step_access_def)
  define vs where "vs = filter (violated wakes bufs now) (m_oInputs st)"
  have vs: "inputs_ok vs" using ok by (auto simp: vs_def inputs_ok_def sorted_wrt_map sorted_wrt_filter)
  have worst: "IS_SET_STM_TO_ERROR \<in> fst ` set vs \<longleftrightarrow> vs \<noteq> [] \<and> fst (hd vs) = IS_SET_STM_TO_ERROR"
  proof (cases vs)
    case (Cons v ws)
    have "IS_SET_STM_TO_ERROR \<le> t \<longleftrightarrow> t = IS_SET_STM_TO_ERROR" for t by (cases t) (simp_all add: less_eq_input_strategy_def)
    then show ?thesis using vs unfolding Cons inputs_ok_def by auto
  qed simp
  have reported: "told (hd vs) = [InputViolation SL_Critical_Global (in_name (snd (hd vs))), ErrorEvent]"
    if "fst (hd vs) = IS_SET_STM_TO_ERROR" using that by (cases "hd vs") simp
  note spec = validate_each_spec [OF ok assms(2), of "st\<lparr>sd_tmCurrSimTime := now\<rparr>", folded vs_def]
  show ?thesis unfolding ValidateInputs_def spec vs_def [symmetric] Let_def worst using skip by (simp add: reported)
qed

definition demo_buffers :: buffers where
  "demo_buffers h = (if h \<in> {1, 2, 3} then Some \<lparr>m_samples = [\<lparr>tmSample = 5, s_ptr = 0, poSample = \<lparr>us_time = 5, us_data = [7, 8]\<rparr>, nLockCount = 0\<rparr>],
     m_oDeletedSlots = [], m_latestSampleTimestamp = 5, b_next = 1\<rparr> else None)"

definition demo_input :: "nat \<Rightarrow> timestamp_t \<Rightarrow> input_strategy \<Rightarrow> input_config" where
  "demo_input h age strategy = \<lparr>ic_handle = h, ic_validAge_sim_us = age, ic_delay_sim_us = 0, ic_inputViolationStrategy = strategy\<rparr>"

definition demo_inputs :: "(string \<times> input_config) list" where
  "demo_inputs = [(''a'', demo_input 1 2 IS_WARN_ABOUT_INPUT_VALIDITY_VIOLATION), (''b'', demo_input 2 2 IS_SKIP_OUTPUT_PUBLISH),
     (''c'', demo_input 3 20 IS_SET_STM_TO_ERROR)]"

theorem worst_violation_decides_witness:
  "map_option (\<lambda>(r, st, es). (r, m_bNeedToSkip st, es)) (ValidateInputs (\<lambda>_. []) demo_buffers 10 (configure_inputs demo_buffers demo_inputs new_step_access)) =
    Some (ERR_NOERROR, True, [InputViolation SL_Critical_Global ''b'', InputViolation SL_Warning ''a''])"
proof -
  let ?st = "configure_inputs demo_buffers demo_inputs new_step_access"
  have inputs: "m_oInputs ?st = [(IS_SET_STM_TO_ERROR, \<lparr>in_name = ''c'', in_tmValidAge = 20, in_tmDelay = 0, in_pBuffer = 3\<rparr>),
      (IS_SKIP_OUTPUT_PUBLISH, \<lparr>in_name = ''b'', in_tmValidAge = 2, in_tmDelay = 0, in_pBuffer = 2\<rparr>),
      (IS_WARN_ABOUT_INPUT_VALIDITY_VIOLATION, \<lparr>in_name = ''a'', in_tmValidAge = 2, in_tmDelay = 0, in_pBuffer = 1\<rparr>)]"
    by code_simp
  have results: "input_result (\<lambda>_. []) demo_buffers 10 i = Some (if in_tmValidAge i = 20 then ERR_NOERROR else ERR_TIMEOUT)"
    if "i \<in> snd ` set (m_oInputs ?st)" for i
    using that by (auto simp: inputs input_result_def demo_buffers_def WaitUntilInTimeWindow_def GetMostRecent_def)
  then have "\<forall>x \<in> set (m_oInputs ?st). input_result (\<lambda>_. []) demo_buffers 10 (snd x) \<notin> {None, Some ERR_CANCELLED}" by simp
  from worst_violation_decides [OF refl this] show ?thesis using results by (simp add: inputs violated_def Let_def)
qed

section \<open>Reading leaves the backlog as it is\<close>

lemma unlock_taken:
  assumes inv: "buffer_inv b" and i: "i < length (m_samples b)"
  shows "buffer_UnlockData (s_ptr (m_samples b ! i)) (snd (take_slot i b)) = Some (ERR_NOERROR, b)"
    and "content_of (s_ptr (m_samples b ! i)) (snd (take_slot i b)) = Some (poSample (m_samples b ! i))"
proof -
  let ?s = "m_samples b ! i" and ?b = "snd (take_slot i b)"
  let ?s' = "?s\<lparr>nLockCount := nLockCount ?s + 1\<rparr>"
  have samples: "m_samples ?b = (m_samples b)[i := ?s']" "m_oDeletedSlots ?b = m_oDeletedSlots b" by (simp_all add: take_slot_def)
  have inv': "buffer_inv ?b" by (rule take_slot_inv [OF inv i])
  have mem: "?s' \<in> set (m_samples ?b @ m_oDeletedSlots ?b)" unfolding samples using i by (simp add: set_update_memI)
  have find: "find (\<lambda>x. s_ptr x = s_ptr ?s) (m_samples ?b @ m_oDeletedSlots ?b) = Some ?s'" using find_slot [OF inv' mem] by simp
  have slot: "slots_ok (m_samples b)" using inv by (simp add: buffer_inv_def)
  then have time: "tmSample ?s = us_time (poSample ?s)" "0 \<le> nLockCount ?s" using i by (simp_all add: slots_ok_def)
  have dis: "distinct (map s_ptr (m_samples b))" using inv by (simp add: buffer_inv_def ptrs_ok_def)
  have "first_index (\<lambda>s. tmSample s = us_time (poSample ?s) \<and> s_ptr s = s_ptr ?s) (m_samples ?b) = Some i"
  proof (cases "first_index (\<lambda>s. tmSample s = us_time (poSample ?s) \<and> s_ptr s = s_ptr ?s) (m_samples ?b)")
    case None
    have "?s' \<in> set (m_samples ?b)" unfolding samples using i by (simp add: set_update_memI)
    then show ?thesis using None time(1) unfolding first_index_None by auto
  next
    case (Some j)
    have "j < length (m_samples b)" "s_ptr (m_samples ?b ! j) = s_ptr ?s" using first_index_Some [OF Some] by (simp_all add: samples)
    then have "s_ptr (m_samples b ! j) = s_ptr ?s" unfolding samples by (cases "j = i") simp_all
    then have "j = i" using dis i \<open>j < length (m_samples b)\<close> by (simp add: distinct_conv_nth) metis
    then show ?thesis using Some by simp
  qed
  then show "buffer_UnlockData (s_ptr ?s) ?b = Some (ERR_NOERROR, b)"
    using find time(2) i by (simp add: buffer_UnlockData_def time_behind_def samples take_slot_def)
  show "content_of (s_ptr ?s) ?b = Some (poSample ?s)" using find by (simp add: content_of_def)
qed

text \<open>A step reads the slot of the backlog with the largest time that is not after the bound, whatever has been received since, and
  the backlog is afterwards as it was before; without such a slot nothing is read. The sample of the step must be at least as
  long as those of the backlog. A slot that is still unused counts as one of time -1: when the backlog has unused slots and no
  sample up to a bound that is not below -1, it is an unused slot that is copied, with its time -1. A copy is reported as out
  of sync if nothing at all has been received.\<close>
theorem copy_reads_newest_before:
  assumes b: "bufs h = Some b" "buffer_inv b" and fits: "\<forall>x \<in> set (m_samples b). length (us_data (poSample x)) \<le> length (us_data s)"
  shows "\<exists>r s'. CopyDataBefore h tmUpperBound s bufs = Some (r, s', bufs) \<and>
    (case filter (\<lambda>x. tmSample x \<le> tmUpperBound) (m_samples b) of
       [] \<Rightarrow> r = ERR_NOT_FOUND \<and> s' = s
     | xs \<Rightarrow> r = (if m_latestSampleTimestamp b \<ge> 0 then ERR_NOERROR else ERR_OUT_OF_SYNC) \<and> ss_handle s' = h \<and>
         us_time s' = tmSample (last xs) \<and> take (length (us_data (poSample (last xs)))) (us_data s') = us_data (poSample (last xs)) \<and>
         length (us_data s') = length (us_data s) \<and> (\<forall>x \<in> set (m_samples b). tmSample x \<le> tmUpperBound \<longrightarrow> tmSample x \<le> us_time s'))"
proof -
  let ?xs = "filter (\<lambda>x. tmSample x \<le> tmUpperBound) (m_samples b)" and ?n = "upper_bound tmUpperBound (m_samples b)"
  have ok: "slots_ok (m_samples b)" using b(2) by (simp add: buffer_inv_def)
  then have sorted: "sorted (map tmSample (m_samples b))" by (simp add: slots_ok_def)
  have "takeWhile (\<lambda>x. tmSample x \<le> tmUpperBound) ys = filter (\<lambda>x. tmSample x \<le> tmUpperBound) ys" if "sorted (map tmSample ys)" for ys :: "slot list"
    using that by (induction ys) (auto simp: eq_commute [of "[]"] filter_empty_conv)
  then have xs: "?xs = takeWhile (\<lambda>x. tmSample x \<le> tmUpperBound) (m_samples b)" using sorted by simp
  then have len: "?n = length ?xs" by (simp add: upper_bound_def)
  have keep: "bufs(h \<mapsto> b) = bufs" using b(1) by auto
  show ?thesis
  proof (cases "?xs = []")
    case True
    then show ?thesis using b len by (simp add: CopyDataBefore_def buffer_LockDataAtUpperBound_def keep)
  next
    case False
    define i where "i = ?n - 1"
    have "0 < length ?xs" "length ?xs \<le> length (m_samples b)" using False by simp_all
    then have i: "i < length (m_samples b)" "i < length ?xs" unfolding i_def len by linarith+
    have at: "?xs ! i = m_samples b ! i" using i(2) unfolding xs by (simp add: takeWhile_nth)
    have "last ?xs = ?xs ! i" using False by (simp add: last_conv_nth i_def len)
    then have last: "last ?xs = m_samples b ! i" by (simp only: at)
    let ?x = "m_samples b ! i"
    have lock: "buffer_LockDataAtUpperBound tmUpperBound b = take_slot i b" using False by (simp add: buffer_LockDataAtUpperBound_def len i_def Let_def)
    have "length (us_data (poSample ?x)) \<le> length (us_data s)" using fits i(1) by simp
    moreover obtain b' where take: "take_slot i b = ((ERR_NOERROR, Some (s_ptr ?x, m_latestSampleTimestamp b \<ge> 0)), b')" by (simp add: take_slot_def)
    moreover have "buffer_UnlockData (s_ptr ?x) b' = Some (ERR_NOERROR, b)" "content_of (s_ptr ?x) b' = Some (poSample ?x)"
      using unlock_taken [OF b(2) i(1)] by (simp_all add: take)
    ultimately have run: "CopyDataBefore h tmUpperBound s bufs = Some (if m_latestSampleTimestamp b \<ge> 0 then ERR_NOERROR else ERR_OUT_OF_SYNC,
        s\<lparr>us_time := us_time (poSample ?x), ss_handle := h, us_data := us_data (poSample ?x) @ drop (length (us_data (poSample ?x))) (us_data s)\<rparr>, bufs)"
      using b(1) by (simp add: CopyDataBefore_def lock keep)
    have time: "us_time (poSample ?x) = tmSample ?x" using ok i(1) by (simp add: slots_ok_def)
    have newest: "tmSample y \<le> tmSample ?x" if "y \<in> set (m_samples b)" "tmSample y \<le> tmUpperBound" for y
    proof -
      have "y \<in> set ?xs" "sorted (map tmSample ?xs)" using that sorted by (simp_all add: sorted_filter)
      moreover obtain j where "j < length ?xs" "y = ?xs ! j" using \<open>y \<in> set ?xs\<close> by (metis in_set_conv_nth)
      ultimately have "sorted (map tmSample ?xs)" "j < length ?xs" "y = ?xs ! j" by blast+
      moreover from this have "j \<le> i" by (simp add: i_def len)
      ultimately have "tmSample y \<le> tmSample (?xs ! i)" using sorted_nth_mono [of "map tmSample ?xs" j i] i(2) by simp
      then show ?thesis by (simp only: at)
    qed
    show ?thesis using False run time newest fits i(1) last by (cases ?xs) auto
  qed
qed

theorem copy_reads_newest_before_witness:
  "\<exists>s'. CopyDataBefore 1 6 \<lparr>us_time = 0, us_data = [0, 0, 0], ss_handle = 9\<rparr> demo_buffers = Some (ERR_NOERROR, s', demo_buffers) \<and>
     us_time s' = 5 \<and> ss_handle s' = 1 \<and> take 2 (us_data s') = [7, 8]"
proof -
  let ?b = "\<lparr>m_samples = [\<lparr>tmSample = 5, s_ptr = 0, poSample = \<lparr>us_time = 5, us_data = [7, 8]\<rparr>, nLockCount = 0\<rparr>],
     m_oDeletedSlots = [], m_latestSampleTimestamp = 5, b_next = 1\<rparr>"
  have b: "demo_buffers 1 = Some ?b" by (simp add: demo_buffers_def)
  have "buffer_inv ?b" by (simp add: buffer_inv_def slots_ok_def ptrs_ok_def)
  from copy_reads_newest_before [where bufs = demo_buffers and h = 1, OF b this, of "\<lparr>us_time = 0, us_data = [0, 0, 0], ss_handle = 9\<rparr>" 6] show ?thesis
    by (simp add: numeral_2_eq_2) blast
qed

text \<open>What is sent at the end of a step has the time of the next one; a skipped step sends nothing.\<close>

lemma transmit_each_ok:
  "\<forall>x \<in> set outs. isOk (results (fst x)) \<Longrightarrow>
   transmit_each results t outs = (ERR_NOERROR, map (\<lambda>(h, s). (h, s\<lparr>us_time := t\<rparr>)) outs, map (\<lambda>(h, s). (h, s\<lparr>us_time := t\<rparr>)) outs)"
  by (induction outs) auto

lemma outputs_at_end_of_step:
  assumes "\<forall>x \<in> set (m_oOutputs st). isOk (results (fst x))"
  shows "TransmitAllOutputs results st =
    (let outs = (if m_bNeedToSkip st then [] else map (\<lambda>(h, s). (h, s\<lparr>us_time := sd_tmCurrSimTime st + sd_tmCycle st\<rparr>)) (m_oOutputs st))
     in (ERR_NOERROR, st\<lparr>m_oOutputs := if m_bNeedToSkip st then m_oOutputs st else outs, m_bNeedToSkip := False\<rparr>, outs))"
  using assms by (simp add: TransmitAllOutputs_def transmit_each_ok Let_def)

text \<open>A step that is to be skipped still sends what is not configured as an output.\<close>
lemma skip_does_not_hold_back:
  "ss_handle s \<notin> fst ` set (m_oOutputs st) \<Longrightarrow>
   step_TransmitData results s (SetSkip st) = Some (results (ss_handle s), s\<lparr>us_time := sd_tmCurrSimTime st + sd_tmCycle st\<rparr>, SetSkip st,
     [(ss_handle s, \<lparr>us_time = sd_tmCurrSimTime st + sd_tmCycle st, us_data = us_data s\<rparr>)])"
  by (simp add: step_TransmitData_def SetSkip_def Let_def map_of_eq_None_iff [THEN iffD2] split: option.split)

text \<open>A sample that is shorter than the configured output is read behind its end.\<close>
lemma short_sample_overread:
  "map_of (m_oOutputs st) (ss_handle s) = Some out \<Longrightarrow> length (us_data s) < length (us_data out) \<Longrightarrow> step_TransmitData results s st = None"
  by (simp add: step_TransmitData_def)

end
