(* ===== verification/Frame_Buffer.thy ===== *)
theory Frame_Buffer
  imports Fep_Prelude
begin

text \<open>
  The distributed data buffer: \<open>cDDBFrame\<close> and \<open>cDDB\<close> (\<open>src/distributed_data_buffer/fep_ddb_frame.{h,cpp}\<close>,
  \<open>fep_ddb.{h,cpp}\<close>). Samples of a signal are gathered into frames; a frame is passed from the buffer that is written
  to one in stock and from there, by a thread, to the buffer that is read.

  The three buffers are fields whose values are exchanged, as the code exchanges pointers. Incidents and calls of listeners
  are values. A step that waits for a lock is \<open>None\<close>. What the copy of a sample and a listener return, and whether the event of a
  thread that has ended is left, are arguments.
\<close>

section \<open>Frames\<close>

type_synonym byte = "8 word"

record frame_sample =
  fs_signal :: nat
  fs_frame :: nat
  fs_number :: nat
  fs_sync :: bool
  fs_time :: timestamp_t
  fs_data :: "byte list"

record ddb_frame =
  m_vecDataSample :: "frame_sample list"
  m_vecDataSampleValidity :: "bool list"
  m_szMaxSize :: nat
  m_szValidCount :: nat
  m_szFrameSize :: nat
  m_bIsCurrent :: bool

definition new_frame :: ddb_frame where
  "new_frame = \<lparr>m_vecDataSample = [], m_vecDataSampleValidity = [], m_szMaxSize = 0, m_szValidCount = 0, m_szFrameSize = 0, m_bIsCurrent = False\<rparr>"

definition GetSample :: "nat \<Rightarrow> ddb_frame \<Rightarrow> frame_sample option" where
  "GetSample nId f =
     (if \<not> m_bIsCurrent f then None
      else if nId \<ge> m_szMaxSize f then None
      else if m_vecDataSampleValidity f ! nId then Some (m_vecDataSample f ! nId) else None)"

definition IsValidSample :: "nat \<Rightarrow> ddb_frame \<Rightarrow> bool" where
  "IsValidSample nId f = (if \<not> m_bIsCurrent f then False else if nId < m_szMaxSize f then m_vecDataSampleValidity f ! nId else False)"

definition IsComplete :: "ddb_frame \<Rightarrow> bool" where
  "IsComplete f \<longleftrightarrow> \<not> (m_szMaxSize f = 0 \<or> \<not> m_bIsCurrent f \<or> m_szFrameSize f \<noteq> m_szValidCount f)"

definition GetValidCount :: "ddb_frame \<Rightarrow> nat" where
  "GetValidCount f = (if \<not> m_bIsCurrent f then 0 else m_szValidCount f)"

definition GetFrameSize :: "ddb_frame \<Rightarrow> nat" where
  "GetFrameSize f = (if \<not> m_bIsCurrent f then 0 else m_szFrameSize f)"

definition largest_frame :: "frame_sample list \<Rightarrow> nat" where
  "largest_frame xs = fold (\<lambda>s i. if fs_frame s > i then fs_frame s else i) xs 0"

definition frame_size :: "nat \<Rightarrow> frame_sample list \<Rightarrow> nat" where
  "frame_size i xs = fold (\<lambda>(n, s) sz. if fs_frame s \<noteq> i then sz else if fs_sync s then n + 1 else n + 2) (enumerate 0 xs) 0"

definition AnalyseFrame :: "ddb_frame \<Rightarrow> ddb_frame" where
  "AnalyseFrame f =
     (let xs = m_vecDataSample f; i = largest_frame xs
      in if i \<noteq> 0
         then f\<lparr>m_vecDataSampleValidity := map (\<lambda>s. fs_frame s = i) xs, m_szValidCount := length (filter (\<lambda>s. fs_frame s = i) xs),
                m_szFrameSize := frame_size i xs, m_bIsCurrent := True\<rparr>
         else f\<lparr>m_vecDataSampleValidity := map (\<lambda>_. False) xs, m_szValidCount := 0, m_szFrameSize := 0, m_bIsCurrent := True\<rparr>)"

definition frame_DeleteMemory :: "ddb_frame \<Rightarrow> ddb_frame" where
  "frame_DeleteMemory f = new_frame"

definition frame_InitMemory :: "nat \<Rightarrow> nat \<Rightarrow> ddb_frame \<Rightarrow> ddb_frame" where
  "frame_InitMemory szMaxEntries szSampleSize f =
     (if m_szMaxSize f \<noteq> 0 then frame_DeleteMemory f else f)\<lparr>m_vecDataSample := replicate szMaxEntries \<lparr>fs_signal = 0, fs_frame = 0, fs_number = 0, fs_sync = False, fs_time = 0, fs_data = replicate szSampleSize 0\<rparr>,
       m_vecDataSampleValidity := replicate szMaxEntries False, m_szMaxSize := szMaxEntries, m_bIsCurrent := False\<rparr>"

definition InvalidateData :: "ddb_frame \<Rightarrow> ddb_frame" where
  "InvalidateData f =
     f\<lparr>m_vecDataSample := map (\<lambda>s. \<lparr>fs_signal = 0, fs_frame = 0, fs_number = 0, fs_sync = False, fs_time = 0,
         fs_data = replicate (length (fs_data s)) 0\<rparr>) (m_vecDataSample f),
       m_vecDataSampleValidity := map (\<lambda>_. False) (m_vecDataSampleValidity f), m_szFrameSize := 0, m_szValidCount := 0, m_bIsCurrent := False\<rparr>"

definition SetSample :: "fep_result \<Rightarrow> frame_sample \<Rightarrow> nat \<Rightarrow> ddb_frame \<Rightarrow> fep_result \<times> ddb_frame" where
  "SetSample copied s n f =
     (if n < m_szMaxSize f then
        let old = m_vecDataSample f ! n;
            new = (if isFailed copied then old\<lparr>fs_data := replicate (length (fs_data old)) 0, fs_frame := 0, fs_sync := False\<rparr> else s)
        in (copied, f\<lparr>m_vecDataSample := (m_vecDataSample f)[n := new], m_bIsCurrent := False\<rparr>)
      else (ERR_MEMORY, f))"

section \<open>The buffer\<close>

datatype delivery_strategy = DDBDS_DeliverIncomplete | DDBDS_DumpIncomplete

datatype ddb_incident = NotInitialized | SampleExceedsBuffer | SampleNotEnqueued | FrameIncomplete | FrameDropped | WrongHandle
  | StockEmpty | ListenerError

record ddb =
  m_hSignal :: nat
  m_pBufferRead :: ddb_frame
  m_pBufferStock :: ddb_frame
  m_pBufferWrite :: ddb_frame
  m_bStockIsFull :: bool
  m_nDDBDeliverStrategy :: delivery_strategy
  m_nPrevFrameId :: nat
  m_nPrevSampleNumber :: nat
  m_bPrevSyncFlag :: bool
  m_lstListeners :: "nat list"
  m_nSharedLockCount :: int
  ddb_thread :: bool
  m_oEventFrameReady :: bool

definition new_ddb :: ddb where
  "new_ddb = \<lparr>m_hSignal = 0, m_pBufferRead = new_frame, m_pBufferStock = new_frame, m_pBufferWrite = new_frame, m_bStockIsFull = False,
     m_nDDBDeliverStrategy = DDBDS_DeliverIncomplete, m_nPrevFrameId = 0, m_nPrevSampleNumber = 0, m_bPrevSyncFlag = True,
     m_lstListeners = [], m_nSharedLockCount = 0, ddb_thread = False, m_oEventFrameReady = False\<rparr>"

definition ddb_DeleteMemory :: "bool \<Rightarrow> ddb \<Rightarrow> ddb" where
  "ddb_DeleteMemory left_over d =
     (let d = (if ddb_thread d then d\<lparr>m_bStockIsFull := False, m_oEventFrameReady := left_over, ddb_thread := False\<rparr> else d)
      in d\<lparr>m_pBufferRead := frame_DeleteMemory (m_pBufferRead d), m_pBufferStock := frame_DeleteMemory (m_pBufferStock d),
           m_pBufferWrite := frame_DeleteMemory (m_pBufferWrite d)\<rparr>)"

definition CreateEntry :: "bool \<Rightarrow> nat \<Rightarrow> nat \<Rightarrow> nat \<Rightarrow> delivery_strategy \<Rightarrow> ddb \<Rightarrow> fep_result \<times> ddb" where
  "CreateEntry left_over hSignal szMaxEntries szSampleSize strategy d =
     (if hSignal = 0 \<or> szMaxEntries = 0 then (ERR_INVALID_ARG, d)
      else
        let d = (ddb_DeleteMemory left_over d)\<lparr>m_nDDBDeliverStrategy := strategy\<rparr>
        in (ERR_NOERROR, d\<lparr>m_pBufferRead := frame_InitMemory szMaxEntries szSampleSize (m_pBufferRead d),
              m_pBufferStock := frame_InitMemory szMaxEntries szSampleSize (m_pBufferStock d),
              m_pBufferWrite := frame_InitMemory szMaxEntries szSampleSize (m_pBufferWrite d), m_hSignal := hSignal, ddb_thread := True\<rparr>))"

text \<open>The lock is taken whether there is a frame or not.\<close>

definition ddb_LockData :: "ddb \<Rightarrow> fep_result \<times> ddb_frame option \<times> ddb" where
  "ddb_LockData d =
     (let d = d\<lparr>m_nSharedLockCount := m_nSharedLockCount d + 1\<rparr>
      in if m_szMaxSize (m_pBufferRead d) \<noteq> 0 \<and> GetFrameSize (m_pBufferRead d) \<noteq> 0 then (ERR_NOERROR, Some (m_pBufferRead d), d)
         else (ERR_EMPTY, None, d))"

definition ddb_UnlockData :: "ddb \<Rightarrow> ddb" where
  "ddb_UnlockData d = d\<lparr>m_nSharedLockCount := m_nSharedLockCount d - 1\<rparr>"

definition SwitchWriteBuffer :: "ddb \<Rightarrow> ddb \<times> ddb_incident list" where
  "SwitchWriteBuffer d =
     (if m_nDDBDeliverStrategy d = DDBDS_DumpIncomplete \<and> GetValidCount (m_pBufferWrite d) \<noteq> GetFrameSize (m_pBufferWrite d)
      then (d, [FrameIncomplete])
      else (d\<lparr>m_pBufferStock := m_pBufferWrite d, m_pBufferWrite := m_pBufferStock d,
              m_oEventFrameReady := m_oEventFrameReady d \<or> \<not> m_bStockIsFull d, m_bStockIsFull := True\<rparr>,
            if m_bStockIsFull d then [FrameDropped] else []))"

definition analyse_and_switch :: "ddb \<Rightarrow> ddb \<times> ddb_incident list" where
  "analyse_and_switch d = SwitchWriteBuffer (d\<lparr>m_pBufferWrite := AnalyseFrame (m_pBufferWrite d)\<rparr>)"

definition ddb_Update :: "fep_result \<Rightarrow> frame_sample \<Rightarrow> ddb \<Rightarrow> ddb \<times> ddb_incident list" where
  "ddb_Update copied s d =
     (if m_hSignal d = 0 \<or> m_szMaxSize (m_pBufferWrite d) = 0 then (d, [NotInitialized])
      else if fs_signal s \<noteq> m_hSignal d then (d, [WrongHandle])
      else
        let (d, es1) = (if fs_frame s > m_nPrevFrameId d \<and> \<not> m_bPrevSyncFlag d then analyse_and_switch d else (d, []));
            (r, f) = SetSample copied s (fs_number s) (m_pBufferWrite d);
            d = d\<lparr>m_pBufferWrite := f\<rparr>;
            es2 = (if isOk r then [] else if r = ERR_MEMORY then [SampleExceedsBuffer] else [SampleNotEnqueued]);
            (d, es3) = (if fs_sync s then analyse_and_switch d else (d, []))
        in (d\<lparr>m_nPrevFrameId := fs_frame s, m_nPrevSampleNumber := fs_number s, m_bPrevSyncFlag := fs_sync s\<rparr>, es1 @ es2 @ es3))"

definition SwitchReadBuffer :: "ddb \<Rightarrow> fep_result \<times> ddb" where
  "SwitchReadBuffer d =
     (if m_bStockIsFull d then (ERR_NOERROR, d\<lparr>m_pBufferStock := m_pBufferRead d, m_pBufferRead := m_pBufferStock d, m_bStockIsFull := False\<rparr>)
      else (ERR_EMPTY, d))"

text \<open>A round of the thread: the listeners that are called with the frame that they get.\<close>

definition ThreadFunc :: "(nat \<Rightarrow> fep_result) \<Rightarrow> ddb \<Rightarrow> (ddb \<times> (nat \<times> ddb_frame) list \<times> ddb_incident list) option" where
  "ThreadFunc answers d =
     (if \<not> ddb_thread d \<or> \<not> m_oEventFrameReady d \<or> m_nSharedLockCount d \<noteq> 0 then None
      else
        let (r, d) = SwitchReadBuffer (d\<lparr>m_oEventFrameReady := False\<rparr>)
        in Some (if isOk r
                 then (d, map (\<lambda>l. (l, m_pBufferRead d)) (m_lstListeners d),
                       map (\<lambda>_. ListenerError) (filter (\<lambda>l. isFailed (answers l)) (m_lstListeners d)))
                 else (d, [], [StockEmpty])))"

definition ResetData :: "ddb \<Rightarrow> ddb option" where
  "ResetData d =
     (if m_nSharedLockCount d \<noteq> 0 then None
      else Some (d\<lparr>m_pBufferRead := InvalidateData (m_pBufferRead d), m_pBufferStock := InvalidateData (m_pBufferStock d),
        m_pBufferWrite := InvalidateData (m_pBufferWrite d), m_nPrevFrameId := 0, m_nPrevSampleNumber := 0, m_bPrevSyncFlag := True\<rparr>))"

definition RegisterSyncListener :: "nat \<Rightarrow> ddb \<Rightarrow> ddb" where
  "RegisterSyncListener l d = d\<lparr>m_lstListeners := m_lstListeners d @ [l]\<rparr>"

text \<open>\<open>std::remove\<close> moves what is kept to the front and leaves the rest as it is; then one element is erased.\<close>

definition UnregisterSyncListener :: "nat \<Rightarrow> ddb \<Rightarrow> fep_result \<times> ddb" where
  "UnregisterSyncListener l d =
     (let kept = filter (\<lambda>x. x \<noteq> l) (m_lstListeners d)
      in if length kept = length (m_lstListeners d) then (ERR_NOT_FOUND, d)
         else (ERR_NOERROR, d\<lparr>m_lstListeners := kept @ drop (length kept + 1) (m_lstListeners d)\<rparr>))"


section \<open>What a frame shows\<close>

text \<open>A group is the samples of one frame in the order of their arrival; of samples with the same number the last one counts. A
  group is whole if its numbers go from 0 to the sample with the sync flag.\<close>

definition last_at :: "nat \<Rightarrow> frame_sample list \<Rightarrow> frame_sample option" where
  "last_at n g = List.find (\<lambda>s. fs_number s = n) (rev g)"

definition numbers :: "frame_sample list \<Rightarrow> nat set" where
  "numbers g = fs_number ` set g"

definition ends_frame :: "nat \<Rightarrow> frame_sample list \<Rightarrow> bool" where
  "ends_frame n g \<longleftrightarrow> (case last_at n g of None \<Rightarrow> False | Some s \<Rightarrow> fs_sync s)"

definition whole :: "frame_sample list \<Rightarrow> bool" where
  "whole g \<longleftrightarrow> numbers g = {..Max (numbers g)} \<and> ends_frame (Max (numbers g)) g"

definition group_size :: "frame_sample list \<Rightarrow> nat" where
  "group_size g = Max (numbers g) + (if ends_frame (Max (numbers g)) g then 1 else 2)"

definition shows_group :: "nat \<Rightarrow> frame_sample list \<Rightarrow> ddb_frame \<Rightarrow> bool" where
  "shows_group entries g f \<longleftrightarrow> m_szMaxSize f = entries \<and> (\<forall>n. GetSample n f = last_at n g) \<and> (\<forall>n. IsValidSample n f \<longleftrightarrow> n \<in> numbers g) \<and>
     GetValidCount f = card (numbers g) \<and> GetFrameSize f = group_size g \<and> (IsComplete f \<longleftrightarrow> whole g)"

lemma last_at_Some: "last_at n g = Some s \<Longrightarrow> s \<in> set g \<and> fs_number s = n"
  unfolding last_at_def by (metis (mono_tags, lifting) find_Some_iff nth_mem set_rev)

lemma last_at_None: "last_at n g = None \<longleftrightarrow> n \<notin> numbers g"
  by (auto simp: last_at_def find_None_iff numbers_def)

lemma last_at_snoc: "last_at n (g @ [s]) = (if fs_number s = n then Some s else last_at n g)"
  by (simp add: last_at_def)

lemma finite_numbers [simp]: "finite (numbers g)" by (simp add: numbers_def)

lemma whole_iff:
  assumes "g \<noteq> []"
  shows "whole g \<longleftrightarrow> card (numbers g) = group_size g"
proof -
  let ?m = "Max (numbers g)"
  have sub: "numbers g \<subseteq> {..?m}" by auto
  then have "card (numbers g) \<le> ?m + 1" using card_mono [of "{..?m}" "numbers g"] by simp
  moreover have "card (numbers g) = ?m + 1 \<longleftrightarrow> numbers g = {..?m}"
  proof
    assume "card (numbers g) = ?m + 1"
    then show "numbers g = {..?m}" using sub card_subset_eq [of "{..?m}" "numbers g"] by simp
  next
    assume "numbers g = {..?m}"
    then have "card (numbers g) = card {..?m}" by (rule arg_cong)
    then show "card (numbers g) = ?m + 1" by simp
  qed
  ultimately show ?thesis by (auto simp: whole_def group_size_def)
qed

lemma largest_frame_eq:
  assumes "x \<in> set xs" "fs_frame x = p" "\<forall>x \<in> set xs. fs_frame x \<le> p"
  shows "largest_frame xs = p"
proof -
  have "fold (\<lambda>s i. if fs_frame s > i then fs_frame s else i) xs i0 = (if xs = [] then i0 else max i0 (Max (fs_frame ` set xs)))" for xs i0
    by (induction xs arbitrary: i0) (auto simp: max_def)
  from this [of xs 0] have "largest_frame xs = Max (fs_frame ` set xs)" unfolding largest_frame_def using assms(1) by auto
  also have "\<dots> = p" using assms by (intro Max_eqI) auto
  finally show ?thesis .
qed

lemma frame_size_eq:
  assumes "m < length xs" "fs_frame (xs ! m) = p" "\<forall>n. m < n \<longrightarrow> n < length xs \<longrightarrow> fs_frame (xs ! n) \<noteq> p"
  shows "frame_size p xs = m + (if fs_sync (xs ! m) then 1 else 2)"
  using assms
proof (induction xs rule: rev_induct)
  case (snoc x xs)
  show ?case
  proof (cases "m = length xs")
    case True
    then show ?thesis using snoc.prems by (simp add: frame_size_def enumerate_append_eq)
  next
    case False
    then have m: "m < length xs" using snoc.prems(1) by simp
    have "fs_frame ((xs @ [x]) ! length xs) \<noteq> p" using snoc.prems(3) [rule_format, of "length xs"] m by simp
    then have x: "fs_frame x \<noteq> p" by simp
    have "\<forall>n. m < n \<longrightarrow> n < length xs \<longrightarrow> fs_frame (xs ! n) \<noteq> p" using snoc.prems(3) by (auto simp: nth_append)
    moreover have "fs_frame (xs ! m) = p" using snoc.prems(2) m by (simp add: nth_append)
    ultimately have "frame_size p xs = m + (if fs_sync (xs ! m) then 1 else 2)" using snoc.IH m by blast
    then show ?thesis using x m by (simp add: frame_size_def enumerate_append_eq nth_append)
  qed
qed simp

text \<open>A buffer that is being filled has the samples of its group, and otherwise older ones.\<close>

definition filled :: "nat \<Rightarrow> nat \<Rightarrow> frame_sample list \<Rightarrow> ddb_frame \<Rightarrow> bool" where
  "filled entries p g f \<longleftrightarrow> length (m_vecDataSample f) = entries \<and> m_szMaxSize f = entries \<and> (\<forall>x \<in> set (m_vecDataSample f). fs_frame x \<le> p) \<and>
     (g \<noteq> [] \<longrightarrow> 0 < p \<and> (\<forall>s \<in> set g. fs_frame s = p \<and> fs_number s < entries) \<and>
       (\<forall>n < entries. case last_at n g of Some s \<Rightarrow> m_vecDataSample f ! n = s | None \<Rightarrow> fs_frame (m_vecDataSample f ! n) < p))"

lemma filled_old: "filled entries p g f \<Longrightarrow> filled entries p [] f" by (simp add: filled_def)

lemma filled_later: "filled entries p [] f \<Longrightarrow> p \<le> q \<Longrightarrow> filled entries q [] f" by (fastforce simp: filled_def)

lemma filled_at:
  assumes "filled entries p g f" "g \<noteq> []" "n < entries"
  shows "fs_frame (m_vecDataSample f ! n) = p \<longleftrightarrow> n \<in> numbers g" "n \<in> numbers g \<Longrightarrow> last_at n g = Some (m_vecDataSample f ! n)"
proof -
  have at: "case last_at n g of Some s \<Rightarrow> m_vecDataSample f ! n = s | None \<Rightarrow> fs_frame (m_vecDataSample f ! n) < p"
    and p: "\<forall>s \<in> set g. fs_frame s = p" using assms by (simp_all add: filled_def)
  show "fs_frame (m_vecDataSample f ! n) = p \<longleftrightarrow> n \<in> numbers g" "n \<in> numbers g \<Longrightarrow> last_at n g = Some (m_vecDataSample f ! n)"
    using at p last_at_Some [of n g] last_at_None [of n g] by (auto split: option.splits)
qed

lemma analysed_shows:
  assumes f: "filled entries p g f" and g: "g \<noteq> []"
  shows "shows_group entries g (AnalyseFrame f)"
proof -
  let ?xs = "m_vecDataSample f" and ?m = "Max (numbers g)"
  have len: "length ?xs = entries" "m_szMaxSize f = entries" and p: "0 < p" "\<forall>x \<in> set ?xs. fs_frame x \<le> p"
    and num: "\<forall>s \<in> set g. fs_number s < entries" using f g by (simp_all add: filled_def)
  have ne: "numbers g \<noteq> {}" using g by (simp add: numbers_def)
  have less: "n < entries" if "n \<in> numbers g" for n using that num by (auto simp: numbers_def)
  have m: "?m \<in> numbers g" using ne by (intro Max_in) simp_all
  note at = filled_at [OF f g]
  have xm: "?xs ! ?m \<in> set ?xs" "fs_frame (?xs ! ?m) = p" using less [OF m] at(1) [OF less [OF m]] m len by simp_all
  have i: "largest_frame ?xs = p" by (rule largest_frame_eq [OF xm p(2)])
  have valid: "(map (\<lambda>s. fs_frame s = p) ?xs) ! n \<longleftrightarrow> n \<in> numbers g" if "n < entries" for n using that at(1) len(1) by simp
  have "{n. n < length ?xs \<and> fs_frame (?xs ! n) = p} = numbers g" using at(1) less len(1) by auto
  then have count: "length (filter (\<lambda>s. fs_frame s = p) ?xs) = card (numbers g)" by (simp add: length_filter_conv_card)
  have "\<forall>n. ?m < n \<longrightarrow> n < length ?xs \<longrightarrow> fs_frame (?xs ! n) \<noteq> p"
  proof (intro allI impI)
    fix n assume n: "?m < n" "n < length ?xs"
    then have "n \<notin> numbers g" using Max_ge [OF finite_numbers, of n g] by (meson leD)
    then show "fs_frame (?xs ! n) \<noteq> p" using at(1) n(2) len(1) by simp
  qed
  from frame_size_eq [OF _ xm(2) this] have "frame_size p ?xs = ?m + (if fs_sync (?xs ! ?m) then 1 else 2)" using less [OF m] len(1) by simp
  then have size: "frame_size p ?xs = group_size g" using at(2) [OF less [OF m] m] by (simp add: group_size_def ends_frame_def)
  have frame: "AnalyseFrame f = f\<lparr>m_vecDataSampleValidity := map (\<lambda>s. fs_frame s = p) ?xs, m_szValidCount := card (numbers g),
      m_szFrameSize := group_size g, m_bIsCurrent := True\<rparr>"
    using p(1) by (simp add: AnalyseFrame_def Let_def i count size)
  have sample: "GetSample n (AnalyseFrame f) = last_at n g" for n
  proof (cases "n < entries")
    case True
    then show ?thesis using valid [OF True] at(2) [OF True] last_at_None [of n g] len
      by (cases "n \<in> numbers g") (simp_all add: frame GetSample_def)
  next
    case False
    then have "n \<notin> numbers g" using less by blast
    then show ?thesis using False len last_at_None [of n g] by (simp add: frame GetSample_def)
  qed
  moreover have "IsValidSample n (AnalyseFrame f) \<longleftrightarrow> n \<in> numbers g" for n
    using valid less len by (auto simp: frame IsValidSample_def)
  moreover have "entries \<noteq> 0" using less [OF m] by simp
  ultimately show ?thesis using len whole_iff [OF g]
    by (auto simp: shows_group_def frame GetValidCount_def GetFrameSize_def IsComplete_def)
qed

lemma analysed_old: "filled entries p g f \<Longrightarrow> filled entries p [] (AnalyseFrame f)"
  by (simp add: filled_def AnalyseFrame_def Let_def)

lemma sample_set:
  assumes f: "filled entries p g f" and s: "fs_number s < entries" "0 < fs_frame s" "if g = [] then p < fs_frame s else fs_frame s = p"
  shows "\<exists>f'. SetSample ERR_NOERROR s (fs_number s) f = (ERR_NOERROR, f') \<and> filled entries (fs_frame s) (g @ [s]) f'"
proof -
  let ?xs = "m_vecDataSample f"
  let ?f = "f\<lparr>m_vecDataSample := ?xs[fs_number s := s], m_bIsCurrent := False\<rparr>"
  have len: "length ?xs = entries" "m_szMaxSize f = entries" and old: "\<forall>x \<in> set ?xs. fs_frame x \<le> p" using f by (simp_all add: filled_def)
  have le: "p \<le> fs_frame s" using s(3) by (cases g) simp_all
  have new: "x = s \<or> x \<in> set ?xs" if "x \<in> set (?xs[fs_number s := s])" for x
    using subsetD [OF set_update_subset_insert that] by simp
  have all: "\<forall>x \<in> set (?xs[fs_number s := s]). fs_frame x \<le> fs_frame s"
  proof
    fix x assume "x \<in> set (?xs[fs_number s := s])"
    from new [OF this] show "fs_frame x \<le> fs_frame s"
    proof
      assume "x \<in> set ?xs"
      then have "fs_frame x \<le> p" using old by blast
      then show ?thesis using le by linarith
    qed simp
  qed
  have mine: "fs_frame x = p \<and> fs_number x < entries" if "x \<in> set g" for x
  proof -
    have "g \<noteq> []" using that by auto
    then show ?thesis using f that by (simp add: filled_def)
  qed
  have group: "\<forall>x \<in> set (g @ [s]). fs_frame x = fs_frame s \<and> fs_number x < entries"
  proof
    fix x assume x: "x \<in> set (g @ [s])"
    show "fs_frame x = fs_frame s \<and> fs_number x < entries"
    proof (cases "x \<in> set g")
      case True
      then have "fs_frame s = p" using s(3) by (cases g) simp_all
      then show ?thesis using mine [OF True] by simp
    next
      case False
      then show ?thesis using x s(1) by simp
    qed
  qed
  have places: "case last_at n (g @ [s]) of Some x \<Rightarrow> ?xs[fs_number s := s] ! n = x | None \<Rightarrow> fs_frame (?xs[fs_number s := s] ! n) < fs_frame s"
    if n: "n < entries" for n
  proof (cases "fs_number s = n")
    case True
    then show ?thesis using n len(1) by (simp add: last_at_snoc)
  next
    case other: False
    show ?thesis
    proof (cases "g = []")
      case True
      have "fs_frame (?xs ! n) \<le> p" using old n len(1) by simp
      then show ?thesis using True other s(3) by (simp add: last_at_def)
    next
      case False
      then have "case last_at n g of Some x \<Rightarrow> ?xs ! n = x | None \<Rightarrow> fs_frame (?xs ! n) < p" using f n by (simp add: filled_def)
      then show ?thesis using False other s(3) by (simp add: last_at_snoc split: option.splits)
    qed
  qed
  have "m_vecDataSample ?f = ?xs[fs_number s := s]" "m_szMaxSize ?f = entries" "length (?xs[fs_number s := s]) = entries" using len by simp_all
  then have "filled entries (fs_frame s) (g @ [s]) ?f" unfolding filled_def using s(2) all group places by presburger
  moreover have "SetSample ERR_NOERROR s (fs_number s) f = (ERR_NOERROR, ?f)" using s(1) len by (simp add: SetSample_def)
  ultimately show ?thesis by blast
qed

section \<open>Refinement of the gathering of groups\<close>

record collector =
  open_group :: "frame_sample list"
  in_stock :: "frame_sample list option"

definition close_group :: "delivery_strategy \<Rightarrow> collector \<Rightarrow> collector" where
  "close_group strategy c =
     (if strategy = DDBDS_DumpIncomplete \<and> \<not> whole (open_group c) then c\<lparr>open_group := []\<rparr>
      else c\<lparr>open_group := [], in_stock := Some (open_group c)\<rparr>)"

definition collect :: "delivery_strategy \<Rightarrow> frame_sample \<Rightarrow> collector \<Rightarrow> collector" where
  "collect strategy s c =
     (let c = (if open_group c \<noteq> [] \<and> fs_frame (last (open_group c)) < fs_frame s then close_group strategy c else c);
          c = c\<lparr>open_group := open_group c @ [s]\<rparr>
      in if fs_sync s then close_group strategy c else c)"

datatype ddb_op = Received frame_sample | Round

fun ddb_step :: "ddb_op \<Rightarrow> ddb \<Rightarrow> ddb \<times> ddb_frame list" where
  "ddb_step (Received s) d = (fst (ddb_Update ERR_NOERROR s d), [])"
| "ddb_step Round d =
     (case ThreadFunc (\<lambda>_. ERR_NOERROR) d of None \<Rightarrow> (d, []) | Some (d, calls, _) \<Rightarrow> (d, if calls = [] then [] else [snd (hd calls)]))"

fun collector_step :: "delivery_strategy \<Rightarrow> ddb_op \<Rightarrow> collector \<Rightarrow> collector \<times> frame_sample list list" where
  "collector_step strategy (Received s) c = (collect strategy s c, [])"
| "collector_step strategy Round c = (case in_stock c of None \<Rightarrow> (c, []) | Some g \<Rightarrow> (c\<lparr>in_stock := None\<rparr>, [g]))"

fun ddb_run :: "ddb_op list \<Rightarrow> ddb \<Rightarrow> ddb \<times> ddb_frame list" where
  "ddb_run [] d = (d, [])"
| "ddb_run (op # ops) d = (let (d, fs) = ddb_step op d; (d, fs') = ddb_run ops d in (d, fs @ fs'))"

fun collector_run :: "delivery_strategy \<Rightarrow> ddb_op list \<Rightarrow> collector \<Rightarrow> collector \<times> frame_sample list list" where
  "collector_run strategy [] c = (c, [])"
| "collector_run strategy (op # ops) c =
     (let (c, gs) = collector_step strategy op c; (c, gs') = collector_run strategy ops c in (c, gs @ gs'))"

text \<open>Numbers of frames do not go back, and a frame that has ended is not taken up again.\<close>

fun well_ordered :: "nat \<Rightarrow> nat \<Rightarrow> nat \<Rightarrow> bool \<Rightarrow> ddb_op list \<Rightarrow> bool" where
  "well_ordered hSignal entries p ended [] \<longleftrightarrow> True"
| "well_ordered hSignal entries p ended (Round # ops) \<longleftrightarrow> well_ordered hSignal entries p ended ops"
| "well_ordered hSignal entries p ended (Received s # ops) \<longleftrightarrow> fs_signal s = hSignal \<and> fs_number s < entries \<and>
     (if ended then p < fs_frame s else p \<le> fs_frame s) \<and> well_ordered hSignal entries (fs_frame s) (fs_sync s) ops"

definition gathers :: "nat \<Rightarrow> nat \<Rightarrow> delivery_strategy \<Rightarrow> nat \<Rightarrow> ddb \<Rightarrow> collector \<Rightarrow> bool" where
  "gathers hSignal entries strategy p d c \<longleftrightarrow> m_hSignal d = hSignal \<and> hSignal \<noteq> 0 \<and> entries \<noteq> 0 \<and> m_nDDBDeliverStrategy d = strategy \<and>
     ddb_thread d \<and> m_nSharedLockCount d = 0 \<and> m_lstListeners d \<noteq> [] \<and>
     filled entries p (open_group c) (m_pBufferWrite d) \<and> filled entries p [] (m_pBufferStock d) \<and> filled entries p [] (m_pBufferRead d) \<and>
     (m_bStockIsFull d \<longleftrightarrow> in_stock c \<noteq> None) \<and> (m_oEventFrameReady d \<longleftrightarrow> m_bStockIsFull d) \<and>
     (\<forall>g. in_stock c = Some g \<longrightarrow> shows_group entries g (m_pBufferStock d))"

lemma closed:
  assumes d: "gathers hSignal entries strategy p d c" and g: "open_group c \<noteq> []"
  shows "gathers hSignal entries strategy p (fst (analyse_and_switch d)) (close_group strategy c)"
proof -
  let ?w = "AnalyseFrame (m_pBufferWrite d)"
  have f: "filled entries p (open_group c) (m_pBufferWrite d)" using d by (simp add: gathers_def)
  have w: "shows_group entries (open_group c) ?w" "filled entries p [] ?w" using analysed_shows [OF f g] analysed_old [OF f] by simp_all
  then have "GetValidCount ?w = GetFrameSize ?w \<longleftrightarrow> whole (open_group c)" using whole_iff [OF g] by (simp add: shows_group_def)
  then show ?thesis using d w by (auto simp: gathers_def analyse_and_switch_def SwitchWriteBuffer_def close_group_def)
qed

lemma later: "gathers hSignal entries strategy p d c \<Longrightarrow> open_group c = [] \<Longrightarrow> p \<le> q \<Longrightarrow> gathers hSignal entries strategy q d c"
  using filled_later [of entries p _ q] by (simp add: gathers_def)

definition follows :: "nat \<Rightarrow> nat \<Rightarrow> delivery_strategy \<Rightarrow> ddb \<Rightarrow> collector \<Rightarrow> bool" where
  "follows hSignal entries strategy d c \<longleftrightarrow> gathers hSignal entries strategy (m_nPrevFrameId d) d c \<and> (m_bPrevSyncFlag d \<longleftrightarrow> open_group c = []) \<and>
     (open_group c \<noteq> [] \<longrightarrow> fs_frame (last (open_group c)) = m_nPrevFrameId d)"

lemma close_when_new:
  assumes d: "follows hSignal entries strategy d c" and s: "if m_bPrevSyncFlag d then m_nPrevFrameId d < fs_frame s else m_nPrevFrameId d \<le> fs_frame s"
  defines "d1 \<equiv> (if fs_frame s > m_nPrevFrameId d \<and> \<not> m_bPrevSyncFlag d then fst (analyse_and_switch d) else d)"
    and "c1 \<equiv> (if open_group c \<noteq> [] \<and> fs_frame (last (open_group c)) < fs_frame s then close_group strategy c else c)"
  shows "gathers hSignal entries strategy (m_nPrevFrameId d) d1 c1 \<and>
    (if open_group c1 = [] then m_nPrevFrameId d < fs_frame s else fs_frame s = m_nPrevFrameId d)"
proof (cases "open_group c \<noteq> [] \<and> m_nPrevFrameId d < fs_frame s")
  case True
  then have "gathers hSignal entries strategy (m_nPrevFrameId d) (fst (analyse_and_switch d)) (close_group strategy c)"
    using d closed by (simp add: follows_def)
  moreover have "open_group (close_group strategy c) = []" by (simp add: close_group_def)
  ultimately show ?thesis using True d by (simp add: d1_def c1_def follows_def)
next
  case False
  then show ?thesis using d s by (auto simp: d1_def c1_def follows_def)
qed

lemma received_follows:
  assumes d: "follows hSignal entries strategy d c" and s: "fs_signal s = hSignal" "fs_number s < entries"
    "if m_bPrevSyncFlag d then m_nPrevFrameId d < fs_frame s else m_nPrevFrameId d \<le> fs_frame s"
  shows "follows hSignal entries strategy (fst (ddb_Update ERR_NOERROR s d)) (collect strategy s c) \<and>
    m_nPrevFrameId (fst (ddb_Update ERR_NOERROR s d)) = fs_frame s \<and> m_bPrevSyncFlag (fst (ddb_Update ERR_NOERROR s d)) = fs_sync s"
proof -
  define d1 where "d1 = (if fs_frame s > m_nPrevFrameId d \<and> \<not> m_bPrevSyncFlag d then fst (analyse_and_switch d) else d)"
  define c1 where "c1 = (if open_group c \<noteq> [] \<and> fs_frame (last (open_group c)) < fs_frame s then close_group strategy c else c)"
  have one: "gathers hSignal entries strategy (m_nPrevFrameId d) d1 c1"
    and new: "if open_group c1 = [] then m_nPrevFrameId d < fs_frame s else fs_frame s = m_nPrevFrameId d"
    using close_when_new [OF d s(3)] unfolding d1_def c1_def by blast+
  have f1: "filled entries (m_nPrevFrameId d) (open_group c1) (m_pBufferWrite d1)" using one by (simp add: gathers_def)
  have pos: "0 < fs_frame s"
  proof (cases "open_group c1 = []")
    case True
    then show ?thesis using new by simp
  next
    case False
    then show ?thesis using new f1 by (simp add: filled_def)
  qed
  from sample_set [OF f1 s(2) pos new] obtain f where f: "SetSample ERR_NOERROR s (fs_number s) (m_pBufferWrite d1) = (ERR_NOERROR, f)"
    "filled entries (fs_frame s) (open_group c1 @ [s]) f" by blast
  define d2 where "d2 = d1\<lparr>m_pBufferWrite := f\<rparr>"
  define c2 where "c2 = c1\<lparr>open_group := open_group c1 @ [s]\<rparr>"
  have le: "m_nPrevFrameId d \<le> fs_frame s" using s(3) by (cases "m_bPrevSyncFlag d") simp_all
  have two: "gathers hSignal entries strategy (fs_frame s) d2 c2"
    using one f(2) filled_later [OF _ le] unfolding gathers_def d2_def c2_def by simp
  define d3 where "d3 = (if fs_sync s then fst (analyse_and_switch d2) else d2)"
  define c3 where "c3 = (if fs_sync s then close_group strategy c2 else c2)"
  have "open_group c2 \<noteq> []" by (simp add: c2_def)
  then have three: "gathers hSignal entries strategy (fs_frame s) d3 c3"
    unfolding d3_def c3_def using two closed [OF two] by (cases "fs_sync s") simp_all
  have last: "(open_group c3 = [] \<longleftrightarrow> fs_sync s) \<and> (open_group c3 \<noteq> [] \<longrightarrow> fs_frame (last (open_group c3)) = fs_frame s)"
    by (simp add: c3_def c2_def close_group_def)
  have ready: "m_hSignal d = hSignal" "hSignal \<noteq> 0" "m_szMaxSize (m_pBufferWrite d) \<noteq> 0"
    using d by (simp_all add: follows_def gathers_def filled_def)
  have run: "fst (ddb_Update ERR_NOERROR s d) = d3\<lparr>m_nPrevFrameId := fs_frame s, m_nPrevSampleNumber := fs_number s, m_bPrevSyncFlag := fs_sync s\<rparr>"
  proof -
    have e1: "(if fs_frame s > m_nPrevFrameId d \<and> \<not> m_bPrevSyncFlag d then analyse_and_switch d else (d, [])) = (d1, es)" if "es = 
      (if fs_frame s > m_nPrevFrameId d \<and> \<not> m_bPrevSyncFlag d then snd (analyse_and_switch d) else [])" for es
      using that by (simp add: d1_def)
    show ?thesis using ready s(1) f(1) unfolding ddb_Update_def Let_def e1 [OF refl]
      by (auto simp: d2_def [symmetric] d3_def case_prod_beta)
  qed
  have c3: "collect strategy s c = c3" unfolding collect_def Let_def c1_def [symmetric] c2_def [symmetric] c3_def by (rule refl)
  show ?thesis unfolding run c3 follows_def using three last by (simp add: gathers_def)
qed

lemma round_follows:
  assumes d: "follows hSignal entries strategy d c"
  shows "follows hSignal entries strategy (fst (ddb_step Round d)) (fst (collector_step strategy Round c)) \<and>
    m_nPrevFrameId (fst (ddb_step Round d)) = m_nPrevFrameId d \<and> m_bPrevSyncFlag (fst (ddb_step Round d)) = m_bPrevSyncFlag d \<and>
    list_all2 (\<lambda>f g. shows_group entries g f) (snd (ddb_step Round d)) (snd (collector_step strategy Round c))"
proof (cases "in_stock c")
  case None
  then show ?thesis using d by (simp add: follows_def gathers_def ThreadFunc_def)
next
  case (Some g)
  then show ?thesis using d by (auto simp: follows_def gathers_def ThreadFunc_def SwitchReadBuffer_def Let_def hd_map)
qed

text \<open>C28: What a listener gets is the groups, each at most once and in order: for every delivered frame the samples, which of them
  are valid, their count, the size and whether it is complete are those of one group of samples with the same frame number,
  however the receiving and the rounds of the thread interleave. The samples have to be those of the signal, with numbers in the
  frame that the buffer has entries for, and to come in the order of their frames: frame numbers never go down, and go up after a
  sync flag. Then, although the buffers are used again and again, no sample of an older frame is shown; after a sender has
  started again with lower frame numbers one is (\<open>restarted_sender_shows_old_sample\<close>). Nobody else locks, resets or unregisters
  meanwhile. A group is closed by its sync flag or by the first sample of a later frame; the thread gets the last group that
  was closed, without those that are not whole if they are to be dumped.\<close>
theorem deliveries_follow_groups:
  assumes "CreateEntry left_over hSignal entries szSampleSize strategy (RegisterSyncListener l new_ddb) = (ERR_NOERROR, d)"
    and "well_ordered hSignal entries 0 True ops"
  shows "list_all2 (\<lambda>f g. shows_group entries g f) (snd (ddb_run ops d)) (snd (collector_run strategy ops \<lparr>open_group = [], in_stock = None\<rparr>))"
proof -
  have "follows hSignal entries strategy d c \<Longrightarrow> well_ordered hSignal entries (m_nPrevFrameId d) (m_bPrevSyncFlag d) ops \<Longrightarrow>
    list_all2 (\<lambda>f g. shows_group entries g f) (snd (ddb_run ops d)) (snd (collector_run strategy ops c))" for d c
  proof (induction ops arbitrary: d c)
    case (Cons op ops)
    show ?case
    proof (cases op)
      case (Received s)
      then have "fs_signal s = hSignal" "fs_number s < entries"
        "if m_bPrevSyncFlag d then m_nPrevFrameId d < fs_frame s else m_nPrevFrameId d \<le> fs_frame s"
        "well_ordered hSignal entries (fs_frame s) (fs_sync s) ops" using Cons.prems(2) by simp_all
      note s = this
      from received_follows [OF Cons.prems(1) s(1-3)] s(4) Cons.IH show ?thesis by (simp add: Received case_prod_beta Let_def)
    next
      case Round
      from round_follows [OF Cons.prems(1)] Cons.IH Cons.prems(2) show ?thesis
        by (simp add: Round case_prod_beta Let_def list_all2_appendI)
    qed
  qed simp
  moreover have "follows hSignal entries strategy d \<lparr>open_group = [], in_stock = None\<rparr>" "m_nPrevFrameId d = 0" "m_bPrevSyncFlag d"
    using assms(1) by (auto simp: CreateEntry_def RegisterSyncListener_def new_ddb_def ddb_DeleteMemory_def frame_DeleteMemory_def
        frame_InitMemory_def new_frame_def follows_def gathers_def filled_def split: if_splits)
  ultimately show ?thesis using assms(2) by simp
qed

definition demo_sample :: "nat \<Rightarrow> nat \<Rightarrow> bool \<Rightarrow> frame_sample" where
  "demo_sample i n sync = \<lparr>fs_signal = 3, fs_frame = i, fs_number = n, fs_sync = sync, fs_time = 0, fs_data = [of_nat i]\<rparr>"

definition demo_receptions :: "ddb_op list" where
  "demo_receptions = [Received (demo_sample 1 0 False), Received (demo_sample 1 1 True), Round, Received (demo_sample 2 1 False), Round,
     Received (demo_sample 4 0 True), Round, Round]"

definition demo_ddb :: ddb where
  "demo_ddb = snd (CreateEntry False 3 2 1 DDBDS_DumpIncomplete (RegisterSyncListener 7 new_ddb))"

theorem deliveries_follow_groups_witness:
  "\<exists>f1 f2. snd (ddb_run demo_receptions demo_ddb) = [f1, f2] \<and>
     GetSample 0 f1 = Some (demo_sample 1 0 False) \<and> GetSample 1 f1 = Some (demo_sample 1 1 True) \<and> IsComplete f1 \<and>
     GetSample 0 f2 = Some (demo_sample 4 0 True) \<and> GetSample 1 f2 = None \<and> GetFrameSize f2 = 1"
proof -
  have create: "CreateEntry False 3 2 1 DDBDS_DumpIncomplete (RegisterSyncListener 7 new_ddb) = (ERR_NOERROR, demo_ddb)"
    by (simp add: demo_ddb_def CreateEntry_def Let_def)
  have ordered: "well_ordered 3 2 0 True demo_receptions" by (simp add: demo_receptions_def demo_sample_def)
  have groups: "snd (collector_run DDBDS_DumpIncomplete demo_receptions \<lparr>open_group = [], in_stock = None\<rparr>) =
      [[demo_sample 1 0 False, demo_sample 1 1 True], [demo_sample 4 0 True]]"
    by (simp add: demo_receptions_def demo_sample_def collect_def close_group_def whole_def numbers_def ends_frame_def last_at_def atMost_Suc numeral_2_eq_2)
  show ?thesis using deliveries_follow_groups [OF create ordered] unfolding groups
    by (auto simp: list_all2_Cons2 shows_group_def last_at_def demo_sample_def group_size_def ends_frame_def numbers_def whole_def atMost_Suc)
qed

section \<open>Where the buffer shows something else\<close>

text \<open>A sender that starts again with the first frame: of its shorter frame nothing is shown, but a sample of an old one.\<close>
lemma restarted_sender_shows_old_sample:
  "let f = last (snd (ddb_run (concat (map (\<lambda>i. [Received (demo_sample i 0 False), Received (demo_sample i 1 True), Round]) [5, 6, 7]) @
       [Received (demo_sample 1 0 True), Round]) (demo_ddb\<lparr>m_nDDBDeliverStrategy := DDBDS_DeliverIncomplete\<rparr>)))
   in GetSample 0 f = None \<and> GetSample 1 f = Some (demo_sample 5 1 True)"
  by code_simp

text \<open>A frame in stock is still in stock after a reset, but empty: the listeners get a frame without samples.\<close>
lemma reset_leaves_empty_frame:
  assumes "m_bStockIsFull d" "ResetData d = Some d'" "m_oEventFrameReady d" "ddb_thread d"
  shows "\<exists>d'' calls es. ThreadFunc answers d' = Some (d'', calls, es) \<and> map fst calls = m_lstListeners d \<and>
    (\<forall>(l, f) \<in> set calls. GetFrameSize f = 0 \<and> (\<forall>n. GetSample n f = None))"
  using assms by (auto simp: ResetData_def ThreadFunc_def SwitchReadBuffer_def Let_def InvalidateData_def GetFrameSize_def GetSample_def
      comp_def split: if_splits)

text \<open>A listener that is registered twice: taking it away takes away the wrong element.\<close>
lemma duplicate_listener_corrupts_list:
  "m_lstListeners (snd (UnregisterSyncListener 1 (new_ddb\<lparr>m_lstListeners := [1, 1, 2]\<rparr>))) = [2, 2]"
  "m_lstListeners (snd (UnregisterSyncListener 1 (new_ddb\<lparr>m_lstListeners := [1, 2, 1]\<rparr>))) = [2, 1]"
  by (simp_all add: UnregisterSyncListener_def Let_def)

text \<open>A read that fails because there is no frame keeps its lock: no frame is delivered until it is given back.\<close>
lemma failed_lock_blocks_thread:
  assumes "m_nSharedLockCount d = 0" "GetFrameSize (m_pBufferRead d) = 0"
  shows "\<exists>d'. ddb_LockData d = (ERR_EMPTY, None, d') \<and> ThreadFunc answers d' = None \<and> ddb_UnlockData d' = d"
  using assms by (simp add: ddb_LockData_def ThreadFunc_def ddb_UnlockData_def)

end
