(* ===== verification/Spec2Isabelle.thy ===== *)
theory Spec2Isabelle
  imports Listener_Registry State_Lifecycle Step_Trigger Fragmentation Lock_Step_Safety Sample_Buffer Transmission Property_Config Component_Lifecycle Scheduler_Service Data_Item_Queue
    Signal_Removal Step_Data_Access Frame_Buffer
begin

text \<open>
  \<^bold>\<open>FEP participant: a verification development.\<close>

  The FEP library (\<open>src/src\<close>, headers in \<open>src/include\<close>) makes a program a participant of a distributed simulation.
  Every participant has a state machine that others can command, exchanges samples of signals with other participants
  over a transport, has a tree of properties that others can read, set and mirror, and runs jobs in steps of a simulation
  time that a timing master distributes in locked steps. This development models these parts as definitions in HOL and
  proves what makes them correct. The parts, the theories and the code:

  \<^item> \<open>Fep_Prelude\<close>, \<open>Std_Map\<close>: result codes (\<open>fep_errors.h\<close>), 32 and 64 bit integers with their wrap-around, ordered
    maps with the laws of \<open>std::map\<close> as a locale and its interpretation.
  \<^item> \<open>Listener_Registry\<close>: \<open>src/src/_common/fep_observer_pattern.h\<close>.
  \<^item> \<open>State_Machine\<close>, \<open>State_Lifecycle\<close>: \<open>src/src/statemachine\<close>. The record of the state machine, the table of
    transitions, the calls of a transition in their order, the queue of events and its worker, shutdown and waiting; then
    the history of a participant against the state chart of the documentation.
  \<^item> \<open>Schedule_Map\<close>, \<open>Step_Trigger\<close>, \<open>Timing_Task\<close>, \<open>Timing_Client\<close>, \<open>Timing_Master\<close>, \<open>Lock_Step\<close>,
    \<open>Lock_Step_Safety\<close>: \<open>src/src/fep3/components/legacy/timing/locked_step_legacy\<close>. The ring of schedule items, the
    strategies that trigger a step, the worker of a task (a program counter), the client and the master with their
    timeouts, the scheduler that puts them together; then a master and its tasks as one system of interleaved steps with
    messages under way.
  \<^item> \<open>Wire_Format\<close>, \<open>Fragmentation\<close>, \<open>Transmission\<close>, \<open>Sample_Buffer\<close>: \<open>src/src/transmission_adapter\<close> and
    \<open>src/src/data_access\<close>. The bytes of headers and timing messages, samples cut into fragments, transmitter and receiver
    with queue and listeners, the numbering of samples and the detection of lost ones, the backlog of a received signal.
  \<^item> \<open>Property_Tree\<close>, \<open>Property_Mirror\<close>, \<open>Property_Sync\<close>, \<open>Property_Config\<close>: \<open>src/src/fep3/components/legacy/property_tree\<close>
    and \<open>src/include/fep3/base/properties\<close>. Properties, the tree, JSON; commands of other participants, proxies and
    mirrors; that a mirror follows its source; the configuration service that names types and values by texts.
  \<^item> \<open>Clock\<close>, \<open>Clock_Sync\<close>: \<open>src/include/fep3/components/clock\<close>, \<open>src/src/fep3/components/clock\<close> and
    \<open>clock_sync_default\<close>. Discrete, continuous and simulated clocks and the events they tell their sinks, interpolated time;
    the registry of clocks, the master that passes its events to the clocks of slaves.
  \<^item> \<open>Timer_Scheduler\<close>, \<open>Scheduler_Service\<close>: \<open>src/src/fep3/components/scheduler\<close>. Jobs as timers of a clock, both ways to
    process their queue, the check of their run time; the registry of schedulers and jobs.
  \<^item> \<open>Component_Lifecycle\<close>: \<open>component_registry.cpp\<close> and what \<open>fep_module.cpp\<close> does when the state machine asks for, enters
    or leaves a state.
  \<^item> \<open>Data_Item_Queue\<close>: \<open>src/include/fep3/components/data_registry\<close> and \<open>data_reader*.cpp\<close>. The ring and the dynamic queue of
    samples and stream types, the backlog of a reader and how a job reads it.
  \<^item> \<open>Signal_Description\<close>, \<open>Signal_Registry\<close>, \<open>Signal_Removal\<close>: \<open>src/src/signal_registry\<close> with the bookkeeping of
    \<open>fep_data_access.cpp\<close> and \<open>fep_transmission.cpp\<close>. The descriptions of types; signals with their handles, counters,
    transmitters, receivers, listeners and sample buffers as one state, from registration to removal.
  \<^item> \<open>Step_Data_Access\<close>: \<open>src/src/data_access/fep_step_data_access.cpp\<close>. The inputs of a step and the strategies for those
    that are too old, what a step reads and transmits.
  \<^item> \<open>Frame_Buffer\<close>: \<open>src/src/distributed_data_buffer\<close>. Samples gathered into frames, the three buffers that change
    their places, the thread that passes frames to listeners.

  \<^bold>\<open>How the model is made.\<close> A class is a record with the names of its members; an operation is a function from the state
  to the new state and what it returns; what a component calls out to (listeners, other participants) is an argument that
  gives the answers, and the calls made are part of the result, in their order. Results are the codes of \<open>fep_errors.h\<close>.
  What the C++ program does not define (an index out of range, a pointer to something deleted) is \<open>None\<close>. Threads are
  step functions with a program counter where interleaving matters (the workers of tasks, the timing master, the sender and
  the worker of a receiver), otherwise an operation is atomic. Addresses of new objects are inputs, too, and may be used again. Clock readings,
  waits and what arrives while waiting are inputs. Libraries outside the repository (drivers, DDL, JSON, the conversion
  of numbers to text) are parameters; what is used of them is a named hypothesis with an instance that satisfies it.

  \<^bold>\<open>What is shown.\<close> For the timing: whatever the interleaving of ticks, acknowledgements and computations, no task starts
  a step before all tasks due at the step before are done, and time never runs ahead of a task; the schedule refines a
  step counter, is built as specified, and its arithmetic is right as long as it fits into 64 bits. For the state
  machine: the states a participant passes form a path in the chart, each transition calls its listeners once and in
  order, shutdown is always reached. For transmission: a receiver is a queue with room for its containers, whose samples arrive
  whole and in order, with exactly the gaps reported
  that the numbers show; a locked sample does not change under its reader. For properties: the tree refines a map from
  paths to values and its invariant is kept by the seven operations on values and branches; a change that differs is announced
  upwards once to everyone; JSON and the texts of the
  configuration service are read back as written, as far as the library reads back numbers; deleting ends; a mirror has the values
  of its source. For clocks: a sink is told exactly the changes, in order; simulated time is deterministic; interpolated time is as
  close as half a round trip; a slave tells its sinks what its master tells; a clock that is gone is only used if a second
  initialisation has replaced it. For jobs and components: on the simulated clock a job runs exactly at its delay
  and the multiples of its cycle, as long as no job fails; the components are created, initialised, made ready, started and
  taken back in their order, all or none, and follow their protocol as long as initialisations are completed. For data: both queues show a reader the newest items in order, and a job
  sees exactly the samples before its time; a resolved type is that of the current description, and a remote
  configuration is taken whole or not at all; the parts of a registered signal belong together through every sequence of
  operations on the signal registry, and unregistering undoes registering up to an empty branch in the property tree; a step stops at the worst violation of its inputs and reads the newest
  sample that is not too new; the frames of the distributed data buffer are the groups of samples with the same number.

  Locales are the interfaces: \<open>std_container\<close> (ordered maps), the queue of events, the byte order of a machine, the view
  of a tree by a projection of its nodes, \<open>item_queue\<close> (interpreted on the ring as \<open>ring\<close> and on the dynamic queue as
  \<open>dynamic\<close>); each is interpreted on the definitions of the model, and the properties use the
  facts of the interpretations.

  \<^bold>\<open>Loops and fuel.\<close> Loops over data are structural recursion or have a measure. \<open>goto_loop\<close> of the schedule map is
  bounded by the length of the ring; the deletion of a property takes the size of the tree as fuel, which its theorem
  shows to suffice; waiting for the shutdown is a bounded number of worker steps, which its theorem gives. \<open>flush_queue\<close>,
  \<open>receive_items\<close> and \<open>process_queue\<close> of the timers (the loops over a queue that the body changes) are partial functions with \<open>None\<close> for a
  loop that does not end; the theorems about them state that there is a result.

  \<^bold>\<open>Where the code and its intention part.\<close> The findings are proved as lemmas beside the properties: for example that a
  pending trigger is lost, that a schedule whose least common multiple overflows is accepted, that a mirror of \<open>a\<close> takes
  changes of \<open>ab\<close> for its own, that a job which fails stops the clock, that a second initialisation of the clock service leaves a
  pointer to a clock that is gone, that a participant whose components cannot be initialised goes on as if they had been, that a
  description which is refused is used, that a type resolved before a
  replacement keeps its old text, and that a mapped signal which is not let go loses its buffer.

  \<^bold>\<open>Not modelled.\<close> The transport drivers (they call RTI DDS and ZeroMQ), the network address and command line helpers
  (operating system), RPC stubs (generated), the automation interface and the tooling (remote control of other programs),
  the signals that the timing components register at the transmission adapter, past the signal registry,
  mapping (it rests on the external DDL library, which is a parameter of \<open>Signal_Description\<close>), the registry of data readers
  and writers, the incident handler, the formatting of messages, logging. Of the transmission
  adapter its creation and destruction and the dispatch of messages are left out. Locks are not modelled: an operation that
  takes a lock is atomic. Null pointers, which the code refuses first, are left out.
\<close>

end
